(* ===== verification/Prelude.thy ===== *)
theory Prelude
  imports Main "HOL-Library.Word"
begin

unbundle bit_operations_syntax

section \<open>Shared types, constants and lemmas\<close>

text \<open>
  What every theory of the development uses: the machine types of
  \<^verbatim>\<open>source/types.h\<close> (the compiler is a 16-bit one: \<open>uint\<close> has 16 bits, \<open>ul_t\<close> and
  \<open>lp_t\<close> have 32), the error codes and limits of \<^verbatim>\<open>source/ulib/ulib.h\<close>, byte strings,
  and the generic lemmas on words and lists the components share.
  The collection \<open>u16_simps\<close> moves facts about 16-bit counters to \<open>nat\<close>.
\<close>

named_theorems u16_simps

type_synonym u8 = "8 word"
type_synonym u16 = "16 word"
type_synonym u32 = "32 word"

text \<open>Error codes: a result of at least \<open>ERROR_ANY\<close> is an error.\<close>

definition ERROR_NOT_FOUND :: u16 where [simp]: "ERROR_NOT_FOUND = 0xFFFF"
definition ERROR_EXISTS :: u16 where [simp]: "ERROR_EXISTS = 0xFFFE"
definition ERROR_IO :: u16 where [simp]: "ERROR_IO = 0xFFFD"
definition ERROR_NO_SPACE :: u16 where [simp]: "ERROR_NO_SPACE = 0xFFFC"
definition ERROR_ANY :: u16 where [simp]: "ERROR_ANY = 0xFFFB"
definition UNKNOWN_VALUE :: u16 where [simp]: "UNKNOWN_VALUE = 0xFFFF"

text \<open>A byte string from a literal; C strings are kept without their final 0.\<close>

definition bytes :: "string \<Rightarrow> u8 list" where
  "bytes s = map of_char s"

lemma bytes_simps [simp]:
  "bytes [] = []" "bytes (c # s) = of_char c # bytes s"
  by (simp_all add: bytes_def)

lemma length_bytes [simp]: "length (bytes s) = length s"
  by (simp add: bytes_def)

text \<open>The C string that starts at the first byte of a buffer.\<close>

definition cstring :: "u8 list \<Rightarrow> u8 list" where
  "cstring b = takeWhile (\<lambda>c. c \<noteq> 0) b"

lemma cstring_nonzero: "0 \<notin> set (cstring b)"
  by (auto simp: cstring_def dest: set_takeWhileD)

lemma cstring_append_zero [simp]: "0 \<notin> set s \<Longrightarrow> cstring (s @ 0 # r) = s"
  by (induction s) (auto simp: cstring_def)

lemma cstring_id: "0 \<notin> set s \<Longrightarrow> cstring s = s"
  by (induction s) (auto simp: cstring_def)

section \<open>Words and natural numbers\<close>

lemma unat_u16_lt: "unat (x :: u16) < 65536"
  using unsigned_less [of x] by simp

lemma unat_u32_lt: "unat (x :: u32) < 4294967296"
  using unsigned_less [of x] by simp

lemma unat_of_nat_u16 [u16_simps]: "n < 65536 \<Longrightarrow> unat (of_nat n :: u16) = n"
  by (simp add: unat_of_nat)

lemma unat_of_nat_u32: "n < 4294967296 \<Longrightarrow> unat (of_nat n :: u32) = n"
  by (simp add: unat_of_nat)

lemma unat_plus_u16: "unat (x :: u16) + unat y < 65536 \<Longrightarrow> unat (x + y) = unat x + unat y"
  by (simp add: unat_word_ariths)

lemma unat_plus_u32: "unat (x :: u32) + unat y < 4294967296 \<Longrightarrow> unat (x + y) = unat x + unat y"
  by (simp add: unat_plus_if_size word_size)

lemma unat_plus1_u16 [u16_simps]: "unat (x :: u16) < 65535 \<Longrightarrow> unat (x + 1) = unat x + 1"
  by (simp add: unat_word_ariths)

lemma unat_ucast_u16_u32 [simp]: "unat (ucast (x :: u16) :: u32) = unat x"
  using unat_u16_lt [of x] by (simp add: unsigned_ucast_eq take_bit_nat_eq_self)

lemma unat_u8_lt: "unat (x :: u8) < 256"
  using unsigned_less [of x] by simp

lemma unat_ucast_u8_u16 [simp]: "unat (ucast (x :: u8) :: u16) = unat x"
  using unat_u8_lt [of x] by (simp add: unsigned_ucast_eq take_bit_nat_eq_self)

lemma ucast_u16_u32_u16 [simp]: "(ucast (ucast (x :: u16) :: u32) :: u16) = x"
proof -
  have "unat (ucast (ucast x :: u32) :: u16) = take_bit 16 (unat (ucast x :: u32))"
    by (rule unsigned_ucast_eq [where 'c = 16, simplified])
  also have "\<dots> = unat x"
    unfolding unat_ucast_u16_u32 using unat_u16_lt [of x] by (simp add: take_bit_nat_eq_self)
  finally show ?thesis by (simp add: word_unat_eq_iff)
qed

section \<open>Searching a range\<close>

lemma find_upt_Some_iff:
  "find Q [0 ..< k] = Some n \<longleftrightarrow> n < k \<and> Q n \<and> (\<forall>m < n. \<not> Q m)"
  by (auto simp: find_Some_iff)

lemma find_upt_None_iff: "find Q [0 ..< k] = None \<longleftrightarrow> (\<forall>n < k. \<not> Q n)"
  by (auto simp: find_None_iff)

lemma all_below [simp]:
  "(\<forall>m < (2 :: nat). P m) \<longleftrightarrow> P 0 \<and> P 1"
  "(\<forall>m < (3 :: nat). P m) \<longleftrightarrow> P 0 \<and> P 1 \<and> P 2"
  "(\<forall>m < (4 :: nat). P m) \<longleftrightarrow> P 0 \<and> P 1 \<and> P 2 \<and> P 3"
  by (auto simp: eval_nat_numeral less_Suc_eq)

end
