(* ===== verification/Ulib_Memory.thy ===== *)
theory Ulib_Memory
  imports Prelude
begin

section \<open>Memory functions (source/ulib/ulib.c)\<close>

text \<open>
  The near memory a pointer reaches is a function from 16-bit addresses to bytes; address arithmetic
  wraps at 16 bits, as it does in the code. \<open>memcpy\<close> copies upwards or downwards by the order of its
  two pointers; \<open>memcpy_moves\<close> shows that this is right for every overlap.
\<close>

type_synonym mem = "u16 \<Rightarrow> u8"

definition getHI :: "u16 \<Rightarrow> u8" where
  "getHI c = ucast (drop_bit 8 c AND 0xFF)"

definition getLO :: "u16 \<Rightarrow> u8" where
  "getLO c = ucast (c AND 0xFF)"

definition memcpy :: "mem \<Rightarrow> u16 \<Rightarrow> u16 \<Rightarrow> u16 \<Rightarrow> u16 \<times> mem" where
  "memcpy m dst src sz =
     (let rdir = \<not> src > dst
      in (sz, foldl (\<lambda>m i. let c = (if rdir then sz - (of_nat i + 1) else of_nat i)
                              in m(dst + c := m (src + c))) m [0 ..< unat sz]))"

definition memset :: "mem \<Rightarrow> u16 \<Rightarrow> u8 \<Rightarrow> u16 \<Rightarrow> u16 \<times> mem" where
  "memset m dst value sz =
     (sz, foldl (\<lambda>m i. m(dst + of_nat i := value)) m [0 ..< unat sz])"

text \<open>\<open>memcmp\<close> on the bytes at two pointers; the result is a 16-bit difference.\<close>

definition memcmp :: "u8 list \<Rightarrow> u8 list \<Rightarrow> nat \<Rightarrow> u16" where
  "memcmp m1 m2 sz =
     (case find (\<lambda>i. m1 ! i \<noteq> m2 ! i) [0 ..< sz] of
        Some i \<Rightarrow> ucast (m1 ! i) - ucast (m2 ! i) | None \<Rightarrow> 0)"

text \<open>The bytes of a range of memory, and memory with a range replaced.\<close>

definition get_mem :: "mem \<Rightarrow> u16 \<Rightarrow> nat \<Rightarrow> u8 list" where
  "get_mem m a n = map (\<lambda>i. m (a + of_nat i)) [0 ..< n]"

definition put_mem :: "mem \<Rightarrow> u16 \<Rightarrow> u8 list \<Rightarrow> mem" where
  "put_mem m a bs x = (if unat (x - a) < length bs then bs ! unat (x - a) else m x)"

lemma length_get_mem [simp]: "length (get_mem m a n) = n"
  by (simp add: get_mem_def)

lemma put_mem_nat:
  assumes "unat a + length bs \<le> 65536"
  shows "put_mem m a bs x =
    (if unat a \<le> unat x \<and> unat x < unat a + length bs then bs ! (unat x - unat a) else m x)"
proof (cases "unat a \<le> unat x")
  case True
  then have "unat (x - a) = unat x - unat a" by (simp add: unat_sub word_le_nat_alt)
  then show ?thesis using True by (auto simp: put_mem_def)
next
  case False
  then have "unat (x - a) = 65536 + unat x - unat a"
    using unat_sub_if_size [of x a] by (simp add: word_size)
  then have "\<not> unat (x - a) < length bs" using assms False by simp
  then show ?thesis using False by (simp add: put_mem_def)
qed

text \<open>Copying a byte next to a range that has been copied extends the range.\<close>

lemma put_mem_snoc:
  assumes "i < 65536" "length bs = i"
  shows "(put_mem m d bs)(d + of_nat i := v) = put_mem m d (bs @ [v])"
proof (rule ext)
  fix x
  have "unat (x - d) = i \<longleftrightarrow> x - d = of_nat i" using assms by (auto simp: word_unat_eq_iff unat_of_nat_u16)
  then have "unat (x - d) = i \<longleftrightarrow> x = d + of_nat i" by (auto simp: algebra_simps)
  then show "((put_mem m d bs)(d + of_nat i := v)) x = put_mem m d (bs @ [v]) x"
    using assms(2) by (auto simp: put_mem_def nth_append)
qed

lemma put_mem_nil [simp]: "put_mem m d [] = m"
  by (simp add: put_mem_def fun_eq_iff)

lemma foldl_upt_Suc: "foldl f m [0 ..< Suc k] = f (foldl f m [0 ..< k]) k"
  by simp

lemma memset_put: "snd (memset m dst v n) = put_mem m dst (replicate (unat n) v)"
proof -
  let ?f = "\<lambda>m i. m(dst + of_nat i := v)"
  have "foldl ?f m [0 ..< k] = put_mem m dst (replicate k v)" if "k \<le> 65536" for k
    using that
  proof (induction k)
    case (Suc k)
    have "foldl ?f m [0 ..< Suc k] = (foldl ?f m [0 ..< k])(dst + of_nat k := v)" by (rule foldl_upt_Suc)
    also have "foldl ?f m [0 ..< k] = put_mem m dst (replicate k v)" using Suc.prems by (intro Suc.IH) simp
    also have "(put_mem m dst (replicate k v))(dst + of_nat k := v) = put_mem m dst (replicate k v @ [v])"
      using Suc.prems by (intro put_mem_snoc) simp_all
    also have "replicate k v @ [v] = replicate (Suc k) v" by (simp add: replicate_append_same)
    finally show ?case .
  qed simp
  then show ?thesis using unat_u16_lt [of n] by (simp add: memset_def)
qed

lemma memcmp_zero_iff:
  assumes "length a = n" "length b = n"
  shows "memcmp a b n = 0 \<longleftrightarrow> a = b"
proof -
  have "ucast (x :: u8) - ucast (y :: u8) = (0 :: u16) \<longleftrightarrow> x = y" for x y
    by (metis right_minus_eq unat_ucast_u8_u16 word_unat_eq_iff)
  then show ?thesis using assms
    by (auto simp: memcmp_def find_upt_Some_iff find_upt_None_iff split: option.split intro: nth_equalityI)
qed

lemma nth_get_mem: "i < n \<Longrightarrow> get_mem m a n ! i = m (a + of_nat i)"
  by (simp add: get_mem_def)

lemma put_mem_cons: "(put_mem m (d + 1) bs)(d := v) = put_mem m d (v # bs)"
proof (rule ext)
  fix x
  show "((put_mem m (d + 1) bs)(d := v)) x = put_mem m d (v # bs) x"
  proof (cases "x = d")
    case False
    then have "unat (x - d) \<noteq> 0" by (simp add: unat_eq_0)
    moreover have "unat (x - (d + 1)) = unat (x - d) - 1"
      using \<open>unat (x - d) \<noteq> 0\<close> by (metis diff_diff_eq unat_minus_one unat_eq_0)
    ultimately show ?thesis using False by (auto simp: put_mem_def nth_Cons')
  qed (simp add: put_mem_def)
qed

lemma get_mem_Suc: "get_mem m a (Suc k) = get_mem m a k @ [m (a + of_nat k)]"
  by (simp add: get_mem_def)

lemma memcpy_up:
  assumes "src > dst" "unat src + n \<le> 65536"
  defines "f \<equiv> \<lambda>m i. m(dst + of_nat i := m (src + of_nat i :: u16))"
  shows "k \<le> n \<Longrightarrow> foldl f m [0 ..< k] = put_mem m dst (get_mem m src k)"
proof (induction k)
  case (Suc k)
  have d: "unat dst < unat src" using assms(1) by (simp add: word_less_nat_alt)
  have "unat (of_nat k :: u16) = k" using Suc.prems assms(2) by (intro unat_of_nat_u16) simp
  then have "unat (src + of_nat k) = unat src + k" using Suc.prems assms(2) by (simp add: unat_plus_u16)
  then have read: "put_mem m dst (get_mem m src k) (src + of_nat k) = m (src + of_nat k)"
    using d Suc.prems assms(2) by (simp add: put_mem_nat)
  have "foldl f m [0 ..< Suc k] = f (foldl f m [0 ..< k]) k" by (rule foldl_upt_Suc)
  also have "\<dots> = f (put_mem m dst (get_mem m src k)) k" using Suc by simp
  also have "\<dots> = put_mem m dst (get_mem m src k @ [m (src + of_nat k)])"
    unfolding f_def read using Suc.prems assms(2) by (intro put_mem_snoc) simp_all
  finally show ?case by (simp only: get_mem_Suc)
qed (simp add: get_mem_def)

lemma memcpy_down:
  assumes "\<not> src > dst" "unat dst + n \<le> 65536"
  defines "f \<equiv> \<lambda>m i. m(dst + (of_nat n - (of_nat i + 1)) := m (src + (of_nat n - (of_nat i + 1)) :: u16))"
  shows "k \<le> n \<Longrightarrow>
    foldl f m [0 ..< k] = put_mem m (dst + of_nat (n - k)) (get_mem m (src + of_nat (n - k)) k)"
proof (induction k)
  case (Suc k)
  let ?c = "n - Suc k"
  let ?m = "put_mem m (dst + of_nat (n - k)) (get_mem m (src + of_nat (n - k)) k)"
  have n: "n - k = Suc ?c" using Suc.prems by simp
  have c: "(of_nat n - (of_nat k + 1) :: u16) = of_nat ?c"
    using Suc.prems by (simp add: of_nat_diff)
  have le: "unat src \<le> unat dst" using assms(1) by (simp add: word_less_nat_alt)
  have u: "unat (a + of_nat j) = unat a + j" if "j \<le> n" "unat a + j < 65536" for a :: u16 and j
  proof -
    have "unat (of_nat j :: u16) = j" using that by (intro unat_of_nat_u16) simp
    then show ?thesis using that by (simp add: unat_plus_u16)
  qed
  have "unat (src + of_nat ?c) = unat src + ?c" using le assms(2) Suc.prems by (intro u) simp_all
  moreover have "unat (dst + of_nat (n - k)) = unat dst + (n - k)" if "0 < k"
    using that assms(2) Suc.prems by (intro u) simp_all
  moreover have "\<not> unat dst + (n - k) \<le> unat src + ?c" using le Suc.prems by linarith
  ultimately have read: "?m (src + of_nat ?c) = m (src + of_nat ?c)"
    using Suc.prems assms(2)
    by (cases "0 < k") (simp_all only: put_mem_nat length_get_mem if_False simp_thms, simp_all add: put_mem_nat get_mem_def)
  have "foldl f m [0 ..< Suc k] = f (foldl f m [0 ..< k]) k" by (rule foldl_upt_Suc)
  also have "\<dots> = f ?m k" using Suc by simp
  also have "\<dots> = ?m(dst + of_nat ?c := m (src + of_nat ?c))" unfolding f_def c read ..
  also have "\<dots> = put_mem m (dst + of_nat ?c) (m (src + of_nat ?c) # get_mem m (src + of_nat (n - k)) k)"
  proof -
    have "dst + of_nat (n - k) = dst + of_nat ?c + 1" by (simp only: n of_nat_Suc ac_simps)
    then show ?thesis by (simp only: put_mem_cons)
  qed
  also have "m (src + of_nat ?c) # get_mem m (src + of_nat (n - k)) k = get_mem m (src + of_nat ?c) (Suc k)"
    by (rule nth_equalityI)
      (auto simp: nth_get_mem nth_Cons n ac_simps simp del: of_nat_diff split: nat.split)
  finally show ?case .
qed (simp add: get_mem_def)

subsection \<open>Adjacent ranges of memory\<close>

lemma unat_minus_of_nat:
  "n < 65536 \<Longrightarrow> unat (z - of_nat n :: u16) = (if n \<le> unat z then unat z - n else unat z + 65536 - n)"
  by (simp add: unat_sub_if_size word_size unat_of_nat_u16)

lemma unat_past:
  fixes x a b :: u16
  assumes "b = a + of_nat n" "n < 65536"
  shows "unat (x - b) = (if n \<le> unat (x - a) then unat (x - a) - n else unat (x - a) + 65536 - n)"
proof -
  have "x - b = (x - a) - of_nat n" using assms(1) by simp
  then show ?thesis by (simp only: unat_minus_of_nat [OF assms(2)])
qed

lemma put_mem_after:
  assumes "length xs + length ys \<le> 65536" "b = a + of_nat (length xs)"
  shows "put_mem (put_mem m a xs) b ys = put_mem m a (xs @ ys)"
proof (rule ext)
  fix x
  let ?d = "unat (x - a)" and ?n = "length xs"
  have d: "unat (x - b) = (if ?n \<le> ?d then ?d - ?n else ?d + 65536 - ?n)" if "?n < 65536"
    by (rule unat_past) (use assms(2) that in simp_all)
  show "put_mem (put_mem m a xs) b ys x = put_mem m a (xs @ ys) x"
  proof (cases "?n < 65536")
    case True
    then show ?thesis using d assms(1) unat_u16_lt [of "x - a"] by (auto simp: put_mem_def nth_append)
  next
    case False
    then have "ys = []" using assms(1) by (cases ys) auto
    then show ?thesis by simp
  qed
qed

lemma put_mem_before:
  assumes "length xs + length ys \<le> 65536" "b = a + of_nat (length xs)"
  shows "put_mem (put_mem m b ys) a xs = put_mem m a (xs @ ys)"
proof (rule ext)
  fix x
  let ?d = "unat (x - a)" and ?n = "length xs"
  have d: "unat (x - b) = (if ?n \<le> ?d then ?d - ?n else ?d + 65536 - ?n)" if "?n < 65536"
    by (rule unat_past) (use assms(2) that in simp_all)
  show "put_mem (put_mem m b ys) a xs x = put_mem m a (xs @ ys) x"
  proof (cases "?n < 65536")
    case True
    then show ?thesis using d assms(1) unat_u16_lt [of "x - a"] by (auto simp: put_mem_def nth_append)
  next
    case False
    then have "ys = []" using assms(1) by (cases ys) auto
    then show ?thesis by simp
  qed
qed

lemma put_mem_same: "length xs = length ys \<Longrightarrow> put_mem (put_mem m a xs) a ys = put_mem m a ys"
  by (auto simp: put_mem_def fun_eq_iff)

text \<open>Reading inside a range that was written.\<close>

lemma get_put_mem:
  assumes "k + n \<le> length bs" "length bs \<le> 65536" "b = a + of_nat k"
  shows "get_mem (put_mem m a bs) b n = take n (drop k bs)"
proof (rule nth_equalityI)
  show "length (get_mem (put_mem m a bs) b n) = length (take n (drop k bs))" using assms(1) by simp
  fix i assume "i < length (get_mem (put_mem m a bs) b n)"
  then have i: "i < n" by simp
  have "b + of_nat i - a = of_nat (k + i)" using assms(3) by simp
  then have "unat (b + of_nat i - a) = k + i"
    using i assms(1,2) by (simp only: unat_of_nat_u16)
  then show "get_mem (put_mem m a bs) b n ! i = take n (drop k bs) ! i"
    using i assms(1) by (simp add: nth_get_mem put_mem_def)
qed

lemma get_put_mem0: "n \<le> length bs \<Longrightarrow> length bs \<le> 65536 \<Longrightarrow> get_mem (put_mem m a bs) a n = take n bs"
  using get_put_mem [of 0 n bs a a m] by simp

text \<open>Overwriting a part of a range that was written.\<close>

lemma put_mem_inside:
  assumes "k + length xs \<le> length bs" "length bs \<le> 65536" "b = a + of_nat k"
  shows "put_mem (put_mem m a bs) b xs = put_mem m a (take k bs @ xs @ drop (k + length xs) bs)"
proof (cases "k < 65536")
  case True
  show ?thesis
  proof (rule ext)
    fix x
    show "put_mem (put_mem m a bs) b xs x = put_mem m a (take k bs @ xs @ drop (k + length xs) bs) x"
      using unat_past [OF assms(3) True, of x] assms(1,2) unat_u16_lt [of "x - a"]
      by (auto simp: put_mem_def nth_append)
  qed
next
  case False
  then have "xs = []" using assms(1,2) by (cases xs) auto
  then show ?thesis by simp
qed

lemma memcpy_put:
  assumes "unat src + unat n \<le> 65536" "unat dst + unat n \<le> 65536"
  shows "memcpy m dst src n = (n, put_mem m dst (get_mem m src (unat n)))"
proof (cases "src > dst")
  case True
  then show ?thesis using memcpy_up [OF True assms(1), of "unat n" m] by (simp add: memcpy_def Let_def)
next
  case False
  then show ?thesis using memcpy_down [OF False assms(2), of "unat n" m] by (simp add: memcpy_def Let_def)
qed

subsection \<open>Properties\<close>

text \<open>
  \<open>memcpy\<close> moves the \<open>n\<close> bytes at \<open>src\<close> to \<open>dst\<close>, in whichever way the two ranges overlap: the
  destination holds what the source range held before the call, and no other byte changes.
\<close>

lemma memcpy_moves:
  assumes "unat src + unat n \<le> 65536" "unat dst + unat n \<le> 65536"
  shows "memcpy m dst src n = (n, put_mem m dst (get_mem m src (unat n))) \<and>
    get_mem (snd (memcpy m dst src n)) dst (unat n) = get_mem m src (unat n)"
proof -
  have "put_mem m dst (get_mem m src (unat n)) (dst + of_nat i) = m (src + of_nat i)" if "i < unat n" for i
    using that unat_u16_lt [of n] by (simp add: put_mem_def unat_of_nat_u16 nth_get_mem)
  then show ?thesis using memcpy_put [OF assms, of m] by (auto intro: nth_equalityI simp: nth_get_mem)
qed

end
