(* ===== verification/Layout.thy ===== *)
theory Layout
  imports Prelude
begin

section \<open>The interface of a structure in memory\<close>

text \<open>
  Words, the entries of the file system and the parameters of system calls all lie in memory as bytes: one side puts them
  there, the other reads them back, and arrays of them follow each other without gaps. The locale states what both sides
  rely on: the bytes of a value of the right shape (\<open>ok\<close>) have a fixed width, and reading them gives the value back,
  whatever follows.
\<close>

locale layout =
  fixes bytes_of :: "'a \<Rightarrow> u8 list"
    and parse :: "u8 list \<Rightarrow> 'a"
    and ok :: "'a \<Rightarrow> bool"
    and width :: nat
  assumes length_bytes: "ok x \<Longrightarrow> length (bytes_of x) = width"
    and parse_bytes: "ok x \<Longrightarrow> parse (bytes_of x @ r) = x"
begin

lemma parse_exact: "ok x \<Longrightarrow> parse (bytes_of x) = x"
  using parse_bytes [of x "[]"] by simp

lemma bytes_inject: "ok x \<Longrightarrow> ok y \<Longrightarrow> bytes_of x = bytes_of y \<longleftrightarrow> x = y"
  using parse_exact by metis

lemma prefix_free:
  assumes "ok x" "ok y" "bytes_of x @ r = bytes_of y @ r'"
  shows "x = y \<and> r = r'"
  using assms length_bytes bytes_inject by (metis append_eq_append_conv)

definition array :: "'a list \<Rightarrow> u8 list" where
  "array xs = concat (map bytes_of xs)"

lemma array_simps [simp]: "array [] = []" "array (x # xs) = bytes_of x @ array xs"
  by (simp_all add: array_def)

lemma length_array: "list_all ok xs \<Longrightarrow> length (array xs) = width * length xs"
  by (induction xs) (simp_all add: length_bytes)

lemma drop_array: "list_all ok xs \<Longrightarrow> drop (width * i) (array xs) = array (drop i xs)"
proof (induction xs arbitrary: i)
  case (Cons x xs)
  then show ?case by (cases i) (simp_all add: length_bytes)
qed simp

text \<open>Reading an array at the place of an element gives the element.\<close>

lemma parse_array:
  assumes "list_all ok xs" "i < length xs"
  shows "parse (drop (width * i) (array xs)) = xs ! i"
proof -
  have "ok (xs ! i)" using assms by (simp add: list_all_length)
  moreover have "array (drop i xs) = bytes_of (xs ! i) @ array (drop (Suc i) xs)"
    using assms(2) by (simp add: Cons_nth_drop_Suc [symmetric])
  ultimately show ?thesis using assms(1) by (simp add: drop_array parse_bytes)
qed

end

end
