(* ===== verification/Byte_Order.thy ===== *)
theory Byte_Order
  imports Layout
begin

section \<open>Byte order\<close>

text \<open>
  The 8086 keeps words in memory low byte first: the bytes of a 16-bit and of a 32-bit word, reading
  them back, as layouts, and \<open>BSWAP_16\<close> of \<^verbatim>\<open>net.c\<close>, which turns a field of a packet into network order.
\<close>

definition le32 :: "u32 \<Rightarrow> u8 list" where
  "le32 w = [ucast w, ucast (drop_bit 8 w), ucast (drop_bit 16 w), ucast (drop_bit 24 w)]"

definition of_le32 :: "u8 list \<Rightarrow> u32" where
  "of_le32 b = ucast (b ! 0) OR push_bit 8 (ucast (b ! 1)) OR push_bit 16 (ucast (b ! 2)) OR
     push_bit 24 (ucast (b ! 3))"

lemma length_le32 [simp]: "length (le32 w) = 4"
  by (simp add: le32_def)

lemma of_le32_le32 [simp]: "of_le32 (le32 w @ r) = w"
proof (rule bit_eqI)
  fix n assume "possible_bit TYPE(u32) n"
  then have n: "n < 32" by (simp add: possible_bit_word)
  show "bit (of_le32 (le32 w @ r)) n \<longleftrightarrow> bit w n"
  proof -
    consider "n < 8" | "8 \<le> n" "n < 16" | "16 \<le> n" "n < 24" | "24 \<le> n" by linarith
    then show ?thesis
      using n by cases (simp_all add: of_le32_def le32_def bit_simps less_diff_conv2)
  qed
qed

interpretation word32: layout le32 of_le32 "\<lambda>_. True" 4
  by unfold_locales simp_all

lemma of_le32_le32_nil [simp]: "of_le32 (le32 w) = w"
  by (simp add: word32.parse_exact)

definition le16 :: "u16 \<Rightarrow> u8 list" where
  "le16 w = [ucast w, ucast (drop_bit 8 w)]"

definition of_le16 :: "u8 list \<Rightarrow> u16" where
  "of_le16 b = ucast (b ! 0) OR push_bit 8 (ucast (b ! 1))"

lemma length_le16 [simp]: "length (le16 w) = 2"
  by (simp add: le16_def)

lemma of_le16_le16 [simp]: "of_le16 (le16 w) = w"
proof (rule bit_eqI)
  fix n assume "possible_bit TYPE(u16) n"
  then have n: "n < 16" by (simp add: possible_bit_word)
  consider "n < 8" | "8 \<le> n" by linarith
  then show "bit (of_le16 (le16 w)) n \<longleftrightarrow> bit w n"
    using n by cases (simp_all add: of_le16_def le16_def bit_simps less_diff_conv2)
qed

lemma of_le16_append [simp]: "of_le16 (le16 w @ r) = w"
  using of_le16_le16 [of w] by (simp add: of_le16_def le16_def)

interpretation word16: layout le16 of_le16 "\<lambda>_. True" 2
  by unfold_locales simp_all

definition BSWAP_16 :: "u16 \<Rightarrow> u16" where
  "BSWAP_16 v = push_bit 8 (v AND 0xff) OR drop_bit 8 v"

lemma BSWAP_16_twice [simp]: "BSWAP_16 (BSWAP_16 v) = v"
proof (rule bit_eqI)
  fix n assume "possible_bit TYPE(u16) n"
  then have n: "n < 16" by (simp add: possible_bit_word)
  have ff: "(0xff :: u16) = mask 8" by (simp add: mask_eq_exp_minus_1)
  consider "n < 8" | "8 \<le> n" by linarith
  then show "bit (BSWAP_16 (BSWAP_16 v)) n \<longleftrightarrow> bit v n"
    using n unfolding BSWAP_16_def ff by cases (auto simp: bit_simps)
qed

lemma BSWAP_16_zero_iff [simp]: "BSWAP_16 v = 0 \<longleftrightarrow> v = 0"
  by (metis BSWAP_16_twice BSWAP_16_def and_zero_eq drop_bit_of_0 or.right_neutral push_bit_of_0 zero_and_eq)

end
