(* ===== verification/Far_Memory.thy ===== *)
theory Far_Memory
  imports Ulib_Memory Byte_Order
begin

section \<open>Far memory (source/hw86.s, source/ulib/x86.s, source/ulib/ulib.c)\<close>

text \<open>
  The megabyte all programs share. A far pointer is a linear address of 32 bits; \<open>lmem_setbyte\<close> and
  \<open>lmem_getbyte\<close> turn it into a segment, bits 16 to 19, and an offset, so the memory is a function of
  20-bit addresses and addresses wrap there. \<open>lp\<close> makes a far pointer of a near one in the segment of
  the caller. \<open>fget\<close> and \<open>fput\<close> read and replace a range; \<open>lmemcpy\<close> is shown to be that, for every
  overlap of its ranges.
\<close>

type_synonym u20 = "20 word"
type_synonym fmem = "u20 \<Rightarrow> u8"

definition phys :: "u32 \<Rightarrow> u20" where
  "phys a = ucast a"

definition lmem_getbyte :: "fmem \<Rightarrow> u32 \<Rightarrow> u8" where
  "lmem_getbyte m addr = m (phys addr)"

definition lmem_setbyte :: "u32 \<Rightarrow> u8 \<Rightarrow> fmem \<Rightarrow> fmem" where
  "lmem_setbyte addr b m = m(phys addr := b)"

definition lp :: "u16 \<Rightarrow> u16 \<Rightarrow> u32" where
  "lp cs ptr = push_bit 4 (ucast cs) + ucast ptr"

text \<open>The loops of \<open>lmemcpy\<close> and \<open>lmemset\<close>, whose bytes go through the services for a single byte.\<close>

definition lmemcpy :: "u32 \<Rightarrow> u32 \<Rightarrow> u32 \<Rightarrow> fmem \<Rightarrow> u32 \<times> fmem" where
  "lmemcpy dst src sz m =
     (let rdir = \<not> src > dst
      in (sz, foldl (\<lambda>m i. let c = (if rdir then sz - 1 - of_nat i else of_nat i)
                           in lmem_setbyte (dst + c) (lmem_getbyte m (src + c)) m) m [0 ..< unat sz]))"

definition lmemset :: "u32 \<Rightarrow> u8 \<Rightarrow> u32 \<Rightarrow> fmem \<Rightarrow> u32 \<times> fmem" where
  "lmemset dst v sz m =
     (sz, foldl (\<lambda>m i. lmem_setbyte (dst + of_nat i) v m) m [0 ..< unat sz])"

subsection \<open>Ranges\<close>

definition fget :: "fmem \<Rightarrow> u32 \<Rightarrow> nat \<Rightarrow> u8 list" where
  "fget m a n = map (\<lambda>i. lmem_getbyte m (a + of_nat i)) [0 ..< n]"

definition fput :: "fmem \<Rightarrow> u32 \<Rightarrow> u8 list \<Rightarrow> fmem" where
  "fput m a bs x = (if unat (x - phys a) < length bs then bs ! unat (x - phys a) else m x)"

lemma length_fget [simp]: "length (fget m a n) = n"
  by (simp add: fget_def)

lemma unat_phys: "unat (phys a) = unat a mod 1048576"
  by (simp add: phys_def unsigned_ucast_eq take_bit_eq_mod)

lemma phys_add: "phys (a + b) = phys a + phys b"
proof -
  have "unat (a + b) mod 1048576 = (unat a + unat b) mod 1048576"
    by (simp add: unat_word_ariths mod_mod_cancel)
  then have "unat (phys (a + b)) = unat (phys a + phys b)"
    by (simp add: unat_phys unat_word_ariths mod_simps)
  then show ?thesis by (simp only: word_unat_eq_iff)
qed

lemma phys_of_nat: "phys (of_nat n) = of_nat n"
proof -
  have "unat (phys (of_nat n)) = unat (of_nat n :: u20)"
    by (simp add: unat_phys unat_of_nat mod_mod_cancel)
  then show ?thesis by (simp only: word_unat_eq_iff)
qed

lemma phys_1 [simp]: "phys 1 = 1"
  using phys_of_nat [of 1] by simp

lemma phys_numeral [simp]: "phys (numeral k) = numeral k"
  using phys_of_nat [of "numeral k"] by simp

lemma phys_diff: "phys (a - b) = phys a - phys b"
  using phys_add [of "a - b" b] by (simp add: algebra_simps)

lemma unat_u20_lt: "unat (x :: u20) < 1048576"
  using unsigned_less [of x] by simp

lemma unat_of_nat_u20: "n < 1048576 \<Longrightarrow> unat (of_nat n :: u20) = n"
  by (simp add: unat_of_nat)

lemma nth_fget: "i < n \<Longrightarrow> fget m a n ! i = m (phys a + of_nat i)"
  by (simp add: fget_def lmem_getbyte_def phys_add phys_of_nat)

lemma fget_Suc: "fget m a (Suc k) = fget m a k @ [m (phys a + of_nat k)]"
  by (simp add: fget_def lmem_getbyte_def phys_add phys_of_nat)

lemma fput_nil [simp]: "fput m a [] = m"
  by (simp add: fput_def fun_eq_iff)

lemma unat_past20:
  fixes x a b :: u20
  assumes "b = a + of_nat n" "n < 1048576"
  shows "unat (x - b) = (if n \<le> unat (x - a) then unat (x - a) - n else unat (x - a) + 1048576 - n)"
proof -
  have "x - b = (x - a) - of_nat n" using assms(1) by simp
  then show ?thesis using assms(2) by (simp only:) (simp add: unat_sub_if_size word_size unat_of_nat_u20)
qed

text \<open>Reading what was written, and reading beside it.\<close>

lemma fget_fput:
  assumes "k + n \<le> length bs" "length bs \<le> 1048576" "phys b = phys a + of_nat k"
  shows "fget (fput m a bs) b n = take n (drop k bs)"
proof (rule nth_equalityI)
  show "length (fget (fput m a bs) b n) = length (take n (drop k bs))" using assms(1) by simp
  fix i assume "i < length (fget (fput m a bs) b n)"
  then have i: "i < n" by simp
  have "phys b + of_nat i - phys a = of_nat (k + i)" using assms(3) by simp
  then have "unat (phys b + of_nat i - phys a) = k + i"
    using i assms(1,2) by (simp only: unat_of_nat_u20)
  then show "fget (fput m a bs) b n ! i = take n (drop k bs) ! i"
    using i assms(1) by (simp add: nth_fget fput_def)
qed

lemma fget_fput0: "n \<le> length bs \<Longrightarrow> length bs \<le> 1048576 \<Longrightarrow> fget (fput m a bs) a n = take n bs"
  using fget_fput [of 0 n bs a a m] by simp

definition disjoint_ranges :: "u32 \<Rightarrow> nat \<Rightarrow> u32 \<Rightarrow> nat \<Rightarrow> bool" where
  "disjoint_ranges a n b k \<longleftrightarrow> (\<forall>i < k. n \<le> unat (phys b + of_nat i - phys a))"

lemma fget_beside: "disjoint_ranges a (length bs) b n \<Longrightarrow> fget (fput m a bs) b n = fget m b n"
  by (rule nth_equalityI) (auto simp: nth_fget fput_def disjoint_ranges_def not_less)

lemma fput_after:
  assumes "length xs + length ys \<le> 1048576" "b = a + of_nat (length xs)"
  shows "fput (fput m a xs) b ys = fput m a (xs @ ys)"
proof (rule ext)
  fix x
  let ?d = "unat (x - phys a)" and ?n = "length xs"
  have d: "unat (x - phys b) = (if ?n \<le> ?d then ?d - ?n else ?d + 1048576 - ?n)" if "?n < 1048576"
    by (rule unat_past20) (use assms(2) that in \<open>simp_all add: phys_add phys_of_nat\<close>)
  show "fput (fput m a xs) b ys x = fput m a (xs @ ys) x"
  proof (cases "?n < 1048576")
    case True
    then show ?thesis using d assms(1) unat_u20_lt [of "x - phys a"] by (auto simp: fput_def nth_append)
  next
    case False
    then have "ys = []" using assms(1) by (cases ys) auto
    then show ?thesis by simp
  qed
qed

lemma fput_same: "length xs = length ys \<Longrightarrow> fput (fput m a xs) a ys = fput m a ys"
  by (auto simp: fput_def fun_eq_iff)

lemma fput_one: "fput m a [v] = m(phys a := v)"
  by (auto simp: fput_def fun_eq_iff unat_eq_0)

lemma fput_snoc:
  assumes "i < 1048576" "length bs = i"
  shows "(fput m d bs)(phys d + of_nat i := v) = fput m d (bs @ [v])"
  using fput_after [of bs "[v]" "d + of_nat i" d m] assms by (simp add: fput_one phys_add phys_of_nat)

lemma fput_cons: "(fput m (d + 1) bs)(phys d := v) = fput m d (v # bs)"
proof (rule ext)
  fix x
  have p: "phys (d + 1) = phys d + 1" by (simp add: phys_add)
  show "((fput m (d + 1) bs)(phys d := v)) x = fput m d (v # bs) x"
  proof (cases "x = phys d")
    case False
    then have "unat (x - phys d) \<noteq> 0" by (simp add: unat_eq_0)
    moreover have "unat (x - (phys d + 1)) = unat (x - phys d) - 1"
      using \<open>unat (x - phys d) \<noteq> 0\<close> by (metis diff_diff_eq unat_minus_one unat_eq_0)
    ultimately show ?thesis using False by (auto simp: fput_def p nth_Cons')
  qed (simp add: fput_def)
qed

lemma lmemset_put:
  assumes "unat n \<le> 1048576"
  shows "lmemset dst v n m = (n, fput m dst (replicate (unat n) v))"
proof -
  let ?f = "\<lambda>m i. lmem_setbyte (dst + of_nat i) v m"
  have "foldl ?f m [0 ..< k] = fput m dst (replicate k v)" if "k \<le> 1048576" for k
    using that
  proof (induction k)
    case (Suc k)
    have "foldl ?f m [0 ..< Suc k] = (foldl ?f m [0 ..< k])(phys dst + of_nat k := v)"
      by (simp add: lmem_setbyte_def phys_add phys_of_nat)
    also have "foldl ?f m [0 ..< k] = fput m dst (replicate k v)" using Suc.prems by (intro Suc.IH) simp
    also have "(fput m dst (replicate k v))(phys dst + of_nat k := v) = fput m dst (replicate k v @ [v])"
      using Suc.prems by (intro fput_snoc) simp_all
    also have "replicate k v @ [v] = replicate (Suc k) v" by (simp add: replicate_append_same)
    finally show ?case .
  qed simp
  then show ?thesis using assms by (simp add: lmemset_def)
qed

subsection \<open>Copying\<close>

lemma phys_offset:
  assumes "unat b + j < 1048576" "unat a < 1048576"
  shows "unat (phys b + of_nat j - phys a) =
    (if unat a \<le> unat b + j then unat b + j - unat a else unat b + j + 1048576 - unat a)"
proof -
  have "unat (phys b + of_nat j) = unat b + j"
    using assms(1) by (simp add: unat_word_ariths unat_phys unat_of_nat)
  moreover have "unat (phys a) = unat a" using assms(2) by (simp add: unat_phys)
  ultimately show ?thesis by (simp add: unat_sub_if_size word_size)
qed

lemma lmemcpy_up:
  assumes "unat dst < unat src" "unat src + n \<le> 1048576"
  defines "f \<equiv> \<lambda>m i. lmem_setbyte (dst + of_nat i) (lmem_getbyte m (src + of_nat i)) m"
  shows "k \<le> n \<Longrightarrow> foldl f m [0 ..< k] = fput m dst (fget m src k)"
proof (induction k)
  case (Suc k)
  have read: "fput m dst (fget m src k) (phys src + of_nat k) = m (phys src + of_nat k)"
  proof -
    have "k \<le> unat (phys src + of_nat k - phys dst)"
      using phys_offset [of src k dst] Suc.prems assms(1,2) by simp
    then show ?thesis by (simp add: fput_def)
  qed
  have "foldl f m [0 ..< Suc k] = f (foldl f m [0 ..< k]) k" by simp
  also have "\<dots> = f (fput m dst (fget m src k)) k" using Suc by simp
  also have "\<dots> = fput m dst (fget m src k @ [m (phys src + of_nat k)])"
    unfolding f_def lmem_setbyte_def lmem_getbyte_def phys_add phys_of_nat read
    using Suc.prems assms(2) by (intro fput_snoc) simp_all
  finally show ?case by (simp only: fget_Suc)
qed (simp add: fget_def)

lemma lmemcpy_down:
  assumes "unat src \<le> unat dst" "unat dst + n \<le> 1048576"
  defines "f \<equiv> \<lambda>m i. lmem_setbyte (dst + (of_nat n - 1 - of_nat i)) (lmem_getbyte m (src + (of_nat n - 1 - of_nat i))) m"
  shows "k \<le> n \<Longrightarrow>
    foldl f m [0 ..< k] = fput m (dst + of_nat (n - k)) (fget m (src + of_nat (n - k)) k)"
proof (induction k)
  case (Suc k)
  let ?c = "n - Suc k"
  let ?m = "fput m (dst + of_nat (n - k)) (fget m (src + of_nat (n - k)) k)"
  have c: "(of_nat n - 1 - of_nat k :: u32) = of_nat ?c" using Suc.prems by (simp add: of_nat_diff)
  have nk: "dst + of_nat (n - k) = dst + of_nat ?c + 1"
  proof -
    have "n - k = Suc ?c" using Suc.prems by simp
    then show ?thesis by (simp only: of_nat_Suc ac_simps)
  qed
  have read: "?m (phys src + of_nat ?c) = m (phys src + of_nat ?c)"
  proof (cases "k = 0")
    case False
    have u: "unat (dst + of_nat (n - k)) = unat dst + (n - k)"
    proof -
      have "unat (of_nat (n - k) :: u32) = n - k" using assms(2) Suc.prems by (intro unat_of_nat_u32) simp
      then show ?thesis using unat_plus_u32 [of dst "of_nat (n - k)"] assms(2) by (simp del: of_nat_diff)
    qed
    have "unat src + ?c < 1048576" "unat (dst + of_nat (n - k)) < 1048576"
        "\<not> unat (dst + of_nat (n - k)) \<le> unat src + ?c"
        "k \<le> unat src + ?c + 1048576 - unat (dst + of_nat (n - k))"
      unfolding u using assms(1,2) Suc.prems False by linarith+
    then have "k \<le> unat (phys src + of_nat ?c - phys (dst + of_nat (n - k)))"
      by (simp only: phys_offset if_False)
    then show ?thesis by (simp add: fput_def del: of_nat_diff)
  qed (simp add: fget_def)
  have "foldl f m [0 ..< Suc k] = f (foldl f m [0 ..< k]) k" by simp
  also have "\<dots> = f ?m k" using Suc by simp
  also have "\<dots> = ?m(phys (dst + of_nat ?c) := m (phys src + of_nat ?c))"
    unfolding f_def c lmem_setbyte_def lmem_getbyte_def phys_add phys_of_nat read ..
  also have "\<dots> = fput m (dst + of_nat ?c) (m (phys src + of_nat ?c) # fget m (src + of_nat (n - k)) k)"
    unfolding nk by (rule fput_cons)
  also have "m (phys src + of_nat ?c) # fget m (src + of_nat (n - k)) k = fget m (src + of_nat ?c) (Suc k)"
  proof (rule nth_equalityI)
    fix i assume i: "i < length (m (phys src + of_nat ?c) # fget m (src + of_nat (n - k)) k)"
    have "n - k = Suc ?c" using Suc.prems by simp
    then show "(m (phys src + of_nat ?c) # fget m (src + of_nat (n - k)) k) ! i = fget m (src + of_nat ?c) (Suc k) ! i"
      using i by (cases i) (simp_all add: nth_fget phys_add phys_of_nat ac_simps del: of_nat_diff)
  qed simp
  finally show ?case .
qed (simp add: fget_def)

lemma lmemcpy_put:
  assumes "unat src + unat n \<le> 1048576" "unat dst + unat n \<le> 1048576"
  shows "lmemcpy dst src n m = (n, fput m dst (fget m src (unat n)))"
proof (cases "src > dst")
  case True
  then show ?thesis using lmemcpy_up [of dst src "unat n" "unat n" m] assms(1)
    by (simp add: lmemcpy_def Let_def word_less_nat_alt)
next
  case False
  then show ?thesis using lmemcpy_down [of src dst "unat n" "unat n" m] assms(2)
    by (simp add: lmemcpy_def Let_def word_less_nat_alt)
qed

end
