(* ===== verification/Syscall_Types.thy ===== *)
theory Syscall_Types
  imports Far_Memory
begin

section \<open>System calls: codes and parameters (source/syscall.h, source/ulib/ulib.h)\<close>

text \<open>
  The codes of the services, of keys and modes, and the structures a caller packs its parameters in:
  each as a record, its bytes in memory (the compiler puts the fields next to each other) and
  how the kernel reads it from far memory. Reading what was packed gives the parameters back.
\<close>

definition SYSCALL_IO_GET_VIDEO_MODE :: u16 where [simp]: "SYSCALL_IO_GET_VIDEO_MODE = 0x0000"
definition SYSCALL_IO_SET_VIDEO_MODE :: u16 where [simp]: "SYSCALL_IO_SET_VIDEO_MODE = 0x0001"
definition SYSCALL_IO_GET_SCREEN_SIZE :: u16 where [simp]: "SYSCALL_IO_GET_SCREEN_SIZE = 0x0002"
definition SYSCALL_IO_CLEAR_SCREEN :: u16 where [simp]: "SYSCALL_IO_CLEAR_SCREEN = 0x0003"
definition SYSCALL_IO_SET_PIXEL :: u16 where [simp]: "SYSCALL_IO_SET_PIXEL = 0x0008"
definition SYSCALL_IO_DRAW_CHAR :: u16 where [simp]: "SYSCALL_IO_DRAW_CHAR = 0x000A"
definition SYSCALL_IO_OUT_CHAR :: u16 where [simp]: "SYSCALL_IO_OUT_CHAR = 0x0010"
definition SYSCALL_IO_OUT_CHAR_ATTR :: u16 where [simp]: "SYSCALL_IO_OUT_CHAR_ATTR = 0x0011"
definition SYSCALL_IO_GET_CURSOR_POS :: u16 where [simp]: "SYSCALL_IO_GET_CURSOR_POS = 0x0018"
definition SYSCALL_IO_SET_CURSOR_POS :: u16 where [simp]: "SYSCALL_IO_SET_CURSOR_POS = 0x0019"
definition SYSCALL_IO_SET_SHOW_CURSOR :: u16 where [simp]: "SYSCALL_IO_SET_SHOW_CURSOR = 0x001A"
definition SYSCALL_IO_IN_KEY :: u16 where [simp]: "SYSCALL_IO_IN_KEY = 0x0020"
definition SYSCALL_IO_GET_MOUSE_STATE :: u16 where [simp]: "SYSCALL_IO_GET_MOUSE_STATE = 0x0028"
definition SYSCALL_IO_IN_CHAR_SERIAL :: u16 where [simp]: "SYSCALL_IO_IN_CHAR_SERIAL = 0x0030"
definition SYSCALL_IO_OUT_CHAR_SERIAL :: u16 where [simp]: "SYSCALL_IO_OUT_CHAR_SERIAL = 0x0031"
definition SYSCALL_IO_OUT_CHAR_DEBUG :: u16 where [simp]: "SYSCALL_IO_OUT_CHAR_DEBUG = 0x0038"
definition SYSCALL_MEM_ALLOCATE :: u16 where [simp]: "SYSCALL_MEM_ALLOCATE = 0x0040"
definition SYSCALL_MEM_FREE :: u16 where [simp]: "SYSCALL_MEM_FREE = 0x0041"
definition SYSCALL_LMEM_ALLOCATE :: u16 where [simp]: "SYSCALL_LMEM_ALLOCATE = 0x0048"
definition SYSCALL_LMEM_FREE :: u16 where [simp]: "SYSCALL_LMEM_FREE = 0x0049"
definition SYSCALL_LMEM_GET :: u16 where [simp]: "SYSCALL_LMEM_GET = 0x004A"
definition SYSCALL_LMEM_SET :: u16 where [simp]: "SYSCALL_LMEM_SET = 0x004B"
definition SYSCALL_FS_GET_INFO :: u16 where [simp]: "SYSCALL_FS_GET_INFO = 0x0050"
definition SYSCALL_FS_GET_ENTRY :: u16 where [simp]: "SYSCALL_FS_GET_ENTRY = 0x0051"
definition SYSCALL_FS_READ_FILE :: u16 where [simp]: "SYSCALL_FS_READ_FILE = 0x0052"
definition SYSCALL_FS_WRITE_FILE :: u16 where [simp]: "SYSCALL_FS_WRITE_FILE = 0x0053"
definition SYSCALL_FS_MOVE :: u16 where [simp]: "SYSCALL_FS_MOVE = 0x0054"
definition SYSCALL_FS_COPY :: u16 where [simp]: "SYSCALL_FS_COPY = 0x0055"
definition SYSCALL_FS_DELETE :: u16 where [simp]: "SYSCALL_FS_DELETE = 0x0056"
definition SYSCALL_FS_CREATE_DIRECTORY :: u16 where [simp]: "SYSCALL_FS_CREATE_DIRECTORY = 0x0057"
definition SYSCALL_FS_LIST :: u16 where [simp]: "SYSCALL_FS_LIST = 0x0058"
definition SYSCALL_FS_FORMAT :: u16 where [simp]: "SYSCALL_FS_FORMAT = 0x0059"
definition SYSCALL_CLK_GET_TIME :: u16 where [simp]: "SYSCALL_CLK_GET_TIME = 0x0060"
definition SYSCALL_CLK_GET_MILISEC :: u16 where [simp]: "SYSCALL_CLK_GET_MILISEC = 0x0061"
definition SYSCALL_NET_RECV :: u16 where [simp]: "SYSCALL_NET_RECV = 0x0070"
definition SYSCALL_NET_SEND :: u16 where [simp]: "SYSCALL_NET_SEND = 0x0071"

definition VM_TEXT :: u16 where [simp]: "VM_TEXT = 0"
definition VM_GRAPHICS :: u16 where [simp]: "VM_GRAPHICS = 1"
definition SSM_CHARS :: u16 where [simp]: "SSM_CHARS = 0"
definition SSM_PIXELS :: u16 where [simp]: "SSM_PIXELS = 1"
definition HIDE_CURSOR :: u16 where [simp]: "HIDE_CURSOR = 0"
definition SHOW_CURSOR :: u16 where [simp]: "SHOW_CURSOR = 1"
definition KEY_BACKSPACE :: u16 where [simp]: "KEY_BACKSPACE = 0x0008"
definition KEY_RETURN :: u16 where [simp]: "KEY_RETURN = 0x000D"
definition KEY_ESC :: u16 where [simp]: "KEY_ESC = 0x001B"
definition KEY_DEL :: u16 where [simp]: "KEY_DEL = 0x5300"
definition KEY_END :: u16 where [simp]: "KEY_END = 0x4F00"
definition KEY_HOME :: u16 where [simp]: "KEY_HOME = 0x4700"
definition KEY_INS :: u16 where [simp]: "KEY_INS = 0x5200"
definition KEY_PG_DN :: u16 where [simp]: "KEY_PG_DN = 0x5100"
definition KEY_PG_UP :: u16 where [simp]: "KEY_PG_UP = 0x4900"
definition KEY_PRT_SC :: u16 where [simp]: "KEY_PRT_SC = 0x7200"
definition KEY_TAB :: u16 where [simp]: "KEY_TAB = 0x0009"
definition KEY_UP :: u16 where [simp]: "KEY_UP = 0x4800"
definition KEY_LEFT :: u16 where [simp]: "KEY_LEFT = 0x4B00"
definition KEY_RIGHT :: u16 where [simp]: "KEY_RIGHT = 0x4D00"
definition KEY_DOWN :: u16 where [simp]: "KEY_DOWN = 0x5000"
definition KEY_F1 :: u16 where [simp]: "KEY_F1 = 0x3B00"
definition KEY_F2 :: u16 where [simp]: "KEY_F2 = 0x3C00"
definition KEY_F3 :: u16 where [simp]: "KEY_F3 = 0x3D00"
definition KEY_F4 :: u16 where [simp]: "KEY_F4 = 0x3E00"
definition KEY_F5 :: u16 where [simp]: "KEY_F5 = 0x3F00"
definition KEY_F6 :: u16 where [simp]: "KEY_F6 = 0x4000"
definition KEY_F7 :: u16 where [simp]: "KEY_F7 = 0x4100"
definition KEY_F8 :: u16 where [simp]: "KEY_F8 = 0x4200"
definition KEY_F9 :: u16 where [simp]: "KEY_F9 = 0x4300"
definition KEY_F10 :: u16 where [simp]: "KEY_F10 = 0x4400"
definition KEY_F11 :: u16 where [simp]: "KEY_F11 = 0x8500"
definition KEY_F12 :: u16 where [simp]: "KEY_F12 = 0x8600"
definition KM_NO_WAIT :: u16 where [simp]: "KM_NO_WAIT = 0"
definition KM_WAIT_KEY :: u16 where [simp]: "KM_WAIT_KEY = 1"
definition KM_CLEAR_BUFFER :: u16 where [simp]: "KM_CLEAR_BUFFER = 2"

definition KERN_MEMSEG :: u16 where [simp]: "KERN_MEMSEG = 0x0800"
definition MAX_PATH :: nat where [simp]: "MAX_PATH = 72"

definition far16 :: "fmem \<Rightarrow> u32 \<Rightarrow> u16" where "far16 m a = of_le16 (fget m a 2)"
definition far32 :: "fmem \<Rightarrow> u32 \<Rightarrow> u32" where "far32 m a = of_le32 (fget m a 4)"

record syscall_fsinfo =
  if_disk_index :: u16
  if_info :: u32

record syscall_fsentry =
  en_entry :: u32
  en_path :: u32
  en_parent :: u16
  en_disk :: u16

record syscall_fsrwfile =
  rw_buff :: u32
  rw_path :: u32
  rw_offset :: u16
  rw_count :: u16
  rw_flags :: u16

record syscall_fssrcdst =
  sd_src :: u32
  sd_dst :: u32

record syscall_fslist =
  ls_entry :: u32
  ls_path :: u32
  ls_n :: u16

record syscall_posattr =
  pa_x :: u16
  pa_y :: u16
  pa_c :: u16
  pa_attr :: u16

record syscall_position =
  ps_x :: u16
  ps_y :: u16
  ps_px :: u32
  ps_py :: u32

record syscall_lmem =
  lm_dst :: u32
  lm_n :: u32

record syscall_netop =
  no_addr :: u32
  no_buff :: u32
  no_size :: u16

definition fsinfo_bytes :: "syscall_fsinfo \<Rightarrow> u8 list" where
  "fsinfo_bytes p = le16 (if_disk_index p) @ le32 (if_info p)"

definition fsinfo_at :: "fmem \<Rightarrow> u32 \<Rightarrow> syscall_fsinfo" where
  "fsinfo_at m a = \<lparr>if_disk_index = far16 m a, if_info = far32 m (a + 2)\<rparr>"

definition fsentry_bytes :: "syscall_fsentry \<Rightarrow> u8 list" where
  "fsentry_bytes p = le32 (en_entry p) @ le32 (en_path p) @ le16 (en_parent p) @ le16 (en_disk p)"

definition fsentry_at :: "fmem \<Rightarrow> u32 \<Rightarrow> syscall_fsentry" where
  "fsentry_at m a = \<lparr>en_entry = far32 m a, en_path = far32 m (a + 4), en_parent = far16 m (a + 8),
     en_disk = far16 m (a + 10)\<rparr>"

definition fsrwfile_bytes :: "syscall_fsrwfile \<Rightarrow> u8 list" where
  "fsrwfile_bytes p = le32 (rw_buff p) @ le32 (rw_path p) @ le16 (rw_offset p) @ le16 (rw_count p) @ le16 (rw_flags p)"

definition fsrwfile_at :: "fmem \<Rightarrow> u32 \<Rightarrow> syscall_fsrwfile" where
  "fsrwfile_at m a = \<lparr>rw_buff = far32 m a, rw_path = far32 m (a + 4), rw_offset = far16 m (a + 8),
     rw_count = far16 m (a + 10), rw_flags = far16 m (a + 12)\<rparr>"

definition fssrcdst_bytes :: "syscall_fssrcdst \<Rightarrow> u8 list" where
  "fssrcdst_bytes p = le32 (sd_src p) @ le32 (sd_dst p)"

definition fssrcdst_at :: "fmem \<Rightarrow> u32 \<Rightarrow> syscall_fssrcdst" where
  "fssrcdst_at m a = \<lparr>sd_src = far32 m a, sd_dst = far32 m (a + 4)\<rparr>"

definition fslist_bytes :: "syscall_fslist \<Rightarrow> u8 list" where
  "fslist_bytes p = le32 (ls_entry p) @ le32 (ls_path p) @ le16 (ls_n p)"

definition fslist_at :: "fmem \<Rightarrow> u32 \<Rightarrow> syscall_fslist" where
  "fslist_at m a = \<lparr>ls_entry = far32 m a, ls_path = far32 m (a + 4), ls_n = far16 m (a + 8)\<rparr>"

definition posattr_bytes :: "syscall_posattr \<Rightarrow> u8 list" where
  "posattr_bytes p = le16 (pa_x p) @ le16 (pa_y p) @ le16 (pa_c p) @ le16 (pa_attr p)"

definition posattr_at :: "fmem \<Rightarrow> u32 \<Rightarrow> syscall_posattr" where
  "posattr_at m a = \<lparr>pa_x = far16 m a, pa_y = far16 m (a + 2), pa_c = far16 m (a + 4), pa_attr = far16 m (a + 6)\<rparr>"

definition position_bytes :: "syscall_position \<Rightarrow> u8 list" where
  "position_bytes p = le16 (ps_x p) @ le16 (ps_y p) @ le32 (ps_px p) @ le32 (ps_py p)"

definition position_at :: "fmem \<Rightarrow> u32 \<Rightarrow> syscall_position" where
  "position_at m a = \<lparr>ps_x = far16 m a, ps_y = far16 m (a + 2), ps_px = far32 m (a + 4), ps_py = far32 m (a + 8)\<rparr>"

definition lmem_bytes :: "syscall_lmem \<Rightarrow> u8 list" where
  "lmem_bytes p = le32 (lm_dst p) @ le32 (lm_n p)"

definition lmem_at :: "fmem \<Rightarrow> u32 \<Rightarrow> syscall_lmem" where
  "lmem_at m a = \<lparr>lm_dst = far32 m a, lm_n = far32 m (a + 4)\<rparr>"

definition netop_bytes :: "syscall_netop \<Rightarrow> u8 list" where
  "netop_bytes p = le32 (no_addr p) @ le32 (no_buff p) @ le16 (no_size p)"

definition netop_at :: "fmem \<Rightarrow> u32 \<Rightarrow> syscall_netop" where
  "netop_at m a = \<lparr>no_addr = far32 m a, no_buff = far32 m (a + 4), no_size = far16 m (a + 8)\<rparr>"

subsection \<open>The interface between library and kernel\<close>

text \<open>
  What both sides of a system call rely on: a structure of parameters has a layout, the kernel reads it from far memory
  by that layout, so it finds what the library packed, also after memory beside it has been written.
\<close>

locale parameter_block = layout pack parse "\<lambda>_. True" width
  for pack :: "'p \<Rightarrow> u8 list" and parse :: "u8 list \<Rightarrow> 'p" and width :: nat +
  fixes at :: "fmem \<Rightarrow> u32 \<Rightarrow> 'p"
  assumes at_parse: "at m a = parse (fget m a width)"
    and width_small: "width \<le> 1048576"
begin

lemma at_packed: "at (fput m a (pack p)) a = p"
  using width_small by (simp add: at_parse fget_fput0 length_bytes parse_exact)

lemma at_beside: "disjoint_ranges b (length bs) a width \<Longrightarrow> at (fput m b bs) a = at m a"
  by (simp add: at_parse fget_beside)

lemma at_packed_beside: "disjoint_ranges b (length bs) a width \<Longrightarrow> at (fput (fput m a (pack p)) b bs) a = p"
  by (simp add: at_beside at_packed)

end

text \<open>The words of a structure read from memory as a whole are the words at their addresses.\<close>

lemma fget_slice: "i + k \<le> n \<Longrightarrow> take k (drop i (fget m a n)) = fget m (a + of_nat i) k"
  by (rule nth_equalityI) (simp_all add: nth_fget phys_add phys_of_nat add.assoc)

lemma nth_drop_fget:
  assumes "i + k \<le> n" "j < k"
  shows "drop i (fget m a n) ! j = fget m (a + of_nat i) k ! j"
  using assms fget_slice [OF assms(1), of m a] by (metis nth_take)

lemma of_le16_part: "i + 2 \<le> n \<Longrightarrow> of_le16 (drop i (fget m a n)) = far16 m (a + of_nat i)"
  using nth_drop_fget [of i 2 n 0 m a] nth_drop_fget [of i 2 n 1 m a] by (simp add: far16_def of_le16_def)

lemma of_le32_part: "i + 4 \<le> n \<Longrightarrow> of_le32 (drop i (fget m a n)) = far32 m (a + of_nat i)"
  using nth_drop_fget [of i 4 n 0 m a] nth_drop_fget [of i 4 n 1 m a] nth_drop_fget [of i 4 n 2 m a] nth_drop_fget [of i 4 n 3 m a]
  by (simp add: far32_def of_le32_def)

lemmas far_parts = of_le16_part of_le32_part of_le16_part [of 0, simplified] of_le32_part [of 0, simplified]

subsection \<open>Packing and reading back\<close>

lemma length_params [simp]:
  "length (fsinfo_bytes i) = 6" "length (fsentry_bytes e) = 12" "length (fsrwfile_bytes rw) = 14"
  "length (fssrcdst_bytes sd) = 8" "length (fslist_bytes ls) = 10" "length (posattr_bytes pa) = 8"
  "length (position_bytes ps) = 12" "length (lmem_bytes lm) = 8" "length (netop_bytes no) = 10"
  by (simp_all add: fsinfo_bytes_def fsentry_bytes_def fsrwfile_bytes_def fssrcdst_bytes_def fslist_bytes_def
      posattr_bytes_def position_bytes_def lmem_bytes_def netop_bytes_def)

interpretation fsinfo_block: parameter_block fsinfo_bytes
  "\<lambda>b. \<lparr>if_disk_index = of_le16 b, if_info = of_le32 (drop 2 b)\<rparr>" 6 fsinfo_at
  by unfold_locales (simp_all add: fsinfo_bytes_def fsinfo_at_def far_parts)

interpretation fsentry_block: parameter_block fsentry_bytes
  "\<lambda>b. \<lparr>en_entry = of_le32 b, en_path = of_le32 (drop 4 b), en_parent = of_le16 (drop 8 b), en_disk = of_le16 (drop 10 b)\<rparr>" 12 fsentry_at
  by unfold_locales (simp_all add: fsentry_bytes_def fsentry_at_def far_parts)

interpretation fsrwfile_block: parameter_block fsrwfile_bytes
  "\<lambda>b. \<lparr>rw_buff = of_le32 b, rw_path = of_le32 (drop 4 b), rw_offset = of_le16 (drop 8 b), rw_count = of_le16 (drop 10 b), rw_flags = of_le16 (drop 12 b)\<rparr>" 14 fsrwfile_at
  by unfold_locales (simp_all add: fsrwfile_bytes_def fsrwfile_at_def far_parts)

interpretation fssrcdst_block: parameter_block fssrcdst_bytes
  "\<lambda>b. \<lparr>sd_src = of_le32 b, sd_dst = of_le32 (drop 4 b)\<rparr>" 8 fssrcdst_at
  by unfold_locales (simp_all add: fssrcdst_bytes_def fssrcdst_at_def far_parts)

interpretation fslist_block: parameter_block fslist_bytes
  "\<lambda>b. \<lparr>ls_entry = of_le32 b, ls_path = of_le32 (drop 4 b), ls_n = of_le16 (drop 8 b)\<rparr>" 10 fslist_at
  by unfold_locales (simp_all add: fslist_bytes_def fslist_at_def far_parts)

interpretation posattr_block: parameter_block posattr_bytes
  "\<lambda>b. \<lparr>pa_x = of_le16 b, pa_y = of_le16 (drop 2 b), pa_c = of_le16 (drop 4 b), pa_attr = of_le16 (drop 6 b)\<rparr>" 8 posattr_at
  by unfold_locales (simp_all add: posattr_bytes_def posattr_at_def far_parts)

interpretation position_block: parameter_block position_bytes
  "\<lambda>b. \<lparr>ps_x = of_le16 b, ps_y = of_le16 (drop 2 b), ps_px = of_le32 (drop 4 b), ps_py = of_le32 (drop 8 b)\<rparr>" 12 position_at
  by unfold_locales (simp_all add: position_bytes_def position_at_def far_parts)

interpretation lmem_block: parameter_block lmem_bytes
  "\<lambda>b. \<lparr>lm_dst = of_le32 b, lm_n = of_le32 (drop 4 b)\<rparr>" 8 lmem_at
  by unfold_locales (simp_all add: lmem_bytes_def lmem_at_def far_parts)

interpretation netop_block: parameter_block netop_bytes
  "\<lambda>b. \<lparr>no_addr = of_le32 b, no_buff = of_le32 (drop 4 b), no_size = of_le16 (drop 8 b)\<rparr>" 10 netop_at
  by unfold_locales (simp_all add: netop_bytes_def netop_at_def far_parts)

text \<open>What the library packs, the kernel reads.\<close>

lemmas params_packed [simp] =
  fsinfo_block.at_packed
  fsentry_block.at_packed
  fsrwfile_block.at_packed
  fssrcdst_block.at_packed
  fslist_block.at_packed
  posattr_block.at_packed
  position_block.at_packed
  lmem_block.at_packed
  netop_block.at_packed

lemma far16_one [simp]: "far16 (fput m a (le16 v)) a = v"
  by (simp add: far16_def fget_fput0)

lemma far32_one [simp]: "far32 (fput m a (le32 v)) a = v"
  by (simp add: far32_def fget_fput0)

end
