(* ===== verification/Allocator.thy ===== *)
theory Allocator
  imports Prelude
begin

section \<open>The allocator contract\<close>

text \<open>
  Both memory services of the kernel (the near heap \<open>heap_alloc\<close>/\<open>heap_free\<close> and the far
  memory \<open>lmem_alloc\<close>/\<open>lmem_free\<close> of \<^verbatim>\<open>source/kernel.c\<close>) give their clients the same promise.
  The locale states it once: \<open>cells s a\<close> is the storage held by the live allocation
  with address \<open>a\<close> (empty when there is none), \<open>ok s n\<close> the requests the
  provider can serve without address arithmetic wrapping around, \<open>need n\<close> the number of
  cells a request asks for. The lemmas of the block follow for every provider; the theories
  \<open>Kernel_Heap\<close> and \<open>Kernel_Lmem\<close> interpret it.
\<close>

datatype ('n, 'a) mem_op = Alloc 'n | Free 'a

fun run_op :: "('s \<Rightarrow> 'n \<Rightarrow> 'a \<times> 's) \<Rightarrow> ('s \<Rightarrow> 'a \<Rightarrow> 's) \<Rightarrow> 's \<Rightarrow> ('n, 'a) mem_op \<Rightarrow> 's" where
  "run_op al fr s (Alloc n) = snd (al s n)"
| "run_op al fr s (Free a) = fr s a"

text \<open>A request sequence is admissible when each request is, in the state it meets.\<close>

fun admissible :: "('s \<Rightarrow> 'n \<Rightarrow> 'a \<times> 's) \<Rightarrow> ('s \<Rightarrow> 'a \<Rightarrow> 's) \<Rightarrow> ('s \<Rightarrow> 'n \<Rightarrow> bool) \<Rightarrow>
    's \<Rightarrow> ('n, 'a) mem_op list \<Rightarrow> bool" where
  "admissible al fr ok s [] = True"
| "admissible al fr ok s (x # xs) =
     ((case x of Alloc n \<Rightarrow> ok s n | Free a \<Rightarrow> True) \<and> admissible al fr ok (run_op al fr s x) xs)"

definition run_ops :: "('s \<Rightarrow> 'n \<Rightarrow> 'a \<times> 's) \<Rightarrow> ('s \<Rightarrow> 'a \<Rightarrow> 's) \<Rightarrow> 's \<Rightarrow>
    ('n, 'a) mem_op list \<Rightarrow> 's" where
  "run_ops al fr s xs = foldl (run_op al fr) s xs"

lemma run_ops_simps [simp]:
  "run_ops al fr s [] = s"
  "run_ops al fr s (x # xs) = run_ops al fr (run_op al fr s x) xs"
  by (simp_all add: run_ops_def)

locale allocator =
  fixes alloc :: "'s \<Rightarrow> 'n \<Rightarrow> 'a \<times> 's"
    and free :: "'s \<Rightarrow> 'a \<Rightarrow> 's"
    and null :: 'a
    and cells :: "'s \<Rightarrow> 'a \<Rightarrow> nat set"
    and need :: "'n \<Rightarrow> nat"
    and ok :: "'s \<Rightarrow> 'n \<Rightarrow> bool"
    and inv :: "'s \<Rightarrow> bool"
  assumes alloc_inv: "inv s \<Longrightarrow> ok s n \<Longrightarrow> alloc s n = (a, s') \<Longrightarrow> inv s'"
    and alloc_null: "inv s \<Longrightarrow> ok s n \<Longrightarrow> alloc s n = (null, s') \<Longrightarrow> s' = s"
    and alloc_fresh: "inv s \<Longrightarrow> ok s n \<Longrightarrow> alloc s n = (a, s') \<Longrightarrow> a \<noteq> null \<Longrightarrow> cells s a = {}"
    and alloc_size: "inv s \<Longrightarrow> ok s n \<Longrightarrow> alloc s n = (a, s') \<Longrightarrow> a \<noteq> null \<Longrightarrow>
          need n \<le> card (cells s' a)"
    and alloc_frame: "inv s \<Longrightarrow> ok s n \<Longrightarrow> alloc s n = (a, s') \<Longrightarrow> a \<noteq> null \<Longrightarrow> b \<noteq> a \<Longrightarrow>
          cells s' b = cells s b"
    and disjoint: "inv s \<Longrightarrow> a \<noteq> b \<Longrightarrow> cells s a \<inter> cells s b = {}"
    and free_inv: "inv s \<Longrightarrow> inv (free s a)"
    and free_cells: "inv s \<Longrightarrow> a \<noteq> null \<Longrightarrow> cells (free s a) a = {}"
    and free_frame: "inv s \<Longrightarrow> b \<noteq> a \<Longrightarrow> cells (free s a) b = cells s b"
begin

lemma run_op_inv:
  assumes "inv s" and "admissible alloc free ok s [x]"
  shows "inv (run_op alloc free s x)"
proof (cases x)
  case (Alloc n)
  obtain a s' where "alloc s n = (a, s')" by fastforce
  with Alloc assms show ?thesis by (auto intro: alloc_inv)
next
  case (Free a)
  with assms show ?thesis by (simp add: free_inv)
qed

lemma run_op_keeps:
  assumes "inv s" and "admissible alloc free ok s [x]" and "x \<noteq> Free a" and "cells s a \<noteq> {}"
  shows "cells (run_op alloc free s x) a = cells s a"
proof (cases x)
  case (Alloc n)
  with assms have ok: "ok s n" by simp
  obtain b s' where eq: "alloc s n = (b, s')" by fastforce
  show ?thesis
  proof (cases "b = null")
    case True
    with eq have "s' = s" using alloc_null [OF assms(1) ok] by simp
    with Alloc eq show ?thesis by simp
  next
    case False
    with eq ok have "cells s b = {}" using alloc_fresh assms(1) by blast
    with assms(4) have "a \<noteq> b" by auto
    with False eq ok have "cells s' a = cells s a" using alloc_frame assms(1) by blast
    with Alloc eq show ?thesis by simp
  qed
next
  case (Free b)
  with assms show ?thesis by (simp add: free_frame)
qed

lemma admissible_Cons:
  "admissible alloc free ok s (x # xs) \<longleftrightarrow>
     admissible alloc free ok s [x] \<and> admissible alloc free ok (run_op alloc free s x) xs"
  by simp

lemma run_ops_inv:
  "inv s \<Longrightarrow> admissible alloc free ok s xs \<Longrightarrow> inv (run_ops alloc free s xs)"
proof (induction xs arbitrary: s)
  case (Cons x xs)
  then have "inv (run_op alloc free s x)"
    using run_op_inv admissible_Cons by blast
  with Cons show ?case by simp
qed simp

text \<open>A live allocation keeps exactly its storage until it is freed.\<close>

lemma run_ops_keeps:
  assumes "inv s" "admissible alloc free ok s xs" "Free a \<notin> set xs" "cells s a \<noteq> {}"
  shows "cells (run_ops alloc free s xs) a = cells s a"
  using assms
proof (induction xs arbitrary: s)
  case (Cons x xs)
  then have adm: "admissible alloc free ok s [x]" "admissible alloc free ok (run_op alloc free s x) xs"
    using admissible_Cons by blast+
  have inv': "inv (run_op alloc free s x)" using Cons.prems(1) adm(1) by (rule run_op_inv)
  have keep: "cells (run_op alloc free s x) a = cells s a"
    using Cons.prems adm(1) by (intro run_op_keeps) auto
  have "cells (run_ops alloc free (run_op alloc free s x) xs) a = cells (run_op alloc free s x) a"
    using Cons.prems(3,4) keep by (intro Cons.IH inv' adm(2)) auto
  with keep show ?case by simp
qed simp

text \<open>Storage handed out is never part of another live allocation, at any later time.\<close>

lemma alloc_exclusive:
  assumes "inv s" "ok s n" "alloc s n = (a, s')" "a \<noteq> null" "b \<noteq> a"
  shows "cells s' a \<inter> cells s b = {}"
proof -
  have "inv s'" using assms alloc_inv by blast
  then have "cells s' a \<inter> cells s' b = {}" using assms(5) disjoint by blast
  moreover have "cells s' b = cells s b" using assms alloc_frame by blast
  ultimately show ?thesis by simp
qed

lemma free_after_alloc:
  assumes "inv s" "ok s n" "alloc s n = (a, s')" "a \<noteq> null"
  shows "cells (free s' a) = cells s"
proof
  fix b
  have inv': "inv s'" using assms alloc_inv by blast
  show "cells (free s' a) b = cells s b"
  proof (cases "b = a")
    case True
    with inv' assms show ?thesis using free_cells alloc_fresh by simp
  next
    case False
    with inv' assms show ?thesis using free_frame alloc_frame by simp
  qed
qed

end

end
