(* ===== verification/Kernel_Heap.thy ===== *)
theory Kernel_Heap
  imports Allocator
begin

section \<open>The kernel heap (source/kernel.c)\<close>

text \<open>
  The near heap of the kernel: a table of \<open>HEAP_MAX_BLOCK\<close> blocks of \<open>HEAP_BLOCK_SIZE\<close>
  bytes, each with a flag and the address of the allocation it belongs to. The address
  \<open>HEAPADDR\<close> of the storage is chosen by the linker and is a parameter. Loop counters that stay
  below the constant \<open>HEAP_MAX_BLOCK\<close> are natural numbers; sizes and addresses are 16-bit words.
\<close>

definition HEAP_MAX_BLOCK :: nat where [simp]: "HEAP_MAX_BLOCK = 0x80"
definition HEAP_MEM_SIZE :: nat where [simp]: "HEAP_MEM_SIZE = 0x400"
definition HEAP_BLOCK_SIZE :: nat where [simp]: "HEAP_BLOCK_SIZE = HEAP_MEM_SIZE div HEAP_MAX_BLOCK"

record heapblock =
  used :: u16
  ptr :: u16

type_synonym heap = "heapblock list"

definition heap_init :: "heap \<Rightarrow> heap" where
  "heap_init h = map (\<lambda>b. b\<lparr>used := 0, ptr := 0\<rparr>) h"

text \<open>The inner loop of \<open>heap_alloc\<close>: blocks \<open>j\<close> to \<open>i\<close> get the address and the flag.\<close>

function heap_mark :: "heap \<Rightarrow> u16 \<Rightarrow> nat \<Rightarrow> nat \<Rightarrow> heap" where
  "heap_mark h addr j i =
     (if j \<le> i then heap_mark (h[j := (h ! j)\<lparr>ptr := addr, used := 1\<rparr>]) addr (j + 1) i else h)"
  by pat_completeness auto
termination
  by (relation "measure (\<lambda>(h, addr, j, i). i + 1 - j)") auto

declare heap_mark.simps [simp del]

text \<open>The search loop: \<open>n_found\<close> free blocks end just before block \<open>i\<close>.\<close>

function heap_scan :: "u16 \<Rightarrow> nat \<Rightarrow> heap \<Rightarrow> nat \<Rightarrow> nat \<Rightarrow> u16 \<times> heap" where
  "heap_scan HEAPADDR n_alloc h i n_found =
     (if i < HEAP_MAX_BLOCK then
        (if used (h ! i) \<noteq> 0 then heap_scan HEAPADDR n_alloc h (i + 1) 0
         else if n_found + 1 \<ge> n_alloc then
           (let bi = (i + 1 - n_alloc) * HEAP_BLOCK_SIZE; addr = HEAPADDR + of_nat bi
            in (addr, heap_mark h addr (i + 1 - n_alloc) i))
         else heap_scan HEAPADDR n_alloc h (i + 1) (n_found + 1))
      else (0, h))"
  by pat_completeness auto
termination
  by (relation "measure (\<lambda>(b, n, h, i, f). HEAP_MAX_BLOCK - i)") auto

declare heap_scan.simps [simp del]

text \<open>Number of blocks that hold \<open>size\<close> bytes.\<close>

definition heap_n_alloc :: "u16 \<Rightarrow> nat" where
  "heap_n_alloc sz =
     unat sz div HEAP_BLOCK_SIZE + (if unat sz mod HEAP_BLOCK_SIZE \<noteq> 0 then 1 else 0)"

definition heap_alloc :: "u16 \<Rightarrow> heap \<Rightarrow> u16 \<Rightarrow> u16 \<times> heap" where
  "heap_alloc HEAPADDR h sz =
     (if sz = 0 then (0, h) else heap_scan HEAPADDR (heap_n_alloc sz) h 0 0)"

definition heap_free :: "heap \<Rightarrow> u16 \<Rightarrow> heap" where
  "heap_free h p =
     (if p \<noteq> 0
      then map (\<lambda>b. if ptr b = p \<and> used b \<noteq> 0 then b\<lparr>used := 0, ptr := 0\<rparr> else b) h
      else h)"

subsection \<open>Well-formed heaps\<close>

text \<open>The address of block \<open>k\<close>.\<close>

definition blk :: "u16 \<Rightarrow> nat \<Rightarrow> u16" where
  "blk HEAPADDR k = HEAPADDR + of_nat (k * HEAP_BLOCK_SIZE)"

text \<open>
  A free block has no address; a used block belongs to a contiguous run that starts at the block
  its address names. The storage lies inside the segment and not at address 0.
\<close>

definition blk_ok :: "u16 \<Rightarrow> heap \<Rightarrow> nat \<Rightarrow> bool" where
  "blk_ok base h i \<longleftrightarrow>
     (if used (h ! i) = 0 then ptr (h ! i) = 0
      else \<exists>k \<le> i. \<forall>j \<in> {k..i}. used (h ! j) = 1 \<and> ptr (h ! j) = blk base k)"

definition heap_inv :: "u16 \<Rightarrow> heap \<Rightarrow> bool" where
  "heap_inv base h \<longleftrightarrow>
     0 < unat base \<and> unat base + HEAP_MEM_SIZE \<le> 65536 \<and> length h = HEAP_MAX_BLOCK \<and>
     (\<forall>i < HEAP_MAX_BLOCK. blk_ok base h i)"

lemma heap_invD:
  assumes "heap_inv base h"
  shows "0 < unat base" "unat base + HEAP_MEM_SIZE \<le> 65536" "length h = HEAP_MAX_BLOCK"
    "i < HEAP_MAX_BLOCK \<Longrightarrow> blk_ok base h i"
  using assms by (auto simp: heap_inv_def)

lemma blk_okE:
  assumes "blk_ok base h i" "used (h ! i) \<noteq> 0"
  obtains k where "k \<le> i"
    "\<And>j. k \<le> j \<Longrightarrow> j \<le> i \<Longrightarrow> used (h ! j) = 1 \<and> ptr (h ! j) = blk base k"
proof -
  from assms obtain k where "k \<le> i" "\<forall>j \<in> {k..i}. used (h ! j) = 1 \<and> ptr (h ! j) = blk base k"
    by (auto simp: blk_ok_def)
  then show ?thesis using that by simp
qed

lemma blk_okI:
  assumes "k \<le> i" and run: "\<And>j. k \<le> j \<Longrightarrow> j \<le> i \<Longrightarrow> used (h ! j) = 1 \<and> ptr (h ! j) = blk base k"
  shows "blk_ok base h i"
proof -
  have "used (h ! i) \<noteq> 0" using run [OF assms(1) order_refl] by simp
  moreover have "\<forall>j \<in> {k..i}. used (h ! j) = 1 \<and> ptr (h ! j) = blk base k" using run by simp
  ultimately show ?thesis using assms(1) unfolding blk_ok_def by metis
qed

definition heap_cells :: "heap \<Rightarrow> u16 \<Rightarrow> nat set" where
  "heap_cells h a = {i. i < HEAP_MAX_BLOCK \<and> used (h ! i) \<noteq> 0 \<and> ptr (h ! i) = a}"

definition free_run :: "heap \<Rightarrow> nat \<Rightarrow> nat \<Rightarrow> bool" where
  "free_run h k n \<longleftrightarrow> k + n \<le> HEAP_MAX_BLOCK \<and> (\<forall>j. k \<le> j \<and> j < k + n \<longrightarrow> used (h ! j) = 0)"

lemma blk_unat:
  assumes "unat base + HEAP_MEM_SIZE \<le> 65536" and "k < HEAP_MAX_BLOCK"
  shows "unat (blk base k) = unat base + 8 * k"
proof -
  define o8 :: u16 where "o8 = of_nat (k * 8)"
  have "unat o8 = k * 8" unfolding o8_def using assms by (intro unat_of_nat_u16) simp
  moreover have "blk base k = base + o8" by (simp add: blk_def o8_def)
  ultimately show ?thesis using assms by (simp add: unat_plus_u16)
qed

lemma blk_inj:
  assumes "unat base + HEAP_MEM_SIZE \<le> 65536" "k < HEAP_MAX_BLOCK" "j < HEAP_MAX_BLOCK"
    and "blk base k = blk base j"
  shows "k = j"
proof -
  have "unat base + 8 * k = unat base + 8 * j"
    unfolding blk_unat [OF assms(1,2), symmetric] blk_unat [OF assms(1,3), symmetric] assms(4) ..
  then show ?thesis by linarith
qed

lemma blk_nonzero:
  assumes "0 < unat base" "unat base + HEAP_MEM_SIZE \<le> 65536" "k < HEAP_MAX_BLOCK"
  shows "blk base k \<noteq> 0"
proof
  assume "blk base k = 0"
  then have "unat (blk base k) = 0" by (simp only: unsigned_0)
  with blk_unat [OF assms(2,3)] assms(1) show False by linarith
qed

subsection \<open>What the loops compute\<close>

lemma length_heap_mark [simp]: "length (heap_mark h addr j i) = length h"
proof (induction h addr j i rule: heap_mark.induct)
  case (1 h addr j i)
  then show ?case by (subst heap_mark.simps) simp
qed

lemma heap_mark_nth:
  "i < length h \<Longrightarrow> m < length h \<Longrightarrow>
   heap_mark h addr j i ! m =
     (if j \<le> m \<and> m \<le> i then (h ! m)\<lparr>ptr := addr, used := 1\<rparr> else h ! m)"
proof (induction h addr j i rule: heap_mark.induct)
  case (1 h addr j i)
  show ?case
  proof (cases "j \<le> i")
    case True
    with 1 show ?thesis
      by (subst heap_mark.simps) (auto simp: nth_list_update)
  next
    case False
    then show ?thesis by (subst heap_mark.simps) auto
  qed
qed

lemma heap_scan_spec:
  assumes "0 < n" and "f \<le> i" and "f < n" and "i \<le> HEAP_MAX_BLOCK"
    and "\<forall>j. i - f \<le> j \<and> j < i \<longrightarrow> used (h ! j) = 0"
    and "f < i \<longrightarrow> used (h ! (i - f - 1)) \<noteq> 0"
    and "\<forall>k. k + n \<le> i \<longrightarrow> \<not> free_run h k n"
  shows "(\<exists>k. heap_scan base n h i f = (blk base k, heap_mark h (blk base k) k (k + n - 1)) \<and>
            free_run h k n \<and> (\<forall>k' < k. \<not> free_run h k' n)) \<or>
         (heap_scan base n h i f = (0, h) \<and> (\<forall>k. \<not> free_run h k n))"
  using assms
proof (induction base n h i f rule: heap_scan.induct)
  case (1 base n h i f)
  note prems = "1.prems"
  show ?case
  proof (cases "i < HEAP_MAX_BLOCK")
    case False
    with prems(4) have "i = HEAP_MAX_BLOCK" by simp
    with prems(7) have "\<forall>k. \<not> free_run h k n" by (auto simp: free_run_def)
    with False show ?thesis by (subst (1 2) heap_scan.simps) auto
  next
    case i: True
    have used_block: "\<not> free_run h k n" if "used (h ! i) \<noteq> 0" "k + n \<le> i + 1" for k
    proof (cases "k + n \<le> i")
      case True
      with prems(7) show ?thesis by blast
    next
      case False
      with that prems(1) have "k \<le> i" "i < k + n" by auto
      with that(1) show ?thesis by (auto simp: free_run_def)
    qed
    show ?thesis
    proof (cases "used (h ! i) \<noteq> 0")
      case True
      have "(\<exists>k. heap_scan base n h (i + 1) 0 = (blk base k, heap_mark h (blk base k) k (k + n - 1)) \<and>
            free_run h k n \<and> (\<forall>k' < k. \<not> free_run h k' n)) \<or>
         (heap_scan base n h (i + 1) 0 = (0, h) \<and> (\<forall>k. \<not> free_run h k n))"
        using i True prems(1) used_block by (intro "1.IH"(1)) auto
      with i True show ?thesis by (subst (1 2) heap_scan.simps) simp
    next
      case free: False
      have run: "\<forall>j. i - f \<le> j \<and> j < i + 1 \<longrightarrow> used (h ! j) = 0"
        using prems(5) free less_Suc_eq by auto
      have early: "\<not> free_run h k n" if "k < i - f" "k + n \<le> i + 1" for k
      proof (cases "k + n \<le> i")
        case True
        with prems(7) show ?thesis by blast
      next
        case False
        with that prems(2,3) have "f < i" "k \<le> i - f - 1" "i - f - 1 < k + n" by auto
        with prems(6) show ?thesis by (auto simp: free_run_def)
      qed
      show ?thesis
      proof (cases "f + 1 \<ge> n")
        case True
        with prems(2,3) have n: "n = f + 1" "i + 1 - n = i - f" by auto
        have "free_run h (i - f) n" using i n run prems(2) by (simp add: free_run_def)
        moreover have "\<forall>k' < i - f. \<not> free_run h k' n" using early n by simp
        moreover have "heap_scan base n h i f =
            (blk base (i - f), heap_mark h (blk base (i - f)) (i - f) (i - f + n - 1))"
          using i free True n prems(2)
          by (subst heap_scan.simps) (simp add: Let_def blk_def)
        ultimately show ?thesis by blast
      next
        case False
        have none: "\<forall>k. k + n \<le> i + 1 \<longrightarrow> \<not> free_run h k n"
        proof (intro allI impI)
          fix k assume k: "k + n \<le> i + 1"
          with False have "k < i - f" by auto
          with k show "\<not> free_run h k n" by (rule early [rotated])
        qed
        have "(\<exists>k. heap_scan base n h (i + 1) (f + 1) =
              (blk base k, heap_mark h (blk base k) k (k + n - 1)) \<and>
            free_run h k n \<and> (\<forall>k' < k. \<not> free_run h k' n)) \<or>
         (heap_scan base n h (i + 1) (f + 1) = (0, h) \<and> (\<forall>k. \<not> free_run h k n))"
          using i free False prems none run by (intro "1.IH"(2)) auto
        with i free False show ?thesis by (subst (1 2) heap_scan.simps) simp
      qed
    qed
  qed
qed

subsection \<open>Allocation\<close>

lemma heap_n_alloc_pos: "sz \<noteq> 0 \<Longrightarrow> 0 < heap_n_alloc sz"
  using unat_gt_0 [of sz] by (auto simp: heap_n_alloc_def)

lemma heap_n_alloc_bounds:
  "unat sz \<le> HEAP_BLOCK_SIZE * heap_n_alloc sz"
  "sz \<noteq> 0 \<Longrightarrow> HEAP_BLOCK_SIZE * heap_n_alloc sz < unat sz + HEAP_BLOCK_SIZE"
  by (auto simp: heap_n_alloc_def) presburger+

text \<open>First fit: the lowest run of enough free blocks, and 0 only if there is none.\<close>

lemma heap_alloc_cases:
  assumes "sz \<noteq> 0"
  shows "(\<exists>k. heap_alloc base h sz =
              (blk base k, heap_mark h (blk base k) k (k + heap_n_alloc sz - 1)) \<and>
            free_run h k (heap_n_alloc sz) \<and> (\<forall>k' < k. \<not> free_run h k' (heap_n_alloc sz))) \<or>
         (heap_alloc base h sz = (0, h) \<and> (\<forall>k. \<not> free_run h k (heap_n_alloc sz)))"
proof -
  have "\<not> free_run h k (heap_n_alloc sz)" if "k + heap_n_alloc sz \<le> 0" for k
    using that heap_n_alloc_pos [OF assms] by simp
  then have "\<forall>k. k + heap_n_alloc sz \<le> 0 \<longrightarrow> \<not> free_run h k (heap_n_alloc sz)" by blast
  from heap_scan_spec [OF heap_n_alloc_pos [OF assms] _ _ _ _ _ this, of 0 base] assms
  show ?thesis
    unfolding heap_alloc_def using heap_n_alloc_pos [OF assms] by auto
qed

lemma heap_alloc_Some:
  assumes "heap_inv base h" and "heap_alloc base h sz = (a, h')" and "a \<noteq> 0"
  obtains k n where "n = heap_n_alloc sz" "0 < n" "sz \<noteq> 0" "a = blk base k"
    "h' = heap_mark h a k (k + n - 1)" "free_run h k n" "k < HEAP_MAX_BLOCK"
    "\<forall>k' < k. \<not> free_run h k' n"
proof -
  have sz: "sz \<noteq> 0" using assms(2,3) by (auto simp: heap_alloc_def)
  from heap_alloc_cases [OF sz, of base h] assms(2,3) obtain k where
    k: "a = blk base k" "h' = heap_mark h a k (k + heap_n_alloc sz - 1)"
       "free_run h k (heap_n_alloc sz)" "\<forall>k' < k. \<not> free_run h k' (heap_n_alloc sz)"
    by auto
  moreover have "k < HEAP_MAX_BLOCK" using k(3) heap_n_alloc_pos [OF sz] by (simp add: free_run_def)
  ultimately show ?thesis using that heap_n_alloc_pos [OF sz] sz by blast
qed

lemma heap_alloc_None: 
  assumes "heap_inv base h" and "heap_alloc base h sz = (0, h')"
  shows "h' = h \<and> (sz = 0 \<or> (\<forall>k. \<not> free_run h k (heap_n_alloc sz)))"
proof (cases "sz = 0")
  case True
  with assms show ?thesis by (simp add: heap_alloc_def)
next
  case False
  have "blk base k \<noteq> 0" if "free_run h k (heap_n_alloc sz)" for k
    using assms(1) that heap_n_alloc_pos [OF False]
    by (intro blk_nonzero) (auto simp: heap_inv_def free_run_def)
  with heap_alloc_cases [OF False, of base h] assms(2) show ?thesis by fastforce
qed

lemma heap_mark_run_nth:
  assumes "length h = HEAP_MAX_BLOCK" "free_run h k n" "0 < n" "m < HEAP_MAX_BLOCK"
  shows "heap_mark h a k (k + n - 1) ! m =
    (if k \<le> m \<and> m < k + n then (h ! m)\<lparr>ptr := a, used := 1\<rparr> else h ! m)"
  using assms by (subst heap_mark_nth) (auto simp: free_run_def)

lemma heap_fresh:
  assumes inv: "heap_inv base h" and "used (h ! k) = 0" "k < HEAP_MAX_BLOCK"
  shows "heap_cells h (blk base k) = {}"
proof (rule equals0I)
  fix i assume "i \<in> heap_cells h (blk base k)"
  then have i: "i < HEAP_MAX_BLOCK" "used (h ! i) \<noteq> 0" "ptr (h ! i) = blk base k"
    by (auto simp: heap_cells_def)
  from blk_okE [OF heap_invD(4) [OF inv i(1)] i(2)] obtain k' where
    k': "k' \<le> i" "ptr (h ! i) = blk base k'" "used (h ! k') = 1" by (metis order_refl)
  have "k' < HEAP_MAX_BLOCK" using k'(1) i(1) by linarith
  moreover have "blk base k' = blk base k" using i(3) k'(2) by simp
  ultimately have "k' = k" using heap_invD(2) [OF inv] assms(3) blk_inj by blast
  with k'(3) assms(2) show False by simp
qed

lemma heap_alloc_inv:
  assumes inv: "heap_inv base h" and al: "heap_alloc base h sz = (a, h')"
  shows "heap_inv base h'"
proof (cases "a = 0")
  case True
  with al have "heap_alloc base h sz = (0, h')" by simp
  with heap_alloc_None [OF inv] inv show ?thesis by blast
next
  case False
  from heap_alloc_Some [OF inv al False] obtain k n where
    k: "0 < n" "a = blk base k" "h' = heap_mark h a k (k + n - 1)" "free_run h k n" by metis
  have len: "length h = HEAP_MAX_BLOCK" using inv by (simp add: heap_inv_def)
  have nth: "h' ! m = (if k \<le> m \<and> m < k + n then (h ! m)\<lparr>ptr := a, used := 1\<rparr> else h ! m)"
    if "m < HEAP_MAX_BLOCK" for m
    unfolding k(3) by (rule heap_mark_run_nth [OF len k(4,1) that])
  have block: "blk_ok base h' i" if i: "i < HEAP_MAX_BLOCK" for i
  proof (cases "k \<le> i \<and> i < k + n")
    case True
    have "used (h' ! j) = 1 \<and> ptr (h' ! j) = blk base k" if "k \<le> j" "j \<le> i" for j
      using True i that nth [of j] k(2) by simp
    with True show ?thesis by (intro blk_okI [of k]) auto
  next
    case out: False
    then have eq: "h' ! i = h ! i" using nth [OF i] by auto
    note ok = heap_invD(4) [OF inv i]
    show ?thesis
    proof (cases "used (h ! i) = 0")
      case True
      with eq ok show ?thesis by (simp add: blk_ok_def)
    next
      case False
      from blk_okE [OF ok False] obtain l where l: "l \<le> i"
        "\<And>j. l \<le> j \<Longrightarrow> j \<le> i \<Longrightarrow> used (h ! j) = 1 \<and> ptr (h ! j) = blk base l" by metis
      have "h' ! j = h ! j" if j: "l \<le> j" "j \<le> i" for j
      proof -
        have "\<not> (k \<le> j \<and> j < k + n)" using l(2) [OF j] k(4) by (auto simp: free_run_def)
        with nth [of j] j i show ?thesis by auto
      qed
      with l eq show ?thesis by (intro blk_okI [of l]) auto
    qed
  qed
  have "length h' = HEAP_MAX_BLOCK" using k(3) len by simp
  with block heap_invD(1,2) [OF inv] show ?thesis by (auto simp: heap_inv_def)
qed

lemma heap_alloc_cells:
  assumes inv: "heap_inv base h" and al: "heap_alloc base h sz = (a, h')" and a: "a \<noteq> 0"
  obtains k where "a = blk base k" "free_run h k (heap_n_alloc sz)"
    "heap_cells h a = {}" "heap_cells h' a = {k ..< k + heap_n_alloc sz}"
    "\<And>b. b \<noteq> a \<Longrightarrow> heap_cells h' b = heap_cells h b"
proof -
  from heap_alloc_Some [OF inv al a] obtain k where
    k: "0 < heap_n_alloc sz" "a = blk base k" "h' = heap_mark h a k (k + heap_n_alloc sz - 1)"
       "free_run h k (heap_n_alloc sz)" "k < HEAP_MAX_BLOCK" by metis
  have len: "length h = HEAP_MAX_BLOCK" using inv by (simp add: heap_inv_def)
  note nth = heap_mark_run_nth [OF len k(4,1), of _ a, folded k(3)]
  have fresh: "heap_cells h a = {}"
    unfolding k(2) using k(1,4,5) by (intro heap_fresh [OF inv]) (auto simp: free_run_def)
  have "heap_cells h' a = {k ..< k + heap_n_alloc sz}"
    using k(4) fresh by (auto simp: heap_cells_def nth free_run_def split: if_splits)
  moreover have "heap_cells h' b = heap_cells h b" if "b \<noteq> a" for b
    using that k(4) by (auto simp: heap_cells_def nth free_run_def split: if_splits)
  ultimately show ?thesis using that k(2,4) fresh by blast
qed

subsection \<open>Release\<close>

lemma heap_free_nth:
  "i < length h \<Longrightarrow> heap_free h p ! i =
     (if p \<noteq> 0 \<and> ptr (h ! i) = p \<and> used (h ! i) \<noteq> 0 then (h ! i)\<lparr>used := 0, ptr := 0\<rparr> else h ! i)"
  by (simp add: heap_free_def)

lemma length_heap_free [simp]: "length (heap_free h p) = length h"
  by (simp add: heap_free_def)

lemma heap_free_inv:
  assumes inv: "heap_inv base h"
  shows "heap_inv base (heap_free h p)"
proof -
  have len: "length h = HEAP_MAX_BLOCK" using inv by (simp add: heap_inv_def)
  have "blk_ok base (heap_free h p) i" if i: "i < HEAP_MAX_BLOCK" for i
  proof (cases "used (h ! i) = 0 \<or> p \<noteq> 0 \<and> ptr (h ! i) = p")
    case True
    with heap_invD(4) [OF inv i] i len show ?thesis by (auto simp: heap_free_nth blk_ok_def)
  next
    case False
    then have u: "used (h ! i) \<noteq> 0" by simp
    from blk_okE [OF heap_invD(4) [OF inv i] u] obtain l where
      l: "l \<le> i" "\<And>j. l \<le> j \<Longrightarrow> j \<le> i \<Longrightarrow> used (h ! j) = 1 \<and> ptr (h ! j) = blk base l" by metis
    have "heap_free h p ! j = h ! j" if "l \<le> j" "j \<le> i" for j
      using l(2) [OF that] l(2) [OF l(1) order_refl] that False i len by (subst heap_free_nth) auto
    with l show ?thesis by (intro blk_okI [of l]) auto
  qed
  with heap_invD(1,2) [OF inv] len show ?thesis by (auto simp: heap_inv_def)
qed

lemma heap_free_cells:
  assumes "length h = HEAP_MAX_BLOCK"
  shows "heap_cells (heap_free h p) b = (if p \<noteq> 0 \<and> b = p then {} else heap_cells h b)"
  using assms by (auto simp: heap_cells_def heap_free_nth split: if_splits)

interpretation kheap: allocator "heap_alloc base" heap_free 0 heap_cells heap_n_alloc
  "\<lambda>h sz. True" "heap_inv base" for base
proof (unfold_locales, goal_cases)
  case (1 h n a h')
  then show ?case by (blast intro: heap_alloc_inv)
next
  case (2 h n h')
  then show ?case using heap_alloc_None by blast
next
  case (3 h n a h')
  then show ?case by (metis heap_alloc_cells)
next
  case (4 h n a h')
  then show ?case by (metis heap_alloc_cells card_atLeastLessThan add_diff_cancel_left' order_refl)
next
  case (5 h n a h' b)
  then show ?case by (metis heap_alloc_cells)
next
  case (6 h a b)
  then show ?case by (auto simp: heap_cells_def)
next
  case (7 h a)
  then show ?case by (rule heap_free_inv)
next
  case (8 h a)
  then show ?case by (simp add: heap_free_cells heap_inv_def)
next
  case (9 h b a)
  then show ?case by (simp add: heap_free_cells heap_inv_def)
qed

subsection \<open>Properties\<close>

text \<open>
  C27: \<open>heap_alloc\<close> is first fit and complete: it returns 0 and leaves the table as it was exactly
  when the size is 0 or no run of enough consecutive free blocks exists; otherwise it returns the
  address of the lowest such run, marks exactly these blocks (enough for the size, with less
  than one block to spare) and touches the blocks of no other allocation.
\<close>

theorem heap_alloc_first_fit:
  assumes inv: "heap_inv base h" and al: "heap_alloc base h sz = (a, h')"
  shows "if a = 0
    then h' = h \<and> (sz = 0 \<or> (\<forall>k. \<not> free_run h k (heap_n_alloc sz)))
    else \<exists>k. a = base + of_nat (HEAP_BLOCK_SIZE * k) \<and> free_run h k (heap_n_alloc sz) \<and>
      (\<forall>k' < k. \<not> free_run h k' (heap_n_alloc sz)) \<and>
      heap_cells h' a = {k ..< k + heap_n_alloc sz} \<and>
      (\<forall>b. b \<noteq> a \<longrightarrow> heap_cells h' b = heap_cells h b) \<and>
      unat sz \<le> HEAP_BLOCK_SIZE * heap_n_alloc sz \<and>
      HEAP_BLOCK_SIZE * heap_n_alloc sz < unat sz + HEAP_BLOCK_SIZE"
proof (cases "a = 0")
  case True
  with al have "heap_alloc base h sz = (0, h')" by simp
  from heap_alloc_None [OF inv this] True show ?thesis by simp
next
  case False
  from heap_alloc_Some [OF inv al False] obtain k where
    k: "sz \<noteq> 0" "a = blk base k" "free_run h k (heap_n_alloc sz)" "k < HEAP_MAX_BLOCK"
       "\<forall>k' < k. \<not> free_run h k' (heap_n_alloc sz)" by metis
  from heap_alloc_cells [OF inv al False] obtain l where
    l: "a = blk base l" "free_run h l (heap_n_alloc sz)"
       "heap_cells h' a = {l ..< l + heap_n_alloc sz}"
       "\<forall>b. b \<noteq> a \<longrightarrow> heap_cells h' b = heap_cells h b" by metis
  have "l < HEAP_MAX_BLOCK" using l(2) heap_n_alloc_pos [OF k(1)] by (simp add: free_run_def)
  then have "l = k" using blk_inj [OF heap_invD(2) [OF inv]] k(2,4) l(1) by metis
  with k l False heap_n_alloc_bounds [of sz] show ?thesis
    by (auto simp: blk_def mult.commute)
qed

text \<open>
  C26: In every sequence of requests and releases on a well-formed heap, an allocation keeps exactly
  its blocks until its own address is released, and no other allocation ever shares one of them.
\<close>

theorem heap_allocation_isolated:
  assumes "heap_inv base h" and "heap_cells h a \<noteq> {}" and "Free a \<notin> set xs"
  shows "heap_inv base (run_ops (heap_alloc base) heap_free h xs) \<and>
    heap_cells (run_ops (heap_alloc base) heap_free h xs) a = heap_cells h a \<and>
    (\<forall>b. b \<noteq> a \<longrightarrow> heap_cells (run_ops (heap_alloc base) heap_free h xs) b \<inter> heap_cells h a = {})"
proof -
  have adm: "admissible (heap_alloc base) heap_free (\<lambda>h sz. True) h xs" for h
    by (induction xs arbitrary: h) (auto split: mem_op.splits)
  have inv': "heap_inv base (run_ops (heap_alloc base) heap_free h xs)"
    by (rule kheap.run_ops_inv [OF assms(1) adm])
  have keeps: "heap_cells (run_ops (heap_alloc base) heap_free h xs) a = heap_cells h a"
    by (rule kheap.run_ops_keeps [OF assms(1) adm assms(3,2)])
  from kheap.disjoint [OF inv'] inv' keeps show ?thesis by metis
qed

lemma heap_init_inv:
  assumes "0 < unat base" "unat base + HEAP_MEM_SIZE \<le> 65536" "length h = HEAP_MAX_BLOCK"
  shows "heap_inv base (heap_init h)"
  using assms by (simp add: heap_inv_def heap_init_def blk_ok_def)

text \<open>Releasing a fresh allocation restores the whole block table.\<close>

lemma heap_free_undoes_alloc:
  assumes inv: "heap_inv base h" and al: "heap_alloc base h sz = (a, h')"
  shows "heap_free h' a = h"
proof (cases "a = 0")
  case True
  with al have "heap_alloc base h sz = (0, h')" by simp
  from heap_alloc_None [OF inv this] True show ?thesis by (simp add: heap_free_def)
next
  case False
  from heap_alloc_Some [OF inv al False] obtain k n where
    k: "0 < n" "a = blk base k" "h' = heap_mark h a k (k + n - 1)" "free_run h k n"
       "k < HEAP_MAX_BLOCK" by metis
  have len: "length h = HEAP_MAX_BLOCK" using inv by (simp add: heap_inv_def)
  note nth = heap_mark_run_nth [OF len k(4,1), of _ a, folded k(3)]
  have fresh: "heap_cells h a = {}"
    unfolding k(2) using k(1,4,5) by (intro heap_fresh [OF inv]) (auto simp: free_run_def)
  have "heap_free h' a ! i = h ! i" if i: "i < HEAP_MAX_BLOCK" for i
  proof (cases "k \<le> i \<and> i < k + n")
    case True
    then have "used (h ! i) = 0" using k(4) by (auto simp: free_run_def)
    moreover from this heap_invD(4) [OF inv i] have "ptr (h ! i) = 0" by (simp add: blk_ok_def)
    ultimately show ?thesis
      using True i False len k(3) nth [OF i] by (subst heap_free_nth) auto
  next
    case False
    with fresh i len k(3) nth [OF i] show ?thesis
      by (subst heap_free_nth) (auto simp: heap_cells_def)
  qed
  then show ?thesis using len k(3) by (intro nth_equalityI) auto
qed

text \<open>Concrete instances: the heap right after \<open>heap_init\<close>, its storage at address 256.\<close>

definition heap_sample :: heap where
  "heap_sample = heap_init (replicate HEAP_MAX_BLOCK \<lparr>used = 7, ptr = 9\<rparr>)"

lemma heap_sample_inv: "heap_inv 256 heap_sample"
  unfolding heap_sample_def by (rule heap_init_inv) simp_all

lemma heap_sample_nth: "i < HEAP_MAX_BLOCK \<Longrightarrow> heap_sample ! i = \<lparr>used = 0, ptr = 0\<rparr>"
  by (simp add: heap_sample_def heap_init_def)

lemma heap_sample_alloc:
  "heap_alloc 256 heap_sample 12 = (256, heap_mark heap_sample 256 0 1)"
  by (simp add: heap_alloc_def heap_n_alloc_def heap_scan.simps [of _ _ _ 0]
      heap_scan.simps [of _ _ _ "Suc 0"] heap_sample_nth)

lemma heap_sample_cells: "heap_cells (heap_mark heap_sample 256 0 1) 256 = {0, 1}"
proof -
  obtain k where "(256 :: u16) = blk 256 k" "free_run heap_sample k (heap_n_alloc 12)"
    "heap_cells (heap_mark heap_sample 256 0 1) 256 = {k ..< k + heap_n_alloc 12}"
    by (rule heap_alloc_cells [OF heap_sample_inv heap_sample_alloc]) auto
  moreover from this have "k = 0"
    using blk_inj [of 256 k 0] by (simp add: blk_def free_run_def heap_n_alloc_def)
  moreover have "{0 ..< Suc (Suc 0)} = {0, Suc 0}" by auto
  ultimately show ?thesis by (simp add: heap_n_alloc_def)
qed

theorem heap_alloc_first_fit_witness:
  "\<exists>k. (256 :: u16) = 256 + of_nat (HEAP_BLOCK_SIZE * k) \<and> free_run heap_sample k (heap_n_alloc 12)"
  using heap_alloc_first_fit [OF heap_sample_inv heap_sample_alloc] by auto

theorem heap_allocation_isolated_witness:
  "heap_cells (run_ops (heap_alloc 256) heap_free (heap_mark heap_sample 256 0 1)
     [Alloc 100, Free 272, Alloc 8]) 256 = {0, 1}"
  using heap_allocation_isolated
    [OF heap_alloc_inv [OF heap_sample_inv heap_sample_alloc], of 256 "[Alloc 100, Free 272, Alloc 8]"]
  by (simp add: heap_sample_cells [simplified])

end
