(* ===== verification/Kernel_Lmem.thy ===== *)
theory Kernel_Lmem
  imports Allocator
begin

section \<open>Far memory (source/kernel.c)\<close>

text \<open>
  The far-memory service: a table of \<open>LMEM_MAX_BLOCK\<close> blocks with 32-bit address and size,
  kept sorted and packed (live blocks first, then zero blocks). A live block is one whose
  \<open>l_start\<close> is not 0. Table indices are natural numbers below 64; addresses and sizes are 32-bit
  words with wrap-around, as in the code. The two overlapping \<open>memcpy\<close> calls are list
  operations here: \<open>Ulib_Memory\<close> proves that \<open>memcpy\<close> moves overlapping regions correctly.
\<close>

definition LMEM_START :: u32 where [simp]: "LMEM_START = 0x00028000"
definition LMEM_LIMIT :: u32 where [simp]: "LMEM_LIMIT = 0x0009FC00"
definition LMEM_BLOCK_SIZE :: u32 where [simp]: "LMEM_BLOCK_SIZE = 0x10"
definition LMEM_MAX_BLOCK :: nat where [simp]: "LMEM_MAX_BLOCK = 64"

record lmemblock =
  l_start :: u32
  l_size :: u32

type_synonym lmem = "lmemblock list"

definition lzero :: lmemblock where "lzero = \<lparr>l_start = 0, l_size = 0\<rparr>"

definition lmem_init :: lmem where
  "lmem_init = replicate LMEM_MAX_BLOCK lzero"

text \<open>Align a size to 16 bytes.\<close>

definition lmem_align :: "u32 \<Rightarrow> u32" where
  "lmem_align sz =
     (if sz mod LMEM_BLOCK_SIZE \<noteq> 0 then sz + (LMEM_BLOCK_SIZE - sz mod LMEM_BLOCK_SIZE) else sz)"

text \<open>The search loop of \<open>lmem_alloc\<close>; it returns the variables \<open>start\<close> and \<open>i\<close>.\<close>

function lmem_find :: "lmem \<Rightarrow> u32 \<Rightarrow> u32 \<Rightarrow> nat \<Rightarrow> u32 \<times> nat" where
  "lmem_find l sz start i =
     (if i < LMEM_MAX_BLOCK then
        (if l_start (l ! i) \<noteq> 0 then
           (if i = LMEM_MAX_BLOCK - 1 then (0, i)
            else let start = l_start (l ! i) + l_size (l ! i) in
              if l_start (l ! (i + 1)) = 0 \<or> l_start (l ! (i + 1)) > start + sz
              then (start, i + 1)
              else lmem_find l sz start (i + 1))
         else
           (let start = (if start = 0 then LMEM_START else start)
            in (if LMEM_LIMIT - start < sz then 0 else start, i)))
      else (start, i))"
  by pat_completeness auto
termination
  by (relation "measure (\<lambda>(l, sz, start, i). LMEM_MAX_BLOCK - i)") auto

declare lmem_find.simps [simp del]

text \<open>Blocks from index \<open>i\<close> on move up by one (\<open>memcpy\<close>), then block \<open>i\<close> is written.\<close>

definition lmem_insert :: "lmem \<Rightarrow> nat \<Rightarrow> u32 \<Rightarrow> u32 \<Rightarrow> lmem" where
  "lmem_insert l i start sz =
     (let moved = take (i + 1) l @ take (LMEM_MAX_BLOCK - i - 1) (drop i l)
      in moved[i := \<lparr>l_start = start, l_size = sz\<rparr>])"

definition lmem_alloc :: "lmem \<Rightarrow> u32 \<Rightarrow> u32 \<times> lmem" where
  "lmem_alloc l sz =
     (if sz = 0 \<or> l_size (l ! (LMEM_MAX_BLOCK - 1)) \<noteq> 0 then (0, l)
      else let sz = lmem_align sz; (start, i) = lmem_find l sz 0 0
        in if start \<noteq> 0 then (start, lmem_insert l i start sz) else (0, l))"

text \<open>The loop of \<open>lmem_free\<close>; \<open>length l\<close> is \<open>LMEM_MAX_BLOCK\<close>.\<close>

function lmem_free_from :: "lmem \<Rightarrow> u32 \<Rightarrow> nat \<Rightarrow> lmem" where
  "lmem_free_from l p i =
     (if p \<noteq> 0 \<and> i < length l then
        (if l_start (l ! i) = p
         then lmem_free_from (take i l @ drop (i + 1) l @ [lzero]) p i
         else lmem_free_from l p (i + 1))
      else l)"
  by pat_completeness auto
termination
proof (relation "measure (\<lambda>(l, p, i). count_list (map l_start l) p + (length l - i))", goal_cases)
  case (2 l p i)
  then have "l = take i l @ l ! i # drop (i + 1) l" by (simp add: id_take_nth_drop)
  then have "count_list (map l_start l) p =
      count_list (map l_start (take i l @ l ! i # drop (i + 1) l)) p" by simp
  with 2 show ?case by (simp add: lzero_def)
qed auto

declare lmem_free_from.simps [simp del]

definition lmem_free :: "lmem \<Rightarrow> u32 \<Rightarrow> lmem" where
  "lmem_free l p = (if p \<noteq> 0 then lmem_free_from l p 0 else l)"

subsection \<open>The abstract view: the list of live blocks\<close>

definition live :: "lmem \<Rightarrow> lmemblock list" where
  "live l = takeWhile (\<lambda>b. l_start b \<noteq> 0) l"

definition l_end :: "lmemblock \<Rightarrow> nat" where
  "l_end b = unat (l_start b) + unat (l_size b)"

definition lblock_ok :: "lmemblock \<Rightarrow> bool" where
  "lblock_ok b \<longleftrightarrow> l_size b \<noteq> 0 \<and> unat LMEM_START \<le> unat (l_start b) \<and> l_end b < 2 ^ 32"

definition lmem_inv :: "lmem \<Rightarrow> bool" where
  "lmem_inv l \<longleftrightarrow> (\<exists>bs. l = bs @ replicate (LMEM_MAX_BLOCK - length bs) lzero \<and>
     length bs \<le> LMEM_MAX_BLOCK \<and> (\<forall>b \<in> set bs. lblock_ok b) \<and>
     sorted_wrt (\<lambda>a b. l_end a \<le> unat (l_start b)) bs)"

definition lmem_cells :: "lmem \<Rightarrow> u32 \<Rightarrow> nat set" where
  "lmem_cells l a = (\<Union>b \<in> {b \<in> set (live l). l_start b = a}. {unat (l_start b) ..< l_end b})"

text \<open>
  The requests that can be served without address wrap-around: the rounded size, put after the
  last live block, stays below \<open>2 ^ 32\<close>.
\<close>

definition lmem_ok :: "lmem \<Rightarrow> u32 \<Rightarrow> bool" where
  "lmem_ok l sz \<longleftrightarrow> unat sz + 16 \<le> 2 ^ 32 \<and>
     (\<forall>b \<in> set (live l). l_end b + unat (lmem_align sz) < 2 ^ 32)"

lemma lblock_ok_start: "lblock_ok b \<Longrightarrow> l_start b \<noteq> 0"
  by (auto simp: lblock_ok_def)

lemma live_packed:
  assumes "\<forall>b \<in> set bs. lblock_ok b"
  shows "live (bs @ replicate m lzero) = bs"
  using assms
proof (induction bs)
  case Nil
  show ?case by (cases m) (simp_all add: live_def lzero_def)
next
  case (Cons b bs)
  then show ?case by (simp add: live_def lblock_ok_start)
qed

lemma lmem_invE:
  assumes "lmem_inv l"
  obtains "l = live l @ replicate (LMEM_MAX_BLOCK - length (live l)) lzero"
    "length (live l) \<le> LMEM_MAX_BLOCK" "\<And>b. b \<in> set (live l) \<Longrightarrow> lblock_ok b"
    "sorted_wrt (\<lambda>a b. l_end a \<le> unat (l_start b)) (live l)" "length l = LMEM_MAX_BLOCK"
proof -
  from assms obtain bs where bs: "l = bs @ replicate (LMEM_MAX_BLOCK - length bs) lzero"
    "length bs \<le> LMEM_MAX_BLOCK" "\<forall>b \<in> set bs. lblock_ok b"
    "sorted_wrt (\<lambda>a b. l_end a \<le> unat (l_start b)) bs" unfolding lmem_inv_def by blast
  have "live l = bs" unfolding bs(1) by (rule live_packed [OF bs(3)])
  moreover have "length l = LMEM_MAX_BLOCK"
  proof -
    have "length l = length bs + (LMEM_MAX_BLOCK - length bs)" by (subst bs(1)) simp
    with bs(2) show ?thesis by simp
  qed
  ultimately show ?thesis using bs that by metis
qed

lemma lmem_invI:
  assumes "length bs \<le> LMEM_MAX_BLOCK" "\<And>b. b \<in> set bs \<Longrightarrow> lblock_ok b"
    "sorted_wrt (\<lambda>a b. l_end a \<le> unat (l_start b)) bs"
  shows "lmem_inv (bs @ replicate (LMEM_MAX_BLOCK - length bs) lzero)"
  unfolding lmem_inv_def using assms by blast

subsection \<open>Allocation\<close>

lemma unat_plus_pow32: "unat (x :: u32) + unat y < 2 ^ 32 \<Longrightarrow> unat (x + y) = unat x + unat y"
  by (rule unat_plus_u32) simp

lemma lmem_align_bounds:
  assumes "unat sz + 16 \<le> 2 ^ 32"
  shows "unat sz \<le> unat (lmem_align sz)" "unat (lmem_align sz) mod 16 = 0"
    "unat (lmem_align sz) < unat sz + 16"
proof -
  define r :: u32 where "r = sz mod 16"
  have r: "unat r = unat sz mod 16" by (simp add: r_def unat_mod)
  have r16: "unat r < 16" using r by simp
  have d: "unat (16 - r) = 16 - unat r"
    using r16 by (simp add: unat_sub_if_size word_le_nat_alt)
  have "unat (lmem_align sz) = (if unat r \<noteq> 0 then unat sz + (16 - unat r) else unat sz)"
  proof (cases "r = 0")
    case True
    then show ?thesis by (simp add: lmem_align_def r_def)
  next
    case False
    then have "unat r \<noteq> 0" by (simp add: unat_eq_zero)
    moreover have "unat (sz + (16 - r)) = unat sz + (16 - unat r)"
      using assms d calculation by (subst unat_plus_pow32) linarith+
    ultimately show ?thesis using False by (simp add: lmem_align_def r_def [symmetric])
  qed
  then show "unat sz \<le> unat (lmem_align sz)" "unat (lmem_align sz) mod 16 = 0"
    "unat (lmem_align sz) < unat sz + 16"
    using r r16 by (auto split: if_splits) presburger+
qed

lemma l_end_word:
  assumes "lblock_ok b"
  shows "unat (l_start b + l_size b) = l_end b"
  using assms unat_plus_pow32 [of "l_start b" "l_size b"] by (simp add: lblock_ok_def l_end_def)

lemma lmem_nth:
  assumes "lmem_inv l" and "i < LMEM_MAX_BLOCK"
  shows "l ! i = (if i < length (live l) then live l ! i else lzero)"
proof -
  from assms(1) have "l ! i = (live l @ replicate (LMEM_MAX_BLOCK - length (live l)) lzero) ! i"
    by (rule lmem_invE) metis
  with assms(2) show ?thesis by (simp add: nth_append)
qed

lemma lmem_start_nth:
  assumes "lmem_inv l" and "i < LMEM_MAX_BLOCK"
  shows "l_start (l ! i) \<noteq> 0 \<longleftrightarrow> i < length (live l)"
proof -
  have "i < length (live l) \<Longrightarrow> lblock_ok (live l ! i)"
    using assms(1) by (rule lmem_invE) auto
  with lmem_nth [OF assms] show ?thesis by (auto simp: lzero_def dest: lblock_ok_start)
qed

lemma lmem_find_live:
  assumes "lmem_inv l" and "length (live l) < LMEM_MAX_BLOCK" and "i < length (live l)"
  shows "\<exists>j. i \<le> j \<and> j < length (live l) \<and>
    lmem_find l sz st i = (l_start (live l ! j) + l_size (live l ! j), j + 1) \<and>
    (j + 1 < length (live l) \<longrightarrow>
      l_start (live l ! j) + l_size (live l ! j) + sz < l_start (live l ! (j + 1)))"
  using assms
proof (induction l sz st i rule: lmem_find.induct)
  case (1 l sz st i)
  let ?st = "l_start (live l ! i) + l_size (live l ! i)"
  have i: "i < LMEM_MAX_BLOCK" "i \<noteq> LMEM_MAX_BLOCK - 1" "i + 1 < LMEM_MAX_BLOCK"
    using "1.prems"(2,3) by simp_all
  have s: "l_start (l ! i) \<noteq> 0" using lmem_start_nth "1.prems"(1,3) i(1) by blast
  have li: "l ! i = live l ! i" using lmem_nth "1.prems"(1,3) i(1) by simp
  show ?case
  proof (cases "l_start (l ! (i + 1)) = 0 \<or> l_start (l ! (i + 1)) > ?st + sz")
    case True
    have "lmem_find l sz st i = (?st, i + 1)"
      using i s True by (subst lmem_find.simps) (simp add: li Let_def)
    moreover have "i + 1 < length (live l) \<longrightarrow> ?st + sz < l_start (live l ! (i + 1))"
      using True lmem_start_nth [OF "1.prems"(1) i(3)] lmem_nth [OF "1.prems"(1) i(3)] by auto
    ultimately show ?thesis using "1.prems"(3) by (intro exI [of _ i]) simp
  next
    case False
    then have "i + 1 < length (live l)"
      using lmem_start_nth [OF "1.prems"(1) i(3)] by blast
    moreover have "lmem_find l sz st i = lmem_find l sz ?st (i + 1)"
      using i s False by (subst lmem_find.simps) (simp add: li Let_def)
    ultimately show ?thesis
      using "1.IH" [OF i(1) s i(2) refl] False "1.prems"(1,2) unfolding li
      by (metis add_leD1)
  qed
qed

lemma lmem_find_empty:
  assumes "lmem_inv l" and "live l = []"
  shows "lmem_find l sz 0 0 = (if LMEM_LIMIT - LMEM_START < sz then 0 else LMEM_START, 0)"
  using lmem_start_nth [OF assms(1), of 0] assms(2) by (subst lmem_find.simps) simp

lemma lmem_insert_list:
  assumes l: "l = bs @ replicate (LMEM_MAX_BLOCK - length bs) lzero"
    and "length bs < LMEM_MAX_BLOCK" and "i \<le> length bs"
  shows "lmem_insert l i a sz =
    (take i bs @ \<lparr>l_start = a, l_size = sz\<rparr> # drop i bs) @
    replicate (LMEM_MAX_BLOCK - (length bs + 1)) lzero"
proof -
  have len: "length l = LMEM_MAX_BLOCK" using assms by simp
  have "i < length l" using assms len by simp
  then have "take (i + 1) l = take i l @ [l ! i]"
    using take_Suc_conv_app_nth [of i l] by (simp only: Suc_eq_plus1)
  then have "lmem_insert l i a sz =
      take i l @ \<lparr>l_start = a, l_size = sz\<rparr> # take (LMEM_MAX_BLOCK - i - 1) (drop i l)"
    using assms len by (simp add: lmem_insert_def list_update_append)
  moreover have "take i l = take i bs" using assms by simp
  moreover have "take (LMEM_MAX_BLOCK - i - 1) (drop i l) =
      drop i bs @ replicate (LMEM_MAX_BLOCK - (length bs + 1)) lzero"
    using assms by (simp add: take_Cons')
  ultimately show ?thesis by simp
qed

text \<open>
  A successful request puts its block into the gap behind some live block (or at \<open>LMEM_START\<close>
  when there is none): after every earlier block, before every later one.
\<close>

lemma lmem_alloc_Some:
  assumes inv: "lmem_inv l" and ok: "lmem_ok l sz"
    and al: "lmem_alloc l sz = (a, l')" and a: "a \<noteq> 0"
  obtains i where "i \<le> length (live l)" "length (live l) < LMEM_MAX_BLOCK"
    "l' = (take i (live l) @ \<lparr>l_start = a, l_size = lmem_align sz\<rparr> # drop i (live l)) @
       replicate (LMEM_MAX_BLOCK - (length (live l) + 1)) lzero"
    "lblock_ok \<lparr>l_start = a, l_size = lmem_align sz\<rparr>"
    "\<forall>b \<in> set (take i (live l)). l_end b \<le> unat a"
    "\<forall>b \<in> set (drop i (live l)). unat a + unat (lmem_align sz) \<le> unat (l_start b)"
    "if live l = [] then a = LMEM_START \<and> lmem_align sz \<le> LMEM_LIMIT - LMEM_START
     else 0 < i \<and> unat a = l_end (live l ! (i - 1))"
proof -
  let ?sz = "lmem_align sz" let ?n = "length (live l)"
  from al a have sz: "sz \<noteq> 0" and last: "l_size (l ! (LMEM_MAX_BLOCK - 1)) = 0"
    by (auto simp: lmem_alloc_def split: if_splits)
  have szb: "unat sz + 16 \<le> 2 ^ 32" using ok by (simp add: lmem_ok_def)
  have sz0: "?sz \<noteq> 0"
    using lmem_align_bounds(1) [OF szb] sz by (auto simp: unat_eq_zero)
  have n: "?n < LMEM_MAX_BLOCK"
  proof (rule ccontr)
    assume "\<not> ?n < LMEM_MAX_BLOCK"
    then have n: "LMEM_MAX_BLOCK - 1 < ?n" by simp
    with lmem_nth [OF inv, of "LMEM_MAX_BLOCK - 1"]
    have "l ! (LMEM_MAX_BLOCK - 1) \<in> set (live l)" by simp
    with inv last show False by (auto elim!: lmem_invE simp: lblock_ok_def)
  qed
  obtain i where find: "lmem_find l ?sz 0 0 = (a, i)" and l': "l' = lmem_insert l i a ?sz"
    using al a sz last by (auto simp: lmem_alloc_def Let_def split: prod.splits if_splits)
  have packed: "l = live l @ replicate (LMEM_MAX_BLOCK - ?n) lzero"
    using inv by (rule lmem_invE)
  have blocks: "\<And>b. b \<in> set (live l) \<Longrightarrow> lblock_ok b"
    and sorted: "sorted_wrt (\<lambda>a b. l_end a \<le> unat (l_start b)) (live l)"
    using inv by (auto elim!: lmem_invE)
  show ?thesis
  proof (cases "live l = []")
    case True
    with find lmem_find_empty [OF inv True, of ?sz] a
    have i: "i = 0" "a = LMEM_START" "?sz \<le> LMEM_LIMIT - LMEM_START"
      by (auto split: if_splits)
    have "unat ?sz \<le> 0x77C00" using i(3) by (simp add: word_le_nat_alt)
    then have "lblock_ok \<lparr>l_start = a, l_size = ?sz\<rparr>"
      using i(2) sz0 by (simp add: lblock_ok_def l_end_def)
    with True i n lmem_insert_list [OF packed n, of i a ?sz] l' show ?thesis
      by (intro that [of 0]) auto
  next
    case False
    then have "0 < ?n" by simp
    from lmem_find_live [OF inv n this, of ?sz 0] find obtain j where
      j: "j < ?n" "a = l_start (live l ! j) + l_size (live l ! j)" "i = j + 1"
        "j + 1 < ?n \<longrightarrow> a + ?sz < l_start (live l ! (j + 1))" by auto
    have jb: "lblock_ok (live l ! j)" "live l ! j \<in> set (live l)" using blocks j(1) by auto
    have aj: "unat a = l_end (live l ! j)" using l_end_word [OF jb(1)] j(2) by simp
    have fits: "unat a + unat ?sz < 2 ^ 32" using ok jb(2) aj by (simp add: lmem_ok_def)
    have before: "\<forall>b \<in> set (take i (live l)). l_end b \<le> unat a"
    proof
      fix b assume "b \<in> set (take i (live l))"
      then obtain m where m: "m \<le> j" "b = live l ! m"
        using j(1,3) by (auto simp: in_set_conv_nth less_Suc_eq_le)
      show "l_end b \<le> unat a"
      proof (cases "m = j")
        case True
        with m aj show ?thesis by simp
      next
        case False
        with m j(1) have "l_end b \<le> unat (l_start (live l ! j))"
          using sorted_wrt_nth_less [OF sorted, of m j] by simp
        also have "\<dots> \<le> unat a" using aj by (simp add: l_end_def)
        finally show ?thesis .
      qed
    qed
    have after: "\<forall>b \<in> set (drop i (live l)). unat a + unat ?sz \<le> unat (l_start b)"
    proof
      fix b assume "b \<in> set (drop i (live l))"
      then obtain d where "d < ?n - i" "b = live l ! (i + d)"
        by (auto simp: in_set_conv_nth)
      then have "i \<le> i + d" "i + d < ?n" "b = live l ! (i + d)" by simp_all
      then obtain m where m: "i \<le> m" "m < ?n" "b = live l ! m" by blast
      have "unat (a + ?sz) < unat (l_start (live l ! i))"
        using j(3,4) m(1,2) by (simp add: word_less_nat_alt)
      then have "unat a + unat ?sz < unat (l_start (live l ! i))"
        using unat_plus_pow32 [OF fits] by simp
      also have "\<dots> \<le> unat (l_start b)"
      proof (cases "m = i")
        case True
        with m show ?thesis by simp
      next
        case False
        with m have "l_end (live l ! i) \<le> unat (l_start b)"
          using sorted_wrt_nth_less [OF sorted, of i m] by simp
        then show ?thesis by (simp add: l_end_def)
      qed
      finally show "unat a + unat ?sz \<le> unat (l_start b)" by simp
    qed
    have "unat LMEM_START \<le> unat a" using jb(1) aj by (simp add: lblock_ok_def l_end_def)
    then have "lblock_ok \<lparr>l_start = a, l_size = ?sz\<rparr>"
      using fits sz0 by (simp add: lblock_ok_def l_end_def)
    moreover have "i \<le> ?n" using j(1,3) by simp
    ultimately show ?thesis
      using False n j(3) aj before after lmem_insert_list [OF packed n, of i a ?sz] l'
      by (intro that [of i]) auto
  qed
qed

lemma lmem_alloc_null: "lmem_alloc l sz = (0, l') \<Longrightarrow> l' = l"
  by (auto simp: lmem_alloc_def Let_def split: if_splits prod.splits)

lemma lmem_alloc_live:
  assumes inv: "lmem_inv l" and ok: "lmem_ok l sz"
    and al: "lmem_alloc l sz = (a, l')" and a: "a \<noteq> 0"
  shows "\<exists>i. live l' = take i (live l) @ \<lparr>l_start = a, l_size = lmem_align sz\<rparr> # drop i (live l) \<and>
    (\<forall>b \<in> set (take i (live l)). l_end b \<le> unat a) \<and>
    (\<forall>b \<in> set (drop i (live l)). unat a + unat (lmem_align sz) \<le> unat (l_start b)) \<and>
    lmem_inv l' \<and> lblock_ok \<lparr>l_start = a, l_size = lmem_align sz\<rparr> \<and>
    (live l = [] \<longrightarrow> a = LMEM_START \<and> lmem_align sz \<le> LMEM_LIMIT - LMEM_START)"
proof -
  from lmem_alloc_Some [OF assms] obtain i where
    i: "i \<le> length (live l)" "length (live l) < LMEM_MAX_BLOCK"
    "l' = (take i (live l) @ \<lparr>l_start = a, l_size = lmem_align sz\<rparr> # drop i (live l)) @
       replicate (LMEM_MAX_BLOCK - (length (live l) + 1)) lzero"
    "lblock_ok \<lparr>l_start = a, l_size = lmem_align sz\<rparr>"
    "\<forall>b \<in> set (take i (live l)). l_end b \<le> unat a"
    "\<forall>b \<in> set (drop i (live l)). unat a + unat (lmem_align sz) \<le> unat (l_start b)"
    "if live l = [] then a = LMEM_START \<and> lmem_align sz \<le> LMEM_LIMIT - LMEM_START
     else 0 < i \<and> unat a = l_end (live l ! (i - 1))" .
  let ?bs = "take i (live l) @ \<lparr>l_start = a, l_size = lmem_align sz\<rparr> # drop i (live l)"
  have blocks: "\<And>b. b \<in> set (live l) \<Longrightarrow> lblock_ok b"
    and sorted: "sorted_wrt (\<lambda>a b. l_end a \<le> unat (l_start b)) (live l)"
    using inv by (auto elim!: lmem_invE)
  have ok': "lblock_ok b" if "b \<in> set ?bs" for b
    using that blocks i(4) by (auto dest: in_set_takeD in_set_dropD)
  have split: "sorted_wrt (\<lambda>a b. l_end a \<le> unat (l_start b)) (take i (live l) @ drop i (live l))"
    using sorted by simp
  have "sorted_wrt (\<lambda>a b. l_end a \<le> unat (l_start b)) ?bs"
    using split i(5,6) unfolding sorted_wrt_append
    by (auto simp: l_end_def)
  moreover have "length ?bs = length (live l) + 1" using i(1) by simp
  ultimately have inv': "lmem_inv l'"
    using lmem_invI [of ?bs] ok' i(2,3) by simp
  have "live l' = ?bs" unfolding i(3) by (rule live_packed) (use ok' in blast)
  moreover have "live l = [] \<longrightarrow> a = LMEM_START \<and> lmem_align sz \<le> LMEM_LIMIT - LMEM_START"
    using i(7) by (rule if_bool_eq_conj [THEN iffD1, THEN conjunct1])
  ultimately show ?thesis using i(4-6) inv' by blast
qed

lemma lmem_alloc_inv:
  assumes "lmem_inv l" "lmem_ok l sz" "lmem_alloc l sz = (a, l')"
  shows "lmem_inv l'"
proof (cases "a = 0")
  case True
  with assms lmem_alloc_null show ?thesis by blast
next
  case False
  with lmem_alloc_live [OF assms] show ?thesis by blast
qed

lemma lmem_alloc_cells:
  assumes inv: "lmem_inv l" and ok: "lmem_ok l sz"
    and al: "lmem_alloc l sz = (a, l')" and a: "a \<noteq> 0"
  shows "lmem_cells l a = {}" "lmem_cells l' a = {unat a ..< unat a + unat (lmem_align sz)}"
    "b \<noteq> a \<Longrightarrow> lmem_cells l' b = lmem_cells l b"
proof -
  from lmem_alloc_live [OF assms] obtain i where
    i: "live l' = take i (live l) @ \<lparr>l_start = a, l_size = lmem_align sz\<rparr> # drop i (live l)"
    "\<forall>b \<in> set (take i (live l)). l_end b \<le> unat a"
    "\<forall>b \<in> set (drop i (live l)). unat a + unat (lmem_align sz) \<le> unat (l_start b)"
    "lblock_ok \<lparr>l_start = a, l_size = lmem_align sz\<rparr>" by blast
  have set_l: "set (live l) = set (take i (live l)) \<union> set (drop i (live l))"
    by (metis append_take_drop_id set_append)
  have blocks: "lblock_ok b" if "b \<in> set (live l)" for b
    using inv that by (auto elim!: lmem_invE)
  have new: "unat (lmem_align sz) > 0" using i(4) by (auto simp: lblock_ok_def unat_gt_0)
  have fresh: "l_start b \<noteq> a" if b: "b \<in> set (live l)" for b
  proof (cases "b \<in> set (take i (live l))")
    case True
    with i(2) have "l_end b \<le> unat a" by blast
    moreover have "unat (l_start b) < l_end b"
      using blocks [OF b] by (auto simp: lblock_ok_def l_end_def unat_gt_0)
    ultimately show ?thesis by auto
  next
    case False
    with b set_l i(3) new show ?thesis by fastforce
  qed
  then show "lmem_cells l a = {}" by (auto simp: lmem_cells_def)
  have set_l': "set (live l') = insert \<lparr>l_start = a, l_size = lmem_align sz\<rparr> (set (live l))"
    using i(1) set_l by auto
  have "{b \<in> set (live l'). l_start b = a} = {\<lparr>l_start = a, l_size = lmem_align sz\<rparr>}"
    using fresh unfolding set_l' by auto
  then show "lmem_cells l' a = {unat a ..< unat a + unat (lmem_align sz)}"
    by (simp add: lmem_cells_def l_end_def)
  show "b \<noteq> a \<Longrightarrow> lmem_cells l' b = lmem_cells l b"
    unfolding lmem_cells_def set_l' by auto
qed

subsection \<open>Release\<close>

lemma lmem_free_from_eq:
  assumes "p \<noteq> 0"
  shows "lmem_free_from l p i = take i l @ filter (\<lambda>b. l_start b \<noteq> p) (drop i l) @
    replicate (length (filter (\<lambda>b. l_start b = p) (drop i l))) lzero"
  using assms
proof (induction l p i rule: lmem_free_from.induct)
  case (1 l p i)
  show ?case
  proof (cases "i < length l")
    case False
    then show ?thesis by (subst lmem_free_from.simps) simp
  next
    case True
    then have d: "drop i l = l ! i # drop (i + 1) l" by (simp add: Cons_nth_drop_Suc)
    have z: "l_start lzero \<noteq> p" using "1.prems" by (simp add: lzero_def)
    show ?thesis
    proof (cases "l_start (l ! i) = p")
      case hit: True
      let ?l = "take i l @ drop (i + 1) l @ [lzero]"
      have "lmem_free_from l p i = lmem_free_from ?l p i"
        using True hit "1.prems" by (subst lmem_free_from.simps) simp
      also have "\<dots> = take i ?l @ filter (\<lambda>b. l_start b \<noteq> p) (drop i ?l) @
          replicate (length (filter (\<lambda>b. l_start b = p) (drop i ?l))) lzero"
        using True hit "1.prems" by (intro "1.IH"(1)) auto
      finally show ?thesis using True hit z d by (simp add: replicate_append_same)
    next
      case miss: False
      have "lmem_free_from l p i = lmem_free_from l p (i + 1)"
        using True miss "1.prems" by (subst lmem_free_from.simps) simp
      also have "\<dots> = take (i + 1) l @ filter (\<lambda>b. l_start b \<noteq> p) (drop (i + 1) l) @
          replicate (length (filter (\<lambda>b. l_start b = p) (drop (i + 1) l))) lzero"
        using True miss "1.prems" by (intro "1.IH"(2)) auto
      also have "take (i + 1) l = take i l @ [l ! i]"
        using True take_Suc_conv_app_nth [of i l] by (simp only: Suc_eq_plus1)
      finally show ?thesis using miss d by simp
    qed
  qed
qed

lemma lmem_free_live:
  assumes inv: "lmem_inv l" and p: "p \<noteq> 0"
  shows "live (lmem_free l p) = filter (\<lambda>b. l_start b \<noteq> p) (live l)"
    "lmem_inv (lmem_free l p)"
proof -
  let ?f = "filter (\<lambda>b. l_start b \<noteq> p) (live l)"
  have packed: "l = live l @ replicate (LMEM_MAX_BLOCK - length (live l)) lzero"
    and len: "length (live l) \<le> LMEM_MAX_BLOCK"
    and blocks: "\<And>b. b \<in> set (live l) \<Longrightarrow> lblock_ok b"
    and sorted: "sorted_wrt (\<lambda>a b. l_end a \<le> unat (l_start b)) (live l)"
    using inv by (auto elim!: lmem_invE)
  have z: "l_start lzero \<noteq> p" using p by (simp add: lzero_def)
  have "lmem_free l p = filter (\<lambda>b. l_start b \<noteq> p) l @
      replicate (length (filter (\<lambda>b. l_start b = p) l)) lzero"
    using p by (simp add: lmem_free_def lmem_free_from_eq)
  also have "filter (\<lambda>b. l_start b \<noteq> p) l = ?f @ replicate (LMEM_MAX_BLOCK - length (live l)) lzero"
    by (subst packed) (simp add: z)
  also have "filter (\<lambda>b. l_start b = p) l = filter (\<lambda>b. l_start b = p) (live l)"
    by (subst packed) (simp add: z)
  finally have eq: "lmem_free l p = ?f @ replicate (LMEM_MAX_BLOCK - length ?f) lzero"
    using len sum_length_filter_compl [of "\<lambda>b. l_start b = p" "live l"]
    by (simp add: replicate_add [symmetric])
  have blocks': "\<forall>b \<in> set ?f. lblock_ok b" using blocks by simp
  show "live (lmem_free l p) = ?f" unfolding eq by (rule live_packed [OF blocks'])
  have "length ?f \<le> LMEM_MAX_BLOCK" using len length_filter_le order_trans by blast
  then show "lmem_inv (lmem_free l p)"
    unfolding eq using blocks' sorted by (intro lmem_invI) (auto intro: sorted_wrt_filter)
qed

lemma lmem_free_zero [simp]: "lmem_free l 0 = l"
  by (simp add: lmem_free_def)

lemma lmem_free_cells:
  assumes inv: "lmem_inv l"
  shows "lmem_cells (lmem_free l p) b = (if p \<noteq> 0 \<and> b = p then {} else lmem_cells l b)"
proof (cases "p = 0")
  case True
  then show ?thesis by (simp add: lmem_free_def)
next
  case False
  then show ?thesis by (auto simp: lmem_cells_def lmem_free_live [OF inv])
qed

lemma sorted_wrt_pair:
  assumes "sorted_wrt P xs" "x \<in> set xs" "y \<in> set xs" "x \<noteq> y"
  shows "P x y \<or> P y x"
proof -
  from assms(2,3) obtain i j where "i < length xs" "xs ! i = x" "j < length xs" "xs ! j = y"
    by (auto simp: in_set_conv_nth)
  with assms(1,4) show ?thesis by (metis linorder_neqE_nat sorted_wrt_nth_less)
qed

lemma lmem_disjoint:
  assumes inv: "lmem_inv l" and ne: "a \<noteq> b"
  shows "lmem_cells l a \<inter> lmem_cells l b = {}"
proof (rule equals0I)
  fix x assume "x \<in> lmem_cells l a \<inter> lmem_cells l b"
  then obtain c d where cd: "c \<in> set (live l)" "d \<in> set (live l)" "l_start c = a" "l_start d = b"
    "unat (l_start c) \<le> x" "x < l_end c" "unat (l_start d) \<le> x" "x < l_end d"
    by (auto simp: lmem_cells_def)
  have "sorted_wrt (\<lambda>a b. l_end a \<le> unat (l_start b)) (live l)"
    using inv by (auto elim!: lmem_invE)
  from sorted_wrt_pair [OF this cd(1,2)] cd ne show False by fastforce
qed

interpretation klmem: allocator lmem_alloc lmem_free 0 lmem_cells unat lmem_ok lmem_inv
proof (unfold_locales, goal_cases)
  case (1 l n a l')
  then show ?case by (rule lmem_alloc_inv)
next
  case (2 l n l')
  then show ?case by (simp add: lmem_alloc_null)
next
  case (3 l n a l')
  then show ?case by (rule lmem_alloc_cells)
next
  case (4 l n a l')
  then have "unat n \<le> unat (lmem_align n)" by (intro lmem_align_bounds) (simp add: lmem_ok_def)
  with 4 show ?case by (simp add: lmem_alloc_cells)
next
  case (5 l n a l' b)
  then show ?case by (rule lmem_alloc_cells)
next
  case (6 l a b)
  then show ?case by (rule lmem_disjoint)
next
  case (7 l a)
  then show ?case by (cases "a = 0") (simp_all add: lmem_free_live)
next
  case (8 l a)
  then show ?case by (simp add: lmem_free_cells)
next
  case (9 l b a)
  then show ?case by (simp add: lmem_free_cells)
qed

subsection \<open>Properties\<close>

lemma lmem_init_inv: "lmem_inv lmem_init"
  using lmem_invI [of "[]"] by (simp add: lmem_init_def)

lemma live_init [simp]: "live lmem_init = []"
  by (simp add: live_def lmem_init_def lzero_def)

text \<open>
  What one far-memory request returns: a nonzero result is a fresh block of the size rounded
  up to 16 bytes that overlaps no live block, behind an earlier block or at \<open>LMEM_START\<close> (and then
  below \<open>LMEM_LIMIT\<close>); every other block keeps its storage and the table stays sorted and packed.
\<close>

lemma lmem_alloc_fresh_block:
  assumes inv: "lmem_inv l" and ok: "lmem_ok l sz"
    and al: "lmem_alloc l sz = (a, l')" and a: "a \<noteq> 0"
  shows "lmem_inv l' \<and>
    lmem_cells l' a = {unat a ..< unat a + unat (lmem_align sz)} \<and>
    unat sz \<le> unat (lmem_align sz) \<and> unat (lmem_align sz) < unat sz + 16 \<and>
    unat (lmem_align sz) mod 16 = 0 \<and>
    (\<forall>b. lmem_cells l b \<inter> {unat a ..< unat a + unat (lmem_align sz)} = {}) \<and>
    (\<forall>b. b \<noteq> a \<longrightarrow> lmem_cells l' b = lmem_cells l b) \<and>
    (live l = [] \<longrightarrow> a = LMEM_START \<and> lmem_align sz \<le> LMEM_LIMIT - LMEM_START)"
proof -
  have inv': "lmem_inv l'" using inv ok al by (rule lmem_alloc_inv)
  note cells = lmem_alloc_cells [OF inv ok al a]
  have sz: "unat sz + 16 \<le> 2 ^ 32" using ok by (simp add: lmem_ok_def)
  have "lmem_cells l b \<inter> lmem_cells l' a = {}" for b
    using cells(1,3) lmem_disjoint [OF inv'] by (cases "b = a") blast+
  moreover have "live l = [] \<longrightarrow> a = LMEM_START \<and> lmem_align sz \<le> LMEM_LIMIT - LMEM_START"
    using lmem_alloc_live [OF inv ok al a] by blast
  ultimately show ?thesis using inv' cells lmem_align_bounds [OF sz] by simp
qed

text \<open>
  The sequences that are admissible: as the search does not come back to the start of far memory while a block lives, the ends
  of blocks can creep up, but not by more than was asked for. From a table whose blocks end below \<open>t\<close>, requests that add up,
  rounded, to less than the addresses above \<open>t\<close> are all served without overflow.
\<close>

definition requested :: "(u32, u32) mem_op list \<Rightarrow> nat" where
  "requested xs = sum_list (map (\<lambda>x. case x of Alloc n \<Rightarrow> unat n + 16 | Free a \<Rightarrow> 0) xs)"

lemma lmem_alloc_end:
  assumes "lmem_inv l" "lmem_ok l sz" "\<forall>b \<in> set (live l). l_end b \<le> t" "0x28000 \<le> t"
  shows "\<forall>b \<in> set (live (snd (lmem_alloc l sz))). l_end b \<le> t + (unat sz + 16)"
proof (cases "fst (lmem_alloc l sz) = 0")
  case True
  then have "snd (lmem_alloc l sz) = l" using lmem_alloc_null [of l sz "snd (lmem_alloc l sz)"] by (metis prod.collapse)
  then show ?thesis using assms(3) by fastforce
next
  case False
  let ?a = "fst (lmem_alloc l sz)" and ?l = "snd (lmem_alloc l sz)"
  obtain i where i: "i \<le> length (live l)"
    "?l = (take i (live l) @ \<lparr>l_start = ?a, l_size = lmem_align sz\<rparr> # drop i (live l)) @
       replicate (LMEM_MAX_BLOCK - (length (live l) + 1)) lzero"
    "if live l = [] then ?a = LMEM_START \<and> lmem_align sz \<le> LMEM_LIMIT - LMEM_START
     else 0 < i \<and> unat ?a = l_end (live l ! (i - 1))"
    by (rule lmem_alloc_Some [OF assms(1,2) prod.collapse [symmetric] False])
  have a: "unat ?a \<le> t"
  proof (cases "live l = []")
    case True
    then have "?a = 0x28000" using i(3) by simp
    then show ?thesis using assms(4) by simp
  next
    case False
    then have "i - 1 < length (live l)" "unat ?a = l_end (live l ! (i - 1))" using i(1,3) by auto
    then show ?thesis using assms(3) by simp
  qed
  have "unat sz + 16 \<le> 2 ^ 32" using assms(2) by (simp add: lmem_ok_def)
  then have sz: "unat (lmem_align sz) < unat sz + 16" by (rule lmem_align_bounds)
  have "set (live ?l) \<subseteq> set ?l" by (auto simp: live_def dest: set_takeWhileD)
  also have "set ?l \<subseteq> insert \<lparr>l_start = ?a, l_size = lmem_align sz\<rparr> (insert lzero (set (live l)))"
    by (subst i(2)) (auto dest: in_set_takeD in_set_dropD)
  finally show ?thesis using a sz assms(3) by (force simp: l_end_def lzero_def)
qed

lemma requests_admissible:
  assumes "lmem_inv l" "\<forall>b \<in> set (live l). l_end b \<le> t" "0x28000 \<le> t" "t + requested xs < 2 ^ 32"
  shows "admissible lmem_alloc lmem_free lmem_ok l xs"
  using assms
proof (induction xs arbitrary: l t)
  case (Cons x xs)
  show ?case
  proof (cases x)
    case (Alloc n)
    then have n: "t + (unat n + 16) + requested xs < 2 ^ 32" using Cons.prems(4) by (simp add: requested_def)
    then have "unat n + 16 \<le> 2 ^ 32" by simp
    then have "unat (lmem_align n) < unat n + 16" by (rule lmem_align_bounds)
    then have "l_end b + unat (lmem_align n) < 2 ^ 32" if "b \<in> set (live l)" for b
      using Cons.prems(2) that n by fastforce
    then have ok: "lmem_ok l n" using \<open>unat n + 16 \<le> 2 ^ 32\<close> by (simp add: lmem_ok_def)
    have "lmem_inv (snd (lmem_alloc l n))"
      by (rule lmem_alloc_inv [OF Cons.prems(1) ok prod.collapse [symmetric]])
    moreover note lmem_alloc_end [OF Cons.prems(1) ok Cons.prems(2,3)]
    ultimately show ?thesis using Cons.IH [of "snd (lmem_alloc l n)" "t + (unat n + 16)"] Cons.prems(3) n ok Alloc by simp
  next
    case (Free a)
    have "requested (x # xs) = requested xs" using Free by (simp add: requested_def)
    moreover have "lmem_inv (lmem_free l a)" "set (live (lmem_free l a)) \<subseteq> set (live l)"
      using Cons.prems(1) by (cases "a = 0"; simp add: lmem_free_live)+
    ultimately show ?thesis using Cons.IH [of "lmem_free l a" t] Cons.prems(2-4) Free by fastforce
  qed
qed simp

text \<open>
  C25: Across any sequence of releases and of requests that do not overflow, a live block keeps exactly its bytes until its
  own address is released, and no other live block ever overlaps them. A request does not overflow when its size, put behind any
  live block, stays below 4 GiB; \<open>requests_admissible\<close> shows that all requests of a sequence are such when their sizes
  add up to less than that. Beyond, the code grants blocks that overlap.
\<close>

theorem lmem_allocation_isolated:
  assumes "lmem_inv l" and "lmem_cells l a \<noteq> {}" and "Free a \<notin> set xs"
    and "admissible lmem_alloc lmem_free lmem_ok l xs"
  shows "lmem_inv (run_ops lmem_alloc lmem_free l xs) \<and>
    lmem_cells (run_ops lmem_alloc lmem_free l xs) a = lmem_cells l a \<and>
    (\<forall>b. b \<noteq> a \<longrightarrow> lmem_cells (run_ops lmem_alloc lmem_free l xs) b \<inter> lmem_cells l a = {})"
proof -
  note inv' = klmem.run_ops_inv [OF assms(1,4)]
  note keeps = klmem.run_ops_keeps [OF assms(1,4,3,2)]
  from klmem.disjoint [OF inv'] inv' keeps show ?thesis by metis
qed

text \<open>
  Releasing an address removes exactly the blocks with this address, keeps the order of the
  others, and keeps the table sorted and packed; releasing the null pointer changes nothing.
\<close>

lemma lmem_free_removes:
  assumes "lmem_inv l"
  shows "lmem_inv (lmem_free l p) \<and>
    live (lmem_free l p) = (if p = 0 then live l else filter (\<lambda>b. l_start b \<noteq> p) (live l))"
  using assms by (cases "p = 0") (simp_all add: lmem_free_live)

text \<open>
  The limit of far memory is checked only for the first block of an empty table: after a request
  of \<open>0x70000\<close> bytes, a second one of the same size is granted although it ends at \<open>0x108000\<close>, above
  \<open>LMEM_LIMIT\<close>, inside the video memory and ROM area.
\<close>

lemma lmem_alloc_exceeds_limit:
  "\<exists>l' l''. lmem_alloc lmem_init 0x70000 = (LMEM_START, l') \<and>
     lmem_alloc l' 0x70000 = (LMEM_START + 0x70000, l'') \<and>
     LMEM_LIMIT < LMEM_START + 0x70000 + 0x70000"
proof -
  let ?l = "\<lparr>l_start = 0x28000, l_size = 0x70000\<rparr> # replicate 63 lzero"
  have "lmem_insert lmem_init 0 0x28000 0x70000 = ?l"
    by (simp add: lmem_insert_def lmem_init_def lzero_def)
  then have "lmem_alloc lmem_init 0x70000 = (LMEM_START, ?l)"
    by (simp add: lmem_alloc_def lmem_align_def lmem_find.simps [of _ _ _ 0] lmem_init_def lzero_def)
  moreover have "lmem_find ?l 0x70000 0 0 = (0x98000, 1)"
    by (simp add: lmem_find.simps [of _ _ _ 0] lzero_def)
  then have "lmem_alloc ?l 0x70000 = (LMEM_START + 0x70000, lmem_insert ?l 1 0x98000 0x70000)"
    by (simp add: lmem_alloc_def lmem_align_def lzero_def)
  ultimately show ?thesis by auto
qed

text \<open>
  A request whose rounding overflows is granted although it asks for nearly all addresses there are, as an empty block; the next
  request gets the same address.
\<close>

lemma huge_request_granted:
  "\<exists>l' l''. lmem_alloc lmem_init 0xFFFFFFF8 = (0x28000, l') \<and> lmem_alloc l' 16 = (0x28000, l'')"
proof -
  let ?l = "\<lparr>l_start = 0x28000, l_size = 0\<rparr> # replicate 63 lzero"
  have "lmem_align 0xFFFFFFF8 = 0" by (simp add: lmem_align_def word_unat_eq_iff)
  moreover have "lmem_insert lmem_init 0 0x28000 0 = ?l"
    by (simp add: lmem_insert_def lmem_init_def lzero_def)
  ultimately have "lmem_alloc lmem_init 0xFFFFFFF8 = (0x28000, ?l)"
    by (simp add: lmem_alloc_def lmem_find.simps [of _ _ _ 0] lmem_init_def lzero_def)
  moreover have "lmem_find ?l 16 0 0 = (0x28000, 1)"
    by (simp add: lmem_find.simps [of _ _ _ 0] lzero_def)
  then have "lmem_alloc ?l 16 = (0x28000, lmem_insert ?l 1 0x28000 16)"
    by (simp add: lmem_alloc_def lmem_align_def lzero_def)
  ultimately show ?thesis by blast
qed

text \<open>Concrete instances, from the table right after \<open>lmem_init\<close>.\<close>

definition lmem_sample :: lmem where
  "lmem_sample = \<lparr>l_start = 0x28000, l_size = 0x20\<rparr> # replicate 63 lzero"

lemma lmem_sample_alloc: "lmem_alloc lmem_init 20 = (0x28000, lmem_sample)"
proof -
  have "lmem_insert lmem_init 0 0x28000 0x20 = lmem_sample"
    by (simp add: lmem_insert_def lmem_init_def lzero_def lmem_sample_def)
  then show ?thesis
    by (simp add: lmem_alloc_def lmem_align_def lmem_find.simps [of _ _ _ 0] lmem_init_def lzero_def)
qed

lemma lmem_init_ok: "lmem_ok lmem_init 20"
  by (simp add: lmem_ok_def)

lemma lmem_sample_inv: "lmem_inv lmem_sample"
  by (rule lmem_alloc_inv [OF lmem_init_inv lmem_init_ok lmem_sample_alloc])

lemma lmem_sample_cells: "lmem_cells lmem_sample 0x28000 = {0x28000 ..< 0x28020}"
  using lmem_alloc_cells(2) [OF lmem_init_inv lmem_init_ok lmem_sample_alloc]
  by (simp add: lmem_align_def)

theorem lmem_allocation_isolated_witness:
  "lmem_cells (run_ops lmem_alloc lmem_free lmem_sample [Alloc 0x100, Free 0x28020]) 0x28000
     = {0x28000 ..< 0x28020}"
proof -
  have "live lmem_sample = [\<lparr>l_start = 0x28000, l_size = 0x20\<rparr>]"
    by (simp add: live_def lmem_sample_def lzero_def)
  then have "admissible lmem_alloc lmem_free lmem_ok lmem_sample [Alloc 0x100, Free 0x28020]"
    by (simp add: lmem_ok_def l_end_def lmem_align_def)
  from lmem_allocation_isolated [OF lmem_sample_inv _ _ this, of "0x28000"]
  show ?thesis by (simp add: lmem_sample_cells)
qed

end
