(* ===== verification/Ulib_String.thy ===== *)
theory Ulib_String
  imports Prelude
begin

section \<open>Strings (source/ulib/ulib.c)\<close>

text \<open>
  A string argument is the list of bytes from the pointer on; the string ends at the first 0 of the
  list or at its end. A destination is the list of bytes of the buffer, and a write past it is dropped
  (\<open>list_update\<close>): the bounded copies are proved never to make one. \<open>strtok_list\<close> is \<open>strtok\<close> on the
  contents of a string: it returns the offset and the contents of the token, and the offset of the
  next one.
\<close>

subsection \<open>Copying and concatenating\<close>

primrec strlen :: "u8 list \<Rightarrow> u16" where
  "strlen [] = 0"
| "strlen (c # cs) = (if c \<noteq> 0 then 1 + strlen cs else 0)"

text \<open>
  The loop the four functions share: from index \<open>i\<close> of \<open>dst\<close> on, while the source has bytes and \<open>P i\<close>
  holds, copy; then write the terminator.
\<close>

primrec copy_from :: "(u16 \<Rightarrow> bool) \<Rightarrow> u8 list \<Rightarrow> u16 \<Rightarrow> u8 list \<Rightarrow> u16 \<times> u8 list" where
  "copy_from P dst i [] = (i, dst[unat i := 0])"
| "copy_from P dst i (c # cs) =
     (if c \<noteq> 0 \<and> P i then copy_from P (dst[unat i := c]) (i + 1) cs else (i, dst[unat i := 0]))"

definition strcpy :: "u8 list \<Rightarrow> u8 list \<Rightarrow> u16 \<times> u8 list" where
  "strcpy dst src = copy_from (\<lambda>i. True) dst 0 src"

definition strcpy_s :: "u8 list \<Rightarrow> u8 list \<Rightarrow> u16 \<Rightarrow> u16 \<times> u8 list" where
  "strcpy_s dst src dst_size = copy_from (\<lambda>i. i + 1 < dst_size) dst 0 src"

definition strcat :: "u8 list \<Rightarrow> u8 list \<Rightarrow> u16 \<times> u8 list" where
  "strcat dst src = copy_from (\<lambda>i. True) dst (strlen dst) src"

definition strcat_s :: "u8 list \<Rightarrow> u8 list \<Rightarrow> u16 \<Rightarrow> u16 \<times> u8 list" where
  "strcat_s dst src dst_size = copy_from (\<lambda>i. i + 1 < dst_size) dst (strlen dst) src"

subsection \<open>Comparing and searching\<close>

text \<open>Results of comparisons are 16-bit differences of the bytes.\<close>

fun strcmp :: "u8 list \<Rightarrow> u8 list \<Rightarrow> u16" where
  "strcmp (a # as) (b # bs) = (if a = b \<and> a \<noteq> 0 then strcmp as bs else ucast a - ucast b)"
| "strcmp [] (b # bs) = - ucast b"
| "strcmp (a # as) [] = ucast a"
| "strcmp [] [] = 0"

fun strncmp_from :: "u16 \<Rightarrow> u8 list \<Rightarrow> u8 list \<Rightarrow> u16 \<Rightarrow> u16" where
  "strncmp_from i (a # as) (b # bs) n =
     (if a = b \<and> a \<noteq> 0 \<and> i + 1 < n then strncmp_from (i + 1) as bs n else ucast a - ucast b)"
| "strncmp_from i [] (b # bs) n = - ucast b"
| "strncmp_from i (a # as) [] n = ucast a"
| "strncmp_from i [] [] n = 0"

definition strncmp :: "u8 list \<Rightarrow> u8 list \<Rightarrow> u16 \<Rightarrow> u16" where
  "strncmp str1 str2 n = strncmp_from 0 str1 str2 n"

primrec strchr_from :: "u16 \<Rightarrow> u8 list \<Rightarrow> u8 \<Rightarrow> u16" where
  "strchr_from n [] c = 0"
| "strchr_from n (x # xs) c = (if x = 0 then 0 else if x = c then n + 1 else strchr_from (n + 1) xs c)"

definition strchr :: "u8 list \<Rightarrow> u8 \<Rightarrow> u16" where
  "strchr src c = strchr_from 0 src c"

subsection \<open>Tokens\<close>

definition skip_delim :: "u8 list \<Rightarrow> u8 \<Rightarrow> nat \<Rightarrow> nat" where
  "skip_delim buf d p = p + length (takeWhile (\<lambda>c. c = d) (drop p buf))"

text \<open>
  \<open>strtok (buf + p, \<dots>)\<close>: start of the token, its contents, offset of the next one; the byte after
  the token is overwritten by 0 in the buffer, so that the token is a C string.
\<close>

definition strtok_list :: "u8 list \<Rightarrow> nat \<Rightarrow> u8 \<Rightarrow> nat \<times> u8 list \<times> nat" where
  "strtok_list buf p d =
     (let a = skip_delim buf d p;
          tok = takeWhile (\<lambda>c. c \<noteq> d) (drop a buf);
          e = a + length tok
      in (a, tok, if e < length buf then e + 1 else e))"

lemma strtok_list_progress:
  "strtok_list buf p d = (a, tok, next) \<Longrightarrow> tok \<noteq> [] \<Longrightarrow> p < next"
  by (auto simp: strtok_list_def skip_delim_def Let_def split: if_splits)

lemma strtok_token:
  assumes "c \<noteq> []" "d \<notin> set c" "r = [] \<or> hd r = d"
  shows "strtok_list (pre @ c @ r) (length pre) d =
    (length pre, c, if r = [] then length pre + length c else length pre + length c + 1)"
proof -
  obtain x xs where c: "c = x # xs" "x \<noteq> d"
    using assms by (cases c) auto
  then have skip: "skip_delim (pre @ c @ r) d (length pre) = length pre"
    by (simp add: skip_delim_def)
  have "\<forall>y \<in> set c. y \<noteq> d" using assms(2) by auto
  then have "takeWhile (\<lambda>y. y \<noteq> d) (c @ r) = c @ takeWhile (\<lambda>y. y \<noteq> d) r"
    by (simp add: takeWhile_append2)
  also have "takeWhile (\<lambda>y. y \<noteq> d) r = []" using assms(3) by (cases r) auto
  finally have "takeWhile (\<lambda>y. y \<noteq> d) (c @ r) = c" by simp
  moreover have "takeWhile (\<lambda>y. y \<noteq> d) c = c"
    using assms(2) by (auto simp: takeWhile_eq_all_conv)
  then have "length (takeWhile (\<lambda>y. y \<noteq> d) c) = length c" by (rule arg_cong)
  ultimately show ?thesis using skip by (simp add: strtok_list_def Let_def)
qed

subsection \<open>Numbers\<close>

text \<open>The digit a character stands for, computed on 16 bits without a check of the character.\<close>

definition digit_of :: "u8 \<Rightarrow> u16" where
  "digit_of c =
     (if c \<le> of_char (CHR ''9'') then ucast c - of_char (CHR ''0'')
      else if c \<ge> of_char (CHR ''a'') then 0xA + ucast c - of_char (CHR ''a'')
      else 0xA + ucast c - of_char (CHR ''A''))"

primrec stou_from :: "u16 \<Rightarrow> u16 \<Rightarrow> u8 list \<Rightarrow> u16" where
  "stou_from base value [] = value"
| "stou_from base value (c # cs) =
     (if c = 0 then value else stou_from base (value * base + digit_of c) cs)"

definition stou :: "u8 list \<Rightarrow> u16" where
  "stou src = (if take 2 src = bytes ''0x'' then stou_from 16 0 (drop 2 src) else stou_from 10 0 src)"

primrec sisu_from :: "u16 \<Rightarrow> u8 list \<Rightarrow> u16" where
  "sisu_from base [] = 1"
| "sisu_from base (c # cs) =
     (if c = 0 then 1 else if digit_of c \<ge> base then 0 else sisu_from base cs)"

definition sisu :: "u8 list \<Rightarrow> u16" where
  "sisu src =
     (if cstring src = [] then 0
      else if take 2 src = bytes ''0x'' \<and> cstring (drop 2 src) \<noteq> [] then sisu_from 16 (drop 2 src)
      else sisu_from 10 src)"

subsection \<open>Lemmas\<close>

lemma cstring_Nil [simp]: "cstring [] = []"
  by (simp add: cstring_def)

lemma cstring_Cons [simp]: "cstring (c # cs) = (if c = 0 then [] else c # cstring cs)"
  by (simp add: cstring_def)

lemma strlen_cstring: "strlen s = of_nat (length (cstring s))"
  by (induction s) simp_all

lemma copy_from_stop:
  "unat i < length dst \<Longrightarrow> (i, dst[unat i := 0]) = (i + of_nat (length ([] :: u8 list)),
     take (unat i) dst @ [] @ 0 # drop (unat i + length ([] :: u8 list) + 1) dst)"
  by (simp add: upd_conv_take_nth_drop)

text \<open>A bounded copy from index \<open>i\<close> on takes what fits, terminates it and stays below the bound.\<close>

lemma copy_from_bounded:
  fixes n :: u16 and src :: "u8 list"
  assumes "unat n \<le> length dst" "unat i < unat n"
  defines "s \<equiv> take (unat n - 1 - unat i) (cstring src)"
  shows "copy_from (\<lambda>i. i + 1 < n) dst i src =
    (i + of_nat (length s), take (unat i) dst @ s @ 0 # drop (unat i + length s + 1) dst)"
  using assms(1,2) unfolding s_def
proof (induction src arbitrary: dst i)
  case Nil
  then show ?case using copy_from_stop [of i dst] by simp
next
  case (Cons c src)
  have i: "unat i < length dst" using Cons.prems by simp
  have i1: "unat (i + 1) = unat i + 1" if "unat i + 1 < unat n"
    using that unat_u16_lt [of n] by (simp add: unat_plus1_u16)
  have guard: "i + 1 < n \<longleftrightarrow> unat i + 1 < unat n"
  proof (cases "unat i = 65535")
    case True
    then show ?thesis using Cons.prems(2) unat_u16_lt [of n] by simp
  next
    case False
    then have "unat (i + 1) = unat i + 1" using unat_u16_lt [of i] by (simp add: unat_plus1_u16)
    then show ?thesis by (simp add: word_less_nat_alt)
  qed
  show ?case
  proof (cases "c \<noteq> 0 \<and> unat i + 1 < unat n")
    case False
    then have "take (unat n - 1 - unat i) (cstring (c # src)) = []" by auto
    moreover have "copy_from (\<lambda>i. i + 1 < n) dst i (c # src) = (i, dst[unat i := 0])"
      using False guard by auto
    ultimately show ?thesis using copy_from_stop [OF i] by (simp only: list.size)
  next
    case True
    then have "unat n - 1 - unat i = Suc (unat n - 1 - unat (i + 1))" using i1 by linarith
    then show ?thesis
      using True guard i1 i Cons.prems Cons.IH [of "dst[unat i := c]" "i + 1"]
      by (simp add: take_Suc_conv_app_nth take_update_cancel)
  qed
qed

lemma strcpy_s_ok:
  fixes n :: u16 and src :: "u8 list"
  assumes "0 < n" "unat n \<le> length dst"
  defines "s \<equiv> take (unat n - 1) (cstring src)"
  shows "strcpy_s dst src n = (of_nat (length s), s @ 0 # drop (length s + 1) dst)"
  using assms copy_from_bounded [of n dst 0 src] by (simp add: strcpy_s_def word_less_nat_alt)

lemma take_cstring: "k \<le> length (cstring s) \<Longrightarrow> take k s = take k (cstring s)"
proof (induction s arbitrary: k)
  case (Cons c s)
  then show ?case by (cases k) (auto split: if_splits)
qed simp

lemma strcat_s_ok:
  fixes n :: u16 and src :: "u8 list"
  assumes "unat n \<le> length dst" "length (cstring dst) < unat n"
  defines "s \<equiv> take (unat n - 1) (cstring dst @ cstring src)"
  shows "strcat_s dst src n = (of_nat (length s), s @ 0 # drop (length s + 1) dst)"
proof -
  have u: "unat (strlen dst) = length (cstring dst)"
    using assms(2) unat_u16_lt [of n] by (simp add: strlen_cstring unat_of_nat_u16)
  have s: "s = cstring dst @ take (unat n - 1 - length (cstring dst)) (cstring src)"
    using assms(2) by (simp add: s_def)
  show ?thesis
    using copy_from_bounded [of n dst "strlen dst" src] assms(1,2) take_cstring [of "length (cstring dst)" dst] u
    by (simp add: strcat_s_def s) (simp add: strlen_cstring)
qed

lemma cstring_take_zero: "0 \<notin> set s \<Longrightarrow> cstring (take k s @ 0 # r) = take k s"
  by (auto dest: in_set_takeD intro!: cstring_append_zero)

lemma ucast_u8_u16_eq [simp]: "ucast (x :: u8) = (ucast y :: u16) \<longleftrightarrow> x = y"
  by (metis unat_ucast_u8_u16 word_unat_eq_iff)

lemma ucast_u8_u16_zero [simp]: "ucast (x :: u8) = (0 :: u16) \<longleftrightarrow> x = 0"
  using ucast_u8_u16_eq [of x 0] by simp

lemma strcmp_zero_iff: "strcmp a b = 0 \<longleftrightarrow> cstring a = cstring b"
  by (induction a b rule: strcmp.induct) auto

lemma strncmp_from_zero_iff:
  "unat i < unat n \<Longrightarrow> strncmp_from i a b n = 0 \<longleftrightarrow>
     take (unat n - unat i) (cstring a) = take (unat n - unat i) (cstring b)"
proof (induction i a b n rule: strncmp_from.induct)
  case (1 i a as b bs n)
  show ?case
  proof (cases "unat i + 1 < unat n")
    case True
    then have i1: "unat (i + 1) = unat i + 1" using unat_u16_lt [of n] by (simp add: unat_plus1_u16)
    then have "unat n - unat i = Suc (unat n - unat (i + 1))" "i + 1 < n"
      using True by (simp_all add: word_less_nat_alt)
    then show ?thesis using 1(1) True i1 by auto
  next
    case False
    then have one: "unat n - unat i = 1" "unat n = unat i + 1" using 1(2) by simp_all
    have "unat i < 65535" using one(2) unat_u16_lt [of n] by simp
    then have "\<not> i + 1 < n" using one(2) by (simp add: word_less_nat_alt unat_plus1_u16)
    then show ?thesis using one(1) by auto
  qed
qed auto

lemma strchr_from_pos:
  "c \<noteq> 0 \<Longrightarrow> c \<in> set (cstring s) \<Longrightarrow>
   strchr_from n s c = n + of_nat (length (takeWhile (\<lambda>x. x \<noteq> c) s)) + 1"
  by (induction s arbitrary: n) (auto split: if_splits)

lemma strchr_from_none: "c \<notin> set (cstring s) \<Longrightarrow> strchr_from n s c = 0"
  by (induction s arbitrary: n) (auto split: if_splits)

subsection \<open>Properties\<close>

text \<open>
  C31: The bounded copy and concatenation: for a destination of at least \<open>n\<close> bytes, \<open>strcpy_s\<close> leaves in
  it the first \<open>n - 1\<close> bytes of the source and a terminator, \<open>strcat_s\<close> the first \<open>n - 1\<close> bytes of the
  concatenation; both return the length of the string they leave, and no byte after its terminator
  changes, so none from \<open>n\<close> on.
\<close>

theorem bounded_strings:
  fixes n :: u16
  assumes "0 < n" "unat n \<le> length dst"
  shows "strcpy_s dst src n = (let s = take (unat n - 1) (cstring src)
      in (of_nat (length s), s @ 0 # drop (length s + 1) dst)) \<and>
    cstring (snd (strcpy_s dst src n)) = take (unat n - 1) (cstring src) \<and>
    (length (cstring dst) < unat n \<longrightarrow>
      strcat_s dst src n = (let s = take (unat n - 1) (cstring dst @ cstring src)
        in (of_nat (length s), s @ 0 # drop (length s + 1) dst)) \<and>
      cstring (snd (strcat_s dst src n)) = take (unat n - 1) (cstring dst @ cstring src))"
proof -
  let ?c = "cstring dst @ cstring src"
  have "0 \<notin> set ?c" using cstring_nonzero by auto
  then have "cstring (take k ?c @ 0 # r) = take k ?c" for k r by (rule cstring_take_zero)
  moreover have "cstring (take k (cstring src) @ 0 # r) = take k (cstring src)" for k r
    by (rule cstring_take_zero [OF cstring_nonzero])
  ultimately show ?thesis
    using assms by (simp add: strcpy_s_ok strcat_s_ok Let_def del: take_append)
qed

theorem bounded_strings_witness:
  "strcat_s (snd (strcpy_s (replicate 6 9) (bytes ''abc'') 5)) (bytes ''de'') 5 =
     (4, bytes ''abcd'' @ [0, 9])"
proof -
  have a: "snd (strcpy_s (replicate 6 9) (bytes ''abc'') 5) = bytes ''abc'' @ [0, 9, 9]" by code_simp
  have "strcat_s (bytes ''abc'' @ [0, 9, 9]) (bytes ''de'') 5 =
      (let s = take (unat (5 :: u16) - 1) (cstring (bytes ''abc'' @ [0, 9, 9]) @ cstring (bytes ''de''))
       in (of_nat (length s), s @ 0 # drop (length s + 1) (bytes ''abc'' @ [0, 9, 9])))"
    using bounded_strings [of 5 "bytes ''abc'' @ [0, 9, 9]" "bytes ''de''"] by simp
  then show ?thesis by (simp only: a) simp
qed

text \<open>
  \<open>strcmp\<close> is 0 exactly for equal strings, \<open>strncmp\<close> with a positive count exactly for strings
  that agree on their first \<open>n\<close> characters, and \<open>strchr\<close> returns one more than the index of the first
  occurrence, or 0 when there is none.
\<close>

lemma string_comparison:
  "(strcmp a b = 0 \<longleftrightarrow> cstring a = cstring b) \<and>
   (0 < n \<longrightarrow> (strncmp a b n = 0 \<longleftrightarrow> take (unat n) (cstring a) = take (unat n) (cstring b))) \<and>
   (c \<noteq> 0 \<longrightarrow> strchr a c = (if c \<in> set (cstring a)
      then of_nat (length (takeWhile (\<lambda>x. x \<noteq> c) (cstring a))) + 1 else 0))"
proof -
  have "takeWhile (\<lambda>x. x \<noteq> c) (cstring a) = takeWhile (\<lambda>x. x \<noteq> c) a" if "c \<in> set (cstring a)"
    using that by (induction a) (auto split: if_splits)
  then show ?thesis
    using strncmp_from_zero_iff [of 0 n a b]
    by (simp add: strcmp_zero_iff strncmp_def strchr_def strchr_from_pos strchr_from_none word_less_nat_alt)
qed

end
