(* ===== verification/Fs_Types.thy ===== *)
theory Fs_Types
  imports Ulib_String Byte_Order
begin

section \<open>On-disk structures of the file system (source/fs.h)\<close>

text \<open>
  The superblock and the entry of NSFS as records, and their layout in bytes: 32-bit fields are
  little endian (8086), an entry is 512 bytes: flags, 15 bytes of name, four 32-bit fields and
  120 references. Decoding an encoded structure gives it back (\<open>decode_encode_entry\<close>,
  \<open>decode_encode_sb\<close>).
\<close>

definition BLOCK_SIZE :: u16 where [simp]: "BLOCK_SIZE = 512"
definition SECTOR_SIZE :: u16 where [simp]: "SECTOR_SIZE = 512"
definition SFS_TYPE_ID :: u32 where [simp]: "SFS_TYPE_ID = 0x05F50010"
definition SFS_NAMESIZE :: nat where [simp]: "SFS_NAMESIZE = 15"
definition SFS_ENTRYREFS :: u16 where [simp]: "SFS_ENTRYREFS = 120"
definition T_DIR :: u8 where [simp]: "T_DIR = 0x01"
definition T_FILE :: u8 where [simp]: "T_FILE = 0x02"
definition F_USED :: u8 where [simp]: "F_USED = T_DIR OR T_FILE"
definition PATH_SEPARATOR :: u8 where [simp]: "PATH_SEPARATOR = of_char (CHR ''/'')"
definition ROOT_DIR_NAME :: "u8 list" where [simp]: "ROOT_DIR_NAME = bytes ''.''"
definition SIZEOF_ENTRY :: u16 where [simp]: "SIZEOF_ENTRY = 512"
definition SIZEOF_SB :: u16 where [simp]: "SIZEOF_SB = 16"

record sfs_superblock =
  sb_type :: u32
  sb_size :: u32
  sb_nentries :: u32
  sb_bootstart :: u32

record sfs_entry =
  e_flags :: u8
  e_name :: "u8 list"
  e_time :: u32
  e_size :: u32
  e_parent :: u32
  e_next :: u32
  e_ref :: "u32 list"

text \<open>An entry of the right shape: 15 bytes of name, 120 references.\<close>

definition entry_shape :: "sfs_entry \<Rightarrow> bool" where
  "entry_shape e \<longleftrightarrow> length (e_name e) = SFS_NAMESIZE \<and> length (e_ref e) = unat SFS_ENTRYREFS"

definition zero_entry :: sfs_entry where
  "zero_entry = \<lparr>e_flags = 0, e_name = replicate SFS_NAMESIZE 0, e_time = 0, e_size = 0,
     e_parent = 0, e_next = 0, e_ref = replicate (unat SFS_ENTRYREFS) 0\<rparr>"

lemma zero_entry_shape [simp]: "entry_shape zero_entry"
  by (simp add: entry_shape_def zero_entry_def)

subsection \<open>References\<close>

definition refs_bytes :: "u32 list \<Rightarrow> u8 list" where
  "refs_bytes rs = concat (map le32 rs)"

lemma refs_bytes_array: "refs_bytes rs = word32.array rs"
  by (simp add: refs_bytes_def word32.array_def)

lemma length_refs_bytes [simp]: "length (refs_bytes rs) = 4 * length rs"
  by (simp add: refs_bytes_array word32.length_array list_all_iff)

lemma of_le32_refs: "i < length rs \<Longrightarrow> of_le32 (drop (4 * i) (refs_bytes rs @ r)) = rs ! i"
proof -
  assume i: "i < length rs"
  have "drop (4 * i) (word32.array rs) = word32.array (drop i rs)" by (rule word32.drop_array) (simp add: list_all_iff)
  then have "drop (4 * i) (refs_bytes rs @ r) = le32 (rs ! i) @ word32.array (drop (Suc i) rs) @ r"
    using i by (simp add: refs_bytes_array word32.length_array list_all_iff Cons_nth_drop_Suc [symmetric])
  then show ?thesis by simp
qed

subsection \<open>Layout of an entry and of the superblock\<close>

definition encode_entry :: "sfs_entry \<Rightarrow> u8 list" where
  "encode_entry e = e_flags e # e_name e @ le32 (e_time e) @ le32 (e_size e) @
     le32 (e_parent e) @ le32 (e_next e) @ refs_bytes (e_ref e)"

definition decode_entry :: "u8 list \<Rightarrow> sfs_entry" where
  "decode_entry b = \<lparr>e_flags = b ! 0, e_name = take SFS_NAMESIZE (drop 1 b),
     e_time = of_le32 (drop 16 b), e_size = of_le32 (drop 20 b), e_parent = of_le32 (drop 24 b),
     e_next = of_le32 (drop 28 b),
     e_ref = map (\<lambda>i. of_le32 (drop (32 + 4 * i) b)) [0 ..< unat SFS_ENTRYREFS]\<rparr>"

definition encode_sb :: "sfs_superblock \<Rightarrow> u8 list" where
  "encode_sb sb = le32 (sb_type sb) @ le32 (sb_size sb) @ le32 (sb_nentries sb) @
     le32 (sb_bootstart sb)"

definition decode_sb :: "u8 list \<Rightarrow> sfs_superblock" where
  "decode_sb b = \<lparr>sb_type = of_le32 b, sb_size = of_le32 (drop 4 b),
     sb_nentries = of_le32 (drop 8 b), sb_bootstart = of_le32 (drop 12 b)\<rparr>"

lemma length_encode_entry: "entry_shape e \<Longrightarrow> length (encode_entry e) = 512"
  by (simp add: encode_entry_def entry_shape_def)

lemma length_encode_sb [simp]: "length (encode_sb sb) = 16"
  by (simp add: encode_sb_def)

lemma decode_entry_append:
  assumes "entry_shape e"
  shows "decode_entry (encode_entry e @ r) = e"
proof -
  have len: "length (e_name e) = 15" "length (e_ref e) = 120"
    using assms by (simp_all add: entry_shape_def)
  define b where "b = encode_entry e @ r"
  have d: "drop n b = drop (n - 1) (e_name e @ le32 (e_time e) @ le32 (e_size e) @
      le32 (e_parent e) @ le32 (e_next e) @ refs_bytes (e_ref e) @ r)" if "0 < n" for n
    using that by (cases n) (simp_all add: encode_entry_def b_def)
  have "map (\<lambda>i. of_le32 (drop (32 + 4 * i) b)) [0 ..< 120] = e_ref e"
  proof (rule nth_equalityI)
    fix i assume "i < length (map (\<lambda>i. of_le32 (drop (32 + 4 * i) b)) [0 ..< 120])"
    then have i: "i < 120" by simp
    have "drop (32 + 4 * i) b = drop (4 * i) (refs_bytes (e_ref e) @ r)"
      using len(1) by (subst d) simp_all
    with i len(2) show "map (\<lambda>i. of_le32 (drop (32 + 4 * i) b)) [0 ..< 120] ! i = e_ref e ! i"
      using of_le32_refs [of i "e_ref e" r] by (simp del: drop_append)
  qed (simp add: len)
  moreover have "b ! 0 = e_flags e" by (simp add: encode_entry_def b_def)
  ultimately show ?thesis
    using len unfolding b_def [symmetric] by (intro sfs_entry.equality) (simp_all add: decode_entry_def d)
qed

interpretation entry: layout encode_entry decode_entry entry_shape 512
  by unfold_locales (simp_all add: length_encode_entry decode_entry_append)

lemma decode_encode_entry: "entry_shape e \<Longrightarrow> decode_entry (encode_entry e) = e"
  by (rule entry.parse_exact)

lemma decode_encode_sb [simp]: "decode_sb (encode_sb sb @ r) = sb"
  by (simp add: decode_sb_def encode_sb_def)

interpretation superblock: layout encode_sb decode_sb "\<lambda>_. True" 16
  by unfold_locales simp_all

lemma decode_entry_shape: "512 \<le> length b \<Longrightarrow> entry_shape (decode_entry b)"
  by (simp add: decode_entry_def entry_shape_def)

text \<open>The name of an entry as a C string: up to the first 0 from the name field on.\<close>

definition entry_name :: "sfs_entry \<Rightarrow> u8 list" where
  "entry_name e = cstring (drop 1 (encode_entry e))"

text \<open>A name copied into the name field of an entry.\<close>

lemma length_strcpy_name:
  "length dst = 15 \<Longrightarrow> length (snd (strcpy_s dst src 15)) = 15"
  by (simp add: strcpy_s_ok)

lemma cstring_strcpy_name:
  "length dst = 15 \<Longrightarrow> 0 \<notin> set src \<Longrightarrow> cstring (snd (strcpy_s dst src 15)) = take 14 src"
  by (simp add: strcpy_s_ok cstring_take_zero cstring_id)

end
