(* ===== verification/Fs_Disk.thy ===== *)
theory Fs_Disk
  imports Fs_Types
begin

section \<open>Disks: state, sector transfers, byte-granular access (source/fs.c, source/hw86.s)\<close>

text \<open>
  The state of the file system: the table of disks, the system disk, and the contents of every disk,
  an array of 512-byte sectors. What is not under \<^verbatim>\<open>src/\<close> is a parameter, collected in the record
  \<open>hardware\<close>: the result codes of the BIOS disk service (0 is success), what a failed read leaves in
  the buffer and what a failed write leaves on the disk, the successive readings of the real-time
  clock, and the memory the code reads outside its own objects. \<open>read_disk\<close> and \<open>write_disk\<close> are
  modelled with their three stages (unaligned head, whole sectors with the fallback for the DMA
  boundary error \<open>0x900\<close>, partial tail). Under \<open>device_ok\<close> they refine reads and updates of
  a flat image of bytes (\<open>read_disk_ok\<close>, \<open>write_disk_ok\<close>). The check for a null buffer and
  the debug output are not modelled: every caller passes an object.
\<close>

text \<open>The buffer of a transfer: the caller's, or the kernel's own aligned \<open>disk_buff\<close>.\<close>

datatype iobuf = CallerBuf | DiskBuf

record diskinfo =
  di_id :: u16
  di_name :: "u8 list"
  di_fstype :: u16
  di_fssize :: u32
  di_sectors :: u16
  di_sides :: u16
  di_cylinders :: u16
  di_size :: u32
  di_last_access :: u32

record hardware =
  bios_read :: "iobuf \<Rightarrow> u8 \<Rightarrow> u16 \<Rightarrow> u16 \<Rightarrow> u16"
  bios_write :: "iobuf \<Rightarrow> u8 \<Rightarrow> u16 \<Rightarrow> u16 \<Rightarrow> u16"
  bios_junk :: "u8 \<Rightarrow> u16 \<Rightarrow> u8 list"
  bios_torn :: "u16 \<Rightarrow> u8 \<Rightarrow> u16 \<Rightarrow> u8 list \<Rightarrow> (u16 \<Rightarrow> u8 list) \<Rightarrow> u16 \<Rightarrow> u8 list"
  rtc :: "nat \<Rightarrow> u8 list \<times> u8 list"
  wild_disk :: diskinfo
  wild_ref :: u32
  stack_arg :: u16

record fs_state =
  disk_info :: "diskinfo list"
  system_disk :: u8
  dsk :: "u8 \<Rightarrow> u16 \<Rightarrow> u8 list"
  clock :: nat
  hw :: hardware

definition MAX_DISK :: nat where [simp]: "MAX_DISK = 4"

definition disk_info_at :: "fs_state \<Rightarrow> u16 \<Rightarrow> diskinfo" where
  "disk_info_at s i = (if unat i < MAX_DISK then disk_info s ! unat i else wild_disk (hw s))"

definition disk_to_index :: "fs_state \<Rightarrow> u16 \<Rightarrow> u16" where
  "disk_to_index s disk =
     (case find (\<lambda>i. di_id (disk_info s ! i) = disk) [0 ..< MAX_DISK] of
        Some i \<Rightarrow> of_nat i | None \<Rightarrow> ERROR_NOT_FOUND)"

definition index_to_disk :: "fs_state \<Rightarrow> u16 \<Rightarrow> u16" where
  "index_to_disk s i = (if unat i < MAX_DISK then di_id (disk_info s ! unat i) else ERROR_NOT_FOUND)"

definition disk_to_string :: "fs_state \<Rightarrow> u16 \<Rightarrow> u8 list" where
  "disk_to_string s disk =
     (case find (\<lambda>i. di_id (disk_info s ! i) = disk) [0 ..< MAX_DISK] of
        Some i \<Rightarrow> di_name (disk_info s ! i) | None \<Rightarrow> bytes ''unk'')"

definition string_to_disk :: "fs_state \<Rightarrow> u8 list \<Rightarrow> u16" where
  "string_to_disk s str =
     (case find (\<lambda>i. str = di_name (disk_info s ! i)) [0 ..< MAX_DISK] of
        Some i \<Rightarrow> di_id (disk_info s ! i) | None \<Rightarrow> ERROR_NOT_FOUND)"

definition string_is_disk :: "fs_state \<Rightarrow> u8 list \<Rightarrow> bool" where
  "string_is_disk s str \<longleftrightarrow>
     list_ex (\<lambda>i. str = disk_to_string s (index_to_disk s (of_nat i))) [0 ..< MAX_DISK]"

definition blocks_to_MB :: "u32 \<Rightarrow> u32" where
  "blocks_to_MB blocks = (blocks * ucast BLOCK_SIZE) div 1048576"

subsection \<open>Sector transfers\<close>

text \<open>
  \<open>read_disk_sector\<close> of \<^verbatim>\<open>hw86.s\<close>: a disk without geometry is refused with code 1; otherwise the BIOS
  decides (its retries included), and on success the \<open>n\<close> sectors are in the buffer. The assembly
  keeps the low byte of the disk id.
\<close>

definition no_geometry :: "fs_state \<Rightarrow> u16 \<Rightarrow> bool" where
  "no_geometry s disk =
     (let di = disk_info_at s (disk_to_index s (ucast (ucast disk :: u8)))
      in ucast (di_sectors di) = (0 :: u8) \<or> ucast (di_sides di) = (0 :: u8))"

definition read_disk_sector ::
    "fs_state \<Rightarrow> iobuf \<Rightarrow> u16 \<Rightarrow> u16 \<Rightarrow> u16 \<Rightarrow> u16 \<times> u8 list" where
  "read_disk_sector s buf disk sector n =
     (let d = ucast disk;
          r = (if no_geometry s disk then 1 else bios_read (hw s) buf d sector n)
      in (r, if r = 0 then concat (map (\<lambda>k. dsk s d (sector + of_nat k)) [0 ..< unat n])
             else bios_junk (hw s) d sector))"

definition put_sectors :: "(u16 \<Rightarrow> u8 list) \<Rightarrow> u16 \<Rightarrow> u16 \<Rightarrow> u8 list \<Rightarrow> u16 \<Rightarrow> u8 list" where
  "put_sectors f sector n data x =
     (if x - sector < n then take 512 (drop (512 * unat (x - sector)) data) else f x)"

definition write_disk_sector ::
    "fs_state \<Rightarrow> iobuf \<Rightarrow> u16 \<Rightarrow> u16 \<Rightarrow> u16 \<Rightarrow> u8 list \<Rightarrow> u16 \<times> fs_state" where
  "write_disk_sector s buf disk sector n data =
     (let d = ucast disk
      in if no_geometry s disk then (1, s)
         else let r = bios_write (hw s) buf d sector n
           in (r, s\<lparr>dsk := (dsk s)(d := if r = 0 then put_sectors (dsk s d) sector n data
                else bios_torn (hw s) r d sector data (dsk s d))\<rparr>))"

subsection \<open>read_disk\<close>

definition min16 :: "u16 \<Rightarrow> u16 \<Rightarrow> u16" where
  "min16 a b = (if a < b then a else b)"

definition start_sector :: "u16 \<Rightarrow> u16 \<Rightarrow> u16" where
  "start_sector block offset =
     (if BLOCK_SIZE \<ge> SECTOR_SIZE then block * (BLOCK_SIZE div SECTOR_SIZE)
      else (block * BLOCK_SIZE) div SECTOR_SIZE) + offset div SECTOR_SIZE"

text \<open>Unaligned start: one sector through \<open>disk_buff\<close>; \<open>i\<close> bytes are taken from it.\<close>

definition head_len :: "u16 \<Rightarrow> u16 \<Rightarrow> u16" where
  "head_len off buff_size = (if off \<noteq> 0 then min16 (SECTOR_SIZE - off) buff_size else 0)"

definition read_head :: "fs_state \<Rightarrow> u16 \<Rightarrow> u16 \<Rightarrow> u16 \<Rightarrow> u16 \<Rightarrow> u16 \<times> u8 list" where
  "read_head s disk sector off i =
     (if off \<noteq> 0
      then let (r, b) = read_disk_sector s DiskBuf disk sector 1
        in (r, take (unat i) (drop (unat off) b))
      else (0, []))"

text \<open>The fallback loop, sector by sector through \<open>disk_buff\<close>.\<close>

primrec read_each :: "fs_state \<Rightarrow> u16 \<Rightarrow> u16 \<Rightarrow> nat \<Rightarrow> u16 \<times> u8 list" where
  "read_each s disk sector 0 = (0, [])"
| "read_each s disk sector (Suc n) =
     (let (r, b) = read_disk_sector s DiskBuf disk sector 1
      in if r \<noteq> 0 then (r, [])
         else let (r', b') = read_each s disk (sector + 1) n in (r', b @ b'))"

definition read_body :: "fs_state \<Rightarrow> u16 \<Rightarrow> u16 \<Rightarrow> u16 \<Rightarrow> u16 \<times> u8 list" where
  "read_body s disk sector n =
     (let (r, b) = read_disk_sector s CallerBuf disk sector n
      in if r = 0x900 then read_each s disk sector (unat n) else (r, b))"

definition read_tail :: "fs_state \<Rightarrow> u16 \<Rightarrow> u16 \<Rightarrow> u16 \<Rightarrow> u16 \<times> u8 list" where
  "read_tail s disk sector len =
     (let (r, b) = read_disk_sector s DiskBuf disk sector 1 in (r, take (unat len) b))"

definition read_disk :: "fs_state \<Rightarrow> u16 \<Rightarrow> u16 \<Rightarrow> u16 \<Rightarrow> u16 \<Rightarrow> u16 + u8 list" where
  "read_disk s disk block offset buff_size =
     (if di_size (disk_info_at s (disk_to_index s disk)) = 0 then Inl 1
      else let sector = start_sector block offset;
               off = offset mod SECTOR_SIZE;
               i = head_len off buff_size;
               (r1, b1) = read_head s disk sector off i;
               sector = (if off \<noteq> 0 then sector + 1 else sector);
               len = buff_size - i;
               n = len div SECTOR_SIZE;
               (r2, b2) = (if n \<noteq> 0 \<and> r1 = 0 then read_body s disk sector n else (r1, []));
               sector = sector + n;
               len = len - SECTOR_SIZE * n;
               (r3, b3) = (if len \<noteq> 0 \<and> r2 = 0 then read_tail s disk sector len else (r2, []))
           in if r3 \<noteq> 0 then Inl r3 else Inr (b1 @ b2 @ b3))"

subsection \<open>write_disk\<close>

text \<open>
  A partial sector: read it into \<open>disk_buff\<close>, overwrite the bytes from \<open>off\<close> on, write it back. The
  code adds up the two result codes and writes even when the read failed.
\<close>

definition splice :: "nat \<Rightarrow> u8 list \<Rightarrow> u8 list \<Rightarrow> u8 list" where
  "splice off data b = take off b @ data @ drop (off + length data) b"

definition write_part ::
    "fs_state \<Rightarrow> u16 \<Rightarrow> u16 \<Rightarrow> u16 \<Rightarrow> u8 list \<Rightarrow> u16 \<times> fs_state" where
  "write_part s disk sector off data =
     (let (r, b) = read_disk_sector s DiskBuf disk sector 1;
          (w, s') = write_disk_sector s DiskBuf disk sector 1 (splice (unat off) data b)
      in (r + w, s'))"

primrec write_each ::
    "fs_state \<Rightarrow> u16 \<Rightarrow> u16 \<Rightarrow> nat \<Rightarrow> u8 list \<Rightarrow> u16 \<times> fs_state" where
  "write_each s disk sector 0 data = (0, s)"
| "write_each s disk sector (Suc n) data =
     (let (w, s') = write_disk_sector s DiskBuf disk sector 1 (take 512 data)
      in if w \<noteq> 0 then (w, s') else write_each s' disk (sector + 1) n (drop 512 data))"

definition write_body ::
    "fs_state \<Rightarrow> u16 \<Rightarrow> u16 \<Rightarrow> u16 \<Rightarrow> u8 list \<Rightarrow> u16 \<times> fs_state" where
  "write_body s disk sector n data =
     (let (w, s') = write_disk_sector s CallerBuf disk sector n data
      in if w = 0x900 then write_each s' disk sector (unat n) data else (w, s'))"

definition write_disk ::
    "fs_state \<Rightarrow> u16 \<Rightarrow> u16 \<Rightarrow> u16 \<Rightarrow> u16 \<Rightarrow> u8 list \<Rightarrow> u16 \<times> fs_state" where
  "write_disk s disk block offset buff_size buff =
     (if di_size (disk_info_at s (disk_to_index s disk)) = 0 then (1, s)
      else let sector = start_sector block offset;
               off = offset mod SECTOR_SIZE;
               i = head_len off buff_size;
               (r1, s1) = (if off \<noteq> 0 then write_part s disk sector off (take (unat i) buff)
                           else (0, s));
               sector = (if off \<noteq> 0 then sector + 1 else sector);
               len = buff_size - i;
               n = len div SECTOR_SIZE;
               body = take (512 * unat n) (drop (unat i) buff);
               (r2, s2) = (if n \<noteq> 0 \<and> r1 = 0 then write_body s1 disk sector n body else (r1, s1));
               sector = sector + n;
               len = len - SECTOR_SIZE * n;
               rest = take (unat len) (drop (unat i + 512 * unat n) buff);
               (r3, s3) = (if len \<noteq> 0 \<and> r2 = 0 then write_part s2 disk sector 0 rest
                           else (r2, s2))
           in (r3, s3))"


section \<open>A disk as a flat image of bytes\<close>

definition get_bytes :: "(u16 \<Rightarrow> u8 list) \<Rightarrow> nat \<Rightarrow> nat \<Rightarrow> u8 list" where
  "get_bytes f p n = map (\<lambda>q. f (of_nat (q div 512)) ! (q mod 512)) [p ..< p + n]"

definition put_bytes :: "(u16 \<Rightarrow> u8 list) \<Rightarrow> nat \<Rightarrow> u8 list \<Rightarrow> u16 \<Rightarrow> u8 list" where
  "put_bytes f p data x =
     map (\<lambda>j. let q = 512 * unat x + j
              in if p \<le> q \<and> q < p + length data then data ! (q - p) else f x ! j) [0 ..< 512]"

definition sectors_ok :: "(u16 \<Rightarrow> u8 list) \<Rightarrow> bool" where
  "sectors_ok f \<longleftrightarrow> (\<forall>x. length (f x) = 512)"

lemma sectors_ok_put_bytes [simp]: "sectors_ok (put_bytes f p data)"
  by (simp add: sectors_ok_def put_bytes_def)

lemma length_get_bytes [simp]: "length (get_bytes f p n) = n"
  by (simp add: get_bytes_def)

lemma get_bytes_0 [simp]: "get_bytes f p 0 = []"
  by (simp add: get_bytes_def)

lemma get_bytes_add: "get_bytes f p (a + b) = get_bytes f p a @ get_bytes f (p + a) b"
  using upt_add_eq_append [of p "p + a" b] by (simp add: get_bytes_def add.assoc)

lemma take_drop_get_bytes:
  "a + b \<le> n \<Longrightarrow> take b (drop a (get_bytes f p n)) = get_bytes f (p + a) b"
  by (rule nth_equalityI) (simp_all add: get_bytes_def add.assoc)

lemma take_get_bytes: "b \<le> n \<Longrightarrow> take b (get_bytes f p n) = get_bytes f p b"
  using take_drop_get_bytes [of 0 b n f p] by simp

lemma get_bytes_sector:
  assumes "sectors_ok f" "p = 512 * unat x"
  shows "get_bytes f p 512 = f x"
proof (rule nth_equalityI)
  fix i assume "i < length (get_bytes f p 512)"
  then have "i < 512" by simp
  then have "(p + i) div 512 = unat x" "(p + i) mod 512 = i" using assms(2) by simp_all
  with \<open>i < 512\<close> show "get_bytes f p 512 ! i = f x ! i" by (simp add: get_bytes_def)
qed (use assms in \<open>simp add: sectors_ok_def\<close>)

lemma get_bytes_sectors:
  assumes "sectors_ok f" "unat x + n \<le> 65536"
  shows "concat (map (\<lambda>k. f (x + of_nat k)) [0 ..< n]) = get_bytes f (512 * unat x) (512 * n)"
  using assms(2)
proof (induction n)
  case (Suc n)
  have "512 * unat (x + of_nat n) = 512 * unat x + 512 * n"
    using Suc.prems by (simp add: unat_plus_u16 unat_of_nat_u16)
  with Suc assms(1) have "get_bytes f (512 * unat x + 512 * n) 512 = f (x + of_nat n)"
    by (intro get_bytes_sector) simp_all
  with Suc show ?case
    using get_bytes_add [of f "512 * unat x" "512 * n" 512] by (simp add: add.commute)
qed simp

lemma nth_put_bytes:
  "j < 512 \<Longrightarrow> put_bytes f p data x ! j =
     (if p \<le> 512 * unat x + j \<and> 512 * unat x + j < p + length data
      then data ! (512 * unat x + j - p) else f x ! j)"
  by (simp add: put_bytes_def Let_def)

lemma length_put_bytes [simp]: "length (put_bytes f p data x) = 512"
  by (simp add: put_bytes_def)

lemma put_bytes_nil [simp]: "sectors_ok f \<Longrightarrow> put_bytes f p [] = f"
  by (rule ext, rule nth_equalityI) (auto simp: sectors_ok_def nth_put_bytes)

lemma put_bytes_append:
  "put_bytes (put_bytes f p a) (p + length a) b = put_bytes f p (a @ b)"
  by (rule ext, rule nth_equalityI) (auto simp: nth_put_bytes nth_append)

text \<open>Reading a range back after writing it, and reading a disjoint one.\<close>

lemma get_put_bytes:
  assumes "p + length data \<le> 512 * 65536"
  shows "get_bytes (put_bytes f p data) p (length data) = data"
proof (rule nth_equalityI)
  fix i assume i: "i < length (get_bytes (put_bytes f p data) p (length data))"
  have "(p + i) div 512 < 65536" using i assms by simp
  then have u: "unat (of_nat ((p + i) div 512) :: u16) = (p + i) div 512"
    by (simp add: unat_of_nat_u16)
  have m: "512 * ((p + i) div 512) + (p + i) mod 512 = p + i" by simp
  show "get_bytes (put_bytes f p data) p (length data) ! i = data ! i"
    using i by (simp add: get_bytes_def nth_put_bytes u m)
qed simp

lemma get_put_bytes_disjoint:
  assumes "q + n \<le> 512 * 65536" "q + n \<le> p \<or> p + length data \<le> q"
  shows "get_bytes (put_bytes f p data) q n = get_bytes f q n"
proof (rule nth_equalityI)
  fix i assume i: "i < length (get_bytes (put_bytes f p data) q n)"
  have "(q + i) div 512 < 65536" using i assms by simp
  then have u: "unat (of_nat ((q + i) div 512) :: u16) = (q + i) div 512"
    by (simp add: unat_of_nat_u16)
  have m: "512 * ((q + i) div 512) + (q + i) mod 512 = q + i" by simp
  show "get_bytes (put_bytes f p data) q n ! i = get_bytes f q n ! i"
    using i assms(2) by (auto simp: get_bytes_def nth_put_bytes u m)
qed simp


subsection \<open>A working disk\<close>

text \<open>
  What the refinement relies on: the disk is in the table with a size and a geometry, its id fits
  the byte the BIOS gets, transfers through the aligned \<open>disk_buff\<close> succeed, and transfers through a
  caller's buffer succeed or fail with the DMA boundary code without touching the disk.
\<close>

definition device_ok :: "fs_state \<Rightarrow> u16 \<Rightarrow> bool" where
  "device_ok s disk \<longleftrightarrow>
     unat disk < 256 \<and> di_size (disk_info_at s (disk_to_index s disk)) \<noteq> 0 \<and>
     \<not> no_geometry s disk \<and> sectors_ok (dsk s (ucast disk)) \<and>
     (\<forall>x n. bios_read (hw s) DiskBuf (ucast disk) x n = 0 \<and>
            bios_read (hw s) CallerBuf (ucast disk) x n \<in> {0, 0x900} \<and>
            bios_write (hw s) DiskBuf (ucast disk) x n = 0 \<and>
            bios_write (hw s) CallerBuf (ucast disk) x n \<in> {0, 0x900}) \<and>
     (\<forall>x data f. bios_torn (hw s) 0x900 (ucast disk) x data f = f)"

definition disk_of :: "fs_state \<Rightarrow> u16 \<Rightarrow> u16 \<Rightarrow> u8 list" where
  "disk_of s disk = dsk s (ucast disk)"

definition set_disk :: "fs_state \<Rightarrow> u16 \<Rightarrow> (u16 \<Rightarrow> u8 list) \<Rightarrow> fs_state" where
  "set_disk s disk f = s\<lparr>dsk := (dsk s)(ucast disk := f)\<rparr>"

lemma set_disk_simps [simp]:
  "disk_of (set_disk s disk f) disk = f"
  "set_disk (set_disk s disk f) disk g = set_disk s disk g"
  "set_disk s disk (disk_of s disk) = s"
  "disk_info (set_disk s disk f) = disk_info s" "system_disk (set_disk s disk f) = system_disk s"
  "clock (set_disk s disk f) = clock s" "hw (set_disk s disk f) = hw s"
  "disk_info_at (set_disk s disk f) i = disk_info_at s i"
  "disk_to_index (set_disk s disk f) d = disk_to_index s d"
  "no_geometry (set_disk s disk f) d = no_geometry s d"
  by (simp_all add: set_disk_def disk_of_def disk_info_at_def disk_to_index_def no_geometry_def)

lemma device_ok_set_disk [simp]:
  "device_ok s disk \<Longrightarrow> sectors_ok f \<Longrightarrow> device_ok (set_disk s disk f) disk"
  by (simp add: device_ok_def) (simp add: set_disk_def)

lemma device_ok_sectors: "device_ok s disk \<Longrightarrow> sectors_ok (disk_of s disk)"
  by (simp add: device_ok_def disk_of_def)

lemma read_one:
  "device_ok s disk \<Longrightarrow> read_disk_sector s DiskBuf disk x 1 = (0, disk_of s disk x)"
  by (simp add: device_ok_def read_disk_sector_def disk_of_def)

lemma read_many:
  assumes "device_ok s disk" "unat x + unat n \<le> 65536"
  shows "read_disk_sector s CallerBuf disk x n =
           (0, get_bytes (disk_of s disk) (512 * unat x) (512 * unat n)) \<or>
         fst (read_disk_sector s CallerBuf disk x n) = 0x900"
  using assms get_bytes_sectors [OF device_ok_sectors, of s disk x "unat n"]
  by (auto simp: device_ok_def read_disk_sector_def disk_of_def Let_def)

lemma read_each_image:
  assumes "device_ok s disk"
  shows "unat x + n \<le> 65536 \<Longrightarrow>
    read_each s disk x n = (0, get_bytes (disk_of s disk) (512 * unat x) (512 * n))"
proof (induction n arbitrary: x)
  case (Suc n)
  have h: "get_bytes (disk_of s disk) (512 * unat x) (512 * Suc n) =
      disk_of s disk x @ get_bytes (disk_of s disk) (512 * unat x + 512) (512 * n)"
    using get_bytes_add [of "disk_of s disk" "512 * unat x" 512 "512 * n"]
    by (simp add: get_bytes_sector [OF device_ok_sectors [OF assms]])
  show ?case
  proof (cases n)
    case 0
    then show ?thesis using h by (simp add: read_one [OF assms])
  next
    case (Suc m)
    then have "unat (x + 1) = unat x + 1"
      using Suc.prems by (intro unat_plus1_u16) simp
    then show ?thesis
      using Suc.prems Suc.IH [of "x + 1"] h by (simp add: read_one [OF assms] add.commute)
  qed
qed simp

lemma read_body_image:
  assumes "device_ok s disk" "unat x + unat n \<le> 65536"
  shows "read_body s disk x n = (0, get_bytes (disk_of s disk) (512 * unat x) (512 * unat n))"
  using read_many [OF assms] read_each_image [OF assms(1), of x "unat n"] assms(2)
  by (auto simp: read_body_def split: prod.splits)

text \<open>The first sector of a transfer, and how the length splits into the three stages.\<close>

lemma start_sector_image:
  "512 * unat block + unat offset < 512 * 65536 \<Longrightarrow>
   unat (start_sector block offset) = unat block + unat offset div 512"
  by (simp add: start_sector_def unat_plus_u16 unat_div)

lemma unat_min16: "unat (min16 a b) = min (unat a) (unat b)"
  by (simp add: min16_def word_less_nat_alt)

lemma head_len_image:
  "unat (head_len (offset mod SECTOR_SIZE) n) =
   (if unat offset mod 512 = 0 then 0 else min (512 - unat offset mod 512) (unat n))"
proof -
  have m: "unat (offset mod 512) = unat offset mod 512" by (simp add: unat_mod)
  then have z: "offset mod 512 = 0 \<longleftrightarrow> unat offset mod 512 = 0"
    by (metis unat_eq_0)
  have "unat (512 - offset mod 512 :: u16) = 512 - unat offset mod 512"
    using m by (simp add: unat_sub word_le_nat_alt)
  with z show ?thesis by (simp add: head_len_def unat_min16)
qed


text \<open>
  The numbers of a transfer that starts \<open>off\<close> bytes into a sector: \<open>i\<close> bytes of head, \<open>n\<close> whole
  sectors from \<open>x\<close> on, and the rest.
\<close>

lemma transfer_split:
  fixes block offset sz :: u16
  assumes fit: "512 * unat block + unat offset + unat sz \<le> 512 * 65536" and pos: "0 < unat sz"
  defines "p \<equiv> 512 * unat block + unat offset"
    and "off \<equiv> offset mod SECTOR_SIZE" and "i \<equiv> head_len (offset mod SECTOR_SIZE) sz"
    and "x \<equiv> (if offset mod SECTOR_SIZE \<noteq> 0 then start_sector block offset + 1
                else start_sector block offset)"
    and "n \<equiv> (sz - head_len (offset mod SECTOR_SIZE) sz) div SECTOR_SIZE"
  shows "p = 512 * unat (start_sector block offset) + unat off" "unat off < 512"
    "unat i \<le> unat sz" "unat off + unat i \<le> 512"
    "unat (sz - i) = unat sz - unat i" "unat n = (unat sz - unat i) div 512"
    "unat (sz - i - SECTOR_SIZE * n) = (unat sz - unat i) mod 512"
    "unat i < unat sz \<Longrightarrow> 512 * unat x = p + unat i \<and> unat x + unat n \<le> 65536"
    "unat i + 512 * unat n < unat sz \<Longrightarrow> 512 * unat (x + n) = p + unat i + 512 * unat n"
    "off = 0 \<Longrightarrow> i = 0"
proof -
  let ?o = "unat offset mod 512"
  have ss: "unat (start_sector block offset) = unat block + unat offset div 512"
    using fit pos by (intro start_sector_image) simp
  have uo: "unat off = ?o" by (simp add: off_def unat_mod)
  show "unat off < 512" by (simp add: uo)
  show p: "p = 512 * unat (start_sector block offset) + unat off"
    by (simp add: p_def ss uo algebra_simps)
  have ui: "unat i = (if ?o = 0 then 0 else min (512 - ?o) (unat sz))"
    unfolding i_def by (rule head_len_image)
  show isz: "unat i \<le> unat sz" by (simp add: ui)
  show "unat off + unat i \<le> 512" by (auto simp: ui uo min_def)
  show len: "unat (sz - i) = unat sz - unat i" using isz by (simp add: unat_sub word_le_nat_alt)
  show n: "unat n = (unat sz - unat i) div 512" unfolding n_def i_def [symmetric]
    by (simp add: unat_div len)
  have "unat (SECTOR_SIZE * n) = 512 * unat n"
    using n unat_u16_lt [of sz] by (simp add: unat_word_ariths)
  then show r: "unat (sz - i - SECTOR_SIZE * n) = (unat sz - unat i) mod 512"
    using n len by (simp add: unat_sub word_le_nat_alt modulo_nat_def mult.commute)
  have z: "offset mod SECTOR_SIZE = 0 \<longleftrightarrow> ?o = 0"
    using uo unfolding off_def by (metis unat_eq_0)
  show "off = 0 \<Longrightarrow> i = 0" by (simp add: i_def off_def head_len_def)
  show x: "512 * unat x = p + unat i \<and> unat x + unat n \<le> 65536" if "unat i < unat sz"
  proof (cases "?o = 0")
    case True
    then show ?thesis using fit ui z n p uo ss by (simp add: x_def p_def)
  next
    case False
    then have i: "unat i = 512 - ?o" using ui that by (auto simp: min_def split: if_splits)
    have "512 * unat (start_sector block offset) + 512 < 512 * 65536"
      using fit that i p uo False unfolding p_def by simp
    then have "unat (start_sector block offset + 1) = unat (start_sector block offset) + 1"
      by (intro unat_plus1_u16) simp
    then show ?thesis using fit z n p uo i False that
      by (simp add: x_def p_def) linarith
  qed
  show "512 * unat (x + n) = p + unat i + 512 * unat n" if "unat i + 512 * unat n < unat sz"
  proof -
    have "unat x + unat n < 65536" using x that fit unfolding p_def by simp
    then show ?thesis using x that by (simp add: unat_plus_u16)
  qed
qed


lemma read_disk_ok:
  assumes ok: "device_ok s disk" and pos: "0 < unat sz"
    and fit: "512 * unat block + unat offset + unat sz \<le> 512 * 65536"
  shows "read_disk s disk block offset sz =
    Inr (get_bytes (disk_of s disk) (512 * unat block + unat offset) (unat sz))"
proof -
  note T = transfer_split [OF fit pos]
  let ?p = "512 * unat block + unat offset" and ?off = "offset mod SECTOR_SIZE"
  let ?i = "head_len ?off sz" and ?s = "start_sector block offset"
  let ?x = "if ?off \<noteq> 0 then ?s + 1 else ?s" and ?n = "(sz - ?i) div SECTOR_SIZE"
  let ?f = "disk_of s disk"
  have size: "di_size (disk_info_at s (disk_to_index s disk)) \<noteq> 0"
    using ok by (simp add: device_ok_def)
  have head: "read_head s disk ?s ?off ?i = (0, get_bytes ?f ?p (unat ?i))"
  proof (cases "?off = 0")
    case True
    then show ?thesis using T(10) by (simp add: read_head_def)
  next
    case False
    have "take (unat ?i) (drop (unat ?off) (?f ?s)) = get_bytes ?f ?p (unat ?i)"
      using T(1,4) take_drop_get_bytes [of "unat ?off" "unat ?i" 512 ?f "512 * unat ?s"]
      by (simp add: get_bytes_sector [OF device_ok_sectors [OF ok]])
    with False show ?thesis by (simp add: read_head_def read_one [OF ok])
  qed
  have body: "(if ?n \<noteq> 0 \<and> (0::u16) = 0 then read_body s disk ?x ?n else (0, [])) =
      (0, get_bytes ?f (?p + unat ?i) (512 * unat ?n))"
  proof (cases "?n = 0")
    case False
    then have "unat ?i < unat sz" using T(6) by (cases "unat sz \<le> unat ?i") (simp_all add: unat_eq_0 [symmetric])
    then show ?thesis using False T(8) read_body_image [OF ok, of ?x ?n] by simp
  qed simp
  have tail: "(if sz - ?i - SECTOR_SIZE * ?n \<noteq> 0 \<and> (0::u16) = 0
       then read_tail s disk (?x + ?n) (sz - ?i - SECTOR_SIZE * ?n) else (0, [])) =
      (0, get_bytes ?f (?p + unat ?i + 512 * unat ?n) ((unat sz - unat ?i) mod 512))"
  proof (cases "sz - ?i - SECTOR_SIZE * ?n = 0")
    case True
    then show ?thesis using T(7) by simp
  next
    case False
    then have r: "0 < (unat sz - unat ?i) mod 512" using T(7) by (metis unat_gt_0)
    then have "unat ?i + 512 * unat ?n < unat sz"
      using T(3,6) mult_div_mod_eq [of 512 "unat sz - unat ?i"] by linarith
    then have x: "?p + unat ?i + 512 * unat ?n = 512 * unat (?x + ?n)" using T(9) by simp
    have "take (unat (sz - ?i - SECTOR_SIZE * ?n)) (?f (?x + ?n)) =
        get_bytes ?f (?p + unat ?i + 512 * unat ?n) ((unat sz - unat ?i) mod 512)"
      using take_get_bytes [of "(unat sz - unat ?i) mod 512" 512 ?f "512 * unat (?x + ?n)"] T(7)
      by (simp only: x get_bytes_sector [OF device_ok_sectors [OF ok]])
    with False show ?thesis by (simp add: read_tail_def read_one [OF ok])
  qed
  have "get_bytes ?f ?p (unat ?i) @ get_bytes ?f (?p + unat ?i) (512 * unat ?n) @
      get_bytes ?f (?p + unat ?i + 512 * unat ?n) ((unat sz - unat ?i) mod 512) =
      get_bytes ?f ?p (unat sz)"
    using T(3,6) by (simp only: get_bytes_add [symmetric] append_assoc [symmetric] add.assoc [symmetric])
       (simp add: add.assoc)
  with size head body tail show ?thesis
    by (simp only: read_disk_def Let_def if_False prod.case not_True_eq_False simp_thms)
qed


subsection \<open>write_disk as an update of the image\<close>

lemma put_sectors_image:
  assumes "sectors_ok f" "length data = 512 * unat n" "unat x + unat n \<le> 65536"
  shows "put_sectors f x n data = put_bytes f (512 * unat x) data"
proof (rule ext, rule nth_equalityI)
  fix y
  have in_range: "y - x < n \<longleftrightarrow> unat x \<le> unat y \<and> unat y < unat x + unat n"
  proof (cases "unat x \<le> unat y")
    case True
    then show ?thesis by (auto simp: word_less_nat_alt unat_sub word_le_nat_alt)
  next
    case False
    then have "unat (y - x) = 65536 + unat y - unat x"
      using unat_u16_lt [of y] by (simp add: unat_sub_if_size word_size)
    then show ?thesis using False assms(3) by (simp add: word_less_nat_alt)
  qed
  have "512 * unat (y - x) + 512 \<le> length data" if "y - x < n"
    using that assms(2) by (simp add: word_less_nat_alt)
  then show len: "length (put_sectors f x n data y) = length (put_bytes f (512 * unat x) data y)"
    using assms(1) by (auto simp: put_sectors_def sectors_ok_def min_def)
  fix j assume "j < length (put_sectors f x n data y)"
  then have j: "j < 512" using len by simp
  show "put_sectors f x n data y ! j = put_bytes f (512 * unat x) data y ! j"
  proof (cases "y - x < n")
    case True
    then have u: "unat (y - x) = unat y - unat x" using in_range by (simp add: unat_sub word_le_nat_alt)
    have "512 * unat (y - x) + j < length data"
      using True j assms(2) by (simp add: word_less_nat_alt)
    moreover have "512 * unat x \<le> 512 * unat y" using True in_range by simp
    ultimately have "512 * unat y + j < 512 * unat x + length data" using u by simp
    then show ?thesis
      using True in_range j u by (simp add: put_sectors_def nth_put_bytes diff_mult_distrib2)
  next
    case False
    then have "\<not> (512 * unat x \<le> 512 * unat y + j \<and> 512 * unat y + j < 512 * unat x + length data)"
      using in_range j assms(2) by auto
    then show ?thesis using False j by (auto simp: put_sectors_def nth_put_bytes)
  qed
qed

lemma put_sector_image:
  assumes "sectors_ok f" "length data = 512"
  shows "put_sectors f x 1 data = put_bytes f (512 * unat x) data"
  using put_sectors_image [of f data 1 x] assms unat_u16_lt [of x] by simp

lemma splice_image:
  assumes "sectors_ok f" "off + length data \<le> 512"
  shows "put_bytes f (512 * unat x) (splice off data (f x)) = put_bytes f (512 * unat x + off) data"
proof (rule ext, rule nth_equalityI)
  fix y j assume "j < length (put_bytes f (512 * unat x) (splice off data (f x)) y)"
  then have j: "j < 512" by simp
  have len: "length (f x) = 512" using assms(1) by (simp add: sectors_ok_def)
  have eq: "512 * unat x \<le> 512 * unat y + j \<and> 512 * unat y + j < 512 * unat x + 512 \<longleftrightarrow> y = x"
    using j by (auto simp: word_unat_eq_iff)
  show "put_bytes f (512 * unat x) (splice off data (f x)) y ! j =
      put_bytes f (512 * unat x + off) data y ! j"
  proof (cases "y = x")
    case True
    then show ?thesis using assms(2) len j
      by (auto simp: nth_put_bytes splice_def nth_append min_def)
  next
    case False
    then show ?thesis using eq assms(2) len j by (auto simp: nth_put_bytes splice_def)
  qed
qed simp

lemma length_splice: "off + length data \<le> length b \<Longrightarrow> length (splice off data b) = length b"
  by (simp add: splice_def)

lemma write_one:
  assumes "device_ok s disk" "length data = 512"
  shows "write_disk_sector s DiskBuf disk x 1 data =
    (0, set_disk s disk (put_bytes (disk_of s disk) (512 * unat x) data))"
  using assms device_ok_sectors [OF assms(1)]
  by (simp add: device_ok_def write_disk_sector_def set_disk_def disk_of_def put_sector_image Let_def)

lemma write_part_image:
  assumes "device_ok s disk" "unat off + length data \<le> 512"
  shows "write_part s disk x off data =
    (0, set_disk s disk (put_bytes (disk_of s disk) (512 * unat x + unat off) data))"
proof -
  have "length (splice (unat off) data (disk_of s disk x)) = 512"
    using assms device_ok_sectors [OF assms(1)] by (simp add: length_splice sectors_ok_def)
  then show ?thesis
    using assms device_ok_sectors [OF assms(1)]
    by (simp add: write_part_def read_one write_one splice_image)
qed

lemma write_each_image:
  "device_ok s disk \<Longrightarrow> unat x + n \<le> 65536 \<Longrightarrow> length data = 512 * n \<Longrightarrow>
   write_each s disk x n data =
     (0, set_disk s disk (put_bytes (disk_of s disk) (512 * unat x) data))"
proof (induction n arbitrary: s x data)
  case 0
  then show ?case using device_ok_sectors [OF 0(1)] by simp
next
  case (Suc n)
  let ?s = "set_disk s disk (put_bytes (disk_of s disk) (512 * unat x) (take 512 data))"
  have w: "write_disk_sector s DiskBuf disk x 1 (take 512 data) = (0, ?s)"
    using Suc.prems by (intro write_one) simp_all
  have step: "write_each s disk x (Suc n) data = write_each ?s disk (x + 1) n (drop 512 data)"
    by (simp add: w)
  show ?case
  proof (cases n)
    case 0
    then show ?thesis using Suc.prems step by simp
  next
    case (Suc m)
    then have x: "unat (x + 1) = unat x + 1" using Suc.prems by (intro unat_plus1_u16) simp
    have "512 * unat x + length (take 512 data) = 512 * unat x + 512" using Suc.prems by simp
    then have "put_bytes (put_bytes (disk_of s disk) (512 * unat x) (take 512 data))
        (512 * unat x + 512) (drop 512 data) = put_bytes (disk_of s disk) (512 * unat x) data"
      using put_bytes_append [of "disk_of s disk" "512 * unat x" "take 512 data" "drop 512 data"]
      by (simp only: append_take_drop_id)
    then show ?thesis
      using Suc.prems Suc.IH [of ?s "x + 1" "drop 512 data"] step x by (simp add: add.commute)
  qed
qed

lemma write_body_image:
  assumes "device_ok s disk" "unat x + unat n \<le> 65536" "length data = 512 * unat n"
  shows "write_body s disk x n data =
    (0, set_disk s disk (put_bytes (disk_of s disk) (512 * unat x) data))"
proof -
  have ng: "\<not> no_geometry s disk" using assms(1) by (simp add: device_ok_def)
  consider (ok) "bios_write (hw s) CallerBuf (ucast disk) x n = 0"
    | (dma) "bios_write (hw s) CallerBuf (ucast disk) x n = 0x900"
    using assms(1) by (auto simp: device_ok_def)
  then show ?thesis
  proof cases
    case ok
    then show ?thesis
      using ng put_sectors_image [OF device_ok_sectors [OF assms(1)] assms(3) assms(2)]
      by (simp add: write_body_def write_disk_sector_def set_disk_def disk_of_def Let_def)
  next
    case dma
    have "s\<lparr>dsk := (dsk s)(ucast disk := dsk s (ucast disk))\<rparr> = s" by simp
    then have "write_disk_sector s CallerBuf disk x n data = (0x900, s)"
      using dma ng assms(1) by (simp add: write_disk_sector_def device_ok_def Let_def)
    then show ?thesis using write_each_image [OF assms] by (simp add: write_body_def)
  qed
qed


lemma write_disk_ok:
  assumes ok: "device_ok s disk" and pos: "0 < unat sz" and buff: "unat sz \<le> length buff"
    and fit: "512 * unat block + unat offset + unat sz \<le> 512 * 65536"
  shows "write_disk s disk block offset sz buff =
    (0, set_disk s disk
          (put_bytes (disk_of s disk) (512 * unat block + unat offset) (take (unat sz) buff)))"
proof -
  note T = transfer_split [OF fit pos]
  let ?p = "512 * unat block + unat offset" and ?off = "offset mod SECTOR_SIZE"
  let ?i = "head_len ?off sz" and ?s = "start_sector block offset"
  let ?x = "if ?off \<noteq> 0 then ?s + 1 else ?s" and ?n = "(sz - ?i) div SECTOR_SIZE"
  let ?f = "disk_of s disk" and ?r = "unat sz - unat ?i"
  let ?a = "take (unat ?i) buff" and ?b = "take (512 * unat ?n) (drop (unat ?i) buff)"
  let ?c = "take (unat (sz - ?i - SECTOR_SIZE * ?n)) (drop (unat ?i + 512 * unat ?n) buff)"
  let ?s1 = "set_disk s disk (put_bytes ?f ?p ?a)"
  let ?s2 = "set_disk s disk (put_bytes ?f ?p (?a @ ?b))"
  have f: "sectors_ok ?f" by (rule device_ok_sectors [OF ok])
  have size: "di_size (disk_info_at s (disk_to_index s disk)) \<noteq> 0"
    using ok by (simp add: device_ok_def)
  have la: "length ?a = unat ?i" using T(3) buff by simp
  have lb: "length ?b = 512 * unat ?n" using T(3,6) buff by simp
  have total: "unat ?i + 512 * unat ?n + ?r mod 512 = unat sz" using T(3,6) by simp
  then have lc: "length ?c = ?r mod 512" using T(7) buff by simp
  have ok1: "device_ok ?s1 disk" and ok2: "device_ok ?s2 disk" using ok by simp_all
  have head: "(if ?off \<noteq> 0 then write_part s disk ?s ?off ?a else (0, s)) = (0, ?s1)"
  proof (cases "?off = 0")
    case True
    then show ?thesis using T(10) f by simp
  next
    case False
    then show ?thesis using T(1,4) la write_part_image [OF ok, of ?off ?a ?s] by simp
  qed
  have app: "put_bytes (put_bytes ?f ?p ?a) (?p + unat ?i) ?b = put_bytes ?f ?p (?a @ ?b)"
    using put_bytes_append [of ?f ?p ?a ?b] la by simp
  have body: "(if ?n \<noteq> 0 \<and> (0::u16) = 0 then write_body ?s1 disk ?x ?n ?b else (0, ?s1)) = (0, ?s2)"
  proof (cases "?n = 0")
    case False
    then have "unat ?i < unat sz"
      using T(6) by (cases "unat sz \<le> unat ?i") (simp_all add: unat_eq_0 [symmetric])
    then have x: "512 * unat ?x = ?p + unat ?i" "unat ?x + unat ?n \<le> 65536" using T(8) by simp_all
    show ?thesis using False write_body_image [OF ok1 x(2) lb]
      by (simp only: set_disk_simps x(1) app) simp
  qed (use lb f in simp)
  have tail: "(if sz - ?i - SECTOR_SIZE * ?n \<noteq> 0 \<and> (0::u16) = 0
       then write_part ?s2 disk (?x + ?n) 0 ?c else (0, ?s2)) =
      (0, set_disk s disk (put_bytes ?f ?p ((?a @ ?b) @ ?c)))"
  proof (cases "sz - ?i - SECTOR_SIZE * ?n = 0")
    case False
    then have "0 < ?r mod 512" using T(7) by (metis unat_gt_0)
    then have "unat ?i + 512 * unat ?n < unat sz"
      using T(3,6) mult_div_mod_eq [of 512 ?r] by linarith
    then have x: "512 * unat (?x + ?n) = ?p + length (?a @ ?b)" using T(9) la lb by simp
    have "unat (0::u16) + length ?c \<le> 512" using lc by simp
    from write_part_image [OF ok2 this, of "?x + ?n"] show ?thesis
      using False by (simp only: set_disk_simps x put_bytes_append unsigned_0 add_0_right) simp
  qed (use f in simp)
  have "?a @ ?b = take (unat ?i + 512 * unat ?n) buff" by (simp add: take_add)
  then have "(?a @ ?b) @ ?c = take (unat ?i + 512 * unat ?n + ?r mod 512) buff"
    by (simp only: T(7) take_add)
  with total have "(?a @ ?b) @ ?c = take (unat sz) buff" by (simp only:)
  then show ?thesis using size head body tail
    by (simp only: write_disk_def Let_def if_False prod.case not_True_eq_False simp_thms)
qed

subsection \<open>A concrete machine\<close>

text \<open>
  A machine with one floppy disk whose multi-sector transfers always hit the DMA boundary: the
  hypotheses about the hardware hold for it.
\<close>

definition no_disk :: "u16 \<Rightarrow> u8 list \<Rightarrow> diskinfo" where
  "no_disk i name = \<lparr>di_id = i, di_name = name, di_fstype = 0, di_fssize = 0, di_sectors = 0,
     di_sides = 0, di_cylinders = 0, di_size = 0, di_last_access = 0\<rparr>"

definition demo_hw :: hardware where
  "demo_hw = \<lparr>bios_read = (\<lambda>b d x n. if b = DiskBuf then 0 else 0x900),
     bios_write = (\<lambda>b d x n. if b = DiskBuf then 0 else 0x900), bios_junk = (\<lambda>d x. []),
     bios_torn = (\<lambda>r d x data f. f),
     rtc = (\<lambda>n. ([0x20, 0x25, 0x07, 0x14], [0x12, 0x30, 0x59])),
     wild_disk = no_disk 0 [], wild_ref = 0, stack_arg = 0\<rparr>"

definition demo_state :: "(u16 \<Rightarrow> u8 list) \<Rightarrow> fs_state" where
  "demo_state f = \<lparr>disk_info = [(no_disk 0 (bytes ''fd0''))\<lparr>di_sectors := 18, di_sides := 2,
       di_cylinders := 80, di_size := 1\<rparr>,
       no_disk 1 (bytes ''fd1''), no_disk 0x80 (bytes ''hd0''), no_disk 0x81 (bytes ''hd1'')],
     system_disk = 0, dsk = (\<lambda>d. f), clock = 0, hw = demo_hw\<rparr>"

lemma demo_disk_to_index [simp]: "disk_to_index (demo_state f) 0 = 0"
  by (simp add: disk_to_index_def demo_state_def no_disk_def upt_conv_Cons)

lemma demo_disk_of [simp]: "disk_of (demo_state f) d = f"
  by (simp add: disk_of_def demo_state_def)

lemma demo_device_ok [simp]: "sectors_ok f \<Longrightarrow> device_ok (demo_state f) 0"
  by (simp add: device_ok_def no_geometry_def disk_info_at_def Let_def)
    (simp add: demo_state_def demo_hw_def no_disk_def)

text \<open>
  C20: On a working disk \<open>read_disk\<close> succeeds and returns exactly the \<open>sz\<close> bytes of the flat image that
  start at byte \<open>512 * block + offset\<close>, whatever the alignment of the range and whether or not the
  multi-sector transfer hits the DMA boundary and falls back to single sectors.
\<close>

theorem read_disk_image:
  assumes ok: "device_ok s disk" and pos: "0 < unat sz"
    and fit: "512 * unat block + unat offset + unat sz \<le> 512 * 65536"
  shows "read_disk s disk block offset sz =
    Inr (get_bytes (disk_of s disk) (512 * unat block + unat offset) (unat sz))"
  using assms by (rule read_disk_ok)

theorem read_disk_image_witness:
  "read_disk (demo_state (\<lambda>x. replicate 512 (ucast x))) 0 3 10 1500 =
    Inr (get_bytes (\<lambda>x. replicate 512 (ucast x)) 1546 1500)"
  using read_disk_image [of "demo_state (\<lambda>x. replicate 512 (ucast x))" 0 1500 3 10]
  by (simp add: sectors_ok_def)

text \<open>
  C21: On a working disk \<open>write_disk\<close> succeeds and its effect is to replace exactly the \<open>sz\<close> bytes from
  byte \<open>512 * block + offset\<close> of the flat image; every other byte of the disk, every other disk and the
  rest of the state are unchanged, also when the transfer falls back to single sectors.
\<close>

theorem write_disk_image:
  assumes ok: "device_ok s disk" and pos: "0 < unat sz" and buff: "unat sz \<le> length buff"
    and fit: "512 * unat block + unat offset + unat sz \<le> 512 * 65536"
  shows "write_disk s disk block offset sz buff =
    (0, set_disk s disk
          (put_bytes (disk_of s disk) (512 * unat block + unat offset) (take (unat sz) buff)))"
  using assms by (rule write_disk_ok)

theorem write_disk_image_witness:
  "write_disk (demo_state (\<lambda>x. replicate 512 (ucast x))) 0 3 10 1500 (replicate 1500 7) =
    (0, set_disk (demo_state (\<lambda>x. replicate 512 (ucast x))) 0
          (put_bytes (\<lambda>x. replicate 512 (ucast x)) 1546 (replicate 1500 7)))"
  using write_disk_image [of "demo_state (\<lambda>x. replicate 512 (ucast x))" 0 1500 "replicate 1500 7" 3 10]
  by (simp add: sectors_ok_def)

end
