(* ===== verification/Entry_Store.thy ===== *)
theory Entry_Store
  imports Prelude
begin

section \<open>The interface of a table of entries\<close>

text \<open>
  What the file system relies on when it works on a table of slots: reading a slot after writing it,
  and reading another one. The search operations scan the table from slot 0; the lemmas say what a
  search gives after a slot has been written, once for every provider of the interface.
\<close>

locale entry_store =
  fixes get :: "'s \<Rightarrow> nat \<Rightarrow> 'e"
    and put :: "'s \<Rightarrow> nat \<Rightarrow> 'e \<Rightarrow> 's"
    and valid :: "'e \<Rightarrow> bool"
    and ok :: "'s \<Rightarrow> bool"
    and limit :: nat
  assumes get_put_same: "\<lbrakk>ok s; valid e; n < limit\<rbrakk> \<Longrightarrow> get (put s n e) n = e"
    and get_put_other: "\<lbrakk>ok s; valid e; n < limit; m < limit; m \<noteq> n\<rbrakk> \<Longrightarrow> get (put s n e) m = get s m"
    and ok_put: "\<lbrakk>ok s; valid e; n < limit\<rbrakk> \<Longrightarrow> ok (put s n e)"
begin

definition first :: "('e \<Rightarrow> bool) \<Rightarrow> 's \<Rightarrow> nat \<Rightarrow> nat option" where
  "first P s k = find (\<lambda>n. P (get s n)) [0 ..< k]"

lemma first_Some_iff:
  "first P s k = Some n \<longleftrightarrow> n < k \<and> P (get s n) \<and> (\<forall>m < n. \<not> P (get s m))"
  by (simp add: first_def find_upt_Some_iff)

lemma first_None_iff: "first P s k = None \<longleftrightarrow> (\<forall>n < k. \<not> P (get s n))"
  by (simp add: first_def find_upt_None_iff)

text \<open>A search that failed finds the slot just written, when what was written matches.\<close>

lemma first_put_new:
  assumes "ok s" "valid e" "n < k" "k \<le> limit" "first P s k = None" "P e"
  shows "first P (put s n e) k = Some n"
proof -
  have "\<not> P (get (put s n e) m)" if "m < n" for m
    using assms that by (simp add: get_put_other first_None_iff)
  then show ?thesis using assms by (simp add: first_Some_iff get_put_same)
qed

text \<open>A search keeps its result when another slot is written with something that does not match.\<close>

lemma first_put_keeps:
  assumes "ok s" "valid e" "n < k" "k \<le> limit" "\<not> P e" "\<not> P (get s n)"
  shows "first P (put s n e) k = first P s k"
proof -
  have "P (get (put s n e) m) = P (get s m)" if "m < k" for m
    using assms that by (cases "m = n") (simp_all add: get_put_same get_put_other)
  then show ?thesis unfolding first_def by (intro find_cong) simp_all
qed

text \<open>Taking the first free slot twice never gives the same slot.\<close>

lemma first_advances:
  assumes "ok s" "valid e" "k \<le> limit" "first P s k = Some n" "\<not> P e"
    "first P (put s n e) k = Some m"
  shows "n < m"
proof -
  have n: "n < k" "\<forall>j < n. \<not> P (get s j)" using assms(4) by (simp_all add: first_Some_iff)
  have m: "m < k" "P (get (put s n e) m)" using assms(6) by (simp_all add: first_Some_iff)
  have "m \<noteq> n" using m n assms by (auto simp: get_put_same)
  moreover have "\<not> m < n" using m n assms by (auto simp: get_put_other)
  ultimately show ?thesis by simp
qed

text \<open>Two writes to different slots commute for every reader; a second write to a slot wins.\<close>

lemma get_put_put:
  assumes "ok s" "valid e" "valid e'" "n < limit" "m < limit"
  shows "get (put (put s n e) n e') m = get (put s n e') m"
  using assms by (cases "m = n") (simp_all add: get_put_same get_put_other ok_put)

lemma get_put_commute:
  assumes "ok s" "valid e" "valid e'" "n < limit" "n' < limit" "m < limit" "n \<noteq> n'"
  shows "get (put (put s n e) n' e') m = get (put (put s n' e') n e) m"
  using assms by (cases "m = n"; cases "m = n'") (simp_all add: get_put_same get_put_other ok_put)

end

end
