(* ===== verification/Fs_Entries.thy ===== *)
theory Fs_Entries
  imports Fs_Disk Entry_Store
begin

section \<open>The entry table: reading, writing, searching (source/fs.c)\<close>

text \<open>
  Operations that change the disk are state passing functions that can fail and, where the code has
  a loop without a bound, need not return: \<open>None\<close> is a run that does not return, \<open>Inl\<close> an error code,
  \<open>Inr\<close> a result. Operations that only read are plain functions of the state. \<open>get_entry_n\<close> returns
  the index it was given, and every caller takes an index of at least \<open>ERROR_ANY\<close> for an error, so
  that check is part of the model here. The entry table of a disk is an \<open>entry_store\<close>
  (interpretation \<open>table\<close>), and the search operations are characterised by its first match.
\<close>

type_synonym 'a fsm = "fs_state \<Rightarrow> ((u16 + 'a) \<times> fs_state) option"

definition ret :: "'a \<Rightarrow> 'a fsm" where "ret x = (\<lambda>s. Some (Inr x, s))"

definition fail :: "u16 \<Rightarrow> 'a fsm" where "fail c = (\<lambda>s. Some (Inl c, s))"

definition reads :: "(fs_state \<Rightarrow> u16 + 'a) \<Rightarrow> 'a fsm" where
  "reads f = (\<lambda>s. Some (f s, s))"

definition bindE :: "'a fsm \<Rightarrow> ('a \<Rightarrow> 'b fsm) \<Rightarrow> 'b fsm" where
  "bindE m k = (\<lambda>s. Option.bind (m s) (\<lambda>(r, s').
     case r of Inl c \<Rightarrow> Some (Inl c, s') | Inr x \<Rightarrow> k x s'))"

definition catchE :: "'a fsm \<Rightarrow> (u16 + 'a \<Rightarrow> 'b fsm) \<Rightarrow> 'b fsm" where
  "catchE m k = (\<lambda>s. Option.bind (m s) (\<lambda>(r, s'). k r s'))"

lemma bindE_mono [partial_function_mono]:
  assumes "\<And>s. mono_option (\<lambda>f. m f s)" "\<And>x s. mono_option (\<lambda>f. k f x s)"
  shows "mono_option (\<lambda>f. bindE (m f) (k f) s)"
  unfolding bindE_def
proof (rule bind_mono)
  show "mono_option (\<lambda>f. m f s)" by (rule assms)
next
  fix r
  show "mono_option (\<lambda>f. (\<lambda>(r, s'). case r of Inl c \<Rightarrow> Some (Inl c, s') | Inr x \<Rightarrow> k f x s') r)"
    using assms(2) by (cases r; cases "fst r") (auto intro!: monotoneI simp: option.leq_refl)
qed

lemma catchE_mono [partial_function_mono]:
  assumes "\<And>s. mono_option (\<lambda>f. m f s)" "\<And>x s. mono_option (\<lambda>f. k f x s)"
  shows "mono_option (\<lambda>f. catchE (m f) (k f) s)"
  unfolding catchE_def using assms
  by (intro bind_mono) (auto split: prod.splits)

lemma fsm_simps [simp]:
  "ret x s = Some (Inr x, s)" "fail c s = Some (Inl c, s)" "reads f s = Some (f s, s)"
  "m s = Some (Inl c, s') \<Longrightarrow> bindE m k s = Some (Inl c, s')"
  "m s = Some (Inr x, s') \<Longrightarrow> bindE m k s = k x s'"
  "m s = Some (r, s') \<Longrightarrow> catchE m k' s = k' r s'"
  by (simp_all add: ret_def fail_def reads_def bindE_def catchE_def)

text \<open>The result of a call that returns a \<open>uint\<close> whose large values are error codes.\<close>

definition result_code :: "u16 \<Rightarrow> u16 + u16" where
  "result_code r = (if r \<ge> ERROR_ANY then Inl r else Inr r)"

subsection \<open>Reading and writing an entry\<close>

definition entry_block :: "u16 \<Rightarrow> u32" where
  "entry_block n = 2 + (ucast n * ucast SIZEOF_ENTRY) div ucast BLOCK_SIZE"

definition entry_offset :: "u16 \<Rightarrow> u32" where
  "entry_offset n = (ucast n * ucast SIZEOF_ENTRY) mod ucast BLOCK_SIZE"

definition get_entry_n :: "fs_state \<Rightarrow> u16 \<Rightarrow> u16 \<Rightarrow> u16 + sfs_entry" where
  "get_entry_n s disk n =
     (case read_disk s disk (ucast (entry_block n)) (ucast (entry_offset n)) SIZEOF_ENTRY of
        Inl r \<Rightarrow> Inl ERROR_IO
      | Inr b \<Rightarrow> if n \<ge> ERROR_ANY then Inl n else Inr (decode_entry b))"

definition write_entry :: "sfs_entry \<Rightarrow> u16 \<Rightarrow> u16 \<Rightarrow> unit fsm" where
  "write_entry e disk n =
     (\<lambda>s. let (r, s') = write_disk s disk (ucast (entry_block n)) (ucast (entry_offset n))
                          SIZEOF_ENTRY (encode_entry e)
          in Some (if r \<noteq> 0 then Inl ERROR_IO else Inr (), s'))"

definition read_superblock :: "fs_state \<Rightarrow> u16 \<Rightarrow> u16 + sfs_superblock" where
  "read_superblock s disk =
     (case read_disk s disk 1 0 SIZEOF_SB of
        Inl r \<Rightarrow> Inl ERROR_IO | Inr b \<Rightarrow> Inr (decode_sb b))"

subsection \<open>Searching the table\<close>

text \<open>
  The scan that \<open>fs_get_entry\<close> and \<open>find_free_entry\<close> share: \<open>n\<close> counts up in 16 bits to the 32-bit
  number of entries of the superblock.
\<close>

lemma get_entry_n_index: "get_entry_n s disk n = Inr e \<Longrightarrow> n < ERROR_ANY"
  by (auto simp: get_entry_n_def split: sum.splits if_splits)

function scan_entries ::
    "fs_state \<Rightarrow> u16 \<Rightarrow> u32 \<Rightarrow> (sfs_entry \<Rightarrow> bool) \<Rightarrow> u16 \<Rightarrow> u16 + (u16 \<times> sfs_entry) option" where
  "scan_entries s disk nentries P n =
     (if ucast n < nentries
      then case get_entry_n s disk n of
             Inl c \<Rightarrow> Inl c
           | Inr e \<Rightarrow> if P e then Inr (Some (n, e)) else scan_entries s disk nentries P (n + 1)
      else Inr None)"
  by pat_completeness auto

termination
proof (relation "measure (\<lambda>(s, disk, nentries, P, n). 65536 - unat n)")
  fix s disk nentries P n e
  assume "get_entry_n s disk n = Inr e"
  then have "unat n < 65531" using get_entry_n_index by (force simp: word_less_nat_alt)
  then have "unat (n + 1) = unat n + 1" by (intro unat_plus1_u16) simp
  then show "((s, disk, nentries, P, n + 1), s, disk, nentries, P, n)
      \<in> measure (\<lambda>(s, disk, nentries, P, n). 65536 - unat n)"
    using unat_u16_lt [of n] by simp
qed simp

declare scan_entries.simps [simp del]

definition entry_used :: "sfs_entry \<Rightarrow> bool" where
  "entry_used e \<longleftrightarrow> e_flags e AND F_USED \<noteq> 0"

definition entry_is :: "sfs_entry \<Rightarrow> u8 \<Rightarrow> bool" where
  "entry_is e flag \<longleftrightarrow> e_flags e AND flag \<noteq> 0"

definition entry_matches :: "u8 list \<Rightarrow> u16 \<Rightarrow> sfs_entry \<Rightarrow> bool" where
  "entry_matches name parent e \<longleftrightarrow>
     entry_used e \<and> e_parent e = ucast parent \<and> entry_name e = name"

text \<open>The last part of \<open>fs_get_entry\<close>: the entry with a given name and parent on a given disk.\<close>

definition lookup_entry ::
    "fs_state \<Rightarrow> u8 list \<Rightarrow> u16 \<Rightarrow> u16 \<Rightarrow> u16 + (u16 \<times> sfs_entry)" where
  "lookup_entry s name parent disk =
     (case read_superblock s disk of
        Inl c \<Rightarrow> Inl c
      | Inr sb \<Rightarrow> case scan_entries s disk (sb_nentries sb) (entry_matches name parent) 0 of
                     Inl c \<Rightarrow> Inl c
                   | Inr None \<Rightarrow> Inl ERROR_NOT_FOUND
                   | Inr (Some r) \<Rightarrow> Inr r)"

definition find_free_entry :: "fs_state \<Rightarrow> u16 \<Rightarrow> u16 + u16" where
  "find_free_entry s disk =
     (case read_superblock s disk of
        Inl c \<Rightarrow> Inl c
      | Inr sb \<Rightarrow> case scan_entries s disk (sb_nentries sb) (\<lambda>e. \<not> entry_used e) 0 of
                     Inl c \<Rightarrow> Inl c
                   | Inr None \<Rightarrow> Inl ERROR_NO_SPACE
                   | Inr (Some (n, e)) \<Rightarrow> Inr n)"

definition needed_blocks :: "u16 \<Rightarrow> u16" where
  "needed_blocks sz =
     (let nblocks = sz div BLOCK_SIZE in if sz mod BLOCK_SIZE \<noteq> 0 then nblocks + 1 else nblocks)"

text \<open>Does a file entry reference a block among the references it uses?\<close>

definition references_block :: "u16 \<Rightarrow> sfs_entry \<Rightarrow> bool" where
  "references_block b e \<longleftrightarrow>
     entry_is e T_FILE \<and>
     ucast b \<in> set (take (unat (min16 (needed_blocks (ucast (e_size e))) SFS_ENTRYREFS)) (e_ref e))"

text \<open>The block search: candidate blocks in order, each checked against every entry.\<close>

definition first_data_block :: "sfs_superblock \<Rightarrow> u16" where
  "first_data_block sb =
     ucast (2 + (sb_nentries sb * ucast SIZEOF_ENTRY) div ucast BLOCK_SIZE :: u32)"

function scan_blocks :: "fs_state \<Rightarrow> u16 \<Rightarrow> u32 \<Rightarrow> u16 \<Rightarrow> u16 \<Rightarrow> u16 + u16" where
  "scan_blocks s disk nentries max_blocks b =
     (if b < max_blocks
      then case scan_entries s disk nentries (references_block b) 0 of
             Inl c \<Rightarrow> Inl c
           | Inr None \<Rightarrow> Inr b
           | Inr (Some r) \<Rightarrow> scan_blocks s disk nentries max_blocks (b + 1)
      else Inl ERROR_NO_SPACE)"
  by pat_completeness auto

termination
proof (relation "measure (\<lambda>(s, disk, nentries, max_blocks, b). 65536 - unat b)")
  fix s disk nentries max_blocks b
  assume "(b :: u16) < max_blocks"
  then have "unat b < 65535" using unat_u16_lt [of max_blocks] by (simp add: word_less_nat_alt)
  then have "unat (b + 1) = unat b + 1" by (intro unat_plus1_u16)
  then show "((s, disk, nentries, max_blocks, b + 1), s, disk, nentries, max_blocks, b)
      \<in> measure (\<lambda>(s, disk, nentries, max_blocks, b). 65536 - unat b)"
    using unat_u16_lt [of b] by simp
qed simp

declare scan_blocks.simps [simp del]

definition find_free_block :: "fs_state \<Rightarrow> u16 \<Rightarrow> u16 + u16" where
  "find_free_block s disk =
     (case read_superblock s disk of
        Inl c \<Rightarrow> Inl c
      | Inr sb \<Rightarrow>
          scan_blocks s disk (sb_nentries sb) (ucast (sb_size sb)) (first_data_block sb))"

subsection \<open>The table of a working disk\<close>

definition entry_at :: "(u16 \<Rightarrow> u8 list) \<Rightarrow> nat \<Rightarrow> sfs_entry" where
  "entry_at f n = decode_entry (f (of_nat (2 + n)))"

definition put_entry :: "(u16 \<Rightarrow> u8 list) \<Rightarrow> nat \<Rightarrow> sfs_entry \<Rightarrow> u16 \<Rightarrow> u8 list" where
  "put_entry f n e = f(of_nat (2 + n) := encode_entry e)"

definition table_limit :: nat where [simp]: "table_limit = 65531"

definition superblock_of :: "(u16 \<Rightarrow> u8 list) \<Rightarrow> sfs_superblock" where
  "superblock_of f = decode_sb (take 16 (f 1))"

definition entries_of :: "(u16 \<Rightarrow> u8 list) \<Rightarrow> nat" where
  "entries_of f = unat (sb_nentries (superblock_of f))"

lemma slot_eq_iff:
  assumes "n < table_limit" "m < table_limit"
  shows "(of_nat (2 + n) :: u16) = of_nat (2 + m) \<longleftrightarrow> n = m"
proof
  assume "(of_nat (2 + n) :: u16) = of_nat (2 + m)"
  then have "unat (of_nat (2 + n) :: u16) = unat (of_nat (2 + m) :: u16)" by (rule arg_cong)
  then show "n = m" using assms by (simp only: unat_of_nat_u16 table_limit_def)
qed simp

interpretation table: entry_store entry_at put_entry entry_shape sectors_ok table_limit
proof
  fix f e and n :: nat
  assume *: "sectors_ok f" "entry_shape e" "n < table_limit"
  show "entry_at (put_entry f n e) n = e"
    using * by (simp add: entry_at_def put_entry_def decode_encode_entry)
  show "sectors_ok (put_entry f n e)"
    using * by (simp add: sectors_ok_def put_entry_def length_encode_entry)
  fix m :: nat assume "m < table_limit" "m \<noteq> n"
  then show "entry_at (put_entry f n e) m = entry_at f m"
    using * slot_eq_iff [of m n] by (simp add: entry_at_def put_entry_def)
qed

lemma superblock_put_entry [simp]:
  assumes "n < table_limit"
  shows "put_entry f n e 1 = f 1" "superblock_of (put_entry f n e) = superblock_of f"
    "entries_of (put_entry f n e) = entries_of f"
proof -
  have "unat (of_nat (2 + n) :: u16) = 2 + n" using assms by (intro unat_of_nat_u16) simp
  moreover have "unat (1 :: u16) = 1" by simp
  ultimately have "of_nat (2 + n) \<noteq> (1 :: u16)" by (metis add_2_eq_Suc n_not_Suc_n nat.inject old.nat.distinct(1) One_nat_def)
  then show "put_entry f n e 1 = f 1" by (simp add: put_entry_def)
  then show "superblock_of (put_entry f n e) = superblock_of f"
    "entries_of (put_entry f n e) = entries_of f" by (simp_all add: superblock_of_def entries_of_def)
qed

lemma entry_at_shape: "sectors_ok f \<Longrightarrow> entry_shape (entry_at f n)"
  by (simp add: entry_at_def decode_entry_shape sectors_ok_def)

lemma entry_place:
  assumes "n < ERROR_ANY"
  shows "512 * unat (ucast (entry_block n) :: u16) + unat (ucast (entry_offset n) :: u16) =
    512 * unat (of_nat (2 + unat n) :: u16)" "unat (of_nat (2 + unat n) :: u16) = 2 + unat n"
proof -
  have n: "unat n < 65531" using assms by (simp add: word_less_nat_alt)
  then have p: "unat (ucast n * 512 :: u32) = unat n * 512"
    by (simp add: unat_word_ariths)
  then have "unat (entry_block n) = 2 + unat n"
    using n by (simp add: entry_block_def unat_word_ariths unat_div)
  then have b: "unat (ucast (entry_block n) :: u16) = 2 + unat n"
    using n by (simp add: unsigned_ucast_eq take_bit_nat_eq_self)
  have "unat (entry_offset n) = 0" using p by (simp add: entry_offset_def unat_mod)
  then have "entry_offset n = 0" by (simp add: unat_eq_0)
  moreover show "unat (of_nat (2 + unat n) :: u16) = 2 + unat n"
    using n by (intro unat_of_nat_u16) simp
  ultimately show "512 * unat (ucast (entry_block n) :: u16) + unat (ucast (entry_offset n) :: u16) =
    512 * unat (of_nat (2 + unat n) :: u16)" using b by simp
qed

lemma put_bytes_whole:
  assumes "sectors_ok f" "length data = 512" "p = 512 * unat x"
  shows "put_bytes f p data = f(x := data)"
proof (rule ext, rule nth_equalityI)
  fix y j assume "j < length (put_bytes f p data y)"
  then have "j < 512" by simp
  then show "put_bytes f p data y ! j = (f(x := data)) y ! j"
    using assms by (auto simp: nth_put_bytes word_unat_eq_iff)
qed (use assms in \<open>simp add: sectors_ok_def\<close>)

lemma get_entry_n_ok:
  assumes "device_ok s disk" "n < ERROR_ANY"
  shows "get_entry_n s disk n = Inr (entry_at (disk_of s disk) (unat n))"
proof -
  let ?x = "of_nat (2 + unat n) :: u16"
  let ?b = "ucast (entry_block n) :: u16" and ?o = "ucast (entry_offset n) :: u16"
  have "unat n < 65531" using assms(2) by (simp add: word_less_nat_alt)
  then have "512 * unat ?b + unat ?o + 512 \<le> 512 * 65536"
    by (simp only: entry_place [OF assms(2)]) simp
  then have "read_disk s disk ?b ?o SIZEOF_ENTRY =
      Inr (get_bytes (disk_of s disk) (512 * unat ?b + unat ?o) 512)"
    using read_disk_ok [OF assms(1), of SIZEOF_ENTRY ?b ?o] by simp
  also have "get_bytes (disk_of s disk) (512 * unat ?b + unat ?o) 512 = disk_of s disk ?x"
    by (rule get_bytes_sector [OF device_ok_sectors [OF assms(1)] entry_place(1) [OF assms(2)]])
  finally show ?thesis using assms(2) by (simp add: get_entry_n_def entry_at_def not_le)
qed

lemma write_entry_ok:
  assumes "device_ok s disk" "n < ERROR_ANY" "entry_shape e"
  shows "write_entry e disk n s =
    Some (Inr (), set_disk s disk (put_entry (disk_of s disk) (unat n) e))"
proof -
  let ?x = "of_nat (2 + unat n) :: u16"
  let ?b = "ucast (entry_block n) :: u16" and ?o = "ucast (entry_offset n) :: u16"
  have len: "length (encode_entry e) = 512" by (rule length_encode_entry [OF assms(3)])
  have "unat n < 65531" using assms(2) by (simp add: word_less_nat_alt)
  then have "512 * unat ?b + unat ?o + 512 \<le> 512 * 65536"
    by (simp only: entry_place [OF assms(2)]) simp
  then have "write_disk s disk ?b ?o SIZEOF_ENTRY (encode_entry e) =
      (0, set_disk s disk (put_bytes (disk_of s disk) (512 * unat ?b + unat ?o) (encode_entry e)))"
    using write_disk_ok [OF assms(1), of SIZEOF_ENTRY "encode_entry e" ?b ?o] len by simp
  also have "put_bytes (disk_of s disk) (512 * unat ?b + unat ?o) (encode_entry e) =
      (disk_of s disk)(?x := encode_entry e)"
    by (rule put_bytes_whole [OF device_ok_sectors [OF assms(1)] len entry_place(1) [OF assms(2)]])
  finally show ?thesis by (simp add: write_entry_def put_entry_def fun_upd_def)
qed

lemma read_superblock_ok:
  assumes "device_ok s disk"
  shows "read_superblock s disk = Inr (superblock_of (disk_of s disk))"
proof -
  have "take 16 (disk_of s disk 1) = get_bytes (disk_of s disk) 512 16"
    using take_get_bytes [of 16 512 "disk_of s disk" 512] device_ok_sectors [OF assms]
    by (simp add: get_bytes_sector [of _ _ 1])
  then show ?thesis
    using read_disk_ok [OF assms, of SIZEOF_SB 1 0] by (simp add: read_superblock_def superblock_of_def)
qed


lemma find_upt_rec:
  "find Q [m ..< k] = (if m < k then if Q m then Some m else find Q [Suc m ..< k] else None)"
  by (simp add: upt_conv_Cons)

text \<open>A scan of a working disk finds the first match from its start index on, and never fails.\<close>

lemma scan_entries_ok:
  assumes "device_ok s disk" "unat nentries \<le> table_limit"
  shows "scan_entries s disk nentries P n =
    Inr (map_option (\<lambda>k. (of_nat k, entry_at (disk_of s disk) k))
      (find (\<lambda>k. P (entry_at (disk_of s disk) k)) [unat n ..< unat nentries]))"
  using assms
proof (induction s disk nentries P n rule: scan_entries.induct)
  case (1 s disk nentries P n)
  have lt: "(ucast n :: u32) < nentries \<longleftrightarrow> unat n < unat nentries" by (simp add: word_less_nat_alt)
  show ?case
  proof (cases "unat n < unat nentries")
    case False
    then show ?thesis using lt by (subst scan_entries.simps) simp
  next
    case True
    then have n: "n < ERROR_ANY" "unat n < 65531" using 1(3) by (simp_all add: word_less_nat_alt)
    then have "unat (n + 1) = Suc (unat n)" by (simp add: unat_plus1_u16)
    moreover note get = get_entry_n_ok [OF 1(2) n(1)]
    ultimately show ?thesis
      using True lt 1(1) [OF _ get] 1(2,3)
      by (subst scan_entries.simps, subst find_upt_rec) simp
  qed
qed

text \<open>A disk with a file system: it works, and its table is within the indices the code can use.\<close>

definition mounted :: "fs_state \<Rightarrow> u16 \<Rightarrow> bool" where
  "mounted s disk \<longleftrightarrow> device_ok s disk \<and> entries_of (disk_of s disk) \<le> table_limit"

lemma mounted_device: "mounted s disk \<Longrightarrow> device_ok s disk"
  by (simp add: mounted_def)

lemma mounted_sectors: "mounted s disk \<Longrightarrow> sectors_ok (disk_of s disk)"
  by (simp add: mounted_device device_ok_sectors)

lemma mounted_put_entry:
  "mounted s disk \<Longrightarrow> entry_shape e \<Longrightarrow> n < table_limit \<Longrightarrow>
   mounted (set_disk s disk (put_entry (disk_of s disk) n e)) disk"
  by (simp add: mounted_def table.ok_put device_ok_sectors)

lemma scan_mounted:
  assumes "mounted s disk"
  shows "scan_entries s disk (sb_nentries (superblock_of (disk_of s disk))) P 0 =
    Inr (map_option (\<lambda>k. (of_nat k, entry_at (disk_of s disk) k))
      (table.first P (disk_of s disk) (entries_of (disk_of s disk))))"
  using assms by (simp add: mounted_def scan_entries_ok table.first_def entries_of_def)

lemma lookup_entry_ok:
  assumes "mounted s disk"
  shows "lookup_entry s name parent disk =
    (case table.first (entry_matches name parent) (disk_of s disk) (entries_of (disk_of s disk)) of
       None \<Rightarrow> Inl ERROR_NOT_FOUND
     | Some k \<Rightarrow> Inr (of_nat k, entry_at (disk_of s disk) k))"
  using assms
  by (simp add: lookup_entry_def read_superblock_ok mounted_device scan_mounted split: option.splits)

lemma find_free_entry_ok:
  assumes "mounted s disk"
  shows "find_free_entry s disk =
    (case table.first (\<lambda>e. \<not> entry_used e) (disk_of s disk) (entries_of (disk_of s disk)) of
       None \<Rightarrow> Inl ERROR_NO_SPACE | Some k \<Rightarrow> Inr (of_nat k))"
  using assms
  by (simp add: find_free_entry_def read_superblock_ok mounted_device scan_mounted split: option.splits)

text \<open>The blocks the entries of a disk reference.\<close>

definition block_free :: "(u16 \<Rightarrow> u8 list) \<Rightarrow> u16 \<Rightarrow> bool" where
  "block_free f b \<longleftrightarrow> (\<forall>k < entries_of f. \<not> references_block b (entry_at f k))"

lemma scan_blocks_ok:
  assumes "mounted s disk"
  shows "nentries = sb_nentries (superblock_of (disk_of s disk)) \<Longrightarrow>
    scan_blocks s disk nentries max_blocks b =
    (case find (\<lambda>k. block_free (disk_of s disk) (of_nat k)) [unat b ..< unat max_blocks] of
       None \<Rightarrow> Inl ERROR_NO_SPACE | Some k \<Rightarrow> Inr (of_nat k))"
  using assms
proof (induction s disk nentries max_blocks b rule: scan_blocks.induct)
  case (1 s disk nentries max_blocks b)
  let ?f = "disk_of s disk"
  note scan = scan_mounted [OF 1(3), of "references_block b", folded 1(2)]
  have lt: "b < max_blocks \<longleftrightarrow> unat b < unat max_blocks" by (simp add: word_less_nat_alt)
  show ?case
  proof (cases "unat b < unat max_blocks")
    case False
    then show ?thesis using lt by (subst scan_blocks.simps) simp
  next
    case True
    then have "unat (b + 1) = Suc (unat b)"
      using unat_u16_lt [of max_blocks] by (simp add: unat_plus1_u16)
    moreover have "block_free ?f b \<longleftrightarrow>
        table.first (references_block b) ?f (entries_of ?f) = None"
      by (simp add: block_free_def table.first_None_iff)
    ultimately show ?thesis
      using True lt 1(1) [OF _ scan] 1(2,3) scan
      by (subst scan_blocks.simps, subst find_upt_rec) (auto split: option.splits)
  qed
qed

lemma find_free_block_ok:
  assumes "mounted s disk"
  shows "find_free_block s disk =
    (case find (\<lambda>k. block_free (disk_of s disk) (of_nat k))
       [unat (first_data_block (superblock_of (disk_of s disk)))
        ..< unat (ucast (sb_size (superblock_of (disk_of s disk))) :: u16)] of
       None \<Rightarrow> Inl ERROR_NO_SPACE | Some k \<Rightarrow> Inr (of_nat k))"
  using assms by (simp add: find_free_block_def read_superblock_ok mounted_device scan_blocks_ok)


subsection \<open>A small file system\<close>

text \<open>
  A disk image from a superblock and a list of entries, and a small file system: the root directory
  with the file \<open>a\<close> of 600 bytes in blocks 7 and 8, two free entries, data blocks 6 to 11.
\<close>

definition image_of :: "sfs_superblock \<Rightarrow> sfs_entry list \<Rightarrow> u16 \<Rightarrow> u8 list" where
  "image_of sb es x =
     (if x = 1 then encode_sb sb @ replicate 496 0
      else if 2 \<le> x \<and> unat x - 2 < length es then encode_entry (es ! (unat x - 2))
      else replicate 512 0)"

definition mk_entry :: "u8 \<Rightarrow> string \<Rightarrow> u32 \<Rightarrow> u32 \<Rightarrow> u32 list \<Rightarrow> sfs_entry" where
  "mk_entry flags name sz parent refs =
     zero_entry\<lparr>e_flags := flags, e_name := take 15 (bytes name @ replicate 15 0), e_size := sz,
       e_parent := parent, e_ref := take 120 (refs @ replicate 120 0)\<rparr>"

definition demo_sb :: sfs_superblock where
  "demo_sb = \<lparr>sb_type = SFS_TYPE_ID, sb_size = 12, sb_nentries = 4, sb_bootstart = 6\<rparr>"

definition demo_entries :: "sfs_entry list" where
  "demo_entries = [mk_entry T_DIR ''.'' 1 0 [1], mk_entry T_FILE ''a'' 600 0 [7, 8],
     zero_entry, zero_entry]"

definition demo_fs :: fs_state where
  "demo_fs = demo_state (image_of demo_sb demo_entries)"

lemma sectors_ok_image_of [simp]: "\<forall>e \<in> set es. entry_shape e \<Longrightarrow> sectors_ok (image_of sb es)"
  by (auto simp: sectors_ok_def image_of_def length_encode_entry)

lemma superblock_image_of [simp]: "superblock_of (image_of sb es) = sb"
  using decode_encode_sb [of sb "[]"] by (simp add: superblock_of_def image_of_def)

lemma entry_at_image_of:
  assumes "\<forall>e \<in> set es. entry_shape e" "n < length es" "length es \<le> table_limit"
  shows "entry_at (image_of sb es) n = es ! n"
proof -
  have u: "unat (of_nat (2 + n) :: u16) = 2 + n" using assms by (intro unat_of_nat_u16) simp
  moreover have "unat (1 :: u16) = 1" by simp
  ultimately have "of_nat (2 + n) \<noteq> (1 :: u16)" by (metis add_2_eq_Suc nat.inject nat.distinct(1) One_nat_def)
  moreover have "2 \<le> (of_nat (2 + n) :: u16)" using u by (simp add: word_le_nat_alt)
  ultimately show ?thesis using u assms
    by (simp only: entry_at_def image_of_def if_False if_True simp_thms) (simp add: decode_encode_entry)
qed

lemma mk_entry_shape [simp]: "entry_shape (mk_entry flags name sz parent refs)"
  by (auto simp: entry_shape_def mk_entry_def zero_entry_def min_def)

lemma demo_shapes [simp]: "\<forall>e \<in> set demo_entries. entry_shape e"
  by (simp add: demo_entries_def)

lemma demo_fs_disk [simp]: "disk_of demo_fs 0 = image_of demo_sb demo_entries"
  by (simp add: demo_fs_def)

lemma demo_entry_at [simp]:
  "n < 4 \<Longrightarrow> entry_at (image_of demo_sb demo_entries) n = demo_entries ! n"
  using entry_at_image_of [OF demo_shapes, of n demo_sb] by (simp add: demo_entries_def)

lemma demo_nth [simp]:
  "demo_entries ! 0 = mk_entry T_DIR ''.'' 1 0 [1]"
  "demo_entries ! Suc 0 = mk_entry T_FILE ''a'' 600 0 [7, 8]"
  "demo_entries ! 2 = zero_entry" "demo_entries ! 3 = zero_entry"
  by (simp_all add: demo_entries_def)

lemma demo_entries_of [simp]: "entries_of (image_of demo_sb demo_entries) = 4"
  by (simp add: entries_of_def demo_sb_def)

lemma demo_sb_size [simp]: "sb_size demo_sb = 12" "sb_nentries demo_sb = 4"
  by (simp_all add: demo_sb_def)

lemma demo_mounted [simp]: "mounted demo_fs 0"
  by (simp add: mounted_def) (simp add: demo_fs_def)

lemma entry_name_terminated:
  assumes "0 \<in> set (e_name e)"
  shows "entry_name e = cstring (e_name e)"
proof -
  have "cstring (xs @ ys) = cstring xs" if "0 \<in> set xs" for xs ys :: "u8 list"
    using that by (induction xs) (auto simp: cstring_def)
  then show ?thesis using assms by (simp add: entry_name_def encode_entry_def)
qed

subsection \<open>Properties\<close>

text \<open>
  Looking up a name in a directory returns the first entry of the table that is in use, has that
  parent and that name, with its index; it fails exactly when there is none, with \<open>ERROR_NOT_FOUND\<close>.
\<close>

lemma lookup_entry_first:
  assumes "mounted s disk"
  defines "f \<equiv> disk_of s disk"
  shows "(lookup_entry s name parent disk = Inr (n, e) \<longleftrightarrow>
      unat n < entries_of f \<and> e = entry_at f (unat n) \<and> entry_matches name parent e \<and>
      (\<forall>m < unat n. \<not> entry_matches name parent (entry_at f m))) \<and>
    (lookup_entry s name parent disk = Inl c \<longleftrightarrow>
      c = ERROR_NOT_FOUND \<and> (\<forall>m < entries_of f. \<not> entry_matches name parent (entry_at f m)))"
proof -
  have lim: "entries_of f \<le> 65531" using assms by (simp add: mounted_def)
  show ?thesis
  proof (cases "table.first (entry_matches name parent) f (entries_of f)")
    case None
    then have "lookup_entry s name parent disk = Inl ERROR_NOT_FOUND"
      using lookup_entry_ok [OF assms(1), of name parent] by (simp add: f_def)
    then show ?thesis using None by (auto simp: table.first_None_iff)
  next
    case (Some k)
    then have k: "k < entries_of f" "entry_matches name parent (entry_at f k)"
      "\<forall>m < k. \<not> entry_matches name parent (entry_at f m)"
      by (simp_all add: table.first_Some_iff)
    have u: "unat (of_nat k :: u16) = k" using k(1) lim by (intro unat_of_nat_u16) simp
    have uniq: "unat n = k" if "entry_matches name parent (entry_at f (unat n))"
      "\<forall>m < unat n. \<not> entry_matches name parent (entry_at f m)"
      using that k by (metis nat_neq_iff)
    have n: "n = of_nat k \<longleftrightarrow> unat n = k" using u by (auto simp: word_unat_eq_iff)
    have "lookup_entry s name parent disk = Inr (of_nat k, entry_at f k)"
      using lookup_entry_ok [OF assms(1), of name parent] Some by (simp add: f_def)
    then show ?thesis using k n uniq by auto
  qed
qed


text \<open>
  A free entry search returns the lowest index below the number of entries of the superblock whose
  entry is not in use, and \<open>ERROR_NO_SPACE\<close> exactly when every entry is in use.
\<close>

lemma find_free_entry_first:
  assumes "mounted s disk"
  defines "f \<equiv> disk_of s disk"
  shows "(find_free_entry s disk = Inr n \<longleftrightarrow>
      unat n < entries_of f \<and> \<not> entry_used (entry_at f (unat n)) \<and>
      (\<forall>m < unat n. entry_used (entry_at f m))) \<and>
    (find_free_entry s disk = Inl c \<longleftrightarrow>
      c = ERROR_NO_SPACE \<and> (\<forall>m < entries_of f. entry_used (entry_at f m)))"
proof -
  have lim: "entries_of f \<le> 65531" using assms by (simp add: mounted_def)
  show ?thesis
  proof (cases "table.first (\<lambda>e. \<not> entry_used e) f (entries_of f)")
    case None
    then have "find_free_entry s disk = Inl ERROR_NO_SPACE"
      using find_free_entry_ok [OF assms(1)] by (simp add: f_def)
    then show ?thesis using None by (auto simp: table.first_None_iff)
  next
    case (Some k)
    then have k: "k < entries_of f" "\<not> entry_used (entry_at f k)" "\<forall>m < k. entry_used (entry_at f m)"
      by (simp_all add: table.first_Some_iff)
    have u: "unat (of_nat k :: u16) = k" using k(1) lim by (intro unat_of_nat_u16) simp
    have uniq: "unat n = k" if "\<not> entry_used (entry_at f (unat n))"
      "\<forall>m < unat n. entry_used (entry_at f m)"
      using that k by (metis nat_neq_iff)
    have n: "n = of_nat k \<longleftrightarrow> unat n = k" using u by (auto simp: word_unat_eq_iff)
    have "find_free_entry s disk = Inr (of_nat k)"
      using find_free_entry_ok [OF assms(1)] Some by (simp add: f_def)
    then show ?thesis using k n uniq by auto
  qed
qed

text \<open>
  The block allocator returns the lowest block of the data area (from the first block after the
  entry table to the size of the file system) that no file entry references among the references
  its size uses, and \<open>ERROR_NO_SPACE\<close> exactly when every data block is referenced.
\<close>

lemma find_free_block_first:
  assumes "mounted s disk"
  defines "f \<equiv> disk_of s disk"
  defines "lo \<equiv> first_data_block (superblock_of f)" and "hi \<equiv> ucast (sb_size (superblock_of f)) :: u16"
  shows "(find_free_block s disk = Inr b \<longleftrightarrow>
      lo \<le> b \<and> b < hi \<and> block_free f b \<and> (\<forall>b'. lo \<le> b' \<and> b' < b \<longrightarrow> \<not> block_free f b')) \<and>
    (find_free_block s disk = Inl c \<longleftrightarrow>
      c = ERROR_NO_SPACE \<and> (\<forall>b'. lo \<le> b' \<and> b' < hi \<longrightarrow> \<not> block_free f b'))"
proof -
  let ?P = "\<lambda>k. block_free f (of_nat k)"
  show ?thesis
  proof (cases "find ?P [unat lo ..< unat hi]")
    case None
    then have "find_free_block s disk = Inl ERROR_NO_SPACE"
      using find_free_block_ok [OF assms(1)] by (simp add: f_def lo_def hi_def)
    moreover have "\<not> block_free f b'" if "lo \<le> b'" "b' < hi" for b'
      using None that find_None_iff [of ?P "[unat lo ..< unat hi]"]
      by (auto simp: word_le_nat_alt word_less_nat_alt)
    ultimately show ?thesis by auto
  next
    case (Some k)
    then obtain i where i: "i < unat hi - unat lo" "?P (unat lo + i)" "k = unat lo + i"
      "\<And>j. j < i \<Longrightarrow> \<not> ?P (unat lo + j)"
      by (auto simp: find_Some_iff)
    have u: "unat (of_nat k :: u16) = k"
      using i(1,3) unat_u16_lt [of hi] by (intro unat_of_nat_u16) simp
    have r: "lo \<le> of_nat k" "of_nat k < hi"
      using i(1,3) u by (simp_all add: word_le_nat_alt word_less_nat_alt)
    have before: "\<not> block_free f b'" if "lo \<le> b'" "b' < of_nat k" for b'
      using i(4) [of "unat b' - unat lo"] that i(3) u
      by (auto simp: word_le_nat_alt word_less_nat_alt)
    have "find_free_block s disk = Inr (of_nat k)"
      using find_free_block_ok [OF assms(1)] Some by (simp add: f_def lo_def hi_def)
    moreover have "b = of_nat k" if "lo \<le> b" "block_free f b"
      "\<forall>b'. lo \<le> b' \<and> b' < b \<longrightarrow> \<not> block_free f b'"
      using that before i(2,3) r by (metis less_linear)
    ultimately show ?thesis using r before i(2,3) by auto
  qed
qed

end
