(* ===== verification/Fs_Path.thy ===== *)
theory Fs_Path
  imports Fs_Entries
begin

section \<open>Names and paths (source/fs.c)\<close>

text \<open>
  Paths are C strings: lists of nonzero bytes. A position in the path that the code keeps as
  a pointer is an offset; tokens come from \<open>strtok_list\<close> of the theory \<open>Ulib_String\<close>.
  \<open>fs_get_entry\<close> and \<open>path_parse_disk_parent_name\<close> call each other in the code; the call the parser
  makes is for a token, which has no separator, so it takes the path of \<open>fs_get_entry\<close> that does not
  call the parser again, and that path is \<open>get_entry_flat\<close> (\<open>fs_get_entry_token\<close> proves it).
\<close>

subsection \<open>Names\<close>

text \<open>\<open>string_to_name\<close>: bad symbols become underscores, and at most 14 bytes are kept.\<close>

definition valid_char :: "u8 \<Rightarrow> bool" where
  "valid_char c \<longleftrightarrow>
     \<not> ((c < of_char (CHR ''0'') \<or> c > of_char (CHR ''9'')) \<and>
        (c < of_char (CHR ''A'') \<or> c > of_char (CHR ''Z'')) \<and>
        (c < of_char (CHR ''a'') \<or> c > of_char (CHR ''z'')) \<and>
        c \<noteq> of_char (CHR ''.'') \<and> c \<noteq> of_char (CHR ''-'') \<and> c \<noteq> of_char (CHR ''_'') \<and>
        c \<noteq> of_char (CHR ''('') \<and> c \<noteq> of_char (CHR '')'') \<and>
        c \<noteq> of_char (CHR ''['') \<and> c \<noteq> of_char (CHR '']''))"

definition fix_char :: "u8 \<Rightarrow> u8" where
  "fix_char c = (if valid_char c then c else of_char (CHR ''_''))"

text \<open>The loop over the string from index \<open>i\<close> on; it stops the string at \<open>SFS_NAMESIZE - 1\<close>.\<close>

primrec name_from :: "nat \<Rightarrow> u8 list \<Rightarrow> u8 list" where
  "name_from i [] = []"
| "name_from i (c # cs) =
     (if i = SFS_NAMESIZE - 1 then [] else fix_char c # name_from (Suc i) cs)"

definition string_to_name :: "u8 list \<Rightarrow> u8 list" where
  "string_to_name str = name_from 0 str"

subsection \<open>The disk of a path\<close>

definition path_get_disk :: "fs_state \<Rightarrow> u8 list \<Rightarrow> u16" where
  "path_get_disk s path =
     (let (a, tok, next) = strtok_list (take 63 path) 0 PATH_SEPARATOR
      in if tok \<noteq> [] \<and> string_is_disk s tok then string_to_disk s tok
         else ucast (system_disk s))"

subsection \<open>Lookup of a single component\<close>

text \<open>
  \<open>fs_get_entry\<close> without path components: a disk name with an unknown disk is its root directory,
  unknown parent and disk default to the root of the system disk.
\<close>

definition entry_defaults ::
    "fs_state \<Rightarrow> u8 list \<Rightarrow> u16 \<Rightarrow> u16 \<Rightarrow> u8 list \<times> u16 \<times> u16" where
  "entry_defaults s path parent disk =
     (let (path, disk) = (if disk = UNKNOWN_VALUE \<and> string_is_disk s path
                          then (ROOT_DIR_NAME, string_to_disk s path) else (path, disk));
          parent = (if parent = UNKNOWN_VALUE then 0 else parent);
          disk = (if disk = UNKNOWN_VALUE then ucast (system_disk s) else disk)
      in (path, parent, disk))"

definition get_entry_flat ::
    "fs_state \<Rightarrow> u8 list \<Rightarrow> u16 \<Rightarrow> u16 \<Rightarrow> u16 + (u16 \<times> sfs_entry)" where
  "get_entry_flat s path parent disk =
     (let (path, parent, disk) = entry_defaults s path parent disk
      in lookup_entry s path parent disk)"

subsection \<open>Paths\<close>

text \<open>
  The loop of \<open>path_parse_disk_parent_name\<close>: \<open>tokpath\<close> is the copy of the path, \<open>p\<close> where \<open>tok\<close> and
  \<open>nexttok\<close> stand, \<open>first\<close> whether the first token is still to come, \<open>name\<close> the offset of the name.
  A token is skipped when it comes first and names a disk, and is looked up as a directory when
  another one may follow; otherwise the loop ends, since \<open>tok\<close> or \<open>nexttok\<close> is at the end.
\<close>

function parse_path ::
    "fs_state \<Rightarrow> u8 list \<Rightarrow> nat \<Rightarrow> bool \<Rightarrow> nat \<Rightarrow> u16 \<Rightarrow> u16 \<Rightarrow> u16 + (nat \<times> u16 \<times> u16)" where
  "parse_path s tokpath p first name parent disk =
     (if p < length tokpath
      then let (a, tok, next) = strtok_list tokpath p PATH_SEPARATOR
        in if tok \<noteq> [] \<and> first \<and> string_is_disk s tok
           then parse_path s tokpath next False a parent (string_to_disk s tok)
           else if tok \<noteq> [] \<and> next < length tokpath
           then case get_entry_flat s tok parent disk of
                  Inl c \<Rightarrow> Inl c
                | Inr (n, e) \<Rightarrow> parse_path s tokpath next False a n disk
           else Inr (a, parent, disk)
      else Inr (name, parent, disk))"
  by pat_completeness auto

termination
  by (relation "measure (\<lambda>(s, tokpath, p, first, name, parent, disk). length tokpath - p)")
    (auto dest!: strtok_list_progress [OF sym] intro!: diff_less_mono2)

declare parse_path.simps [simp del]

definition path_parse_disk_parent_name ::
    "fs_state \<Rightarrow> u8 list \<Rightarrow> u16 + (nat \<times> u16 \<times> u16)" where
  "path_parse_disk_parent_name s path =
     parse_path s (take 63 path) 0 True 0 0 (ucast (system_disk s))"

definition fs_get_entry ::
    "fs_state \<Rightarrow> u8 list \<Rightarrow> u16 \<Rightarrow> u16 \<Rightarrow> u16 + (u16 \<times> sfs_entry)" where
  "fs_get_entry s path parent disk =
     (let (path, parent, disk) = entry_defaults s path parent disk
      in if parent = 0 \<and> PATH_SEPARATOR \<in> set path
         then case path_parse_disk_parent_name s path of
                Inl c \<Rightarrow> Inl c
              | Inr (off, parent, disk) \<Rightarrow> lookup_entry s (drop off path) parent disk
         else lookup_entry s path parent disk)"

lemma fs_get_entry_token:
  assumes "PATH_SEPARATOR \<notin> set path"
  shows "fs_get_entry s path parent disk = get_entry_flat s path parent disk"
proof -
  have "PATH_SEPARATOR \<notin> set (fst (entry_defaults s path parent disk))"
    using assms by (auto simp: entry_defaults_def)
  then show ?thesis by (auto simp: fs_get_entry_def get_entry_flat_def split: prod.splits)
qed

subsection \<open>Properties of names\<close>

lemma name_from_map: "i \<le> 14 \<Longrightarrow> name_from i str = map fix_char (take (14 - i) str)"
proof (induction str arbitrary: i)
  case (Cons c str)
  show ?case
  proof (cases "i = 14")
    case False
    then have "14 - i = Suc (14 - Suc i)" using Cons.prems by simp
    then show ?thesis using Cons False by simp
  qed simp
qed simp

lemma string_to_name_map: "string_to_name str = map fix_char (take 14 str)"
  by (simp add: string_to_name_def name_from_map)

lemma fix_char_valid: "valid_char (fix_char c)"
  by (simp add: fix_char_def) (simp add: valid_char_def)

lemma fix_char_id: "valid_char c \<Longrightarrow> fix_char c = c"
  by (simp add: fix_char_def)

lemma valid_char_nonzero: "valid_char c \<Longrightarrow> c \<noteq> 0 \<and> c \<noteq> PATH_SEPARATOR"
  by (auto simp: valid_char_def)

text \<open>
  \<open>string_to_name\<close> yields a name of at most 14 bytes, each of them an allowed symbol (so never
  a path separator or a terminator): the first 14 bytes of the string with each disallowed symbol
  replaced. A name it produced is left as it is when it is normalised again.
\<close>

lemma string_to_name_valid:
  "string_to_name str = map fix_char (take 14 str) \<and>
   length (string_to_name str) \<le> 14 \<and> list_all valid_char (string_to_name str) \<and>
   0 \<notin> set (string_to_name str) \<and> PATH_SEPARATOR \<notin> set (string_to_name str) \<and>
   string_to_name (string_to_name str) = string_to_name str"
proof -
  let ?n = "string_to_name str"
  have v: "list_all valid_char ?n"
    by (simp add: string_to_name_map list_all_iff fix_char_valid)
  have len: "length ?n \<le> 14" by (simp add: string_to_name_map)
  have "map fix_char (take 14 ?n) = ?n"
    using v len by (simp add: list_all_iff map_idI fix_char_id)
  then have "string_to_name ?n = ?n" by (simp only: string_to_name_map [of ?n])
  moreover have "0 \<notin> set ?n" "PATH_SEPARATOR \<notin> set ?n"
    using v valid_char_nonzero by (auto simp: list_all_iff)
  ultimately show ?thesis using v len string_to_name_map by blast
qed


subsection \<open>Resolution of a path\<close>

text \<open>
  A path as its components, and the directory reached by following components from \<open>parent\<close>: what
  the tokenising loop is meant to compute.
\<close>

fun join :: "u8 list list \<Rightarrow> u8 list" where
  "join [] = []"
| "join [c] = c"
| "join (c # cs) = c @ PATH_SEPARATOR # join cs"

definition component :: "u8 list \<Rightarrow> bool" where
  "component c \<longleftrightarrow> c \<noteq> [] \<and> PATH_SEPARATOR \<notin> set c"

primrec walk_dirs :: "fs_state \<Rightarrow> u16 \<Rightarrow> u16 \<Rightarrow> u8 list list \<Rightarrow> u16 + u16" where
  "walk_dirs s disk parent [] = Inr parent"
| "walk_dirs s disk parent (c # cs) =
     (case lookup_entry s c parent disk of
        Inl e \<Rightarrow> Inl e | Inr (n, e) \<Rightarrow> walk_dirs s disk n cs)"

definition resolve :: "fs_state \<Rightarrow> u16 \<Rightarrow> u8 list list \<Rightarrow> u16 + (u16 \<times> sfs_entry)" where
  "resolve s disk cs =
     (case walk_dirs s disk 0 (butlast cs) of
        Inl e \<Rightarrow> Inl e | Inr parent \<Rightarrow> lookup_entry s (last cs) parent disk)"

lemma strtok_component:
  assumes "component c" "r = [] \<or> hd r = PATH_SEPARATOR"
  shows "strtok_list (pre @ c @ r) (length pre) PATH_SEPARATOR =
    (length pre, c, if r = [] then length pre + length c else length pre + length c + 1)"
  using assms unfolding component_def by (intro strtok_token) blast+

lemma join_Cons: "cs \<noteq> [] \<Longrightarrow> join (c # cs) = c @ PATH_SEPARATOR # join cs"
  by (cases cs) simp_all

lemma join_not_Nil: "cs \<noteq> [] \<Longrightarrow> list_all component cs \<Longrightarrow> join cs \<noteq> []"
  by (cases cs rule: join.cases) (auto simp: component_def)

lemma lookup_entry_index: "lookup_entry s name parent disk = Inr (n, e) \<Longrightarrow> n < ERROR_ANY"
proof -
  have scan: "scan_entries s disk ne P m = Inr (Some (n, e)) \<Longrightarrow> n < ERROR_ANY" for ne P m
  proof (induction s disk ne P m rule: scan_entries.induct)
    case (1 s disk ne P m)
    from 1(2) show ?case
      by (subst (asm) scan_entries.simps)
        (auto simp del: ERROR_ANY_def split: if_splits sum.splits dest: get_entry_n_index intro: 1(1))
  qed
  show "lookup_entry s name parent disk = Inr (n, e) \<Longrightarrow> n < ERROR_ANY"
    by (auto simp: lookup_entry_def split: sum.splits option.splits dest: scan)
qed

lemma get_entry_flat_known:
  assumes "parent < ERROR_ANY" "disk \<noteq> UNKNOWN_VALUE"
  shows "get_entry_flat s c parent disk = lookup_entry s c parent disk"
proof -
  have "parent \<noteq> UNKNOWN_VALUE" using assms(1) by (auto simp: word_less_nat_alt)
  with assms(2) show ?thesis by (simp add: get_entry_flat_def entry_defaults_def)
qed

lemma parse_path_join:
  assumes "cs \<noteq> []" "list_all component cs" "parent < ERROR_ANY" "disk \<noteq> UNKNOWN_VALUE"
    "first \<longrightarrow> \<not> string_is_disk s (hd cs)"
  shows "parse_path s (pre @ join cs) (length pre) first name parent disk =
    (case walk_dirs s disk parent (butlast cs) of
       Inl e \<Rightarrow> Inl e
     | Inr d \<Rightarrow> Inr (length pre + length (join cs) - length (last cs), d, disk))"
  using assms
proof (induction cs arbitrary: pre first name parent)
  case (Cons c cs)
  have c: "component c" "c \<noteq> []" using Cons.prems by (auto simp: component_def)
  show ?case
  proof (cases "cs = []")
    case True
    then show ?thesis
      using c Cons.prems(5) strtok_component [OF c(1), of "[]" pre]
      by (subst parse_path.simps) auto
  next
    case False
    let ?pre = "pre @ c @ [PATH_SEPARATOR]"
    have buf: "pre @ join (c # cs) = ?pre @ join cs" by (simp add: join_Cons [OF False])
    have next_ok: "length ?pre < length (?pre @ join cs)"
      using False Cons.prems(2) join_not_Nil [of cs] by simp
    have tok: "strtok_list (?pre @ join cs) (length pre) PATH_SEPARATOR = (length pre, c, length ?pre)"
      using strtok_component [OF c(1), of "PATH_SEPARATOR # join cs" pre] by simp
    have here: "length pre < length (?pre @ join cs)" by simp
    have nd: "\<not> (first \<and> string_is_disk s c)" using Cons.prems(5) by simp
    have step: "parse_path s (pre @ join (c # cs)) (length pre) first name parent disk =
        (case lookup_entry s c parent disk of
           Inl e \<Rightarrow> Inl e
         | Inr (n, e) \<Rightarrow> parse_path s (?pre @ join cs) (length ?pre) False (length pre) n disk)"
      using nd c(2) next_ok
      by (subst parse_path.simps, simp only: buf here tok Let_def if_True prod.case simp_thms if_False
          get_entry_flat_known [OF Cons.prems(3,4)])
    show ?thesis
    proof (cases "lookup_entry s c parent disk")
      case (Inl e)
      then show ?thesis using step False by simp
    next
      case (Inr ne)
      obtain n e where ne: "ne = (n, e)" by (cases ne)
      have n: "n < ERROR_ANY" using lookup_entry_index Inr ne by blast
      have "parse_path s (?pre @ join cs) (length ?pre) False (length pre) n disk =
          (case walk_dirs s disk n (butlast cs) of
             Inl e \<Rightarrow> Inl e
           | Inr d \<Rightarrow> Inr (length ?pre + length (join cs) - length (last cs), d, disk))"
        using False Cons.prems n by (intro Cons.IH) simp_all
      then show ?thesis using step Inr ne False by (simp add: join_Cons split: sum.splits)
    qed
  qed
qed simp


lemma parse_path_disk:
  assumes "cs \<noteq> []" "list_all component cs" "component d" "string_is_disk s d"
  shows "parse_path s (join (d # cs)) 0 True name parent disk =
    parse_path s ((d @ [PATH_SEPARATOR]) @ join cs) (length (d @ [PATH_SEPARATOR])) False 0 parent
      (string_to_disk s d)"
proof -
  have buf: "join (d # cs) = (d @ [PATH_SEPARATOR]) @ join cs" by (simp add: join_Cons [OF assms(1)])
  have tok: "strtok_list ((d @ [PATH_SEPARATOR]) @ join cs) 0 PATH_SEPARATOR =
      (0, d, length (d @ [PATH_SEPARATOR]))"
    using strtok_component [OF assms(3), of "PATH_SEPARATOR # join cs" "[]"] by simp
  have here: "0 < length ((d @ [PATH_SEPARATOR]) @ join cs)" and d: "d \<noteq> []"
    using assms(3) by (simp_all add: component_def)
  show ?thesis using d assms(4)
    by (subst parse_path.simps, simp only: buf here tok Let_def if_True prod.case simp_thms)
qed

lemma join_last: "cs \<noteq> [] \<Longrightarrow> drop (length (join cs) - length (last cs)) (join cs) = last cs"
proof (induction cs)
  case (Cons c cs)
  show ?case
  proof (cases "cs = []")
    case False
    have "length (last cs) \<le> length (join cs)"
      using False by (induction cs rule: join.induct) auto
    with Cons False show ?thesis by (simp add: join_Cons Suc_diff_le)
  qed simp
qed simp

lemma join_last_le: "cs \<noteq> [] \<Longrightarrow> length (last cs) \<le> length (join cs)"
  by (induction cs rule: join.induct) auto

lemma separator_join: "list_all component cs \<Longrightarrow> PATH_SEPARATOR \<in> set (join cs) \<longleftrightarrow> 1 < length cs"
  by (induction cs rule: join.induct) (auto simp: component_def)

lemma join_not_disk:
  assumes "\<not> string_is_disk s (hd cs)" "PATH_SEPARATOR \<notin> set (join cs)" "list_all component cs" "cs \<noteq> []"
  shows "\<not> string_is_disk s (join cs)"
proof -
  have "cs = [hd cs]" using assms(2-4) by (cases cs rule: join.cases) (auto simp: join_Cons)
  then show ?thesis using assms(1) by (metis join.simps(2))
qed

text \<open>No disk name contains a separator, so a path with components is not a disk by itself.\<close>

definition disk_names_ok :: "fs_state \<Rightarrow> bool" where
  "disk_names_ok s \<longleftrightarrow> (\<forall>p. string_is_disk s p \<longrightarrow> component p)"

lemma last_dropped:
  "cs \<noteq> [] \<Longrightarrow> drop (length pre + length (join cs) - length (last cs)) (pre @ join cs) = last cs"
  using join_last [of cs] join_last_le [of cs] by (simp add: add_diff_assoc)

lemma system_disk_known: "ucast (system_disk s) \<noteq> UNKNOWN_VALUE"
proof -
  have "unat (ucast (system_disk s) :: u16) < 256" using unat_u8_lt [of "system_disk s"] by simp
  then show ?thesis by (auto dest: arg_cong [of _ _ unat])
qed

text \<open>Parsing a relative and an absolute path: the disk, the directory and the place of the last component.\<close>

lemma parse_relative:
  assumes "cs \<noteq> []" "list_all component cs" "\<not> string_is_disk s (hd cs)" "length (join cs) \<le> 63"
  shows "path_parse_disk_parent_name s (join cs) =
    (case walk_dirs s (ucast (system_disk s)) 0 (butlast cs) of Inl e \<Rightarrow> Inl e
     | Inr p \<Rightarrow> Inr (length (join cs) - length (last cs), p, ucast (system_disk s)))"
  using parse_path_join [OF assms(1,2) _ system_disk_known, of 0 True s "[]"] assms(3,4)
  by (simp add: path_parse_disk_parent_name_def cong: sum.case_cong)

lemma parse_absolute:
  assumes "cs \<noteq> []" "list_all component cs" "disk_names_ok s"
    "string_is_disk s d" "string_to_disk s d \<noteq> UNKNOWN_VALUE" "length (join (d # cs)) \<le> 63"
  shows "path_parse_disk_parent_name s (join (d # cs)) =
    (case walk_dirs s (string_to_disk s d) 0 (butlast cs) of Inl e \<Rightarrow> Inl e
     | Inr p \<Rightarrow> Inr (length (d @ [PATH_SEPARATOR]) + length (join cs) - length (last cs), p, string_to_disk s d))"
proof -
  have d: "component d" using assms(3,4) by (simp add: disk_names_ok_def)
  show ?thesis
    using parse_path_join [OF assms(1,2) _ assms(5), of 0 False s "d @ [PATH_SEPARATOR]" 0]
      parse_path_disk [OF assms(1,2) d assms(4), of 0 0 "ucast (system_disk s)"] assms(6)
    by (simp only: path_parse_disk_parent_name_def take_all) simp
qed

lemma fs_get_entry_relative:
  assumes "cs \<noteq> []" "list_all component cs" "\<not> string_is_disk s (hd cs)" "disk_names_ok s"
    "length (join cs) \<le> 63"
  shows "fs_get_entry s (join cs) UNKNOWN_VALUE UNKNOWN_VALUE = resolve s (ucast (system_disk s)) cs"
proof (cases "PATH_SEPARATOR \<in> set (join cs)")
  case True
  let ?sys = "ucast (system_disk s) :: u16"
  have nd: "\<not> string_is_disk s (join cs)" using assms(4) True by (auto simp: disk_names_ok_def component_def)
  then have defaults: "entry_defaults s (join cs) UNKNOWN_VALUE UNKNOWN_VALUE = (join cs, 0, ?sys)"
    by (simp add: entry_defaults_def)
  note parse = parse_relative [OF assms(1,2,3,5)]
  show ?thesis using True last_dropped [OF assms(1), of "[]"]
    by (simp add: fs_get_entry_def defaults parse resolve_def del: UNKNOWN_VALUE_def split: sum.splits)
next
  case False
  have nd: "\<not> string_is_disk s (join cs)" using join_not_disk [OF assms(3) False assms(2,1)] .
  obtain c where c: "cs = [c]" using False separator_join [OF assms(2)] assms(1)
    by (cases cs rule: join.cases) auto
  show ?thesis using nd False c
    by (simp add: fs_get_entry_def entry_defaults_def resolve_def)
qed

lemma fs_get_entry_absolute:
  assumes "cs \<noteq> []" "list_all component cs" "disk_names_ok s"
    "string_is_disk s d" "string_to_disk s d \<noteq> UNKNOWN_VALUE" "length (join (d # cs)) \<le> 63"
  shows "fs_get_entry s (join (d # cs)) UNKNOWN_VALUE UNKNOWN_VALUE = resolve s (string_to_disk s d) cs"
proof -
  have d: "component d" using assms(3,4) by (simp add: disk_names_ok_def)
  have dj: "\<not> string_is_disk s (join (d # cs))"
    using assms(1,3) by (auto simp: disk_names_ok_def component_def join_Cons)
  let ?sys = "ucast (system_disk s) :: u16"
  let ?pre = "d @ [PATH_SEPARATOR]"
  note parse = parse_absolute [OF assms]
  have defaults: "entry_defaults s (join (d # cs)) UNKNOWN_VALUE UNKNOWN_VALUE = (join (d # cs), 0, ?sys)"
    using dj by (simp add: entry_defaults_def)
  have sep: "PATH_SEPARATOR \<in> set (join (d # cs))" by (simp add: join_Cons [OF assms(1)])
  have "drop (length ?pre + length (join cs) - length (last cs)) (join (d # cs)) = last cs"
    using last_dropped [OF assms(1), of ?pre] by (simp add: join_Cons [OF assms(1)])
  then show ?thesis
    using sep by (simp add: fs_get_entry_def defaults parse resolve_def del: UNKNOWN_VALUE_def split: sum.splits)
qed

lemma path_get_disk_join:
  assumes "cs \<noteq> []" "list_all component cs" "length (join cs) \<le> 63"
  shows "path_get_disk s (join cs) =
    (if string_is_disk s (hd cs) then string_to_disk s (hd cs) else ucast (system_disk s))"
proof -
  obtain c r where c: "cs = c # r" using assms(1) by (cases cs) auto
  then have comp: "component c" "c \<noteq> []" using assms(2) by (simp_all add: component_def)
  have "strtok_list (join cs) 0 PATH_SEPARATOR =
      (0, c, if r = [] then length c else length c + 1)"
    using strtok_component [OF comp(1), of "[]" "[]"]
      strtok_component [OF comp(1), of "PATH_SEPARATOR # join r" "[]"] c
    by (cases "r = []") (simp_all add: join_Cons)
  then show ?thesis using assms(3) c comp by (simp add: path_get_disk_def)
qed

text \<open>
  C22: \<open>fs_get_entry\<close> resolves paths component by component: a relative path of at most 63 bytes starts
  at the root of the system disk and follows its components through the directories they name, an
  absolute one does so on the disk of its first component, and a bare disk name is its root entry.
  An error of any step is the result.
\<close>

theorem fs_get_entry_resolves:
  assumes "cs \<noteq> []" "list_all component cs" "\<not> string_is_disk s (hd cs)" "disk_names_ok s"
    "string_is_disk s d" "string_to_disk s d \<noteq> UNKNOWN_VALUE" "length (join (d # cs)) \<le> 63"
  shows "fs_get_entry s (join cs) UNKNOWN_VALUE UNKNOWN_VALUE = resolve s (ucast (system_disk s)) cs \<and>
    fs_get_entry s (join (d # cs)) UNKNOWN_VALUE UNKNOWN_VALUE = resolve s (string_to_disk s d) cs \<and>
    fs_get_entry s d UNKNOWN_VALUE UNKNOWN_VALUE = resolve s (string_to_disk s d) [ROOT_DIR_NAME]"
proof (intro conjI)
  have "length (join cs) \<le> 63" using assms(7) by (simp add: join_Cons [OF assms(1)])
  then show "fs_get_entry s (join cs) UNKNOWN_VALUE UNKNOWN_VALUE = resolve s (ucast (system_disk s)) cs"
    by (rule fs_get_entry_relative [OF assms(1-4)])
  show "fs_get_entry s (join (d # cs)) UNKNOWN_VALUE UNKNOWN_VALUE = resolve s (string_to_disk s d) cs"
    by (rule fs_get_entry_absolute [OF assms(1,2,4-7)])
  show "fs_get_entry s d UNKNOWN_VALUE UNKNOWN_VALUE = resolve s (string_to_disk s d) [ROOT_DIR_NAME]"
    using assms(4-6) by (simp add: disk_names_ok_def component_def fs_get_entry_def entry_defaults_def resolve_def)
qed


lemma demo_index_to_disk [simp]:
  "index_to_disk (demo_state f) 0 = 0" "index_to_disk (demo_state f) 1 = 1"
  "index_to_disk (demo_state f) 2 = 0x80" "index_to_disk (demo_state f) 3 = 0x81"
  by (simp_all add: index_to_disk_def demo_state_def no_disk_def)

lemma range4: "[0 ..< 4 :: nat] = [0, 1, 2, 3]"
  by (simp add: upt_conv_Cons)

lemma demo_string_is_disk:
  "string_is_disk (demo_state f) p \<longleftrightarrow>
     p = bytes ''fd0'' \<or> p = bytes ''fd1'' \<or> p = bytes ''hd0'' \<or> p = bytes ''hd1''"
  unfolding string_is_disk_def MAX_DISK_def range4
  by (simp del: bytes_simps) (simp add: disk_to_string_def range4 demo_state_def no_disk_def)

theorem fs_get_entry_resolves_witness:
  "fs_get_entry demo_fs (bytes ''a'') UNKNOWN_VALUE UNKNOWN_VALUE = resolve demo_fs 0 [bytes ''a''] \<and>
   fs_get_entry demo_fs (bytes ''fd0/a'') UNKNOWN_VALUE UNKNOWN_VALUE = resolve demo_fs 0 [bytes ''a''] \<and>
   fs_get_entry demo_fs (bytes ''fd0'') UNKNOWN_VALUE UNKNOWN_VALUE = resolve demo_fs 0 [bytes ''.'']"
proof -
  have "string_to_disk demo_fs (bytes ''fd0'') = 0" "system_disk demo_fs = 0"
    by (simp_all add: string_to_disk_def demo_fs_def demo_state_def range4 no_disk_def)
  then show ?thesis
    using fs_get_entry_resolves [of "[bytes ''a'']" demo_fs "bytes ''fd0''"]
    by (simp add: demo_fs_def demo_string_is_disk disk_names_ok_def component_def)
qed

end
