(* ===== verification/Fs_Time.thy ===== *)
theory Fs_Time
  imports Fs_Disk
begin

section \<open>System time and file system time (source/kernel.c, source/fs.c)\<close>

text \<open>
  The clock: the BIOS gives date and time as binary coded decimal, the system keeps them as
  a \<open>time_t\<close>, the file system packs them in 32 bits (second of the month in bits 0 to 21, months since
  January 2017 in bits 22 to 31). For the dates the format can hold, packing and unpacking are
  inverse, and the packed values are ordered as the dates are.
\<close>

record time_t =
  year :: u16
  month :: u16
  day :: u16
  hour :: u16
  minute :: u16
  second :: u16

definition BCD_to_int :: "u8 \<Rightarrow> u16" where
  "BCD_to_int BCD = (let h = drop_bit 4 (ucast BCD) * 10 in h + (ucast BCD AND 0xF))"

text \<open>\<open>SYSCALL_CLK_GET_TIME\<close>: \<open>bt\<close> is hour, minute, second, \<open>bd\<close> is year, month, day.\<close>

definition clk_get_time :: "u8 list \<Rightarrow> u8 list \<Rightarrow> time_t" where
  "clk_get_time bt bd =
     \<lparr>year = BCD_to_int (bd ! 0) + 2000, month = BCD_to_int (bd ! 1), day = BCD_to_int (bd ! 2),
      hour = BCD_to_int (bt ! 0), minute = BCD_to_int (bt ! 1), second = BCD_to_int (bt ! 2)\<rparr>"

definition current_time :: "fs_state \<Rightarrow> time_t \<times> fs_state" where
  "current_time s = (let (bt, bd) = rtc (hw s) (clock s) in (clk_get_time bt bd, s\<lparr>clock := clock s + 1\<rparr>))"

definition fs_systime_to_fstime :: "time_t \<Rightarrow> u32" where
  "fs_systime_to_fstime t =
     (let ft = ucast (second t);
          ft = ft + ucast (minute t) * 60;
          ft = ft + ucast (hour t) * 60 * 60;
          ft = ft + ucast (day t - 1) * 24 * 60 * 60;
          ft = ft AND 0x3FFFFF
      in ft OR push_bit 22 (ucast (year t - 2017) * 12 + ucast (month t - 1)))"

definition fs_fstime_to_systime :: "u32 \<Rightarrow> time_t" where
  "fs_fstime_to_systime ft =
     \<lparr>year = ucast ((drop_bit 22 ft AND 0x3FF) div 12 + 2017),
      month = ucast ((drop_bit 22 ft AND 0x3FF) mod 12 + 1),
      day = ucast ((ft AND 0x3FFFFF) div 86400 + 1),
      hour = ucast (((ft AND 0x3FFFFF) div 3600) mod 24),
      minute = ucast (((ft AND 0x3FFFFF) div 60) mod 60),
      second = ucast ((ft AND 0x3FFFFF) mod 60)\<rparr>"

subsection \<open>The two fields of a packed time\<close>

definition month_index :: "time_t \<Rightarrow> nat" where
  "month_index t = (unat (year t) - 2017) * 12 + (unat (month t) - 1)"

definition month_second :: "time_t \<Rightarrow> nat" where
  "month_second t = unat (second t) + 60 * unat (minute t) + 3600 * unat (hour t) + 86400 * (unat (day t) - 1)"

definition time_ok :: "time_t \<Rightarrow> bool" where
  "time_ok t \<longleftrightarrow> 2017 \<le> year t \<and> year t \<le> 2101 \<and> 1 \<le> month t \<and> month t \<le> 12 \<and>
     1 \<le> day t \<and> day t \<le> 31 \<and> hour t < 24 \<and> minute t < 60 \<and> second t < 60"

lemma time_okD:
  assumes "time_ok t"
  shows "2017 \<le> unat (year t)" "unat (year t) \<le> 2101" "1 \<le> unat (month t)" "unat (month t) \<le> 12"
    "1 \<le> unat (day t)" "unat (day t) \<le> 31" "unat (hour t) < 24" "unat (minute t) < 60"
    "unat (second t) < 60" "month_index t < 1024" "month_second t < 2678400"
proof -
  note * = assms [unfolded time_ok_def word_le_nat_alt word_less_nat_alt]
  from * show "2017 \<le> unat (year t)" "unat (year t) \<le> 2101" "1 \<le> unat (month t)"
    "unat (month t) \<le> 12" "1 \<le> unat (day t)" "unat (day t) \<le> 31" "unat (hour t) < 24"
    "unat (minute t) < 60" "unat (second t) < 60" by simp_all
  then show "month_index t < 1024" "month_second t < 2678400"
    by (simp_all add: month_index_def month_second_def)
qed

lemma pack_fields:
  fixes a b :: u32
  assumes "a < 0x400000" "b < 0x400"
  shows "drop_bit 22 (a OR push_bit 22 b) = b" "(a OR push_bit 22 b) AND 0x3FFFFF = a"
    "b AND 0x3FF = b" "a AND 0x3FFFFF = a" "unat (a OR push_bit 22 b) = unat a + 4194304 * unat b"
proof -
  have ma: "(0x3FFFFF :: u32) = mask 22" and mb: "(0x3FF :: u32) = mask 10"
    by (simp_all add: mask_eq_exp_minus_1)
  have ta: "take_bit 22 a = a" using assms(1) less_mask_eq [of a 22] by (simp add: take_bit_eq_mask)
  have tb: "take_bit 10 b = b" using assms(2) less_mask_eq [of b 10] by (simp add: take_bit_eq_mask)
  have ba: "n < 22" if "bit a n" for n using ta that by (metis bit_take_bit_iff)
  have bb: "n < 10" if "bit b n" for n using tb that by (metis bit_take_bit_iff)
  show "drop_bit 22 (a OR push_bit 22 b) = b"
    by (rule bit_word_eqI) (auto simp: bit_simps dest: ba bb)
  show "(a OR push_bit 22 b) AND 0x3FFFFF = a"
    unfolding ma by (rule bit_word_eqI) (auto simp: bit_simps dest: ba)
  show "b AND 0x3FF = b" "a AND 0x3FFFFF = a" unfolding ma mb
    by (simp_all only: ta tb flip: take_bit_eq_mask)
  have "a AND push_bit 22 b = 0"
    by (rule bit_word_eqI) (auto simp: bit_simps dest: ba)
  then have "a OR push_bit 22 b = a + push_bit 22 b" by (rule disjunctive_add_eq_or [symmetric])
  then show "unat (a OR push_bit 22 b) = unat a + 4194304 * unat b"
    using assms by (simp add: push_bit_eq_mult unat_word_ariths word_less_nat_alt)
qed


lemma unat_fstime:
  assumes "time_ok t"
  shows "fs_systime_to_fstime t = of_nat (month_second t) OR push_bit 22 (of_nat (month_index t))"
    and "unat (of_nat (month_second t) :: u32) = month_second t"
    and "unat (of_nat (month_index t) :: u32) = month_index t"
proof -
  note ok = time_okD [OF assms]
  show s: "unat (of_nat (month_second t) :: u32) = month_second t"
    and m: "unat (of_nat (month_index t) :: u32) = month_index t"
    using ok by (simp_all add: unat_of_nat_u32)
  have d: "unat (day t - 1) = unat (day t) - 1" and mo: "unat (month t - 1) = unat (month t) - 1"
    and y: "unat (year t - 2017) = unat (year t) - 2017"
    using ok by (simp_all add: unat_sub word_le_nat_alt)
  have sec: "ucast (second t) + ucast (minute t) * 60 + ucast (hour t) * 60 * 60 +
      ucast (day t - 1) * 24 * 60 * 60 = (of_nat (month_second t) :: u32)"
    by (rule word_unat_eq_iff [THEN iffD2], subst s)
      (use ok d in \<open>simp add: unat_word_ariths month_second_def\<close>)
  have mon: "ucast (year t - 2017) * 12 + ucast (month t - 1) = (of_nat (month_index t) :: u32)"
    by (rule word_unat_eq_iff [THEN iffD2], subst m)
      (use ok y mo in \<open>simp add: unat_word_ariths month_index_def\<close>)
  have "(of_nat (month_second t) :: u32) < 0x400000" "(of_nat (month_index t) :: u32) < 0x400"
    using s m ok by (simp_all add: word_less_nat_alt)
  then show "fs_systime_to_fstime t = of_nat (month_second t) OR push_bit 22 (of_nat (month_index t))"
    unfolding fs_systime_to_fstime_def Let_def sec mon by (simp only: pack_fields)
qed

lemma clock_fields:
  fixes s m h d :: nat
  assumes "s < 60" "m < 60" "h < 24"
  defines "x \<equiv> s + 60 * m + 3600 * h + 86400 * d"
  shows "x div 86400 = d" "x div 3600 mod 24 = h" "x div 60 mod 60 = m" "x mod 60 = s"
proof -
  have x: "x = s + 60 * (m + 60 * (h + 24 * d))" by (simp add: x_def)
  have d60: "x div 60 = m + 60 * (h + 24 * d)" using assms(1) by (simp add: x)
  show "x mod 60 = s" using assms(1) by (simp only: x mod_mult_self2 mod_less)
  show "x div 60 mod 60 = m" using assms(2) by (simp only: d60 mod_mult_self2 mod_less)
  have "x div (60 * 60) = h + 24 * d" using assms(2) by (simp only: div_mult2_eq d60) simp
  then have d3600: "x div 3600 = h + 24 * d" by simp
  then show "x div 3600 mod 24 = h" using assms(3) by (simp only: mod_mult_self2 mod_less)
  have "x div (3600 * 24) = d" using assms(3) by (simp only: div_mult2_eq d3600)
  then show "x div 86400 = d" by simp
qed

lemma date_fields:
  assumes "time_ok t"
  shows "month_index t div 12 + 2017 = unat (year t)" "month_index t mod 12 + 1 = unat (month t)"
    "month_second t div 86400 + 1 = unat (day t)" "month_second t div 3600 mod 24 = unat (hour t)"
    "month_second t div 60 mod 60 = unat (minute t)" "month_second t mod 60 = unat (second t)"
proof -
  note ok = time_okD [OF assms]
  obtain m d where m: "unat (month t) = Suc m" and d: "unat (day t) = Suc d"
    using ok(3,5) by (metis Suc_le_D One_nat_def)
  have "month_index t = m + 12 * (unat (year t) - 2017)" by (simp add: month_index_def m)
  then show "month_index t div 12 + 2017 = unat (year t)" "month_index t mod 12 + 1 = unat (month t)"
    using ok(1,4) m by simp_all
  have "month_second t = unat (second t) + 60 * unat (minute t) + 3600 * unat (hour t) + 86400 * d"
    by (simp add: month_second_def d)
  then show "month_second t div 86400 + 1 = unat (day t)" "month_second t div 3600 mod 24 = unat (hour t)"
    "month_second t div 60 mod 60 = unat (minute t)" "month_second t mod 60 = unat (second t)"
    using clock_fields [OF ok(9,8,7), of d] d by (simp_all only: add_Suc_right add_0_right Suc_eq_plus1)
qed

text \<open>
  C28: For every date from 2017 to 2101 packing a time and unpacking it gives the time back, and the
  packed value is the number of the second of the month plus \<open>2 ^ 22\<close> times the number of the month,
  so a later date never gets a smaller value.
\<close>

theorem fstime_roundtrip:
  assumes "time_ok t"
  shows "fs_fstime_to_systime (fs_systime_to_fstime t) = t \<and>
    unat (fs_systime_to_fstime t) = month_second t + 4194304 * month_index t"
proof -
  note ok = time_okD [OF assms]
  note u = unat_fstime [OF assms]
  let ?a = "of_nat (month_second t) :: u32" and ?b = "of_nat (month_index t) :: u32"
  have lt: "?a < 0x400000" "?b < 0x400" using u ok by (simp_all add: word_less_nat_alt)
  note packed = pack_fields [OF lt]
  have conv: "ucast w = x" if "unat w = unat x" for w :: u32 and x :: u16
    using that unat_u16_lt [of x]
    by (simp add: word_unat_eq_iff unsigned_ucast_eq take_bit_nat_eq_self)
  note f = date_fields [OF assms]
  have "unat (?b div 12 + 2017) = unat (year t)" "unat (?b mod 12 + 1) = unat (month t)"
    "unat (?a div 86400 + 1) = unat (day t)" "unat ((?a div 3600) mod 24) = unat (hour t)"
    "unat ((?a div 60) mod 60) = unat (minute t)" "unat (?a mod 60) = unat (second t)"
    using u(2,3) f ok(2,4,6) by (simp_all add: unat_plus_u32 unat_div unat_mod)
  then have "ucast (?b div 12 + 2017) = year t" "ucast (?b mod 12 + 1) = month t"
    "ucast (?a div 86400 + 1) = day t" "ucast ((?a div 3600) mod 24) = hour t"
    "ucast ((?a div 60) mod 60) = minute t" "ucast (?a mod 60) = second t"
    by (auto intro: conv)
  then show ?thesis
    unfolding fs_fstime_to_systime_def u(1) packed by (simp add: packed(5) u(2,3))
qed

theorem fstime_roundtrip_witness:
  "fs_fstime_to_systime (fs_systime_to_fstime \<lparr>year = 2025, month = 7, day = 31, hour = 23,
     minute = 59, second = 58\<rparr>) =
   \<lparr>year = 2025, month = 7, day = 31, hour = 23, minute = 59, second = 58\<rparr>"
  using fstime_roundtrip [of "\<lparr>year = 2025, month = 7, day = 31, hour = 23, minute = 59, second = 58\<rparr>"]
  by (simp add: time_ok_def)

lemma BCD_to_int_digits:
  assumes "h < 10" "l < 10"
  shows "BCD_to_int (of_nat (16 * h + l)) = of_nat (10 * h + l)"
proof -
  let ?x = "ucast (of_nat (16 * h + l) :: u8) :: u16"
  have x: "unat ?x = 16 * h + l" using assms by (simp del: of_nat_add of_nat_mult add: unat_of_nat)
  have "unat (drop_bit 4 ?x) = h" using x assms by (simp add: drop_bit_eq_div unat_div)
  moreover have "(0xF :: u16) = mask 4" by (simp add: mask_eq_exp_minus_1)
  then have "unat (?x AND 0xF) = l"
    using x assms by (simp only: flip: take_bit_eq_mask) (simp add: take_bit_eq_mod unat_mod)
  ultimately have "unat (drop_bit 4 ?x * 10 + (?x AND 0xF)) = 10 * h + l"
    using assms by (simp add: unat_word_ariths)
  then show ?thesis
    using assms
    by (simp del: of_nat_add of_nat_mult add: BCD_to_int_def Let_def word_unat_eq_iff unat_of_nat_u16)
qed

end
