(* ===== verification/Fs_Chain.thy ===== *)
theory Fs_Chain
  imports Fs_Path Fs_Time
begin

section \<open>Chained entries and references (source/fs.c)\<close>

text \<open>
  When an entry needs more than 120 references, further entries are chained to it by \<open>next\<close>. This
  theory models the operations that walk, grow, shrink and delete chains and that add or remove
  a reference, each with the order of its disk writes and its early returns. A chain comes from the
  disk and may be cyclic, so the walks that follow \<open>next\<close> until it is 0 need not return; they are
  partial functions into \<open>fsm\<close>. The number of steps of the other loops is fixed by their arguments.
\<close>

subsection \<open>Times and sizes along a chain\<close>

partial_function (option) set_time_chain ::
    "u32 \<Rightarrow> u16 \<Rightarrow> u16 \<Rightarrow> fs_state \<Rightarrow> ((u16 + unit) \<times> fs_state) option" where
  "set_time_chain ft disk n s =
     bindE (reads (\<lambda>s. get_entry_n s disk n)) (\<lambda>e s.
       bindE (write_entry (e\<lparr>e_time := ft\<rparr>) disk n) (\<lambda>_ s.
         let nx = ucast (e_next e)
         in if nx \<noteq> 0 then set_time_chain ft disk nx s else ret () s) s) s"

definition set_entry_time_to_current :: "u16 \<Rightarrow> u16 \<Rightarrow> unit fsm" where
  "set_entry_time_to_current disk nentry s =
     (let (t, s') = current_time s
      in set_time_chain (fs_systime_to_fstime t) disk nentry s')"

partial_function (option) set_entry_size ::
    "u16 \<Rightarrow> u16 \<Rightarrow> u16 \<Rightarrow> fs_state \<Rightarrow> ((u16 + unit) \<times> fs_state) option" where
  "set_entry_size disk n sz s =
     bindE (reads (\<lambda>s. get_entry_n s disk n)) (\<lambda>e s.
       let rest = (if entry_is e T_FILE then sz - SFS_ENTRYREFS * BLOCK_SIZE
                   else if entry_is e T_DIR then sz - SFS_ENTRYREFS else sz)
       in bindE (write_entry (e\<lparr>e_size := ucast sz\<rparr>) disk n) (\<lambda>_ s.
            let nx = ucast (e_next e)
            in if nx \<noteq> 0 then set_entry_size disk nx rest s else ret () s) s) s"

subsection \<open>The number of references\<close>

text \<open>The first loop of \<open>set_entry_refcount\<close>: advance \<open>k\<close> entries, appending where the chain ends.\<close>

primrec extend_chain :: "u16 \<Rightarrow> nat \<Rightarrow> u16 \<Rightarrow> sfs_entry \<Rightarrow> (u16 \<times> sfs_entry) fsm" where
  "extend_chain disk 0 n e = ret (n, e)"
| "extend_chain disk (Suc k) n e =
     (if e_next e \<noteq> 0
      then bindE (reads (\<lambda>s. get_entry_n s disk (ucast (e_next e)))) (\<lambda>e'.
             extend_chain disk k (ucast (e_next e)) e')
      else bindE (reads (\<lambda>s. find_free_entry s disk)) (\<lambda>m.
           bindE (write_entry (e\<lparr>e_next := ucast m\<rparr>) disk n) (\<lambda>_.
           let e' = e\<lparr>e_parent := ucast n, e_next := 0, e_size := 0,
                      e_ref := replicate (unat SFS_ENTRYREFS) 0\<rparr>
           in bindE (write_entry e' disk m) (\<lambda>_. extend_chain disk k m e'))))"

partial_function (option) delete_chain ::
    "u16 \<Rightarrow> u16 \<Rightarrow> fs_state \<Rightarrow> ((u16 + unit) \<times> fs_state) option" where
  "delete_chain disk n s =
     bindE (reads (\<lambda>s. get_entry_n s disk n)) (\<lambda>e s.
       bindE (write_entry zero_entry disk n) (\<lambda>_ s.
         let nx = ucast (e_next e)
         in if nx \<noteq> 0 then delete_chain disk nx s else ret () s) s) s"

definition clear_refs :: "nat \<Rightarrow> u32 list \<Rightarrow> u32 list" where
  "clear_refs i rs = take i rs @ replicate (unat SFS_ENTRYREFS - i) 0"

definition needed_entries :: "u16 \<Rightarrow> u16" where
  "needed_entries refcount =
     (let k = refcount div SFS_ENTRYREFS in if refcount mod SFS_ENTRYREFS \<noteq> 0 then k + 1 else k)"

definition set_entry_refcount :: "u16 \<Rightarrow> u16 \<Rightarrow> u16 \<Rightarrow> unit fsm" where
  "set_entry_refcount disk nentry refcount =
     bindE (reads (\<lambda>s. get_entry_n s disk nentry)) (\<lambda>e0.
     bindE (extend_chain disk (unat (needed_entries refcount)) nentry e0) (\<lambda>(n, e1).
     let e = e1\<lparr>e_ref := clear_refs (unat (refcount mod SFS_ENTRYREFS)) (e_ref e1)\<rparr>
     in bindE (write_entry e disk n) (\<lambda>_.
        if e_next e \<noteq> 0
        then bindE (write_entry (e\<lparr>e_next := 0\<rparr>) disk n) (\<lambda>_.
             delete_chain disk (ucast (e_next e)))
        else ret ())))"

definition get_entry_refcount :: "sfs_entry \<Rightarrow> u16" where
  "get_entry_refcount e =
     (if entry_is e T_FILE then needed_blocks (ucast (e_size e))
      else if entry_is e T_DIR then ucast (e_size e) else 0)"

text \<open>
  \<open>get_nref_entry_from_entry\<close>: the chained entry for a reference index, with its index in the table.
\<close>

function get_nref_entry_from_entry ::
    "fs_state \<Rightarrow> u16 \<Rightarrow> sfs_entry \<Rightarrow> u16 \<Rightarrow> u16 \<Rightarrow> u16 + (u16 \<times> sfs_entry)" where
  "get_nref_entry_from_entry s disk e n nref =
     (let nref' = nref div SFS_ENTRYREFS
      in if nref' > 0
         then if e_next e \<noteq> 0
              then case get_entry_n s disk (ucast (e_next e)) of
                     Inl c \<Rightarrow> Inl c
                   | Inr e' \<Rightarrow> get_nref_entry_from_entry s disk e' (ucast (e_next e)) nref'
              else Inl ERROR_NOT_FOUND
         else Inr (n, e))"
  by pat_completeness auto

termination
proof (relation "measure (\<lambda>(s, disk, e, n, nref). unat nref)")
  fix nref x :: u16
  assume x: "x = nref div SFS_ENTRYREFS" "x > 0"
  then have "unat x = unat nref div 120" "0 < unat x"
    by (simp_all add: unat_div word_less_nat_alt)
  then have "unat x < unat nref" by simp
  then show "((s, disk, e', ucast (e_next e), x), s, disk, e, n, nref)
      \<in> measure (\<lambda>(s, disk, e, n, nref). unat nref)" for s disk e' e n by simp
qed simp

declare get_nref_entry_from_entry.simps [simp del]

subsection \<open>Adding and removing a reference\<close>

definition add_ref_in_entry :: "u16 \<Rightarrow> u16 \<Rightarrow> u16 \<Rightarrow> unit fsm" where
  "add_ref_in_entry disk nentry ref =
     bindE (reads (\<lambda>s. get_entry_n s disk nentry)) (\<lambda>e.
     let refcount = get_entry_refcount e
     in bindE (catchE (reads (\<lambda>s. get_nref_entry_from_entry s disk e nentry refcount)) (\<lambda>r.
          case r of
            Inr ne \<Rightarrow> ret ne
          | Inl c \<Rightarrow> if c \<noteq> ERROR_NOT_FOUND then fail c
                     else bindE (set_entry_refcount disk nentry (refcount + 1)) (\<lambda>_.
                          bindE (reads (\<lambda>s. get_entry_n s disk 0)) (\<lambda>e'. ret (0, e'))))) (\<lambda>(m, re).
        bindE (write_entry
          (re\<lparr>e_ref := (e_ref re)[unat (refcount mod SFS_ENTRYREFS) := ucast ref]\<rparr>) disk m) (\<lambda>_.
        if entry_is e T_DIR then set_entry_size disk nentry (ucast (e_size e) + 1) else ret ())))"

text \<open>
  The loop of \<open>remove_ref_in_entry\<close>: the current chained entry and its index, the entry the
  next reference is taken from, the reference position and count, whether it was found.
\<close>

definition shift_ref :: "u16 \<Rightarrow> nat \<Rightarrow> sfs_entry \<Rightarrow> bool \<Rightarrow> sfs_entry \<Rightarrow> bool \<times> sfs_entry" where
  "shift_ref ref r nxt found cur =
     (let found = (found \<or> e_ref cur ! r = ucast ref)
      in (found, if found then cur\<lparr>e_ref := (e_ref cur)[r := e_ref nxt ! ((r + 1) mod unat SFS_ENTRYREFS)]\<rparr>
                 else cur))"

partial_function (option) remove_ref_loop ::
    "u16 \<Rightarrow> u16 \<Rightarrow> u16 \<Rightarrow> u16 \<Rightarrow> u16 \<Rightarrow> sfs_entry \<Rightarrow> sfs_entry \<Rightarrow> bool \<Rightarrow> fs_state \<Rightarrow>
       ((u16 + (u16 \<times> sfs_entry \<times> u16 \<times> bool)) \<times> fs_state) option" where
  "remove_ref_loop disk ref r refcount ncur cur nxt found s =
     (if r < refcount
      then if r = SFS_ENTRYREFS
           then bindE (write_entry cur disk ncur) (\<lambda>_ s.
                bindE (reads (\<lambda>s. get_entry_n s disk (ucast (e_next cur)))) (\<lambda>cur' s.
                let (found', cur'') = shift_ref ref 0 nxt found cur'
                in remove_ref_loop disk ref 1 (get_entry_refcount cur') (ucast (e_next cur)) cur'' nxt
                     found' s) s) s
           else bindE (if r + 1 = SFS_ENTRYREFS
                       then if e_next nxt \<noteq> 0 then reads (\<lambda>s. get_entry_n s disk (ucast (e_next nxt)))
                            else ret zero_entry
                       else ret nxt) (\<lambda>nxt' s.
                let (found', cur') = shift_ref ref (unat r) nxt' found cur
                in remove_ref_loop disk ref (r + 1) refcount ncur cur' nxt' found' s) s
      else ret (ncur, cur, refcount, found) s)"

definition remove_ref_in_entry :: "u16 \<Rightarrow> u16 \<Rightarrow> u16 \<Rightarrow> unit fsm" where
  "remove_ref_in_entry disk nentry ref =
     bindE (reads (\<lambda>s. get_entry_n s disk nentry)) (\<lambda>e.
     bindE (remove_ref_loop disk ref 0 (get_entry_refcount e) nentry e e False)
       (\<lambda>(ncur, cur, refcount, found).
     if found
     then bindE (write_entry cur disk ncur) (\<lambda>_.
          bindE (set_entry_refcount disk nentry (refcount - 1)) (\<lambda>_.
          if entry_is e T_DIR then set_entry_size disk nentry (refcount - 1) else ret ()))
     else ret ()))"

subsection \<open>Deleting an entry\<close>

text \<open>A call for each element of a list, up to the first error.\<close>

primrec foreachE :: "('a \<Rightarrow> unit fsm) \<Rightarrow> 'a list \<Rightarrow> unit fsm" where
  "foreachE f [] = ret ()"
| "foreachE f (x # xs) = bindE (f x) (\<lambda>_. foreachE f xs)"

lemma foreachE_mono [partial_function_mono]:
  assumes "\<And>x s. mono_option (\<lambda>f. g f x s)"
  shows "mono_option (\<lambda>f. foreachE (g f) xs s)"
proof (induction xs arbitrary: s)
  case Nil
  show ?case by (simp add: monotoneI option.leq_refl)
next
  case (Cons x xs)
  show ?case unfolding foreachE.simps by (rule bindE_mono) (use assms Cons in simp_all)
qed

partial_function (option) delete_n ::
    "u16 \<Rightarrow> u16 \<Rightarrow> fs_state \<Rightarrow> ((u16 + unit) \<times> fs_state) option" where
  "delete_n disk n s =
     bindE (reads (\<lambda>s. get_entry_n s disk n)) (\<lambda>e s.
     bindE (remove_ref_in_entry disk (ucast (e_parent e)) n) (\<lambda>_ s.
     bindE (foreachE (\<lambda>ref s. delete_n disk (ucast ref) s)
              (if entry_is e T_DIR then take (min (unat (e_size e)) (unat SFS_ENTRYREFS)) (e_ref e) else []))
       (\<lambda>_ s.
     bindE (\<lambda>s. if e_next e \<noteq> 0 then delete_n disk (ucast (e_next e)) s else ret () s) (\<lambda>_ s.
     write_entry zero_entry disk n s) s) s) s) s"

end
