(* ===== verification/Fs_Ops.thy ===== *)
theory Fs_Ops
  imports Fs_Chain
begin

section \<open>The operations of the file system (source/fs.c)\<close>

text \<open>
  The functions \<^verbatim>\<open>fs.h\<close> declares, on the disks of the state. A path argument is a C string; where
  the code rewrites the caller's path in place (\<open>string_to_name\<close> on its last component), the
  operation works on with the rewritten path, and \<open>fs_write_file\<close> returns it. The code writes block
  references of a long file one past the 120 references of an entry: such a write is dropped here and
  such a read is \<open>wild_ref\<close>. Shrinking a file calls \<open>set_entry_refcount\<close> with an argument missing:
  the value it finds is \<open>stack_arg\<close>.
\<close>

definition WF_CREATE :: u16 where [simp]: "WF_CREATE = 0x0001"
definition WF_TRUNCATE :: u16 where [simp]: "WF_TRUNCATE = 0x0002"
definition FS_TYPE_UNKNOWN :: u16 where [simp]: "FS_TYPE_UNKNOWN = 0x000"
definition FS_TYPE_NSFS :: u16 where [simp]: "FS_TYPE_NSFS = 0x001"

definition read_ref :: "fs_state \<Rightarrow> sfs_entry \<Rightarrow> nat \<Rightarrow> u32" where
  "read_ref s e i = (if i < unat SFS_ENTRYREFS then e_ref e ! i else wild_ref (hw s))"

subsection \<open>File system information\<close>

record fs_info =
  fi_name :: "u8 list"
  fi_id :: u16
  fi_type :: u16
  fi_fs_size :: u32
  fi_disk_size :: u32

text \<open>Number of available disks, and the index of the available disk number \<open>disk_index\<close>.\<close>

definition count_disks :: "fs_state \<Rightarrow> u16 \<Rightarrow> u16 \<times> nat option" where
  "count_disks s disk_index =
     foldl (\<lambda>(n, j) i. if di_size (disk_info s ! i) \<noteq> 0
                       then (n + 1, if n = disk_index then Some i else j) else (n, j))
       (0, None) [0 ..< MAX_DISK]"

definition fs_get_info :: "fs_state \<Rightarrow> u16 \<Rightarrow> u16 \<times> fs_info option" where
  "fs_get_info s disk_index =
     (let (n, j) = count_disks s disk_index
      in (n, map_option (\<lambda>j. let di = disk_info s ! j; i = index_to_disk s (of_nat j)
               in \<lparr>fi_name = take 3 (disk_to_string s i), fi_id = i, fi_type = di_fstype di,
                   fi_fs_size = blocks_to_MB (di_fssize di), fi_disk_size = di_size di\<rparr>) j))"

definition init_disk_info :: "fs_state \<Rightarrow> nat \<Rightarrow> fs_state" where
  "init_disk_info s i =
     (let di = disk_info s ! i;
          nsfs = (if di_size di \<noteq> 0
                  then case read_disk s (index_to_disk s (of_nat i)) 1 0 SIZEOF_SB of
                         Inl r \<Rightarrow> None
                       | Inr b \<Rightarrow> if sb_type (decode_sb b) = SFS_TYPE_ID then Some (decode_sb b) else None
                  else None);
          di' = (case nsfs of
                   Some sb \<Rightarrow> di\<lparr>di_fstype := FS_TYPE_NSFS, di_fssize := sb_size sb\<rparr>
                 | None \<Rightarrow> di\<lparr>di_fstype := FS_TYPE_UNKNOWN, di_fssize := 0\<rparr>)
      in s\<lparr>disk_info := (disk_info s)[i := di']\<rparr>)"

definition fs_init_info :: "fs_state \<Rightarrow> fs_state" where
  "fs_init_info s = foldl init_disk_info s [0 ..< MAX_DISK]"

subsection \<open>Reading a file\<close>

text \<open>
  The loop of \<open>fs_read_file\<close>: current chained entry, position in its blocks, bytes read so far. The
  offset is reduced modulo the block size before the loop and 0 after the first round, so the second
  conjunct of the loop condition, which the termination proof needs, always holds.
\<close>

definition chunk :: "u16 \<Rightarrow> u16 \<Rightarrow> u16" where
  "chunk offset rest = min16 (BLOCK_SIZE - offset) rest"

lemma chunk_bounds:
  assumes "done < count" "offset < BLOCK_SIZE"
  shows "0 < unat (chunk offset (count - done))" "unat done + unat (chunk offset (count - done)) \<le> unat count"
proof -
  have "unat (count - done) = unat count - unat done"
    using assms(1) by (simp add: unat_sub word_less_nat_alt word_le_nat_alt)
  moreover have "unat (512 - offset) = 512 - unat offset"
    using assms(2) by (simp add: unat_sub word_less_nat_alt word_le_nat_alt)
  ultimately show "0 < unat (chunk offset (count - done))"
    "unat done + unat (chunk offset (count - done)) \<le> unat count"
    using assms by (auto simp: chunk_def unat_min16 word_less_nat_alt)
qed

function read_loop ::
    "fs_state \<Rightarrow> u16 \<Rightarrow> u16 \<Rightarrow> sfs_entry \<Rightarrow> u16 \<Rightarrow> u16 \<Rightarrow> u16 \<Rightarrow> u16 \<Rightarrow> u8 list \<Rightarrow> u16 + (u16 \<times> u8 list)" where
  "read_loop s disk n e block offset count done buff =
     (if done < count \<and> offset < BLOCK_SIZE
      then case get_nref_entry_from_entry s disk e n block of
             Inl c \<Rightarrow> Inl c
           | Inr (n', e') \<Rightarrow>
               let block = block mod SFS_ENTRYREFS; m = chunk offset (count - done)
               in case read_disk s disk (ucast (e_ref e' ! unat (block mod SFS_ENTRYREFS))) offset m of
                    Inl r \<Rightarrow> Inl ERROR_IO
                  | Inr b \<Rightarrow> read_loop s disk n' e' (block + 1) 0 count (done + m) (buff @ b)
      else Inr (done, buff))"
  by pat_completeness auto

termination
proof (relation "measure (\<lambda>(s, disk, n, e, block, offset, count, done, buff). unat count - unat done)")
  fix offset count don m :: u16
  assume *: "don < count \<and> offset < BLOCK_SIZE" and m: "m = chunk offset (count - don)"
  then have "unat (don + m) = unat don + unat m"
    using chunk_bounds [of don count offset] unat_u16_lt [of count] by (simp add: unat_plus_u16)
  then show "((s, disk, n', e', b, 0, count, don + m, bf), s, disk, n, e, block, offset, count, don, buff)
      \<in> measure (\<lambda>(s, disk, n, e, block, offset, count, done, buff). unat count - unat done)"
    for s disk n' e' b bf n e block buff
    using * m chunk_bounds [of don count offset] by (simp add: word_less_nat_alt)
qed simp


declare read_loop.simps [simp del]

text \<open>The minimum of a 16-bit and a 32-bit value, stored in 16 bits.\<close>

definition min_size :: "u16 \<Rightarrow> u32 \<Rightarrow> u16" where
  "min_size a b = (if ucast a < b then a else ucast b)"

definition fs_read_file ::
    "fs_state \<Rightarrow> u8 list \<Rightarrow> u16 \<Rightarrow> u16 \<Rightarrow> u16 + (u16 \<times> u8 list)" where
  "fs_read_file s path offset count =
     (let disk = path_get_disk s path
      in case fs_get_entry s path UNKNOWN_VALUE UNKNOWN_VALUE of
           Inl c \<Rightarrow> Inl c
         | Inr (n, e) \<Rightarrow>
             if entry_is e T_FILE
             then let offset = min_size offset (e_size e);
                      count = min_size count (e_size e - ucast offset)
                  in read_loop s disk n e (offset div BLOCK_SIZE) (offset mod BLOCK_SIZE) count 0 []
             else Inr (n, []))"

subsection \<open>Writing a file\<close>

text \<open>Creation of the file, on the path whose last component has been made a valid name.\<close>

definition new_entry :: "u8 \<Rightarrow> u8 list \<Rightarrow> u16 \<Rightarrow> sfs_entry" where
  "new_entry flags name parent =
     zero_entry\<lparr>e_flags := flags, e_name := snd (strcpy_s (e_name zero_entry) name (of_nat SFS_NAMESIZE)),
       e_parent := ucast parent\<rparr>"

definition create_file :: "u8 list \<Rightarrow> (u16 \<times> u16 \<times> sfs_entry \<times> u8 list) fsm" where
  "create_file path =
     bindE (reads (\<lambda>s. path_parse_disk_parent_name s path)) (\<lambda>(off, parent, disk).
     let name = string_to_name (drop off path)
     in bindE (reads (\<lambda>s. find_free_entry s disk)) (\<lambda>n.
     let e = new_entry T_FILE name parent
     in bindE (write_entry e disk n) (\<lambda>_.
     bindE (add_ref_in_entry disk parent n) (\<lambda>_.
     ret (disk, n, e, take off path @ name)))))"

text \<open>
  Allocation of blocks when the file grows: the entry being filled and its index, the current and
  the final number of blocks. Both numbers drop together when the walk moves to the next chained
  entry, which happens while the current number exceeds 120.
\<close>

partial_function (option) skip_to_entry ::
    "u16 \<Rightarrow> u16 \<Rightarrow> sfs_entry \<Rightarrow> u16 \<Rightarrow> u16 \<Rightarrow> fs_state \<Rightarrow>
       ((u16 + (u16 \<times> sfs_entry \<times> u16 \<times> u16)) \<times> fs_state) option" where
  "skip_to_entry disk nt te cur final s =
     (if cur > SFS_ENTRYREFS
      then bindE (write_entry te disk nt) (\<lambda>_ s.
           bindE (reads (\<lambda>s. get_entry_n s disk (ucast (e_next te)))) (\<lambda>te' s.
           skip_to_entry disk (ucast (e_next te)) te' (cur - SFS_ENTRYREFS) (final - SFS_ENTRYREFS) s) s) s
      else ret (nt, te, cur, final) s)"

partial_function (option) alloc_blocks ::
    "u16 \<Rightarrow> u16 \<Rightarrow> sfs_entry \<Rightarrow> u16 \<Rightarrow> u16 \<Rightarrow> fs_state \<Rightarrow>
       ((u16 + (u16 \<times> sfs_entry)) \<times> fs_state) option" where
  "alloc_blocks disk nt te cur final s =
     (if cur < final
      then bindE (skip_to_entry disk nt te cur final) (\<lambda>(nt, te, cur, final) s.
           bindE (reads (\<lambda>s. case find_free_block s disk of Inl c \<Rightarrow> Inl c | Inr b \<Rightarrow> result_code b)) (\<lambda>b s.
           alloc_blocks disk nt (te\<lparr>e_ref := (e_ref te)[unat cur := ucast b]\<rparr>) (cur + 1) final s) s) s
      else ret (nt, te) s)"

definition grow_file :: "u16 \<Rightarrow> u16 \<Rightarrow> sfs_entry \<Rightarrow> u16 \<Rightarrow> sfs_entry fsm" where
  "grow_file disk n e new_size =
     (if e_size e < ucast new_size
      then let cur = needed_blocks (ucast (e_size e)); final = needed_blocks new_size
        in bindE (set_entry_refcount disk n final) (\<lambda>_.
           bindE (set_entry_size disk n new_size) (\<lambda>_.
           bindE (reads (\<lambda>s. get_entry_n s disk n)) (\<lambda>te.
           bindE (alloc_blocks disk n te cur final) (\<lambda>(nt, te').
           bindE (write_entry te' disk nt) (\<lambda>_.
           reads (\<lambda>s. get_entry_n s disk n))))))
      else ret e)"

definition shrink_file :: "u16 \<Rightarrow> u16 \<Rightarrow> sfs_entry \<Rightarrow> u16 \<Rightarrow> u16 \<Rightarrow> sfs_entry fsm" where
  "shrink_file disk n e new_size flags =
     (if e_size e > ucast new_size \<and> flags AND WF_TRUNCATE \<noteq> 0
      then bindE (\<lambda>s. set_entry_refcount disk n (stack_arg (hw s)) s) (\<lambda>_.
           bindE (set_entry_size disk n new_size) (\<lambda>_.
           reads (\<lambda>s. get_entry_n s disk n)))
      else ret e)"

text \<open>
  The data: the chained entry for the current block, then one transfer per block. A failed transfer
  ends the loop with the code of the disk, which the function returns as it is.
\<close>

partial_function (option) skip_written ::
    "u16 \<Rightarrow> sfs_entry \<Rightarrow> u16 \<Rightarrow> u16 \<Rightarrow> fs_state \<Rightarrow>
       ((u16 + (sfs_entry \<times> u16 \<times> u16)) \<times> fs_state) option" where
  "skip_written disk e offset cur s =
     (if cur > SFS_ENTRYREFS
      then bindE (reads (\<lambda>s. get_entry_n s disk (ucast (e_next e)))) (\<lambda>e' s.
           skip_written disk e' (offset - SFS_ENTRYREFS * BLOCK_SIZE) (cur - SFS_ENTRYREFS) s) s
      else ret (e, offset, cur) s)"

partial_function (option) write_loop ::
    "u16 \<Rightarrow> sfs_entry \<Rightarrow> u16 \<Rightarrow> u16 \<Rightarrow> u16 \<Rightarrow> u8 list \<Rightarrow> fs_state \<Rightarrow>
       ((u16 + (u16 + u16)) \<times> fs_state) option" where
  "write_loop disk e offset count written buff s =
     (if count > 0
      then let m = min16 count (BLOCK_SIZE - offset mod BLOCK_SIZE)
        in bindE (skip_written disk e offset (needed_blocks (offset + m) - 1)) (\<lambda>(e, offset, cur) s.
           let (r, s') = write_disk s disk (ucast (read_ref s e (unat cur))) (offset mod BLOCK_SIZE) m buff
           in if r \<noteq> 0 then ret (Inl r) s'
              else write_loop disk e (offset + m) (count - m) (written + m) (drop (unat m) buff) s') s
      else ret (Inr written) s)"

definition fs_write_file ::
    "u8 list \<Rightarrow> u8 list \<Rightarrow> u16 \<Rightarrow> u16 \<Rightarrow> u16 \<Rightarrow> (u16 \<times> u8 list) fsm" where
  "fs_write_file buff path offset count flags =
     bindE (\<lambda>s. let disk = path_get_disk s path
                in case fs_get_entry s path UNKNOWN_VALUE UNKNOWN_VALUE of
                     Inl c \<Rightarrow> if c = ERROR_NOT_FOUND \<and> flags AND WF_CREATE \<noteq> 0
                              then create_file path s else fail c s
                   | Inr (n, e) \<Rightarrow> if entry_is e T_DIR then fail ERROR_NOT_FOUND s
                                    else ret (disk, n, e, path) s) (\<lambda>(disk, n, e, path).
     bindE (grow_file disk n e (offset + count)) (\<lambda>e.
     bindE (shrink_file disk n e (offset + count) flags) (\<lambda>e.
     bindE (write_loop disk e offset count 0 buff) (\<lambda>r.
     case r of
       Inl c \<Rightarrow> ret (c, path)
     | Inr written \<Rightarrow> bindE (set_entry_time_to_current disk n) (\<lambda>_. ret (written, path))))))"

subsection \<open>Deleting, creating, moving\<close>

definition fs_delete :: "u8 list \<Rightarrow> unit fsm" where
  "fs_delete path =
     bindE (reads (\<lambda>s. case fs_get_entry s path UNKNOWN_VALUE UNKNOWN_VALUE of
                         Inl c \<Rightarrow> Inl c | Inr (n, e) \<Rightarrow> Inr (path_get_disk s path, n)))
       (\<lambda>(disk, n) s. delete_n disk n s)"

text \<open>The check that a name is not in use: only \<open>ERROR_NOT_FOUND\<close> lets the operation go on.\<close>

definition check_absent :: "u8 list \<Rightarrow> u16 \<Rightarrow> u16 \<Rightarrow> unit fsm" where
  "check_absent name parent disk =
     reads (\<lambda>s. case fs_get_entry s name parent disk of
                  Inl c \<Rightarrow> if c = ERROR_NOT_FOUND then Inr () else Inl c
                | Inr r \<Rightarrow> Inl ERROR_EXISTS)"

definition fs_create_directory :: "u8 list \<Rightarrow> u16 fsm" where
  "fs_create_directory path =
     bindE (reads (\<lambda>s. path_parse_disk_parent_name s path)) (\<lambda>(off, parent, disk).
     let name = string_to_name (drop off path)
     in bindE (check_absent name parent disk) (\<lambda>_.
     bindE (reads (\<lambda>s. find_free_entry s disk)) (\<lambda>n.
     bindE (write_entry (new_entry T_DIR name parent) disk n) (\<lambda>_.
     bindE (set_entry_time_to_current disk n) (\<lambda>_.
     bindE (if ucast n \<noteq> (ucast parent :: u32) then add_ref_in_entry disk parent n else ret ()) (\<lambda>_.
     ret n))))))"

subsection \<open>Copying\<close>

partial_function (option) copy_loop ::
    "u8 list \<Rightarrow> u8 list \<Rightarrow> u16 \<Rightarrow> fs_state \<Rightarrow> ((u16 + unit) \<times> fs_state) option" where
  "copy_loop srcpath dstpath offset s =
     bindE (reads (\<lambda>s. fs_read_file s srcpath offset BLOCK_SIZE)) (\<lambda>(copied, buff) s.
     if copied = 0 then ret () s
     else bindE (fs_write_file buff dstpath offset copied WF_CREATE) (\<lambda>(w, dst) s.
          if w \<ge> ERROR_ANY then fail w s
          else copy_loop srcpath dst (offset + copied) s) s) s"

text \<open>\<open>strcpy_s\<close> and two \<open>strcat_s\<close> into a fresh buffer of \<open>n\<close> bytes: path, separator, name.\<close>

definition sub_path :: "u16 \<Rightarrow> u8 list \<Rightarrow> u8 list \<Rightarrow> u8 list" where
  "sub_path n path name =
     (let b = snd (strcpy_s (replicate (unat n) 0) path n);
          b = snd (strcat_s b [PATH_SEPARATOR] n)
      in cstring (snd (strcat_s b name n)))"

partial_function (option) fs_copy ::
    "u8 list \<Rightarrow> u8 list \<Rightarrow> fs_state \<Rightarrow> ((u16 + unit) \<times> fs_state) option" where
  "fs_copy srcpath dstpath s =
     bindE (reads (\<lambda>s. path_parse_disk_parent_name s dstpath)) (\<lambda>(off, dst_parent, dst_disk) s.
     let dstname = string_to_name (drop off dstpath); dstpath = take off dstpath @ dstname
     in bindE (check_absent dstname dst_parent dst_disk) (\<lambda>_ s.
     bindE (reads (\<lambda>s. fs_get_entry s srcpath UNKNOWN_VALUE UNKNOWN_VALUE)) (\<lambda>(n, e) s.
     let src_disk = path_get_disk s srcpath
     in if entry_is e T_FILE then copy_loop srcpath dstpath 0 s
        else if entry_is e T_DIR
        then bindE (fs_create_directory dstpath) (\<lambda>_ s.
             foreachE (\<lambda>r s.
               bindE (reads (\<lambda>s. get_entry_n s src_disk (ucast (read_ref s e r)))) (\<lambda>te s.
               fs_copy (sub_path 64 srcpath (entry_name te)) (sub_path 64 dstpath (entry_name te)) s) s)
               [0 ..< unat (e_size e)] s) s
        else fail ERROR_NOT_FOUND s) s) s) s"

definition fs_move :: "u8 list \<Rightarrow> u8 list \<Rightarrow> u16 fsm" where
  "fs_move srcpath dstpath =
     bindE (reads (\<lambda>s. path_parse_disk_parent_name s dstpath)) (\<lambda>(off, dst_parent, dst_disk).
     let dstname = string_to_name (drop off dstpath); dstpath = take off dstpath @ dstname
     in bindE (check_absent dstname dst_parent dst_disk) (\<lambda>_.
     bindE (reads (\<lambda>s. case fs_get_entry s srcpath UNKNOWN_VALUE UNKNOWN_VALUE of
                         Inl c \<Rightarrow> Inl c | Inr (n, e) \<Rightarrow> Inr (path_get_disk s srcpath, n, e)))
       (\<lambda>(src_disk, n, e).
     bindE (if src_disk \<noteq> dst_disk
            then bindE (\<lambda>s. fs_copy srcpath dstpath s) (\<lambda>_. \<lambda>s. delete_n src_disk n s)
            else bindE (remove_ref_in_entry src_disk (ucast (e_parent e)) n) (\<lambda>_.
                 bindE (write_entry (e\<lparr>e_name := snd (strcpy_s (replicate SFS_NAMESIZE 0) dstname (of_nat SFS_NAMESIZE)),
                                       e_parent := ucast dst_parent\<rparr>) dst_disk n) (\<lambda>_.
                 add_ref_in_entry dst_disk dst_parent n))) (\<lambda>_.
     ret n))))"

subsection \<open>Listing\<close>

definition fs_list :: "fs_state \<Rightarrow> u8 list \<Rightarrow> u16 \<Rightarrow> u16 + (u16 \<times> sfs_entry)" where
  "fs_list s path i =
     (let disk = path_get_disk s path
      in case fs_get_entry s path UNKNOWN_VALUE UNKNOWN_VALUE of
           Inl c \<Rightarrow> Inl c
         | Inr (n, de) \<Rightarrow>
             if entry_is de T_DIR
             then if i < ucast (e_size de)
                  then case get_nref_entry_from_entry s disk de n i of
                         Inl c \<Rightarrow> Inl c
                       | Inr (n', de') \<Rightarrow>
                           case get_entry_n s disk (ucast (read_ref s de' (unat i))) of
                             Inl c \<Rightarrow> Inl c
                           | Inr e \<Rightarrow> Inr (ucast (e_size de'), e)
                  else Inr (ucast (e_size de), zero_entry)
             else Inl ERROR_NOT_FOUND)"

subsection \<open>Formatting\<close>

definition format_superblock :: "diskinfo \<Rightarrow> sfs_superblock" where
  "format_superblock di =
     (let blocks = ucast (di_sectors di) * ucast (di_sides di) * ucast (di_cylinders di);
          entries = (blocks * ucast BLOCK_SIZE) div 10 div ucast SIZEOF_ENTRY;
          nentries = (if entries < 1024 then entries else 1024)
      in \<lparr>sb_type = SFS_TYPE_ID, sb_size = blocks, sb_nentries = nentries,
          sb_bootstart = 2 + (nentries * ucast SIZEOF_ENTRY) div ucast BLOCK_SIZE\<rparr>)"

definition write_block :: "u16 \<Rightarrow> u16 \<Rightarrow> u8 list \<Rightarrow> unit fsm" where
  "write_block disk block data =
     (\<lambda>s. let (r, s') = write_disk s disk block 0 BLOCK_SIZE data
          in Some (if r \<noteq> 0 then Inl ERROR_IO else Inr (), s'))"

definition fs_format :: "u16 \<Rightarrow> unit fsm" where
  "fs_format disk =
     bindE (reads (\<lambda>s. case read_disk s (ucast (system_disk s)) 0 0 BLOCK_SIZE of
                         Inl r \<Rightarrow> Inl ERROR_IO
                       | Inr b \<Rightarrow> Inr (b, format_superblock (disk_info_at s (disk_to_index s disk)))))
       (\<lambda>(boot, sb).
     bindE (write_block disk 0 boot) (\<lambda>_.
     bindE (write_block disk 1 (encode_sb sb @ replicate 496 0)) (\<lambda>_.
     bindE (write_entry (new_entry T_DIR ROOT_DIR_NAME 0) disk 0) (\<lambda>_.
     bindE (set_entry_time_to_current disk 0) (\<lambda>_.
     bindE (foreachE (\<lambda>k. catchE (write_entry zero_entry disk (of_nat k)) (\<lambda>r. ret ()))
              [1 ..< unat (ucast (sb_nentries sb) :: u16)]) (\<lambda>_.
     bindE (reads (\<lambda>s. get_entry_n s (ucast (system_disk s)) 1)) (\<lambda>e.
     bindE (\<lambda>s. fs_copy (sub_path 32 (disk_to_string s (ucast (system_disk s))) (entry_name e))
                        (sub_path 32 (disk_to_string s disk) (entry_name e)) s) (\<lambda>_.
     \<lambda>s. Some (Inr (), fs_init_info s)))))))))"

end
