(* ===== verification/Port_Io.thy ===== *)
theory Port_Io
  imports Byte_Order
begin

section \<open>Port input and output\<close>

text \<open>
  The devices behind the ports are not code of the program: a device is a function from everything
  that happened on the ports before, most recent event first, to the value a read returns. Code
  that drives a device runs on a state with the events so far; a loop that polls a device need not
  end, so such code is a partial function into \<open>iom\<close>. \<open>settles\<close> says that polling a port ends, and
  \<open>writes\<close> is what a device was sent, in order.
\<close>

datatype port_event = In8 u16 u8 | Out8 u16 u8 | In32 u16 u32 | Out32 u16 u32

record io =
  io_trace :: "port_event list"
  dev8 :: "port_event list \<Rightarrow> u16 \<Rightarrow> u8"
  dev32 :: "port_event list \<Rightarrow> u16 \<Rightarrow> u32"

type_synonym ('s, 'a) iom = "'s \<Rightarrow> ('a \<times> 's) option"

definition nret :: "'a \<Rightarrow> ('s, 'a) iom" where "nret x = (\<lambda>s. Some (x, s))"

definition nbind :: "('s, 'a) iom \<Rightarrow> ('a \<Rightarrow> ('s, 'b) iom) \<Rightarrow> ('s, 'b) iom" where
  "nbind m k = (\<lambda>s. Option.bind (m s) (\<lambda>(x, s'). k x s'))"

definition nget :: "('s \<Rightarrow> 'a) \<Rightarrow> ('s, 'a) iom" where "nget f = (\<lambda>s. Some (f s, s))"

definition nput :: "('s \<Rightarrow> 's) \<Rightarrow> ('s, unit) iom" where "nput f = (\<lambda>s. Some ((), f s))"

lemma nbind_mono [partial_function_mono]:
  assumes "mono_option (\<lambda>f. m f s)" "\<And>x s. mono_option (\<lambda>f. k f x s)"
  shows "mono_option (\<lambda>f. nbind (m f) (k f) s)"
  unfolding nbind_def
proof (rule bind_mono)
  show "mono_option (\<lambda>f. m f s)" by (rule assms)
next
  fix r
  show "mono_option (\<lambda>f. (\<lambda>(x, s'). k f x s') r)"
    using assms(2) by (cases r) simp
qed

lemma iom_simps [simp]:
  "nret x s = Some (x, s)" "nget f s = Some (f s, s)" "nput g s = Some ((), g s)"
  by (simp_all add: nret_def nget_def nput_def)

lemma nbind_Some [simp]: "m s = Some (x, s') \<Longrightarrow> nbind m k s = k x s'"
  by (simp add: nbind_def)

definition inb :: "u16 \<Rightarrow> ('z io_scheme, u8) iom" where
  "inb port = (\<lambda>s. let v = dev8 s (io_trace s) port in Some (v, s\<lparr>io_trace := In8 port v # io_trace s\<rparr>))"

definition outb :: "u8 \<Rightarrow> u16 \<Rightarrow> ('z io_scheme, unit) iom" where
  "outb v port = (\<lambda>s. Some ((), s\<lparr>io_trace := Out8 port v # io_trace s\<rparr>))"

definition inl :: "u16 \<Rightarrow> ('z io_scheme, u32) iom" where
  "inl port = (\<lambda>s. let v = dev32 s (io_trace s) port in Some (v, s\<lparr>io_trace := In32 port v # io_trace s\<rparr>))"

definition outl :: "u32 \<Rightarrow> u16 \<Rightarrow> ('z io_scheme, unit) iom" where
  "outl v port = (\<lambda>s. Some ((), s\<lparr>io_trace := Out32 port v # io_trace s\<rparr>))"

text \<open>\<open>while (P (inb (port))) { }\<close>\<close>

partial_function (option) while_in ::
    "(u8 \<Rightarrow> bool) \<Rightarrow> u16 \<Rightarrow> 'z io_scheme \<Rightarrow> (unit \<times> 'z io_scheme) option" where
  "while_in P port s = nbind (inb port) (\<lambda>v s. if P v then while_in P port s else nret () s) s"

text \<open>A loop of writes, and a loop of reads of one port.\<close>

primrec outs :: "u8 list \<Rightarrow> u16 \<Rightarrow> ('z io_scheme, unit) iom" where
  "outs [] port = nret ()"
| "outs (v # vs) port = nbind (outb v port) (\<lambda>_. outs vs port)"

primrec ins :: "nat \<Rightarrow> u16 \<Rightarrow> ('z io_scheme, u8 list) iom" where
  "ins 0 port = nret []"
| "ins (Suc n) port = nbind (inb port) (\<lambda>v. nbind (ins n port) (\<lambda>vs. nret (v # vs)))"

subsection \<open>What a device was sent\<close>

fun writes :: "port_event list \<Rightarrow> (u16 \<times> u8) list" where
  "writes [] = []"
| "writes (Out8 p v # t) = writes t @ [(p, v)]"
| "writes (In8 p v # t) = writes t"
| "writes (Out32 p v # t) = writes t"
| "writes (In32 p v # t) = writes t"

text \<open>Polling a port \<open>k\<close> times, and a device whose port leaves the set of values \<open>P\<close> when polled.\<close>

primrec poll :: "(port_event list \<Rightarrow> u16 \<Rightarrow> u8) \<Rightarrow> u16 \<Rightarrow> nat \<Rightarrow> port_event list \<Rightarrow> port_event list" where
  "poll d port 0 t = t"
| "poll d port (Suc k) t = poll d port k (In8 port (d t port) # t)"

definition settles :: "(port_event list \<Rightarrow> u16 \<Rightarrow> u8) \<Rightarrow> (u8 \<Rightarrow> bool) \<Rightarrow> u16 \<Rightarrow> bool" where
  "settles d P port \<longleftrightarrow> (\<forall>t. \<exists>k. \<not> P (d (poll d port k t) port))"

text \<open>A step of the driver that only reads: it changes nothing but the events, and sends nothing.\<close>

definition only_reads :: "'z io_scheme \<Rightarrow> 'z io_scheme \<Rightarrow> bool" where
  "only_reads s s' \<longleftrightarrow> (\<exists>t. s' = s\<lparr>io_trace := t\<rparr> \<and> writes t = writes (io_trace s))"

lemma only_reads_trans: "only_reads s s' \<Longrightarrow> only_reads s' s'' \<Longrightarrow> only_reads s s''"
  by (auto simp: only_reads_def)

lemma inb_reads: "inb port s = Some (v, s') \<Longrightarrow> only_reads s s'"
  by (auto simp: inb_def only_reads_def Let_def)

lemma while_in_settles:
  assumes "settles (dev8 s) P port"
  shows "\<exists>s'. while_in P port s = Some ((), s') \<and> only_reads s s'"
proof -
  have "\<exists>s'. while_in P port s = Some ((), s') \<and> only_reads s s'"
    if "\<not> P (dev8 s (poll (dev8 s) port k (io_trace s)) port)" for k and s :: "'a io_scheme"
    using that
  proof (induction k arbitrary: s)
    case 0
    then show ?case
      by (subst while_in.simps) (auto simp: inb_def nbind_def only_reads_def Let_def)
  next
    case (Suc k)
    let ?v = "dev8 s (io_trace s) port"
    let ?s = "s\<lparr>io_trace := In8 port ?v # io_trace s\<rparr>"
    have r: "only_reads s ?s" by (auto simp: only_reads_def)
    show ?case
    proof (cases "P ?v")
      case True
      obtain s' where "while_in P port ?s = Some ((), s')" "only_reads ?s s'"
        using Suc.IH [of ?s] Suc.prems by auto
      then show ?thesis using True only_reads_trans [OF r]
        by (subst while_in.simps) (auto simp: inb_def nbind_def Let_def)
    next
      case False
      then show ?thesis using r by (subst while_in.simps) (auto simp: inb_def nbind_def Let_def)
    qed
  qed
  moreover obtain k where "\<not> P (dev8 s (poll (dev8 s) port k (io_trace s)) port)"
    using assms by (auto simp: settles_def)
  ultimately show ?thesis by blast
qed

lemma outs_ok:
  "\<exists>t. outs vs port s = Some ((), s\<lparr>io_trace := t\<rparr>) \<and>
     writes t = writes (io_trace s) @ map (\<lambda>v. (port, v)) vs"
proof (induction vs arbitrary: s)
  case Nil
  then show ?case by (intro exI [of _ "io_trace s"]) simp
next
  case (Cons v vs)
  obtain t where "outs vs port (s\<lparr>io_trace := Out8 port v # io_trace s\<rparr>) =
      Some ((), s\<lparr>io_trace := t\<rparr>)" "writes t = writes (Out8 port v # io_trace s) @ map (\<lambda>v. (port, v)) vs"
    using Cons [of "s\<lparr>io_trace := Out8 port v # io_trace s\<rparr>"] by auto
  then show ?case by (auto simp: outb_def nbind_def)
qed

end
