(* ===== verification/Pci.thy ===== *)
theory Pci
  imports Port_Io
begin

section \<open>The PCI bus (source/pci.c)\<close>

text \<open>
  The scan of bus 0 and the search for a device. A configuration space is the 16 double words the
  scan stores; the fields of \<open>pci_device_t\<close> the program uses are read from them. Debug output is not
  modelled.
\<close>

definition MAX_PCI_DEVICE :: nat where [simp]: "MAX_PCI_DEVICE = 16"
definition PCI_CONFIG_ADDR_PORT :: u16 where [simp]: "PCI_CONFIG_ADDR_PORT = 0xCF8"
definition PCI_CONFIG_DATA_PORT :: u16 where [simp]: "PCI_CONFIG_DATA_PORT = 0xCFC"

type_synonym pci_device = "u32 list"

definition vendor_id :: "pci_device \<Rightarrow> u16" where "vendor_id d = ucast (d ! 0)"
definition device_id :: "pci_device \<Rightarrow> u16" where "device_id d = ucast (drop_bit 16 (d ! 0))"
definition bar0 :: "pci_device \<Rightarrow> u32" where "bar0 d = d ! 4"
definition interrput_line :: "pci_device \<Rightarrow> u8" where "interrput_line d = ucast (d ! 15)"

record pci = io +
  pci_count :: u16
  pci_devices :: "pci_device list"

definition pci_read_config :: "u32 \<Rightarrow> u8 \<Rightarrow> ('z io_scheme, u32) iom" where
  "pci_read_config pci_dev offset =
     nbind (outl (0x80000000 OR pci_dev OR ucast (offset AND 0xFC)) PCI_CONFIG_ADDR_PORT) (\<lambda>_.
     inl PCI_CONFIG_DATA_PORT)"

text \<open>The address of a function on bus 0, and the loop that reads its 16 double words.\<close>

definition pci_dev_addr :: "u8 \<times> u8 \<Rightarrow> u32" where
  "pci_dev_addr = (\<lambda>(slot, func). push_bit 16 0 OR push_bit 11 (ucast slot) OR push_bit 8 (ucast func))"

primrec pci_read_device :: "u32 \<Rightarrow> u8 list \<Rightarrow> ('z io_scheme, pci_device) iom" where
  "pci_read_device addr [] = nret []"
| "pci_read_device addr (i # is) =
     nbind (pci_read_config addr i) (\<lambda>v. nbind (pci_read_device addr is) (\<lambda>vs. nret (v # vs)))"

text \<open>The two nested loops over slots and functions; the scan returns when the table is full.\<close>

definition pci_functions :: "(u8 \<times> u8) list" where
  "pci_functions = List.product (map of_nat [0 ..< 32]) (map of_nat [0 ..< 8])"

definition dword_offsets :: "u8 list" where
  "dword_offsets = map (\<lambda>i. of_nat (4 * i)) [0 ..< 16]"

primrec pci_scan :: "(u8 \<times> u8) list \<Rightarrow> ('z pci_scheme, unit) iom" where
  "pci_scan [] = nret ()"
| "pci_scan (sf # rest) =
     nbind (pci_read_config (pci_dev_addr sf) 0) (\<lambda>id.
     if ucast id = (0xFFFF :: u16) then pci_scan rest
     else nbind (pci_read_device (pci_dev_addr sf) dword_offsets) (\<lambda>d.
          nbind (nput (\<lambda>s. s\<lparr>pci_devices := (pci_devices s)[unat (pci_count s) := d],
                            pci_count := pci_count s + 1\<rparr>)) (\<lambda>_.
          nbind (nget pci_count) (\<lambda>n.
          if n \<ge> of_nat MAX_PCI_DEVICE then nret () else pci_scan rest))))"

definition pci_init :: "('z pci_scheme, unit) iom" where
  "pci_init =
     nbind (nput (\<lambda>s. s\<lparr>pci_devices := replicate MAX_PCI_DEVICE (replicate 16 0), pci_count := 0\<rparr>)) (\<lambda>_.
     pci_scan pci_functions)"

definition pci_find_device :: "'z pci_scheme \<Rightarrow> u16 \<Rightarrow> u16 \<Rightarrow> pci_device option" where
  "pci_find_device s vendor device =
     map_option (\<lambda>i. pci_devices s ! i)
       (find (\<lambda>i. vendor = vendor_id (pci_devices s ! i) \<and> device = device_id (pci_devices s ! i))
          [0 ..< unat (pci_count s)])"

subsection \<open>The bus\<close>

text \<open>
  The configuration mechanism of PCI: a read of the data port returns the double word whose address
  was written to the address port last. An absent function reads as all ones.
\<close>

definition config_space :: "'z io_scheme \<Rightarrow> (u32 \<Rightarrow> u32) \<Rightarrow> bool" where
  "config_space s cfg \<longleftrightarrow>
     (\<forall>t a. dev32 s (Out32 PCI_CONFIG_ADDR_PORT a # t) PCI_CONFIG_DATA_PORT = cfg a)"

definition config_word :: "(u32 \<Rightarrow> u32) \<Rightarrow> u8 \<times> u8 \<Rightarrow> u8 \<Rightarrow> u32" where
  "config_word cfg sf i = cfg (0x80000000 OR pci_dev_addr sf OR ucast (i AND 0xFC))"

definition present :: "(u32 \<Rightarrow> u32) \<Rightarrow> u8 \<times> u8 \<Rightarrow> bool" where
  "present cfg sf \<longleftrightarrow> ucast (config_word cfg sf 0) \<noteq> (0xFFFF :: u16)"

definition device_at :: "(u32 \<Rightarrow> u32) \<Rightarrow> u8 \<times> u8 \<Rightarrow> pci_device" where
  "device_at cfg sf = map (config_word cfg sf) dword_offsets"

lemma pci_read_config_ok:
  "config_space s cfg \<Longrightarrow>
   \<exists>t. pci_read_config (pci_dev_addr sf) i s = Some (config_word cfg sf i, s\<lparr>io_trace := t\<rparr>)"
  by (auto simp: pci_read_config_def outl_def inl_def nbind_def config_space_def config_word_def Let_def)

lemma config_space_trace [simp]: "config_space (s\<lparr>io_trace := t\<rparr>) cfg = config_space s cfg"
  by (simp add: config_space_def)

lemma pci_read_device_ok:
  "config_space s cfg \<Longrightarrow>
   \<exists>t. pci_read_device (pci_dev_addr sf) is s = Some (map (config_word cfg sf) is, s\<lparr>io_trace := t\<rparr>)"
proof (induction "is" arbitrary: s)
  case Nil
  then show ?case by (intro exI [of _ "io_trace s"]) simp
next
  case (Cons i "is")
  obtain t where t: "pci_read_config (pci_dev_addr sf) i s = Some (config_word cfg sf i, s\<lparr>io_trace := t\<rparr>)"
    using pci_read_config_ok [OF Cons.prems] by blast
  then show ?case using Cons.IH [of "s\<lparr>io_trace := t\<rparr>"] Cons.prems by auto
qed


lemma config_space_table [simp]:
  "config_space (s\<lparr>pci_devices := d\<rparr>) cfg = config_space s cfg"
  "config_space (s\<lparr>pci_count := n\<rparr>) cfg = config_space s cfg"
  by (simp_all add: config_space_def)

text \<open>The scan appends the devices of the present functions, until the table is full.\<close>

lemma pci_scan_ok:
  assumes "config_space s cfg" "length (pci_devices s) = 16" "pci_count s = of_nat n" "n < 16"
  shows "\<exists>s'. pci_scan sfs s = Some ((), s') \<and>
    (let found = take (16 - n) (map (device_at cfg) (filter (present cfg) sfs))
     in take (n + length found) (pci_devices s') = take n (pci_devices s) @ found \<and>
        pci_count s' = of_nat (n + length found))"
  using assms
proof (induction sfs arbitrary: s n)
  case (Cons sf sfs)
  obtain t where t: "pci_read_config (pci_dev_addr sf) 0 s = Some (config_word cfg sf 0, s\<lparr>io_trace := t\<rparr>)"
    using pci_read_config_ok [OF Cons.prems(1)] by blast
  show ?case
  proof (cases "present cfg sf")
    case False
    then have skip: "pci_scan (sf # sfs) s = pci_scan sfs (s\<lparr>io_trace := t\<rparr>)"
      by (simp add: t present_def)
    show ?thesis unfolding skip using Cons.IH [of "s\<lparr>io_trace := t\<rparr>" n] Cons.prems False by auto
  next
    case True
    let ?d = "device_at cfg sf"
    obtain t' where t': "pci_read_device (pci_dev_addr sf) dword_offsets (s\<lparr>io_trace := t\<rparr>) =
        Some (?d, s\<lparr>io_trace := t'\<rparr>)"
      using pci_read_device_ok [of "s\<lparr>io_trace := t\<rparr>" cfg sf dword_offsets] Cons.prems(1)
      by (auto simp: device_at_def)
    let ?s = "s\<lparr>io_trace := t', pci_devices := (pci_devices s)[n := ?d], pci_count := of_nat (Suc n)\<rparr>"
    have n: "unat (pci_count s) = n" using Cons.prems(3,4) by (simp add: unat_of_nat_u16)
    have full: "16 \<le> (of_nat (Suc n) :: u16) \<longleftrightarrow> n = 15"
    proof -
      have "unat (of_nat (Suc n) :: u16) = Suc n" using Cons.prems(4) by (intro unat_of_nat_u16) simp
      then show ?thesis using Cons.prems(4) by (simp add: word_le_nat_alt del: of_nat_Suc) linarith
    qed
    have step: "pci_scan (sf # sfs) s = (if n = 15 then Some ((), ?s) else pci_scan sfs ?s)"
      using True n full Cons.prems(3)
      by (simp add: t t' present_def nbind_def ac_simps)
    have tk: "take (Suc n) (pci_devices ?s) = take n (pci_devices s) @ [?d]"
      using Cons.prems(2,4) by (simp add: take_Suc_conv_app_nth)
    show ?thesis
    proof (cases "n = 15")
      case True
      then show ?thesis using step tk \<open>present cfg sf\<close> by (auto simp: Let_def numeral_eq_Suc)
    next
      case False
      then have lt: "Suc n < 16" "16 - n = Suc (16 - Suc n)" using Cons.prems(4) by simp_all
      then show ?thesis
        using False step tk \<open>present cfg sf\<close> Cons.IH [of ?s "Suc n"] Cons.prems
        by (auto simp: Let_def)
    qed
  qed
qed simp

lemma find_map: "find P (map f xs) = map_option f (find (\<lambda>x. P (f x)) xs)"
  by (induction xs) simp_all

lemma find_nth: "find P xs = map_option ((!) xs) (find (\<lambda>i. P (xs ! i)) [0 ..< length xs])"
  using find_map [of P "(!) xs" "[0 ..< length xs]"] by (simp add: map_nth)

lemma find_table:
  assumes "\<And>i. i < length xs \<Longrightarrow> ys ! i = xs ! i"
  shows "map_option (\<lambda>i. ys ! i) (find (\<lambda>i. P (ys ! i)) [0 ..< length xs]) = find P xs"
proof -
  have "find (\<lambda>i. P (ys ! i)) [0 ..< length xs] = find (\<lambda>i. P (xs ! i)) [0 ..< length xs]"
    using assms by (intro find_cong) simp_all
  moreover have "map_option (\<lambda>i. ys ! i) (find Q [0 ..< length xs]) = map_option ((!) xs) (find Q [0 ..< length xs])" for Q
    using assms by (intro map_option_cong) (auto simp: find_upt_Some_iff)
  ultimately show ?thesis by (simp add: find_nth [of P xs])
qed

text \<open>
  C35: After \<open>pci_init\<close> on a bus that implements the configuration mechanism, \<open>pci_find_device\<close> finds the
  first device in scan order (slot by slot, function by function) with the vendor and device id,
  among the first 16 present functions of bus 0, and nothing when none of them has these ids.
\<close>

theorem pci_find_after_init:
  assumes "config_space s cfg"
  shows "\<exists>s'. pci_init s = Some ((), s') \<and>
    (\<forall>v d. pci_find_device s' v d =
       find (\<lambda>x. v = vendor_id x \<and> d = device_id x)
         (take 16 (map (device_at cfg) (filter (present cfg) pci_functions))))"
proof -
  let ?s = "s\<lparr>pci_devices := replicate 16 (replicate 16 0), pci_count := 0\<rparr>"
  let ?found = "take 16 (map (device_at cfg) (filter (present cfg) pci_functions))"
  obtain s' where s': "pci_scan pci_functions ?s = Some ((), s')"
      "take (length ?found) (pci_devices s') = ?found" "pci_count s' = of_nat (length ?found)"
    using pci_scan_ok [of ?s cfg 0 pci_functions] assms by (auto simp: Let_def)
  have n: "unat (pci_count s') = length ?found" using s'(3) by (simp add: unat_of_nat_u16)
  have same: "pci_devices s' ! i = ?found ! i" if "i < length ?found" for i
    using s'(2) that by (metis nth_take)
  have "pci_find_device s' v d = find (\<lambda>x. v = vendor_id x \<and> d = device_id x) ?found" for v d
    unfolding pci_find_device_def n by (rule find_table [OF same])
  then show ?thesis using s'(1) by (auto simp: pci_init_def nbind_def)
qed


definition demo_bus :: pci where
  "demo_bus = \<lparr>io_trace = [], dev8 = (\<lambda>t p. 0), dev32 = (\<lambda>t p. 0x802910EC), pci_count = 0, pci_devices = []\<rparr>"

theorem pci_find_after_init_witness:
  "\<exists>s'. pci_init demo_bus = Some ((), s') \<and>
     pci_find_device s' 0x10EC 0x8029 = Some (replicate 16 0x802910EC) \<and> pci_find_device s' 1 2 = None"
proof -
  let ?cfg = "\<lambda>a :: u32. 0x802910EC :: u32"
  have all: "filter (present ?cfg) pci_functions = pci_functions"
    by (simp add: present_def config_word_def)
  have dev: "device_at ?cfg sf = replicate 16 0x802910EC" for sf
    by (rule nth_equalityI) (simp_all add: device_at_def config_word_def dword_offsets_def)
  have "take 16 (map (device_at ?cfg) pci_functions) = replicate 16 (replicate 16 0x802910EC)"
    by (rule nth_equalityI) (simp_all add: dev pci_functions_def)
  moreover have "config_space demo_bus ?cfg" by (simp add: config_space_def demo_bus_def)
  moreover have "find P (replicate 16 x) = (if P x then Some x else None)" for P and x :: pci_device
    by (simp add: numeral_eq_Suc)
  moreover have "vendor_id (replicate 16 0x802910EC) = 0x10EC" "device_id (replicate 16 0x802910EC) = 0x8029"
    by (simp_all add: vendor_id_def device_id_def)
  ultimately show ?thesis using pci_find_after_init [of demo_bus ?cfg] by (auto simp: all)
qed

end
