(* ===== verification/Net_Checksum.thy ===== *)
theory Net_Checksum
  imports Byte_Order
begin

section \<open>Checksums (source/net.c)\<close>

text \<open>
  The Internet checksum and the CRC-32 of Ethernet frames, both on byte lists. 16-bit words are read
  from memory in the byte order of the machine, low byte first.
\<close>

definition net_checksum_final :: "u32 \<Rightarrow> u16" where
  "net_checksum_final acc =
     (let acc = (acc AND 0xFFFF) + drop_bit 16 acc; temp = NOT (ucast acc) :: u16
      in push_bit 8 (temp AND 0x00FF) OR drop_bit 8 (temp AND 0xFF00))"

fun net_checksum_acc :: "u8 list \<Rightarrow> u32" where
  "net_checksum_acc (a # b # p) = (ucast a OR push_bit 8 (ucast b)) + net_checksum_acc p"
| "net_checksum_acc [a] = ucast a"
| "net_checksum_acc [] = 0"

definition net_checksum :: "u8 list \<Rightarrow> u16" where
  "net_checksum data = net_checksum_final (net_checksum_acc data)"

definition poly8_lookup :: "u32 list" where
  "poly8_lookup = [
     0x00000000, 0x77073096, 0xEE0E612C, 0x990951BA, 0x076DC419, 0x706AF48F,
     0xE963A535, 0x9E6495A3, 0x0EDB8832, 0x79DCB8A4, 0xE0D5E91E, 0x97D2D988,
     0x09B64C2B, 0x7EB17CBD, 0xE7B82D07, 0x90BF1D91, 0x1DB71064, 0x6AB020F2,
     0xF3B97148, 0x84BE41DE, 0x1ADAD47D, 0x6DDDE4EB, 0xF4D4B551, 0x83D385C7,
     0x136C9856, 0x646BA8C0, 0xFD62F97A, 0x8A65C9EC, 0x14015C4F, 0x63066CD9,
     0xFA0F3D63, 0x8D080DF5, 0x3B6E20C8, 0x4C69105E, 0xD56041E4, 0xA2677172,
     0x3C03E4D1, 0x4B04D447, 0xD20D85FD, 0xA50AB56B, 0x35B5A8FA, 0x42B2986C,
     0xDBBBC9D6, 0xACBCF940, 0x32D86CE3, 0x45DF5C75, 0xDCD60DCF, 0xABD13D59,
     0x26D930AC, 0x51DE003A, 0xC8D75180, 0xBFD06116, 0x21B4F4B5, 0x56B3C423,
     0xCFBA9599, 0xB8BDA50F, 0x2802B89E, 0x5F058808, 0xC60CD9B2, 0xB10BE924,
     0x2F6F7C87, 0x58684C11, 0xC1611DAB, 0xB6662D3D, 0x76DC4190, 0x01DB7106,
     0x98D220BC, 0xEFD5102A, 0x71B18589, 0x06B6B51F, 0x9FBFE4A5, 0xE8B8D433,
     0x7807C9A2, 0x0F00F934, 0x9609A88E, 0xE10E9818, 0x7F6A0DBB, 0x086D3D2D,
     0x91646C97, 0xE6635C01, 0x6B6B51F4, 0x1C6C6162, 0x856530D8, 0xF262004E,
     0x6C0695ED, 0x1B01A57B, 0x8208F4C1, 0xF50FC457, 0x65B0D9C6, 0x12B7E950,
     0x8BBEB8EA, 0xFCB9887C, 0x62DD1DDF, 0x15DA2D49, 0x8CD37CF3, 0xFBD44C65,
     0x4DB26158, 0x3AB551CE, 0xA3BC0074, 0xD4BB30E2, 0x4ADFA541, 0x3DD895D7,
     0xA4D1C46D, 0xD3D6F4FB, 0x4369E96A, 0x346ED9FC, 0xAD678846, 0xDA60B8D0,
     0x44042D73, 0x33031DE5, 0xAA0A4C5F, 0xDD0D7CC9, 0x5005713C, 0x270241AA,
     0xBE0B1010, 0xC90C2086, 0x5768B525, 0x206F85B3, 0xB966D409, 0xCE61E49F,
     0x5EDEF90E, 0x29D9C998, 0xB0D09822, 0xC7D7A8B4, 0x59B33D17, 0x2EB40D81,
     0xB7BD5C3B, 0xC0BA6CAD, 0xEDB88320, 0x9ABFB3B6, 0x03B6E20C, 0x74B1D29A,
     0xEAD54739, 0x9DD277AF, 0x04DB2615, 0x73DC1683, 0xE3630B12, 0x94643B84,
     0x0D6D6A3E, 0x7A6A5AA8, 0xE40ECF0B, 0x9309FF9D, 0x0A00AE27, 0x7D079EB1,
     0xF00F9344, 0x8708A3D2, 0x1E01F268, 0x6906C2FE, 0xF762575D, 0x806567CB,
     0x196C3671, 0x6E6B06E7, 0xFED41B76, 0x89D32BE0, 0x10DA7A5A, 0x67DD4ACC,
     0xF9B9DF6F, 0x8EBEEFF9, 0x17B7BE43, 0x60B08ED5, 0xD6D6A3E8, 0xA1D1937E,
     0x38D8C2C4, 0x4FDFF252, 0xD1BB67F1, 0xA6BC5767, 0x3FB506DD, 0x48B2364B,
     0xD80D2BDA, 0xAF0A1B4C, 0x36034AF6, 0x41047A60, 0xDF60EFC3, 0xA867DF55,
     0x316E8EEF, 0x4669BE79, 0xCB61B38C, 0xBC66831A, 0x256FD2A0, 0x5268E236,
     0xCC0C7795, 0xBB0B4703, 0x220216B9, 0x5505262F, 0xC5BA3BBE, 0xB2BD0B28,
     0x2BB45A92, 0x5CB36A04, 0xC2D7FFA7, 0xB5D0CF31, 0x2CD99E8B, 0x5BDEAE1D,
     0x9B64C2B0, 0xEC63F226, 0x756AA39C, 0x026D930A, 0x9C0906A9, 0xEB0E363F,
     0x72076785, 0x05005713, 0x95BF4A82, 0xE2B87A14, 0x7BB12BAE, 0x0CB61B38,
     0x92D28E9B, 0xE5D5BE0D, 0x7CDCEFB7, 0x0BDBDF21, 0x86D3D2D4, 0xF1D4E242,
     0x68DDB3F8, 0x1FDA836E, 0x81BE16CD, 0xF6B9265B, 0x6FB077E1, 0x18B74777,
     0x88085AE6, 0xFF0F6A70, 0x66063BCA, 0x11010B5C, 0x8F659EFF, 0xF862AE69,
     0x616BFFD3, 0x166CCF45, 0xA00AE278, 0xD70DD2EE, 0x4E048354, 0x3903B3C2,
     0xA7672661, 0xD06016F7, 0x4969474D, 0x3E6E77DB, 0xAED16A4A, 0xD9D65ADC,
     0x40DF0B66, 0x37D83BF0, 0xA9BCAE53, 0xDEBB9EC5, 0x47B2CF7F, 0x30B5FFE9,
     0xBDBDF21C, 0xCABAC28A, 0x53B39330, 0x24B4A3A6, 0xBAD03605, 0xCDD70693,
     0x54DE5729, 0x23D967BF, 0xB3667A2E, 0xC4614AB8, 0x5D681B02, 0x2A6F2B94,
     0xB40BBE37, 0xC30C8EA1, 0x5A05DF1B, 0x2D02EF8D]"

definition xor32 :: "u32 \<Rightarrow> u32 \<Rightarrow> u32" where
  "xor32 a b =
     foldl (\<lambda>r i. r OR push_bit (8 * i) (ucast ((ucast (drop_bit (8 * i) a) :: u8) XOR ucast (drop_bit (8 * i) b))))
       0 [0 ..< 4]"

primrec crc32_loop :: "u32 \<Rightarrow> u8 list \<Rightarrow> u32" where
  "crc32_loop crc [] = crc"
| "crc32_loop crc (b # p) =
     crc32_loop (xor32 (poly8_lookup ! unat ((ucast (crc AND 0xFF) :: u8) XOR b)) (drop_bit 8 crc)) p"

definition crc32_byte :: "u8 list \<Rightarrow> u32" where
  "crc32_byte p = NOT (crc32_loop 0xFFFFFFFF p)"

text \<open>The reference: one bit at a time, with the reflected polynomial \<open>0xEDB88320\<close>.\<close>

definition crc_bit :: "u32 \<Rightarrow> u32" where
  "crc_bit r = (if bit r 0 then drop_bit 1 r XOR 0xEDB88320 else drop_bit 1 r)"

definition crc32_spec :: "u8 list \<Rightarrow> u32" where
  "crc32_spec p = NOT (foldl (\<lambda>r b. (crc_bit ^^ 8) (r XOR ucast b)) 0xFFFFFFFF p)"

lemma table_length: "length poly8_lookup = 256"
  by (simp add: poly8_lookup_def)

subsection \<open>The table\<close>

text \<open>
  The bitwise step is linear for XOR, so the table is determined by its entries at powers of two, and
  each half of a table of \<open>2 ^ (k + 1)\<close> entries is the other one shifted by the entry at \<open>2 ^ k\<close>.
\<close>

lemma crc_bit_xor: "crc_bit (a XOR b) = crc_bit a XOR crc_bit b"
proof -
  have d: "drop_bit 1 (a XOR b) = drop_bit 1 a XOR drop_bit 1 b" by simp
  show ?thesis unfolding crc_bit_def d by (simp add: bit_xor_iff ac_simps)
qed

lemma crc_bits_xor: "(crc_bit ^^ k) (a XOR b) = (crc_bit ^^ k) a XOR (crc_bit ^^ k) b"
  by (induction k) (simp_all add: crc_bit_xor)

lemma funpow8: "(f ^^ 8) x = f (f (f (f (f (f (f (f x)))))))"
  by (simp add: eval_nat_numeral)

lemma crc_bit_numeral:
  "crc_bit 0 = 0" "crc_bit 1 = 0xEDB88320"
  "crc_bit (numeral (num.Bit0 n)) = drop_bit 1 (numeral (num.Bit0 n))"
  "crc_bit (numeral (num.Bit1 n)) = drop_bit 1 (numeral (num.Bit1 n)) XOR 0xEDB88320"
  by (simp_all add: crc_bit_def bit_0)

lemma table_halves:
  "k < 8 \<Longrightarrow> map (\<lambda>x. poly8_lookup ! (2 ^ k) XOR x) (take (2 ^ k) poly8_lookup) =
    take (2 ^ k) (drop (2 ^ k) poly8_lookup)"
proof -
  assume "k < 8"
  then have "k = 0 \<or> k = 1 \<or> k = 2 \<or> k = 3 \<or> k = 4 \<or> k = 5 \<or> k = 6 \<or> k = 7" by linarith
  then show ?thesis by (elim disjE; hypsubst) (simp_all add: poly8_lookup_def)
qed

lemma table_powers: "k < 8 \<Longrightarrow> poly8_lookup ! (2 ^ k) = (crc_bit ^^ 8) (of_nat (2 ^ k))"
proof -
  assume "k < 8"
  then have "k = 0 \<or> k = 1 \<or> k = 2 \<or> k = 3 \<or> k = 4 \<or> k = 5 \<or> k = 6 \<or> k = 7" by linarith
  then show ?thesis
    by (elim disjE; hypsubst) (simp_all add: poly8_lookup_def funpow8 crc_bit_numeral)
qed

lemma table_entry: "k \<le> 8 \<Longrightarrow> i < 2 ^ k \<Longrightarrow> poly8_lookup ! i = (crc_bit ^^ 8) (of_nat i)"
proof (induction k arbitrary: i)
  case 0
  then show ?case by (simp add: poly8_lookup_def funpow8 crc_bit_numeral)
next
  case (Suc k)
  show ?case
  proof (cases "i < 2 ^ k")
    case True
    then show ?thesis using Suc by simp
  next
    case False
    let ?j = "i - 2 ^ k"
    have j: "?j < 2 ^ k" "i = 2 ^ k + ?j" using False Suc.prems(2) by simp_all
    have len: "2 ^ k + 2 ^ k \<le> length poly8_lookup"
      using Suc.prems(1) power_increasing [of "Suc k" 8 "2 :: nat"] by (simp add: table_length)
    have "poly8_lookup ! i = take (2 ^ k) (drop (2 ^ k) poly8_lookup) ! ?j"
      using j len by simp
    also have "\<dots> = map (\<lambda>x. poly8_lookup ! (2 ^ k) XOR x) (take (2 ^ k) poly8_lookup) ! ?j"
      using table_halves [of k] Suc.prems(1) by simp
    also have "\<dots> = poly8_lookup ! (2 ^ k) XOR poly8_lookup ! ?j" using j(1) len by simp
    also have "\<dots> = (crc_bit ^^ 8) (of_nat (2 ^ k)) XOR (crc_bit ^^ 8) (of_nat ?j)"
      using table_powers [of k] Suc.prems(1) Suc.IH [of ?j] j(1) by simp
    also have "\<dots> = (crc_bit ^^ 8) (of_nat (2 ^ k) XOR of_nat ?j)" by (rule crc_bits_xor [symmetric])
    also have "(of_nat (2 ^ k) XOR of_nat ?j :: u32) = of_nat i"
    proof -
      have "n < k" if "bit (of_nat ?j :: u32) n" for n
      proof -
        have "bit ?j n" using that by (simp add: bit_of_nat_iff)
        then show ?thesis using j(1) by (metis bit_take_bit_iff take_bit_nat_eq_self)
      qed
      then have "(of_nat (2 ^ k) :: u32) AND of_nat ?j = 0"
        by (intro bit_eqI) (auto simp: bit_simps)
      then have "(of_nat (2 ^ k) :: u32) + of_nat ?j = of_nat (2 ^ k) XOR of_nat ?j"
        by (simp add: disjunctive_add_eq_xor)
      then show ?thesis using j(2) by (metis of_nat_add)
    qed
    finally show ?thesis .
  qed
qed


subsection \<open>The routine\<close>

lemma xor32_xor: "xor32 a b = a XOR b"
proof (rule bit_eqI)
  fix n assume "possible_bit TYPE(u32) n"
  then have n: "n < 32" by (simp add: possible_bit_word)
  have eq: "xor32 a b = ucast (ucast a XOR (ucast b :: u8)) OR
      push_bit 8 (ucast (ucast (drop_bit 8 a) XOR (ucast (drop_bit 8 b) :: u8))) OR
      push_bit 16 (ucast (ucast (drop_bit 16 a) XOR (ucast (drop_bit 16 b) :: u8))) OR
      push_bit 24 (ucast (ucast (drop_bit 24 a) XOR (ucast (drop_bit 24 b) :: u8)))"
    by (simp add: xor32_def upt_conv_Cons or.assoc)
  consider "n < 8" | "8 \<le> n" "n < 16" | "16 \<le> n" "n < 24" | "24 \<le> n" by linarith
  then show "bit (xor32 a b) n \<longleftrightarrow> bit (a XOR b) n"
    using n by cases (simp_all add: eq bit_simps less_diff_conv2)
qed

lemma crc_bits_shift: "take_bit k r = 0 \<Longrightarrow> (crc_bit ^^ k) r = drop_bit k r"
proof (induction k arbitrary: r)
  case (Suc k)
  have low: "\<not> bit r j" if "j < Suc k" for j
    using Suc.prems that by (metis bit_0_eq bit_take_bit_iff bot_apply bot_bool_def)
  then have "crc_bit r = drop_bit 1 r" by (simp add: crc_bit_def)
  moreover have "take_bit k (drop_bit 1 r) = 0"
    using low by (intro bit_eqI) (auto simp: bit_simps)
  ultimately show ?case using Suc.IH [of "drop_bit 1 r"]
    by (simp only: funpow_Suc_right comp_apply) simp
qed simp

lemma crc_step:
  "(crc_bit ^^ 8) (r XOR ucast b) =
     poly8_lookup ! unat ((ucast (r AND 0xFF) :: u8) XOR b) XOR drop_bit 8 r"
proof -
  let ?i = "(ucast (r AND 0xFF) :: u8) XOR b"
  have ff: "(0xFF :: u32) = mask 8" by (simp add: mask_eq_exp_minus_1)
  have split: "r XOR ucast b = ucast ?i XOR push_bit 8 (drop_bit 8 r)"
    unfolding ff by (rule bit_eqI) (auto simp: bit_simps)
  have "(crc_bit ^^ 8) (push_bit 8 (drop_bit 8 r)) = drop_bit 8 (push_bit 8 (drop_bit 8 r))"
    by (rule crc_bits_shift) (rule bit_eqI, simp add: bit_simps)
  also have "\<dots> = drop_bit 8 r"
    by (rule bit_eqI) (auto simp: bit_simps dest: bit_imp_possible_bit simp: possible_bit_word)
  finally have high: "(crc_bit ^^ 8) (push_bit 8 (drop_bit 8 r)) = drop_bit 8 r" .
  have "poly8_lookup ! unat ?i = (crc_bit ^^ 8) (of_nat (unat ?i))"
    using unat_u8_lt [of ?i] by (intro table_entry [of 8]) simp_all
  then have "(crc_bit ^^ 8) (ucast ?i) = poly8_lookup ! unat ?i" by simp
  then show ?thesis by (simp only: split crc_bits_xor high)
qed

lemma crc32_loop_spec: "crc32_loop r p = foldl (\<lambda>r b. (crc_bit ^^ 8) (r XOR ucast b)) r p"
  by (induction p arbitrary: r) (simp_all only: crc32_loop.simps foldl.simps crc_step xor32_xor)

text \<open>
  C33: The table-driven \<open>crc32_byte\<close> is the CRC-32 of Ethernet for every input: it equals the definition
  that shifts one bit at a time through the reflected polynomial \<open>0xEDB88320\<close>, so all 256 entries of
  the table are right.
\<close>

theorem crc32_is_crc: "crc32_byte p = crc32_spec p"
  by (simp only: crc32_byte_def crc32_spec_def crc32_loop_spec)


subsection \<open>The Internet checksum\<close>

lemma net_checksum_final_eq:
  "net_checksum_final r =
     BSWAP_16 (of_nat (65535 - (unat r mod 65536 + unat r div 65536) mod 65536))"
proof -
  let ?f = "(r AND 0xFFFF) + drop_bit 16 r" and ?n = "(unat r mod 65536 + unat r div 65536) mod 65536"
  let ?t = "NOT (ucast ?f) :: u16"
  have m: "(0xFFFF :: u32) = mask 16" by (simp add: mask_eq_exp_minus_1)
  have a: "unat (r AND 0xFFFF) = unat r mod 65536"
    by (simp only: m take_bit_eq_mask [symmetric] unsigned_take_bit_eq) (simp add: take_bit_eq_mod)
  have b: "unat (drop_bit 16 r) = unat r div 65536"
    by (simp add: drop_bit_eq_div unat_div)
  have "unat r mod 65536 < 65536" "unat r div 65536 < 65536" using unat_u32_lt [of r] by simp_all
  then have f: "unat ?f = unat r mod 65536 + unat r div 65536"
    using a b by (simp add: unat_word_ariths)
  then have "unat (ucast ?f :: u16) = ?n"
    by (simp add: unsigned_ucast_eq take_bit_eq_mod)
  moreover have "unat (NOT w) = 65535 - unat w" for w :: u16
  proof -
    have "NOT w = 0xFFFF - w" by (simp add: not_eq_complement)
    then show ?thesis using unat_u16_lt [of w] by (simp add: unat_sub word_le_nat_alt)
  qed
  ultimately have "unat ?t = 65535 - ?n" by simp
  then have "of_nat (unat ?t) = (of_nat (65535 - ?n) :: u16)" by (rule arg_cong)
  then have t: "?t = of_nat (65535 - ?n)" by simp
  have "net_checksum_final r = BSWAP_16 ?t"
  proof -
    have ff00: "(0xFF00 :: u16) = NOT (mask 8)" by (simp add: mask_eq_exp_minus_1)
    have "drop_bit 8 (x AND 0xFF00) = drop_bit 8 x" for x :: u16
      unfolding ff00 by (rule bit_eqI) (auto simp: bit_simps dest: bit_imp_le_length)
    then show ?thesis by (simp add: net_checksum_final_def BSWAP_16_def Let_def)
  qed
  then show ?thesis using t by simp
qed

text \<open>The sum of the words of a packet as a number.\<close>

fun word_sum :: "u8 list \<Rightarrow> nat" where
  "word_sum (a # b # p) = unat a + 256 * unat b + word_sum p"
| "word_sum [a] = unat a"
| "word_sum [] = 0"

lemma unat_word_le: "unat (ucast (a :: u8) OR push_bit 8 (ucast (b :: u8)) :: u32) = unat a + 256 * unat b"
proof -
  have "(ucast a :: u32) AND push_bit 8 (ucast b) = 0"
    by (rule bit_eqI) (auto simp: bit_simps dest!: bit_imp_le_length)
  then have "(ucast a OR push_bit 8 (ucast b) :: u32) = ucast a + push_bit 8 (ucast b)"
    by (simp add: disjunctive_add_eq_or)
  also have "unat \<dots> = unat a + 256 * unat b"
  proof -
    have "unat (ucast x :: u32) = unat x" for x :: u8
      using unat_u8_lt [of x] by (simp add: unsigned_ucast_eq take_bit_nat_eq_self)
    then show ?thesis using unat_u8_lt [of a] unat_u8_lt [of b]
      by (simp add: unat_word_ariths push_bit_eq_mult)
  qed
  finally show ?thesis .
qed

lemma word_sum_bound: "word_sum p \<le> 65535 * ((length p + 1) div 2)"
proof (induction p rule: word_sum.induct)
  case (1 a b p)
  then show ?case using unat_u8_lt [of a] unat_u8_lt [of b] by simp
next
  case (2 a)
  then show ?case using unat_u8_lt [of a] by simp
qed simp

lemma net_checksum_acc_sum: "length p \<le> 65535 \<Longrightarrow> unat (net_checksum_acc p) = word_sum p"
proof (induction p rule: word_sum.induct)
  case (1 a b p)
  have "word_sum (a # b # p) \<le> 65535 * 32768"
    using 1(2) by (intro order_trans [OF word_sum_bound] mult_le_mono2) simp
  then show ?case using 1 by (simp add: unat_word_ariths unat_word_le)
next
  case (2 a)
  show ?case using unat_u8_lt [of a] by (simp add: unsigned_ucast_eq take_bit_nat_eq_self)
qed simp

lemma word_sum_append: "even (length p) \<Longrightarrow> word_sum (p @ q) = word_sum p + word_sum q"
  by (induction p rule: word_sum.induct) simp_all

lemma word_sum_le16: "word_sum (le16 w) = unat w"
proof -
  have "unat (ucast w :: u8) = unat w mod 256" "unat (ucast (drop_bit 8 w) :: u8) = unat w div 256"
    using unat_u16_lt [of w]
    by (simp_all add: unsigned_ucast_eq take_bit_eq_mod drop_bit_eq_div unat_div)
  then show ?thesis by (simp add: le16_def)
qed

text \<open>Adding the complement of the folded sum makes the fold all ones, when the fold does not carry.\<close>

lemma fold_complement:
  fixes S :: nat
  assumes "S < 65536 * 65535"
  defines "f \<equiv> S mod 65536 + S div 65536"
  defines "S' \<equiv> S + (65535 - f mod 65536)"
  shows "(S' mod 65536 + S' div 65536) mod 65536 = (if f < 65536 then 65535 else 0)"
proof -
  define h l where "h = S div 65536" and "l = S mod 65536"
  have hl: "S = 65536 * h + l" "l < 65536" "h < 65535" using assms(1) by (simp_all add: h_def l_def)
  have f: "f = h + l" by (simp add: f_def h_def l_def)
  show ?thesis
  proof (cases "f < 65536")
    case True
    then have "S' = 65536 * h + (65535 - h)" using hl f by (simp add: S'_def)
    then have "S' mod 65536 = (65535 - h) mod 65536" "S' div 65536 = h + (65535 - h) div 65536"
      by (simp_all only: mod_mult_self4 div_mult_self4)
    then show ?thesis using True hl(3) by simp
  next
    case False
    then have "f mod 65536 = f - 65536" using hl f by (simp add: mod_if)
    then have "S' = 65536 * (h + 1) + (65535 - h)" using hl f False by (simp add: S'_def)
    then have "S' mod 65536 = (65535 - h) mod 65536" "S' div 65536 = h + 1 + (65535 - h) div 65536"
      by (simp_all only: mod_mult_self4 div_mult_self4)
    then show ?thesis using False hl(3) by simp
  qed
qed

text \<open>
  C34: A packet whose checksum field (two bytes at an even offset) is filled with the byte-swapped
  checksum of the packet with that field 0, as \<open>ip_send\<close> and \<open>udp_send\<close> do, has checksum 0, as
  a receiver verifies it, exactly when folding the sum of its words once leaves no carry; the code
  folds only once, and with a carry the checksum of the packet is \<open>0xFFFF\<close>.
\<close>

theorem checksum_verifies:
  assumes "even (length p)" "length (p @ [0, 0] @ q) \<le> 65535"
  defines "S \<equiv> word_sum (p @ [0, 0] @ q)"
  defines "c \<equiv> BSWAP_16 (net_checksum (p @ [0, 0] @ q))"
  shows "net_checksum (p @ le16 c @ q) = (if S mod 65536 + S div 65536 < 65536 then 0 else 0xFFFF)"
proof -
  let ?f = "S mod 65536 + S div 65536" and ?p = "p @ le16 c @ q"
  have fin: "net_checksum r = BSWAP_16 (of_nat (65535 - (word_sum r mod 65536 + word_sum r div 65536) mod 65536))"
    if "length r \<le> 65535" for r
    using that by (simp add: net_checksum_def net_checksum_final_eq net_checksum_acc_sum)
  have c: "unat c = 65535 - ?f mod 65536"
    unfolding c_def fin [OF assms(2)] BSWAP_16_twice S_def by (intro unat_of_nat_u16) simp
  have sum: "word_sum ?p = S + unat c"
    using assms(1) by (simp add: S_def word_sum_append word_sum_le16)
  have "word_sum (p @ [0, 0] @ q) \<le> 65535 * 32768"
    using assms(2) by (intro order_trans [OF word_sum_bound] mult_le_mono2) simp
  then have "S < 65536 * 65535" by (simp add: S_def)
  then have fold: "(word_sum ?p mod 65536 + word_sum ?p div 65536) mod 65536 = (if ?f < 65536 then 65535 else 0)"
    unfolding sum c by (rule fold_complement)
  have "length ?p \<le> 65535" using assms(2) by simp
  note fin [OF this, unfolded fold]
  then show ?thesis by (simp add: BSWAP_16_def)
qed

theorem checksum_verifies_witness:
  "net_checksum ([0x45, 0, 0, 20] @ le16 (BSWAP_16 (net_checksum ([0x45, 0, 0, 20] @ [0, 0] @ [1, 2]))) @ [1, 2])
     = 0 \<and>
   net_checksum ([0xFF, 0xFF, 2, 0] @ le16 (BSWAP_16 (net_checksum ([0xFF, 0xFF, 2, 0] @ [0, 0] @ [0xFE, 0xFF]))) @
     [0xFE, 0xFF]) = 0xFFFF"
proof -
  have "word_sum ([0x45, 0, 0, 20] @ [0, 0] @ [1, 2]) = 5702" by simp
  moreover have "word_sum ([0xFF, 0xFF, 2, 0] @ [0, 0] @ [0xFE, 0xFF]) = 131071" by simp
  ultimately show ?thesis
    using checksum_verifies [of "[0x45, 0, 0, 20]" "[1, 2]"]
      checksum_verifies [of "[0xFF, 0xFF, 2, 0]" "[0xFE, 0xFF]"]
    by (simp only:) simp
qed

end
