(* ===== verification/Net.thy ===== *)
theory Net
  imports Pci Net_Checksum Ulib_Memory
begin

section \<open>The network (source/net.c)\<close>

text \<open>
  State of the network: card, addresses, ARP table and packet buffers. The send buffer and the buffer
  of received frames are memory: address 0 is the first of the 256 bytes of \<open>snd_buff\<close> (of
  \<open>tmp_buff\<close>), and the addresses from 256 on are whatever follows it, since the code can run over
  the end. A pointer into the send buffer is an address; a pointer to a MAC address is
  \<open>mac_ptr\<close>. \<open>irqs\<close> is the number of card interrupts served while \<open>wait\<close> runs, given what happened on
  the ports. Debug output is not modelled.
\<close>

definition NE2K_CR :: u16 where [simp]: "NE2K_CR = 0x00"
definition NE2K_BNRY :: u16 where [simp]: "NE2K_BNRY = 0x03"
definition NE2K_ISR :: u16 where [simp]: "NE2K_ISR = 0x07"
definition NE2K_PSTART :: u16 where [simp]: "NE2K_PSTART = 0x01"
definition NE2K_PSTOP :: u16 where [simp]: "NE2K_PSTOP = 0x02"
definition NE2K_TPSR :: u16 where [simp]: "NE2K_TPSR = 0x04"
definition NE2K_TBCR0 :: u16 where [simp]: "NE2K_TBCR0 = 0x05"
definition NE2K_TBCR1 :: u16 where [simp]: "NE2K_TBCR1 = 0x06"
definition NE2K_RSAR0 :: u16 where [simp]: "NE2K_RSAR0 = 0x08"
definition NE2K_RSAR1 :: u16 where [simp]: "NE2K_RSAR1 = 0x09"
definition NE2K_RBCR0 :: u16 where [simp]: "NE2K_RBCR0 = 0x0A"
definition NE2K_RBCR1 :: u16 where [simp]: "NE2K_RBCR1 = 0x0B"
definition NE2K_RCR :: u16 where [simp]: "NE2K_RCR = 0x0C"
definition NE2K_TCR :: u16 where [simp]: "NE2K_TCR = 0x0D"
definition NE2K_DCR :: u16 where [simp]: "NE2K_DCR = 0x0E"
definition NE2K_IMR :: u16 where [simp]: "NE2K_IMR = 0x0F"
definition NE2K_PAR0 :: u16 where [simp]: "NE2K_PAR0 = 0x01"
definition NE2K_CURR :: u16 where [simp]: "NE2K_CURR = 0x07"
definition NE2K_MAR0 :: u16 where [simp]: "NE2K_MAR0 = 0x08"
definition NE2K_DATA :: u16 where [simp]: "NE2K_DATA = 0x10"
definition NE2K_RESET :: u16 where [simp]: "NE2K_RESET = 0x1F"
definition NE2K_STAT_RX :: u8 where [simp]: "NE2K_STAT_RX = 0x01"

definition MAC_LEN :: nat where [simp]: "MAC_LEN = 6"
definition IP_LEN :: nat where [simp]: "IP_LEN = 4"
definition ETH_TYPE_ARP :: u16 where [simp]: "ETH_TYPE_ARP = 0x0806"
definition ETH_TYPE_IP :: u16 where [simp]: "ETH_TYPE_IP = 0x0800"
definition ETH_HDR_LEN :: u16 where [simp]: "ETH_HDR_LEN = 14"
definition ETH_CRC_LEN :: u16 where [simp]: "ETH_CRC_LEN = 4"
definition ARP_HTYPE_ETHER :: u16 where [simp]: "ARP_HTYPE_ETHER = 1"
definition ARP_PTYPE_IP :: u16 where [simp]: "ARP_PTYPE_IP = 0x0800"
definition ARP_PTYPE_ARP :: u16 where [simp]: "ARP_PTYPE_ARP = 0x0806"
definition ARP_OP_REQUEST :: u16 where [simp]: "ARP_OP_REQUEST = 1"
definition ARP_OP_REPLY :: u16 where [simp]: "ARP_OP_REPLY = 2"
definition IP_PROTOCOL_UDP :: u8 where [simp]: "IP_PROTOCOL_UDP = 17"
definition ARP_TABLE_LEN :: nat where [simp]: "ARP_TABLE_LEN = 8"
definition NSUDP_PROTO_PORT :: u16 where [simp]: "NSUDP_PROTO_PORT = 8086"
definition NET_BUFF_SIZE :: u16 where [simp]: "NET_BUFF_SIZE = 256"

record arp_table_info =
  arp_ip :: "u8 list"
  arp_mac :: "u8 list"

record net = pci +
  network_enabled :: u16
  net_irq :: u16
  rx_next :: u16
  base_port :: u16
  local_mac :: "u8 list"
  local_ip :: "u8 list"
  local_gate :: "u8 list"
  local_net :: "u8 list"
  arp_table :: "arp_table_info list"
  snd_buff :: mem
  tmp_buff :: mem
  rcv_buff :: "u8 list"
  rcv_addr :: "u8 list"
  rcv_port :: u16
  rcv_size :: u16
  ip_id :: u16
  irqs :: "port_event list \<Rightarrow> nat"

type_synonym 'a netm = "(net, 'a) iom"

subsection \<open>Packets\<close>

text \<open>The headers as the structures of the code; fields of two bytes are in network order there.\<close>

record arp_hdr =
  hrd :: u16
  pro :: u16
  hln :: u8
  pln :: u8
  arp_op :: u16
  sha :: "u8 list"
  spa :: "u8 list"
  dha :: "u8 list"
  dpa :: "u8 list"

definition arp_bytes :: "arp_hdr \<Rightarrow> u8 list" where
  "arp_bytes h = le16 (hrd h) @ le16 (pro h) @ [hln h, pln h] @ le16 (arp_op h) @
     sha h @ spa h @ dha h @ dpa h"

definition arp_at :: "mem \<Rightarrow> u16 \<Rightarrow> arp_hdr" where
  "arp_at m a = \<lparr>hrd = of_le16 (get_mem m a 2), pro = of_le16 (get_mem m (a + 2) 2),
     hln = m (a + 4), pln = m (a + 5), arp_op = of_le16 (get_mem m (a + 6) 2),
     sha = get_mem m (a + 8) MAC_LEN, spa = get_mem m (a + 14) IP_LEN,
     dha = get_mem m (a + 18) MAC_LEN, dpa = get_mem m (a + 24) IP_LEN\<rparr>"

record ip_hdr =
  verIhl :: u8
  tos :: u8
  ip_len :: u16
  ip_ident :: u16
  ip_offset :: u16
  ttl :: u8
  protocol :: u8
  ip_checksum :: u16
  ip_src :: "u8 list"
  ip_dst :: "u8 list"

definition ip_bytes :: "ip_hdr \<Rightarrow> u8 list" where
  "ip_bytes h = [verIhl h, tos h] @ le16 (ip_len h) @ le16 (ip_ident h) @ le16 (ip_offset h) @
     [ttl h, protocol h] @ le16 (ip_checksum h) @ ip_src h @ ip_dst h"

definition SIZEOF_ARP :: u16 where [simp]: "SIZEOF_ARP = 28"
definition SIZEOF_IP :: u16 where [simp]: "SIZEOF_IP = 20"
definition SIZEOF_UDP :: u16 where [simp]: "SIZEOF_UDP = 8"
definition SIZEOF_UDPIP :: u16 where [simp]: "SIZEOF_UDPIP = 12"

subsection \<open>Addresses\<close>

datatype mac_ptr = LocalMac | TableMac nat

definition mac_at :: "net \<Rightarrow> mac_ptr \<Rightarrow> u8 list" where
  "mac_at s p = (case p of LocalMac \<Rightarrow> local_mac s | TableMac i \<Rightarrow> arp_mac (arp_table s ! i))"

definition set_mac :: "mac_ptr \<Rightarrow> u8 list \<Rightarrow> net \<Rightarrow> net" where
  "set_mac p mac s =
     (case p of LocalMac \<Rightarrow> s\<lparr>local_mac := mac\<rparr>
      | TableMac i \<Rightarrow> s\<lparr>arp_table := (arp_table s)[i := (arp_table s ! i)\<lparr>arp_mac := mac\<rparr>]\<rparr>)"

definition get_effective_ip :: "net \<Rightarrow> u8 list \<Rightarrow> u8 list" where
  "get_effective_ip s ip =
     (if list_all (\<lambda>i. ip ! i AND local_net s ! i = local_ip s ! i AND local_net s ! i) [0 ..< IP_LEN]
      then ip else local_gate s)"

definition find_mac_in_table :: "net \<Rightarrow> u8 list \<Rightarrow> mac_ptr option" where
  "find_mac_in_table s ip =
     (if memcmp ip (local_ip s) IP_LEN = 0 then Some LocalMac
      else map_option TableMac
        (find (\<lambda>i. memcmp (arp_ip (arp_table s ! i)) ip IP_LEN = 0) [0 ..< ARP_TABLE_LEN]))"

subsection \<open>Sending\<close>

definition ne2k_page_select :: "u16 \<Rightarrow> unit netm" where
  "ne2k_page_select page =
     nbind (nget base_port) (\<lambda>base.
     let pg = push_bit 6 (page AND 0x01)
     in nbind (inb (base + NE2K_CR)) (\<lambda>v.
        outb (ucast (pg OR ucast (0x3F AND v))) (base + NE2K_CR)))"

text \<open>\<open>ne2k_send\<close>: the frame is the \<open>len\<close> bytes of the send buffer at \<open>data\<close>.\<close>

definition ne2k_send :: "u16 \<Rightarrow> u16 \<Rightarrow> u16 netm" where
  "ne2k_send data len =
     nbind (nget base_port) (\<lambda>base.
     nbind (while_in (\<lambda>v. v = 0x26) (base + NE2K_CR)) (\<lambda>_.
     nbind (ne2k_page_select 0) (\<lambda>_.
     nbind (outb 0 (base + NE2K_RSAR0)) (\<lambda>_.
     nbind (outb 0x40 (base + NE2K_RSAR1)) (\<lambda>_.
     nbind (outb (ucast (len AND 0xFF)) (base + NE2K_RBCR0)) (\<lambda>_.
     nbind (outb (ucast (drop_bit 8 len AND 0xFF)) (base + NE2K_RBCR1)) (\<lambda>_.
     nbind (outb 0x12 (base + NE2K_CR)) (\<lambda>_.
     nbind (nget (\<lambda>s. get_mem (snd_buff s) data (unat len))) (\<lambda>frame.
     nbind (outs frame (base + NE2K_DATA)) (\<lambda>_.
     nbind (while_in (\<lambda>v. v AND 0x40 = 0) (base + NE2K_ISR)) (\<lambda>_.
     nbind (outb 0x40 (base + NE2K_ISR)) (\<lambda>_.
     nbind (outb 0x40 (base + NE2K_TPSR)) (\<lambda>_.
     nbind (outb (ucast (len AND 0xFF)) (base + NE2K_TBCR0)) (\<lambda>_.
     nbind (outb (ucast (drop_bit 8 len AND 0xFF)) (base + NE2K_TBCR1)) (\<lambda>_.
     nbind (outb 0x26 (base + NE2K_CR)) (\<lambda>_.
     nret 0))))))))))))))))"

text \<open>
  \<open>eth_send\<close>: the payload moves up by the length of the header, the header and the checksum go around
  it. \<open>dst_mac\<close> is the address the pointer argument points to.
\<close>

definition eth_frame :: "u8 list \<Rightarrow> u8 list \<Rightarrow> u16 \<Rightarrow> u16 \<Rightarrow> u16 \<Rightarrow> mem \<Rightarrow> mem" where
  "eth_frame mac dst_mac type data len m =
     (let m = snd (memcpy m (data + ETH_HDR_LEN) data len);
          m = put_mem m data dst_mac;
          m = put_mem m (data + 6) mac;
          m = put_mem m (data + 12) (le16 (BSWAP_16 type));
          eth_crc = crc32_byte (get_mem m data (unat (ETH_HDR_LEN + len)))
      in put_mem m (data + ETH_HDR_LEN + len) (le32 eth_crc))"

definition eth_send :: "u8 list \<Rightarrow> u16 \<Rightarrow> u16 \<Rightarrow> u16 \<Rightarrow> u16 netm" where
  "eth_send dst_mac type data len =
     nbind (nput (\<lambda>s. s\<lparr>snd_buff := eth_frame (local_mac s) dst_mac type data len (snd_buff s)\<rparr>)) (\<lambda>_.
     ne2k_send data (len + ETH_HDR_LEN + ETH_CRC_LEN))"

definition arp_send :: "u16 \<Rightarrow> u8 list \<Rightarrow> u8 list \<Rightarrow> u16 netm" where
  "arp_send op mac ip =
     nbind (nput (\<lambda>s. s\<lparr>snd_buff := put_mem (snd_buff s) 0 (arp_bytes
       \<lparr>hrd = BSWAP_16 ARP_HTYPE_ETHER, pro = BSWAP_16 ARP_PTYPE_IP, hln = of_nat MAC_LEN,
        pln = of_nat IP_LEN, arp_op = BSWAP_16 op, sha = local_mac s, spa = local_ip s,
        dha = mac, dpa = ip\<rparr>)\<rparr>)) (\<lambda>_.
     eth_send mac ETH_TYPE_ARP 0 SIZEOF_ARP)"

definition arp_request :: "u8 list \<Rightarrow> u16 netm" where
  "arp_request ip = arp_send ARP_OP_REQUEST (replicate MAC_LEN 0xFF) ip"

definition arp_reply :: "u8 list \<Rightarrow> u8 list \<Rightarrow> u16 netm" where
  "arp_reply mac ip = arp_send ARP_OP_REPLY mac ip"

text \<open>
  The macro \<open>BSWAP_16\<close> evaluates its argument twice, and \<open>ip_send\<close> gives it \<open>++id\<close>: every packet advances the static
  variable by two, and the two bytes of its identification come from two values. \<open>i\<close> is the value before; the operands are
  evaluated from left to right.
\<close>

definition ident_field :: "u16 \<Rightarrow> u16" where
  "ident_field i = push_bit 8 ((i + 1) AND 0xff) OR drop_bit 8 (i + 2)"

definition ip_packet :: "u8 list \<Rightarrow> u16 \<Rightarrow> u8 list \<Rightarrow> u8 \<Rightarrow> u16 \<Rightarrow> u16 \<Rightarrow> mem \<Rightarrow> mem" where
  "ip_packet src ident dst proto data len m =
     (let m = snd (memcpy m (data + SIZEOF_IP) data len);
          m = put_mem m data (ip_bytes
            \<lparr>verIhl = push_bit 4 4 OR 5, tos = 0, ip_len = BSWAP_16 (len + SIZEOF_IP),
             ip_ident = ident, ip_offset = BSWAP_16 0, ttl = 128, protocol = proto,
             ip_checksum = 0, ip_src = src, ip_dst = dst\<rparr>);
          checksum = net_checksum (get_mem m data (unat SIZEOF_IP))
      in put_mem m (data + 10) (le16 (BSWAP_16 checksum)))"

definition ip_send :: "u8 list \<Rightarrow> u8 \<Rightarrow> u16 \<Rightarrow> u16 \<Rightarrow> u16 netm" where
  "ip_send dst_ip proto data len =
     nbind (nput (\<lambda>s. s\<lparr>ip_id := ip_id s + 2,
       snd_buff := ip_packet (local_ip s) (ident_field (ip_id s)) dst_ip proto data len (snd_buff s)\<rparr>)) (\<lambda>_.
     nbind (nget (\<lambda>s. map_option (mac_at s) (find_mac_in_table s (get_effective_ip s dst_ip)))) (\<lambda>mac.
     case mac of
       None \<Rightarrow> nret 1
     | Some dst_mac \<Rightarrow> eth_send dst_mac ETH_TYPE_IP data (SIZEOF_IP + len)))"

subsection \<open>Receiving\<close>

text \<open>\<open>ip_recv_process\<close>: the packet at \<open>buff\<close> in the buffer of received frames; one datagram is kept.\<close>

definition ip_recv_process :: "u16 \<Rightarrow> net \<Rightarrow> net" where
  "ip_recv_process buff s =
     (let m = tmp_buff s
      in if rcv_size s > 0 then s
         else if m (buff + 9) = IP_PROTOCOL_UDP
         then let uh = buff + SIZEOF_IP;
                  srcPort = of_le16 (get_mem m uh 2);
                  dstPort = of_le16 (get_mem m (uh + 2) 2);
                  len = of_le16 (get_mem m (uh + 4) 2);
                  n = (if BSWAP_16 len - SIZEOF_UDP < NET_BUFF_SIZE then BSWAP_16 len - SIZEOF_UDP else NET_BUFF_SIZE)
           in if BSWAP_16 dstPort = NSUDP_PROTO_PORT
              then s\<lparr>rcv_port := BSWAP_16 srcPort, rcv_size := n,
                     rcv_addr := get_mem m (buff + 12) IP_LEN,
                     rcv_buff := get_mem m (uh + SIZEOF_UDP) (unat n) @ drop (unat n) (rcv_buff s)\<rparr>
              else s
         else s)"

text \<open>\<open>arp_recv_process\<close>: replies are learnt, requests for the local address answered.\<close>

definition arp_learn :: "arp_hdr \<Rightarrow> net \<Rightarrow> net" where
  "arp_learn ah s =
     (case find_mac_in_table s (spa ah) of
        Some mac \<Rightarrow> set_mac mac (sha ah) s
      | None \<Rightarrow>
          (case find (\<lambda>i. arp_ip (arp_table s ! i) ! 0 = 0 \<or> i = ARP_TABLE_LEN - 1) [0 ..< ARP_TABLE_LEN] of
             None \<Rightarrow> s
           | Some i \<Rightarrow> s\<lparr>arp_table := (arp_table s)[i := \<lparr>arp_ip = spa ah, arp_mac = sha ah\<rparr>]\<rparr>))"

definition arp_recv_process :: "u16 \<Rightarrow> unit netm" where
  "arp_recv_process buff =
     nbind (nget (\<lambda>s. (arp_at (tmp_buff s) buff, local_ip s))) (\<lambda>(ah, local).
     if hrd ah = BSWAP_16 ARP_HTYPE_ETHER \<and> pro ah = BSWAP_16 ARP_PTYPE_IP
     then if arp_op ah = BSWAP_16 ARP_OP_REPLY \<and> memcmp (dpa ah) local IP_LEN = 0
          then nput (arp_learn ah)
          else if arp_op ah = BSWAP_16 ARP_OP_REQUEST
          then if memcmp (dpa ah) local IP_LEN = 0
               then nbind (arp_reply (sha ah) (spa ah)) (\<lambda>_. nret ()) else nret ()
          else nret ()
     else nret ())"

text \<open>The dispatch of a received frame to the handler of its type.\<close>

definition process_frame :: "unit netm" where
  "process_frame =
     nbind (nget (\<lambda>s. s)) (\<lambda>s.
     let m = tmp_buff s; dst = get_mem m 0 MAC_LEN; type = BSWAP_16 (of_le16 (get_mem m 12 2))
     in if memcmp dst (local_mac s) MAC_LEN = 0 \<or> memcmp dst (arp_mac (arp_table s ! 0)) MAC_LEN = 0
        then if type = ARP_PTYPE_IP then nput (ip_recv_process ETH_HDR_LEN)
             else if type = ARP_PTYPE_ARP then arp_recv_process ETH_HDR_LEN
             else nret ()
        else nret ())"

text \<open>
  The bytes read from the card, stored at their index or in the last byte of the buffer once it
  is full.
\<close>

definition store_received :: "u8 list \<Rightarrow> mem \<Rightarrow> mem" where
  "store_received data m =
     foldl (\<lambda>m i. m((if of_nat i < NET_BUFF_SIZE - 1 then of_nat i else NET_BUFF_SIZE - 1) := data ! i))
       m [0 ..< length data]"

text \<open>The values of the current page and of the boundary register.\<close>

definition read_pages :: "(u8 \<times> u8) netm" where
  "read_pages =
     nbind (nget base_port) (\<lambda>base.
     nbind (ne2k_page_select 1) (\<lambda>_.
     nbind (inb (base + NE2K_CURR)) (\<lambda>current.
     nbind (ne2k_page_select 0) (\<lambda>_.
     nbind (inb (base + NE2K_BNRY)) (\<lambda>bndry.
     nret (current, bndry))))))"

text \<open>One packet from the card into the buffer; the result is the page of the next packet.\<close>

definition fetch_packet :: "u8 netm" where
  "fetch_packet =
     nbind (nget base_port) (\<lambda>base.
     nbind (ne2k_page_select 0) (\<lambda>_.
     nbind (nget rx_next) (\<lambda>rx.
     nbind (outb 0 (base + NE2K_RSAR0)) (\<lambda>_.
     nbind (outb (ucast rx) (base + NE2K_RSAR1)) (\<lambda>_.
     nbind (outb 4 (base + NE2K_RBCR0)) (\<lambda>_.
     nbind (outb 0 (base + NE2K_RBCR1)) (\<lambda>_.
     nbind (outb 0x12 (base + NE2K_CR)) (\<lambda>_.
     nbind (ins 4 (base + NE2K_DATA)) (\<lambda>info.
     let next = info ! 1; len = of_le16 (drop 2 info)
     in nbind (outb 4 (base + NE2K_RSAR0)) (\<lambda>_.
        nbind (outb (ucast rx) (base + NE2K_RSAR1)) (\<lambda>_.
        nbind (outb (ucast (len AND 0xFF)) (base + NE2K_RBCR0)) (\<lambda>_.
        nbind (outb (ucast (drop_bit 8 len AND 0xFF)) (base + NE2K_RBCR1)) (\<lambda>_.
        nbind (outb 0x12 (base + NE2K_CR)) (\<lambda>_.
        nbind (ins (unat len) (base + NE2K_DATA)) (\<lambda>data.
        nbind (nput (\<lambda>s. s\<lparr>tmp_buff := store_received data (tmp_buff s)\<rparr>)) (\<lambda>_.
        nbind (while_in (\<lambda>v. v AND 0x40 = 0) (base + NE2K_ISR)) (\<lambda>_.
        nbind (outb 0x40 (base + NE2K_ISR)) (\<lambda>_.
        nret next))))))))))))))))))"

text \<open>The reception page advances and the boundary follows one page behind.\<close>

definition advance_page :: "u8 \<Rightarrow> unit netm" where
  "advance_page next =
     (if next \<noteq> 0
      then nbind (nput (\<lambda>s. s\<lparr>rx_next := ucast next\<rparr>)) (\<lambda>_.
           nbind (nget (\<lambda>s. (rx_next s, base_port s))) (\<lambda>(rx, base).
           if rx = 0x40 then outb 0x80 (base + NE2K_BNRY)
           else outb (ucast (if rx = 0x46 then 0x7F else rx - 1)) (base + NE2K_BNRY)))
      else nret ())"

text \<open>The loop over the packets in the ring of the card.\<close>

partial_function (option) receive_loop :: "u8 \<Rightarrow> u8 \<Rightarrow> net \<Rightarrow> (unit \<times> net) option" where
  "receive_loop current bndry s =
     (if bndry \<noteq> current
      then nbind fetch_packet (\<lambda>next.
           nbind (advance_page next) (\<lambda>_.
           nbind read_pages (\<lambda>(current, bndry).
           nbind (nget base_port) (\<lambda>base.
           nbind (while_in (\<lambda>v. v AND 0x40 = 0) (base + NE2K_ISR)) (\<lambda>_.
           nbind (outb 0x40 (base + NE2K_ISR)) (\<lambda>_.
           nbind process_frame (\<lambda>_ s.
           if next = current \<or> next = 0 then nret () s else receive_loop current bndry s))))))) s
      else nret () s)"

definition ne2k_receive :: "unit netm" where
  "ne2k_receive = nbind read_pages (\<lambda>(current, bndry). \<lambda>s. receive_loop current bndry s)"

text \<open>The interrupt handler: the status register is read until no interrupt is pending.\<close>

partial_function (option) isr_loop :: "u16 \<Rightarrow> net \<Rightarrow> (unit \<times> net) option" where
  "isr_loop base s =
     nbind (inb (base + NE2K_ISR)) (\<lambda>isr s.
       if isr \<noteq> 0
       then nbind (if isr AND NE2K_STAT_RX \<noteq> 0 then ne2k_receive else nret ()) (\<lambda>_.
            nbind (outb isr (base + NE2K_ISR)) (\<lambda>_ s.
            isr_loop base s)) s
       else nret () s) s"

definition net_handler :: "unit netm" where
  "net_handler s = (if network_enabled s = 0 then Some ((), s) else isr_loop (base_port s) s)"

subsection \<open>Datagrams\<close>

text \<open>\<open>wait\<close>: the interrupts of the card that arrive meanwhile are served.\<close>

primrec serve_irqs :: "nat \<Rightarrow> unit netm" where
  "serve_irqs 0 = nret ()"
| "serve_irqs (Suc n) = nbind net_handler (\<lambda>_. serve_irqs n)"

definition net_wait :: "unit netm" where
  "net_wait s = serve_irqs (irqs s (io_trace s)) s"

primrec request_loop :: "nat \<Rightarrow> u8 list \<Rightarrow> u16 netm" where
  "request_loop 0 ip = nbind (nget (\<lambda>s. find_mac_in_table s ip)) (\<lambda>mac. nret (if mac = None then 1 else 0))"
| "request_loop (Suc i) ip =
     nbind (nget (\<lambda>s. find_mac_in_table s ip)) (\<lambda>mac.
     if mac = None
     then nbind (arp_request ip) (\<lambda>_. nbind net_wait (\<lambda>_. request_loop i ip))
     else nret 0)"

definition provide_mac_address :: "u8 list \<Rightarrow> u16 netm" where
  "provide_mac_address ip =
     nbind (nget (\<lambda>s. get_effective_ip s ip)) (\<lambda>ip. request_loop 16 ip)"

text \<open>The datagram in the send buffer: pseudo header at 0, header at 12, data at 20.\<close>

definition udp_len :: "u16 \<Rightarrow> u16" where
  "udp_len len =
     (let room = NET_BUFF_SIZE - SIZEOF_UDPIP - SIZEOF_UDP - SIZEOF_IP - ETH_HDR_LEN
      in if room < len then room else len)"

definition udp_packet :: "u8 list \<Rightarrow> u8 list \<Rightarrow> u16 \<Rightarrow> u16 \<Rightarrow> u8 list \<Rightarrow> u16 \<Rightarrow> mem \<Rightarrow> mem" where
  "udp_packet src dst src_port dst_port data len m =
     (let m = snd (memset m 0 0 NET_BUFF_SIZE);
          m = put_mem m (SIZEOF_UDPIP + SIZEOF_UDP) (take (unat len) data);
          m = put_mem m SIZEOF_UDPIP (le16 (BSWAP_16 src_port) @ le16 (BSWAP_16 dst_port) @
                le16 (BSWAP_16 (len + SIZEOF_UDP)));
          m = put_mem m 0 (src @ dst @ [0, IP_PROTOCOL_UDP] @ get_mem m (SIZEOF_UDPIP + 4) 2);
          checksum = net_checksum (get_mem m 0 (unat (SIZEOF_UDPIP + len + SIZEOF_UDP)))
      in put_mem m (SIZEOF_UDPIP + 6) (le16 (BSWAP_16 checksum)))"

definition udp_send :: "u8 list \<Rightarrow> u16 \<Rightarrow> u16 \<Rightarrow> u8 list \<Rightarrow> u16 \<Rightarrow> u16 netm" where
  "udp_send dst_ip src_port dst_port data len =
     nbind (provide_mac_address dst_ip) (\<lambda>r.
     if r \<noteq> 0 then nret 1
     else nbind (nget local_gate) (\<lambda>gate.
          nbind (provide_mac_address gate) (\<lambda>r.
          if r \<noteq> 0 then nret 1
          else nbind (nput (\<lambda>s. s\<lparr>snd_buff :=
                 udp_packet (local_ip s) dst_ip src_port dst_port data (udp_len len) (snd_buff s)\<rparr>)) (\<lambda>_.
               ip_send dst_ip IP_PROTOCOL_UDP SIZEOF_UDPIP (SIZEOF_UDP + udp_len len)))))"

definition net_send :: "u8 list \<Rightarrow> u8 list \<Rightarrow> u16 \<Rightarrow> u16 netm" where
  "net_send dst_ip buff len =
     nbind (nget network_enabled) (\<lambda>on.
     if on \<noteq> 0 then udp_send dst_ip NSUDP_PROTO_PORT NSUDP_PROTO_PORT buff len else nret 1)"

text \<open>\<open>net_recv\<close>: the number of bytes, and the address and the bytes it copies to the caller, if any.\<close>

definition net_recv :: "u16 \<Rightarrow> (u16 \<times> (u8 list \<times> u8 list) option) netm" where
  "net_recv buff_size =
     nbind (nget network_enabled) (\<lambda>on.
     if on \<noteq> 0
     then nbind net_handler (\<lambda>_.
          nbind (nget (\<lambda>s. s)) (\<lambda>s.
          if rcv_size s > 0
          then let n = (if rcv_size s < buff_size then rcv_size s else buff_size)
            in nbind (nput (\<lambda>s. s\<lparr>rcv_size := 0\<rparr>)) (\<lambda>_.
               nret (n, Some (rcv_addr s, take (unat n) (rcv_buff s))))
          else nret (0, None)))
     else nret (0, None))"

subsection \<open>Initialisation\<close>

primrec outb_all :: "(u8 \<times> u16) list \<Rightarrow> unit netm" where
  "outb_all [] = nret ()"
| "outb_all (vp # r) = nbind (outb (fst vp) (snd vp)) (\<lambda>_. outb_all r)"

definition ne2k_compatible :: "u16 \<times> u16" where
  "ne2k_compatible = (0x10EC, 0x8029)"

text \<open>Detection: the card must answer a reset with the reset flag alone.\<close>

definition detect_card :: "unit netm" where
  "detect_card =
     nbind (nput (\<lambda>s. s\<lparr>network_enabled := 0\<rparr>)) (\<lambda>_.
     nbind (nget (\<lambda>s. pci_find_device s (fst ne2k_compatible) (snd ne2k_compatible))) (\<lambda>pdev.
     case pdev of
       None \<Rightarrow> nret ()
     | Some d \<Rightarrow>
         nbind (nput (\<lambda>s. s\<lparr>base_port := ucast (bar0 d AND NOT 3), net_irq := ucast (interrput_line d)\<rparr>)) (\<lambda>_.
         nbind (nget base_port) (\<lambda>base.
         nbind (outb 0x80 (base + NE2K_IMR)) (\<lambda>_.
         nbind (outb 0xFF (base + NE2K_ISR)) (\<lambda>_.
         nbind (inb (base + NE2K_RESET)) (\<lambda>v.
         nbind (outb v (base + NE2K_RESET)) (\<lambda>_.
         nbind (inb (base + NE2K_ISR)) (\<lambda>isr.
         if isr = 0x80 then nput (\<lambda>s. s\<lparr>network_enabled := 1\<rparr>) else nret ())))))))))"

text \<open>The address of the card: every byte is read twice, since the card delivers words.\<close>

primrec read_mac :: "nat \<Rightarrow> u16 \<Rightarrow> u8 list netm" where
  "read_mac 0 port = nret []"
| "read_mac (Suc n) port =
     nbind (inb port) (\<lambda>v. nbind (inb port) (\<lambda>_. nbind (read_mac n port) (\<lambda>vs. nret (v # vs))))"

definition start_card :: "unit netm" where
  "start_card =
     nbind (nget (\<lambda>s. (base_port s, rx_next s))) (\<lambda>(base, rx).
     nbind (inb (base + NE2K_RESET)) (\<lambda>v.
     nbind (outb v (base + NE2K_RESET)) (\<lambda>_.
     nbind (while_in (\<lambda>v. v AND 0x80 = 0) (base + NE2K_ISR)) (\<lambda>_.
     nbind (ne2k_page_select 0) (\<lambda>_.
     nbind (outb_all [(0x21, base + NE2K_CR), (0x48, base + NE2K_DCR), (0xE0, base + NE2K_TCR),
       (0xDE, base + NE2K_RCR), (0x00, base + NE2K_IMR), (0xFF, base + NE2K_ISR),
       (0x40, base + NE2K_TPSR), (ucast (rx - 1), base + NE2K_PSTART), (0x80, base + NE2K_PSTOP),
       (ucast (rx - 1), base + NE2K_BNRY)]) (\<lambda>_.
     nbind (ne2k_page_select 1) (\<lambda>_.
     nbind (outb (ucast rx) (base + NE2K_CURR)) (\<lambda>_.
     nbind (ne2k_page_select 0) (\<lambda>_.
     nbind (outb_all [(0x00, base + NE2K_RSAR0), (0x00, base + NE2K_RSAR1), (24, base + NE2K_RBCR0),
       (0x00, base + NE2K_RBCR1), (0x0A, base + NE2K_CR)]) (\<lambda>_.
     nbind (read_mac MAC_LEN (base + NE2K_DATA)) (\<lambda>mac.
     nbind (nput (\<lambda>s. s\<lparr>local_mac := mac\<rparr>)) (\<lambda>_.
     nbind (ne2k_page_select 1) (\<lambda>_.
     nbind (outb_all (map (\<lambda>i. (mac ! i, base + NE2K_PAR0 + of_nat i)) [0 ..< MAC_LEN] @
       map (\<lambda>i. (0, base + NE2K_MAR0 + of_nat i)) [0 ..< 8])) (\<lambda>_.
     nbind (ne2k_page_select 0) (\<lambda>_.
     nbind (outb_all [(0x22, base + NE2K_CR), (0x03, base + NE2K_IMR)]) (\<lambda>_.
     nput (\<lambda>s. s\<lparr>arp_table :=
       (arp_table s)[0 := \<lparr>arp_ip = replicate IP_LEN 0xFF, arp_mac = replicate MAC_LEN 0xFF\<rparr>]\<rparr>)))))))))))))))))"

definition net_init :: "unit netm" where
  "net_init =
     nbind (nput (\<lambda>s. s\<lparr>arp_table := replicate ARP_TABLE_LEN \<lparr>arp_ip = replicate IP_LEN 0, arp_mac = replicate MAC_LEN 0\<rparr>,
       rcv_addr := replicate IP_LEN 0, rcv_port := 0, rcv_size := 0\<rparr>)) (\<lambda>_.
     nbind (nget network_enabled) (\<lambda>on.
     nbind (if on = 1 then detect_card else nret ()) (\<lambda>_.
     nbind (nget network_enabled) (\<lambda>on.
     if on = 0 then nret () else start_card))))"

end
