(* ===== verification/Kernel_Services.thy ===== *)
theory Kernel_Services
  imports Syscall_Types Kernel_Heap Kernel_Lmem Fs_Ops Net
begin

section \<open>System calls: the kernel side (source/kernel.c)\<close>

text \<open>
  The state of the kernel and \<open>kernel_service\<close>, which reads the parameters of a service from the far memory of
  the caller, runs the operation and writes its results back. Screen, keyboard and text cursor are reached
  through assembly and the BIOS: what they are told is a list of events, newest first, and what they answer is
  a function of the events so far. The local variables of the kernel are not part of far memory; their
  contents before they are set (\<open>stack_junk\<close>), the successive values of the timer (\<open>timer\<close>) and the place of
  parameters the kernel packs for itself (\<open>kernel_frame\<close>) are parameters. Not modelled: what a datagram
  of more than 512 bytes does to the memory behind the buffer of its service.
\<close>

datatype io_event =
    TextMode | GraphicsMode | ClearScreen | SetPixel u16 u16 u16 | OutChar u8 | OutCharAttr u16 u16 u8 u8
  | SetCursor u16 u16 | GetCursor | HideCursor | ShowCursor | InKey u16 | OutSerial u8

record kernel =
  far :: fmem
  kfs :: fs_state
  heap_addr :: u16
  kheap :: heap
  klmem :: lmem
  knet :: net
  events :: "io_event list"
  key_dev :: "io_event list \<Rightarrow> u16"
  cursor_dev :: "io_event list \<Rightarrow> u16 \<times> u16"
  graphics_mode :: u16
  screen_width_c :: u16
  screen_height_c :: u16
  screen_width_px :: u16
  screen_height_px :: u16
  mouse_x :: u16
  mouse_y :: u16
  mouse_b :: u16
  serial_debug :: u16
  timer :: "nat \<Rightarrow> u32"
  timer_reads :: nat
  stack_junk :: "nat \<Rightarrow> u8"
  kernel_frame :: u32

type_synonym 'a kernelm = "(kernel, 'a) iom"

subsection \<open>Access to the parts of the state\<close>

definition emit :: "io_event \<Rightarrow> unit kernelm" where
  "emit e = nput (\<lambda>s. s\<lparr>events := e # events s\<rparr>)"

definition put_far :: "u32 \<Rightarrow> u8 list \<Rightarrow> unit kernelm" where
  "put_far a bs = nput (\<lambda>s. s\<lparr>far := fput (far s) a bs\<rparr>)"

definition run_fs :: "'a fsm \<Rightarrow> (u16 + 'a) kernelm" where
  "run_fs m = (\<lambda>s. Option.bind (m (kfs s)) (\<lambda>(r, f). Some (r, s\<lparr>kfs := f\<rparr>)))"

definition run_net :: "'a netm \<Rightarrow> 'a kernelm" where
  "run_net m = (\<lambda>s. Option.bind (m (knet s)) (\<lambda>(r, n). Some (r, s\<lparr>knet := n\<rparr>)))"

text \<open>What an operation of the file system returns in the code: its error, or the number its result stands for.\<close>

definition result :: "('a \<Rightarrow> u16) \<Rightarrow> u16 + 'a \<Rightarrow> u16" where
  "result f r = (case r of Inl c \<Rightarrow> c | Inr x \<Rightarrow> f x)"

text \<open>The bytes of a local buffer of which \<open>b\<close> has been set.\<close>

definition junk :: "kernel \<Rightarrow> nat \<Rightarrow> u8 list" where
  "junk s n = map (stack_junk s) [0 ..< n]"

definition local_buff :: "kernel \<Rightarrow> nat \<Rightarrow> u8 list \<Rightarrow> u8 list" where
  "local_buff s n b = take n b @ drop (length b) (junk s n)"

definition path_at :: "fmem \<Rightarrow> u32 \<Rightarrow> u8 list" where
  "path_at m a = cstring (fget m a MAX_PATH)"

subsection \<open>Screen, keyboard, mouse, serial port\<close>

definition io_set_text_mode :: "unit kernelm" where
  "io_set_text_mode = nbind (emit TextMode) (\<lambda>_. nput (\<lambda>s. s\<lparr>graphics_mode := 0, screen_width_px := 0,
     screen_height_px := 0, screen_width_c := 80, screen_height_c := 50\<rparr>))"

definition io_set_graphics_mode :: "unit kernelm" where
  "io_set_graphics_mode = nbind (emit GraphicsMode) (\<lambda>_. nput (\<lambda>s. s\<lparr>graphics_mode := 1, screen_width_px := 800,
     screen_height_px := 600, screen_width_c := 100, screen_height_c := 75\<rparr>))"

definition service_set_video_mode :: "u32 \<Rightarrow> u16 kernelm" where
  "service_set_video_mode p = nbind (nget (\<lambda>s. (far16 (far s) p, graphics_mode s))) (\<lambda>(mode, g).
     nbind (if mode = VM_TEXT \<and> g = 0 then io_set_text_mode
            else if mode = VM_GRAPHICS \<and> g = 1 then io_set_graphics_mode else nret ()) (\<lambda>_. nret 0))"

definition service_get_screen_size :: "u32 \<Rightarrow> u16 kernelm" where
  "service_get_screen_size p = nbind (nget (\<lambda>s. (position_at (far s) p, s))) (\<lambda>(ps, s).
     if ps_x ps = SSM_CHARS
     then nbind (put_far (ps_px ps) (le16 (screen_width_c s))) (\<lambda>_.
          nbind (put_far (ps_py ps) (le16 (screen_height_c s))) (\<lambda>_. nret 0))
     else nbind (put_far (ps_px ps) (le16 (screen_width_px s))) (\<lambda>_.
          nbind (put_far (ps_py ps) (le16 (screen_height_px s))) (\<lambda>_. nret 0)))"

definition service_set_pixel :: "u32 \<Rightarrow> u16 kernelm" where
  "service_set_pixel p = nbind (nget (\<lambda>s. posattr_at (far s) p)) (\<lambda>ca.
     nbind (emit (SetPixel (pa_x ca) (pa_y ca) (pa_c ca))) (\<lambda>_. nret 0))"

definition service_out_char :: "u32 \<Rightarrow> u16 kernelm" where
  "service_out_char p = nbind (nget (\<lambda>s. lmem_getbyte (far s) p)) (\<lambda>c. nbind (emit (OutChar c)) (\<lambda>_. nret 0))"

definition service_out_char_attr :: "u32 \<Rightarrow> u16 kernelm" where
  "service_out_char_attr p = nbind (nget (\<lambda>s. posattr_at (far s) p)) (\<lambda>ca.
     nbind (emit (OutCharAttr (pa_x ca) (pa_y ca) (ucast (pa_c ca)) (ucast (pa_attr ca)))) (\<lambda>_. nret 0))"

definition service_set_cursor_pos :: "u32 \<Rightarrow> u16 kernelm" where
  "service_set_cursor_pos p = nbind (nget (\<lambda>s. position_at (far s) p)) (\<lambda>ps.
     nbind (emit (SetCursor (ps_x ps) (ps_y ps))) (\<lambda>_. nret 0))"

definition service_get_cursor_pos :: "u32 \<Rightarrow> u16 kernelm" where
  "service_get_cursor_pos p = nbind (nget (\<lambda>s. (position_at (far s) p, cursor_dev s (events s)))) (\<lambda>(ps, x, y).
     nbind (emit GetCursor) (\<lambda>_.
     nbind (put_far (ps_px ps) (le16 x)) (\<lambda>_. nbind (put_far (ps_py ps) (le16 y)) (\<lambda>_. nret 0))))"

definition service_set_show_cursor :: "u32 \<Rightarrow> u16 kernelm" where
  "service_set_show_cursor p = nbind (nget (\<lambda>s. far16 (far s) p)) (\<lambda>mode.
     nbind (emit (if mode = HIDE_CURSOR then HideCursor else ShowCursor)) (\<lambda>_. nret 0))"

text \<open>Keys: the keys without a character keep their scan code, all others their character.\<close>

definition special_keys :: "u16 list" where
  "special_keys = [KEY_DEL, KEY_END, KEY_DEL, KEY_HOME, KEY_INS, KEY_PG_DN, KEY_PG_UP, KEY_PRT_SC, KEY_UP, KEY_LEFT,
     KEY_RIGHT, KEY_DOWN, KEY_F1, KEY_F2, KEY_F3, KEY_F4, KEY_F5, KEY_F6, KEY_F7, KEY_F8, KEY_F9, KEY_F10, KEY_F11, KEY_F12]"

definition clean_key :: "u16 \<Rightarrow> u16" where
  "clean_key k =
     (if k \<noteq> 0
      then if list_ex (\<lambda>c. ucast (getHI k) = drop_bit 8 c) special_keys then k AND 0xFF00 else k AND 0x00FF
      else k)"

definition io_in_key :: "u16 kernelm" where
  "io_in_key = (\<lambda>s. let k = key_dev s (events s) in Some (k, s\<lparr>events := InKey k # events s\<rparr>))"

partial_function (option) key_loop :: "u16 \<Rightarrow> kernel \<Rightarrow> (u16 \<times> kernel) option" where
  "key_loop mode s =
     nbind io_in_key (\<lambda>k s. if (k = 0 \<and> mode = KM_WAIT_KEY) \<or> (k \<noteq> 0 \<and> mode = KM_CLEAR_BUFFER)
                            then key_loop mode s else nret k s) s"

definition service_in_key :: "u32 \<Rightarrow> u16 kernelm" where
  "service_in_key p = nbind (nget (\<lambda>s. far16 (far s) p)) (\<lambda>mode. nbind (\<lambda>s. key_loop mode s) (\<lambda>k. nret (clean_key k)))"

definition service_get_mouse_state :: "u32 \<Rightarrow> u16 kernelm" where
  "service_get_mouse_state p = nbind (nget (\<lambda>s. (posattr_at (far s) p, s))) (\<lambda>(pa, s).
     let chars = (pa_attr pa = SSM_CHARS \<and> graphics_mode s \<noteq> 0);
         x = (if chars then mouse_x s div (screen_width_px s div screen_width_c s) else mouse_x s);
         y = (if chars then mouse_y s div (screen_height_px s div screen_height_c s) else mouse_y s)
     in nbind (put_far p (posattr_bytes (pa\<lparr>pa_x := x, pa_y := y, pa_c := mouse_b s AND 3\<rparr>))) (\<lambda>_. nret 0))"

definition COM1_PORT :: u16 where [simp]: "COM1_PORT = 0x3F8"

definition io_in_char_serial :: "u8 netm" where
  "io_in_char_serial = nbind (inb (COM1_PORT + 5)) (\<lambda>st. if st AND 0x01 \<noteq> 0 then inb COM1_PORT else nret 0)"

definition service_out_char_serial :: "u32 \<Rightarrow> u16 kernelm" where
  "service_out_char_serial p = nbind (nget (\<lambda>s. lmem_getbyte (far s) p)) (\<lambda>c. nbind (emit (OutSerial c)) (\<lambda>_. nret 0))"

definition service_out_char_debug :: "u32 \<Rightarrow> u16 kernelm" where
  "service_out_char_debug p = nbind (nget serial_debug) (\<lambda>d. if d \<noteq> 0 then service_out_char_serial p else nret 0)"

subsection \<open>Memory\<close>

definition service_mem_allocate :: "u16 \<Rightarrow> u32 \<Rightarrow> u16 kernelm" where
  "service_mem_allocate cs p =
     (if cs \<noteq> KERN_MEMSEG then nret 0
      else (\<lambda>s. let (r, h) = heap_alloc (heap_addr s) (kheap s) (far16 (far s) p) in Some (r, s\<lparr>kheap := h\<rparr>)))"

definition service_mem_free :: "u32 \<Rightarrow> u16 kernelm" where
  "service_mem_free p = nbind (nput (\<lambda>s. s\<lparr>kheap := heap_free (kheap s) (ucast p)\<rparr>)) (\<lambda>_. nret 0)"

definition service_lmem_allocate :: "u32 \<Rightarrow> u16 kernelm" where
  "service_lmem_allocate p = (\<lambda>s. let lm = lmem_at (far s) p; (a, l) = lmem_alloc (klmem s) (lm_n lm)
     in Some (0, s\<lparr>klmem := l, far := fput (far s) p (lmem_bytes (lm\<lparr>lm_dst := a\<rparr>))\<rparr>))"

definition service_lmem_free :: "u32 \<Rightarrow> u16 kernelm" where
  "service_lmem_free p = nbind (nput (\<lambda>s. s\<lparr>klmem := lmem_free (klmem s) (lm_dst (lmem_at (far s) p))\<rparr>)) (\<lambda>_. nret 0)"

definition service_lmem_get :: "u32 \<Rightarrow> u16 kernelm" where
  "service_lmem_get p = nget (\<lambda>s. ucast (lmem_getbyte (far s) (lm_dst (lmem_at (far s) p))))"

definition service_lmem_set :: "u32 \<Rightarrow> u16 kernelm" where
  "service_lmem_set p = nbind (nput (\<lambda>s. let lm = lmem_at (far s) p
     in s\<lparr>far := lmem_setbyte (lm_dst lm) (ucast (lm_n lm)) (far s)\<rparr>)) (\<lambda>_. nret 0)"

subsection \<open>File system\<close>

definition fs_info_bytes :: "kernel \<Rightarrow> fs_info \<Rightarrow> u8 list" where
  "fs_info_bytes s i = snd (strcpy_s (junk s 4) (fi_name i) 4) @ le16 (fi_id i) @ le16 (fi_type i) @
     le32 (fi_fs_size i) @ le32 (fi_disk_size i)"

definition service_fs_get_info :: "u32 \<Rightarrow> u16 kernelm" where
  "service_fs_get_info p = nbind (nget (\<lambda>s. (fsinfo_at (far s) p, s))) (\<lambda>(fi, s).
     let (n, info) = fs_get_info (kfs s) (if_disk_index fi)
     in nbind (put_far (if_info fi) (case info of Some i \<Rightarrow> fs_info_bytes s i | None \<Rightarrow> junk s 16)) (\<lambda>_. nret n))"

text \<open>What a program sees of an entry: name, flags, the low half of the size.\<close>

definition o_entry_bytes :: "kernel \<Rightarrow> sfs_entry \<Rightarrow> u8 list" where
  "o_entry_bytes s e = snd (strcpy_s (junk s 15) (e_name e) 15) @ [e_flags e] @ le16 (ucast (e_size e))"

definition service_fs_get_entry :: "u32 \<Rightarrow> u16 kernelm" where
  "service_fs_get_entry p = nbind (nget (\<lambda>s. (fsentry_at (far s) p, s))) (\<lambda>(fi, s).
     let r = fs_get_entry (kfs s) (path_at (far s) (en_path fi)) (en_parent fi) (en_disk fi)
     in nbind (put_far (en_entry fi) (case r of Inr (n, e) \<Rightarrow> o_entry_bytes s e | Inl c \<Rightarrow> junk s 18)) (\<lambda>_.
        nret (result fst r)))"

text \<open>
  The loops over blocks of 512 bytes of reading and writing. What \<open>fs_read_file\<close> returns for a directory is the
  index of its entry, and that many bytes of the local buffer are copied.
\<close>

partial_function (option) read_blocks ::
    "syscall_fsrwfile \<Rightarrow> u8 list \<Rightarrow> u16 \<Rightarrow> kernel \<Rightarrow> (u16 \<times> kernel) option" where
  "read_blocks fi path offset s =
     (if offset < rw_count fi
      then (case fs_read_file (kfs s) path (rw_offset fi + offset) (min16 BLOCK_SIZE (rw_count fi - offset)) of
              Inl c \<Rightarrow> nret c s
            | Inr (n, b) \<Rightarrow>
                if n \<ge> ERROR_ANY then nret n s
                else if n = 0 then nret offset s
                else nbind (put_far (rw_buff fi + ucast offset) (local_buff s (unat n) b)) (\<lambda>_ s.
                     read_blocks fi path (offset + n) s) s)
      else nret offset s)"

definition service_fs_read_file :: "u32 \<Rightarrow> u16 kernelm" where
  "service_fs_read_file p = nbind (nget (\<lambda>s. (fsrwfile_at (far s) p, far s))) (\<lambda>(fi, m) s.
     read_blocks fi (path_at m (rw_path fi)) 0 s)"

partial_function (option) write_blocks ::
    "syscall_fsrwfile \<Rightarrow> u8 list \<Rightarrow> u16 \<Rightarrow> kernel \<Rightarrow> (u16 \<times> kernel) option" where
  "write_blocks fi path offset s =
     (if offset < rw_count fi
      then (let count = min16 BLOCK_SIZE (rw_count fi - offset);
                tbuff = fget (far s) (rw_buff fi + ucast offset) (unat count)
            in nbind (run_fs (fs_write_file tbuff path (rw_offset fi + offset) count (rw_flags fi))) (\<lambda>r s.
               case r of
                 Inl c \<Rightarrow> nret c s
               | Inr (w, path) \<Rightarrow> if w \<ge> ERROR_ANY then nret w s else write_blocks fi path (offset + w) s) s)
      else nret offset s)"

definition service_fs_write_file :: "u32 \<Rightarrow> u16 kernelm" where
  "service_fs_write_file p = nbind (nget (\<lambda>s. (fsrwfile_at (far s) p, far s))) (\<lambda>(fi, m) s.
     write_blocks fi (path_at m (rw_path fi)) 0 s)"

definition service_fs_move :: "u32 \<Rightarrow> u16 kernelm" where
  "service_fs_move p = nbind (nget (\<lambda>s. (fssrcdst_at (far s) p, far s))) (\<lambda>(fi, m).
     nbind (run_fs (fs_move (path_at m (sd_src fi)) (path_at m (sd_dst fi)))) (\<lambda>r. nret (result id r)))"

definition service_fs_copy :: "u32 \<Rightarrow> u16 kernelm" where
  "service_fs_copy p = nbind (nget (\<lambda>s. (fssrcdst_at (far s) p, far s))) (\<lambda>(fi, m).
     nbind (run_fs (\<lambda>f. fs_copy (path_at m (sd_src fi)) (path_at m (sd_dst fi)) f)) (\<lambda>r. nret (result (\<lambda>_. 0) r)))"

definition service_fs_delete :: "u32 \<Rightarrow> u16 kernelm" where
  "service_fs_delete p = nbind (nget (\<lambda>s. path_at (far s) p)) (\<lambda>path.
     nbind (run_fs (fs_delete path)) (\<lambda>r. nret (result (\<lambda>_. 0) r)))"

definition service_fs_create_directory :: "u32 \<Rightarrow> u16 kernelm" where
  "service_fs_create_directory p = nbind (nget (\<lambda>s. path_at (far s) p)) (\<lambda>path.
     nbind (run_fs (fs_create_directory path)) (\<lambda>r. nret (result id r)))"

definition service_fs_list :: "u32 \<Rightarrow> u16 kernelm" where
  "service_fs_list p = nbind (nget (\<lambda>s. (fslist_at (far s) p, s))) (\<lambda>(fi, s).
     let r = fs_list (kfs s) (path_at (far s) (ls_path fi)) (ls_n fi)
     in nbind (put_far (ls_entry fi) (case r of Inr (n, e) \<Rightarrow> o_entry_bytes s e | Inl c \<Rightarrow> junk s 18)) (\<lambda>_.
        nret (result fst r)))"

definition service_fs_format :: "u32 \<Rightarrow> u16 kernelm" where
  "service_fs_format p = nbind (nget (\<lambda>s. lmem_getbyte (far s) p)) (\<lambda>d.
     nbind (run_fs (fs_format (ucast d))) (\<lambda>r. nret (result (\<lambda>_. 0) r)))"

subsection \<open>Time and network\<close>

definition time_bytes :: "time_t \<Rightarrow> u8 list" where
  "time_bytes t = le16 (year t) @ le16 (month t) @ le16 (day t) @ le16 (hour t) @ le16 (minute t) @ le16 (second t)"

definition service_clk_get_time :: "u32 \<Rightarrow> u16 kernelm" where
  "service_clk_get_time p = (\<lambda>s. let (t, f) = current_time (kfs s)
     in Some (0, s\<lparr>kfs := f, far := fput (far s) p (time_bytes t)\<rparr>))"

definition service_clk_get_milisec :: "u32 \<Rightarrow> u16 kernelm" where
  "service_clk_get_milisec p = (\<lambda>s. Some (0, s\<lparr>far := fput (far s) p (le32 (timer s (timer_reads s))),
     timer_reads := timer_reads s + 1\<rparr>))"

definition service_net_recv :: "u32 \<Rightarrow> u16 kernelm" where
  "service_net_recv p = nbind (nget (\<lambda>s. (netop_at (far s) p, s))) (\<lambda>(no, s).
     nbind (run_net (net_recv (no_size no))) (\<lambda>(n, d).
     let (addr, buff) = (case d of Some (a, b) \<Rightarrow> (local_buff s 4 a, b) | None \<Rightarrow> (junk s 4, []))
     in nbind (put_far (no_addr no) addr) (\<lambda>_.
        nbind (put_far (no_buff no) (local_buff s (unat (no_size no)) buff)) (\<lambda>_. nret n))))"

definition service_net_send :: "u32 \<Rightarrow> u16 kernelm" where
  "service_net_send p = nbind (nget (\<lambda>s. (netop_at (far s) p, far s))) (\<lambda>(no, m).
     run_net (net_send (fget m (no_addr no) 4) (fget m (no_buff no) (unat (no_size no))) (no_size no)))"

subsection \<open>The dispatcher\<close>

definition screen_service :: "u16 \<Rightarrow> u32 \<Rightarrow> u16 kernelm" where
  "screen_service service p =
     (if service = SYSCALL_IO_GET_VIDEO_MODE then nget (\<lambda>s. if graphics_mode s = 0 then VM_TEXT else VM_GRAPHICS)
      else if service = SYSCALL_IO_SET_VIDEO_MODE then service_set_video_mode p
      else if service = SYSCALL_IO_GET_SCREEN_SIZE then service_get_screen_size p
      else if service = SYSCALL_IO_CLEAR_SCREEN then nbind (emit ClearScreen) (\<lambda>_. nret 0)
      else if service = SYSCALL_IO_SET_PIXEL then service_set_pixel p
      else if service = SYSCALL_IO_OUT_CHAR then service_out_char p
      else if service = SYSCALL_IO_OUT_CHAR_ATTR then service_out_char_attr p
      else if service = SYSCALL_IO_SET_CURSOR_POS then service_set_cursor_pos p
      else if service = SYSCALL_IO_GET_CURSOR_POS then service_get_cursor_pos p
      else if service = SYSCALL_IO_SET_SHOW_CURSOR then service_set_show_cursor p
      else if service = SYSCALL_IO_IN_KEY then service_in_key p
      else if service = SYSCALL_IO_GET_MOUSE_STATE then service_get_mouse_state p
      else if service = SYSCALL_IO_OUT_CHAR_SERIAL then service_out_char_serial p
      else if service = SYSCALL_IO_IN_CHAR_SERIAL then nbind (run_net io_in_char_serial) (\<lambda>c. nret (ucast c))
      else if service = SYSCALL_IO_OUT_CHAR_DEBUG then service_out_char_debug p
      else nret 0)"

definition memory_service :: "u16 \<Rightarrow> u16 \<Rightarrow> u32 \<Rightarrow> u16 kernelm" where
  "memory_service cs service p =
     (if service = SYSCALL_MEM_ALLOCATE then service_mem_allocate cs p
      else if service = SYSCALL_MEM_FREE then service_mem_free p
      else if service = SYSCALL_LMEM_ALLOCATE then service_lmem_allocate p
      else if service = SYSCALL_LMEM_FREE then service_lmem_free p
      else if service = SYSCALL_LMEM_GET then service_lmem_get p
      else if service = SYSCALL_LMEM_SET then service_lmem_set p
      else nret 0)"

definition file_service :: "u16 \<Rightarrow> u32 \<Rightarrow> u16 kernelm" where
  "file_service service p =
     (if service = SYSCALL_FS_GET_INFO then service_fs_get_info p
      else if service = SYSCALL_FS_GET_ENTRY then service_fs_get_entry p
      else if service = SYSCALL_FS_READ_FILE then service_fs_read_file p
      else if service = SYSCALL_FS_WRITE_FILE then service_fs_write_file p
      else if service = SYSCALL_FS_MOVE then service_fs_move p
      else if service = SYSCALL_FS_COPY then service_fs_copy p
      else if service = SYSCALL_FS_DELETE then service_fs_delete p
      else if service = SYSCALL_FS_CREATE_DIRECTORY then service_fs_create_directory p
      else if service = SYSCALL_FS_LIST then service_fs_list p
      else if service = SYSCALL_FS_FORMAT then service_fs_format p
      else nret 0)"

definition clock_net_service :: "u16 \<Rightarrow> u32 \<Rightarrow> u16 kernelm" where
  "clock_net_service service p =
     (if service = SYSCALL_CLK_GET_TIME then service_clk_get_time p
      else if service = SYSCALL_CLK_GET_MILISEC then service_clk_get_milisec p
      else if service = SYSCALL_NET_RECV then service_net_recv p
      else if service = SYSCALL_NET_SEND then service_net_send p
      else nret 0)"

text \<open>
  The cases of \<open>kernel_service\<close> by groups of codes. The case of \<open>SYSCALL_IO_DRAW_CHAR\<close> calls \<open>draw_char\<close>, the
  function of the library, which packs its arguments again and makes the same system call.
\<close>

partial_function (option) kernel_service :: "u16 \<Rightarrow> u16 \<Rightarrow> u32 \<Rightarrow> kernel \<Rightarrow> (u16 \<times> kernel) option" where
  "kernel_service cs service p s =
     (if service = SYSCALL_IO_DRAW_CHAR
      then nbind (nget (\<lambda>s. (posattr_at (far s) p, kernel_frame s))) (\<lambda>(ca, frame) s.
           nbind (put_far frame (posattr_bytes ca)) (\<lambda>_ s.
           nbind (\<lambda>s. kernel_service KERN_MEMSEG SYSCALL_IO_DRAW_CHAR frame s) (\<lambda>_ s. nret 0 s) s) s) s
      else if service < SYSCALL_MEM_ALLOCATE then screen_service service p s
      else if service < SYSCALL_FS_GET_INFO then memory_service cs service p s
      else if service < SYSCALL_CLK_GET_TIME then file_service service p s
      else clock_net_service service p s)"

end
