(* ===== verification/Ulib_Format.thy ===== *)
theory Ulib_Format
  imports Ulib_String
begin

section \<open>Formatted output and addresses (source/ulib/ulib.c)\<close>

text \<open>
  \<open>format_str_outchar\<close> walks the format and the words of the argument list: \<open>args i\<close> is the word at
  \<open>args + i\<close> on the stack, \<open>str_at p\<close> the C string at address \<open>p\<close>. The result is the list of the
  characters passed to \<open>outchar\<close>. The digits are put in front of each other, as the code fills its
  32-byte buffer from the end; a field width above 29, for which the code writes below that buffer,
  occurs nowhere in the program.
\<close>

definition D_STR_SIZE :: u16 where [simp]: "D_STR_SIZE = 32"

definition digit_char :: "u32 \<Rightarrow> u8" where
  "digit_char d = (if d \<le> 9 then of_char (CHR ''0'') + ucast d else of_char (CHR ''A'') + ucast d - 10)"

text \<open>The \<open>do\<close> loop: \<open>n\<close> digits so far, at least \<open>n_digits\<close> in the end; \<open>out\<close> is what has been put.\<close>

function put_digits :: "u32 \<Rightarrow> u32 \<Rightarrow> u16 \<Rightarrow> u16 \<Rightarrow> u8 list \<Rightarrow> u8 list" where
  "put_digits base value n n_digits out =
     (let d = value mod base; n = n + 1; out = digit_char d # out; value = value div base
      in if value \<noteq> 0 \<and> n < D_STR_SIZE - 1 \<or> n < n_digits
         then put_digits base value n n_digits out else out)"
  by pat_completeness auto
termination
proof (relation "measure (\<lambda>(base, value, n, n_digits, out). 65535 - unat (n + 1))")
  fix base val x xc :: u32 and n n_digits xa :: u16 and xb out
  assume *: "x = val mod base" "xa = n + 1" "xb = digit_char x # out" "xc = val div base"
    "xc \<noteq> 0 \<and> xa < D_STR_SIZE - 1 \<or> xa < n_digits"
  then have lt: "unat (n + 1) < 65535"
    using unat_u16_lt [of n_digits] by (auto simp: word_less_nat_alt)
  then have "65535 - unat (n + 1 + 1) < 65535 - unat (n + 1)" using unat_plus1_u16 [OF lt] by linarith
  then show "((base, xc, xa, n_digits, xb), base, val, n, n_digits, out)
      \<in> measure (\<lambda>(base, value, n, n_digits, out). 65535 - unat (n + 1))"
    using * by simp
qed simp

declare put_digits.simps [simp del]

text \<open>The field width: its value and the rest of the format.\<close>

fun read_width :: "u16 \<Rightarrow> u8 list \<Rightarrow> u16 \<times> u8 list" where
  "read_width w (c # f) =
     (if c \<ge> of_char (CHR ''0'') \<and> c \<le> of_char (CHR ''9'')
      then read_width (w * 10 + ucast c - of_char (CHR ''0'')) f else (w, c # f))"
| "read_width w [] = (w, [])"

lemma read_width_length: "read_width w f = (w', f') \<Longrightarrow> length f' \<le> length f"
  by (induction w f rule: read_width.induct) (auto split: if_splits)

text \<open>
  One conversion: the characters it puts out, whether its character is consumed, and the number of
  argument words. \<open>n\<close> is the number of characters put out before it.
\<close>

definition put_number :: "u32 \<Rightarrow> u32 \<Rightarrow> u16 \<Rightarrow> u8 list \<Rightarrow> u8 list" where
  "put_number base value n_digits prefix = prefix @ put_digits base value 0 n_digits []"

definition convert :: "(u16 \<Rightarrow> u8 list) \<Rightarrow> (nat \<Rightarrow> u16) \<Rightarrow> u16 \<Rightarrow> u16 \<Rightarrow> u8 \<Rightarrow> u8 list \<times> bool \<times> nat" where
  "convert str_at args n n_digits c =
     (let value32 = ucast (args 0) OR push_bit 16 (ucast (args 1)) :: u32;
          value = ucast (args 0) :: u32;
          is_negative = value AND 0x8000 \<noteq> 0
      in if c = of_char (CHR ''d'')
         then if is_negative
              then (put_number 10 (scast (- (args 0))) n_digits (bytes ''-''), True, 1)
              else (put_number 10 value n_digits [], True, 1)
         else if c = of_char (CHR ''u'') then (put_number 10 value n_digits [], True, 1)
         else if c = of_char (CHR ''U'') then (put_number 10 value32 n_digits [], True, 2)
         else if c = of_char (CHR ''x'')
         then (put_number 16 value (if n_digits \<noteq> 0 then n_digits else 4) (bytes ''0x''), True, 1)
         else if c = of_char (CHR ''X'')
         then (put_number 16 value32 (if n_digits \<noteq> 0 then n_digits else 8) (bytes ''0x''), True, 2)
         else if c = of_char (CHR ''s'') then (str_at (args 0), True, 1)
         else if c = of_char (CHR ''c'')
         then (replicate (if n_digits \<noteq> 0 then unat n_digits - unat n else 1) (ucast (args 0)), True, 1)
         else ([], False, 1))"

function format_str_outchar ::
    "(u16 \<Rightarrow> u8 list) \<Rightarrow> u8 list \<Rightarrow> (nat \<Rightarrow> u16) \<Rightarrow> u16 \<Rightarrow> u8 list" where
  "format_str_outchar str_at [] args n = []"
| "format_str_outchar str_at (c # f) args n =
     (if c = of_char (CHR ''%'')
      then case read_width 0 f of
             (n_digits, []) \<Rightarrow> []
           | (n_digits, d # f') \<Rightarrow>
               let (out, used, k) = convert str_at args n n_digits d
               in out @ format_str_outchar str_at (if used then f' else d # f') (\<lambda>i. args (i + k))
                    (n + of_nat (length out))
      else c # format_str_outchar str_at f args (n + 1))"
  by pat_completeness auto
termination
  by (relation "measure (\<lambda>(str_at, f, args, n). length f)")
    (auto dest!: read_width_length [OF sym])

text \<open>
  \<open>formatstr\<close>: the buffer is cleared, then every character is stored at its first 0. A character that
  finds no 0 in the buffer would be stored past it: it is dropped here.
\<close>

definition stcatchar :: "u8 list \<Rightarrow> u8 \<Rightarrow> u8 list" where
  "stcatchar ststr c = ststr[unat (strlen ststr) := c]"

definition formatstr :: "(u16 \<Rightarrow> u8 list) \<Rightarrow> u16 \<Rightarrow> u8 list \<Rightarrow> (nat \<Rightarrow> u16) \<Rightarrow> u8 list" where
  "formatstr str_at sz fmt args =
     foldl stcatchar (replicate (unat sz) 0) (format_str_outchar str_at fmt args 0)"

definition ip_to_str :: "u8 list \<Rightarrow> u8 list" where
  "ip_to_str ip = formatstr (\<lambda>p. []) 16 (bytes ''%u.%u.%u.%u'') (\<lambda>i. if i < 4 then ucast (ip ! i) else 0)"

text \<open>The loop of \<open>str_to_ip\<close>: \<open>p\<close> is the offset of \<open>tok\<close> (and of \<open>nexttok\<close>) in the copy of the string.\<close>

function ip_tokens :: "u8 list \<Rightarrow> nat \<Rightarrow> nat \<Rightarrow> u8 list \<Rightarrow> u8 list" where
  "ip_tokens str p i ip =
     (if p < length str \<and> i < 4
      then let (a, tok, next) = strtok_list str p (of_char (CHR ''.''))
        in if tok \<noteq> [] then ip_tokens str next (i + 1) (ip[i := ucast (stou tok)])
           else ip
      else ip)"
  by pat_completeness auto
termination
  by (relation "measure (\<lambda>(str, p, i, ip). 4 - i)") auto

declare ip_tokens.simps [simp del]

definition str_to_ip :: "u8 list \<Rightarrow> u8 list \<Rightarrow> u8 list" where
  "str_to_ip ip str = ip_tokens (cstring (snd (strcpy_s (replicate 24 0) str 24))) 0 0 ip"

subsection \<open>Digits\<close>

text \<open>The reference: the digits of a number, most significant first.\<close>

fun number :: "nat \<Rightarrow> nat \<Rightarrow> u8 list" where
  "number b v = (if b < 2 \<or> v < b then [digit_char (of_nat v)] else number b (v div b) @ [digit_char (of_nat (v mod b))])"

declare number.simps [simp del]

lemma number_step:
  "2 \<le> b \<Longrightarrow> v < b \<Longrightarrow> number b v = [digit_char (of_nat v)]"
  "2 \<le> b \<Longrightarrow> b \<le> v \<Longrightarrow> number b v = number b (v div b) @ [digit_char (of_nat (v mod b))]"
  by (subst number.simps; simp)+

lemma number_not_Nil [simp]: "number b v \<noteq> []"
  by (subst number.simps) simp

lemma length_number: "v < b ^ k \<Longrightarrow> 0 < k \<Longrightarrow> length (number b v) \<le> k"
proof (induction b v arbitrary: k rule: number.induct)
  case (1 b v)
  show ?case
  proof (cases "b < 2 \<or> v < b")
    case True
    then show ?thesis using 1(3) by (subst number.simps) auto
  next
    case False
    then obtain j where k: "k = Suc j" "0 < j" using 1(2,3) by (cases k; cases "k - 1") auto
    then have "v div b < b ^ j" using 1(2) False by (simp add: less_mult_imp_div_less mult.commute)
    then show ?thesis using 1(1) [OF False _ k(2)] k(1) False by (subst number.simps) simp
  qed
qed

lemma put_zeros:
  "unat n + k < 65536 \<Longrightarrow> unat n_digits = unat n + k \<Longrightarrow> 0 < k \<Longrightarrow>
   put_digits base 0 n n_digits out = replicate k (of_char (CHR ''0'')) @ out"
proof (induction k arbitrary: n out)
  case (Suc k)
  then have n: "unat (n + 1) = unat n + 1" by (simp add: unat_plus1_u16)
  then have lt: "n + 1 < n_digits \<longleftrightarrow> 0 < k" using Suc.prems by (simp add: word_less_nat_alt)
  show ?case
  proof (cases "0 < k")
    case True
    then show ?thesis using Suc.IH [of "n + 1"] Suc.prems n lt
      by (subst put_digits.simps) (simp add: digit_char_def replicate_app_Cons_same)
  next
    case False
    then show ?thesis using lt by (subst put_digits.simps) (simp add: digit_char_def)
  qed
qed simp

text \<open>The loop puts the digits of the value, with zeros in front up to the field width.\<close>

lemma put_digits_number:
  assumes "2 \<le> unat base"
  shows "unat n + length (number (unat base) (unat val)) \<le> 31 \<Longrightarrow>
    put_digits base val n n_digits out =
      replicate (unat n_digits - (unat n + length (number (unat base) (unat val)))) (of_char (CHR ''0'')) @
      number (unat base) (unat val) @ out"
proof (induction "unat val" arbitrary: val n out rule: less_induct)
  case less
  have n: "unat (n + 1) = unat n + 1" using less(2) by (simp add: unat_plus1_u16)
  have d: "val mod base = of_nat (unat val mod unat base)"
    by (simp add: word_unat_eq_iff unat_mod unat_of_nat_u32 unat_u32_lt le_less_trans [OF mod_less_eq_dividend])
  have q: "unat (val div base) = unat val div unat base" by (simp add: unat_div)
  show ?case
  proof (cases "unat val < unat base")
    case True
    then have v0: "val div base = 0" using q by (simp add: word_unat_eq_iff)
    have num: "number (unat base) (unat val) = [digit_char val]"
      using True by (subst number.simps) simp
    have vm: "val mod base = val" using d True by simp
    show ?thesis
    proof (cases "n + 1 < n_digits")
      case True
      have "put_digits base 0 (n + 1) n_digits (digit_char val # out) =
          replicate (unat n_digits - unat (n + 1)) (of_char (CHR ''0'')) @ digit_char val # out"
        using True unat_u16_lt [of n_digits] by (intro put_zeros) (simp_all add: word_less_nat_alt)
      then show ?thesis using True v0 vm num n by (subst put_digits.simps) (simp add: Let_def)
    next
      case False
      then show ?thesis using v0 vm num n by (subst put_digits.simps) (simp add: Let_def word_less_nat_alt)
    qed
  next
    case False
    then have num: "number (unat base) (unat val) =
        number (unat base) (unat (val div base)) @ [digit_char (val mod base)]"
      using assms q d by (subst number.simps) simp
    have "0 < unat val div unat base" using False assms by (simp add: div_greater_zero_iff)
    then have nz: "val div base \<noteq> 0" using q by (metis less_irrefl unsigned_0)
    have lt: "unat (val div base) < unat val" using False assms q by simp
    have "1 \<le> length (number (unat base) (unat (val div base)))"
      using number_not_Nil by (simp add: Suc_leI)
    then have bound: "n + 1 < D_STR_SIZE - 1" using less(2) num n by (simp add: word_less_nat_alt)
    have "put_digits base (val div base) (n + 1) n_digits (digit_char (val mod base) # out) =
        replicate (unat n_digits - (unat (n + 1) + length (number (unat base) (unat (val div base)))))
          (of_char (CHR ''0'')) @ number (unat base) (unat (val div base)) @ digit_char (val mod base) # out"
      using less(2) num n by (intro less(1) [OF lt]) simp
    then show ?thesis using nz bound num n by (subst put_digits.simps) (simp add: Let_def)
  qed
qed

subsection \<open>Parsing what was printed\<close>

lemma digit_of_char:
  assumes "d < 16"
  shows "digit_of (digit_char (of_nat d)) = of_nat d" "digit_char (of_nat d) \<noteq> 0"
    "digit_char (of_nat d) \<noteq> of_char (CHR ''x'')" "digit_char (of_nat d) \<noteq> of_char (CHR ''.'')"
proof -
  have "list_all (\<lambda>d. digit_of (digit_char (of_nat d)) = of_nat d \<and> digit_char (of_nat d) \<noteq> 0 \<and>
      digit_char (of_nat d) \<noteq> of_char (CHR ''x'') \<and> digit_char (of_nat d) \<noteq> of_char (CHR ''.'')) [0 ..< 16]"
    by code_simp
  moreover have "d \<in> set [0 ..< 16]" using assms by simp
  ultimately show "digit_of (digit_char (of_nat d)) = of_nat d" "digit_char (of_nat d) \<noteq> 0"
    "digit_char (of_nat d) \<noteq> of_char (CHR ''x'')" "digit_char (of_nat d) \<noteq> of_char (CHR ''.'')"
    unfolding list_all_iff by blast+
qed

definition digits_below :: "nat \<Rightarrow> u8 list \<Rightarrow> bool" where
  "digits_below b s = list_all (\<lambda>c. \<exists>d < b. c = digit_char (of_nat d)) s"

lemma digits_below_number: "2 \<le> b \<Longrightarrow> digits_below b (number b v)"
proof (induction b v rule: number.induct)
  case (1 b v)
  show ?case
  proof (cases "v < b")
    case True
    then show ?thesis by (subst number.simps) (auto simp: digits_below_def)
  next
    case False
    then have "digits_below b (number b (v div b))" using 1 by simp
    moreover have "\<exists>d < b. digit_char (of_nat (v mod b)) = digit_char (of_nat d)"
      using 1(2) by (intro exI [of _ "v mod b"]) simp
    ultimately show ?thesis using False 1(2) by (subst number.simps) (simp add: digits_below_def)
  qed
qed

lemma digits_below_chars:
  assumes "digits_below b s" "b \<le> 16"
  shows "0 \<notin> set s" "of_char (CHR ''x'') \<notin> set s" "of_char (CHR ''.'') \<notin> set s"
  using assms digit_of_char unfolding digits_below_def list_all_iff by (metis less_le_trans)+

lemma stou_from_append: "0 \<notin> set xs \<Longrightarrow> stou_from b v (xs @ ys) = stou_from b (stou_from b v xs) ys"
  by (induction xs arbitrary: v) auto

lemma stou_from_number:
  "2 \<le> b \<Longrightarrow> b \<le> 16 \<Longrightarrow> stou_from (of_nat b) 0 (number b v) = of_nat v"
proof (induction b v rule: number.induct)
  case (1 b v)
  have mod_lt: "v mod b < 16" using 1(2,3) by (intro less_le_trans [OF mod_less_divisor]) simp_all
  show ?case
  proof (cases "v < b")
    case True
    then show ?thesis using 1(3) digit_of_char(1,2) [of v] by (subst number.simps) simp
  next
    case False
    have "0 \<notin> set (number b (v div b))" using digits_below_chars(1) digits_below_number 1(2,3) by blast
    then have "stou_from (of_nat b) 0 (number b v) =
        of_nat (v div b) * of_nat b + of_nat (v mod b)"
      using False 1 digit_of_char(1,2) [OF mod_lt]
      by (subst number.simps) (simp add: stou_from_append)
    also have "\<dots> = of_nat (v div b * b + v mod b)" by (simp only: of_nat_add of_nat_mult)
    finally show ?thesis by simp
  qed
qed

lemma stou_from_zeros: "stou_from b 0 (replicate k (of_char (CHR ''0'')) @ s) = stou_from b 0 s"
  by (induction k) (simp_all add: digit_of_def)

lemma sisu_from_digits: "digits_below b s \<Longrightarrow> b \<le> 16 \<Longrightarrow> sisu_from (of_nat b) s = 1"
proof (induction s)
  case (Cons c s)
  then obtain d where d: "d < b" "c = digit_char (of_nat d)" by (auto simp: digits_below_def)
  have "(of_nat d :: u16) < of_nat b" using d(1) Cons.prems(2) by (simp add: word_less_nat_alt unat_of_nat_u16)
  then have "\<not> of_nat b \<le> digit_of c" using d Cons.prems(2) digit_of_char(1) [of d] by (simp add: not_le)
  moreover have "sisu_from (of_nat b) s = 1" using Cons by (simp add: digits_below_def)
  ultimately show ?case by simp
qed simp

lemma no_prefix: "of_char (CHR ''x'') \<notin> set s \<Longrightarrow> take 2 s \<noteq> bytes ''0x''"
  by (metis bytes_simps list.set_intros(1,2) in_set_takeD)

text \<open>What a format that is one conversion puts out.\<close>

lemma format_conversion:
  assumes "c \<noteq> of_char (CHR ''%'')" "\<not> (of_char (CHR ''0'') \<le> c \<and> c \<le> of_char (CHR ''9''))"
    "convert str_at args n 0 c = (out, True, k)"
  shows "format_str_outchar str_at (of_char (CHR ''%'') # c # f) args n =
    out @ format_str_outchar str_at f (\<lambda>i. args (i + k)) (n + of_nat (length out))"
proof -
  have "read_width 0 (c # f) = (0, c # f)" using assms(2) by (simp only: read_width.simps if_False)
  then show ?thesis using assms(3) by simp
qed

lemma convert_u:
  "convert str_at args n 0 (of_char (CHR ''u'')) = (number 10 (unat (args 0)), True, 1)"
proof -
  have "length (number 10 (unat (args 0))) \<le> 5"
    using unat_u16_lt [of "args 0"] by (intro length_number) simp_all
  then show ?thesis
    using put_digits_number [of 10 0 "ucast (args 0)" 0 "[]"] by (simp add: convert_def put_number_def)
qed

lemma convert_x:
  "convert str_at args n 0 (of_char (CHR ''x'')) =
    (bytes ''0x'' @ replicate (4 - length (number 16 (unat (args 0)))) (of_char (CHR ''0'')) @
      number 16 (unat (args 0)), True, 1)"
proof -
  have "length (number 16 (unat (args 0))) \<le> 4"
    using unat_u16_lt [of "args 0"] by (intro length_number) simp_all
  then show ?thesis
    using put_digits_number [of 16 0 "ucast (args 0)" 4 "[]"]
    by (simp add: convert_def put_number_def Let_def)
qed

text \<open>
  A 16-bit number printed in decimal (\<open>%u\<close>) or hexadecimal (\<open>%x\<close>) is accepted by \<open>sisu\<close> and read back
  by \<open>stou\<close> as the same number.
\<close>

lemma number_roundtrip:
  fixes str_at :: "u16 \<Rightarrow> u8 list" and v :: u16
  defines "dec \<equiv> \<lambda>v. format_str_outchar str_at (bytes ''%u'') (\<lambda>i. v) 0"
    and "hex \<equiv> \<lambda>v. format_str_outchar str_at (bytes ''%x'') (\<lambda>i. v) 0"
  shows "stou (dec v) = v \<and> sisu (dec v) = 1 \<and> stou (hex v) = v \<and> sisu (hex v) = 1"
proof -
  let ?d = "number 10 (unat v)" and ?h = "number 16 (unat v)"
  let ?z = "replicate (4 - length ?h) (of_char (CHR ''0'')) :: u8 list"
  have dec: "dec v = ?d"
    using format_conversion [OF _ _ convert_u, where args = "\<lambda>i. v" and n = 0 and f = "[]"] by (simp add: dec_def)
  have hex: "hex v = bytes ''0x'' @ ?z @ ?h"
    using format_conversion [OF _ _ convert_x, where args = "\<lambda>i. v" and n = 0 and f = "[]"] by (simp add: hex_def)
  have d: "digits_below 10 ?d" and h: "digits_below 16 ?h" by (simp_all add: digits_below_number)
  have "digits_below 16 (?z @ ?h)"
  proof -
    have "of_char (CHR ''0'') = digit_char (of_nat 0)" by (simp add: digit_char_def)
    then have "digits_below 16 ?z" unfolding digits_below_def list_all_iff by (metis in_set_replicate zero_less_numeral)
    with h show ?thesis by (simp add: digits_below_def)
  qed
  then have hz: "sisu_from 16 (?z @ ?h) = 1" using sisu_from_digits [of 16 "?z @ ?h"] by simp
  have "0 \<notin> set (?z @ ?h)" using digits_below_chars(1) [OF \<open>digits_below 16 (?z @ ?h)\<close>] by simp
  then have "cstring (?z @ ?h) = ?z @ ?h" by (rule cstring_id)
  then have "cstring (?z @ ?h) \<noteq> []" by (simp only: append_is_Nil_conv number_not_Nil) simp
  then have "stou (hex v) = v" "sisu (hex v) = 1"
    using hz stou_from_zeros [of 16 "4 - length ?h" ?h] stou_from_number [of 16 "unat v"]
    by (simp_all add: hex stou_def sisu_def)
  moreover have "cstring ?d \<noteq> []" "take 2 ?d \<noteq> bytes ''0x''"
    using digits_below_chars [OF d] no_prefix by (simp_all add: cstring_id)
  then have "stou (dec v) = v" "sisu (dec v) = 1"
    using stou_from_number [of 10 "unat v"] sisu_from_digits [OF d] unfolding dec stou_def sisu_def
    by simp_all
  ultimately show ?thesis by blast
qed

subsection \<open>Addresses\<close>

abbreviation dot :: u8 where "dot \<equiv> of_char (CHR ''.'')"

abbreviation dec8 :: "u8 \<Rightarrow> u8 list" where "dec8 b \<equiv> number 10 (unat b)"

lemma dec8_facts:
  "length (dec8 b) \<le> 3" "dec8 b \<noteq> []" "0 \<notin> set (dec8 b)" "dot \<notin> set (dec8 b)" "ucast (stou (dec8 b)) = b"
proof -
  show "length (dec8 b) \<le> 3" using unat_u8_lt [of b] by (intro length_number) simp_all
  have d: "digits_below 10 (dec8 b)" by (rule digits_below_number) simp
  then show "dec8 b \<noteq> []" "0 \<notin> set (dec8 b)" "dot \<notin> set (dec8 b)"
    using digits_below_chars [OF d] by simp_all
  have "stou (dec8 b) = of_nat (unat b)"
    using stou_from_number [of 10 "unat b"] no_prefix digits_below_chars(2) [OF d] by (simp add: stou_def)
  then have "unat (stou (dec8 b)) = unat b" using unat_u8_lt [of b] by (simp add: unat_of_nat_u16)
  then show "ucast (stou (dec8 b)) = b"
    using unat_u8_lt [of b] by (simp add: word_unat_eq_iff unsigned_ucast_eq take_bit_nat_eq_self)
qed

text \<open>Storing characters one by one in a cleared buffer.\<close>

lemma foldl_stcatchar:
  "0 \<notin> set s \<Longrightarrow> 0 \<notin> set pre \<Longrightarrow> length pre + length s < k \<Longrightarrow> k < 65536 \<Longrightarrow>
   foldl stcatchar (pre @ replicate (k - length pre) 0) s = pre @ s @ replicate (k - length pre - length s) 0"
proof (induction s arbitrary: pre)
  case (Cons c s)
  obtain m where m: "k - length pre = Suc m" using Cons.prems(3) by (cases "k - length pre") auto
  have "cstring (pre @ 0 # replicate m 0) = pre" using Cons.prems(2) by (rule cstring_append_zero)
  then have "unat (strlen (pre @ replicate (k - length pre) 0)) = length pre"
    using Cons.prems(3,4) m by (simp add: strlen_cstring unat_of_nat_u16)
  then have "stcatchar (pre @ replicate (k - length pre) 0) c = (pre @ [c]) @ replicate (k - length (pre @ [c])) 0"
    using m by (simp add: stcatchar_def)
  moreover have "m = k - Suc (length pre)" using m by simp
  ultimately show ?case using Cons.IH [of "pre @ [c]"] Cons.prems m by simp
qed simp

lemma format_char:
  "c \<noteq> of_char (CHR ''%'') \<Longrightarrow>
   format_str_outchar str_at (c # f) args n = c # format_str_outchar str_at f args (n + 1)"
  by simp

definition dotted :: "u8 list \<Rightarrow> u8 list" where
  "dotted ip = dec8 (ip ! 0) @ dot # dec8 (ip ! 1) @ dot # dec8 (ip ! 2) @ dot # dec8 (ip ! 3)"

lemma format_ip:
  "format_str_outchar str_at (bytes ''%u.%u.%u.%u'') (\<lambda>i. if i < 4 then ucast (ip ! i) else 0) 0 = dotted ip"
proof -
  have u: "format_str_outchar str_at (of_char (CHR ''%'') # of_char (CHR ''u'') # f) args n =
      number 10 (unat (args 0)) @ format_str_outchar str_at f (\<lambda>i. args (i + 1)) (n + of_nat (length (number 10 (unat (args 0)))))"
    for f args n by (rule format_conversion [OF _ _ convert_u]) simp_all
  have c: "format_str_outchar str_at (dot # f) args n = dot # format_str_outchar str_at f args (n + 1)" for f args n
    by (rule format_char) simp
  have "bytes ''%u.%u.%u.%u'' = of_char (CHR ''%'') # of_char (CHR ''u'') # dot # of_char (CHR ''%'') #
      of_char (CHR ''u'') # dot # of_char (CHR ''%'') # of_char (CHR ''u'') # dot # of_char (CHR ''%'') #
      [of_char (CHR ''u'')]"
    by (simp only: bytes_simps)
  then show ?thesis
    by (simp only: u c format_str_outchar.simps(1) dotted_def) (simp add: numeral_eq_Suc)
qed

lemma dotted_facts:
  "length (dotted ip) \<le> 15" "0 \<notin> set (dotted ip)"
  using dec8_facts(1) [of "ip ! 0"] dec8_facts(1) [of "ip ! 1"] dec8_facts(1) [of "ip ! 2"]
    dec8_facts(1) [of "ip ! 3"] dec8_facts(3)
  by (simp_all add: dotted_def)

lemma ip_to_str_ok: "ip_to_str ip = dotted ip @ replicate (16 - length (dotted ip)) 0"
  using foldl_stcatchar [of "dotted ip" "[]" 16] dotted_facts [of ip]
  by (simp only: ip_to_str_def formatstr_def format_ip) simp

text \<open>One round of the tokenising loop, at a token in front of the rest.\<close>

lemma ip_tokens_step:
  assumes "i < 4" "r = [] \<or> hd r = dot"
  shows "ip_tokens (pre @ dec8 b @ r) (length pre) i ip =
    ip_tokens (pre @ dec8 b @ r) (if r = [] then length pre + length (dec8 b) else length pre + length (dec8 b) + 1)
      (i + 1) (ip[i := b])"
  using assms strtok_token [OF dec8_facts(2,4) assms(2), of pre b] dec8_facts(2,5) [of b]
  by (subst ip_tokens.simps) simp

lemma ip_tokens_dotted:
  assumes "length ip = 4" "length ip0 = 4"
  shows "ip_tokens (dotted ip) 0 0 ip0 = ip"
proof -
  obtain a b c d where ip: "ip = [a, b, c, d]"
    using assms(1) by (auto simp: numeral_eq_Suc length_Suc_conv)
  obtain a0 b0 c0 d0 where ip0: "ip0 = [a0, b0, c0, d0]"
    using assms(2) by (auto simp: numeral_eq_Suc length_Suc_conv)
  let ?s = "dec8 a @ dot # dec8 b @ dot # dec8 c @ dot # dec8 d"
  let ?p1 = "dec8 a @ [dot]" and ?p2 = "dec8 a @ dot # dec8 b @ [dot]"
    and ?p3 = "dec8 a @ dot # dec8 b @ dot # dec8 c @ [dot]"
  have "ip_tokens ?s 0 0 ip0 = ip_tokens ?s (length ?p1) 1 [a, b0, c0, d0]"
    using ip_tokens_step [of 0 "dot # dec8 b @ dot # dec8 c @ dot # dec8 d" "[]" a ip0] ip0 by simp
  also have "\<dots> = ip_tokens ?s (length ?p2) 2 [a, b, c0, d0]"
    using ip_tokens_step [of 1 "dot # dec8 c @ dot # dec8 d" ?p1 b "[a, b0, c0, d0]"] by (simp add: numeral_2_eq_2)
  also have "\<dots> = ip_tokens ?s (length ?p3) 3 [a, b, c, d0]"
    using ip_tokens_step [of 2 "dot # dec8 d" ?p2 c "[a, b, c0, d0]"] by (simp add: add.assoc)
  also have "\<dots> = ip_tokens ?s (length ?s) 4 [a, b, c, d]"
    using ip_tokens_step [of 3 "[]" ?p3 d "[a, b, c, d0]"] by (simp add: add.assoc)
  also have "\<dots> = [a, b, c, d]" by (subst ip_tokens.simps) simp
  finally show ?thesis by (simp add: dotted_def ip numeral_eq_Suc)
qed

text \<open>
  C32: An address printed by \<open>ip_to_str\<close> fits in its 16 bytes with its terminator, and \<open>str_to_ip\<close> reads
  the same address back from it.
\<close>

theorem ip_string_roundtrip:
  assumes "length ip = 4" "length ip0 = 4"
  shows "length (ip_to_str ip) = 16 \<and> 0 \<in> set (ip_to_str ip) \<and> str_to_ip ip0 (ip_to_str ip) = ip"
proof -
  have s: "cstring (ip_to_str ip) = dotted ip"
  proof -
    have "16 - length (dotted ip) = Suc (15 - length (dotted ip))" using dotted_facts(1) [of ip] by simp
    then show ?thesis using cstring_append_zero [OF dotted_facts(2)] by (simp add: ip_to_str_ok)
  qed
  have "cstring (snd (strcpy_s (replicate 24 0) (ip_to_str ip) 24)) = take 23 (dotted ip)"
    using s cstring_take_zero [OF dotted_facts(2)] by (simp add: strcpy_s_ok)
  also have "\<dots> = dotted ip" using dotted_facts(1) [of ip] by simp
  finally have "str_to_ip ip0 (ip_to_str ip) = ip"
    using ip_tokens_dotted [OF assms] by (simp add: str_to_ip_def)
  then show ?thesis using dotted_facts(1) [of ip] by (simp add: ip_to_str_ok)
qed

theorem ip_string_roundtrip_witness:
  "str_to_ip [0, 0, 0, 0] (ip_to_str [192, 168, 0, 40]) = [192, 168, 0, 40]"
  using ip_string_roundtrip [of "[192, 168, 0, 40]" "[0, 0, 0, 0]"] by simp

lemma digit_below_ten:
  "digit_of c < 10 \<longleftrightarrow> of_char (CHR ''0'') \<le> c \<and> c \<le> of_char (CHR ''@'')"
proof -
  let ?n = "unat c" and ?w = "ucast c :: u16"
  have n: "?n < 256" by (rule unat_u8_lt)
  have sub: "unat (?w - 48) = (if 48 \<le> ?n then ?n - 48 else 65488 + ?n)"
    using n by (simp add: unat_sub_if_size word_size)
  have plus: "unat (10 + ?w) = 10 + ?n" using n by (simp add: unat_plus_u16)
  then have "unat (10 + ?w - 97) = 10 + ?n - 97" if "97 \<le> ?n"
    using that n by (simp add: unat_sub_if_size word_size)
  moreover have "unat (10 + ?w - 65) = 10 + ?n - 65" if "57 < ?n"
    using that n plus by (simp add: unat_sub_if_size word_size)
  ultimately show ?thesis using sub n
    by (simp add: digit_of_def word_less_nat_alt word_le_nat_alt) linarith
qed
text \<open>
  \<open>sisu\<close> takes the characters from \<open>:\<close> to \<open>@\<close>, which lie between the digits and the letters, for the
  digits 3 to 9: a one-character string is accepted as a number exactly for \<open>0\<close> to \<open>9\<close> and for these.
\<close>

lemma sisu_accepts_more:
  "sisu [c] = 1 \<longleftrightarrow> of_char (CHR ''0'') \<le> c \<and> c \<le> of_char (CHR ''@'')"
  using digit_below_ten [of c] by (auto simp: sisu_def not_le [symmetric])

lemma and_sign: "(ucast (v :: u16) :: u32) AND 0x8000 \<noteq> 0 \<longleftrightarrow> sint v < 0"
proof -
  have e: "(0x8000 :: u32) = 2 ^ 15" by simp
  have "(ucast v :: u32) AND 0x8000 \<noteq> 0 \<longleftrightarrow> bit v 15"
    by (simp only: e and_exp_eq_0_iff_not_bit) (simp add: bit_simps)
  also have "\<dots> \<longleftrightarrow> sint v < 0"
    using bit_last_iff [of v] by simp
  finally show ?thesis .
qed

lemma negated_u32:
  assumes "sint (v :: u16) < 0" "v \<noteq> 0x8000"
  shows "unat (scast (- v) :: u32) = nat (- sint v)"
proof -
  have "sint v \<noteq> sint (0x8000 :: u16)" using assms(2) by (metis signed_word_eqI)
  then have ne: "sint v \<noteq> - 32768" by simp
  have r: "- 32768 \<le> sint v" using sint_greater_eq [of v] by simp
  have "sint (- v) = signed_take_bit 15 (- sint v)" by (simp add: sint_word_ariths)
  also have "\<dots> = - sint v" using assms(1) ne r by (intro signed_take_bit_int_eq_self) simp_all
  finally have s: "sint (- v) = - sint v" .
  have w: "(scast (- v) :: u32) = word_of_int (- sint v)"
    by (subst scast_eq) (simp only: s)
  have "uint (word_of_int (- sint v) :: u32) = - sint v"
    using assms(1) r unfolding uint_word_of_int by (intro mod_pos_pos_trivial) simp_all
  then show ?thesis by (simp only: w unat_eq_nat_uint)
qed
text \<open>
  \<open>%d\<close> prints a 16-bit signed number in decimal, with its sign, except -32768: its negation is
  taken on 16 bits and then extended with its sign, so it is printed as -4294934528.
\<close>

lemma format_signed:
  "format_str_outchar str_at (bytes ''%d'') (\<lambda>i. v) 0 =
    (if v = 0x8000 then bytes ''-4294934528''
     else if sint v < 0 then bytes ''-'' @ number 10 (nat (- sint v)) else number 10 (unat v))"
proof -
  have len: "length (number 10 (unat x)) \<le> 31" for x :: u32
    using length_number [of "unat x" 10 10] unat_u32_lt [of x] by simp
  have put: "put_digits 10 x 0 0 [] = number 10 (unat x)" for x
    using put_digits_number [of 10 0 x 0 "[]"] len [of x] by simp
  have conv: "convert str_at (\<lambda>i. v) 0 0 (of_char (CHR ''d'')) =
      (if sint v < 0 then bytes ''-'' @ number 10 (unat (scast (- v) :: u32)) else number 10 (unat v), True, 1)"
    using and_sign [of v] by (simp add: convert_def put_number_def put)
  have out: "format_str_outchar str_at (bytes ''%d'') (\<lambda>i. v) 0 =
      (if sint v < 0 then bytes ''-'' @ number 10 (unat (scast (- v) :: u32)) else number 10 (unat v))"
  proof -
    have "bytes ''%d'' = of_char (CHR ''%'') # of_char (CHR ''d'') # []" by (simp only: bytes_simps)
    then show ?thesis using format_conversion [OF _ _ conv, of "[]"] by (simp only:) simp
  qed
  have low: "number 10 4294934528 = bytes ''4294934528''"
    by (simp add: number_step) (simp add: digit_char_def)
  show ?thesis
  proof (cases "v = 0x8000")
    case True
    then show ?thesis using out low by simp
  next
    case False
    then show ?thesis using out negated_u32 by simp
  qed
qed

end
