(* ===== verification/Ulib_Calls.thy ===== *)
theory Ulib_Calls
  imports Kernel_Services Ulib_Format
begin

section \<open>System calls: the library side (source/ulib/ulib.c)\<close>

text \<open>
  The functions of the library that pack their parameters and make a system call. A program runs in
  the segment \<open>seg\<close>; its parameter structure, or the argument whose address it passes, is at \<open>frame\<close> on its
  stack. Pointer arguments are near pointers of the program. Results written through a pointer to a
  variable of the caller are returned. The variadic functions take the format, the words of the argument list
  and the strings behind its pointers.
\<close>

record program =
  seg :: u16
  frame :: u16

definition param_at :: "program \<Rightarrow> u32" where "param_at u = lp (seg u) (frame u)"

definition syscall :: "program \<Rightarrow> u16 \<Rightarrow> u32 \<Rightarrow> u16 kernelm" where
  "syscall u service p = (\<lambda>s. kernel_service (seg u) service p s)"

definition syscall_with :: "program \<Rightarrow> u16 \<Rightarrow> u8 list \<Rightarrow> u16 kernelm" where
  "syscall_with u service bs = nbind (put_far (param_at u) bs) (\<lambda>_. syscall u service (param_at u))"

definition ignore :: "'a kernelm \<Rightarrow> unit kernelm" where "ignore m = nbind m (\<lambda>_. nret ())"

primrec each :: "('a \<Rightarrow> unit kernelm) \<Rightarrow> 'a list \<Rightarrow> unit kernelm" where
  "each f [] = nret ()"
| "each f (x # xs) = nbind (f x) (\<lambda>_. each f xs)"

subsection \<open>Screen, keyboard, mouse, serial port\<close>

definition get_mouse_state :: "program \<Rightarrow> u16 \<Rightarrow> (u16 \<times> u16 \<times> u16) kernelm" where
  "get_mouse_state u mode = nbind (nget (\<lambda>s. posattr_at (far s) (param_at u))) (\<lambda>pa.
     nbind (syscall_with u SYSCALL_IO_GET_MOUSE_STATE (posattr_bytes (pa\<lparr>pa_attr := mode\<rparr>))) (\<lambda>_.
     nget (\<lambda>s. let pa = posattr_at (far s) (param_at u) in (pa_x pa, pa_y pa, pa_c pa))))"

definition sputchar :: "program \<Rightarrow> u8 \<Rightarrow> unit kernelm" where
  "sputchar u c = ignore (syscall_with u SYSCALL_IO_OUT_CHAR_SERIAL [c])"

definition sputstr :: "program \<Rightarrow> (u16 \<Rightarrow> u8 list) \<Rightarrow> u8 list \<Rightarrow> (nat \<Rightarrow> u16) \<Rightarrow> unit kernelm" where
  "sputstr u str_at fmt args = each (sputchar u) (format_str_outchar str_at fmt args 0)"

definition sgetchar :: "program \<Rightarrow> u8 kernelm" where
  "sgetchar u = nbind (syscall u SYSCALL_IO_IN_CHAR_SERIAL 0) (\<lambda>c. nret (ucast c))"

definition debugchar :: "program \<Rightarrow> u8 \<Rightarrow> unit kernelm" where
  "debugchar u c = ignore (syscall_with u SYSCALL_IO_OUT_CHAR_DEBUG [c])"

definition debugstr :: "program \<Rightarrow> (u16 \<Rightarrow> u8 list) \<Rightarrow> u8 list \<Rightarrow> (nat \<Rightarrow> u16) \<Rightarrow> unit kernelm" where
  "debugstr u str_at fmt args = each (debugchar u) (format_str_outchar str_at fmt args 0)"

definition get_video_mode :: "program \<Rightarrow> u16 kernelm" where
  "get_video_mode u = syscall u SYSCALL_IO_GET_VIDEO_MODE 0"

definition set_video_mode :: "program \<Rightarrow> u16 \<Rightarrow> unit kernelm" where
  "set_video_mode u mode = ignore (syscall_with u SYSCALL_IO_SET_VIDEO_MODE (le16 mode))"

definition get_screen_size :: "program \<Rightarrow> u16 \<Rightarrow> u16 \<Rightarrow> u16 \<Rightarrow> unit kernelm" where
  "get_screen_size u mode width height = ignore (syscall_with u SYSCALL_IO_GET_SCREEN_SIZE
     (position_bytes \<lparr>ps_x = mode, ps_y = 0, ps_px = lp (seg u) width, ps_py = lp (seg u) height\<rparr>))"

definition clear_screen :: "program \<Rightarrow> unit kernelm" where
  "clear_screen u = ignore (syscall u SYSCALL_IO_CLEAR_SCREEN 0)"

definition set_pixel :: "program \<Rightarrow> u16 \<Rightarrow> u16 \<Rightarrow> u16 \<Rightarrow> unit kernelm" where
  "set_pixel u x y color = ignore (syscall_with u SYSCALL_IO_SET_PIXEL
     (posattr_bytes \<lparr>pa_x = x, pa_y = y, pa_c = color, pa_attr = 0\<rparr>))"

definition draw_char :: "program \<Rightarrow> u16 \<Rightarrow> u16 \<Rightarrow> u16 \<Rightarrow> u16 \<Rightarrow> unit kernelm" where
  "draw_char u x y c color = ignore (syscall_with u SYSCALL_IO_DRAW_CHAR
     (posattr_bytes \<lparr>pa_x = x, pa_y = y, pa_c = c, pa_attr = color\<rparr>))"

definition draw_map :: "program \<Rightarrow> u16 \<Rightarrow> u16 \<Rightarrow> u16 \<Rightarrow> u16 \<Rightarrow> u16 \<Rightarrow> unit kernelm" where
  "draw_map u x y buff width height =
     each (\<lambda>j. each (\<lambda>i.
       nbind (nget (\<lambda>s. lmem_getbyte (far s) (lp (seg u) (buff + (of_nat j * width + of_nat i))))) (\<lambda>c.
       set_pixel u (x + of_nat i) (y + of_nat j) (ucast c))) [0 ..< unat width]) [0 ..< unat height]"

definition putchar :: "program \<Rightarrow> u8 \<Rightarrow> unit kernelm" where
  "putchar u c = ignore (syscall_with u SYSCALL_IO_OUT_CHAR [c])"

definition put_string :: "program \<Rightarrow> (u16 \<Rightarrow> u8 list) \<Rightarrow> u8 list \<Rightarrow> (nat \<Rightarrow> u16) \<Rightarrow> unit kernelm" where
  "put_string u str_at fmt args = each (putchar u) (format_str_outchar str_at fmt args 0)"

definition putchar_attr :: "program \<Rightarrow> u16 \<Rightarrow> u16 \<Rightarrow> u8 \<Rightarrow> u8 \<Rightarrow> unit kernelm" where
  "putchar_attr u col row c attr = ignore (syscall_with u SYSCALL_IO_OUT_CHAR_ATTR
     (posattr_bytes \<lparr>pa_x = col, pa_y = row, pa_c = ucast c, pa_attr = ucast attr\<rparr>))"

definition get_cursor_position :: "program \<Rightarrow> u16 \<Rightarrow> u16 \<Rightarrow> unit kernelm" where
  "get_cursor_position u col row = ignore (syscall_with u SYSCALL_IO_GET_CURSOR_POS
     (position_bytes \<lparr>ps_x = 0, ps_y = 0, ps_px = lp (seg u) col, ps_py = lp (seg u) row\<rparr>))"

definition set_cursor_position :: "program \<Rightarrow> u16 \<Rightarrow> u16 \<Rightarrow> unit kernelm" where
  "set_cursor_position u col row = ignore (syscall_with u SYSCALL_IO_SET_CURSOR_POS
     (position_bytes \<lparr>ps_x = col, ps_y = row, ps_px = 0, ps_py = 0\<rparr>))"

definition set_show_cursor :: "program \<Rightarrow> u16 \<Rightarrow> unit kernelm" where
  "set_show_cursor u mode = ignore (syscall_with u SYSCALL_IO_SET_SHOW_CURSOR (le16 mode))"

definition getkey :: "program \<Rightarrow> u16 \<Rightarrow> u16 kernelm" where
  "getkey u mode = syscall_with u SYSCALL_IO_IN_KEY (le16 mode)"

definition getchar :: "program \<Rightarrow> u8 kernelm" where
  "getchar u = nbind (syscall_with u SYSCALL_IO_IN_KEY (le16 KM_WAIT_KEY)) (\<lambda>c. nret (ucast (c AND 0x00FF)))"

subsection \<open>Memory\<close>

definition malloc :: "program \<Rightarrow> u16 \<Rightarrow> u16 kernelm" where
  "malloc u sz = syscall_with u SYSCALL_MEM_ALLOCATE (le16 sz)"

definition mfree :: "program \<Rightarrow> u16 \<Rightarrow> unit kernelm" where
  "mfree u p = ignore (syscall u SYSCALL_MEM_FREE (ucast p))"

definition lmalloc :: "program \<Rightarrow> u32 \<Rightarrow> u32 kernelm" where
  "lmalloc u sz = nbind (syscall_with u SYSCALL_LMEM_ALLOCATE (lmem_bytes \<lparr>lm_dst = 0, lm_n = sz\<rparr>)) (\<lambda>_.
     nget (\<lambda>s. lm_dst (lmem_at (far s) (param_at u))))"

definition lmfree :: "program \<Rightarrow> u32 \<Rightarrow> unit kernelm" where
  "lmfree u p = ignore (syscall_with u SYSCALL_LMEM_FREE (lmem_bytes \<lparr>lm_dst = p, lm_n = 0\<rparr>))"

subsection \<open>File system\<close>

definition get_fsinfo :: "program \<Rightarrow> u16 \<Rightarrow> u16 \<Rightarrow> u16 kernelm" where
  "get_fsinfo u disk_index info = syscall_with u SYSCALL_FS_GET_INFO
     (fsinfo_bytes \<lparr>if_disk_index = disk_index, if_info = lp (seg u) info\<rparr>)"

definition get_entry :: "program \<Rightarrow> u16 \<Rightarrow> u16 \<Rightarrow> u16 \<Rightarrow> u16 \<Rightarrow> u16 kernelm" where
  "get_entry u entry path parent disk = syscall_with u SYSCALL_FS_GET_ENTRY
     (fsentry_bytes \<lparr>en_entry = lp (seg u) entry, en_path = lp (seg u) path, en_parent = parent, en_disk = disk\<rparr>)"

definition read_file :: "program \<Rightarrow> u16 \<Rightarrow> u16 \<Rightarrow> u16 \<Rightarrow> u16 \<Rightarrow> u16 kernelm" where
  "read_file u buff path offset count = syscall_with u SYSCALL_FS_READ_FILE
     (fsrwfile_bytes \<lparr>rw_buff = lp (seg u) buff, rw_path = lp (seg u) path, rw_offset = offset, rw_count = count,
        rw_flags = 0\<rparr>)"

definition write_file :: "program \<Rightarrow> u16 \<Rightarrow> u16 \<Rightarrow> u16 \<Rightarrow> u16 \<Rightarrow> u16 \<Rightarrow> u16 kernelm" where
  "write_file u buff path offset count flags = syscall_with u SYSCALL_FS_WRITE_FILE
     (fsrwfile_bytes \<lparr>rw_buff = lp (seg u) buff, rw_path = lp (seg u) path, rw_offset = offset, rw_count = count,
        rw_flags = flags\<rparr>)"

definition move :: "program \<Rightarrow> u16 \<Rightarrow> u16 \<Rightarrow> u16 kernelm" where
  "move u srcpath dstpath = syscall_with u SYSCALL_FS_MOVE
     (fssrcdst_bytes \<lparr>sd_src = lp (seg u) srcpath, sd_dst = lp (seg u) dstpath\<rparr>)"

definition copy :: "program \<Rightarrow> u16 \<Rightarrow> u16 \<Rightarrow> u16 kernelm" where
  "copy u srcpath dstpath = syscall_with u SYSCALL_FS_COPY
     (fssrcdst_bytes \<lparr>sd_src = lp (seg u) srcpath, sd_dst = lp (seg u) dstpath\<rparr>)"

definition delete :: "program \<Rightarrow> u16 \<Rightarrow> u16 kernelm" where
  "delete u path = syscall u SYSCALL_FS_DELETE (lp (seg u) path)"

definition create_directory :: "program \<Rightarrow> u16 \<Rightarrow> u16 kernelm" where
  "create_directory u path = syscall u SYSCALL_FS_CREATE_DIRECTORY (lp (seg u) path)"

definition list_dir :: "program \<Rightarrow> u16 \<Rightarrow> u16 \<Rightarrow> u16 \<Rightarrow> u16 kernelm" where
  "list_dir u entry path n = syscall_with u SYSCALL_FS_LIST
     (fslist_bytes \<lparr>ls_entry = lp (seg u) entry, ls_path = lp (seg u) path, ls_n = n\<rparr>)"

definition format :: "program \<Rightarrow> u16 \<Rightarrow> u16 kernelm" where
  "format u disk = syscall_with u SYSCALL_FS_FORMAT (le16 disk)"

subsection \<open>Time, network, random numbers\<close>

definition ulib_time :: "program \<Rightarrow> u16 \<Rightarrow> unit kernelm" where
  "ulib_time u t = ignore (syscall u SYSCALL_CLK_GET_TIME (lp (seg u) t))"

text \<open>The system timer, read into the variable at \<open>frame\<close>.\<close>

definition get_timer :: "program \<Rightarrow> u32 kernelm" where
  "get_timer u = nbind (syscall u SYSCALL_CLK_GET_MILISEC (param_at u)) (\<lambda>_. nget (\<lambda>s. far32 (far s) (param_at u)))"

partial_function (option) wait_until :: "program \<Rightarrow> u32 \<Rightarrow> u32 \<Rightarrow> kernel \<Rightarrow> (unit \<times> kernel) option" where
  "wait_until u limit now s =
     (if now < limit then nbind (get_timer u) (\<lambda>t s. wait_until u limit t s) s else nret () s)"

definition ulib_wait :: "program \<Rightarrow> u16 \<Rightarrow> unit kernelm" where
  "ulib_wait u ms = nbind (get_timer u) (\<lambda>t. \<lambda>s. wait_until u (t + ucast ms) t s)"

definition recv :: "program \<Rightarrow> u16 \<Rightarrow> u16 \<Rightarrow> u16 \<Rightarrow> u16 kernelm" where
  "recv u src_ip buff buff_size = syscall_with u SYSCALL_NET_RECV
     (netop_bytes \<lparr>no_addr = lp (seg u) src_ip, no_buff = lp (seg u) buff, no_size = buff_size\<rparr>)"

definition send :: "program \<Rightarrow> u16 \<Rightarrow> u16 \<Rightarrow> u16 \<Rightarrow> u16 kernelm" where
  "send u dst_ip buff len = syscall_with u SYSCALL_NET_SEND
     (netop_bytes \<lparr>no_addr = lp (seg u) dst_ip, no_buff = lp (seg u) buff, no_size = len\<rparr>)"

text \<open>\<open>rand\<close>: the seed, and the number.\<close>

definition rand_next :: "u32 \<Rightarrow> u16 \<times> u32" where
  "rand_next seed = (let seed = drop_bit 8 ((seed * seed) AND 0x00FFFF00) in (ucast seed, seed))"

definition rand :: "program \<Rightarrow> u32 \<Rightarrow> (u16 \<times> u32) kernelm" where
  "rand u seed =
     (if seed = 0 then nbind (get_timer u) (\<lambda>t. nret (rand_next (t + 0x11111111))) else nret (rand_next seed))"

end
