(* ===== verification/Line_Editor.thy ===== *)
theory Line_Editor
  imports Ulib_Calls Ulib_Memory
begin

section \<open>Reading a line (source/ulib/ulib.c)\<close>

text \<open>
  \<open>getstr\<close>: the line editor behind the prompt of the command line. The buffer of the line lies in near memory
  at \<open>str\<close>; the index \<open>i\<close> of the cursor and the sizes are 16-bit numbers. One key is one call of
  \<open>line_key\<close>, which is shown to implement an editor on a string and a position; \<open>getstr\<close> runs it until the
  return key is pressed and redraws the line after every key that changes it.
\<close>

text \<open>The characters from an address of near memory up to the first 0.\<close>

definition str_mem :: "mem \<Rightarrow> u16 \<Rightarrow> u8 list" where
  "str_mem m p = get_mem m p 65536"

text \<open>One key: the new buffer and cursor, or \<open>None\<close> for a key that is skipped without redrawing the line.\<close>

definition line_key :: "u16 \<Rightarrow> u16 \<Rightarrow> u16 \<Rightarrow> mem \<times> u16 \<Rightarrow> (mem \<times> u16) option" where
  "line_key str max_count k = (\<lambda>(m, i).
     (if k = KEY_BACKSPACE
      then Some (if i > 0 then (snd (memcpy m (str + (i - 1)) (str + i) (max_count - i)), i - 1) else (m, i))
      else if k = KEY_DEL
      then Some (if i < max_count - 1 then (snd (memcpy m (str + i) (str + (i + 1)) (max_count - i - 1)), i) else (m, i))
      else if k = KEY_LEFT \<and> i > 0 then Some (m, i - 1)
      else if k = KEY_RIGHT \<and> i < strlen (str_mem m str) then Some (m, i + 1)
      else if k = KEY_HOME then Some (m, 0)
      else if k = KEY_END then Some (m, strlen (str_mem m str))
      else if k \<noteq> KEY_TAB \<and> (k < 0x20 \<or> k > 0x7E) then None
      else if strlen (str_mem m str) < max_count - 1
      then let m = snd (memcpy m (str + (i + 1)) (str + i) (max_count - i - 2))
           in Some (m(str + i := getLO k), i + 1)
      else Some (m, i)))"

definition redraw_line :: "program \<Rightarrow> u16 \<Rightarrow> u16 \<Rightarrow> u16 \<Rightarrow> u16 \<Rightarrow> mem \<times> u16 \<Rightarrow> unit kernelm" where
  "redraw_line u str max_count col row = (\<lambda>(m, i).
     nbind (set_show_cursor u HIDE_CURSOR) (\<lambda>_.
     nbind (set_cursor_position u col row) (\<lambda>_.
     nbind (each (\<lambda>p. putchar u (m (str + of_nat p))) [0 ..< unat max_count]) (\<lambda>_.
     nbind (set_cursor_position u (col + i) row) (\<lambda>_.
     set_show_cursor u SHOW_CURSOR)))))"

partial_function (option) getstr_loop ::
    "program \<Rightarrow> u16 \<Rightarrow> u16 \<Rightarrow> u16 \<Rightarrow> u16 \<Rightarrow> mem \<times> u16 \<Rightarrow> kernel \<Rightarrow> (mem \<times> kernel) option" where
  "getstr_loop u str max_count col row l s =
     nbind (getkey u KM_NO_WAIT) (\<lambda>k s.
       if k = KEY_RETURN then nret (fst l) s
       else case line_key str max_count k l of
         None \<Rightarrow> getstr_loop u str max_count col row l s
       | Some l' \<Rightarrow> nbind (redraw_line u str max_count col row l') (\<lambda>_ s.
           getstr_loop u str max_count col row l' s) s) s"

text \<open>The variables \<open>col\<close> and \<open>row\<close> of the function are at \<open>pcol\<close> and \<open>prow\<close> on the stack of the program.\<close>

definition getstr :: "program \<Rightarrow> u16 \<Rightarrow> u16 \<Rightarrow> mem \<Rightarrow> u16 \<Rightarrow> u16 \<Rightarrow> (u16 \<times> mem) kernelm" where
  "getstr u pcol prow m str max_count =
     (let m = snd (memset m str 0 max_count)
      in nbind (getkey u KM_CLEAR_BUFFER) (\<lambda>_.
         nbind (get_cursor_position u pcol prow) (\<lambda>_.
         nbind (set_show_cursor u SHOW_CURSOR) (\<lambda>_.
         nbind (nget (\<lambda>s. (far16 (far s) (lp (seg u) pcol), far16 (far s) (lp (seg u) prow)))) (\<lambda>(col, row).
         nbind (\<lambda>s. getstr_loop u str max_count col row (m, 0) s) (\<lambda>m.
         let m = m(str + (max_count - 1) := 0)
         in nbind (putchar u 10) (\<lambda>_. nbind (putchar u 13) (\<lambda>_.
            nret (strlen (str_mem m str), m)))))))))"

subsection \<open>The editor on strings\<close>

definition edit_key :: "nat \<Rightarrow> u16 \<Rightarrow> u8 list \<times> nat \<Rightarrow> u8 list \<times> nat" where
  "edit_key limit k = (\<lambda>(t, i).
     (if k = KEY_BACKSPACE then (if i = 0 then (t, i) else (take (i - 1) t @ drop i t, i - 1))
      else if k = KEY_DEL then (take i t @ drop (i + 1) t, i)
      else if k = KEY_LEFT then (t, i - 1)
      else if k = KEY_RIGHT then (t, min (i + 1) (length t))
      else if k = KEY_HOME then (t, 0)
      else if k = KEY_END then (t, length t)
      else if (k = KEY_TAB \<or> 0x20 \<le> k \<and> k \<le> 0x7E) \<and> length t < limit
      then (take i t @ ucast k # drop i t, i + 1)
      else (t, i)))"

text \<open>The text with zeros behind it.\<close>

definition pad :: "nat \<Rightarrow> u8 list \<Rightarrow> u8 list" where
  "pad n t = t @ replicate (n - length t) 0"

text \<open>The buffer holds the text and zeros behind it, the cursor is inside, and nothing else has changed.\<close>

definition holds_line :: "mem \<Rightarrow> u16 \<Rightarrow> nat \<Rightarrow> u8 list \<times> nat \<Rightarrow> mem \<times> u16 \<Rightarrow> bool" where
  "holds_line m0 str n = (\<lambda>(t, p) (m, i).
     m = put_mem m0 str (pad n t) \<and> 0 \<notin> set t \<and> length t < n \<and> unat i = p \<and> p \<le> length t)"

lemma length_pad [simp]: "length (pad n t) = max n (length t)"
  by (simp add: pad_def)

lemma nth_pad: "j < n \<Longrightarrow> pad n t ! j = (if j < length t then t ! j else 0)"
  by (auto simp: pad_def nth_append)

lemma get_mem_add: "get_mem m a (j + k) = get_mem m a j @ get_mem m (a + of_nat j) k"
  by (rule nth_equalityI) (simp_all add: nth_get_mem nth_append add.assoc flip: of_nat_add)

lemma memcpy_inside:
  assumes "unat a + length bs \<le> 65536" "s + c \<le> length bs" "d + c \<le> length bs" "c < 65536"
    and "src = a + of_nat s" "dst = a + of_nat d" "n = of_nat c"
  shows "snd (memcpy (put_mem m a bs) dst src n) = put_mem m a (take d bs @ take c (drop s bs) @ drop (d + c) bs)"
proof (cases "c = 0")
  case True
  then show ?thesis using assms(7) by (simp add: memcpy_def)
next
  case False
  then have "unat src = unat a + s" "unat dst = unat a + d" "unat n = c"
    using assms by (simp_all add: unat_word_ariths unat_of_nat)
  then have "snd (memcpy (put_mem m a bs) dst src n) = put_mem (put_mem m a bs) dst (get_mem (put_mem m a bs) src c)"
    using assms(1-3) by (simp add: memcpy_put)
  also have "get_mem (put_mem m a bs) src c = take c (drop s bs)"
    using assms by (intro get_put_mem) simp_all
  also have "put_mem (put_mem m a bs) dst (take c (drop s bs)) = put_mem m a (take d bs @ take c (drop s bs) @ drop (d + c) bs)"
  proof -
    have "length (take c (drop s bs)) = c" using assms(2) by simp
    note put_mem_inside [of d "take c (drop s bs)" bs dst a m, unfolded this]
    then show ?thesis using assms by simp
  qed
  finally show ?thesis .
qed

lemma str_mem_line:
  assumes "holds_line m0 str n (t, p) (m, i)" "n \<le> 65536"
  shows "cstring (str_mem m str) = t"
proof -
  let ?b = "pad n t"
  have "get_mem m str n = ?b"
    using assms get_put_mem0 [of n ?b m0 str] by (simp add: holds_line_def)
  then have "str_mem m str = t @ 0 # replicate (n - length t - 1) 0 @ get_mem m (str + of_nat n) (65536 - n)"
    using get_mem_add [of m str n "65536 - n"] assms
    by (simp add: str_mem_def holds_line_def pad_def) (metis Suc_diff_Suc replicate_Suc append_Cons)
  then show ?thesis using assms(1) by (simp add: holds_line_def)
qed

lemma strlen_line:
  assumes "holds_line m0 str n (t, p) (m, i)" "n \<le> 65536"
  shows "unat (strlen (str_mem m str)) = length t" "length t < 65536"
  using assms str_mem_line [OF assms] by (auto simp: strlen_cstring unat_of_nat holds_line_def)

text \<open>The three moves of the buffer.\<close>

lemma pad_backspace:
  assumes "0 < p" "p \<le> length t" "length t < n"
  shows "take (p - 1) (pad n t) @ take (n - p) (drop p (pad n t)) @ drop (n - 1) (pad n t) = pad n (take (p - 1) t @ drop p t)"
  by (rule nth_equalityI) (use assms in \<open>auto simp: nth_append nth_pad min_def not_less intro!: arg_cong [of _ _ "nth t"]\<close>)

lemma pad_delete:
  assumes "p \<le> length t" "length t < n"
  shows "take p (pad n t) @ take (n - p - 1) (drop (p + 1) (pad n t)) @ drop (n - 1) (pad n t) = pad n (take p t @ drop (p + 1) t)"
  by (rule nth_equalityI) (use assms in \<open>auto simp: nth_append nth_pad min_def not_less intro!: arg_cong [of _ _ "nth t"]\<close>)

lemma pad_insert:
  assumes "p \<le> length t" "length t + 1 < n"
  shows "(take (p + 1) (pad n t) @ take (n - p - 2) (drop p (pad n t)) @ drop (n - 1) (pad n t))[p := c] =
    pad n (take p t @ c # drop p t)"
proof -
  obtain j where n: "n = length t + (j + 2)"
    using assms(2) by (metis add.commute add_2_eq_Suc' le_add_diff_inverse2 less_iff_Suc_add add_Suc_right Suc_eq_plus1)
  have "take (p + 1) (pad n t) = take p t @ [pad n t ! p]"
    using assms take_Suc_conv_app_nth [of p "pad n t"] by (simp add: pad_def)
  moreover have "take (n - p - 2) (drop p (pad n t)) = drop p t @ replicate j 0"
    using assms(1) n by (simp add: pad_def min_def del: replicate_Suc)
  moreover have "drop (n - 1) (pad n t) = replicate 1 0"
    using n by (simp add: pad_def del: replicate_Suc)
  ultimately show ?thesis
    using assms(1) n by (simp add: pad_def list_update_append min_def replicate_append_same)
qed

lemma unat_pred: "0 < unat (x :: u16) \<Longrightarrow> unat (x - 1) = unat x - 1"
  using unat_minus_of_nat [of 1 x] by simp

lemma getLO_ucast: "getLO k = ucast k"
proof -
  have "(0xFF :: u16) = mask 8" by (simp add: mask_eq_exp_minus_1)
  then have "getLO k = ucast (take_bit 8 k)" by (simp add: getLO_def take_bit_eq_mask)
  then show ?thesis by (auto intro!: bit_word_eqI simp: bit_simps)
qed

lemma put_mem_upd:
  assumes "p < length bs" "length bs \<le> 65536"
  shows "(put_mem m a bs)(a + of_nat p := c) = put_mem m a (bs[p := c])"
proof (rule ext)
  fix x
  have "x = a + of_nat p \<longleftrightarrow> unat (x - a) = p"
  proof
    assume "unat (x - a) = p"
    then have "x - a = of_nat p" by (metis of_nat_unat ucast_id)
    then show "x = a + of_nat p" by (simp add: algebra_simps)
  qed (use assms in \<open>simp add: unat_of_nat\<close>)
  then show "((put_mem m a bs)(a + of_nat p := c)) x = put_mem m a (bs[p := c]) x"
    using assms by (auto simp: put_mem_def nth_list_update)
qed

text \<open>One key of the code is one key of the editor on strings.\<close>

lemma line_key_edits:
  assumes h: "holds_line m0 str n (t, p) l" and n: "unat str + n \<le> 65536" "unat max_count = n"
  shows "holds_line m0 str n (edit_key (n - 1) k (t, p)) (case line_key str max_count k l of None \<Rightarrow> l | Some l' \<Rightarrow> l')"
proof -
  obtain m i where l: "l = (m, i)" by fastforce
  have m: "m = put_mem m0 str (pad n t)" "0 \<notin> set t" "length t < n" "unat i = p" "p \<le> length t"
    using h by (auto simp: l holds_line_def)
  have n16: "n \<le> 65536" "n < 65536" using n unat_u16_lt [of max_count] by auto
  have len: "unat (strlen (str_mem m str)) = length t" "length t < 65536"
    using strlen_line [OF h [unfolded l] n16(1)] by simp_all
  have "i = of_nat (unat i)" "max_count = of_nat (unat max_count)" by simp_all
  then have i: "i = of_nat p" "max_count = of_nat n" unfolding m(4) n(2) .
  have "1 \<le> unat max_count" using n m(3) by simp
  then have lim: "i < max_count - 1 \<longleftrightarrow> p < n - 1" "strlen (str_mem m str) < max_count - 1 \<longleftrightarrow> length t < n - 1"
    using n m(4) len by (simp_all add: word_less_nat_alt unat_pred)
  have move: "snd (memcpy m dst src c) = put_mem m0 str (take d (pad n t) @ take cn (drop sn (pad n t)) @ drop (d + cn) (pad n t))"
    if "sn + cn \<le> n" "d + cn \<le> n" "src = str + of_nat sn" "dst = str + of_nat d" "c = of_nat cn" for dst src c sn d cn
    unfolding m(1) by (rule memcpy_inside) (use that m n n16 in simp_all)
  consider (bs) "k = KEY_BACKSPACE" "0 < p" | (bs0) "k = KEY_BACKSPACE" "p = 0" | (del) "k = KEY_DEL" "p < n - 1"
    | (del0) "k = KEY_DEL" "\<not> p < n - 1" | (ins) "k = KEY_TAB \<or> 0x20 \<le> k \<and> k \<le> 0x7E" "length t < n - 1"
    | (other) "k \<noteq> KEY_BACKSPACE" "k \<noteq> KEY_DEL" "\<not> ((k = KEY_TAB \<or> 0x20 \<le> k \<and> k \<le> 0x7E) \<and> length t < n - 1)"
    by blast
  then show ?thesis
  proof cases
    case bs
    have "snd (memcpy m (str + (i - 1)) (str + i) (max_count - i)) = put_mem m0 str (pad n (take (p - 1) t @ drop p t))"
      using move [of p "n - p" "p - 1"] bs m i pad_backspace [of p t n] by (simp add: of_nat_diff)
    moreover have "i > 0" "unat (i - 1) = p - 1" using bs m(4) by (simp_all add: word_less_nat_alt unat_pred)
    ultimately show ?thesis
      using bs m by (auto simp: l line_key_def edit_key_def holds_line_def dest: in_set_takeD in_set_dropD)
  next
    case del
    have "snd (memcpy m (str + i) (str + (i + 1)) (max_count - i - 1)) = put_mem m0 str (pad n (take p t @ drop (p + 1) t))"
      using move [of "p + 1" "n - p - 1" p] del m i pad_delete [of p t n] by (simp add: of_nat_diff algebra_simps)
    then show ?thesis
      using del lim m by (auto simp: l line_key_def edit_key_def holds_line_def dest: in_set_takeD in_set_dropD)
  next
    case ins
    have k: "k \<noteq> KEY_BACKSPACE" "k \<noteq> KEY_DEL" "k \<noteq> KEY_LEFT" "k \<noteq> KEY_RIGHT" "k \<noteq> KEY_HOME" "k \<noteq> KEY_END"
      "\<not> (k \<noteq> KEY_TAB \<and> (k < 0x20 \<or> k > 0x7E))"
      using ins(1) by (auto simp: word_less_nat_alt word_le_nat_alt)
    have "(snd (memcpy m (str + (i + 1)) (str + i) (max_count - i - 2)))(str + i := getLO k) =
        put_mem m0 str (pad n (take p t @ ucast k # drop p t))"
    proof -
      have p: "p + 2 \<le> n" "length t + 1 < n" "Suc (n - 2) = n - 1" using ins m by simp_all
      have "snd (memcpy m (str + (i + 1)) (str + i) (max_count - i - 2)) =
          put_mem m0 str (take (p + 1) (pad n t) @ take (n - p - 2) (drop p (pad n t)) @ drop (n - 1) (pad n t))"
        using move [of p "n - p - 2" "p + 1"] p i by (simp add: of_nat_diff algebra_simps)
      moreover have "getLO k = ucast k" by (rule getLO_ucast)
      ultimately show ?thesis
        using p m(5) n16 i pad_insert [of p t n "ucast k"] by (simp add: put_mem_upd)
    qed
    moreover have "unat (i + 1) = p + 1" using m n16 by (simp add: unat_plus1_u16)
    moreover have "(ucast k :: u8) \<noteq> 0"
    proof
      assume "(ucast k :: u8) = 0"
      then have "unat k mod 256 = 0" by (simp add: word_unat_eq_iff unsigned_ucast_eq take_bit_eq_mod)
      moreover have "unat k < 256" "0 < unat k" using ins(1) by (auto simp: word_le_nat_alt)
      ultimately show False by simp
    qed
    ultimately show ?thesis
      using k lim ins m by (auto simp: l line_key_def edit_key_def holds_line_def Let_def dest: in_set_takeD in_set_dropD)
  next
    case other
    then show ?thesis
      using m lim len unat_pred [of i] unat_plus1_u16 [of i]
      by (auto simp: l line_key_def edit_key_def holds_line_def word_less_nat_alt word_le_nat_alt not_less)
  qed (use m lim in \<open>auto simp: l line_key_def edit_key_def holds_line_def word_less_nat_alt\<close>)
qed

text \<open>A sequence of keys.\<close>

definition edit_keys :: "nat \<Rightarrow> u16 list \<Rightarrow> u8 list \<times> nat \<Rightarrow> u8 list \<times> nat" where
  "edit_keys limit ks x = foldl (\<lambda>x k. edit_key limit k x) x ks"

definition line_keys :: "u16 \<Rightarrow> u16 \<Rightarrow> u16 list \<Rightarrow> mem \<times> u16 \<Rightarrow> mem \<times> u16" where
  "line_keys str max_count ks l =
     foldl (\<lambda>l k. case line_key str max_count k l of None \<Rightarrow> l | Some l' \<Rightarrow> l') l ks"

lemma line_keys_edits:
  assumes "holds_line m0 str n x l" "unat str + n \<le> 65536" "unat max_count = n"
  shows "holds_line m0 str n (edit_keys (n - 1) ks x) (line_keys str max_count ks l)"
  using assms(1)
proof (induction ks arbitrary: x l)
  case (Cons k ks)
  obtain t p where "x = (t, p)" by fastforce
  then show ?case
    using line_key_edits [of m0 str n t p l max_count k] Cons assms(2,3) by (simp add: edit_keys_def line_keys_def)
qed (simp add: edit_keys_def line_keys_def)

end
