(* ===== verification/Cli_Commands.thy ===== *)
theory Cli_Commands
  imports Line_Editor
begin

section \<open>The command line (source/cli.c)\<close>

text \<open>
  The commands, the dispatcher and script files. Commands call the file system directly and print through the
  library, whose functions make system calls on behalf of the kernel (\<open>cprog\<close>). A pointer argument of a format is
  the index of its string in the list given with it. The record \<open>console\<close> holds what the commands only read
  (state set at boot) and what lies outside: the call of a loaded program, whether the machine can be switched
  off or restarted by software, and the addresses of local variables whose address is passed on. A
  computation that never comes back (a halted machine) is \<open>None\<close>. Debug output is left out. Not modelled:
  what happens to memory when the arguments of a program take more than the 120 bytes kept for them.
\<close>

record console =
  cprog :: program
  serial_status :: u8
  a20_enabled :: u8
  system_timer_freq :: u32
  power_off :: bool
  restart :: bool
  uprog_call :: "u16 \<Rightarrow> u16 \<Rightarrow> kernel \<Rightarrow> (u16 \<times> kernel) option"
  time_var :: u16
  col_var :: u16
  row_var :: u16
  line_var :: u16

definition OS_VERSION_HI :: u16 where [simp]: "OS_VERSION_HI = 2"
definition OS_VERSION_LO :: u16 where [simp]: "OS_VERSION_LO = 0"
definition OS_BUILD_NUM :: u16 where [simp]: "OS_BUILD_NUM = 24"

definition UPROG_MEMSEG :: u32 where [simp]: "UPROG_MEMSEG = 0x1800"
definition UPROG_MEMLOC :: u32 where [simp]: "UPROG_MEMLOC = 0"
definition UPROG_STRLOC :: u32 where [simp]: "UPROG_STRLOC = 0xFF88"
definition UPROG_ARGLOC :: u32 where [simp]: "UPROG_ARGLOC = 0xFF80"
definition CLI_MAX_ARG :: nat where [simp]: "CLI_MAX_ARG = 4"

subsection \<open>Output\<close>

definition arg_string :: "u8 list list \<Rightarrow> u16 \<Rightarrow> u8 list" where
  "arg_string strs p = (if unat p < length strs then cstring (strs ! unat p) else [])"

definition arg_word :: "u16 list \<Rightarrow> nat \<Rightarrow> u16" where
  "arg_word ws i = (if i < length ws then ws ! i else 0)"

definition say :: "console \<Rightarrow> u8 list \<Rightarrow> u16 list \<Rightarrow> u8 list list \<Rightarrow> unit kernelm" where
  "say c fmt ws strs = put_string (cprog c) (arg_string strs) fmt (arg_word ws)"

definition tell :: "console \<Rightarrow> string \<Rightarrow> unit kernelm" where
  "tell c text = say c (bytes text @ [10, 13]) [] []"

definition long_arg :: "u32 \<Rightarrow> u16 list" where
  "long_arg v = [ucast v, ucast (drop_bit 16 v)]"

text \<open>A date as the commands print it: numbers below ten get a leading 0.\<close>

definition two_digits :: "u16 \<Rightarrow> u8 list" where
  "two_digits v = (if v < 10 then bytes ''0'' else [])"

definition date_format :: string where
  "date_format = ''%d/%s%d/%s%d %s%d:%s%d:%s%d''"

definition date_words :: "time_t \<Rightarrow> u16 list" where
  "date_words t = [year t, 0, month t, 1, day t, 2, hour t, 3, minute t, 4, second t]"

definition date_strings :: "time_t \<Rightarrow> u8 list list" where
  "date_strings t = map two_digits [month t, day t, hour t, minute t, second t]"

subsection \<open>Simple commands\<close>

definition cli_cls :: "console \<Rightarrow> nat \<Rightarrow> unit kernelm" where
  "cli_cls c argc = (if argc = 1 then clear_screen (cprog c) else tell c ''usage: cls'')"

text \<open>The first part of a line of a listing: the name, and spaces so that the size ends at a fixed column.\<close>

function size_figures :: "u16 \<Rightarrow> nat \<Rightarrow> u8 list \<Rightarrow> u8 list" where
  "size_figures sz i line =
     (let sz = sz div 10 in if sz \<noteq> 0 then size_figures sz (i - 1) (line[i - 1 := 0]) else line)"
  by pat_completeness auto
termination
proof (relation "measure (\<lambda>(sz, i, line). unat sz)")
  fix sz x :: u16 and i :: nat and line :: "u8 list"
  assume "x = sz div 10" "x \<noteq> 0"
  moreover have "unat (sz div 10) = unat sz div 10" by (simp add: unat_div)
  ultimately show "((x, i - 1, line[i - 1 := 0]), sz, i, line) \<in> measure (\<lambda>(sz, i, line). unat sz)"
    by (auto simp: word_unat_eq_iff intro!: div_less_dividend)
qed simp

declare size_figures.simps [simp del]

definition list_line :: "sfs_entry \<Rightarrow> u8 list" where
  "list_line e =
     (let line = snd (strcpy_s (replicate 64 0) (if entry_is e T_DIR then bytes ''+ '' else bytes ''  '') 64);
          line = snd (strcat_s line (entry_name e) 64);
          n = unat (strlen line);
          line = take n line @ replicate (22 - n) 32 @ drop (max n 22) line
      in size_figures (ucast (e_size e)) (max n 22) line)"

definition list_entry :: "console \<Rightarrow> sfs_entry \<Rightarrow> unit kernelm" where
  "list_entry c e =
     nbind (say c (bytes ''%s%u %s   '') [0, ucast (e_size e), 1]
       [list_line e, if entry_is e T_DIR then bytes ''items'' else bytes ''bytes'']) (\<lambda>_.
     let t = fs_fstime_to_systime (e_time e)
     in say c (bytes date_format @ [10, 13]) (date_words t) (date_strings t))"

primrec list_entries :: "console \<Rightarrow> u8 list \<Rightarrow> nat list \<Rightarrow> unit kernelm" where
  "list_entries c path [] = nret ()"
| "list_entries c path (i # is) =
     nbind (nget (\<lambda>s. fs_list (kfs s) path (of_nat i))) (\<lambda>r.
     case r of
       Inl e \<Rightarrow> tell c ''Error''
     | Inr (n, e) \<Rightarrow> if n \<ge> ERROR_ANY then tell c ''Error''
                     else nbind (list_entry c e) (\<lambda>_. list_entries c path is))"

definition cli_list :: "console \<Rightarrow> u8 list list \<Rightarrow> unit kernelm" where
  "cli_list c argv =
     (let argv = (if length argv = 1 then argv @ [ROOT_DIR_NAME] else argv)
      in if length argv = 2
         then nbind (nget (\<lambda>s. result fst (fs_list (kfs s) (argv ! 1) 0))) (\<lambda>n.
              if n \<ge> ERROR_ANY then tell c ''path not found''
              else if n > 0
              then nbind (tell c '''') (\<lambda>_. nbind (list_entries c (argv ! 1) [0 ..< unat n]) (\<lambda>_. tell c ''''))
              else nret ())
         else tell c ''usage: list <path>'')"

text \<open>The messages three commands share; \<open>verb\<close> is what could not be done.\<close>

definition tell_error :: "console \<Rightarrow> string \<Rightarrow> u16 \<Rightarrow> unit kernelm" where
  "tell_error c verb r =
     (if r = ERROR_NOT_FOUND then tell c ''error: path not found''
      else if r = ERROR_EXISTS then tell c ''error: destination already exists''
      else if r = ERROR_NO_SPACE then tell c (''error: can'' @ [CHR 0x27] @ ''t allocate destination in filesystem'')
      else if r \<ge> ERROR_ANY then tell c (''error: coludn'' @ [CHR 0x27] @ ''t '' @ verb)
      else nret ())"

definition cli_makedir :: "console \<Rightarrow> u8 list list \<Rightarrow> unit kernelm" where
  "cli_makedir c argv =
     (if length argv = 2
      then nbind (run_fs (fs_create_directory (argv ! 1))) (\<lambda>r. tell_error c ''create directory'' (result id r))
      else tell c ''usage: makedir <path>'')"

definition cli_delete :: "console \<Rightarrow> u8 list list \<Rightarrow> unit kernelm" where
  "cli_delete c argv =
     (if length argv = 2
      then nbind (run_fs (fs_delete (argv ! 1))) (\<lambda>r.
           if result (\<lambda>_. 0) r \<ge> ERROR_ANY then tell c ''error: failed to delete'' else nret ())
      else tell c ''usage: delete <path>'')"

definition cli_move :: "console \<Rightarrow> u8 list list \<Rightarrow> unit kernelm" where
  "cli_move c argv =
     (if length argv = 3
      then nbind (run_fs (fs_move (argv ! 1) (argv ! 2))) (\<lambda>r. tell_error c ''move files'' (result id r))
      else tell c ''usage: move <path> <newpath>'')"

definition cli_copy :: "console \<Rightarrow> u8 list list \<Rightarrow> unit kernelm" where
  "cli_copy c argv =
     (if length argv = 3
      then nbind (run_fs (\<lambda>f. fs_copy (argv ! 1) (argv ! 2) f)) (\<lambda>r. tell_error c ''copy files'' (result (\<lambda>_. 0) r))
      else tell c ''usage: copy <srcpath> <dstpath>'')"

subsection \<open>Information\<close>

definition info_disk :: "console \<Rightarrow> nat \<Rightarrow> unit kernelm" where
  "info_disk c i =
     nbind (nget kfs) (\<lambda>f. let d = disk_info f ! i in
     if di_size d \<noteq> 0
     then say c (bytes ''%s %s(%UMB)   Disk size: %UMB'' @ [10, 13])
            ([0, 1] @ long_arg (blocks_to_MB (di_fssize d)) @ long_arg (di_size d))
            [disk_to_string f (index_to_disk f (of_nat i)), if di_fstype d = FS_TYPE_NSFS then bytes ''NSFS'' else bytes ''UNKN'']
     else nret ())"

definition enabled_text :: "bool \<Rightarrow> u8 list" where
  "enabled_text b = (if b then bytes ''Enabled'' else bytes ''Disabled'')"

definition read_timer :: "u32 kernelm" where
  "read_timer = (\<lambda>s. Some (timer s (timer_reads s), s\<lparr>timer_reads := timer_reads s + 1\<rparr>))"

definition cli_info :: "console \<Rightarrow> nat \<Rightarrow> unit kernelm" where
  "cli_info c argc =
     (if argc = 1
      then nbind (tell c '''') (\<lambda>_.
           nbind (say c (bytes ''NANO S16 [Version %u.%u build %u]'' @ [10, 13]) [OS_VERSION_HI, OS_VERSION_LO, OS_BUILD_NUM] []) (\<lambda>_.
           nbind (tell c '''') (\<lambda>_.
           nbind (tell c ''Disks:'') (\<lambda>_.
           nbind (nput (\<lambda>s. s\<lparr>kfs := fs_init_info (kfs s)\<rparr>)) (\<lambda>_.
           nbind (each (info_disk c) [0 ..< MAX_DISK]) (\<lambda>_.
           nbind (tell c '''') (\<lambda>_.
           nbind (nget (\<lambda>s. (kfs s, knet s))) (\<lambda>(f, net).
           nbind (say c (bytes ''System disk: %s'' @ [10, 13]) [0] [disk_to_string f (ucast (system_disk f))]) (\<lambda>_.
           nbind (say c (bytes ''Serial port status: %s'' @ [10, 13]) [0]
             [if serial_status c AND 0x80 \<noteq> 0 then bytes ''Error'' else bytes ''Enabled'']) (\<lambda>_.
           nbind (say c (bytes ''A20 Line status: %s'' @ [10, 13]) [0] [enabled_text (a20_enabled c \<noteq> 0)]) (\<lambda>_.
           nbind (say c (bytes ''Network status: %s'' @ [10, 13]) [0] [enabled_text (network_enabled net \<noteq> 0)]) (\<lambda>_.
           nbind (say c (bytes ''Timer frequency: %UHz'' @ [10, 13]) (long_arg (system_timer_freq c)) []) (\<lambda>_.
           nbind read_timer (\<lambda>ms.
           nbind (say c (bytes ''System time alive: %Ums'' @ [10, 13]) (long_arg ms) []) (\<lambda>_.
           tell c '''')))))))))))))))
      else tell c ''usage: info'')"

text \<open>\<open>time\<close>, called with the address of a local variable.\<close>

definition time_at :: "fmem \<Rightarrow> u32 \<Rightarrow> time_t" where
  "time_at m a = \<lparr>year = far16 m a, month = far16 m (a + 2), day = far16 m (a + 4), hour = far16 m (a + 6),
     minute = far16 m (a + 8), second = far16 m (a + 10)\<rparr>"

definition cli_time :: "console \<Rightarrow> nat \<Rightarrow> unit kernelm" where
  "cli_time c argc =
     (if argc = 1
      then nbind (ulib_time (cprog c) (time_var c)) (\<lambda>_.
           nbind (nget (\<lambda>s. time_at (far s) (lp (seg (cprog c)) (time_var c)))) (\<lambda>t.
           say c ([10, 13] @ bytes date_format @ [10, 13, 10, 13]) (date_words t) (date_strings t)))
      else tell c ''usage: time'')"

definition cli_shutdown :: "console \<Rightarrow> u8 list list \<Rightarrow> unit kernelm" where
  "cli_shutdown c argv =
     (if length argv = 1
      then if power_off c then (\<lambda>s. None)
           else nbind (emit ClearScreen) (\<lambda>_. nbind (emit HideCursor) (\<lambda>_.
                nbind (tell c ''Turn off computer'') (\<lambda>_ s. None)))
      else if length argv = 2 \<and> strcmp (argv ! 1) (bytes ''reboot'') = 0
      then if restart c then (\<lambda>s. None) else tell c ''Reboot not supported''
      else tell c ''usage: shutdown [reboot]'')"

subsection \<open>Cloning the system disk\<close>

definition disk_line :: "console \<Rightarrow> string \<Rightarrow> fs_state \<Rightarrow> u16 \<Rightarrow> unit kernelm" where
  "disk_line c which f disk =
     (let d = disk_info_at f (disk_to_index f disk)
      in say c (bytes (which @ '' disk: %s    fs=%s  size=%UMB'') @ [10, 13]) ([0, 1] @ long_arg (blocks_to_MB (di_fssize d)))
           [disk_to_string f disk, if di_fstype d = FS_TYPE_NSFS then bytes ''NSFS   '' else bytes ''unknown''])"

text \<open>The loop over the entries of the root directory of the system disk; it returns the last result.\<close>

primrec clone_entries :: "console \<Rightarrow> u8 list \<Rightarrow> nat list \<Rightarrow> u16 \<Rightarrow> u16 kernelm" where
  "clone_entries c target [] r = nret r"
| "clone_entries c target (i # is) r =
     nbind (nget (\<lambda>s. fs_list (kfs s) ROOT_DIR_NAME (of_nat i))) (\<lambda>l.
     case l of
       Inl e \<Rightarrow> nbind (tell c ''Error copying files. Aborted'') (\<lambda>_. nret e)
     | Inr (n, e) \<Rightarrow>
         if n \<ge> ERROR_ANY then nbind (tell c ''Error copying files. Aborted'') (\<lambda>_. nret n)
         else nbind (run_fs (\<lambda>f. fs_copy (entry_name e) (sub_path (of_nat MAX_PATH) target (entry_name e)) f)) (\<lambda>w.
              let r = result (\<lambda>_. 0) w
              in if r \<ge> ERROR_ANY \<and> r \<noteq> ERROR_EXISTS
                 then nbind (say c (bytes ''Error copying %s. Aborted'' @ [10, 13]) [0] [entry_name e]) (\<lambda>_. nret r)
                 else clone_entries c target is r))"

definition clone_disk :: "console \<Rightarrow> u8 list \<Rightarrow> u16 \<Rightarrow> unit kernelm" where
  "clone_disk c target disk =
     nbind (tell c ''Formatting and copying system files...'') (\<lambda>_.
     nbind (run_fs (fs_format disk)) (\<lambda>r.
     if result (\<lambda>_. 0) r \<noteq> 0 then tell c ''Error formatting disk. Aborted''
     else nbind (tell c ''Copying user files...'') (\<lambda>_.
          nbind (nget (\<lambda>s. result fst (fs_list (kfs s) ROOT_DIR_NAME 0))) (\<lambda>n.
          if n \<ge> ERROR_ANY then tell c ''Error creating file list''
          else nbind (clone_entries c target [0 ..< unat n] 0) (\<lambda>r.
               if r < ERROR_ANY then tell c ''Operation completed'' else nret ())))))"

definition cli_clone :: "console \<Rightarrow> u8 list list \<Rightarrow> unit kernelm" where
  "cli_clone c argv =
     (if length argv = 2
      then nbind (nget kfs) (\<lambda>f. let disk = string_to_disk f (argv ! 1); sys = ucast (system_disk f) in
           nbind (disk_line c ''System'' f sys) (\<lambda>_.
           if disk = ERROR_NOT_FOUND
           then say c (bytes ''Target disk not found (%s)'' @ [10, 13]) [0] [argv ! 1]
           else if disk = sys then tell c (''Target disk can'' @ [CHR 0x27] @ ''t be the system disk'')
           else nbind (disk_line c ''Target'' f disk) (\<lambda>_.
                nbind (tell c '''') (\<lambda>_.
                nbind (say c (bytes ''Target disk (%s) will lose all data'' @ [10, 13]) [0] [disk_to_string f disk]) (\<lambda>_.
                nbind (say c (bytes ''Target disk (%s) will contain a %UMB NSFS filesystem after operation'' @ [10, 13])
                  (0 # long_arg (di_size (disk_info_at f (disk_to_index f disk)))) [disk_to_string f disk]) (\<lambda>_.
                nbind (tell c '''') (\<lambda>_.
                nbind (say c (bytes (''Press '' @ [CHR 0x27] @ ''y'' @ [CHR 0x27] @ '' to confirm: '')) [] []) (\<lambda>_.
                nbind (getkey (cprog c) KM_WAIT_KEY) (\<lambda>k.
                if k \<noteq> of_char (CHR ''y'')
                then nbind (say c [10, 13] [] []) (\<lambda>_. tell c ''User aborted operation'')
                else nbind (tell c ''y'') (\<lambda>_. clone_disk c (argv ! 1) disk))))))))))
      else tell c ''usage: clone <target_disk>'')"

subsection \<open>Showing a file\<close>

text \<open>The buffer of 512 bytes is cleared before every read.\<close>

definition read_buff :: "kernel \<Rightarrow> u16 \<Rightarrow> u8 list \<Rightarrow> u8 list" where
  "read_buff s n b = take (unat n) (b @ replicate (512 - length b) 0 @ map (stack_junk s) [512 ..< unat n])"

definition show_byte :: "console \<Rightarrow> bool \<Rightarrow> u8 \<Rightarrow> unit kernelm" where
  "show_byte c hex b =
     (if hex then say c (bytes ''%2x '') [ucast b] []
      else nbind (putchar (cprog c) b) (\<lambda>_. if b = 10 then putchar (cprog c) 13 else nret ()))"

definition read_error :: "console \<Rightarrow> unit kernelm" where
  "read_error c = say c ([10, 13] @ bytes ''There was an error reading input file'' @ [10, 13]) [] []"

partial_function (option) cli_read_loop :: "console \<Rightarrow> bool \<Rightarrow> u8 list \<Rightarrow> u16 \<Rightarrow> kernel \<Rightarrow> (unit \<times> kernel) option" where
  "cli_read_loop c hex path offset s =
     (case fs_read_file (kfs s) path offset 512 of
        Inl e \<Rightarrow> read_error c s
      | Inr (n, b) \<Rightarrow>
          if n = 0 then nret () s
          else if n \<ge> ERROR_ANY then read_error c s
          else nbind (each (show_byte c hex) (read_buff s n b)) (\<lambda>_ s. cli_read_loop c hex path (offset + n) s) s)"

definition cli_read :: "console \<Rightarrow> u8 list list \<Rightarrow> unit kernelm" where
  "cli_read c argv =
     (if length argv = 2 \<or> length argv = 3 \<and> strcmp (argv ! 1) (bytes ''hex'') = 0
      then nbind (\<lambda>s. cli_read_loop c (length argv \<noteq> 2) (argv ! (length argv - 1)) 0 s) (\<lambda>_. tell c '''')
      else tell c ''usage: read [hex] <path>'')"

end
