(* ===== verification/Cli.thy ===== *)
theory Cli
  imports Cli_Commands
begin

section \<open>Configuration, programs and scripts (source/cli.c)\<close>

text \<open>
  The \<open>config\<close> command, the start of a program from a file, the dispatcher, script files and one turn of the
  command line.
\<close>

subsection \<open>Configuration\<close>

definition ip_words :: "u8 list \<Rightarrow> u16 list" where
  "ip_words ip = map (\<lambda>i. ucast (ip ! i)) [0 ..< 4]"

text \<open>The text \<open>config save\<close> puts together in a buffer of 512 bytes with \<open>strcat_s\<close>.\<close>

definition config_parts :: "u16 \<Rightarrow> u16 \<Rightarrow> u8 list \<Rightarrow> u8 list \<Rightarrow> u8 list list" where
  "config_parts debug graphics ip gate =
     [bytes ''config debug '', if debug \<noteq> 0 then bytes ''enabled'' else bytes ''disabled'', [10],
      bytes ''config graphics '', if graphics \<noteq> 0 then bytes ''enabled'' else bytes ''disabled'', [10],
      bytes ''config net_IP '', ip_to_str ip, [10],
      bytes ''config net_gate '', ip_to_str gate, [10]]"

definition config_buffer :: "u16 \<Rightarrow> u16 \<Rightarrow> u8 list \<Rightarrow> u8 list \<Rightarrow> u8 list" where
  "config_buffer debug graphics ip gate =
     foldl (\<lambda>b p. snd (strcat_s b p 512)) (replicate 512 0) (config_parts debug graphics ip gate)"

definition config_name :: "u8 list" where "config_name = bytes ''config.ini''"

definition config_save :: "unit kernelm" where
  "config_save =
     nbind (nget (\<lambda>s. config_buffer (serial_debug s) (graphics_mode s) (local_ip (knet s)) (local_gate (knet s)))) (\<lambda>b.
     nbind (run_fs (fs_write_file b config_name 0 (strlen b + 1) (WF_CREATE OR WF_TRUNCATE))) (\<lambda>_. nret ()))"

definition config_show :: "console \<Rightarrow> unit kernelm" where
  "config_show c =
     nbind (nget (\<lambda>s. s)) (\<lambda>s.
     let on = (\<lambda>v :: u16. if v \<noteq> 0 then bytes '' enabled'' else bytes ''disabled'')
     in nbind (tell c '''') (\<lambda>_.
        nbind (say c (bytes ''debug: %s       - output debug info through serial port'' @ [10, 13]) [0] [on (serial_debug s)]) (\<lambda>_.
        nbind (say c (bytes ''graphics: %s    - use graphics mode'' @ [10, 13]) [0] [on (graphics_mode s)]) (\<lambda>_.
        nbind (say c (bytes ''net_IP: %u.%u.%u.%u'' @ [10, 13]) (ip_words (local_ip (knet s))) []) (\<lambda>_.
        nbind (say c (bytes ''net_gate: %u.%u.%u.%u'' @ [10, 13]) (ip_words (local_gate (knet s))) []) (\<lambda>_.
        tell c ''''))))))"

definition invalid_value :: "console \<Rightarrow> unit kernelm" where
  "invalid_value c = tell c ''Invalid value. Valid values are: enabled, disabled''"

definition config_set :: "console \<Rightarrow> u8 list \<Rightarrow> u8 list \<Rightarrow> unit kernelm" where
  "config_set c var v =
     (if strcmp var (bytes ''debug'') = 0
      then if strcmp v (bytes ''enabled'') = 0 then nput (\<lambda>s. s\<lparr>serial_debug := 1\<rparr>)
           else if strcmp v (bytes ''disabled'') = 0 then nput (\<lambda>s. s\<lparr>serial_debug := 0\<rparr>)
           else invalid_value c
      else if strcmp var (bytes ''graphics'') = 0
      then if strcmp v (bytes ''enabled'') = 0 then nbind io_set_graphics_mode (\<lambda>_. emit (SetCursor 0 0))
           else if strcmp v (bytes ''disabled'') = 0 then nbind io_set_text_mode (\<lambda>_. emit (SetCursor 0 0))
           else invalid_value c
      else if strcmp var (bytes ''net_IP'') = 0
      then nput (\<lambda>s. s\<lparr>knet := (knet s)\<lparr>local_ip := str_to_ip (local_ip (knet s)) v\<rparr>\<rparr>)
      else if strcmp var (bytes ''net_gate'') = 0
      then nput (\<lambda>s. s\<lparr>knet := (knet s)\<lparr>local_gate := str_to_ip (local_gate (knet s)) v\<rparr>\<rparr>)
      else nret ())"

definition cli_config :: "console \<Rightarrow> u8 list list \<Rightarrow> unit kernelm" where
  "cli_config c argv =
     (if length argv = 1 then config_show c
      else if length argv = 2 \<and> strcmp (argv ! 1) (bytes ''save'') = 0 then config_save
      else if length argv = 3 then config_set c (argv ! 1) (argv ! 2)
      else say c (bytes ''usages:'' @ [10, 13] @ bytes ''config'' @ [10, 13] @ bytes ''config save'' @ [10, 13] @
             bytes ''config <var> <value>'') [] [])"

subsection \<open>Programs\<close>

text \<open>The name of the file: the first argument, cut to 31 characters, with \<open>.bin\<close> appended if it has no dot.\<close>

definition program_name :: "u8 list \<Rightarrow> u8 list" where
  "program_name arg =
     (let name = snd (strcpy_s (replicate 32 0) arg 32)
      in cstring (if strchr name (of_char (CHR ''.'')) = 0 then snd (strcat_s name (bytes ''.bin'') 32) else name))"

text \<open>The bytes of the file go to the segment of the program in blocks of at most 512.\<close>

definition put_bytes_at :: "u32 \<Rightarrow> u8 list \<Rightarrow> unit kernelm" where
  "put_bytes_at a bs = nput (\<lambda>s. s\<lparr>far := foldl (\<lambda>m i. lmem_setbyte (a + of_nat i) (bs ! i) m) (far s) [0 ..< length bs]\<rparr>)"

partial_function (option) load_program ::
    "console \<Rightarrow> u8 list \<Rightarrow> u16 \<Rightarrow> u16 \<Rightarrow> kernel \<Rightarrow> (bool \<times> kernel) option" where
  "load_program c name mem_size offset s =
     (if offset < mem_size
      then (case fs_read_file (kfs s) name offset (min16 (mem_size - offset) 512) of
              Inl e \<Rightarrow> nbind (tell c ''error loading file'') (\<lambda>_. nret False) s
            | Inr (r, b) \<Rightarrow>
                if r < ERROR_ANY
                then nbind (put_bytes_at (push_bit 4 UPROG_MEMSEG + UPROG_MEMLOC + ucast offset) (local_buff s (unat r) b)) (\<lambda>_ s.
                     load_program c name mem_size (offset + r) s) s
                else nbind (tell c ''error loading file'') (\<lambda>_. nret False) s)
      else nret True s)"

text \<open>
  The copy of the arguments in the segment of the program: \<open>i\<close> is the number of the argument, \<open>k\<close> the number of
  characters so far. An address is kept in two bytes.
\<close>

primrec store_args :: "u8 list list \<Rightarrow> nat \<Rightarrow> nat \<Rightarrow> fmem \<Rightarrow> fmem" where
  "store_args [] i k m = m"
| "store_args (arg # args) i k m =
     (let var = push_bit 4 UPROG_MEMSEG + UPROG_ARGLOC + 2 * of_nat i;
          loc = UPROG_STRLOC + of_nat k;
          m = lmem_setbyte var (ucast (loc AND 0xFF)) m;
          m = lmem_setbyte (var + 1) (ucast (drop_bit 8 loc AND 0xFF)) m;
          m = foldl (\<lambda>m j. lmem_setbyte (push_bit 4 UPROG_MEMSEG + UPROG_STRLOC + of_nat (k + j)) ((arg @ [0]) ! j) m)
                m [0 ..< length arg + 1]
      in store_args args (i + 1) (k + length arg + 1) m)"

definition cli_extern :: "console \<Rightarrow> u8 list list \<Rightarrow> unit kernelm" where
  "cli_extern c argv =
     (let name = program_name (argv ! 0)
      in nbind (nget (\<lambda>s. fs_get_entry (kfs s) name UNKNOWN_VALUE UNKNOWN_VALUE)) (\<lambda>r.
         case r of
           Inl e \<Rightarrow> tell c ''unknown command''
         | Inr (n, e) \<Rightarrow>
             if \<not> entry_is e T_FILE then tell c ''unknown command''
             else let mem_size = min16 (ucast (e_size e)) (ucast (UPROG_ARGLOC - UPROG_MEMLOC))
                  in if mem_size < ucast (e_size e) then tell c ''not enough memory''
                     else nbind (\<lambda>s. load_program c name mem_size 0 s) (\<lambda>ok.
                          if \<not> ok \<or> n = 0 then tell c ''unknown command''
                          else let dot = strchr name (of_char (CHR ''.''))
                               in if strcmp (drop (unat (dot - 1)) name) (bytes ''.bin'') \<noteq> 0
                                  then say c (bytes ''error: only %s files can be executed'' @ [10, 13]) [0] [bytes ''.bin'']
                                  else nbind (nput (\<lambda>s. s\<lparr>far := store_args argv 0 0 (far s)\<rparr>)) (\<lambda>_.
                                       nbind (uprog_call c (of_nat (length argv)) (ucast UPROG_ARGLOC)) (\<lambda>_. nret ())))))"

subsection \<open>The dispatcher\<close>

text \<open>The lines of \<open>help\<close>, and those behind its hidden argument.\<close>

definition help_lines :: "string list" where
  "help_lines =
     ['''',
      ''Built-in commands:'',
      '''',
      ''clone    - clone system in another disk'',
      ''cls      - clear the screen'',
      ''config   - show or set config'',
      ''copy     - create a copy of a file or directory'',
      ''delete   - delete entry'',
      ''help     - show this help'',
      ''info     - show system info'',
      ''list     - list directory contents'',
      ''makedir  - create directory'',
      ''move     - move file or directory'',
      ''read     - show file contents in screen'',
      ''shutdown - shutdown the computer'',
      ''time     - show time and date'',
      '''']"

definition huri_lines :: "string list" where
  "huri_lines =
     ['''',
      ''                                     _,-/'' @ [CHR 0x5C] @ ''^---,      '',
      ''             ;'' @ [CHR 0x22] @ ''~~~~~~~~'' @ [CHR 0x22] @ '';          _/;; ~~  {0 `---v '',
      ''           ;'' @ [CHR 0x22] @ '' :::::   :: '' @ [CHR 0x22] @ [CHR 0x5C] @ ''_     _/   ;;     ~ _../  '',
      ''         ;'' @ [CHR 0x22] @ '' ;;    ;;;       '' @ [CHR 0x5C] @ ''___/::    ;;,'' @ [CHR 0x27] @ ''~~~~      '',
      ''       ;'' @ [CHR 0x22] @ ''  ;;;;.    ;;     ;;;    ::   ,/            '',
      ''      / ;;   ;;;______;;;;  ;;;    ::,/              '',
      ''     /;;V_;; _-~~~~~~~~~~;_  ;;;   ,/                '',
      ''    | :/ / ,/              '' @ [CHR 0x5C] @ ''_  ~~)/                  '',
      ''    |:| / /~~~=              '' @ [CHR 0x5C] @ '';; '' @ [CHR 0x5C] @ ''~~=                '',
      ''    ;:;{::~~~~~~=              '' @ [CHR 0x5C] @ ''__~~~=               '',
      '' ;~~:;  ~~~~~~~~~               ~~~~~~               '',
      '' '' @ [CHR 0x5C] @ ''/~~                                               '',
      '''']"


definition cli_help :: "console \<Rightarrow> u8 list list \<Rightarrow> unit kernelm" where
  "cli_help c argv =
     (if length argv = 1 then each (tell c) help_lines
      else if length argv = 2 \<and> strcmp (argv ! 1) (bytes ''huri'') = 0 then each (tell c) huri_lines
      else tell c ''usage: help'')"

lemma strtok_list_advance:
  assumes "p < length str" "strtok_list str p d = (a, tok, next)"
  shows "p < next"
proof (cases "tok = []")
  case True
  define k where "k = length (takeWhile (\<lambda>c. c = d) (drop p str))"
  have a: "a = p + k" "tok = takeWhile (\<lambda>c. c \<noteq> d) (drop a str)" "next = (if a < length str then a + 1 else a)"
    using assms(2) True by (auto simp: strtok_list_def skip_delim_def k_def Let_def split: if_splits)
  have e: "drop a str = dropWhile (\<lambda>c. c = d) (drop p str)"
    unfolding a(1) k_def dropWhile_eq_drop by (simp add: add.commute)
  have "takeWhile (\<lambda>c. c \<noteq> d) (drop a str) = []" unfolding a(2) [symmetric] by (rule True)
  then have "drop a str = []" unfolding e using hd_dropWhile [of "\<lambda>c. c = d" "drop p str"] by (auto simp: takeWhile_eq_Nil_iff)
  then show ?thesis using a(3) assms(1) by simp
qed (use assms strtok_list_progress in blast)

text \<open>The arguments: at most four tokens; \<open>p\<close> is the offset of \<open>tok\<close> and \<open>nexttok\<close> in the line.\<close>

function arguments :: "u8 list \<Rightarrow> nat \<Rightarrow> u8 list list \<Rightarrow> u8 list list" where
  "arguments str p argv =
     (if p < length str \<and> length argv < CLI_MAX_ARG
      then let (a, tok, next) = strtok_list str p (of_char (CHR '' ''))
        in arguments str next (if tok \<noteq> [] then argv @ [tok] else argv)
      else argv)"
  by pat_completeness auto
termination
proof (relation "measure (\<lambda>(str, p, argv). length str - p)")
  fix str :: "u8 list" and p :: nat and argv :: "u8 list list" and x xa y a b
  assume p: "p < length str \<and> length argv < CLI_MAX_ARG"
    and t: "x = strtok_list str p (of_char (CHR '' ''))" "(xa, y) = x" "(a, b) = y"
  have "p < b" using strtok_list_advance [of p str "of_char (CHR '' '')" xa a b] t p by simp
  then show "((str, b, if a \<noteq> [] then argv @ [a] else argv), str, p, argv) \<in> measure (\<lambda>(str, p, argv). length str - p)"
    using p by auto
qed simp

declare arguments.simps [simp del]

definition execute :: "console \<Rightarrow> u8 list \<Rightarrow> unit kernelm" where
  "execute c str =
     (let argv = arguments str 0 []; is = (\<lambda>name. strcmp (argv ! 0) (bytes name) = 0)
      in if length argv = 0 then nret ()
         else if is ''cls'' then cli_cls c (length argv)
         else if is ''list'' then cli_list c argv
         else if is ''makedir'' then cli_makedir c argv
         else if is ''delete'' then cli_delete c argv
         else if is ''move'' then cli_move c argv
         else if is ''copy'' then cli_copy c argv
         else if is ''info'' then cli_info c (length argv)
         else if is ''clone'' then cli_clone c argv
         else if is ''read'' then cli_read c argv
         else if is ''time'' then cli_time c (length argv)
         else if is ''shutdown'' then cli_shutdown c argv
         else if is ''config'' then cli_config c argv
         else if is ''help'' then cli_help c argv
         else cli_extern c argv)"

subsection \<open>Scripts and the prompt\<close>

text \<open>
  A script is read 72 bytes at a time; the bytes up to a line feed are a command. It ends at the end of the
  file, at an error, and at a line that does not end within 72 bytes.
\<close>

definition line_break :: "u8 list \<Rightarrow> nat option" where
  "line_break b = find (\<lambda>i. b ! i = 10) [0 ..< length b]"

partial_function (option) cli_exec_file :: "console \<Rightarrow> u8 list \<Rightarrow> u16 \<Rightarrow> kernel \<Rightarrow> (unit \<times> kernel) option" where
  "cli_exec_file c path offset s =
     (case fs_read_file (kfs s) path offset 72 of
        Inl e \<Rightarrow> nret () s
      | Inr (readed, b) \<Rightarrow>
          if readed = 0 \<or> readed \<ge> ERROR_ANY then nret () s
          else let line = local_buff s (unat readed) b
               in case line_break line of
                    None \<Rightarrow> nret () s
                  | Some i \<Rightarrow> nbind (execute c (cstring (take i line))) (\<lambda>_ s.
                      cli_exec_file c path (offset + 1 + of_nat i) s) s)"

text \<open>One turn of the endless loop of \<open>cli\<close>, with the near memory that holds its line.\<close>

definition cli_turn :: "console \<Rightarrow> mem \<Rightarrow> mem kernelm" where
  "cli_turn c m =
     nbind (say c (bytes ''> '') [] []) (\<lambda>_.
     nbind (getstr (cprog c) (col_var c) (row_var c) (snd (memset m (line_var c) 0 72)) (line_var c) 72) (\<lambda>(n, m).
     nbind (execute c (cstring (get_mem m (line_var c) 72))) (\<lambda>_. nret m)))"

primrec cli :: "nat \<Rightarrow> console \<Rightarrow> mem \<Rightarrow> mem kernelm" where
  "cli 0 c m = nret m"
| "cli (Suc n) c m = nbind (cli_turn c m) (\<lambda>m. cli n c m)"

end
