(* ===== verification/Fs_Directory.thy ===== *)
theory Fs_Directory
  imports Fs_Ops
begin

section \<open>What the file system operations do\<close>

subsection \<open>States that differ in one disk\<close>

lemma clock_simps [simp]:
  "disk_of (s\<lparr>clock := c\<rparr>) disk = disk_of s disk"
  "device_ok (s\<lparr>clock := c\<rparr>) disk = device_ok s disk"
  "mounted (s\<lparr>clock := c\<rparr>) disk = mounted s disk"
  "set_disk (s\<lparr>clock := c\<rparr>) disk f = (set_disk s disk f)\<lparr>clock := c\<rparr>"
  by (simp_all add: disk_of_def device_ok_def mounted_def set_disk_def disk_info_at_def no_geometry_def
      disk_to_index_def)

lemma get_entry_set:
  "device_ok s disk \<Longrightarrow> sectors_ok f \<Longrightarrow> n < ERROR_ANY \<Longrightarrow>
   get_entry_n (set_disk s disk f) disk n = Inr (entry_at f (unat n))"
  by (subst get_entry_n_ok) simp_all

lemma write_entry_set:
  "device_ok s disk \<Longrightarrow> sectors_ok f \<Longrightarrow> n < ERROR_ANY \<Longrightarrow> entry_shape e \<Longrightarrow>
   write_entry e disk n (set_disk s disk f) =
     Some (Inr (), set_disk s disk (put_entry f (unat n) e))"
  by (subst write_entry_ok) simp_all

lemma sectors_ok_put [simp]:
  "sectors_ok f \<Longrightarrow> entry_shape e \<Longrightarrow> sectors_ok (put_entry f n e)"
  by (simp add: sectors_ok_def put_entry_def length_encode_entry)

lemma put_entry_twice [simp]: "put_entry (put_entry f n a) n b = put_entry f n b"
  by (simp add: put_entry_def)

text \<open>Reading the table after a write, for indices the code can use.\<close>

lemma entry_at_put:
  "sectors_ok f \<Longrightarrow> entry_shape e \<Longrightarrow> n < table_limit \<Longrightarrow> m < table_limit \<Longrightarrow>
   entry_at (put_entry f n e) m = (if m = n then e else entry_at f m)"
  by (simp add: table.get_put_same table.get_put_other)

lemma index_lt: "n < ERROR_ANY \<longleftrightarrow> unat n < table_limit"
  by (simp add: word_less_nat_alt)

lemma entry_shape_updates [simp]:
  "entry_shape e \<Longrightarrow> entry_shape (e\<lparr>e_time := t\<rparr>)"
  "entry_shape e \<Longrightarrow> entry_shape (e\<lparr>e_size := z\<rparr>)"
  "entry_shape e \<Longrightarrow> entry_shape (e\<lparr>e_next := x\<rparr>)"
  "entry_shape e \<Longrightarrow> entry_shape (e\<lparr>e_parent := x\<rparr>)"
  "entry_shape e \<Longrightarrow> entry_shape (e\<lparr>e_ref := (e_ref e)[i := x]\<rparr>)"
  "entry_shape e \<Longrightarrow> entry_shape (e\<lparr>e_ref := replicate 120 x\<rparr>)"
  "entry_shape e \<Longrightarrow> i \<le> 120 \<Longrightarrow> entry_shape (e\<lparr>e_ref := clear_refs i (e_ref e)\<rparr>)"
  by (simp_all add: entry_shape_def clear_refs_def)

lemma new_entry_shape [simp]: "entry_shape (new_entry flags name parent)"
  by (simp add: entry_shape_def new_entry_def zero_entry_def length_strcpy_name)

lemma new_entry_matches:
  assumes "flags AND F_USED \<noteq> 0" "0 \<notin> set name" "length name \<le> 14"
  shows "entry_matches name parent (new_entry flags name parent)"
proof -
  have "0 \<in> set (e_name (new_entry flags name parent))"
    using assms(3) by (simp add: new_entry_def strcpy_s_ok zero_entry_def)
  then have "entry_name (new_entry flags name parent) = cstring (e_name (new_entry flags name parent))"
    by (rule entry_name_terminated)
  also have "\<dots> = name"
    using assms(2,3) by (simp add: new_entry_def cstring_strcpy_name zero_entry_def)
  finally show ?thesis using assms(1) by (simp add: entry_matches_def entry_used_def new_entry_def)
qed

subsection \<open>Walks along a chain of one entry\<close>

lemma set_time_chain_single:
  assumes "device_ok s disk" "n < ERROR_ANY" "e_next (entry_at (disk_of s disk) (unat n)) = 0"
  shows "set_time_chain ft disk n s =
    Some (Inr (), set_disk s disk
      (put_entry (disk_of s disk) (unat n) ((entry_at (disk_of s disk) (unat n))\<lparr>e_time := ft\<rparr>)))"
  using assms entry_at_shape [OF device_ok_sectors [OF assms(1)]]
  by (subst set_time_chain.simps) (simp add: bindE_def reads_def get_entry_n_ok write_entry_ok ret_def)

lemma set_entry_size_single:
  assumes "device_ok s disk" "n < ERROR_ANY" "e_next (entry_at (disk_of s disk) (unat n)) = 0"
  shows "set_entry_size disk n sz s =
    Some (Inr (), set_disk s disk
      (put_entry (disk_of s disk) (unat n) ((entry_at (disk_of s disk) (unat n))\<lparr>e_size := ucast sz\<rparr>)))"
  using assms entry_at_shape [OF device_ok_sectors [OF assms(1)]]
  by (subst set_entry_size.simps) (simp add: bindE_def reads_def get_entry_n_ok write_entry_ok ret_def Let_def)

lemma get_nref_first:
  "unat nref < 120 \<Longrightarrow> get_nref_entry_from_entry s disk e n nref = Inr (n, e)"
proof -
  assume "unat nref < 120"
  then have "nref div SFS_ENTRYREFS = 0" by (simp add: word_unat_eq_iff unat_div)
  then show ?thesis by (subst get_nref_entry_from_entry.simps) simp
qed

text \<open>Adding a reference to a directory that is one entry with room left.\<close>

lemma add_ref_single:
  assumes "mounted s disk" "p < ERROR_ANY"
    and d: "d = entry_at (disk_of s disk) (unat p)"
    and "entry_is d T_DIR" "\<not> entry_is d T_FILE" "e_next d = 0" "unat (e_size d) < 120"
  shows "add_ref_in_entry disk p ref s =
    Some (Inr (), set_disk s disk (put_entry (disk_of s disk) (unat p)
      (d\<lparr>e_ref := (e_ref d)[unat (e_size d) := ucast ref], e_size := e_size d + 1\<rparr>)))"
proof -
  let ?f = "disk_of s disk" and ?k = "ucast (e_size d) :: u16"
  have ok: "device_ok s disk" "sectors_ok ?f" using assms(1) by (simp_all add: mounted_device mounted_sectors)
  have k: "unat ?k = unat (e_size d)"
    using assms(7) by (simp add: unsigned_ucast_eq take_bit_nat_eq_self)
  have count: "get_entry_refcount d = ?k" using assms(4,5) by (simp add: get_entry_refcount_def)
  have nref: "get_nref_entry_from_entry s disk d p ?k = Inr (p, d)"
    using assms(7) k by (intro get_nref_first) simp
  have km: "unat (?k mod 120) = unat (e_size d)" using assms(7) k by (simp add: unat_mod)
  let ?d1 = "d\<lparr>e_ref := (e_ref d)[unat (e_size d) := ucast ref]\<rparr>"
  have shape: "entry_shape d" using ok d by (simp add: entry_at_shape)
  have lim: "unat p < table_limit" using assms(2) by (simp add: word_less_nat_alt)
  have sz: "(ucast (?k + 1) :: u32) = e_size d + 1"
    using assms(7) k by (simp add: word_unat_eq_iff unat_word_ariths)
  show ?thesis
    using assms shape ok lim
    by (simp add: add_ref_in_entry_def bindE_def catchE_def reads_def ret_def get_entry_n_ok d [symmetric]
        count nref km write_entry_ok set_entry_size_single entry_at_put table.get_put_same sz Let_def)
qed


subsection \<open>Creating a directory\<close>

text \<open>
  Where a path leads: to a place \<open>name\<close> in directory \<open>parent\<close> of \<open>disk\<close>.
\<close>

definition leads_to :: "fs_state \<Rightarrow> u8 list \<Rightarrow> u8 list \<Rightarrow> u16 \<Rightarrow> u16 \<Rightarrow> bool" where
  "leads_to s path name parent disk \<longleftrightarrow>
     (\<exists>off. path_parse_disk_parent_name s path = Inr (off, parent, disk) \<and>
            name = string_to_name (drop off path)) \<and>
     parent < ERROR_ANY \<and> disk \<noteq> UNKNOWN_VALUE"

text \<open>A directory in one table entry with room for another reference, its name finished with a 0.\<close>

definition open_dir :: "sfs_entry \<Rightarrow> bool" where
  "open_dir d \<longleftrightarrow> entry_is d T_DIR \<and> \<not> entry_is d T_FILE \<and> e_next d = 0 \<and>
     unat (e_size d) < 120 \<and> 0 \<in> set (e_name d)"

lemma entry_matches_same_name:
  assumes "0 \<in> set (e_name d)" "e_name d' = e_name d" "e_flags d' = e_flags d" "e_parent d' = e_parent d"
  shows "entry_matches name p d' \<longleftrightarrow> entry_matches name p d"
  using assms by (simp add: entry_matches_def entry_used_def entry_name_terminated)

lemma new_entry_terminated: "length name \<le> 14 \<Longrightarrow> 0 \<in> set (e_name (new_entry flags name parent))"
  by (simp add: new_entry_def strcpy_s_ok zero_entry_def)

definition add_child :: "sfs_entry \<Rightarrow> u16 \<Rightarrow> sfs_entry" where
  "add_child d n = d\<lparr>e_ref := (e_ref d)[unat (e_size d) := ucast n], e_size := e_size d + 1\<rparr>"

lemma name_ok:
  assumes "leads_to s path name parent disk"
  shows "0 \<notin> set name" "PATH_SEPARATOR \<notin> set name" "length name \<le> 14"
proof -
  obtain x where x: "name = map fix_char (take 14 x)"
    using assms by (auto simp: leads_to_def string_to_name_map)
  then show "length name \<le> 14" by simp
  have "c \<noteq> 0 \<and> c \<noteq> PATH_SEPARATOR" if c: "c \<in> set name" for c
  proof -
    obtain y where "c = fix_char y" using c x by auto
    then show ?thesis using valid_char_nonzero [OF fix_char_valid] by simp
  qed
  then show "0 \<notin> set name" "PATH_SEPARATOR \<notin> set name" by blast+
qed

lemma find_free_entry_InrD:
  assumes "mounted s disk" "find_free_entry s disk = Inr n"
  shows "unat n < entries_of (disk_of s disk) \<and> \<not> entry_used (entry_at (disk_of s disk) (unat n))"
proof -
  obtain k where k: "table.first (\<lambda>e. \<not> entry_used e) (disk_of s disk) (entries_of (disk_of s disk)) = Some k"
    "n = of_nat k"
    using assms by (auto simp: find_free_entry_ok split: option.splits)
  then have "k < entries_of (disk_of s disk)" "\<not> entry_used (entry_at (disk_of s disk) k)"
    by (simp_all add: table.first_Some_iff)
  moreover have "unat (of_nat k :: u16) = k"
    using calculation(1) assms(1) by (intro unat_of_nat_u16) (simp add: mounted_def)
  ultimately show ?thesis using k(2) by simp
qed

lemma check_absent_ok:
  assumes "leads_to s path name parent disk" "mounted s disk"
  shows "check_absent name parent disk s =
    Some (if \<exists>m < entries_of (disk_of s disk). entry_matches name parent (entry_at (disk_of s disk) m)
          then Inl ERROR_EXISTS else Inr (), s)"
proof -
  have "fs_get_entry s name parent disk = lookup_entry s name parent disk"
    using name_ok [OF assms(1)] assms(1)
    by (simp add: fs_get_entry_token get_entry_flat_known leads_to_def del: UNKNOWN_VALUE_def ERROR_ANY_def)
  then show ?thesis
    using assms(2) table.first_None_iff [of "entry_matches name parent" "disk_of s disk"]
    by (auto simp: check_absent_def reads_def lookup_entry_ok split: option.splits)
      (metis option.distinct(1))+
qed

lemma entry_is_used: "entry_is e 1 \<Longrightarrow> entry_used e"
proof -
  assume a: "entry_is e 1"
  have "(e_flags e AND 3) AND 1 = e_flags e AND 1" by (simp add: and.assoc)
  then show ?thesis using a by (auto simp: entry_is_def entry_used_def)
qed

lemma create_directory_ok:
  assumes path: "leads_to s path name p disk" and m: "mounted s disk"
  defines "f \<equiv> disk_of s disk"
  assumes absent: "\<forall>k < entries_of f. \<not> entry_matches name p (entry_at f k)"
    and free: "find_free_entry s disk = Inr n"
    and dir: "unat p < entries_of f" "open_dir (entry_at f (unat p))"
  defines "e \<equiv> (new_entry T_DIR name p)\<lparr>e_time := fs_systime_to_fstime (fst (current_time s))\<rparr>"
  shows "fs_create_directory path s =
    Some (Inr n, (set_disk s disk (put_entry (put_entry f (unat n) e) (unat p)
                    (add_child (entry_at f (unat p)) n)))\<lparr>clock := clock s + 1\<rparr>)"
proof -
  obtain off where off: "path_parse_disk_parent_name s path = Inr (off, p, disk)"
      "name = string_to_name (drop off path)"
    using path by (auto simp: leads_to_def)
  have ok: "device_ok s disk" "sectors_ok f" using m by (simp_all add: f_def mounted_device mounted_sectors)
  have n: "unat n < entries_of f" "\<not> entry_used (entry_at f (unat n))"
    using find_free_entry_InrD [OF m free] by (simp_all add: f_def)
  have lim: "entries_of f \<le> table_limit" using m by (simp add: mounted_def f_def)
  have np: "n \<noteq> p" using n(2) dir(2) by (auto simp: open_dir_def dest: entry_is_used)
  then have unp: "unat n \<noteq> unat p" by (simp add: word_unat_eq_iff)
  have nlt: "n < ERROR_ANY" "unat n < table_limit" and plt: "p < ERROR_ANY" "unat p < table_limit"
    using n(1) dir(1) lim by (simp_all add: word_less_nat_alt)
  have check: "check_absent name p disk s = Some (Inr (), s)"
    using check_absent_ok [OF path m] absent by (auto simp: f_def)
  let ?f1 = "put_entry f (unat n) (new_entry T_DIR name p)" and ?f2 = "put_entry f (unat n) e"
  let ?s1 = "set_disk s disk ?f1" and ?t = "fst (current_time s)"
  have es: "entry_shape e" by (simp add: e_def)
  have time: "set_entry_time_to_current disk n ?s1 =
      Some (Inr (), (set_disk s disk ?f2)\<lparr>clock := clock s + 1\<rparr>)"
  proof -
    have "current_time ?s1 = (?t, ?s1\<lparr>clock := clock s + 1\<rparr>)"
      by (simp add: current_time_def split: prod.splits)
    moreover have "e_next (entry_at ?f1 (unat n)) = 0" "entry_at ?f1 (unat n) = new_entry T_DIR name p"
      using ok nlt by (simp_all add: entry_at_put) (simp add: new_entry_def zero_entry_def)
    ultimately show ?thesis
      using ok nlt by (simp add: set_entry_time_to_current_def set_time_chain_single e_def)
  qed
  let ?s2 = "(set_disk s disk ?f2)\<lparr>clock := clock s + 1\<rparr>"
  have d2: "entry_at ?f2 (unat p) = entry_at f (unat p)"
    using ok nlt plt unp es by (simp add: entry_at_put)
  have "mounted ?s2 disk"
    using mounted_put_entry [OF m es nlt(2)] by (simp add: f_def)
  then have add: "add_ref_in_entry disk p n ?s2 =
      Some (Inr (), (set_disk s disk (put_entry ?f2 (unat p)
        (add_child (entry_at f (unat p)) n)))\<lparr>clock := clock s + 1\<rparr>)"
    using add_ref_single [of ?s2 disk p "entry_at f (unat p)" n] plt(1) dir(2)
    by (simp add: d2 open_dir_def add_child_def)
  have ne: "(ucast n :: u32) \<noteq> ucast p" using unp by (auto simp: word_unat_eq_iff)
  have wr: "write_entry (new_entry T_DIR name p) disk n s = Some (Inr (), ?s1)"
    using ok nlt by (simp add: write_entry_ok f_def)
  show ?thesis
    using off free check wr time add ne
    by (simp add: fs_create_directory_def bindE_def reads_def ret_def f_def Let_def)
qed

text \<open>
  An entry with a name, put in a free place and linked in its parent, is what a lookup of the name finds.
\<close>

lemma linked_found:
  assumes m: "mounted s disk" "mounted s' disk"
  defines "f \<equiv> disk_of s disk"
  assumes f': "disk_of s' disk = put_entry (put_entry f (unat n) e) (unat p) (add_child (entry_at f (unat p)) n)"
    and absent: "\<forall>k < entries_of f. \<not> entry_matches name p (entry_at f k)"
    and n: "unat n < entries_of f" "unat n \<noteq> unat p" and dir: "unat p < entries_of f" "open_dir (entry_at f (unat p))"
    and e: "entry_shape e" "entry_matches name p e"
  shows "lookup_entry s' name p disk = Inr (n, e)" "entry_at (disk_of s' disk) (unat n) = e"
    "entry_at (disk_of s' disk) (unat p) = add_child (entry_at f (unat p)) n"
    "\<And>j. j < entries_of f \<Longrightarrow> j \<noteq> unat n \<Longrightarrow> j \<noteq> unat p \<Longrightarrow> entry_at (disk_of s' disk) j = entry_at f j"
proof -
  let ?g = "put_entry f (unat n) e" and ?c = "add_child (entry_at f (unat p)) n"
  let ?h = "put_entry ?g (unat p) ?c"
  have ok: "sectors_ok f" and lim: "entries_of f \<le> table_limit"
    using m by (simp_all add: f_def mounted_sectors mounted_def device_ok_sectors)
  have lt: "unat n < table_limit" "unat p < table_limit" using n dir lim by simp_all
  have cs: "entry_shape ?c" using ok by (simp add: add_child_def entry_at_shape)
  show at_n: "entry_at (disk_of s' disk) (unat n) = e" "entry_at (disk_of s' disk) (unat p) = ?c"
    using f' ok e cs lt n(2) by (simp_all add: entry_at_put)
  show "entry_at (disk_of s' disk) j = entry_at f j" if "j < entries_of f" "j \<noteq> unat n" "j \<noteq> unat p" for j
    using f' ok e cs lt that lim by (simp add: entry_at_put)
  have "table.first (entry_matches name p) ?g (entries_of f) = Some (unat n)"
    using absent ok e n lim by (intro table.first_put_new) (simp_all add: table.first_None_iff)
  moreover have "table.first (entry_matches name p) ?h (entries_of f) =
      table.first (entry_matches name p) ?g (entries_of f)"
  proof (rule table.first_put_keeps)
    have "\<not> entry_matches name p (entry_at f (unat p))" using absent dir(1) by simp
    moreover have "entry_matches name p ?c \<longleftrightarrow> entry_matches name p (entry_at f (unat p))"
      using dir(2) by (intro entry_matches_same_name) (simp_all add: open_dir_def add_child_def)
    ultimately show "\<not> entry_matches name p ?c" "\<not> entry_matches name p (entry_at ?g (unat p))"
      using ok e lt n(2) by (simp_all add: entry_at_put)
  qed (use ok e cs dir lim in simp_all)
  ultimately have "table.first (entry_matches name p) ?h (entries_of ?h) = Some (unat n)" using lt by simp
  then show "lookup_entry s' name p disk = Inr (n, e)" using at_n m(2) f' by (simp add: lookup_entry_ok)
qed

text \<open>
  C23: Creating a directory at an unused place of a directory that has room takes the first free entry
  \<open>n\<close>, returns it, and leaves the disk with exactly two changed blocks: entry \<open>n\<close> is an empty directory
  with the name, the parent and the current time, and the parent has the reference \<open>n\<close> appended and its
  size increased by one. A lookup of the name in the parent then finds \<open>n\<close>.
\<close>

theorem create_directory_creates:
  assumes path: "leads_to s path name p disk" and m: "mounted s disk"
  defines "f \<equiv> disk_of s disk"
  assumes absent: "\<forall>k < entries_of f. \<not> entry_matches name p (entry_at f k)"
    and free: "find_free_entry s disk = Inr n"
    and dir: "unat p < entries_of f" "open_dir (entry_at f (unat p))"
  defines "e \<equiv> (new_entry T_DIR name p)\<lparr>e_time := fs_systime_to_fstime (fst (current_time s))\<rparr>"
  shows "\<exists>s'. fs_create_directory path s = Some (Inr n, s') \<and>
    entry_at (disk_of s' disk) (unat n) = e \<and>
    entry_at (disk_of s' disk) (unat p) = add_child (entry_at f (unat p)) n \<and>
    (\<forall>x. x \<noteq> n + 2 \<and> x \<noteq> p + 2 \<longrightarrow> disk_of s' disk x = f x) \<and>
    lookup_entry s' name p disk = Inr (n, e)"
proof -
  let ?h = "put_entry (put_entry f (unat n) e) (unat p) (add_child (entry_at f (unat p)) n)"
  let ?s = "(set_disk s disk ?h)\<lparr>clock := clock s + 1\<rparr>"
  have lim: "entries_of f \<le> table_limit" using m by (simp add: f_def mounted_def)
  have n: "unat n < entries_of f" "\<not> entry_used (entry_at f (unat n))"
    using find_free_entry_InrD [OF m free] by (simp_all add: f_def)
  have unp: "unat n \<noteq> unat p" using n(2) dir(2) by (auto simp: open_dir_def dest: entry_is_used)
  have es: "entry_shape e" "entry_shape (add_child (entry_at f (unat p)) n)"
    using m by (simp_all add: e_def add_child_def entry_at_shape f_def mounted_sectors)
  have run: "fs_create_directory path s = Some (Inr n, ?s)"
    unfolding e_def f_def using assms by (intro create_directory_ok) (simp_all add: f_def)
  have "entry_matches name p e \<longleftrightarrow> entry_matches name p (new_entry T_DIR name p)"
    using name_ok(3) [OF path] new_entry_terminated by (intro entry_matches_same_name) (simp_all add: e_def)
  then have match_e: "entry_matches name p e"
    using new_entry_matches [of T_DIR name p] name_ok [OF path] by simp
  have "mounted (set_disk s disk ?h) disk"
    using mounted_put_entry [OF mounted_put_entry [OF m es(1), of "unat n"] es(2), of "unat p"] n dir lim by (simp add: f_def)
  then have m': "mounted ?s disk" by simp
  have "disk_of ?s disk = ?h" by simp
  note found = linked_found [OF m m', folded f_def, OF this absent n(1) unp dir es(1) match_e]
  moreover have "\<forall>x. x \<noteq> n + 2 \<and> x \<noteq> p + 2 \<longrightarrow> ?h x = f x"
    by (simp add: put_entry_def add.commute)
  ultimately show ?thesis using run by (intro exI [of _ ?s]) simp
qed


lemma demo_leads_to: "leads_to demo_fs (bytes ''d'') (bytes ''d'') 0 0"
proof -
  have "path_parse_disk_parent_name demo_fs (bytes ''d'') = Inr (0, 0, 0)"
    using parse_path_join [of "[bytes ''d'']" 0 0 True demo_fs "[]" 0]
    by (simp add: path_parse_disk_parent_name_def component_def demo_string_is_disk demo_fs_def)
      (simp add: demo_state_def)
  then show ?thesis
    by (simp add: leads_to_def string_to_name_map fix_char_def) (simp add: valid_char_def)
qed

lemma demo_free: "find_free_entry demo_fs 0 = Inr 2"
  using table.first_Some_iff [of "\<lambda>e. \<not> entry_used e" "image_of demo_sb demo_entries" 4 2]
  by (simp add: find_free_entry_ok mk_entry_def entry_used_def zero_entry_def)

lemma demo_root: "open_dir (demo_entries ! 0)"
  by (simp add: open_dir_def mk_entry_def zero_entry_def entry_is_def)

lemma demo_names:
  "entry_name (demo_entries ! 0) = bytes ''.''" "entry_name (demo_entries ! 1) = bytes ''a''"
  by (simp_all add: entry_name_terminated mk_entry_def zero_entry_def cstring_def)

lemma demo_absent: "\<forall>k < 4. \<not> entry_matches (bytes ''d'') 0 (entry_at (image_of demo_sb demo_entries) k)"
  using demo_names by (simp add: entry_matches_def) (simp add: entry_used_def zero_entry_def)

theorem create_directory_creates_witness:
  "\<exists>s'. fs_create_directory (bytes ''d'') demo_fs = Some (Inr 2, s') \<and>
     (\<exists>e. lookup_entry s' (bytes ''d'') 0 0 = Inr (2, e))"
  using create_directory_creates [OF demo_leads_to demo_mounted, of 2] demo_free demo_root demo_absent
  by (simp del: bytes_simps demo_nth) blast

text \<open>
  C29: Creating a directory never changes anything when the place is taken or the table is full: the
  result is \<open>ERROR_EXISTS\<close> exactly when an entry with the name and parent is in use, and
  \<open>ERROR_NO_SPACE\<close> when there is none but every entry is in use.
\<close>

theorem create_directory_refuses:
  assumes "leads_to s path name p disk" "mounted s disk"
  defines "f \<equiv> disk_of s disk"
  assumes "(\<exists>k < entries_of f. entry_matches name p (entry_at f k)) \<or>
    (\<forall>k < entries_of f. entry_used (entry_at f k))"
  shows "fs_create_directory path s =
    Some (Inl (if \<exists>k < entries_of f. entry_matches name p (entry_at f k)
               then ERROR_EXISTS else ERROR_NO_SPACE), s)"
proof -
  obtain off where off: "path_parse_disk_parent_name s path = Inr (off, p, disk)"
      "name = string_to_name (drop off path)"
    using assms(1) by (auto simp: leads_to_def)
  note check = check_absent_ok [OF assms(1,2)]
  show ?thesis
  proof (cases "\<exists>k < entries_of f. entry_matches name p (entry_at f k)")
    case True
    then show ?thesis using off check
      by (simp add: fs_create_directory_def bindE_def reads_def f_def Let_def)
  next
    case False
    then have "\<forall>k < entries_of f. entry_used (entry_at f k)" using assms(4) by blast
    then have "table.first (\<lambda>e. \<not> entry_used e) f (entries_of f) = None"
      by (simp add: table.first_None_iff)
    then have "find_free_entry s disk = Inl ERROR_NO_SPACE"
      using find_free_entry_ok [OF assms(2)] by (simp add: f_def)
    then show ?thesis using off check False
      by (simp add: fs_create_directory_def bindE_def reads_def f_def Let_def)
  qed
qed

lemma demo_leads_to_a: "leads_to demo_fs (bytes ''a'') (bytes ''a'') 0 0"
proof -
  have "path_parse_disk_parent_name demo_fs (bytes ''a'') = Inr (0, 0, 0)"
    using parse_path_join [of "[bytes ''a'']" 0 0 True demo_fs "[]" 0]
    by (simp add: path_parse_disk_parent_name_def component_def demo_string_is_disk demo_fs_def)
      (simp add: demo_state_def)
  then show ?thesis
    by (simp add: leads_to_def string_to_name_map fix_char_def) (simp add: valid_char_def)
qed

lemma demo_a_matches: "entry_matches (bytes ''a'') 0 (entry_at (image_of demo_sb demo_entries) 1)"
  using demo_names(2) by (simp add: entry_matches_def) (simp add: entry_used_def mk_entry_def zero_entry_def)

theorem create_directory_refuses_witness:
  "fs_create_directory (bytes ''a'') demo_fs = Some (Inl ERROR_EXISTS, demo_fs)"
proof -
  have ex: "\<exists>k < 4. entry_matches (bytes ''a'') 0 (entry_at (image_of demo_sb demo_entries) k)"
    using demo_a_matches by (intro exI [of _ 1]) simp
  then show ?thesis
    using create_directory_refuses [OF demo_leads_to_a demo_mounted]
    by (simp del: bytes_simps demo_nth demo_entry_at)
qed


subsection \<open>The number of references\<close>

lemma needed_entries_one: "0 < unat k \<Longrightarrow> unat k \<le> 120 \<Longrightarrow> needed_entries k = 1"
proof -
  assume k: "0 < unat k" "unat k \<le> 120"
  show ?thesis
  proof (cases "unat k = 120")
    case True
    then have "k = 120" by (simp add: word_unat_eq_iff)
    then show ?thesis by (simp add: needed_entries_def)
  next
    case False
    then have q: "unat (k div 120) = 0" "unat (k mod 120) = unat k" using k by (simp_all add: unat_div unat_mod)
    then have "k div 120 = 0" by (simp only: unat_eq_0)
    moreover have "k mod 120 \<noteq> 0" using q(2) k(1) by (metis unsigned_0 less_irrefl)
    ultimately show ?thesis by (simp only: needed_entries_def SFS_ENTRYREFS_def Let_def) simp
  qed
qed

lemma clear_refs_zero [simp]: "i \<le> 120 \<Longrightarrow> clear_refs i (replicate 120 0) = replicate 120 0"
  by (simp add: clear_refs_def replicate_add [symmetric] min_def)

text \<open>
  Setting the number of references of an unchained entry to any number from 1 to 120, which fit in
  that entry, still chains a second entry to it: the loop advances one entry per needed entry instead
  of one less. The new entry is the first free one, a copy of the first with no references, and with
  no free entry left the operation fails with \<open>ERROR_NO_SPACE\<close>.
\<close>

lemma set_entry_refcount_chains:
  fixes n :: u16
  assumes m: "mounted s disk" and k: "0 < unat k" "unat k \<le> 120"
  defines "f \<equiv> disk_of s disk"
  defines "e \<equiv> entry_at f (unat n)"
  assumes n: "unat n < entries_of f" "entry_used e" "e_next e = 0"
  shows "set_entry_refcount disk n k s =
    (case find_free_entry s disk of
       Inl c \<Rightarrow> Some (Inl c, s)
     | Inr j \<Rightarrow> Some (Inr (), set_disk s disk
         (put_entry (put_entry f (unat n) (e\<lparr>e_next := ucast j\<rparr>)) (unat j)
           (e\<lparr>e_parent := ucast n, e_next := 0, e_size := 0, e_ref := replicate 120 0\<rparr>))))"
proof -
  have ok: "device_ok s disk" "sectors_ok f" using m by (simp_all add: f_def mounted_device mounted_sectors)
  have lim: "entries_of f \<le> table_limit" using m by (simp add: mounted_def f_def)
  have nlt: "n < ERROR_ANY" using n(1) lim by (simp add: word_less_nat_alt)
  have get: "get_entry_n s disk n = Inr e" using ok nlt by (simp add: get_entry_n_ok e_def f_def)
  have es: "entry_shape e" using ok by (simp add: e_def entry_at_shape)
  have one: "unat (needed_entries k) = Suc 0" using needed_entries_one [OF k] by simp
  show ?thesis
  proof (cases "find_free_entry s disk")
    case (Inl c)
    then show ?thesis
      by (simp add: set_entry_refcount_def bindE_def reads_def get one n(3))
  next
    case (Inr j)
    then have j: "unat j < entries_of f" using find_free_entry_InrD [OF m] by (simp add: f_def)
    then have jlt: "j < ERROR_ANY" using lim by (simp add: word_less_nat_alt)
    have km: "unat (k mod SFS_ENTRYREFS) \<le> 120" by (simp add: unat_mod)
    have [simp]: "entry_shape (e\<lparr>e_parent := x, e_next := 0, e_size := 0, e_ref := replicate 120 0\<rparr>)" for x
      using es by (simp add: entry_shape_def)
    show ?thesis
      using Inr ok nlt jlt es km f_def
      by (simp add: set_entry_refcount_def bindE_def reads_def ret_def get one n(3) write_entry_ok
          write_entry_set Let_def)
  qed
qed

text \<open>
  The chained entry for reference \<open>nref\<close> should be \<open>nref div 120\<close> links away. The code divides the
  index by 120 again at every link: below 120 it stays at the entry, and for every index from 120 to
  14399 it follows exactly one link, which is the right entry only below 240.
\<close>

lemma get_nref_follows_one_link:
  assumes "device_ok s disk" "e_next e \<noteq> 0" "ucast (e_next e) < ERROR_ANY" "unat nref < 14400"
  shows "get_nref_entry_from_entry s disk e n nref =
    Inr (if unat nref < 120 then (n, e)
         else (ucast (e_next e), entry_at (disk_of s disk) (unat (ucast (e_next e) :: u16))))"
proof (cases "unat nref < 120")
  case True
  then show ?thesis by (simp add: get_nref_first)
next
  case False
  let ?q = "nref div SFS_ENTRYREFS"
  have q: "unat ?q = unat nref div 120" by (simp add: unat_div)
  then have "0 < unat ?q" "unat ?q < 120" using False assms(4) by simp_all
  then have "?q > 0" "get_nref_entry_from_entry s disk e' n' ?q = Inr (n', e')" for e' n'
    by (simp_all only: word_less_nat_alt unsigned_0 get_nref_first)
  then show ?thesis
    using assms False
    by (subst get_nref_entry_from_entry.simps) (simp add: get_entry_n_ok Let_def)
qed

end
