(* ===== verification/Fs_Safety.thy ===== *)
theory Fs_Safety
  imports Fs_Directory
begin

section \<open>What directory operations never touch\<close>

text \<open>
  A small calculus for operations that change a disk only through entries of its table:
  \<open>runs disk m Q\<close> says that a run of \<open>m\<close> on a mounted disk leaves the disk mounted, its boot block and
  superblock, every other disk and the tables of the kernel as they were, and that a result
  satisfies \<open>Q\<close>. It composes along \<open>bindE\<close>, and for the walks along a chain, which need not return, it
  follows by fixed point induction. Nothing is assumed about the contents of the table.
\<close>

definition preserved :: "u16 \<Rightarrow> fs_state \<Rightarrow> fs_state \<Rightarrow> bool" where
  "preserved disk s s' \<longleftrightarrow>
     mounted s' disk \<and> disk_of s' disk 0 = disk_of s disk 0 \<and> disk_of s' disk 1 = disk_of s disk 1 \<and>
     (\<forall>d. d \<noteq> ucast disk \<longrightarrow> dsk s' d = dsk s d) \<and>
     disk_info s' = disk_info s \<and> system_disk s' = system_disk s \<and> hw s' = hw s"

definition runs :: "u16 \<Rightarrow> 'a fsm \<Rightarrow> ('a \<Rightarrow> bool) \<Rightarrow> bool" where
  "runs disk m Q \<longleftrightarrow>
     (\<forall>s r s'. mounted s disk \<longrightarrow> m s = Some (r, s') \<longrightarrow>
        preserved disk s s' \<and> (\<forall>x. r = Inr x \<longrightarrow> Q x))"

named_theorems runs_intros

lemma runsI:
  "(\<And>s r s'. mounted s disk \<Longrightarrow> m s = Some (r, s') \<Longrightarrow> preserved disk s s' \<and> (\<forall>x. r = Inr x \<longrightarrow> Q x)) \<Longrightarrow>
   runs disk m Q"
  by (simp add: runs_def)

lemma runsD:
  "runs disk m Q \<Longrightarrow> mounted s disk \<Longrightarrow> m s = Some (r, s') \<Longrightarrow> preserved disk s s'"
  by (simp add: runs_def)

lemma preserved_refl: "mounted s disk \<Longrightarrow> preserved disk s s"
  by (simp add: preserved_def)

lemma preserved_trans: "preserved disk s s' \<Longrightarrow> preserved disk s' s'' \<Longrightarrow> preserved disk s s''"
  by (simp add: preserved_def)

lemma preserved_mounted: "preserved disk s s' \<Longrightarrow> mounted s' disk"
  by (simp add: preserved_def)

lemma runs_ret [runs_intros]: "Q x \<Longrightarrow> runs disk (ret x) Q"
  by (simp add: runs_def ret_def preserved_refl)

lemma runs_fail [runs_intros]: "runs disk (fail c) Q"
  by (auto simp: runs_def fail_def preserved_refl)

lemma runs_reads: "(\<And>s x. mounted s disk \<Longrightarrow> f s = Inr x \<Longrightarrow> Q x) \<Longrightarrow> runs disk (reads f) Q"
  by (auto simp: runs_def reads_def preserved_refl)

lemma runs_bindE:
  assumes "runs disk m Q" "\<And>x. Q x \<Longrightarrow> runs disk (k x) R"
  shows "runs disk (bindE m k) R"
proof (rule runsI)
  fix s r s'
  assume s: "mounted s disk" "bindE m k s = Some (r, s')"
  obtain r1 s1 where m: "m s = Some (r1, s1)" using s(2) by (auto simp: bindE_def bind_eq_Some_conv)
  have p: "preserved disk s s1" "\<forall>x. r1 = Inr x \<longrightarrow> Q x" using assms(1) s(1) m by (auto simp: runs_def)
  show "preserved disk s s' \<and> (\<forall>x. r = Inr x \<longrightarrow> R x)"
  proof (cases r1)
    case (Inl c)
    then show ?thesis using s(2) m p(1) by (auto simp: bindE_def)
  next
    case (Inr x)
    then have "k x s1 = Some (r, s')" "Q x" using s(2) m p(2) by (simp_all add: bindE_def)
    then have "preserved disk s1 s' \<and> (\<forall>x. r = Inr x \<longrightarrow> R x)"
      using assms(2) [of x] preserved_mounted [OF p(1)] by (simp add: runs_def)
    then show ?thesis using p(1) preserved_trans by blast
  qed
qed

lemma runs_catchE:
  assumes "runs disk m Q" "\<And>c. runs disk (k (Inl c)) R" "\<And>x. Q x \<Longrightarrow> runs disk (k (Inr x)) R"
  shows "runs disk (catchE m k) R"
proof (rule runsI)
  fix s r s'
  assume s: "mounted s disk" "catchE m k s = Some (r, s')"
  obtain r1 s1 where m: "m s = Some (r1, s1)" using s(2) by (auto simp: catchE_def bind_eq_Some_conv)
  then have p: "preserved disk s s1" "\<forall>x. r1 = Inr x \<longrightarrow> Q x" and k: "k r1 s1 = Some (r, s')"
    using assms(1) s by (auto simp: runs_def catchE_def)
  have "runs disk (k r1) R" using assms(2,3) p(2) by (cases r1) simp_all
  then have "preserved disk s1 s' \<and> (\<forall>x. r = Inr x \<longrightarrow> R x)"
    using k preserved_mounted [OF p(1)] by (simp add: runs_def)
  then show "preserved disk s s' \<and> (\<forall>x. r = Inr x \<longrightarrow> R x)" using p(1) preserved_trans by blast
qed

lemma runs_if [runs_intros]:
  "(b \<Longrightarrow> runs disk m Q) \<Longrightarrow> (\<not> b \<Longrightarrow> runs disk m' Q) \<Longrightarrow> runs disk (if b then m else m') Q"
  by simp

lemma runs_if_state [runs_intros]:
  "(b \<Longrightarrow> runs disk m Q) \<Longrightarrow> (\<not> b \<Longrightarrow> runs disk m' Q) \<Longrightarrow>
   runs disk (\<lambda>s. if b then m s else m' s) Q"
  by (cases b) simp_all

lemma runs_case_prod:
  "(\<And>a b. p = (a, b) \<Longrightarrow> runs disk (g a b) Q) \<Longrightarrow> runs disk (\<lambda>s. case p of (a, b) \<Rightarrow> g a b s) Q"
  by (cases p) simp

lemma runs_get [runs_intros]:
  assumes "\<And>e. entry_shape e \<Longrightarrow> n < ERROR_ANY \<Longrightarrow> runs disk (k e) Q"
  shows "runs disk (bindE (reads (\<lambda>s. get_entry_n s disk n)) k) Q"
proof (rule runs_bindE [of _ _ "\<lambda>e. entry_shape e \<and> n < ERROR_ANY"])
  show "runs disk (reads (\<lambda>s. get_entry_n s disk n)) (\<lambda>e. entry_shape e \<and> n < ERROR_ANY)"
  proof (rule runs_reads)
    fix s e assume s: "mounted s disk" "get_entry_n s disk n = Inr e"
    then have n: "n < ERROR_ANY" by (rule_tac get_entry_n_index)
    then have "e = entry_at (disk_of s disk) (unat n)"
      using get_entry_n_ok [OF mounted_device [OF s(1)] n] s(2) by simp
    then show "entry_shape e \<and> n < ERROR_ANY" using n entry_at_shape [OF mounted_sectors [OF s(1)]] by simp
  qed
qed (use assms in blast)

lemma block_of_entry: "n < ERROR_ANY \<Longrightarrow> (0 :: u16) \<noteq> of_nat (2 + unat n) \<and> (1 :: u16) \<noteq> of_nat (2 + unat n)"
proof -
  assume "n < ERROR_ANY"
  then have u: "unat (of_nat (2 + unat n) :: u16) = 2 + unat n" by (rule entry_place(2))
  have "unat (0 :: u16) = 0" "unat (1 :: u16) = 1" by simp_all
  then show ?thesis using u by (metis add_2_eq_Suc nat.distinct(1) nat.inject One_nat_def)
qed

lemma runs_write [runs_intros]:
  assumes "entry_shape e" "n < ERROR_ANY"
  shows "runs disk (write_entry e disk n) (\<lambda>_. True)"
proof (rule runsI)
  fix s r s'
  assume s: "mounted s disk" "write_entry e disk n s = Some (r, s')"
  then have s': "s' = set_disk s disk (put_entry (disk_of s disk) (unat n) e)"
    using assms by (simp add: write_entry_ok mounted_device)
  have "unat n < table_limit" using assms(2) by (simp add: word_less_nat_alt)
  then have "mounted s' disk" using s' mounted_put_entry [OF s(1) assms(1)] by simp
  then show "preserved disk s s' \<and> (\<forall>x. r = Inr x \<longrightarrow> True)"
    using s' block_of_entry [OF assms(2)] by (simp add: preserved_def) (simp add: set_disk_def put_entry_def)
qed

lemma runs_write_bind [runs_intros]:
  assumes "entry_shape e" "n < ERROR_ANY" "runs disk (k ()) Q"
  shows "runs disk (bindE (write_entry e disk n) k) Q"
  by (rule runs_bindE [OF runs_write]) (use assms in auto)

lemma runs_free [runs_intros]:
  assumes "\<And>n. n < ERROR_ANY \<Longrightarrow> runs disk (k n) Q"
  shows "runs disk (bindE (reads (\<lambda>s. find_free_entry s disk)) k) Q"
proof (rule runs_bindE [OF runs_reads])
  fix s n assume s: "mounted s disk" "find_free_entry s disk = Inr n"
  then show "n < ERROR_ANY"
    using find_free_entry_InrD [OF s] by (simp add: mounted_def word_less_nat_alt)
qed (rule assms)

lemma runs_weaken: "runs disk m Q \<Longrightarrow> (\<And>x. Q x \<Longrightarrow> R x) \<Longrightarrow> runs disk m R"
  by (auto simp: runs_def)

subsection \<open>The operations on chains\<close>

text \<open>The same statement about a single run, the form the fixed point induction works on.\<close>

definition good :: "u16 \<Rightarrow> ('a \<Rightarrow> bool) \<Rightarrow> fs_state \<Rightarrow> (u16 + 'a) \<times> fs_state \<Rightarrow> bool" where
  "good disk Q s y \<longleftrightarrow>
     (mounted s disk \<longrightarrow> preserved disk s (snd y) \<and> (\<forall>x. fst y = Inr x \<longrightarrow> Q x))"

lemma runs_good: "runs disk m Q \<longleftrightarrow> (\<forall>s y. m s = Some y \<longrightarrow> good disk Q s y)"
  by (auto simp: runs_def good_def)

lemma runs_set_time_chain [runs_intros]: "runs disk (set_time_chain ft disk n) (\<lambda>_. True)"
  unfolding runs_good
proof (intro allI impI)
  fix s y assume "set_time_chain ft disk n s = Some y"
  from this show "good disk (\<lambda>_. True) s y"
  proof (rule set_time_chain.raw_induct [rotated, where P = "\<lambda>ft disk n s y. good disk (\<lambda>_. True) s y"], goal_cases)
    case (1 f ft disk n s y)
    have IH: "runs disk (f ft disk m) (\<lambda>_. True)" for m
      unfolding runs_good using 1(1) by blast
    have "runs disk (bindE (reads (\<lambda>s. get_entry_n s disk n)) (\<lambda>e s.
       bindE (write_entry (e\<lparr>e_time := ft\<rparr>) disk n) (\<lambda>_ s.
         let nx = ucast (e_next e)
         in if nx \<noteq> 0 then f ft disk nx s else ret () s) s)) (\<lambda>_. True)"
      unfolding Let_def by (intro runs_intros IH) simp_all
    then show ?case using 1(2) unfolding runs_good by blast
  qed
qed

lemma runs_set_entry_size [runs_intros]: "runs disk (set_entry_size disk n sz) (\<lambda>_. True)"
  unfolding runs_good
proof (intro allI impI)
  fix s y assume "set_entry_size disk n sz s = Some y"
  from this show "good disk (\<lambda>_. True) s y"
  proof (rule set_entry_size.raw_induct [rotated, where P = "\<lambda>disk n sz s y. good disk (\<lambda>_. True) s y"], goal_cases)
    case (1 f disk n sz s y)
    have IH: "runs disk (f disk m k) (\<lambda>_. True)" for m k
      unfolding runs_good using 1(1) by blast
    show ?case
      using 1(2) unfolding Let_def
      by (rule runs_good [THEN iffD1, rule_format, rotated]) (intro runs_intros IH; simp)
  qed
qed

lemma runs_delete_chain [runs_intros]: "runs disk (delete_chain disk n) (\<lambda>_. True)"
  unfolding runs_good
proof (intro allI impI)
  fix s y assume "delete_chain disk n s = Some y"
  from this show "good disk (\<lambda>_. True) s y"
  proof (rule delete_chain.raw_induct [rotated, where P = "\<lambda>disk n s y. good disk (\<lambda>_. True) s y"], goal_cases)
    case (1 f disk n s y)
    have IH: "runs disk (f disk m) (\<lambda>_. True)" for m
      unfolding runs_good using 1(1) by blast
    show ?case
      using 1(2) unfolding Let_def
      by (rule runs_good [THEN iffD1, rule_format, rotated]) (intro runs_intros IH; simp)
  qed
qed

text \<open>A result that is an entry with its index, both fit to be written.\<close>

definition slot :: "u16 \<times> sfs_entry \<Rightarrow> bool" where
  "slot x \<longleftrightarrow> fst x < ERROR_ANY \<and> entry_shape (snd x)"

lemma runs_extend_chain:
  "n < ERROR_ANY \<Longrightarrow> entry_shape e \<Longrightarrow> runs disk (extend_chain disk k n e) slot"
proof (induction k arbitrary: n e)
  case 0
  then have "slot (n, e)" by (simp add: slot_def)
  then show ?case unfolding extend_chain.simps by (rule runs_ret)
next
  case (Suc k)
  show ?case unfolding extend_chain.simps Let_def
    by (intro runs_intros Suc.IH) (use Suc.prems in \<open>simp_all add: entry_shape_def\<close>)
qed

lemma runs_set_entry_refcount [runs_intros]:
  "runs disk (set_entry_refcount disk n k) (\<lambda>_. True)"
  unfolding set_entry_refcount_def Let_def
proof (intro runs_get)
  fix e0 assume e0: "entry_shape e0" "n < ERROR_ANY"
  have i: "unat (k mod SFS_ENTRYREFS) \<le> 120" by (simp add: unat_mod)
  show "runs disk (bindE (extend_chain disk (unat (needed_entries k)) n e0)
     (\<lambda>(n, e1). bindE (write_entry (e1\<lparr>e_ref := clear_refs (unat (k mod SFS_ENTRYREFS)) (e_ref e1)\<rparr>) disk n)
        (\<lambda>_. if e_next (e1\<lparr>e_ref := clear_refs (unat (k mod SFS_ENTRYREFS)) (e_ref e1)\<rparr>) \<noteq> 0
              then bindE (write_entry (e1\<lparr>e_ref := clear_refs (unat (k mod SFS_ENTRYREFS)) (e_ref e1),
                            e_next := 0\<rparr>) disk n)
                     (\<lambda>_. delete_chain disk (ucast (e_next
                        (e1\<lparr>e_ref := clear_refs (unat (k mod SFS_ENTRYREFS)) (e_ref e1)\<rparr>))))
              else ret ()))) (\<lambda>_. True)"
    by (rule runs_bindE [OF runs_extend_chain [OF e0(2,1)]], clarify, intro runs_intros)
      (use i in \<open>simp_all add: slot_def\<close>)
qed


lemma get_nref_slot:
  "mounted s disk \<Longrightarrow> n < ERROR_ANY \<Longrightarrow> entry_shape e \<Longrightarrow>
   get_nref_entry_from_entry s disk e n k = Inr x \<Longrightarrow> slot x"
proof (induction s disk e n k rule: get_nref_entry_from_entry.induct)
  case (1 s disk e n k)
  show ?case
  proof (cases "k div SFS_ENTRYREFS > 0")
    case False
    then show ?thesis using 1(2-5)
      by (subst (asm) get_nref_entry_from_entry.simps) (auto simp: slot_def)
  next
    case True
    then obtain e' where e': "e_next e \<noteq> 0" "get_entry_n s disk (ucast (e_next e)) = Inr e'"
        "get_nref_entry_from_entry s disk e' (ucast (e_next e)) (k div SFS_ENTRYREFS) = Inr x"
      using 1(5) by (subst (asm) get_nref_entry_from_entry.simps)
        (auto simp: Let_def split: if_splits sum.splits)
    have n': "(ucast (e_next e) :: u16) < ERROR_ANY" using e'(2) by (rule get_entry_n_index)
    then have "entry_shape e'"
      using e'(2) get_entry_n_ok [OF mounted_device [OF 1(2)] n'] entry_at_shape [OF mounted_sectors [OF 1(2)]]
      by auto
    then show ?thesis using 1(1) [OF refl True e'(1,2) 1(2) n'] e'(3) by simp
  qed
qed

lemma runs_add_ref [runs_intros]: "runs disk (add_ref_in_entry disk n ref) (\<lambda>_. True)"
  unfolding add_ref_in_entry_def Let_def
proof (intro runs_get)
  fix e assume e: "entry_shape e" "n < ERROR_ANY"
  let ?k = "get_entry_refcount e"
  have "runs disk (catchE (reads (\<lambda>s. get_nref_entry_from_entry s disk e n ?k))
      (\<lambda>r. case r of Inl c \<Rightarrow> if c \<noteq> ERROR_NOT_FOUND then fail c
              else bindE (set_entry_refcount disk n (?k + 1)) (\<lambda>_.
                   bindE (reads (\<lambda>s. get_entry_n s disk 0)) (\<lambda>e'. ret (0, e')))
            | Inr ne \<Rightarrow> ret ne)) slot"
  proof (rule runs_catchE [of _ _ slot])
    show "runs disk (reads (\<lambda>s. get_nref_entry_from_entry s disk e n ?k)) slot"
      using e by (intro runs_reads) (rule get_nref_slot)
    show "runs disk (case Inl c of Inl c \<Rightarrow> if c \<noteq> ERROR_NOT_FOUND then fail c
              else bindE (set_entry_refcount disk n (?k + 1)) (\<lambda>_.
                   bindE (reads (\<lambda>s. get_entry_n s disk 0)) (\<lambda>e'. ret (0, e')))
            | Inr ne \<Rightarrow> ret ne) slot" for c
      unfolding sum.case
      by (intro runs_if runs_fail runs_bindE [OF runs_set_entry_refcount] runs_get runs_ret)
        (simp add: slot_def)
    show "slot x \<Longrightarrow> runs disk (case Inr x of Inl c \<Rightarrow> if c \<noteq> ERROR_NOT_FOUND then fail c
              else bindE (set_entry_refcount disk n (?k + 1)) (\<lambda>_.
                   bindE (reads (\<lambda>s. get_entry_n s disk 0)) (\<lambda>e'. ret (0, e')))
            | Inr ne \<Rightarrow> ret ne) slot" for x
      unfolding sum.case by (rule runs_ret)
  qed
  then show "runs disk (bindE (catchE (reads (\<lambda>s. get_nref_entry_from_entry s disk e n ?k))
      (\<lambda>r. case r of Inl c \<Rightarrow> if c \<noteq> ERROR_NOT_FOUND then fail c
              else bindE (set_entry_refcount disk n (?k + 1)) (\<lambda>_.
                   bindE (reads (\<lambda>s. get_entry_n s disk 0)) (\<lambda>e'. ret (0, e')))
            | Inr ne \<Rightarrow> ret ne))
      (\<lambda>(m, re). bindE (write_entry
          (re\<lparr>e_ref := (e_ref re)[unat (?k mod SFS_ENTRYREFS) := ucast ref]\<rparr>) disk m) (\<lambda>_.
        if entry_is e T_DIR then set_entry_size disk n (ucast (e_size e) + 1) else ret ()))) (\<lambda>_. True)"
    by (rule runs_bindE, clarify, intro runs_intros) (simp_all add: slot_def)
qed

lemma shift_ref_shape:
  "entry_shape cur \<Longrightarrow> shift_ref ref r nxt found cur = (found', cur') \<Longrightarrow> entry_shape cur'"
  by (auto simp: shift_ref_def Let_def split: if_splits)

text \<open>Every call of the loop keeps the current entry and its index fit to be written.\<close>

lemma runs_remove_ref_loop:
  assumes "n < ERROR_ANY" "entry_shape cur"
  shows "runs disk (remove_ref_loop disk ref r k n cur nxt found) (\<lambda>(n, cur, k, found). slot (n, cur))"
    (is "runs _ _ ?Q")
proof -
  have "n < ERROR_ANY \<longrightarrow> entry_shape cur \<longrightarrow> good disk ?Q s y"
    if "remove_ref_loop disk ref r k n cur nxt found s = Some y" for s y
    using that
  proof (rule remove_ref_loop.raw_induct [rotated, where P = "\<lambda>disk ref r k n cur nxt found s y.
      n < ERROR_ANY \<longrightarrow> entry_shape cur \<longrightarrow> good disk ?Q s y"], intro impI, goal_cases)
    case (1 f disk ref r k n cur nxt found s y)
    have fit: "n < ERROR_ANY" "entry_shape cur" using 1 by blast+
    have IH: "runs disk (f disk ref r' k' n' cur' nxt' found') ?Q" if "n' < ERROR_ANY" "entry_shape cur'"
      for r' k' n' cur' nxt' found'
      unfolding runs_good using 1(1) that by blast
    have step: "runs disk (\<lambda>s. if r < k
      then if r = SFS_ENTRYREFS
           then bindE (write_entry cur disk n) (\<lambda>_ s.
                bindE (reads (\<lambda>s. get_entry_n s disk (ucast (e_next cur)))) (\<lambda>cur' s.
                let (found', cur'') = shift_ref ref 0 nxt found cur'
                in f disk ref 1 (get_entry_refcount cur') (ucast (e_next cur)) cur'' nxt
                     found' s) s) s
           else bindE (if r + 1 = SFS_ENTRYREFS
                       then if e_next nxt \<noteq> 0 then reads (\<lambda>s. get_entry_n s disk (ucast (e_next nxt)))
                            else ret zero_entry
                       else ret nxt) (\<lambda>nxt' s.
                let (found', cur') = shift_ref ref (unat r) nxt' found cur
                in f disk ref (r + 1) k n cur' nxt' found' s) s
      else ret (n, cur, k, found) s) ?Q"
    proof (intro runs_if_state)
      show "runs disk (bindE (write_entry cur disk n) (\<lambda>_ s.
                bindE (reads (\<lambda>s. get_entry_n s disk (ucast (e_next cur)))) (\<lambda>cur' s.
                let (found', cur'') = shift_ref ref 0 nxt found cur'
                in f disk ref 1 (get_entry_refcount cur') (ucast (e_next cur)) cur'' nxt
                     found' s) s)) ?Q"
        unfolding Let_def by (intro runs_intros runs_case_prod IH fit) (simp_all add: shift_ref_shape)
      have "runs disk (if r + 1 = SFS_ENTRYREFS
             then if e_next nxt \<noteq> 0 then reads (\<lambda>s. get_entry_n s disk (ucast (e_next nxt)))
                  else ret zero_entry else ret nxt) (\<lambda>_. True)"
        by (intro runs_if runs_ret runs_reads TrueI)
      then show "runs disk (bindE (if r + 1 = SFS_ENTRYREFS
             then if e_next nxt \<noteq> 0 then reads (\<lambda>s. get_entry_n s disk (ucast (e_next nxt)))
                  else ret zero_entry else ret nxt) (\<lambda>nxt' s.
                let (found', cur') = shift_ref ref (unat r) nxt' found cur
                in f disk ref (r + 1) k n cur' nxt' found' s)) ?Q"
        unfolding Let_def by (rule runs_bindE) (intro runs_case_prod IH fit(1) shift_ref_shape [OF fit(2)])
      show "runs disk (\<lambda>s. ret (n, cur, k, found) s) ?Q"
        using fit by (intro runs_ret) (simp add: slot_def)
    qed
    then show ?case using 1(2) unfolding runs_good by blast
  qed
  then show ?thesis using assms unfolding runs_good by blast
qed

lemma runs_remove_ref [runs_intros]: "runs disk (remove_ref_in_entry disk n ref) (\<lambda>_. True)"
  unfolding remove_ref_in_entry_def
proof (intro runs_get, rule runs_bindE [OF runs_remove_ref_loop])
  fix e and x :: "u16 \<times> sfs_entry \<times> u16 \<times> bool"
  assume "case x of (n, cur, k, found) \<Rightarrow> slot (n, cur)"
  then show "runs disk (case x of (ncur, cur, refcount, found) \<Rightarrow>
      if found
      then bindE (write_entry cur disk ncur) (\<lambda>_.
           bindE (set_entry_refcount disk n (refcount - 1)) (\<lambda>_.
           if entry_is e T_DIR then set_entry_size disk n (refcount - 1) else ret ()))
      else ret ()) (\<lambda>_. True)"
    by (cases x) (auto simp: slot_def intro!: runs_intros runs_bindE [OF runs_set_entry_refcount])
qed

lemma runs_foreachE:
  "(\<And>x. runs disk (g x) (\<lambda>_. True)) \<Longrightarrow> runs disk (foreachE g xs) (\<lambda>_. True)"
  by (induction xs) (auto intro: runs_ret runs_bindE)

lemma runs_delete_n: "runs disk (delete_n disk n) (\<lambda>_. True)"
  unfolding runs_good
proof (intro allI impI)
  fix s y assume "delete_n disk n s = Some y"
  from this show "good disk (\<lambda>_. True) s y"
  proof (rule delete_n.raw_induct [rotated, where P = "\<lambda>disk n s y. good disk (\<lambda>_. True) s y"], goal_cases)
    case (1 f disk n s y)
    have IH: "runs disk (f disk m) (\<lambda>_. True)" for m
      unfolding runs_good using 1(1) by blast
    have "runs disk (\<lambda>s. if e_next e \<noteq> 0 then f disk (ucast (e_next e)) s else ret () s) (\<lambda>_. True)" for e
      by (intro runs_if_state IH runs_ret TrueI)
    note next_ok = runs_bindE [OF this]
    show ?case using 1(2)
    proof (rule runs_good [THEN iffD1, rule_format, rotated], intro runs_get, goal_cases)
      case (1 e)
      then show ?case
        by (intro runs_bindE [OF runs_remove_ref] runs_bindE [OF runs_foreachE] next_ok IH runs_write
            zero_entry_shape)
    qed
  qed
qed

lemma runs_create_directory:
  assumes "path_parse_disk_parent_name s path = Inr (off, parent, disk)" "mounted s disk"
    "fs_create_directory path s = Some (r, s')"
  shows "preserved disk s s'"
proof -
  let ?name = "string_to_name (drop off path)"
  have time: "runs disk (set_entry_time_to_current disk n) (\<lambda>_. True)" for n
  proof (rule runsI)
    fix s r s'
    assume s: "mounted s disk" "set_entry_time_to_current disk n s = Some (r, s')"
    obtain ft where "set_time_chain ft disk n (s\<lparr>clock := clock s + 1\<rparr>) = Some (r, s')"
      using s(2) by (auto simp: set_entry_time_to_current_def current_time_def split: prod.splits)
    moreover have "mounted (s\<lparr>clock := clock s + 1\<rparr>) disk" using s(1) by simp
    ultimately have "preserved disk (s\<lparr>clock := clock s + 1\<rparr>) s'"
      by (rule_tac runsD [OF runs_set_time_chain])
    then show "preserved disk s s' \<and> (\<forall>x. r = Inr x \<longrightarrow> True)" by (simp add: preserved_def)
  qed
  have add: "runs disk (if ucast n \<noteq> (ucast parent :: u32) then add_ref_in_entry disk parent n else ret ())
      (\<lambda>_. True)" for n
    by (intro runs_if runs_add_ref runs_ret TrueI)
  have "runs disk (bindE (check_absent ?name parent disk) (\<lambda>_.
     bindE (reads (\<lambda>s. find_free_entry s disk)) (\<lambda>n.
     bindE (write_entry (new_entry T_DIR ?name parent) disk n) (\<lambda>_.
     bindE (set_entry_time_to_current disk n) (\<lambda>_.
     bindE (if ucast n \<noteq> (ucast parent :: u32) then add_ref_in_entry disk parent n else ret ()) (\<lambda>_.
     ret n)))))) (\<lambda>_. True)"
    unfolding check_absent_def
    by (rule runs_bindE [OF runs_reads [where Q = "\<lambda>_. True"]], simp,
        intro runs_free runs_write_bind runs_bindE [OF time] runs_bindE [OF add] runs_ret
          new_entry_shape TrueI; assumption)
  from runsD [OF this assms(2)] show ?thesis
    using assms(1,3) by (simp add: fs_create_directory_def bindE_def [of "reads _"] reads_def Let_def)
qed

text \<open>
  C24: Creating or deleting a directory entry, whatever the table of the disk contains and however the
  operation ends, leaves the disk mounted with the same boot block and superblock, and leaves every
  other disk, the disk table and the system disk unchanged.
\<close>

theorem directory_operations_keep_volume:
  assumes "mounted s disk"
    and "(path_parse_disk_parent_name s path = Inr (off, parent, disk) \<and>
            fs_create_directory path s = Some (r, s')) \<or>
         (path_get_disk s path = disk \<and> fs_delete path s = Some (r', s'))"
  shows "mounted s' disk \<and> disk_of s' disk 0 = disk_of s disk 0 \<and>
    superblock_of (disk_of s' disk) = superblock_of (disk_of s disk) \<and>
    (\<forall>d. d \<noteq> ucast disk \<longrightarrow> dsk s' d = dsk s d) \<and>
    disk_info s' = disk_info s \<and> system_disk s' = system_disk s"
proof -
  have "preserved disk s s'"
  proof (cases "fs_create_directory path s = Some (r, s') \<and>
      path_parse_disk_parent_name s path = Inr (off, parent, disk)")
    case True
    then show ?thesis using runs_create_directory assms(1) by blast
  next
    case False
    then have d: "path_get_disk s path = disk" "fs_delete path s = Some (r', s')" using assms(2) by auto
    show ?thesis
    proof (cases "fs_get_entry s path UNKNOWN_VALUE UNKNOWN_VALUE")
      case (Inl c)
      then have "s' = s" using d(2) by (simp add: fs_delete_def bindE_def reads_def)
      then show ?thesis using assms(1) by (simp add: preserved_refl)
    next
      case (Inr ne)
      then have "delete_n disk (fst ne) s = Some (r', s')"
        using d by (cases ne) (simp add: fs_delete_def bindE_def reads_def)
      then show ?thesis using runs_delete_n assms(1) runsD by blast
    qed
  qed
  then show ?thesis by (simp add: preserved_def superblock_of_def)
qed


lemma demo_create:
  "\<exists>s'. fs_create_directory (bytes ''d'') demo_fs = Some (Inr 2, s')"
  using create_directory_ok [OF demo_leads_to demo_mounted, of 2] demo_free demo_root demo_absent
  by (simp del: bytes_simps demo_nth)

theorem directory_operations_keep_volume_witness:
  "\<exists>s'. fs_create_directory (bytes ''d'') demo_fs = Some (Inr 2, s') \<and>
     superblock_of (disk_of s' 0) = demo_sb"
proof -
  obtain off where off: "path_parse_disk_parent_name demo_fs (bytes ''d'') = Inr (off, 0, 0)"
    using demo_leads_to by (auto simp: leads_to_def)
  obtain s' where s': "fs_create_directory (bytes ''d'') demo_fs = Some (Inr 2, s')"
    using demo_create by blast
  show ?thesis
    using directory_operations_keep_volume [OF demo_mounted, of "bytes ''d''" off 0 "Inr 2" s' "Inl 0"]
      off s' by (simp del: bytes_simps)
qed

subsection \<open>Deleting\<close>

text \<open>
  C30: Deleting an unchained entry without children that is the only child of an unchained directory
  returns, frees its table entry, and leaves the directory empty: size 0 and no references. No other
  block of the disk changes.
\<close>

theorem delete_only_child:
  fixes n p :: u16
  assumes m: "mounted s disk"
  defines "f \<equiv> disk_of s disk"
  defines "e \<equiv> entry_at f (unat n)" and "d \<equiv> entry_at f (unat p)"
  assumes n: "n < ERROR_ANY" "e_parent e = ucast p" "e_next e = 0" "entry_is e T_DIR \<longrightarrow> e_size e = 0"
    and p: "p < ERROR_ANY" "p \<noteq> n" "open_dir d" "e_size d = 1" "e_ref d ! 0 = ucast n"
  shows "delete_n disk n s = Some (Inr (), set_disk s disk
    (put_entry (put_entry f (unat p) (d\<lparr>e_ref := replicate 120 0, e_size := 0\<rparr>)) (unat n) zero_entry))"
proof -
  have ok: "device_ok s disk" "sectors_ok f" using m by (simp_all add: f_def mounted_device mounted_sectors)
  have lt: "unat n < table_limit" "unat p < table_limit" "unat p \<noteq> unat n"
    using n(1) p(1,2) by (simp_all add: word_less_nat_alt word_unat_eq_iff)
  have shapes: "entry_shape e" "entry_shape d" using ok by (simp_all add: e_def d_def entry_at_shape)
  have dir: "entry_is d T_DIR" "\<not> entry_is d T_FILE" "e_next d = 0" using p(3) by (simp_all add: open_dir_def)
  have gets: "get_entry_n s disk n = Inr e" "get_entry_n s disk p = Inr d"
    using ok n(1) p(1) by (simp_all add: get_entry_n_ok e_def d_def f_def)
  let ?d1 = "d\<lparr>e_ref := (e_ref d)[0 := e_ref d ! 1]\<rparr>" and ?d2 = "d\<lparr>e_ref := replicate 120 0\<rparr>"
  let ?d3 = "?d2\<lparr>e_size := 0\<rparr>"
  have count: "get_entry_refcount d = 1" using dir p(4) by (simp add: get_entry_refcount_def)
  have step1: "remove_ref_loop disk n 0 1 p d d False s = Some (Inr (p, ?d1, 1, True), s)"
    by (subst remove_ref_loop.simps, simp add: bindE_def ret_def shift_ref_def p(5) Let_def)
      (subst remove_ref_loop.simps, simp add: ret_def)
  have none: "needed_entries 0 = 0" by (simp add: needed_entries_def)
  have clear: "clear_refs 0 rs = replicate 120 0" for rs by (simp add: clear_refs_def)
  let ?s1 = "set_disk s disk (put_entry f (unat p) ?d1)" and ?s3 = "set_disk s disk (put_entry f (unat p) ?d3)"
  have w1: "write_entry ?d1 disk p s = Some (Inr (), ?s1)"
    using ok p(1) shapes by (simp add: write_entry_ok f_def)
  have at1: "entry_at (put_entry f (unat p) x) (unat p) = x" if "entry_shape x" for x
    using ok lt that by (simp add: entry_at_put)
  have sh2: "entry_shape ?d2" "entry_shape ?d3" "entry_shape ?d1" using shapes by (simp_all add: entry_shape_def)
  have step2: "set_entry_refcount disk p 0 ?s1 = Some (Inr (), set_disk s disk (put_entry f (unat p) ?d2))"
    using ok p(1) sh2 dir at1 [of ?d1]
    by (simp add: set_entry_refcount_def bindE_def reads_def ret_def get_entry_set write_entry_set none clear Let_def)
  have step3: "set_entry_size disk p 0 (set_disk s disk (put_entry f (unat p) ?d2)) = Some (Inr (), ?s3)"
    using ok p(1) sh2 dir at1 [of ?d2] by (simp add: set_entry_size_single)
  have remove: "remove_ref_in_entry disk p n s = Some (Inr (), ?s3)"
    using step1 step2 step3 w1 count gets dir
    by (simp add: remove_ref_in_entry_def bindE_def reads_def)
  have "delete_n disk n s = write_entry zero_entry disk n ?s3"
    using n(2-4) remove gets by (subst delete_n.simps) (simp add: bindE_def reads_def ret_def)
  also have "\<dots> = Some (Inr (), set_disk s disk (put_entry (put_entry f (unat p) ?d3) (unat n) zero_entry))"
    using ok n(1) sh2 by (simp add: write_entry_set)
  finally show ?thesis by simp
qed

theorem delete_only_child_witness:
  "\<exists>f'. delete_n 0 1 demo_fs = Some (Inr (), set_disk demo_fs 0 f') \<and>
     entry_at f' 1 = zero_entry \<and> e_size (entry_at f' 0) = 0"
proof -
  let ?f = "image_of demo_sb demo_entries" and ?d = "demo_entries ! 0"
  let ?g = "put_entry ?f 0 (?d\<lparr>e_ref := replicate 120 0, e_size := 0\<rparr>)"
  have run: "delete_n 0 1 demo_fs = Some (Inr (), set_disk demo_fs 0 (put_entry ?g 1 zero_entry))"
    using delete_only_child [OF demo_mounted, of 1 0] demo_root
    by (simp add: mk_entry_def zero_entry_def entry_is_def)
  have "entry_shape (?d\<lparr>e_ref := replicate 120 0, e_size := 0\<rparr>)"
    by (simp add: entry_shape_def mk_entry_def zero_entry_def)
  then have "entry_at (put_entry ?g 1 zero_entry) 1 = zero_entry"
    "e_size (entry_at (put_entry ?g 1 zero_entry) 0) = 0"
    by (simp_all add: entry_at_put del: demo_nth)
  with run show ?thesis by blast
qed

end
