(* ===== verification/Fs_Contents.thy ===== *)
theory Fs_Contents
  imports Fs_Safety
begin

section \<open>Contents of a file\<close>

text \<open>
  The contents of a file that fits in one entry, as the concatenation of its blocks. Reading
  a range of the file returns that range of the contents, writing one replaces it, and a write that
  does not change the size followed by a read of the same range returns what was written, for paths
  of any depth.
\<close>

definition blocks_of :: "sfs_entry \<Rightarrow> nat \<Rightarrow> u16 list" where
  "blocks_of e k = map ucast (take k (e_ref e))"

definition file_bytes :: "(u16 \<Rightarrow> u8 list) \<Rightarrow> u16 list \<Rightarrow> u8 list" where
  "file_bytes f bs = concat (map f bs)"

lemma length_file_bytes [simp]: "sectors_ok f \<Longrightarrow> length (file_bytes f bs) = 512 * length bs"
  by (induction bs) (simp_all add: file_bytes_def sectors_ok_def)

lemma file_bytes_nth:
  assumes "sectors_ok f" "q < 512 * length bs"
  shows "file_bytes f bs ! q = f (bs ! (q div 512)) ! (q mod 512)"
  using assms(2)
proof (induction bs arbitrary: q)
  case (Cons b bs)
  have len: "length (f b) = 512" using assms(1) by (simp add: sectors_ok_def)
  show ?case
  proof (cases "q < 512")
    case True
    then show ?thesis using len by (simp add: file_bytes_def nth_append)
  next
    case False
    then obtain r where r: "q = 512 + r" by (metis add_diff_inverse_nat)
    then have "r < 512 * length bs" using Cons.prems by simp
    moreover have "q div 512 = Suc (r div 512)" "q mod 512 = r mod 512" using r by simp_all
    ultimately show ?thesis using Cons.IH [of r] len r False by (simp add: file_bytes_def nth_append)
  qed
qed simp

text \<open>Part of one block of a file, read and written.\<close>

lemma file_bytes_block:
  assumes "sectors_ok f" "i < length bs" "off + m \<le> 512"
  shows "take m (drop (512 * i + off) (file_bytes f bs)) = take m (drop off (f (bs ! i)))"
proof (rule nth_equalityI)
  have len: "length (f (bs ! i)) = 512" using assms(1) by (simp add: sectors_ok_def)
  have le: "512 * Suc i \<le> 512 * length bs" using assms(2) by (simp only: mult_le_mono2 Suc_leI)
  then show "length (take m (drop (512 * i + off) (file_bytes f bs))) =
      length (take m (drop off (f (bs ! i))))"
    using assms len by simp
  fix j assume "j < length (take m (drop (512 * i + off) (file_bytes f bs)))"
  then have j: "j < m" by simp
  have "512 * i + off + j < 512 * length bs" using le j assms(3) by simp
  moreover have "off + j < 512" using j assms(3) by simp
  then have "(512 * i + (off + j)) div 512 = i" "(512 * i + (off + j)) mod 512 = off + j" by simp_all
  then have "(512 * i + off + j) div 512 = i" "(512 * i + off + j) mod 512 = off + j"
    by (simp_all only: add.assoc)
  ultimately have "file_bytes f bs ! (512 * i + off + j) = f (bs ! i) ! (off + j)"
    using file_bytes_nth [OF assms(1)] by simp
  then show "take m (drop (512 * i + off) (file_bytes f bs)) ! j = take m (drop off (f (bs ! i))) ! j"
    using j le assms len by (simp add: add.assoc)
qed

lemma file_bytes_put:
  assumes "sectors_ok f" "distinct bs" "i < length bs" "off + length data \<le> 512"
  shows "file_bytes (put_bytes f (512 * unat (bs ! i) + off) data) bs =
    splice (512 * i + off) data (file_bytes f bs)"
proof (rule nth_equalityI)
  have le: "512 * Suc i \<le> 512 * length bs" using assms(3) by (simp only: mult_le_mono2 Suc_leI)
  let ?g = "put_bytes f (512 * unat (bs ! i) + off) data"
  show len: "length (file_bytes ?g bs) = length (splice (512 * i + off) data (file_bytes f bs))"
    using assms le by (simp add: splice_def)
  fix q assume "q < length (file_bytes ?g bs)"
  then have q: "q < 512 * length bs" by simp
  then have k: "q div 512 < length bs" by (simp add: less_mult_imp_div_less mult.commute)
  have g: "file_bytes ?g bs ! q = ?g (bs ! (q div 512)) ! (q mod 512)"
    by (rule file_bytes_nth [OF _ q]) simp
  have f: "file_bytes f bs ! q = f (bs ! (q div 512)) ! (q mod 512)"
    by (rule file_bytes_nth [OF assms(1) q])
  have same: "unat (bs ! (q div 512)) = unat (bs ! i) \<longleftrightarrow> q div 512 = i"
    using assms(2,3) k by (simp add: word_unat_eq_iff [symmetric] nth_eq_iff_index_eq)
  have split: "splice (512 * i + off) data (file_bytes f bs) ! q =
      (if 512 * i + off \<le> q \<and> q < 512 * i + off + length data then data ! (q - (512 * i + off))
       else file_bytes f bs ! q)"
    using q le assms by (auto simp: splice_def nth_append min_def)
  have qs: "512 * (q div 512) + q mod 512 = q" by simp
  have range: "512 * unat (bs ! i) + off \<le> 512 * unat (bs ! (q div 512)) + q mod 512 \<and>
      512 * unat (bs ! (q div 512)) + q mod 512 < 512 * unat (bs ! i) + off + length data \<longleftrightarrow>
      512 * i + off \<le> q \<and> q < 512 * i + off + length data"
  proof (cases "q div 512 = i")
    case True
    then show ?thesis using qs by (simp) linarith
  next
    case False
    then have "unat (bs ! (q div 512)) \<noteq> unat (bs ! i)" using same by simp
    moreover have "q mod 512 < 512" by simp
    ultimately have "\<not> (512 * unat (bs ! i) + off \<le> 512 * unat (bs ! (q div 512)) + q mod 512 \<and>
      512 * unat (bs ! (q div 512)) + q mod 512 < 512 * unat (bs ! i) + off + length data)"
      using assms(4) by linarith
    moreover have "\<not> (512 * i + off \<le> q \<and> q < 512 * i + off + length data)"
      using False qs assms(4) \<open>q mod 512 < 512\<close> by linarith
    ultimately show ?thesis by blast
  qed
  show "file_bytes ?g bs ! q = splice (512 * i + off) data (file_bytes f bs) ! q"
  proof (cases "512 * i + off \<le> q \<and> q < 512 * i + off + length data")
    case True
    then have "q div 512 = i" using assms(4) by (intro div_nat_eqI) simp_all
    then have "512 * unat (bs ! (q div 512)) + q mod 512 - (512 * unat (bs ! i) + off) = q - (512 * i + off)"
      using qs by (simp) 
    then show ?thesis using True range split g by (simp add: nth_put_bytes)
  next
    case False
    have "q mod 512 < 512" by simp
    from False show ?thesis by (simp only: split g f nth_put_bytes [OF \<open>q mod 512 < 512\<close>] range if_False)
  qed
qed

lemma splice_splice:
  assumes "off + length a + length b \<le> length c"
  shows "splice (off + length a) b (splice off a c) = splice off (a @ b) c"
  using assms by (simp add: splice_def ac_simps)


subsection \<open>Reading\<close>

lemma block_offset:
  assumes "unat x < 61440"
  shows "unat (x div BLOCK_SIZE) = unat x div 512" "unat (x mod BLOCK_SIZE) = unat x mod 512"
    "unat (x div BLOCK_SIZE) < 120"
  using assms by (simp_all add: unat_div unat_mod)

lemma chunk_eq:
  assumes "offset < BLOCK_SIZE"
  shows "unat (chunk offset rest) = min (512 - unat offset) (unat rest)"
proof -
  have "unat (512 - offset) = 512 - unat offset"
    using assms by (simp add: unat_sub word_less_nat_alt word_le_nat_alt)
  then show ?thesis by (simp add: chunk_def unat_min16)
qed

lemma read_loop_ok:
  assumes "device_ok s disk" "entry_shape e" "k \<le> 120"
  shows "offset < BLOCK_SIZE \<Longrightarrow> done \<le> count \<Longrightarrow> unat block \<le> 120 \<Longrightarrow>
    512 * unat block + unat offset + (unat count - unat done) \<le> 512 * k \<Longrightarrow>
    read_loop s disk n e block offset count done buff =
      Inr (count, buff @ take (unat count - unat done)
        (drop (512 * unat block + unat offset) (file_bytes (disk_of s disk) (blocks_of e k))))"
  using assms
proof (induction s disk n e block offset count "done" buff rule: read_loop.induct)
  case (1 s disk n e block offset count don buff)
  let ?f = "disk_of s disk" and ?bs = "blocks_of e k"
  show ?case
  proof (cases "don < count")
    case False
    then have "don = count" using 1(3) by simp
    then show ?thesis by (subst read_loop.simps) simp
  next
    case True
    let ?m = "chunk offset (count - don)"
    have c: "unat (count - don) = unat count - unat don"
      using True by (simp add: unat_sub word_less_nat_alt word_le_nat_alt)
    have m: "unat ?m = min (512 - unat offset) (unat count - unat don)"
      using chunk_eq [OF 1(2)] c by simp
    have pos: "0 < unat ?m" and le: "unat don + unat ?m \<le> unat count"
      using chunk_bounds [OF True 1(2)] by simp_all
    have off: "unat offset < 512" using 1(2) by (simp add: word_less_nat_alt)
    have bk: "unat block < k" using 1(5) True by (simp add: word_less_nat_alt)
    then have b: "unat block < 120" using 1(8) by simp
    have nref: "get_nref_entry_from_entry s disk e n block = Inr (n, e)" by (rule get_nref_first [OF b])
    have bm: "block mod SFS_ENTRYREFS = block" using b by (simp add: word_unat_eq_iff unat_mod)
    let ?b = "ucast (e_ref e ! unat block) :: u16"
    have len: "length (e_ref e) = 120" using 1(7) by (simp add: entry_shape_def)
    have bs: "?bs ! unat block = ?b" "length ?bs = k" using bk b len 1(8) by (simp_all add: blocks_of_def)
    have fit: "unat offset + unat ?m \<le> 512" using m off by simp
    have sec: "sectors_ok ?f" by (rule device_ok_sectors [OF 1(6)])
    have "512 * unat ?b + unat offset + unat ?m \<le> 512 * 65536"
      using fit unat_u16_lt [of ?b] by linarith
    then have "read_disk s disk ?b offset ?m = Inr (get_bytes ?f (512 * unat ?b + unat offset) (unat ?m))"
      by (rule read_disk_ok [OF 1(6) pos])
    also have "get_bytes ?f (512 * unat ?b + unat offset) (unat ?m) =
        take (unat ?m) (drop (512 * unat block + unat offset) (file_bytes ?f ?bs))"
      using file_bytes_block [OF sec, of "unat block" ?bs "unat offset" "unat ?m"] bk bs fit
        take_drop_get_bytes [OF fit, of ?f "512 * unat ?b"] get_bytes_sector [OF sec, of "512 * unat ?b" ?b]
      by simp
    finally have rd: "read_disk s disk ?b offset ?m =
        Inr (take (unat ?m) (drop (512 * unat block + unat offset) (file_bytes ?f ?bs)))" .
    have dm: "unat (don + ?m) = unat don + unat ?m"
      using le unat_u16_lt [of count] by (simp add: unat_plus_u16)
    have b1: "unat (block + 1) = unat block + 1" using b by (simp add: unat_plus1_u16)
    have conj: "don < count \<and> offset < BLOCK_SIZE" using True 1(2) by simp
    note IH = 1(1) [OF conj nref refl refl refl, unfolded bm, OF rd]
    have "read_loop s disk n e (block + 1) 0 count (don + ?m)
        (buff @ take (unat ?m) (drop (512 * unat block + unat offset) (file_bytes ?f ?bs))) =
      Inr (count, (buff @ take (unat ?m) (drop (512 * unat block + unat offset) (file_bytes ?f ?bs))) @
        take (unat count - unat (don + ?m)) (drop (512 * unat (block + 1) + unat (0 :: u16)) (file_bytes ?f ?bs)))"
    proof (rule IH)
      show "(0 :: u16) < BLOCK_SIZE" by simp
      show "don + ?m \<le> count" using le dm by (simp add: word_le_nat_alt)
      show "unat (block + 1) \<le> 120" using b1 b by simp
      show "512 * unat (block + 1) + unat (0 :: u16) + (unat count - unat (don + ?m)) \<le> 512 * k"
        using 1(5) m dm b1 off bk by (simp add: min_def split: if_splits)
    qed (rule 1(6) 1(7) 1(8))+
    note step = this
    let ?p = "512 * unat block + unat offset" and ?fb = "file_bytes ?f ?bs"
    have "take (unat ?m) (drop ?p ?fb) @ take (unat count - unat (don + ?m)) (drop (512 * unat (block + 1)) ?fb) =
        take (unat count - unat don) (drop ?p ?fb)"
    proof (cases "unat count - unat don \<le> 512 - unat offset")
      case True
      then show ?thesis using m dm by simp
    next
      case False
      then have m: "unat ?m = 512 - unat offset" using m by simp
      have "drop (512 * unat (block + 1)) ?fb = drop (unat ?m) (drop ?p ?fb)"
        using m off b1 by (simp add: algebra_simps)
      moreover have "unat count - unat don = unat ?m + (unat count - unat (don + ?m))" using dm le by simp
      ultimately show ?thesis by (simp only: take_add)
    qed
    then show ?thesis
      using True 1(2) step
      by (subst read_loop.simps) (simp add: nref bm [simplified] rd [simplified] Let_def)
  qed
qed


text \<open>The contents of a file that fits in one entry.\<close>

definition contents :: "(u16 \<Rightarrow> u8 list) \<Rightarrow> sfs_entry \<Rightarrow> u8 list" where
  "contents f e = take (unat (e_size e)) (file_bytes f (blocks_of e 120))"

lemma unat_min_size: "unat (min_size a b) = min (unat a) (unat b)"
proof -
  have "unat (ucast b :: u16) = unat b" if "unat b \<le> unat a"
    using that unat_u16_lt [of a] by (simp add: unsigned_ucast_eq take_bit_nat_eq_self)
  then show ?thesis by (auto simp: min_size_def word_less_nat_alt min_def)
qed

lemma read_contents:
  assumes ok: "device_ok s disk" "entry_shape e"
    and find: "path_get_disk s path = disk" "fs_get_entry s path UNKNOWN_VALUE UNKNOWN_VALUE = Inr (n, e)"
    and tfile: "entry_is e T_FILE" "unat (e_size e) \<le> 61440"
  shows "fs_read_file s path offset count =
    (let data = take (unat count) (drop (unat offset) (contents (disk_of s disk) e))
     in Inr (of_nat (length data), data))"
proof -
  let ?f = "disk_of s disk" and ?o = "min_size offset (e_size e)"
  let ?c = "min_size count (e_size e - ucast ?o)"
  let ?fb = "file_bytes ?f (blocks_of e 120)"
  have o: "unat ?o = min (unat offset) (unat (e_size e))" by (rule unat_min_size)
  have "unat (e_size e - ucast ?o) = unat (e_size e) - unat ?o"
    using o by (simp add: unat_sub word_le_nat_alt)
  then have c: "unat ?c = min (unat count) (unat (e_size e) - unat ?o)" by (simp add: unat_min_size)
  have "length (blocks_of e 120) = 120" using ok(2) by (simp add: blocks_of_def entry_shape_def)
  then have len: "length ?fb = 61440" using device_ok_sectors [OF ok(1)] by simp
  have split: "512 * unat (?o div BLOCK_SIZE) + unat (?o mod BLOCK_SIZE) = unat ?o"
    by (simp add: unat_div unat_mod)
  have b: "unat (?o div BLOCK_SIZE) \<le> 120" using o tfile(2) by (simp add: unat_div)
  have om: "?o mod BLOCK_SIZE < BLOCK_SIZE" by (simp add: word_less_nat_alt unat_mod)
  have "read_loop s disk n e (?o div BLOCK_SIZE) (?o mod BLOCK_SIZE) ?c 0 [] =
      Inr (?c, take (unat ?c) (drop (unat ?o) ?fb))"
    using read_loop_ok [OF ok, of 120 "?o mod BLOCK_SIZE" 0 ?c "?o div BLOCK_SIZE" n "[]"] om b split o c tfile(2)
    by simp
  moreover have data: "take (unat count) (drop (unat offset) (contents ?f e)) = take (unat ?c) (drop (unat ?o) ?fb)"
    using o c len tfile(2) by (simp add: contents_def drop_take min_def)
  moreover have "length (take (unat ?c) (drop (unat ?o) ?fb)) = unat ?c" using o c len tfile(2) by simp
  ultimately show ?thesis using find tfile(1)
    by (simp add: fs_read_file_def Let_def del: UNKNOWN_VALUE_def BLOCK_SIZE_def)
qed


subsection \<open>Writing without a change of size\<close>

lemma needed_blocks_within:
  fixes x m :: u16
  assumes "0 < unat m" "unat x mod 512 + unat m \<le> 512" "unat x + unat m < 65536"
  shows "needed_blocks (x + m) - 1 = x div 512"
proof -
  have s: "unat (x + m) = unat x + unat m" using assms(3) by (simp add: unat_plus_u16)
  define q r where "q = unat x div 512" and "r = unat x mod 512"
  have x: "unat x = 512 * q + r" by (simp add: q_def r_def)
  have d: "unat (x div 512) = q" by (simp add: unat_div q_def)
  have q: "q < 128" using unat_u16_lt [of x] x by linarith
  show ?thesis
  proof (cases "r + unat m = 512")
    case True
    then have "unat (x + m) = 512 * (q + 1)" using s x by simp
    then have "unat ((x + m) mod 512) = 0" "unat ((x + m) div 512) = q + 1"
      by (simp_all add: unat_mod unat_div)
    then have "(x + m) mod 512 = 0" "(x + m) div 512 - 1 = x div 512"
      using d by (simp_all only: unat_eq_0) (simp add: word_unat_eq_iff unat_sub_if_size)
    then show ?thesis by (simp add: needed_blocks_def Let_def)
  next
    case False
    then have lt: "r + unat m < 512" using assms(2) by (simp add: r_def)
    have "unat (x + m) = 512 * q + (r + unat m)" using s x by simp
    then have "unat ((x + m) mod 512) = r + unat m" "unat ((x + m) div 512) = q"
      unfolding unat_mod unat_div using lt by (simp_all only: mod_mult_self4 mod_less) simp_all
    then have "(x + m) mod 512 \<noteq> 0" "(x + m) div 512 = x div 512"
      using d assms(1) by (metis unsigned_0 add_is_0 less_irrefl, simp add: word_unat_eq_iff)
    then show ?thesis by (simp add: needed_blocks_def Let_def del: mod_eq_0_iff_dvd)
  qed
qed

lemma put_bytes_frame:
  assumes "sectors_ok f" "off + length data \<le> 512" "x \<noteq> b"
  shows "put_bytes f (512 * unat b + off) data x = f x"
proof (rule nth_equalityI)
  show "length (put_bytes f (512 * unat b + off) data x) = length (f x)"
    using assms(1) by (simp add: sectors_ok_def)
  fix j assume "j < length (put_bytes f (512 * unat b + off) data x)"
  then have j: "j < 512" by simp
  have "unat x \<noteq> unat b" using assms(3) by (simp add: word_unat_eq_iff)
  then have "\<not> (512 * unat b + off \<le> 512 * unat x + j \<and> 512 * unat x + j < 512 * unat b + off + length data)"
    using assms(2) j by linarith
  then show "put_bytes f (512 * unat b + off) data x ! j = f x ! j"
    using j by (simp only: nth_put_bytes if_False)
qed

lemma write_loop_ok:
  assumes ok: "device_ok s disk" "entry_shape e" "k \<le> 120" "distinct (blocks_of e k)"
    and fit: "unat offset + unat count \<le> 512 * k" "unat count \<le> length buff"
  shows "\<exists>f'. write_loop disk e offset count written buff s =
      Some (Inr (Inr (written + count)), set_disk s disk f') \<and> sectors_ok f' \<and>
    file_bytes f' (blocks_of e k) =
      splice (unat offset) (take (unat count) buff) (file_bytes (disk_of s disk) (blocks_of e k)) \<and>
    (\<forall>x. x \<notin> set (blocks_of e k) \<longrightarrow> f' x = disk_of s disk x)"
  using ok(1) fit
proof (induction "unat count" arbitrary: s offset count written buff rule: less_induct)
  case less
  let ?f = "disk_of s disk" and ?bs = "blocks_of e k"
  have sec: "sectors_ok ?f" by (rule device_ok_sectors [OF less(2)])
  show ?case
  proof (cases "count > 0")
    case False
    then have "count = 0" by (simp add: word_less_nat_alt unat_eq_0)
    then have "write_loop disk e offset count written buff s = Some (Inr (Inr (written + count)), s)"
      by (subst write_loop.simps) (simp add: ret_def)
    then show ?thesis using sec \<open>count = 0\<close> by (intro exI [of _ ?f]) (simp add: splice_def)
  next
    case True
    let ?m = "min16 count (BLOCK_SIZE - offset mod BLOCK_SIZE)"
    have o: "unat (offset mod BLOCK_SIZE) = unat offset mod 512" by (simp add: unat_mod)
    have "unat (BLOCK_SIZE - offset mod BLOCK_SIZE) = 512 - unat offset mod 512"
      using o by (simp add: unat_sub word_le_nat_alt)
    then have m: "unat ?m = min (unat count) (512 - unat offset mod 512)" by (simp add: unat_min16)
    have c0: "0 < unat count" using True by (simp add: word_less_nat_alt)
    then have m0: "0 < unat ?m" and mc: "unat ?m \<le> unat count"
      and mf: "unat offset mod 512 + unat ?m \<le> 512" using m by simp_all
    have big: "unat offset + unat count \<le> 61440" using less(3) ok(3) by simp
    have cur: "needed_blocks (offset + ?m) - 1 = offset div 512"
      using needed_blocks_within [OF m0, of offset] mf mc big by simp
    let ?i = "unat offset div 512"
    have i: "?i < k" using less(3) c0 by (simp add: less_mult_imp_div_less mult.commute)
    have ui: "unat (offset div 512) = ?i" by (simp add: unat_div)
    then have skip: "skip_written disk e offset (offset div 512) s = Some (Inr (e, offset, offset div 512), s)"
      using i ok(3) by (subst skip_written.simps) (simp add: word_less_nat_alt ret_def)
    let ?b = "ucast (e_ref e ! ?i) :: u16"
    have len: "length (e_ref e) = 120" using ok(2) by (simp add: entry_shape_def)
    have bs: "?bs ! ?i = ?b" "?i < length ?bs" using i len ok(3) by (simp_all add: blocks_of_def)
    let ?d = "take (unat ?m) buff"
    have ld: "length ?d = unat ?m" using mc less(4) by simp
    let ?g = "put_bytes ?f (512 * unat ?b + unat offset mod 512) ?d"
    have "write_disk s disk ?b (offset mod BLOCK_SIZE) ?m buff =
        (0, set_disk s disk (put_bytes ?f (512 * unat ?b + unat (offset mod BLOCK_SIZE)) ?d))"
    proof (rule write_disk_ok [OF less(2) m0])
      show "unat ?m \<le> length buff" using mc less(4) by simp
      show "512 * unat ?b + unat (offset mod BLOCK_SIZE) + unat ?m \<le> 512 * 65536"
        using mf unat_u16_lt [of ?b] unfolding o by linarith
    qed
    then have wr: "write_disk s disk ?b (offset mod BLOCK_SIZE) ?m buff = (0, set_disk s disk ?g)"
      by (simp only: o)
    have ref: "read_ref s e (unat (offset div 512)) = e_ref e ! ?i"
      using ui i ok(3) by (simp add: read_ref_def)
    have step: "write_loop disk e offset count written buff s =
        write_loop disk e (offset + ?m) (count - ?m) (written + ?m) (drop (unat ?m) buff) (set_disk s disk ?g)"
      using True wr
      by (subst write_loop.simps) (simp add: Let_def bindE_def cur skip ref del: BLOCK_SIZE_def)
    have om: "unat (offset + ?m) = unat offset + unat ?m" using big mc by (simp add: unat_plus_u16)
    have cm: "unat (count - ?m) = unat count - unat ?m" using mc by (simp add: unat_sub word_le_nat_alt)
    have g: "file_bytes ?g ?bs = splice (unat offset) ?d (file_bytes ?f ?bs)"
      using file_bytes_put [OF sec ok(4) bs(2), of "unat offset mod 512" ?d] mf ld bs(1) by simp
    have gf: "?g x = ?f x" if "x \<notin> set ?bs" for x
      using that bs mf ld nth_mem [OF bs(2)] by (intro put_bytes_frame [OF sec]) auto
    have dec: "unat (count - ?m) < unat count" using cm m0 mc by simp
    have ok_g: "device_ok (set_disk s disk ?g) disk" using less(2) by simp
    have fit_g: "unat (offset + ?m) + unat (count - ?m) \<le> 512 * k" using om cm mc less(3) by simp
    have len_g: "unat (count - ?m) \<le> length (drop (unat ?m) buff)"
      using cm less(4) by (simp add: diff_le_mono)
    obtain f' where f': "write_loop disk e (offset + ?m) (count - ?m) (written + ?m) (drop (unat ?m) buff)
          (set_disk s disk ?g) =
          Some (Inr (Inr (written + ?m + (count - ?m))), set_disk (set_disk s disk ?g) disk f')"
        "sectors_ok f'"
        "file_bytes f' ?bs = splice (unat (offset + ?m)) (take (unat (count - ?m)) (drop (unat ?m) buff))
          (file_bytes (disk_of (set_disk s disk ?g) disk) ?bs)"
        "\<forall>x. x \<notin> set ?bs \<longrightarrow> f' x = disk_of (set_disk s disk ?g) disk x"
      using less(1) [OF dec ok_g fit_g len_g, of "written + ?m"] by blast
    have "length (file_bytes ?f ?bs) = 512 * k"
      using sec len ok(3) by (simp add: blocks_of_def)
    then have "file_bytes f' ?bs = splice (unat offset) (?d @ take (unat count - unat ?m) (drop (unat ?m) buff))
        (file_bytes ?f ?bs)"
      using f'(3) g ld om cm less(3,4) mc
        splice_splice [of "unat offset" ?d "take (unat count - unat ?m) (drop (unat ?m) buff)" "file_bytes ?f ?bs"]
      by simp
    also have "?d @ take (unat count - unat ?m) (drop (unat ?m) buff) = take (unat count) buff"
      using mc by (simp add: take_add [symmetric])
    finally show ?thesis using step f' gf by (intro exI [of _ f']) simp
  qed
qed


subsection \<open>Times along a chain\<close>

text \<open>\<open>chain f n ns\<close>: following \<open>next\<close> from entry \<open>n\<close> visits the entries \<open>ns\<close> and ends.\<close>

fun chain :: "(u16 \<Rightarrow> u8 list) \<Rightarrow> u16 \<Rightarrow> u16 list \<Rightarrow> bool" where
  "chain f n [] \<longleftrightarrow> False"
| "chain f n (m # ms) \<longleftrightarrow> m = n \<and> n < ERROR_ANY \<and>
     (let x = ucast (e_next (entry_at f (unat n))) in if ms = [] then x = 0 else x \<noteq> 0 \<and> chain f x ms)"

definition times_set :: "(u16 \<Rightarrow> u8 list) \<Rightarrow> u32 \<Rightarrow> u16 set \<Rightarrow> (u16 \<Rightarrow> u8 list) \<Rightarrow> bool" where
  "times_set f ft ns f' \<longleftrightarrow> sectors_ok f' \<and>
     (\<forall>m < table_limit. entry_at f' m =
        (if \<exists>n \<in> ns. m = unat n then (entry_at f m)\<lparr>e_time := ft\<rparr> else entry_at f m)) \<and>
     (\<forall>x. f' x \<noteq> f x \<longrightarrow> (\<exists>n \<in> ns. n < ERROR_ANY \<and> x = of_nat (2 + unat n)))"

lemma times_set_chain: "times_set f ft ns f' \<Longrightarrow> chain f n ms \<Longrightarrow> chain f' n ms"
proof (induction ms arbitrary: n)
  case (Cons m ms)
  then have "n < ERROR_ANY" by simp
  then have "unat n < table_limit" by (simp add: word_less_nat_alt)
  then have "e_next (entry_at f' (unat n)) = e_next (entry_at f (unat n))"
    using Cons.prems(1) by (simp add: times_set_def)
  then show ?case using Cons by (auto simp: Let_def)
qed simp

lemma set_time_chain_ok:
  "device_ok s disk \<Longrightarrow> chain (disk_of s disk) n ns \<Longrightarrow>
   \<exists>f'. set_time_chain ft disk n s = Some (Inr (), set_disk s disk f') \<and>
     times_set (disk_of s disk) ft (set ns) f'"
proof (induction ns arbitrary: s n)
  case (Cons m ms)
  let ?f = "disk_of s disk" and ?e = "entry_at (disk_of s disk) (unat n)"
  let ?g = "put_entry ?f (unat n) (?e\<lparr>e_time := ft\<rparr>)"
  have n: "m = n" "n < ERROR_ANY" "unat n < table_limit"
    using Cons.prems(2) by (auto simp: word_less_nat_alt)
  have sec: "sectors_ok ?f" by (rule device_ok_sectors [OF Cons.prems(1)])
  have sh: "entry_shape ?e" by (rule entry_at_shape [OF sec])
  have g: "times_set ?f ft {n} ?g"
    using sec sh n by (auto simp: times_set_def entry_at_put) (auto simp: put_entry_def split: if_splits)
  have step: "set_time_chain ft disk n s =
      (if ucast (e_next ?e) \<noteq> (0 :: u16) then set_time_chain ft disk (ucast (e_next ?e)) (set_disk s disk ?g)
       else Some (Inr (), set_disk s disk ?g))"
    using Cons.prems(1) n(2) sh
    by (subst set_time_chain.simps)
      (simp add: bindE_def reads_def ret_def get_entry_n_ok write_entry_ok Let_def)
  show ?case
  proof (cases "ms = []")
    case True
    then show ?thesis using step g n Cons.prems(2) by (auto simp: Let_def)
  next
    case False
    let ?x = "ucast (e_next ?e) :: u16"
    have x: "?x \<noteq> 0" "chain ?f ?x ms" using False Cons.prems(2) by (auto simp: Let_def)
    have "chain (disk_of (set_disk s disk ?g) disk) ?x ms" using times_set_chain [OF g x(2)] by simp
    moreover have "device_ok (set_disk s disk ?g) disk" using Cons.prems(1) sec sh by simp
    ultimately obtain f' where f': "set_time_chain ft disk ?x (set_disk s disk ?g) =
        Some (Inr (), set_disk s disk f')" "times_set ?g ft (set ms) f'"
      using Cons.IH [of "set_disk s disk ?g" ?x] by auto
    have "times_set ?f ft (set (m # ms)) f'"
    proof -
      have "entry_at f' k = (if \<exists>n \<in> set (m # ms). k = unat n then (entry_at ?f k)\<lparr>e_time := ft\<rparr> else entry_at ?f k)"
        if "k < table_limit" for k
        using f'(2) g that n(1) by (auto simp: times_set_def)
      moreover have "\<exists>n \<in> set (m # ms). n < ERROR_ANY \<and> y = of_nat (2 + unat n)" if "f' y \<noteq> ?f y" for y
      proof (cases "f' y = ?g y")
        case True
        then have "?g y \<noteq> ?f y" using that by simp
        then show ?thesis using g n(1) unfolding times_set_def by auto
      next
        case False
        then show ?thesis using f'(2) unfolding times_set_def by auto
      qed
      ultimately show ?thesis using f'(2) by (auto simp: times_set_def)
    qed
    then show ?thesis using step x(1) f'(1) by auto
  qed
qed simp

subsection \<open>Lookups that do not see a change\<close>

text \<open>
  Two images agree on lookups when they have the same number of entries and every entry matches the
  same names. A path then leads to the same index.
\<close>

definition same_names :: "(u16 \<Rightarrow> u8 list) \<Rightarrow> (u16 \<Rightarrow> u8 list) \<Rightarrow> bool" where
  "same_names f f' \<longleftrightarrow> entries_of f' = entries_of f \<and>
     (\<forall>k < entries_of f. \<forall>name parent.
        entry_matches name parent (entry_at f' k) = entry_matches name parent (entry_at f k))"

lemma first_same_names:
  assumes "same_names f f'"
  shows "table.first (entry_matches name parent) f' (entries_of f') =
    table.first (entry_matches name parent) f (entries_of f)"
  using assms unfolding table.first_def same_names_def by (intro find_cong) auto

definition found_in :: "(u16 \<Rightarrow> u8 list) \<Rightarrow> u16 + (u16 \<times> sfs_entry) \<Rightarrow> u16 + (u16 \<times> sfs_entry)" where
  "found_in f r = map_sum id (\<lambda>(n, e). (n, entry_at f (unat n))) r"

lemma lookup_same_names:
  assumes "mounted s disk" "mounted s' disk" "same_names (disk_of s disk) (disk_of s' disk)"
  shows "lookup_entry s' name parent disk = found_in (disk_of s' disk) (lookup_entry s name parent disk)"
proof -
  have "k < entries_of (disk_of s disk) \<Longrightarrow> unat (of_nat k :: u16) = k" for k
    using assms(1) by (intro unat_of_nat_u16) (simp add: mounted_def)
  moreover have "table.first (entry_matches name parent) (disk_of s disk) (entries_of (disk_of s disk)) = Some k \<Longrightarrow>
      k < entries_of (disk_of s disk)" for k by (simp add: table.first_Some_iff)
  ultimately show ?thesis
    by (simp add: lookup_entry_ok [OF assms(1)] lookup_entry_ok [OF assms(2)] first_same_names [OF assms(3)]
        found_in_def split: option.split)
qed

lemma walk_same_names:
  assumes "mounted s disk" "mounted s' disk" "same_names (disk_of s disk) (disk_of s' disk)"
  shows "walk_dirs s' disk parent cs = walk_dirs s disk parent cs"
  by (induction cs arbitrary: parent)
    (auto simp: lookup_same_names [OF assms] found_in_def split: sum.splits)

lemma resolve_same_names:
  assumes "mounted s disk" "mounted s' disk" "same_names (disk_of s disk) (disk_of s' disk)"
  shows "resolve s' disk cs = found_in (disk_of s' disk) (resolve s disk cs)"
  by (simp add: resolve_def walk_same_names [OF assms] lookup_same_names [OF assms] found_in_def
      split: sum.splits)

text \<open>\<open>denotes s p disk cs\<close>: the path \<open>p\<close>, relative or absolute, is the components \<open>cs\<close> on \<open>disk\<close>.\<close>

definition denotes :: "fs_state \<Rightarrow> u8 list \<Rightarrow> u16 \<Rightarrow> u8 list list \<Rightarrow> bool" where
  "denotes s p disk cs \<longleftrightarrow> cs \<noteq> [] \<and> list_all component cs \<and> disk_names_ok s \<and> length p \<le> 63 \<and>
     ((p = join cs \<and> \<not> string_is_disk s (hd cs) \<and> disk = ucast (system_disk s)) \<or>
      (\<exists>d. p = join (d # cs) \<and> string_is_disk s d \<and> disk = string_to_disk s d \<and> disk \<noteq> UNKNOWN_VALUE))"

lemma denotes_get:
  assumes "denotes s p disk cs"
  shows "fs_get_entry s p UNKNOWN_VALUE UNKNOWN_VALUE = resolve s disk cs" "path_get_disk s p = disk"
proof -
  from assms have c: "cs \<noteq> []" "list_all component cs" "disk_names_ok s" "length p \<le> 63"
    by (simp_all add: denotes_def)
  consider (rel) "p = join cs" "\<not> string_is_disk s (hd cs)" "disk = ucast (system_disk s)"
    | (abs) d where "p = join (d # cs)" "string_is_disk s d" "disk = string_to_disk s d"
      "disk \<noteq> UNKNOWN_VALUE" using assms unfolding denotes_def by blast
  then have "fs_get_entry s p UNKNOWN_VALUE UNKNOWN_VALUE = resolve s disk cs \<and> path_get_disk s p = disk"
  proof cases
    case rel
    then show ?thesis using c fs_get_entry_relative [OF c(1,2) rel(2) c(3)] path_get_disk_join [OF c(1,2), of s]
      by (simp del: UNKNOWN_VALUE_def)
  next
    case abs
    have d: "component d" using c(3) abs(2) by (simp add: disk_names_ok_def)
    then show ?thesis
      using abs c fs_get_entry_absolute [OF c(1-3) abs(2)] path_get_disk_join [of "d # cs" s]
      by (simp del: UNKNOWN_VALUE_def)
  qed
  then show "fs_get_entry s p UNKNOWN_VALUE UNKNOWN_VALUE = resolve s disk cs" "path_get_disk s p = disk"
    by simp_all
qed

lemma denotes_cong:
  assumes "disk_info s' = disk_info s" "hw s' = hw s" "system_disk s' = system_disk s"
  shows "denotes s' p disk cs = denotes s p disk cs"
proof -
  have "string_is_disk s' = string_is_disk s" "string_to_disk s' = string_to_disk s"
    using assms by (simp_all add: fun_eq_iff string_is_disk_def string_to_disk_def disk_to_string_def
        index_to_disk_def cong: if_cong option.case_cong)
  then show ?thesis using assms(3) by (simp add: denotes_def disk_names_ok_def)
qed


subsection \<open>Writing and reading back\<close>

text \<open>
  A file laid out as the code expects: \<open>k\<close> blocks in one entry, enough for its size, all different
  and outside the entry table; the entries of its chain are in the table and have terminated names.
\<close>

definition laid_out :: "(u16 \<Rightarrow> u8 list) \<Rightarrow> u16 \<Rightarrow> nat \<Rightarrow> u16 list \<Rightarrow> bool" where
  "laid_out f n k ns \<longleftrightarrow>
     (let e = entry_at f (unat n)
      in entry_is e T_FILE \<and> \<not> entry_is e T_DIR \<and> k \<le> 120 \<and> unat (e_size e) \<le> 512 * k \<and>
         distinct (blocks_of e k) \<and> list_all (\<lambda>b. 2 + entries_of f \<le> unat b) (blocks_of e k) \<and>
         chain f n ns \<and> list_all (\<lambda>m. unat m < entries_of f \<and> 0 \<in> set (e_name (entry_at f (unat m)))) ns)"

lemma entries_frame:
  assumes "\<And>x. unat x < 2 + entries_of f \<Longrightarrow> f' x = f x" "entries_of f \<le> table_limit"
  shows "entries_of f' = entries_of f" "superblock_of f' = superblock_of f"
    "k < entries_of f \<Longrightarrow> entry_at f' k = entry_at f k"
proof -
  have "f' 1 = f 1" by (rule assms(1)) simp
  then show "entries_of f' = entries_of f" "superblock_of f' = superblock_of f"
    by (simp_all add: entries_of_def superblock_of_def)
  assume k: "k < entries_of f"
  then have "unat (of_nat (2 + k) :: u16) = 2 + k" using assms(2) by (intro unat_of_nat_u16) simp
  then have "f' (of_nat (2 + k)) = f (of_nat (2 + k))" using k by (intro assms(1)) simp
  then show "entry_at f' k = entry_at f k" by (simp add: entry_at_def)
qed

lemma entry_matches_time:
  "0 \<in> set (e_name e) \<Longrightarrow> entry_matches name parent (e\<lparr>e_time := ft\<rparr>) = entry_matches name parent e"
  by (simp add: entry_matches_def entry_used_def entry_name_terminated)

lemma times_set_names:
  assumes "times_set f ft (set ns) f'" "entries_of f \<le> table_limit"
    "list_all (\<lambda>m. unat m < entries_of f \<and> 0 \<in> set (e_name (entry_at f (unat m)))) ns"
  shows "same_names f f'"
proof -
  have "f' 1 = f 1"
  proof (rule ccontr)
    assume "f' 1 \<noteq> f 1"
    then obtain n where n: "n < ERROR_ANY" "(1 :: u16) = of_nat (2 + unat n)"
      using assms(1) unfolding times_set_def by blast
    have "2 + unat n = unat (of_nat (2 + unat n) :: u16)" by (rule entry_place(2) [OF n(1), symmetric])
    also have "\<dots> = unat (1 :: u16)" by (rule arg_cong [OF n(2) [symmetric]])
    finally show False by simp
  qed
  then have "entries_of f' = entries_of f" by (simp add: entries_of_def superblock_of_def)
  moreover have "entry_matches name parent (entry_at f' k) = entry_matches name parent (entry_at f k)"
    if "k < entries_of f" for k name parent
    using that assms entry_matches_time by (auto simp: times_set_def list_all_iff)
  ultimately show ?thesis by (simp add: same_names_def)
qed

lemma chain_frame:
  assumes "\<And>j. j < entries_of f \<Longrightarrow> entry_at f' j = entry_at f j"
  shows "chain f n ns \<Longrightarrow> list_all (\<lambda>m. unat m < entries_of f) ns \<Longrightarrow> chain f' n ns"
  using assms by (induction ns arbitrary: n) (auto simp: Let_def)

text \<open>Stamping a file with the current time changes nothing but the times of its chain.\<close>

lemma stamp_ok:
  assumes m: "mounted s disk" and ch: "chain (disk_of s disk) n ns"
  defines "f \<equiv> disk_of s disk"
  assumes ns: "list_all (\<lambda>m. unat m < entries_of f \<and> 0 \<in> set (e_name (entry_at f (unat m)))) ns"
  shows "\<exists>s' t. set_entry_time_to_current disk n s = Some (Inr (), s') \<and> mounted s' disk \<and>
    disk_info s' = disk_info s \<and> hw s' = hw s \<and> system_disk s' = system_disk s \<and>
    same_names f (disk_of s' disk) \<and> entry_at (disk_of s' disk) (unat n) = (entry_at f (unat n))\<lparr>e_time := t\<rparr> \<and>
    chain (disk_of s' disk) n ns \<and>
    (\<forall>j < entries_of f. \<exists>t. entry_at (disk_of s' disk) j = (entry_at f j)\<lparr>e_time := t\<rparr>) \<and>
    (\<forall>j < entries_of f. of_nat j \<notin> set ns \<longrightarrow> entry_at (disk_of s' disk) j = entry_at f j) \<and>
    superblock_of (disk_of s' disk) = superblock_of f \<and>
    (\<forall>x. 2 + entries_of f \<le> unat x \<longrightarrow> disk_of s' disk x = f x)"
proof -
  have lim: "entries_of f \<le> 65531" using m by (simp add: mounted_def f_def)
  obtain tm s1 where time: "current_time s = (tm, s1)" by (cases "current_time s")
  let ?ft = "fs_systime_to_fstime tm"
  have s1: "s1 = s\<lparr>clock := clock s + 1\<rparr>" using time by (simp add: current_time_def split: prod.splits)
  then have dev: "device_ok s1 disk" and d: "disk_of s1 disk = f" using m by (simp_all add: mounted_device f_def)
  obtain f2 where f2: "set_time_chain ?ft disk n s1 = Some (Inr (), set_disk s1 disk f2)"
      "times_set f ?ft (set ns) f2"
    using set_time_chain_ok [OF dev, of n ns ?ft] d ch f_def by auto
  have names: "same_names f f2" using f2(2) lim ns by (intro times_set_names) simp_all
  have sec: "sectors_ok f2" using f2(2) by (simp add: times_set_def)
  have m': "mounted (set_disk s1 disk f2) disk"
    using dev sec names lim by (simp add: mounted_def same_names_def)
  have "unat n < entries_of f" "n \<in> set ns" using ch ns by (cases ns; auto)+
  then have "entry_at f2 (unat n) = (entry_at f (unat n))\<lparr>e_time := ?ft\<rparr>"
    using f2(2) lim by (auto simp: times_set_def)
  moreover have "f2 x = f x" if "2 + entries_of f \<le> unat x" for x
  proof (rule ccontr)
    assume "f2 x \<noteq> f x"
    then obtain j where j: "j \<in> set ns" "j < ERROR_ANY" "x = of_nat (2 + unat j)"
      using f2(2) unfolding times_set_def by blast
    then have "unat x = 2 + unat j" by (simp only: entry_place(2))
    moreover have "unat j < entries_of f" using j(1) ns by (auto simp: list_all_iff)
    ultimately show False using that by simp
  qed
  moreover have "chain f2 n ns" using times_set_chain [OF f2(2)] ch f_def by simp
  moreover have "\<exists>t. entry_at f2 j = (entry_at f j)\<lparr>e_time := t\<rparr>" if "j < entries_of f" for j
  proof -
    have "entry_at f2 j = (entry_at f j)\<lparr>e_time := if \<exists>n \<in> set ns. j = unat n then ?ft else e_time (entry_at f j)\<rparr>"
      using f2(2) lim that by (auto simp: times_set_def)
    then show ?thesis by blast
  qed
  moreover have "entry_at f2 j = entry_at f j" if "j < entries_of f" "of_nat j \<notin> set ns" for j
  proof -
    have "\<not> (\<exists>n \<in> set ns. j = unat n)" using that(2) by auto
    then show ?thesis using f2(2) lim that(1) by (auto simp: times_set_def)
  qed
  moreover have "superblock_of f2 = superblock_of f"
  proof -
    have "f2 1 = f 1"
    proof (rule ccontr)
      assume "f2 1 \<noteq> f 1"
      then obtain j where j: "j < ERROR_ANY" "(1 :: u16) = of_nat (2 + unat j)"
        using f2(2) unfolding times_set_def by blast
      then show False using block_of_entry by blast
    qed
    then show ?thesis by (simp add: superblock_of_def)
  qed
  ultimately show ?thesis using time f2(1) m' names s1
    by (intro exI [of _ "set_disk s1 disk f2"] exI [of _ ?ft]) (simp add: set_entry_time_to_current_def)
qed

text \<open>The last part of \<open>fs_write_file\<close>, on a file that has its size: the data and the time.\<close>

definition store_data :: "u16 \<Rightarrow> u16 \<Rightarrow> sfs_entry \<Rightarrow> u16 \<Rightarrow> u16 \<Rightarrow> u8 list \<Rightarrow> u8 list \<Rightarrow> (u16 \<times> u8 list) fsm" where
  "store_data disk n e offset count buff path =
     bindE (write_loop disk e offset count 0 buff) (\<lambda>r. case r of
       Inl c \<Rightarrow> ret (c, path)
     | Inr written \<Rightarrow> bindE (set_entry_time_to_current disk n) (\<lambda>_. ret (written, path)))"

lemma store_data_ok:
  assumes m: "mounted s disk"
  defines "f \<equiv> disk_of s disk"
  assumes e: "e = entry_at f (unat n)" and lay: "laid_out f n k ns"
    and fit: "unat offset + unat count \<le> unat (e_size e)" "unat count \<le> length buff"
  shows "\<exists>s' t. store_data disk n e offset count buff path s = Some (Inr (count, path), s') \<and>
    mounted s' disk \<and> disk_info s' = disk_info s \<and> hw s' = hw s \<and> system_disk s' = system_disk s \<and>
    same_names f (disk_of s' disk) \<and>
    file_bytes (disk_of s' disk) (blocks_of e k) =
      splice (unat offset) (take (unat count) buff) (file_bytes f (blocks_of e k)) \<and>
    entry_at (disk_of s' disk) (unat n) = e\<lparr>e_time := t\<rparr> \<and> laid_out (disk_of s' disk) n k ns \<and>
    (\<forall>j < entries_of f. \<exists>t. entry_at (disk_of s' disk) j = (entry_at f j)\<lparr>e_time := t\<rparr>) \<and>
    (\<forall>j < entries_of f. of_nat j \<notin> set ns \<longrightarrow> entry_at (disk_of s' disk) j = entry_at f j) \<and>
    superblock_of (disk_of s' disk) = superblock_of f \<and>
    (\<forall>x. x \<notin> set (blocks_of e k) \<longrightarrow> 2 + entries_of f \<le> unat x \<longrightarrow> disk_of s' disk x = f x)"
proof -
  have dev: "device_ok s disk" and sec: "sectors_ok f" and lim: "entries_of f \<le> 65531"
    using m by (simp_all add: mounted_def f_def device_ok_sectors)
  have sh: "entry_shape e" using entry_at_shape [OF sec] e by simp
  have lay': "entry_is e T_FILE" "\<not> entry_is e T_DIR" "k \<le> 120" "unat (e_size e) \<le> 512 * k"
    "distinct (blocks_of e k)" "\<And>b. b \<in> set (blocks_of e k) \<Longrightarrow> 2 + entries_of f \<le> unat b"
    "chain f n ns"
    "list_all (\<lambda>m. unat m < entries_of f \<and> 0 \<in> set (e_name (entry_at f (unat m)))) ns"
    using lay e by (simp_all add: laid_out_def Let_def list_all_iff)
  obtain f1 where f1: "write_loop disk e offset count 0 buff s = Some (Inr (Inr count), set_disk s disk f1)"
      "sectors_ok f1" "file_bytes f1 (blocks_of e k) =
        splice (unat offset) (take (unat count) buff) (file_bytes f (blocks_of e k))"
      "\<And>x. x \<notin> set (blocks_of e k) \<Longrightarrow> f1 x = f x"
    using write_loop_ok [OF dev sh lay'(3,5), of offset count buff 0] fit lay'(4) f_def by auto
  have "f1 x = f x" if "unat x < 2 + entries_of f" for x
    using f1(4) lay'(6) that by (meson not_le)
  note same = entries_frame [of f f1, OF this]
  have ents: "entries_of f1 = entries_of f" "\<And>j. j < entries_of f \<Longrightarrow> entry_at f1 j = entry_at f j"
      "superblock_of f1 = superblock_of f"
    using same lim by simp_all
  have ch: "chain f1 n ns" using lay'(7,8) by (intro chain_frame [OF ents(2)]) (auto simp: list_all_iff)
  have ns: "list_all (\<lambda>m. unat m < entries_of f1 \<and> 0 \<in> set (e_name (entry_at f1 (unat m)))) ns"
    using lay'(8) ents by (auto simp: list_all_iff)
  have n: "entry_at f1 (unat n) = e" using ents(2) e lay'(7,8) by (cases ns) auto
  let ?s1 = "set_disk s disk f1"
  have m1: "mounted ?s1 disk" using dev f1(2) ents(1) lim by (simp add: mounted_def)
  obtain s' t where s': "set_entry_time_to_current disk n ?s1 = Some (Inr (), s')" "mounted s' disk"
      "disk_info s' = disk_info s" "hw s' = hw s" "system_disk s' = system_disk s"
      "same_names f1 (disk_of s' disk)" "entry_at (disk_of s' disk) (unat n) = e\<lparr>e_time := t\<rparr>"
      "\<And>x. 2 + entries_of f \<le> unat x \<Longrightarrow> disk_of s' disk x = f1 x"
      "chain (disk_of s' disk) n ns"
      "\<And>j. j < entries_of f \<Longrightarrow> \<exists>t. entry_at (disk_of s' disk) j = (entry_at f1 j)\<lparr>e_time := t\<rparr>"
      "\<And>j. j < entries_of f \<Longrightarrow> of_nat j \<notin> set ns \<Longrightarrow> entry_at (disk_of s' disk) j = entry_at f1 j"
      "superblock_of (disk_of s' disk) = superblock_of f1"
    using stamp_ok [OF m1, of n ns] ch ns n ents(1) by auto
  have names: "same_names f (disk_of s' disk)" using ents s'(6) by (simp add: same_names_def)
  have "file_bytes (disk_of s' disk) (blocks_of e k) = file_bytes f1 (blocks_of e k)"
    unfolding file_bytes_def using lay'(6) s'(8) by (intro arg_cong [of _ _ concat]) simp
  moreover have "laid_out (disk_of s' disk) n k ns"
  proof -
    have "entries_of (disk_of s' disk) = entries_of f" using names by (simp add: same_names_def)
    moreover have "unat m < entries_of f \<and> 0 \<in> set (e_name (entry_at (disk_of s' disk) (unat m)))" if m: "m \<in> set ns" for m
    proof -
      have "unat m < entries_of f" "0 \<in> set (e_name (entry_at f (unat m)))" using lay'(8) m by (auto simp: list_all_iff)
      then show ?thesis using s'(10) [of "unat m"] ents(2) by auto
    qed
    ultimately show ?thesis using lay' s'(7,9)
      by (simp add: laid_out_def Let_def blocks_of_def entry_is_def list_all_iff)
  qed
  moreover have "store_data disk n e offset count buff path s = Some (Inr (count, path), s')"
    using f1(1) s'(1) by (simp add: store_data_def)
  ultimately show ?thesis using s'(2-5,7,8,10-12) names ents(2,3) f1(3,4)
    by (intro exI [of _ s'] exI [of _ t]) simp
qed

lemma overwrite_ok:
  assumes m: "mounted s disk" and path: "denotes s path disk cs" "resolve s disk cs = Inr (n, e)"
  defines "f \<equiv> disk_of s disk"
  assumes e: "e = entry_at f (unat n)" and lay: "laid_out f n k ns"
    and fit: "unat offset + unat count \<le> unat (e_size e)" "unat count \<le> length buff"
      "flags AND WF_TRUNCATE = 0"
  shows "\<exists>s' t. fs_write_file buff path offset count flags s = Some (Inr (count, path), s') \<and>
    mounted s' disk \<and> denotes s' path disk cs \<and> resolve s' disk cs = Inr (n, e\<lparr>e_time := t\<rparr>) \<and>
    file_bytes (disk_of s' disk) (blocks_of e k) =
      splice (unat offset) (take (unat count) buff) (file_bytes f (blocks_of e k)) \<and>
    entry_at (disk_of s' disk) (unat n) = e\<lparr>e_time := t\<rparr> \<and> laid_out (disk_of s' disk) n k ns \<and>
    entries_of (disk_of s' disk) = entries_of f \<and>
    (\<forall>x. x \<notin> set (blocks_of e k) \<longrightarrow> 2 + entries_of f \<le> unat x \<longrightarrow> disk_of s' disk x = f x)"
proof -
  obtain s' t where s': "store_data disk n e offset count buff path s = Some (Inr (count, path), s')" "mounted s' disk"
      "disk_info s' = disk_info s" "hw s' = hw s" "system_disk s' = system_disk s" "same_names f (disk_of s' disk)"
      "file_bytes (disk_of s' disk) (blocks_of e k) = splice (unat offset) (take (unat count) buff) (file_bytes f (blocks_of e k))"
      "entry_at (disk_of s' disk) (unat n) = e\<lparr>e_time := t\<rparr>" "laid_out (disk_of s' disk) n k ns"
      "\<forall>x. x \<notin> set (blocks_of e k) \<longrightarrow> 2 + entries_of f \<le> unat x \<longrightarrow> disk_of s' disk x = f x"
    using store_data_ok [OF m, folded f_def, OF e lay fit(1,2), of path] by blast
  have lay': "\<not> entry_is e T_DIR" "k \<le> 120" "unat (e_size e) \<le> 512 * k"
    using lay e by (simp_all add: laid_out_def Let_def)
  have oc: "unat (offset + count) = unat offset + unat count"
    using fit(1) lay'(2,3) by (intro unat_plus_u16) simp
  have grow: "\<not> e_size e < ucast (offset + count)"
    using fit(1) oc by (simp add: word_less_nat_alt)
  have run: "fs_write_file buff path offset count flags s = Some (Inr (count, path), s')"
    using denotes_get [OF path(1)] path(2) lay'(1) grow fit(3) s'(1)
    by (simp add: fs_write_file_def store_data_def bindE_def ret_def grow_file_def shrink_file_def
        del: UNKNOWN_VALUE_def T_DIR_def WF_TRUNCATE_def)
  have "resolve s' disk cs = Inr (n, e\<lparr>e_time := t\<rparr>)"
    using resolve_same_names [OF m s'(2)] s'(6) path(2) f_def s'(8) by (simp add: found_in_def)
  moreover have "denotes s' path disk cs" using path(1) s'(3-5) denotes_cong [of s' s] by simp
  moreover have "entries_of (disk_of s' disk) = entries_of f" using s'(6) by (simp add: same_names_def)
  ultimately show ?thesis using run s'(2,7-10) by blast
qed

lemma contents_blocks:
  assumes "sectors_ok f" "unat (e_size e) \<le> 512 * k" "k \<le> 120" "entry_shape e"
  shows "contents f e = take (unat (e_size e)) (file_bytes f (blocks_of e k))"
proof -
  have "blocks_of e 120 = blocks_of e k @ map ucast (take (120 - k) (drop k (e_ref e)))"
    using take_add [of k "120 - k" "e_ref e"] assms(3) by (simp add: blocks_of_def)
  moreover have "length (blocks_of e k) = k" using assms(3,4) by (simp add: blocks_of_def entry_shape_def)
  ultimately show ?thesis using assms(1,2) by (simp add: contents_def) (simp add: file_bytes_def [of f "_ @ _"] file_bytes_def [symmetric])
qed

lemma take_splice:
  assumes "off + length d \<le> m" "m \<le> length c"
  shows "take m (splice off d c) = splice off d (take m c)"
proof -
  have "m - off - length d = m - (off + length d)" by simp
  moreover have "off = m \<or> off < m" using assms(1) by auto
  ultimately show ?thesis using assms by (auto simp: splice_def drop_take min_def)
qed

lemma demo_denotes: "denotes demo_fs (bytes ''a'') 0 [bytes ''a'']"
  by (simp add: denotes_def component_def disk_names_ok_def demo_fs_def demo_string_is_disk)
    (simp add: demo_state_def)

lemma demo_a: "resolve demo_fs 0 [bytes ''a''] = Inr (1, demo_entries ! 1)"
proof -
  have "table.first (entry_matches (bytes ''a'') 0) (image_of demo_sb demo_entries) 4 = Some 1"
    by (simp add: table.first_Some_iff demo_a_matches)
      (simp add: mk_entry_def entry_matches_def entry_used_def entry_name_terminated zero_entry_def cstring_def)
  then show ?thesis by (simp add: resolve_def lookup_entry_ok)
qed

lemma demo_laid_out: "laid_out (image_of demo_sb demo_entries) 1 2 [1]"
  by (simp add: laid_out_def Let_def)
    (simp add: mk_entry_def zero_entry_def entry_is_def blocks_of_def)

subsection \<open>Properties\<close>

text \<open>
  Reading a file that fits in one table entry (up to 120 blocks) returns exactly the bytes of its
  contents from \<open>offset\<close> on, at most \<open>count\<close> of them and none past its size, and the number of bytes
  read.
\<close>

lemma fs_read_file_contents:
  assumes "device_ok s disk" "entry_shape e"
    and "path_get_disk s path = disk" "fs_get_entry s path UNKNOWN_VALUE UNKNOWN_VALUE = Inr (n, e)"
    and "entry_is e T_FILE" "unat (e_size e) \<le> 61440"
  shows "fs_read_file s path offset count =
    (let data = take (unat count) (drop (unat offset) (contents (disk_of s disk) e))
     in Inr (of_nat (length data), data))"
  by (rule read_contents [OF assms])

text \<open>
  C6: Overwriting a range inside a laid out file of at most 120 blocks, without the truncate flag,
  writes all the bytes and nothing but them: \<open>fs_write_file\<close> returns \<open>count\<close>, reading any range of the
  file through the same path afterwards returns that range of the old contents with the bytes
  replaced, so reading the written range returns what was written; no block outside the file and
  the entry table has changed. The path may be relative or absolute and of any depth.
\<close>

theorem write_then_read:
  assumes "mounted s disk" "denotes s path disk cs" "resolve s disk cs = Inr (n, e)"
  defines "f \<equiv> disk_of s disk"
  assumes "e = entry_at f (unat n)" "laid_out f n k ns"
    and "unat offset + unat count \<le> unat (e_size e)" "unat count \<le> length buff"
      "flags AND WF_TRUNCATE = 0"
  shows "\<exists>s'. fs_write_file buff path offset count flags s = Some (Inr (count, path), s') \<and>
    fs_read_file s' path offset count = Inr (count, take (unat count) buff) \<and>
    (\<forall>o' c'. fs_read_file s' path o' c' =
       (let data = take (unat c') (drop (unat o') (splice (unat offset) (take (unat count) buff) (contents f e)))
        in Inr (of_nat (length data), data))) \<and>
    (\<forall>x. x \<notin> set (blocks_of e k) \<and> 2 + entries_of f \<le> unat x \<longrightarrow> disk_of s' disk x = f x)"
proof -
  obtain s' t where s': "fs_write_file buff path offset count flags s = Some (Inr (count, path), s')"
      "mounted s' disk" "denotes s' path disk cs" "resolve s' disk cs = Inr (n, e\<lparr>e_time := t\<rparr>)"
      "file_bytes (disk_of s' disk) (blocks_of e k) =
        splice (unat offset) (take (unat count) buff) (file_bytes f (blocks_of e k))"
      "\<And>x. x \<notin> set (blocks_of e k) \<Longrightarrow> 2 + entries_of f \<le> unat x \<Longrightarrow> disk_of s' disk x = f x"
    using overwrite_ok [OF assms(1-3)] assms(4-) by metis
  have sec: "sectors_ok f" "sectors_ok (disk_of s' disk)" and dev: "device_ok s' disk"
    using assms(1) s'(2) by (simp_all add: assms(4) mounted_sectors mounted_device)
  have lay: "k \<le> 120" "unat (e_size e) \<le> 512 * k" "entry_is e T_FILE"
    using assms(5,6) by (simp_all add: laid_out_def Let_def)
  have sh: "entry_shape e" using entry_at_shape [OF sec(1)] assms(5) by simp
  let ?e = "e\<lparr>e_time := t\<rparr>" and ?new = "splice (unat offset) (take (unat count) buff) (contents f e)"
  have "length (blocks_of e k) = k" using lay(1) sh by (simp add: blocks_of_def entry_shape_def)
  then have "length (file_bytes f (blocks_of e k)) = 512 * k" using sec(1) by simp
  then have cont: "contents (disk_of s' disk) ?e = ?new" "unat (e_size e) = length (contents f e)"
    using contents_blocks [OF sec(2), of ?e k] contents_blocks [OF sec(1) lay(2,1) sh] s'(5) lay sh assms(7,8)
    by (simp_all add: blocks_of_def take_splice)
  have read: "fs_read_file s' path o' c' =
      (let data = take (unat c') (drop (unat o') ?new) in Inr (of_nat (length data), data))" for o' c'
    using read_contents [OF dev, of ?e path n o' c'] denotes_get [OF s'(3)] s'(4) sh lay cont
    by (simp add: entry_is_def del: UNKNOWN_VALUE_def)
  have "take (unat count) (drop (unat offset) ?new) = take (unat count) buff"
    using assms(7,8) cont(2) by (simp add: splice_def)
  then have "fs_read_file s' path offset count = Inr (count, take (unat count) buff)"
    by (simp only: read Let_def) (simp add: assms(8))
  then show ?thesis using s'(1,6) read by (intro exI [of _ s']) blast
qed

theorem write_then_read_witness:
  "\<exists>s'. fs_write_file [1, 2, 3] (bytes ''a'') 510 3 0 demo_fs = Some (Inr (3, bytes ''a''), s') \<and>
     fs_read_file s' (bytes ''a'') 510 3 = Inr (3, [1, 2, 3])"
proof -
  have "unat (e_size (demo_entries ! 1)) = 600" by (simp add: mk_entry_def)
  then show ?thesis
    using write_then_read [OF demo_mounted demo_denotes demo_a, of 2 "[1]" 510 3 "[1, 2, 3]" 0] demo_laid_out
    by auto
qed

end
