(* ===== verification/File_Calls.thy ===== *)
theory File_Calls
  imports Ulib_Calls Fs_Contents
begin

section \<open>Files through system calls\<close>

text \<open>
  The library, the system call, the loop of the kernel over blocks and the file system together: what a program
  reads with \<open>read_file\<close> is the contents of the file, what it writes with \<open>write_file\<close> inside a file is what
  it reads back, for any number of blocks.
\<close>

text \<open>The path leads to a file of the right layout.\<close>

definition file_at :: "fs_state \<Rightarrow> u8 list \<Rightarrow> u16 \<Rightarrow> u8 list list \<Rightarrow> u16 \<Rightarrow> sfs_entry \<Rightarrow> nat \<Rightarrow> u16 list \<Rightarrow> bool" where
  "file_at f path disk cs n e k ns \<longleftrightarrow> mounted f disk \<and> denotes f path disk cs \<and> resolve f disk cs = Inr (n, e) \<and>
     e = entry_at (disk_of f disk) (unat n) \<and> laid_out (disk_of f disk) n k ns"

lemma file_at_facts:
  assumes "file_at f path disk cs n e k ns"
  shows "device_ok f disk" "sectors_ok (disk_of f disk)" "entry_shape e" "entry_is e T_FILE" "k \<le> 120"
    "unat (e_size e) \<le> 512 * k" "unat (e_size e) \<le> 61440"
    "length (contents (disk_of f disk) e) = unat (e_size e)"
proof -
  show "device_ok f disk" "sectors_ok (disk_of f disk)" "entry_is e T_FILE"
    using assms by (simp_all add: file_at_def mounted_device mounted_sectors laid_out_def Let_def)
  then show sh: "entry_shape e" using assms by (simp add: file_at_def entry_at_shape)
  show k: "k \<le> 120" "unat (e_size e) \<le> 512 * k" using assms by (simp_all add: file_at_def laid_out_def Let_def)
  then show "unat (e_size e) \<le> 61440" by simp
  then show "length (contents (disk_of f disk) e) = unat (e_size e)"
    using sh \<open>sectors_ok (disk_of f disk)\<close> by (simp add: contents_def blocks_of_def entry_shape_def)
qed

lemma file_at_read:
  assumes "file_at f path disk cs n e k ns"
  shows "fs_read_file f path offset count =
    (let data = take (unat count) (drop (unat offset) (contents (disk_of f disk) e))
     in Inr (of_nat (length data), data))"
proof -
  have "fs_get_entry f path UNKNOWN_VALUE UNKNOWN_VALUE = Inr (n, e)" "path_get_disk f path = disk"
    using assms denotes_get [of f path disk cs] by (simp_all add: file_at_def)
  then show ?thesis
    using read_contents [of f disk e path n] file_at_facts [OF assms] by blast
qed

lemma file_at_write:
  assumes "file_at f path disk cs n e k ns"
    and "unat offset + unat count \<le> unat (e_size e)" "length buff = unat count" "flags AND WF_TRUNCATE = 0"
  shows "\<exists>f' t. fs_write_file buff path offset count flags f = Some (Inr (count, path), f') \<and>
    file_at f' path disk cs n (e\<lparr>e_time := t\<rparr>) k ns \<and>
    contents (disk_of f' disk) (e\<lparr>e_time := t\<rparr>) = splice (unat offset) buff (contents (disk_of f disk) e) \<and>
    (\<forall>x. x \<notin> set (blocks_of e k) \<longrightarrow> 2 + entries_of (disk_of f disk) \<le> unat x \<longrightarrow> disk_of f' disk x = disk_of f disk x) \<and>
    entries_of (disk_of f' disk) = entries_of (disk_of f disk)"
proof -
  note fa = file_at_facts [OF assms(1)]
  have m: "mounted f disk" and d: "denotes f path disk cs" "resolve f disk cs = Inr (n, e)"
    and e: "e = entry_at (disk_of f disk) (unat n)" and lay: "laid_out (disk_of f disk) n k ns"
    using assms(1) by (simp_all add: file_at_def)
  obtain f' t where f': "fs_write_file buff path offset count flags f = Some (Inr (count, path), f')"
      "mounted f' disk" "denotes f' path disk cs" "resolve f' disk cs = Inr (n, e\<lparr>e_time := t\<rparr>)"
      "file_bytes (disk_of f' disk) (blocks_of e k) =
        splice (unat offset) (take (unat count) buff) (file_bytes (disk_of f disk) (blocks_of e k))"
      "entry_at (disk_of f' disk) (unat n) = e\<lparr>e_time := t\<rparr>" "laid_out (disk_of f' disk) n k ns"
      "entries_of (disk_of f' disk) = entries_of (disk_of f disk)"
      "\<forall>x. x \<notin> set (blocks_of e k) \<longrightarrow> 2 + entries_of (disk_of f disk) \<le> unat x \<longrightarrow> disk_of f' disk x = disk_of f disk x"
    using overwrite_ok [OF m d e lay assms(2) _ assms(4), of buff] assms(3) by auto
  have sec: "sectors_ok (disk_of f' disk)" using f'(2) by (simp add: mounted_sectors)
  have "length (blocks_of e k) = k" using fa(3,5) by (simp add: blocks_of_def entry_shape_def)
  then have "length (file_bytes (disk_of f disk) (blocks_of e k)) = 512 * k" using fa(2) by simp
  then have "contents (disk_of f' disk) (e\<lparr>e_time := t\<rparr>) = splice (unat offset) buff (contents (disk_of f disk) e)"
    using contents_blocks [OF sec, of "e\<lparr>e_time := t\<rparr>" k] contents_blocks [OF fa(2) fa(6,5,3)] f'(5) fa assms(2,3)
    by (simp add: blocks_of_def take_splice entry_shape_def)
  moreover have "file_at f' path disk cs n (e\<lparr>e_time := t\<rparr>) k ns" using f' by (simp add: file_at_def)
  ultimately show ?thesis using f'(1,8,9) by blast
qed

subsection \<open>Reading\<close>

lemma take_drop_suffix: "take c (drop o1 C) = xs \<Longrightarrow> i \<le> length xs \<Longrightarrow> take (c - i) (drop (o1 + i) C) = drop i xs"
  by (auto simp: drop_take add.commute)

lemma local_buff_full: "local_buff s (length b) b = b"
  by (simp add: local_buff_def junk_def)

lemma read_blocks_ok:
  fixes C :: "u8 list" and fi :: syscall_fsrwfile
  assumes read: "\<And>o1 c. fs_read_file F path o1 c = (let data = take (unat c) (drop (unat o1) C) in Inr (of_nat (length data), data))"
    and C: "length C \<le> 61440"
  defines "D \<equiv> take (unat (rw_count fi)) (drop (unat (rw_offset fi)) C)"
  shows "kfs s = F \<Longrightarrow> unat offset \<le> length D \<Longrightarrow> read_blocks fi path offset s = Some (of_nat (length D),
    s\<lparr>far := fput (far s) (rw_buff fi + ucast offset) (drop (unat offset) D)\<rparr>)"
proof (induction "length D - unat offset" arbitrary: offset s rule: less_induct)
  case less
  have lenD: "length D \<le> 61440" "length D \<le> unat (rw_count fi)" using C by (simp_all add: D_def)
  show ?case
  proof (cases "offset < rw_count fi")
    case False
    then have "unat offset = length D" using less.prems(2) lenD by (simp add: not_less word_le_nat_alt)
    moreover then have "of_nat (length D) = offset" by (metis of_nat_unat ucast_id)
    ultimately show ?thesis using False by (subst read_blocks.simps) (simp add: fput_def)
  next
    case True
    define c where "c = min16 BLOCK_SIZE (rw_count fi - offset)"
    define b where "b = take (unat c) (drop (unat offset) D)"
    have c: "0 < unat c" "unat c \<le> 512" "unat c \<le> unat (rw_count fi) - unat offset"
    proof -
      have "unat (rw_count fi - offset) = unat (rw_count fi) - unat offset"
        using True by (simp add: unat_sub word_less_nat_alt word_le_nat_alt)
      then show "0 < unat c" "unat c \<le> 512" "unat c \<le> unat (rw_count fi) - unat offset"
        using True by (auto simp: c_def unat_min16 word_less_nat_alt)
    qed
    have b_read: "fs_read_file F path (rw_offset fi + offset) c = Inr (of_nat (length b), b)"
    proof (cases "unat (rw_offset fi) < length C")
      case True
      then have "unat (rw_offset fi) + unat offset \<le> length C" using less.prems(2) by (auto simp: D_def)
      then have "unat (rw_offset fi + offset) = unat (rw_offset fi) + unat offset" using C by (intro unat_plus_u16) simp
      then have "take (unat c) (drop (unat (rw_offset fi + offset)) C) = b"
        using c(3) by (simp add: b_def D_def drop_take min_def add.commute)
      then show ?thesis by (simp add: read)
    next
      case False
      then have "D = []" "offset = 0" using less.prems(2) by (simp_all add: D_def unat_eq_0)
      then show ?thesis using False by (simp add: read b_def)
    qed
    have lenb: "length b \<le> 512" "length b \<le> length D - unat offset" using c by (simp_all add: b_def)
    then have ub: "unat (of_nat (length b) :: u16) = length b" by (intro unat_of_nat_u16) simp
    show ?thesis
    proof (cases "b = []")
      case True
      then have "unat offset = length D" using c(1) less.prems(2) by (simp add: b_def)
      moreover then have "of_nat (length D) = offset" by (metis of_nat_unat ucast_id)
      ultimately show ?thesis using \<open>offset < rw_count fi\<close> b_read True less.prems(1) c_def
        by (subst read_blocks.simps) (simp add: fput_def)
    next
      case False
      let ?n = "of_nat (length b) :: u16"
      let ?s = "s\<lparr>far := fput (far s) (rw_buff fi + ucast offset) b\<rparr>"
      have on: "unat (offset + ?n) = unat offset + length b"
        using ub lenb lenD less.prems(2) by (simp add: unat_plus_u16)
      have n: "\<not> ERROR_ANY \<le> ?n" "?n \<noteq> 0" using ub lenb False
        by (simp_all add: word_le_nat_alt unat_eq_0 [symmetric] del: unat_eq_0)
      have rec: "read_blocks fi path (offset + ?n) ?s = Some (of_nat (length D),
          ?s\<lparr>far := fput (far ?s) (rw_buff fi + ucast (offset + ?n)) (drop (unat (offset + ?n)) D)\<rparr>)"
        using less.prems lenb False on by (intro less.hyps) (simp_all add: length_greater_0_conv [symmetric] del: length_greater_0_conv, linarith?)
      have addr: "rw_buff fi + ucast (offset + ?n) = rw_buff fi + ucast offset + of_nat (length b)"
      proof -
        have "(ucast (offset + ?n) :: u32) = of_nat (unat offset + length b)" by (simp only: on [symmetric] of_nat_unat)
        then show ?thesis by simp
      qed
      have "fput (fput (far s) (rw_buff fi + ucast offset) b) (rw_buff fi + ucast offset + of_nat (length b)) (drop (unat offset + length b) D)
          = fput (far s) (rw_buff fi + ucast offset) (b @ drop (unat offset + length b) D)"
        using lenD lenb by (intro fput_after) simp_all
      also have "b @ drop (unat offset + length b) D = drop (unat offset) D"
      proof -
        have "b = take (length b) (drop (unat offset) D)"
          by (cases "unat c \<le> length D - unat offset") (simp_all add: b_def min_def)
        then show ?thesis by (metis append_take_drop_id drop_drop add.commute)
      qed
      finally show ?thesis using True b_read n rec less.prems(1) on addr c_def ub
        by (subst read_blocks.simps) (simp add: put_far_def local_buff_full)
    qed
  qed
qed

text \<open>Reading through the library.\<close>

lemma read_file_ok:
  fixes u :: program and offset count :: u16
  assumes fa: "file_at (kfs s) (path_at (far s) (lp (seg u) path)) disk cs n e k ns"
    and frame: "disjoint_ranges (param_at u) 14 (lp (seg u) path) MAX_PATH"
  defines "D \<equiv> take (unat count) (drop (unat offset) (contents (disk_of (kfs s) disk) e))"
  shows "\<exists>ps. length ps = 14 \<and> read_file u buff path offset count s =
    Some (of_nat (length D), s\<lparr>far := fput (fput (far s) (param_at u) ps) (lp (seg u) buff) D\<rparr>)"
proof -
  let ?rw = "\<lparr>rw_buff = lp (seg u) buff, rw_path = lp (seg u) path, rw_offset = offset, rw_count = count, rw_flags = 0\<rparr>"
  let ?m = "fput (far s) (param_at u) (fsrwfile_bytes ?rw)"
  have path: "path_at ?m (lp (seg u) path) = path_at (far s) (lp (seg u) path)"
    using frame by (simp add: path_at_def fget_beside)
  have "read_blocks ?rw (path_at (far s) (lp (seg u) path)) 0 (s\<lparr>far := ?m\<rparr>) =
      Some (of_nat (length D), (s\<lparr>far := ?m\<rparr>)\<lparr>far := fput (far (s\<lparr>far := ?m\<rparr>)) (rw_buff ?rw + ucast (0 :: u16)) (drop (unat (0 :: u16)) D)\<rparr>)"
    using read_blocks_ok [OF file_at_read [OF fa], where fi = ?rw and s = "s\<lparr>far := ?m\<rparr>" and offset = 0] file_at_facts [OF fa]
    by (simp add: D_def)
  then have "read_file u buff path offset count s =
      Some (of_nat (length D), s\<lparr>far := fput ?m (lp (seg u) buff) D\<rparr>)"
    using path by (simp add: read_file_def syscall_with_def syscall_def put_far_def kernel_service.simps
        file_service_def service_fs_read_file_def)
  then show ?thesis by (intro exI [of _ "fsrwfile_bytes ?rw"]) simp
qed

subsection \<open>Writing\<close>

lemma fget_append: "fget m a n @ fget m (a + of_nat n) k = fget m a (n + k)"
  by (rule nth_equalityI) (auto simp: nth_fget nth_append phys_add phys_of_nat)

lemma write_blocks_ok:
  fixes fi :: syscall_fsrwfile
  assumes "rw_flags fi AND WF_TRUNCATE = 0"
  shows "file_at (kfs s) path disk cs n e k ns \<Longrightarrow> unat (rw_offset fi) + unat (rw_count fi) \<le> unat (e_size e) \<Longrightarrow>
    unat offset \<le> unat (rw_count fi) \<Longrightarrow>
    \<exists>f' t. write_blocks fi path offset s = Some (rw_count fi, s\<lparr>kfs := f'\<rparr>) \<and>
      file_at f' path disk cs n (e\<lparr>e_time := t\<rparr>) k ns \<and>
      contents (disk_of f' disk) (e\<lparr>e_time := t\<rparr>) = splice (unat (rw_offset fi) + unat offset)
        (fget (far s) (rw_buff fi + ucast offset) (unat (rw_count fi) - unat offset)) (contents (disk_of (kfs s) disk) e) \<and>
      (\<forall>x. x \<notin> set (blocks_of e k) \<longrightarrow> 2 + entries_of (disk_of (kfs s) disk) \<le> unat x \<longrightarrow>
        disk_of f' disk x = disk_of (kfs s) disk x) \<and>
      entries_of (disk_of f' disk) = entries_of (disk_of (kfs s) disk)"
proof (induction "unat (rw_count fi) - unat offset" arbitrary: offset s e rule: less_induct)
  case less
  note fl = less.prems(1)
  note fa = file_at_facts [OF fl]
  show ?case
  proof (cases "offset < rw_count fi")
    case False
    then have "offset = rw_count fi" using less.prems(3) by (simp add: not_less word_le_nat_alt) (metis le_antisym word_unat_eq_iff)
    then have "write_blocks fi path offset s = Some (rw_count fi, s\<lparr>kfs := kfs s\<rparr>)"
      by (subst write_blocks.simps) simp
    moreover have "e\<lparr>e_time := e_time e\<rparr> = e" by simp
    ultimately show ?thesis using fl \<open>offset = rw_count fi\<close>
      by (intro exI [of _ "kfs s"] exI [of _ "e_time e"]) (simp add: splice_def fget_def)
  next
    case True
    define c where "c = min16 BLOCK_SIZE (rw_count fi - offset)"
    define b where "b = fget (far s) (rw_buff fi + ucast offset) (unat c)"
    have c: "0 < unat c" "unat c \<le> 512" "unat c \<le> unat (rw_count fi) - unat offset"
    proof -
      have "unat (rw_count fi - offset) = unat (rw_count fi) - unat offset"
        using True by (simp add: unat_sub word_less_nat_alt word_le_nat_alt)
      then show "0 < unat c" "unat c \<le> 512" "unat c \<le> unat (rw_count fi) - unat offset"
        using True by (auto simp: c_def unat_min16 word_less_nat_alt)
    qed
    have lt: "unat offset < unat (rw_count fi)" using True by (simp add: word_less_nat_alt)
    have o1: "unat (rw_offset fi + offset) = unat (rw_offset fi) + unat offset"
      using less.prems(2,3) fa(7) by (intro unat_plus_u16) simp
    have on: "unat (offset + c) = unat offset + unat c"
      using c(3) lt unat_u16_lt [of "rw_count fi"] by (intro unat_plus_u16) simp
    have "unat (rw_offset fi + offset) + unat c \<le> unat (e_size e)" using o1 c(3) lt less.prems(2) by linarith
    then obtain f1 t1 where f1: "fs_write_file b path (rw_offset fi + offset) c (rw_flags fi) (kfs s) = Some (Inr (c, path), f1)"
        "file_at f1 path disk cs n (e\<lparr>e_time := t1\<rparr>) k ns"
        "contents (disk_of f1 disk) (e\<lparr>e_time := t1\<rparr>) = splice (unat (rw_offset fi) + unat offset) b (contents (disk_of (kfs s) disk) e)"
        "\<And>x. x \<notin> set (blocks_of e k) \<Longrightarrow> 2 + entries_of (disk_of (kfs s) disk) \<le> unat x \<Longrightarrow> disk_of f1 disk x = disk_of (kfs s) disk x"
        "entries_of (disk_of f1 disk) = entries_of (disk_of (kfs s) disk)"
      using file_at_write [OF fl, of "rw_offset fi + offset" c b "rw_flags fi"] o1 assms
      by (auto simp: b_def)
    have "\<exists>f' t. write_blocks fi path (offset + c) (s\<lparr>kfs := f1\<rparr>) = Some (rw_count fi, (s\<lparr>kfs := f1\<rparr>)\<lparr>kfs := f'\<rparr>) \<and>
      file_at f' path disk cs n ((e\<lparr>e_time := t1\<rparr>)\<lparr>e_time := t\<rparr>) k ns \<and>
      contents (disk_of f' disk) ((e\<lparr>e_time := t1\<rparr>)\<lparr>e_time := t\<rparr>) = splice (unat (rw_offset fi) + unat (offset + c))
        (fget (far (s\<lparr>kfs := f1\<rparr>)) (rw_buff fi + ucast (offset + c)) (unat (rw_count fi) - unat (offset + c)))
        (contents (disk_of (kfs (s\<lparr>kfs := f1\<rparr>)) disk) (e\<lparr>e_time := t1\<rparr>)) \<and>
      (\<forall>x. x \<notin> set (blocks_of (e\<lparr>e_time := t1\<rparr>) k) \<longrightarrow> 2 + entries_of (disk_of (kfs (s\<lparr>kfs := f1\<rparr>)) disk) \<le> unat x \<longrightarrow>
        disk_of f' disk x = disk_of (kfs (s\<lparr>kfs := f1\<rparr>)) disk x) \<and>
      entries_of (disk_of f' disk) = entries_of (disk_of (kfs (s\<lparr>kfs := f1\<rparr>)) disk)"
      using less.prems on c lt f1(2) by (intro less.hyps) simp_all
    then obtain f2 t2 where f2: "write_blocks fi path (offset + c) (s\<lparr>kfs := f1\<rparr>) = Some (rw_count fi, s\<lparr>kfs := f2\<rparr>)"
        "file_at f2 path disk cs n (e\<lparr>e_time := t2\<rparr>) k ns"
        "contents (disk_of f2 disk) (e\<lparr>e_time := t2\<rparr>) = splice (unat (rw_offset fi) + unat offset + unat c)
          (fget (far s) (rw_buff fi + ucast (offset + c)) (unat (rw_count fi) - (unat offset + unat c)))
          (splice (unat (rw_offset fi) + unat offset) b (contents (disk_of (kfs s) disk) e))"
        "\<And>x. x \<notin> set (blocks_of e k) \<Longrightarrow> 2 + entries_of (disk_of (kfs s) disk) \<le> unat x \<Longrightarrow> disk_of f2 disk x = disk_of f1 disk x"
        "entries_of (disk_of f2 disk) = entries_of (disk_of (kfs s) disk)"
      using f1 on by (auto simp: blocks_of_def add.assoc)
    have addr: "rw_buff fi + ucast (offset + c) = rw_buff fi + ucast offset + of_nat (unat c)"
    proof -
      have "(ucast (offset + c) :: u32) = of_nat (unat offset + unat c)" by (simp only: on [symmetric] of_nat_unat)
      then show ?thesis by simp
    qed
    have "b @ fget (far s) (rw_buff fi + ucast (offset + c)) (unat (rw_count fi) - (unat offset + unat c)) =
        fget (far s) (rw_buff fi + ucast offset) (unat (rw_count fi) - unat offset)"
      using fget_append [of "far s" "rw_buff fi + ucast offset" "unat c" "unat (rw_count fi) - (unat offset + unat c)"] c(3) lt
      by (simp add: b_def addr)
    moreover have "unat (rw_offset fi) + unat offset + length b + (unat (rw_count fi) - (unat offset + unat c)) \<le>
        length (contents (disk_of (kfs s) disk) e)"
      using fa(8) less.prems(2) c(3) lt by (simp add: b_def)
    ultimately have "contents (disk_of f2 disk) (e\<lparr>e_time := t2\<rparr>) = splice (unat (rw_offset fi) + unat offset)
        (fget (far s) (rw_buff fi + ucast offset) (unat (rw_count fi) - unat offset)) (contents (disk_of (kfs s) disk) e)"
      using f2(3) splice_splice [of "unat (rw_offset fi) + unat offset" b _ "contents (disk_of (kfs s) disk) e"]
      by (simp add: b_def)
    moreover have "write_blocks fi path offset s = Some (rw_count fi, s\<lparr>kfs := f2\<rparr>)"
    proof -
      have "\<not> ERROR_ANY \<le> c" using c(2) by (simp add: word_le_nat_alt)
      then show ?thesis using True f1(1) f2(1) c_def b_def
        by (subst write_blocks.simps) (simp add: run_fs_def nbind_def)
    qed
    ultimately show ?thesis using f2 f1(4) by (intro exI [of _ f2] exI [of _ t2]) auto
  qed
qed

text \<open>Writing through the library.\<close>

lemma write_file_ok:
  fixes u :: program and offset count flags buff :: u16
  assumes fl: "file_at (kfs s) (path_at (far s) (lp (seg u) path)) disk cs n e k ns"
    and frame: "disjoint_ranges (param_at u) 14 (lp (seg u) path) MAX_PATH"
      "disjoint_ranges (param_at u) 14 (lp (seg u) buff) (unat count)"
    and fit: "unat offset + unat count \<le> unat (e_size e)" "flags AND WF_TRUNCATE = 0"
  shows "\<exists>ps f' t. length ps = 14 \<and> write_file u buff path offset count flags s =
      Some (count, s\<lparr>far := fput (far s) (param_at u) ps, kfs := f'\<rparr>) \<and>
    file_at f' (path_at (far s) (lp (seg u) path)) disk cs n (e\<lparr>e_time := t\<rparr>) k ns \<and>
    contents (disk_of f' disk) (e\<lparr>e_time := t\<rparr>) =
      splice (unat offset) (fget (far s) (lp (seg u) buff) (unat count)) (contents (disk_of (kfs s) disk) e) \<and>
    (\<forall>x. x \<notin> set (blocks_of e k) \<longrightarrow> 2 + entries_of (disk_of (kfs s) disk) \<le> unat x \<longrightarrow>
        disk_of f' disk x = disk_of (kfs s) disk x)"
proof -
  let ?rw = "\<lparr>rw_buff = lp (seg u) buff, rw_path = lp (seg u) path, rw_offset = offset, rw_count = count, rw_flags = flags\<rparr>"
  let ?m = "fput (far s) (param_at u) (fsrwfile_bytes ?rw)"
  have path: "path_at ?m (lp (seg u) path) = path_at (far s) (lp (seg u) path)"
    using frame(1) by (simp add: path_at_def fget_beside)
  have data: "fget ?m (lp (seg u) buff) (unat count) = fget (far s) (lp (seg u) buff) (unat count)"
    using frame(2) by (intro fget_beside) simp
  obtain f' t where f': "write_blocks ?rw (path_at (far s) (lp (seg u) path)) 0 (s\<lparr>far := ?m\<rparr>) =
        Some (count, s\<lparr>far := ?m, kfs := f'\<rparr>)"
      "file_at f' (path_at (far s) (lp (seg u) path)) disk cs n (e\<lparr>e_time := t\<rparr>) k ns"
      "contents (disk_of f' disk) (e\<lparr>e_time := t\<rparr>) =
        splice (unat offset) (fget ?m (lp (seg u) buff) (unat count)) (contents (disk_of (kfs s) disk) e)"
      "\<forall>x. x \<notin> set (blocks_of e k) \<longrightarrow> 2 + entries_of (disk_of (kfs s) disk) \<le> unat x \<longrightarrow>
        disk_of f' disk x = disk_of (kfs s) disk x"
    using write_blocks_ok [of ?rw "s\<lparr>far := ?m\<rparr>" "path_at (far s) (lp (seg u) path)" disk cs n e k ns 0] fl fit by auto
  have "write_file u buff path offset count flags s = Some (count, s\<lparr>far := ?m, kfs := f'\<rparr>)"
    using path f'(1) by (simp add: write_file_def syscall_with_def syscall_def put_far_def kernel_service.simps
        file_service_def service_fs_write_file_def)
  then show ?thesis using f' data by (intro exI [of _ "fsrwfile_bytes ?rw"] exI [of _ f'] exI [of _ t]) simp
qed

subsection \<open>Properties\<close>

text \<open>
  C5: What a program reads with \<open>read_file\<close> from a file that fits in one table entry, through library, system call
  and kernel, in however many blocks of 512 bytes: the call returns the number of bytes of the requested
  range that the file has, these bytes of the file are in the program's buffer, and of the rest of the memory only the
  14 bytes of the parameters change.
\<close>

theorem read_file_call:
  fixes u :: program
  assumes "file_at (kfs s) (path_at (far s) (lp (seg u) path)) disk cs n e k ns"
    and "disjoint_ranges (param_at u) 14 (lp (seg u) path) MAX_PATH"
  shows "\<exists>ps. length ps = 14 \<and> (let D = take (unat count) (drop (unat offset) (contents (disk_of (kfs s) disk) e))
    in read_file u buff path offset count s =
         Some (of_nat (length D), s\<lparr>far := fput (fput (far s) (param_at u) ps) (lp (seg u) buff) D\<rparr>))"
  unfolding Let_def by (rule read_file_ok [OF assms])

text \<open>
  C2: What a program writes inside a file with \<open>write_file\<close>, without the truncate flag, it reads back with \<open>read_file\<close>
  into any buffer: the whole count is written, in however many blocks, a later read of any range of the
  file returns the old contents with the bytes replaced, and no other block behind the entry table changes.
\<close>

theorem written_file_reads_back:
  fixes u :: program
  assumes "file_at (kfs s) (path_at (far s) (lp (seg u) path)) disk cs n e k ns"
    and "disjoint_ranges (param_at u) 14 (lp (seg u) path) MAX_PATH"
      "disjoint_ranges (param_at u) 14 (lp (seg u) buff) (unat count)"
    and "unat offset + unat count \<le> unat (e_size e)" "flags AND WF_TRUNCATE = 0"
  shows "\<exists>s'. write_file u buff path offset count flags s = Some (count, s') \<and>
    (\<forall>x. x \<notin> set (blocks_of e k) \<longrightarrow> 2 + entries_of (disk_of (kfs s) disk) \<le> unat x \<longrightarrow>
        disk_of (kfs s') disk x = disk_of (kfs s) disk x) \<and>
    (\<forall>buff' o' c'. let D = take (unat c') (drop (unat o') (splice (unat offset) (fget (far s) (lp (seg u) buff) (unat count))
           (contents (disk_of (kfs s) disk) e)))
      in \<exists>s''. read_file u buff' path o' c' s' = Some (of_nat (length D), s'') \<and> fget (far s'') (lp (seg u) buff') (length D) = D)"
proof -
  obtain ps f' t where w: "length ps = 14" "write_file u buff path offset count flags s =
        Some (count, s\<lparr>far := fput (far s) (param_at u) ps, kfs := f'\<rparr>)"
      "file_at f' (path_at (far s) (lp (seg u) path)) disk cs n (e\<lparr>e_time := t\<rparr>) k ns"
      "contents (disk_of f' disk) (e\<lparr>e_time := t\<rparr>) =
        splice (unat offset) (fget (far s) (lp (seg u) buff) (unat count)) (contents (disk_of (kfs s) disk) e)"
      "\<forall>x. x \<notin> set (blocks_of e k) \<longrightarrow> 2 + entries_of (disk_of (kfs s) disk) \<le> unat x \<longrightarrow>
        disk_of f' disk x = disk_of (kfs s) disk x"
    using write_file_ok [OF assms] by blast
  let ?s = "s\<lparr>far := fput (far s) (param_at u) ps, kfs := f'\<rparr>" and ?new = "contents (disk_of f' disk) (e\<lparr>e_time := t\<rparr>)"
  have path: "path_at (far ?s) (lp (seg u) path) = path_at (far s) (lp (seg u) path)"
    using assms(2) w(1) by (simp add: path_at_def fget_beside)
  have "\<exists>s''. read_file u buff' path o' c' ?s = Some (of_nat (length D), s'') \<and> fget (far s'') (lp (seg u) buff') (length D) = D"
    if "D = take (unat c') (drop (unat o') ?new)" for D buff' o' c'
  proof -
    have "length D \<le> 65535" using that unat_u16_lt [of c'] by simp
    then have "fget (fput m a D) a (length D) = D" for m a by (simp add: fget_fput0)
    moreover have "file_at (kfs ?s) (path_at (far ?s) (lp (seg u) path)) disk cs n (e\<lparr>e_time := t\<rparr>) k ns"
      using w(3) path by simp
    note r = read_file_ok [OF this assms(2), of buff' o' c']
    have "take (unat c') (drop (unat o') (contents (disk_of (kfs ?s) disk) (e\<lparr>e_time := t\<rparr>))) = D" using that by simp
    note r [unfolded this]
    ultimately show ?thesis by auto
  qed
  then show ?thesis using w(2,4,5) by (intro exI [of _ ?s]) (simp add: Let_def)
qed

end
