(* ===== verification/Net_Frames.thy ===== *)
theory Net_Frames
  imports Net
begin

section \<open>Frames sent and received\<close>

text \<open>
  From the driver up to \<open>net_send\<close> and down again on the receiver. \<open>ether_frame\<close>, \<open>ip_datagram\<close> and
  \<open>udp_datagram\<close> are the formats as lists of bytes; \<open>eth_frame_put\<close>, \<open>ip_packet_put\<close> and
  \<open>udp_packet_put\<close> show that each layer, which moves its payload up in the send buffer and fills in its
  header, leaves exactly the format there; \<open>net_send_run\<close> composes them and \<open>process_datagram\<close> is the
  reverse direction. \<open>nic_ready\<close> is what the driver needs of the card.
\<close>

subsection \<open>The card\<close>

text \<open>
  A card that finishes what it was told: polling the command register for a transmission and the
  status register for a completed transfer ends.
\<close>

definition nic_ready :: "net \<Rightarrow> bool" where
  "nic_ready s \<longleftrightarrow> settles (dev8 s) (\<lambda>v. v = 0x26) (base_port s + NE2K_CR) \<and>
     settles (dev8 s) (\<lambda>v. v AND 0x40 = 0) (base_port s + NE2K_ISR)"

definition lo :: "u16 \<Rightarrow> u8" where "lo len = ucast (len AND 0xFF)"
definition hi :: "u16 \<Rightarrow> u8" where "hi len = ucast (drop_bit 8 len AND 0xFF)"

text \<open>What a transmission writes to the ports: \<open>v\<close> is the page selection, then come the frame and its size.\<close>

definition send_writes :: "u16 \<Rightarrow> u8 \<Rightarrow> u8 list \<Rightarrow> (u16 \<times> u8) list" where
  "send_writes base v frame =
     (let n = of_nat (length frame)
      in [(base + NE2K_CR, v), (base + NE2K_RSAR0, 0), (base + NE2K_RSAR1, 0x40),
          (base + NE2K_RBCR0, lo n), (base + NE2K_RBCR1, hi n), (base + NE2K_CR, 0x12)] @
         map (\<lambda>b. (base + NE2K_DATA, b)) frame @
         [(base + NE2K_ISR, 0x40), (base + NE2K_TPSR, 0x40), (base + NE2K_TBCR0, lo n),
          (base + NE2K_TBCR1, hi n), (base + NE2K_CR, 0x26)])"

definition transmitted :: "net \<Rightarrow> net \<Rightarrow> u8 list \<Rightarrow> bool" where
  "transmitted s s' frame \<longleftrightarrow>
     (\<exists>t v. s' = s\<lparr>io_trace := t\<rparr> \<and> writes t = writes (io_trace s) @ send_writes (base_port s) v frame)"

lemma nbind_assoc [simp]: "nbind (nbind m k) l = nbind m (\<lambda>x. nbind (k x) l)"
  by (auto simp: nbind_def fun_eq_iff split: Option.bind_split)

lemma nbind_outb [simp]: "nbind (outb v p) k s = k () (s\<lparr>io_trace := Out8 p v # io_trace s\<rparr>)"
  by (simp add: nbind_def outb_def)

lemma nbind_nget [simp]: "nbind (nget f) k s = k (f s) s"
  by (simp add: nbind_def)

lemma nbind_nput [simp]: "nbind (nput f) k s = k () (f s)"
  by (simp add: nbind_def)

lemma nbind_inb [simp]:
  "nbind (inb p) k s = k (dev8 s (io_trace s) p) (s\<lparr>io_trace := In8 p (dev8 s (io_trace s) p) # io_trace s\<rparr>)"
  by (simp add: nbind_def inb_def Let_def)

lemma while_in_ok:
  assumes "settles (dev8 s) P port"
  obtains t where "while_in P port s = Some ((), s\<lparr>io_trace := t\<rparr>)" "writes t = writes (io_trace s)"
  using while_in_settles [OF assms] by (auto simp: only_reads_def)

lemma ne2k_send_ok:
  assumes "nic_ready s"
  shows "\<exists>s'. ne2k_send data len s = Some (0, s') \<and>
    transmitted s s' (get_mem (snd_buff s) data (unat len))"
proof -
  let ?b = "base_port s" and ?f = "get_mem (snd_buff s) data (unat len)"
  have r: "settles (dev8 s) (\<lambda>v. v = 0x26) ?b" "settles (dev8 s) (\<lambda>v. v AND 0x40 = 0) (?b + 7)"
    using assms by (simp_all add: nic_ready_def)
  obtain t1 where t1: "while_in (\<lambda>v. v = 0x26) ?b s = Some ((), s\<lparr>io_trace := t1\<rparr>)"
      "writes t1 = writes (io_trace s)"
    using while_in_ok [of s] r(1) by blast
  let ?v = "ucast (push_bit 6 (0 AND 1 :: u16) OR ucast (0x3F AND dev8 s t1 ?b)) :: u8"
  let ?t2 = "Out8 ?b 0x12 # Out8 (?b + 11) (hi len) # Out8 (?b + 10) (lo len) # Out8 (?b + 9) 0x40 #
    Out8 (?b + 8) 0 # Out8 ?b ?v # In8 ?b (dev8 s t1 ?b) # t1"
  obtain t3 where t3: "outs ?f (?b + 16) (s\<lparr>io_trace := ?t2\<rparr>) = Some ((), s\<lparr>io_trace := t3\<rparr>)"
      "writes t3 = writes ?t2 @ map (\<lambda>b. (?b + 16, b)) ?f"
    using outs_ok [of ?f "?b + 16" "s\<lparr>io_trace := ?t2\<rparr>"] by auto
  obtain t4 where t4: "while_in (\<lambda>v. v AND 0x40 = 0) (?b + 7) (s\<lparr>io_trace := t3\<rparr>) = Some ((), s\<lparr>io_trace := t4\<rparr>)"
      "writes t4 = writes t3"
    using while_in_ok [of "s\<lparr>io_trace := t3\<rparr>"] r(2) by auto
  let ?t = "Out8 ?b 0x26 # Out8 (?b + 6) (hi len) # Out8 (?b + 5) (lo len) # Out8 (?b + 4) 0x40 #
    Out8 (?b + 7) 0x40 # t4"
  have run: "ne2k_send data len s = Some (0, s\<lparr>io_trace := ?t\<rparr>)"
    using t1(1) t3(1) t4(1) by (simp add: ne2k_send_def ne2k_page_select_def lo_def hi_def)
  have "writes ?t = writes (io_trace s) @ send_writes ?b ?v ?f"
    using t1(2) t3(2) t4(2) by (simp add: send_writes_def)
  with run show ?thesis unfolding transmitted_def by blast
qed


subsection \<open>The layout of a frame\<close>

text \<open>What goes over the wire: an Ethernet frame, an IP packet and a UDP datagram as lists of bytes.\<close>

definition ether_frame :: "u8 list \<Rightarrow> u8 list \<Rightarrow> u16 \<Rightarrow> u8 list \<Rightarrow> u8 list" where
  "ether_frame dst src type payload =
     (let b = dst @ src @ le16 (BSWAP_16 type) @ payload in b @ le32 (crc32_byte b))"

definition ip_header :: "u8 list \<Rightarrow> u8 list \<Rightarrow> u16 \<Rightarrow> u8 \<Rightarrow> u16 \<Rightarrow> ip_hdr" where
  "ip_header src dst ident proto len =
     \<lparr>verIhl = 0x45, tos = 0, ip_len = BSWAP_16 len, ip_ident = ident, ip_offset = 0,
      ttl = 128, protocol = proto, ip_checksum = 0, ip_src = src, ip_dst = dst\<rparr>"

definition ip_datagram :: "u8 list \<Rightarrow> u8 list \<Rightarrow> u16 \<Rightarrow> u8 \<Rightarrow> u8 list \<Rightarrow> u8 list" where
  "ip_datagram src dst ident proto payload =
     (let h = ip_header src dst ident proto (of_nat (length payload + 20))
      in ip_bytes (h\<lparr>ip_checksum := BSWAP_16 (net_checksum (ip_bytes h))\<rparr>) @ payload)"

definition udp_datagram :: "u8 list \<Rightarrow> u8 list \<Rightarrow> u16 \<Rightarrow> u16 \<Rightarrow> u8 list \<Rightarrow> u8 list" where
  "udp_datagram src dst src_port dst_port data =
     (let n = le16 (BSWAP_16 (of_nat (length data + 8)));
          h = le16 (BSWAP_16 src_port) @ le16 (BSWAP_16 dst_port) @ n;
          checksum = net_checksum (src @ dst @ [0, 17] @ n @ h @ [0, 0] @ data)
      in h @ le16 (BSWAP_16 checksum) @ data)"

definition sent_frame :: "net \<Rightarrow> u8 list \<Rightarrow> mac_ptr \<Rightarrow> u8 list \<Rightarrow> u8 list" where
  "sent_frame s dst p data =
     ether_frame (mac_at s p) (local_mac s) 0x0800
       (ip_datagram (local_ip s) dst (ident_field (ip_id s)) 17 (udp_datagram (local_ip s) dst 8086 8086 data))"

lemma eth_frame_put:
  assumes "length mac = 6" "length dst = 6" "unat a + unat len + 18 \<le> 65536"
  shows "eth_frame mac dst type a len m = put_mem m a (ether_frame dst mac type (get_mem m a (unat len)))"
proof -
  let ?P = "get_mem m a (unat len)" and ?T = "le16 (BSWAP_16 type)"
  let ?b = "dst @ mac @ ?T @ ?P"
  have u14: "unat (a + 14) = unat a + 14" using assms(3) by (simp add: unat_plus_u16)
  have ul: "unat (14 + len) = 14 + unat len" using assms(3) by (simp add: unat_plus_u16)
  have c: "snd (memcpy m (a + 14) a len) = put_mem m (a + 14) ?P"
    using memcpy_put [of a len "a + 14" m] assms(3) u14 by simp
  have d: "put_mem (put_mem (put_mem (put_mem m (a + 14) ?P) a dst) (a + 6) mac) (a + 12) ?T =
      put_mem m a ?b"
  proof -
    have "put_mem (put_mem (put_mem m (a + 14) ?P) a dst) (a + 6) mac =
        put_mem (put_mem m (a + 14) ?P) a (dst @ mac)"
      using assms by (intro put_mem_after) simp_all
    moreover have "put_mem (put_mem (put_mem m (a + 14) ?P) a (dst @ mac)) (a + 12) ?T =
        put_mem (put_mem m (a + 14) ?P) a ((dst @ mac) @ ?T)"
      using assms by (intro put_mem_after) simp_all
    moreover have "put_mem (put_mem m (a + 14) ?P) a ((dst @ mac) @ ?T) = put_mem m a (((dst @ mac) @ ?T) @ ?P)"
      using assms by (intro put_mem_before) simp_all
    ultimately show ?thesis by simp
  qed
  have crc: "get_mem (put_mem m a ?b) a (unat (14 + len)) = ?b"
    using assms get_put_mem0 [of "14 + unat len" ?b m a] by (simp only: ul) simp
  have e: "put_mem (put_mem m a ?b) (a + 14 + len) (le32 (crc32_byte ?b)) = put_mem m a (?b @ le32 (crc32_byte ?b))"
    using assms by (intro put_mem_after) (simp_all add: ac_simps)
  show ?thesis by (simp only: eth_frame_def ETH_HDR_LEN_def Let_def c d crc e ether_frame_def)
qed

lemma length_ip_bytes: "length (ip_src h) = 4 \<Longrightarrow> length (ip_dst h) = 4 \<Longrightarrow> length (ip_bytes h) = 20"
  by (simp add: ip_bytes_def)

lemma ip_bytes_checksum:
  "length (ip_src h) = 4 \<Longrightarrow> length (ip_dst h) = 4 \<Longrightarrow>
    ip_bytes (h\<lparr>ip_checksum := c\<rparr>) = take 10 (ip_bytes h) @ le16 c @ drop 12 (ip_bytes h)"
  by (simp add: ip_bytes_def)

lemma ip_packet_put:
  assumes "length src = 4" "length dst = 4" "unat a + unat len + 20 < 65536"
  shows "ip_packet src ident dst proto a len m =
    put_mem m a (ip_datagram src dst ident proto (get_mem m a (unat len)))"
proof -
  let ?P = "get_mem m a (unat len)"
  let ?h = "ip_header src dst ident proto (of_nat (length ?P + 20))"
  have u: "unat (a + 20) = unat a + 20" using assms(3) by (simp add: unat_plus_u16)
  have c: "snd (memcpy m (a + 20) a len) = put_mem m (a + 20) ?P"
    using memcpy_put [of a len "a + 20" m] assms(3) u by simp
  have "push_bit 4 4 OR 5 = (0x45 :: u8)" by (simp add: push_bit_eq_mult)
  moreover have "BSWAP_16 0 = 0" by simp
  ultimately have h: "\<lparr>verIhl = push_bit 4 4 OR 5, tos = 0, ip_len = BSWAP_16 (len + 20),
      ip_ident = ident, ip_offset = BSWAP_16 0, ttl = 128, protocol = proto,
      ip_checksum = 0, ip_src = src, ip_dst = dst\<rparr> = ?h"
    by (simp add: ip_header_def)
  have sd: "length (ip_src ?h) = 4" "length (ip_dst ?h) = 4" using assms by (simp_all add: ip_header_def)
  have l: "length (ip_bytes ?h) = 20" by (rule length_ip_bytes [OF sd])
  have d: "put_mem (put_mem m (a + 20) ?P) a (ip_bytes ?h) = put_mem m a (ip_bytes ?h @ ?P)"
    using assms l by (intro put_mem_before) simp_all
  have g: "get_mem (put_mem m a (ip_bytes ?h @ ?P)) a (unat (20 :: u16)) = ip_bytes ?h"
    using assms l by (subst get_put_mem0) simp_all
  let ?c = "BSWAP_16 (net_checksum (ip_bytes ?h))"
  have e: "put_mem (put_mem m a (ip_bytes ?h @ ?P)) (a + 10) (le16 ?c) =
      put_mem m a (ip_bytes (?h\<lparr>ip_checksum := ?c\<rparr>) @ ?P)"
    unfolding ip_bytes_checksum [OF sd] using assms l by (subst put_mem_inside [where k = 10]) simp_all
  show ?thesis by (simp only: ip_packet_def SIZEOF_IP_def Let_def c h d g e ip_datagram_def)
qed


lemma length_udp_datagram [simp]: "length (udp_datagram src dst sp dp data) = length data + 8"
  by (simp add: udp_datagram_def Let_def)

lemma length_ip_datagram [simp]:
  "length src = 4 \<Longrightarrow> length dst = 4 \<Longrightarrow> length (ip_datagram src dst i p d) = length d + 20"
  by (simp add: ip_datagram_def Let_def length_ip_bytes ip_header_def)

lemma length_ether_frame [simp]:
  "length dst = 6 \<Longrightarrow> length src = 6 \<Longrightarrow> length (ether_frame dst src t d) = length d + 18"
  by (simp add: ether_frame_def Let_def)

lemma put_mem_mid:
  assumes "length xs = length ys" "length (ps @ ys @ qs) \<le> 65536" "b = a + of_nat (length ps)"
  shows "put_mem (put_mem m a (ps @ ys @ qs)) b xs = put_mem m a (ps @ xs @ qs)"
  using put_mem_inside [of "length ps" xs "ps @ ys @ qs" b a m] assms by simp

lemma get_mem_mid:
  assumes "n = length ys" "length (ps @ ys @ qs) \<le> 65536" "b = a + of_nat (length ps)"
  shows "get_mem (put_mem m a (ps @ ys @ qs)) b n = ys"
  using get_put_mem [of "length ps" n "ps @ ys @ qs" b a m] assms by simp

lemma udp_packet_put:
  assumes "length src = 4" "length dst = 4" "unat len \<le> length data" "unat len \<le> 202"
  defines "r \<equiv> replicate (236 - unat len) 0"
  shows "udp_packet src dst sp dp data len m =
      put_mem m 0 ((src @ dst @ [0, 17] @ le16 (BSWAP_16 (len + 8))) @
        udp_datagram src dst sp dp (take (unat len) data) @ r)"
proof -
  let ?d = "take (unat len) data" and ?n = "le16 (BSWAP_16 (len + 8))"
  let ?h = "le16 (BSWAP_16 sp) @ le16 (BSWAP_16 dp) @ ?n"
  let ?z = "\<lambda>k. replicate k (0 :: u8)"
  let ?p = "src @ dst @ [0, 17] @ ?n"
  have l: "length ?d = unat len" "length ?h = 6" "length ?p = 12" "length r + unat len = 236"
    using assms by simp_all
  have "256 = 12 + (6 + (2 + (unat len + (236 - unat len))))" using assms(4) by simp
  then have z: "?z 256 = ?z 12 @ ?z 6 @ ?z 2 @ ?z (unat len) @ r"
    unfolding r_def by (simp only: replicate_add)
  have 0: "snd (memset m 0 0 256) = put_mem m 0 (?z 12 @ ?z 6 @ ?z 2 @ ?z (unat len) @ r)"
    using z by (simp add: memset_put)
  have 1: "put_mem (put_mem m 0 (?z 12 @ ?z 6 @ ?z 2 @ ?z (unat len) @ r)) 20 ?d =
      put_mem m 0 (?z 12 @ ?z 6 @ ?z 2 @ ?d @ r)"
    using put_mem_mid [of ?d "?z (unat len)" "?z 12 @ ?z 6 @ ?z 2" r 20 0 m] l by simp
  have 2: "put_mem (put_mem m 0 (?z 12 @ ?z 6 @ ?z 2 @ ?d @ r)) 12 ?h =
      put_mem m 0 (?z 12 @ ?h @ ?z 2 @ ?d @ r)"
    by (rule put_mem_mid) (use l in simp_all)
  have 3: "get_mem (put_mem m 0 (?z 12 @ ?h @ ?z 2 @ ?d @ r)) 16 2 = ?n"
    using get_mem_mid [of 2 ?n "?z 12 @ le16 (BSWAP_16 sp) @ le16 (BSWAP_16 dp)" "?z 2 @ ?d @ r" 16 0 m] l
    by simp
  have 4: "put_mem (put_mem m 0 (?z 12 @ ?h @ ?z 2 @ ?d @ r)) 0 ?p = put_mem m 0 (?p @ ?h @ ?z 2 @ ?d @ r)"
    using put_mem_mid [of ?p "?z 12" "[]" "?h @ ?z 2 @ ?d @ r" 0 0 m] l by simp
  have u: "unat (12 + len + 8) = 20 + unat len" using assms(4) by (simp add: unat_plus_u16)
  have 5: "get_mem (put_mem m 0 (?p @ ?h @ ?z 2 @ ?d @ r)) 0 (unat (12 + len + 8)) = ?p @ ?h @ ?z 2 @ ?d"
    unfolding u using get_mem_mid [of "20 + unat len" "?p @ ?h @ ?z 2 @ ?d" "[]" r 0 0 m] l by simp
  let ?c = "BSWAP_16 (net_checksum (?p @ ?h @ ?z 2 @ ?d))"
  have 6: "put_mem (put_mem m 0 (?p @ ?h @ ?z 2 @ ?d @ r)) 18 (le16 ?c) = put_mem m 0 (?p @ ?h @ le16 ?c @ ?d @ r)"
    using put_mem_mid [of "le16 ?c" "?z 2" "?p @ ?h" "?d @ r" 18 0 m] l assms(1,2) by simp
  have "udp_packet src dst sp dp data len m = put_mem m 0 (?p @ ?h @ le16 ?c @ ?d @ r)"
    unfolding udp_packet_def
    by (simp only: SIZEOF_UDPIP_def SIZEOF_UDP_def NET_BUFF_SIZE_def IP_PROTOCOL_UDP_def Let_def
      0 arith_simps 1 2 3 4 5 6)
  moreover have q: "udp_datagram src dst sp dp ?d = ?h @ le16 ?c @ ?d"
    using l(1) by (simp add: udp_datagram_def Let_def numeral_2_eq_2)
  ultimately show ?thesis unfolding q by simp
qed


subsection \<open>Sending a datagram\<close>

lemma request_known: "find_mac_in_table s ip \<noteq> None \<Longrightarrow> request_loop n ip s = Some (0, s)"
  by (cases n) auto

lemma provide_known:
  "find_mac_in_table s (get_effective_ip s ip) \<noteq> None \<Longrightarrow> provide_mac_address ip s = Some (0, s)"
  unfolding provide_mac_address_def by (simp add: request_known)

text \<open>
  A node that can send to \<open>dst\<close>: its card works, its addresses have their lengths, and the hardware
  addresses of the destination (\<open>p\<close>) and of the gateway are known.
\<close>

definition can_send :: "net \<Rightarrow> u8 list \<Rightarrow> mac_ptr \<Rightarrow> bool" where
  "can_send s dst p \<longleftrightarrow> network_enabled s \<noteq> 0 \<and> nic_ready s \<and> length (local_ip s) = 4 \<and> length dst = 4 \<and>
     length (local_mac s) = 6 \<and> length (mac_at s p) = 6 \<and>
     find_mac_in_table s (get_effective_ip s dst) = Some p \<and>
     find_mac_in_table s (get_effective_ip s (local_gate s)) \<noteq> None"

lemma effective_ip_buffer [simp]:
  "get_effective_ip (s\<lparr>snd_buff := m\<rparr>) ip = get_effective_ip s ip"
  "find_mac_in_table (s\<lparr>snd_buff := m\<rparr>) ip = find_mac_in_table s ip"
  "get_effective_ip (s\<lparr>ip_id := i\<rparr>) ip = get_effective_ip s ip"
  "find_mac_in_table (s\<lparr>ip_id := i\<rparr>) ip = find_mac_in_table s ip"
  "mac_at (s\<lparr>snd_buff := m\<rparr>) p = mac_at s p"
  "mac_at (s\<lparr>ip_id := i\<rparr>) p = mac_at s p"
  "nic_ready (s\<lparr>snd_buff := m\<rparr>) = nic_ready s"
  "nic_ready (s\<lparr>ip_id := i\<rparr>) = nic_ready s"
  by (simp_all add: get_effective_ip_def find_mac_in_table_def mac_at_def nic_ready_def
    split: mac_ptr.split)

lemma net_send_run:
  assumes "can_send s dst p" "unat len \<le> length data" "unat len \<le> 202"
  defines "frame \<equiv> sent_frame s dst p (take (unat len) data)"
  shows "\<exists>t v m. net_send dst data len s =
      Some (0, s\<lparr>ip_id := ip_id s + 2, snd_buff := put_mem m 12 frame, io_trace := t\<rparr>) \<and>
    (\<forall>x. x \<ge> 256 \<longrightarrow> m x = snd_buff s x) \<and>
    writes t = writes (io_trace s) @ send_writes (base_port s) v frame"
proof -
  let ?d = "take (unat len) data"
  let ?U = "udp_datagram (local_ip s) dst 8086 8086 ?d"
  let ?I = "ip_datagram (local_ip s) dst (ident_field (ip_id s)) 17 ?U"
  let ?pre = "local_ip s @ dst @ [0, 17] @ le16 (BSWAP_16 (len + 8))"
  let ?r = "replicate (236 - unat len) 0 :: u8 list"
  let ?m1 = "put_mem (snd_buff s) 0 (?pre @ ?U @ ?r)"
  let ?m2 = "put_mem ?m1 12 ?I"
  let ?s = "s\<lparr>ip_id := ip_id s + 2, snd_buff := put_mem ?m2 12 frame\<rparr>"
  have ok: "length (local_ip s) = 4" "length dst = 4" "length (local_mac s) = 6" "length (mac_at s p) = 6"
      "nic_ready s" "network_enabled s \<noteq> 0"
      "find_mac_in_table s (get_effective_ip s dst) = Some p"
      "find_mac_in_table s (get_effective_ip s (local_gate s)) \<noteq> None"
    using assms(1) by (simp_all add: can_send_def)
  have lU: "length ?U = unat len + 8" using assms(2) by simp
  have lI: "length ?I = unat len + 28" using ok lU by simp
  have lF: "length frame = unat len + 46" using ok lI by (simp add: frame_def sent_frame_def)
  have clamp: "udp_len len = len" using assms(3) by (auto simp: udp_len_def word_less_nat_alt)
  have u: "unat (8 + len) = unat len + 8" "unat (20 + (8 + len)) = unat len + 28"
      "unat (20 + (8 + len) + 14 + 4) = unat len + 46"
    using assms(3) by (simp_all add: unat_plus_u16)
  have 1: "udp_packet (local_ip s) dst 8086 8086 data len (snd_buff s) = ?m1"
    using udp_packet_put [of "local_ip s" dst len data 8086 8086 "snd_buff s"] ok assms by simp
  have g1: "get_mem ?m1 12 (unat (8 + len)) = ?U"
    unfolding u using lU ok assms(3) by (intro get_mem_mid) simp_all
  have 2: "ip_packet (local_ip s) (ident_field (ip_id s)) dst 17 12 (8 + len) ?m1 = ?m2"
    using ip_packet_put [of "local_ip s" dst 12 "8 + len" "ident_field (ip_id s)" 17 ?m1] ok assms(3) u(1)
    unfolding g1 by simp
  have g2: "get_mem ?m2 12 (unat (20 + (8 + len))) = ?I"
    unfolding u using lI assms(3) by (subst get_put_mem0) simp_all
  have 3: "eth_frame (local_mac s) (mac_at s p) 0x0800 12 (20 + (8 + len)) ?m2 = put_mem ?m2 12 frame"
    using eth_frame_put [of "local_mac s" "mac_at s p" 12 "20 + (8 + len)" "0x0800" ?m2] ok assms(3) u(2)
    unfolding g2 by (simp add: frame_def sent_frame_def)
  have g3: "get_mem (put_mem ?m2 12 frame) 12 (unat (20 + (8 + len) + 14 + 4)) = frame"
    unfolding u using lF assms(3) by (subst get_put_mem0) simp_all
  obtain s' where s': "ne2k_send 12 (20 + (8 + len) + 14 + 4) ?s = Some (0, s')" "transmitted ?s s' frame"
    using ne2k_send_ok [of ?s 12 "20 + (8 + len) + 14 + 4"] ok(5) g3 by auto
  have run: "net_send dst data len s = Some (0, s')"
    using s'(1) ok 1 2 3
    by (simp add: net_send_def udp_send_def ip_send_def eth_send_def provide_known clamp)
  have keep: "?m2 x = snd_buff s x" if "x \<ge> 256" for x
  proof -
    have x: "256 \<le> unat x" using that by (simp add: word_le_nat_alt)
    have lr: "length (?pre @ ?U @ ?r) = 256" using lU ok assms(3) by simp
    have "?m1 x = snd_buff s x" using x lr by (simp only: put_mem_def diff_0_right) simp
    moreover have "unat (12 :: u16) + length ?I \<le> 65536" using lI assms(3) by simp
    ultimately show ?thesis using x lI assms(3) by (simp add: put_mem_nat)
  qed
  obtain t v where "s' = ?s\<lparr>io_trace := t\<rparr>"
      "writes t = writes (io_trace s) @ send_writes (base_port s) v frame"
    using s'(2) by (auto simp: transmitted_def)
  then show ?thesis using run keep by (intro exI [of _ t] exI [of _ v] exI [of _ ?m2]) simp
qed

subsection \<open>Receiving a frame\<close>

lemma store_received_all:
  assumes "length data \<le> 65535"
  shows "store_received data m =
    put_mem m 0 (if length data \<le> 256 then data else take 255 data @ [last data])"
proof -
  let ?f = "\<lambda>m i. m((if of_nat i < NET_BUFF_SIZE - 1 then of_nat i else NET_BUFF_SIZE - 1) := data ! i)"
  let ?c = "\<lambda>k. if k \<le> 256 then take k data else take 255 data @ [data ! (k - 1)]"
  have "foldl ?f m [0 ..< k] = put_mem m 0 (?c k)" if "k \<le> length data" for k
    using that
  proof (induction k)
    case (Suc k)
    have k: "unat (of_nat k :: u16) = k" using Suc.prems assms by (intro unat_of_nat_u16) simp
    have i: "(if of_nat k < NET_BUFF_SIZE - 1 then of_nat k else NET_BUFF_SIZE - 1) = (of_nat (min k 255) :: u16)"
      using k by (auto simp: word_less_nat_alt min_def)
    have "foldl ?f m [0 ..< Suc k] = (foldl ?f m [0 ..< k])(of_nat (min k 255) := data ! k)"
      unfolding foldl_upt_Suc i ..
    also have "foldl ?f m [0 ..< k] = put_mem m 0 (?c k)" using Suc.prems by (intro Suc.IH) simp
    also have "(put_mem m 0 (?c k))(of_nat (min k 255) := data ! k) = put_mem m 0 (?c (Suc k))"
    proof (cases "k < 256")
      case True
      then have "(put_mem m 0 (take k data))(0 + of_nat k := data ! k) = put_mem m 0 (take k data @ [data ! k])"
        using Suc.prems by (intro put_mem_snoc) simp_all
      then show ?thesis using True Suc.prems by (simp add: take_Suc_conv_app_nth min_def)
    next
      case False
      have "take (Suc 255) data = take 255 data @ [data ! 255]"
        using False Suc.prems by (intro take_Suc_conv_app_nth) simp
      then obtain x where x: "?c k = take 255 data @ [x]" using False by (cases "k = 256") auto
      have "(put_mem m 0 (take 255 data @ [x]))(255 := data ! k) =
          put_mem (put_mem m 0 (take 255 data @ [x])) 255 [data ! k]"
        using put_mem_snoc [of 0 "[]" "put_mem m 0 (take 255 data @ [x])" 255 "data ! k"] by simp
      also have "\<dots> = put_mem m 0 (take 255 data @ [data ! k])"
        using put_mem_mid [of "[data ! k]" "[x]" "take 255 data" "[]" 255 0 m] False Suc.prems by simp
      finally show ?thesis using x False by simp
    qed
    finally show ?case .
  qed simp
  from this [of "length data"] show ?thesis
    by (cases data rule: rev_cases) (auto simp: store_received_def)
qed

lemma store_received_put: "length data \<le> 256 \<Longrightarrow> store_received data m = put_mem m 0 data"
  by (simp add: store_received_all)

text \<open>A datagram for the port of the program is kept, whatever the other fields of its headers are.\<close>

lemma process_datagram:
  assumes "length mac = 6" "length src_mac = 6" "length src = 4" "length dst = 4"
    "length data \<le> 210" "local_mac r = mac \<or> arp_mac (arp_table r ! 0) = mac" "rcv_size r = 0"
    "length (local_mac r) = 6" "length (arp_mac (arp_table r ! 0)) = 6"
    "tmp_buff r = put_mem m 0 (ether_frame mac src_mac 0x0800 (ip_datagram src dst ident 17
       (udp_datagram src dst sp 8086 data)))"
  shows "process_frame r = Some ((), r\<lparr>rcv_port := sp, rcv_size := of_nat (length data), rcv_addr := src,
    rcv_buff := data @ drop (length data) (rcv_buff r)\<rparr>)"
proof -
  let ?U = "udp_datagram src dst sp 8086 data"
  let ?F = "ether_frame mac src_mac 0x0800 (ip_datagram src dst ident 17 ?U)"
  let ?n = "BSWAP_16 (of_nat (length data + 8))"
  let ?t = "tmp_buff r"
  obtain w1 w2 w3 c where I: "ip_datagram src dst ident 17 ?U =
      ([0x45, 0] @ le16 w1 @ le16 w2 @ le16 w3 @ [128]) @ [17] @ le16 c @ src @ dst @ ?U"
    by (simp add: ip_datagram_def ip_bytes_def ip_header_def Let_def)
  obtain c2 where U: "?U = le16 (BSWAP_16 sp) @ le16 (BSWAP_16 8086) @ le16 ?n @ le16 c2 @ data"
    by (simp add: udp_datagram_def Let_def)
  have I2: "ip_datagram src dst ident 17 ?U =
      ([0x45, 0] @ le16 w1 @ le16 w2 @ le16 w3 @ [128]) @ [17] @ le16 c @ src @ dst @
      le16 (BSWAP_16 sp) @ le16 (BSWAP_16 8086) @ le16 ?n @ le16 c2 @ data"
    unfolding U [symmetric] by (rule I)
  obtain crc where "?F = mac @ src_mac @ le16 (BSWAP_16 0x0800) @ ip_datagram src dst ident 17 ?U @ crc"
      and crc: "length crc = 4"
    by (simp add: ether_frame_def Let_def)
  then have F: "?F = mac @ src_mac @ le16 (BSWAP_16 0x0800) @
      ([0x45, 0] @ le16 w1 @ le16 w2 @ le16 w3 @ [128]) @ [17] @ le16 c @ src @ dst @
      le16 (BSWAP_16 sp) @ le16 (BSWAP_16 8086) @ le16 ?n @ le16 c2 @ data @ crc"
    by (simp only: I2 append_assoc)
  note len = assms(1-5) crc
  have f: "get_mem ?t b (length ys) = ys"
    if "?F = ps @ ys @ qs" "b = of_nat (length ps)" for b ps ys qs
  proof -
    have "length ?F \<le> 65536" using len by simp
    then have "length (ps @ ys @ qs) \<le> 65536" using that(1) by simp
    then show ?thesis using that unfolding assms(10) that(1) by (intro get_mem_mid) simp_all
  qed
  have mac: "get_mem ?t 0 6 = mac" using f [of "[]" mac _ 0] F len by simp
  have type: "get_mem ?t 12 2 = le16 (BSWAP_16 0x0800)"
    using f [of "mac @ src_mac" "le16 (BSWAP_16 0x0800)" _ 12] F len by simp
  have "get_mem ?t 23 1 = [17]"
    using f [of "mac @ src_mac @ le16 (BSWAP_16 0x0800) @ [0x45, 0] @ le16 w1 @ le16 w2 @ le16 w3 @ [128]" "[17]" _ 23]
      F len by simp
  then have proto: "?t 23 = 17" by (simp add: get_mem_def)
  have ips: "get_mem ?t 26 4 = src"
    using f [of "mac @ src_mac @ le16 (BSWAP_16 0x0800) @ ([0x45, 0] @ le16 w1 @ le16 w2 @ le16 w3 @ [128]) @ [17] @
      le16 c" src _ 26] F len by simp
  let ?h = "mac @ src_mac @ le16 (BSWAP_16 0x0800) @ ([0x45, 0] @ le16 w1 @ le16 w2 @ le16 w3 @ [128]) @ [17] @
      le16 c @ src @ dst"
  have port: "get_mem ?t 34 2 = le16 (BSWAP_16 sp)" "get_mem ?t 36 2 = le16 (BSWAP_16 8086)" "get_mem ?t 38 2 = le16 ?n"
    using f [of ?h "le16 (BSWAP_16 sp)" _ 34] f [of "?h @ le16 (BSWAP_16 sp)" "le16 (BSWAP_16 8086)" _ 36]
      f [of "?h @ le16 (BSWAP_16 sp) @ le16 (BSWAP_16 8086)" "le16 ?n" _ 38] F len by simp_all
  have payload: "get_mem ?t 42 (length data) = data"
    using f [of "?h @ le16 (BSWAP_16 sp) @ le16 (BSWAP_16 8086) @ le16 ?n @ le16 c2" data crc 42] F len by simp
  have n: "unat (of_nat (length data) :: u16) = length data" using len by (intro unat_of_nat_u16) simp
  have lt: "of_nat (length data) < (256 :: u16)" using n len by (simp add: word_less_nat_alt)
  have ip: "ip_recv_process 14 r = r\<lparr>rcv_port := sp, rcv_size := of_nat (length data), rcv_addr := src,
      rcv_buff := data @ drop (length data) (rcv_buff r)\<rparr>"
    using proto ips port payload lt assms(7) n by (simp add: ip_recv_process_def Let_def)
  have "memcmp mac (local_mac r) 6 = 0 \<or> memcmp mac (arp_mac (arp_table r ! 0)) 6 = 0"
    using assms(1,6,8,9) by (auto simp: memcmp_zero_iff)
  then show ?thesis using ip by (simp add: process_frame_def Let_def mac type)
qed


text \<open>A node of a small network, for the examples: its card answers every read with \<open>isr\<close> but says \<open>0x22\<close> in its command register.\<close>

definition node :: "u8 \<Rightarrow> u8 list \<Rightarrow> u8 list \<Rightarrow> arp_table_info list \<Rightarrow> net" where
  "node isr mac ip tab =
     \<lparr>io_trace = [], dev8 = \<lambda>t p. if p = 0x300 then 0x22 else isr, dev32 = \<lambda>t p. 0, pci_count = 0, pci_devices = [],
      network_enabled = 1, net_irq = 9, rx_next = 0x47, base_port = 0x300, local_mac = mac, local_ip = ip,
      local_gate = [192, 168, 0, 1], local_net = [255, 255, 255, 0],
      arp_table = \<lparr>arp_ip = replicate 4 0xFF, arp_mac = replicate 6 0xFF\<rparr> # tab @
        replicate (7 - length tab) \<lparr>arp_ip = replicate 4 0, arp_mac = replicate 6 0\<rparr>,
      snd_buff = \<lambda>_. 0, tmp_buff = \<lambda>_. 0, rcv_buff = replicate 256 0, rcv_addr = replicate 4 0,
      rcv_port = 0, rcv_size = 0, ip_id = 0, irqs = \<lambda>_. 0\<rparr>"

lemma nic_ready_node: "isr = 0x40 \<Longrightarrow> nic_ready (node isr mac ip tab)"
  by (auto simp: nic_ready_def node_def settles_def intro: exI [of _ 0])

lemma node_can_send:
  "can_send (node 0x40 [2, 0, 0, 0, 0, 1] [192, 168, 0, 1] [\<lparr>arp_ip = [192, 168, 0, 2], arp_mac = [2, 0, 0, 0, 0, 2]\<rparr>])
     [192, 168, 0, 2] (TableMac 1)"
  unfolding can_send_def using nic_ready_node
  by simp (simp add: node_def mac_at_def get_effective_ip_def find_mac_in_table_def memcmp_def upt_conv_Cons)

text \<open>
  C11: A datagram of at most 202 bytes arrives: when the sender knows the hardware address of the
  destination and of its gateway, \<open>net_send\<close> succeeds and gives the card exactly one frame; whichever node
  with that hardware address stores and dispatches this frame, with no datagram pending and no interrupt
  of its card, hands out through \<open>net_recv\<close> the sender's address and the first bytes of the data, as many
  as its caller has room for, and then nothing pending.
\<close>

theorem datagram_delivered:
  assumes "can_send s dst p" "unat len \<le> length data" "unat len \<le> 202"
    "local_mac r = mac_at s p" "length (arp_mac (arp_table r ! 0)) = 6" "rcv_size r = 0"
    "network_enabled r \<noteq> 0" "\<And>t. dev8 r t (base_port r + NE2K_ISR) = 0"
  shows "\<exists>s' v frame r' r''. net_send dst data len s = Some (0, s') \<and>
    writes (io_trace s') = writes (io_trace s) @ send_writes (base_port s) v frame \<and>
    process_frame (r\<lparr>tmp_buff := store_received frame (tmp_buff r)\<rparr>) = Some ((), r') \<and>
    net_recv room r' =
      Some ((min len room, if len = 0 then None else Some (local_ip s, take (unat (min len room)) data)), r'') \<and>
    rcv_size r'' = 0"
proof -
  let ?d = "take (unat len) data"
  let ?f = "sent_frame s dst p ?d"
  let ?r = "r\<lparr>tmp_buff := store_received ?f (tmp_buff r)\<rparr>"
  let ?r' = "?r\<lparr>rcv_port := 8086, rcv_size := len, rcv_addr := local_ip s, rcv_buff := ?d @ drop (unat len) (rcv_buff r)\<rparr>"
  have ok: "length (local_ip s) = 4" "length dst = 4" "length (local_mac s) = 6" "length (mac_at s p) = 6"
    using assms(1) by (simp_all add: can_send_def)
  have l: "length ?d = unat len" using assms(2) by simp
  have "length ?f \<le> 256" using ok l assms(3) by (simp add: sent_frame_def)
  then have "process_frame ?r = Some ((), ?r')"
    using process_datagram [of "mac_at s p" "local_mac s" "local_ip s" dst ?d ?r _ _ 8086] ok l assms(3-6)
    by (simp add: store_received_put sent_frame_def)
  moreover obtain s' v where "net_send dst data len s = Some (0, s')"
      "writes (io_trace s') = writes (io_trace s) @ send_writes (base_port s) v ?f"
    using net_send_run [OF assms(1-3)] by fastforce
  moreover have "\<exists>r''. net_recv room ?r' =
      Some ((min len room, if len = 0 then None else Some (local_ip s, take (unat (min len room)) data)), r'') \<and>
      rcv_size r'' = 0"
  proof -
    have "net_handler ?r' = Some ((), ?r'\<lparr>io_trace := In8 (base_port r + 7) 0 # io_trace r\<rparr>)"
      using assms(7,8) by (simp add: net_handler_def isr_loop.simps)
    moreover have "(if len < room then len else room) = min len room" by (auto simp: min_def)
    ultimately show ?thesis using assms(7) l
      by (auto simp: net_recv_def Let_def word_greater_zero_iff min_def word_le_nat_alt)
  qed
  ultimately show ?thesis by blast
qed

theorem datagram_delivered_witness:
  defines "a \<equiv> node 0x40 [2, 0, 0, 0, 0, 1] [192, 168, 0, 1] [\<lparr>arp_ip = [192, 168, 0, 2], arp_mac = [2, 0, 0, 0, 0, 2]\<rparr>]"
    and "b \<equiv> node 0 [2, 0, 0, 0, 0, 2] [192, 168, 0, 2] []"
  shows "\<exists>s' v frame r' r''. net_send [192, 168, 0, 2] [1, 2, 3] 3 a = Some (0, s') \<and>
    writes (io_trace s') = writes (io_trace a) @ send_writes (base_port a) v frame \<and>
    process_frame (b\<lparr>tmp_buff := store_received frame (tmp_buff b)\<rparr>) = Some ((), r') \<and>
    net_recv 2 r' = Some ((2, Some ([192, 168, 0, 1], [1, 2])), r'') \<and> rcv_size r'' = 0"
proof -
  have send: "can_send a [192, 168, 0, 2] (TableMac 1)" unfolding a_def by (rule node_can_send)
  have mac: "local_mac b = mac_at a (TableMac 1)" by (simp add: a_def b_def node_def mac_at_def)
  have ip: "local_ip a = [192, 168, 0, 1]" by (simp add: a_def node_def)
  note d = datagram_delivered [OF send, of 3 "[1, 2, 3]" b 2, unfolded ip]
  have "min 3 2 = (2 :: u16)" by (simp add: min_def)
  with d [OF _ _ mac] show ?thesis by (simp add: b_def node_def)
qed

text \<open>
  C37: A datagram of at most 198 bytes leaves the memory behind the send buffer alone, whatever its
  data; one of 202 bytes, the largest that is not cut, has the checksum of its frame written over the
  four bytes that follow the buffer.
\<close>

theorem send_buffer_overrun:
  assumes "can_send s dst p" "unat len \<le> length data" "unat len \<le> 202"
  shows "\<exists>s'. net_send dst data len s = Some (0, s') \<and> (unat len \<le> 198 \<longrightarrow> (\<forall>x. x \<ge> 256 \<longrightarrow> snd_buff s' x = snd_buff s x)) \<and>
    (len = 202 \<longrightarrow> get_mem (snd_buff s') 256 4 =
       le32 (crc32_byte (take 244 (sent_frame s dst p (take (unat len) data)))))"
proof -
  let ?f = "sent_frame s dst p (take (unat len) data)"
  have ok: "length (local_ip s) = 4" "length dst = 4" "length (local_mac s) = 6" "length (mac_at s p) = 6"
    using assms(1) by (simp_all add: can_send_def)
  have lf: "length ?f = unat len + 46" using ok assms(2) by (simp add: sent_frame_def)
  obtain m s' where r: "net_send dst data len s = Some (0, s')" and b: "snd_buff s' = put_mem m 12 ?f" and k: "\<And>x. x \<ge> 256 \<Longrightarrow> m x = snd_buff s x"
    using net_send_run [OF assms(1-3)] by fastforce
  have "snd_buff s' x = snd_buff s x" if "unat len \<le> 198" "x \<ge> 256" for x
    using that lf k by (simp add: b put_mem_nat word_le_nat_alt)
  moreover have "get_mem (snd_buff s') 256 4 = le32 (crc32_byte (take 244 ?f))" if "len = 202"
  proof -
    obtain h where h: "?f = h @ le32 (crc32_byte h)" unfolding sent_frame_def ether_frame_def Let_def by blast
    then have "length h = 244" using lf that by simp
    then show ?thesis unfolding b using h by (subst get_put_mem [where k = 244]) simp_all
  qed
  ultimately show ?thesis using r by blast
qed

theorem send_buffer_overrun_witness:
  defines "a \<equiv> node 0x40 [2, 0, 0, 0, 0, 1] [192, 168, 0, 1] [\<lparr>arp_ip = [192, 168, 0, 2], arp_mac = [2, 0, 0, 0, 0, 2]\<rparr>]"
  shows "\<exists>s'. net_send [192, 168, 0, 2] (replicate 202 7) 202 a = Some (0, s') \<and>
    get_mem (snd_buff s') 256 4 =
      le32 (crc32_byte (take 244 (sent_frame a [192, 168, 0, 2] (TableMac 1) (replicate 202 7))))"
proof -
  have "can_send a [192, 168, 0, 2] (TableMac 1)" unfolding a_def by (rule node_can_send)
  from send_buffer_overrun [OF this, of 202 "replicate 202 7"] show ?thesis by auto
qed

text \<open>
  The identification of a packet is not the next value of the counter with its bytes swapped: from 254 on,
  for one, the high byte of the value after the next is already in the field.
\<close>

lemma ident_mixes_two_values: "ident_field 0xFE = 0xFF01 \<and> BSWAP_16 (0xFE + 1) = 0xFF00"
  by (simp add: ident_field_def BSWAP_16_def)

text \<open>
  However long the packet that a card announces is, storing it changes no byte outside the 256 of the
  buffer; a packet that fits is stored as it is, of a longer one the first 255 bytes and its last.
\<close>

lemma received_packet_stays_in_buffer:
  assumes "length data \<le> 65535"
  shows "(\<forall>x. x \<ge> 256 \<longrightarrow> store_received data m x = m x) \<and>
    get_mem (store_received data m) 0 (min (length data) 256) =
      (if length data \<le> 256 then data else take 255 data @ [last data])"
proof -
  have "put_mem m 0 xs x = m x" if "length xs \<le> 256" "x \<ge> 256" for xs :: "u8 list" and x
    using that by (simp add: put_mem_def word_le_nat_alt)
  then show ?thesis by (auto simp: store_received_all [OF assms] get_put_mem0)
qed

end
