(* ===== verification/File_Samples.thy ===== *)
theory File_Samples
  imports File_Calls Net_Frames
begin

text \<open>
  Concrete states for the system calls: a program loaded at segment 0x1800 whose path is the string of one
  letter at offset 0x100, and a machine whose disk holds the sample file system of \<open>Fs_Contents\<close>. The file
  system calls of \<open>File_Calls\<close> are applied to them.
\<close>

subsection \<open>Samples\<close>

definition sample_program :: program where "sample_program = \<lparr>seg = 0x1800, frame = 0xFF00\<rparr>"

definition sample_net :: net where
  "sample_net = \<lparr>io_trace = [], dev8 = \<lambda>_ _. 0, dev32 = \<lambda>_ _. 0, pci_count = 0, pci_devices = [],
     network_enabled = 0, net_irq = 0, rx_next = 0, base_port = 0, local_mac = replicate 6 0, local_ip = replicate 4 0,
     local_gate = replicate 4 0, local_net = replicate 4 0, arp_table = [], snd_buff = \<lambda>_. 0, tmp_buff = \<lambda>_. 0,
     rcv_buff = [], rcv_addr = [], rcv_port = 0, rcv_size = 0, ip_id = 0, irqs = \<lambda>_. 0\<rparr>"

definition sample_kernel :: kernel where
  "sample_kernel = \<lparr>far = \<lambda>x. if x = 0x18100 then 97 else if x = 0x18101 then 0 else 1, kfs = demo_fs, heap_addr = 256,
     kheap = heap_init (replicate HEAP_MAX_BLOCK \<lparr>used = 7, ptr = 9\<rparr>), klmem = lmem_init, knet = sample_net, events = [],
     key_dev = \<lambda>_. 0, cursor_dev = \<lambda>_. (0, 0), graphics_mode = 0, screen_width_c = 80, screen_height_c = 50, screen_width_px = 0,
     screen_height_px = 0, mouse_x = 0, mouse_y = 0, mouse_b = 0, serial_debug = 0, timer = \<lambda>n. of_nat n, timer_reads = 0,
     stack_junk = \<lambda>_. 0xCC, kernel_frame = 0xFF00\<rparr>"

lemma sample_params:
  "param_at sample_program = 0x27F00" "lp (seg sample_program) 0x100 = 0x18100" "lp (seg sample_program) 0x300 = 0x18300"
  "lp (seg sample_program) 0x800 = 0x18800"
  by (simp_all add: param_at_def lp_def sample_program_def)

lemma sample_path: "path_at (far sample_kernel) 0x18100 = bytes ''a''"
  by (simp add: path_at_def cstring_def sample_kernel_def fget_def lmem_getbyte_def upt_conv_Cons phys_add phys_def)

lemma sample_file: "file_at (kfs sample_kernel) (bytes ''a'') 0 [bytes ''a''] 1 (demo_entries ! 1) 2 [1]"
  using demo_mounted demo_denotes demo_a demo_laid_out by (simp add: file_at_def sample_kernel_def)

lemma sample_disjoint:
  "disjoint_ranges 0x27F00 14 0x18100 MAX_PATH" "disjoint_ranges 0x27F00 14 0x18300 600"
  using phys_offset [of "0x18100" _ "0x27F00"] phys_offset [of "0x18300" _ "0x27F00"]
  by (simp_all add: disjoint_ranges_def)


lemma sample_contents: "contents (disk_of (kfs sample_kernel) 0) (demo_entries ! 1) = replicate 600 0"
  by (simp add: contents_def file_bytes_def blocks_of_def sample_kernel_def)
    (simp add: mk_entry_def zero_entry_def image_of_def demo_entries_def replicate_add [symmetric])

theorem read_file_call_witness:
  "\<exists>s'. read_file sample_program 0x300 0x100 510 100 sample_kernel = Some (90, s') \<and>
    fget (far s') 0x18300 90 = replicate 90 0"
proof -
  obtain ps where ps: "read_file sample_program 0x300 0x100 510 100 sample_kernel =
      Some (90, sample_kernel\<lparr>far := fput (fput (far sample_kernel) 0x27F00 ps) 0x18300 (replicate 90 0)\<rparr>)"
    using read_file_call [of sample_kernel sample_program "0x100" 0 "[bytes ''a'']" 1 "demo_entries ! 1" 2 "[1]" 100 510 "0x300"]
      sample_file sample_disjoint sample_contents by (auto simp: sample_params sample_path)
  then show ?thesis using fget_fput0 [of 90 "replicate 90 (0 :: u8)"] by simp
qed

text \<open>The buffer of the sample program, which holds 600 bytes of 1 whatever the path is.\<close>

lemma sample_data:
  assumes "\<And>x. x \<noteq> 0x18100 \<Longrightarrow> m x = far sample_kernel x"
  shows "fget m 0x18300 600 = replicate 600 1"
proof (rule nth_equalityI)
  fix i assume "i < length (fget m 0x18300 600)"
  then have i: "i < 600" by simp
  have "unat (0x18300 + of_nat i :: u20) = 0x18300 + i"
    using i by (simp add: unat_word_ariths unat_of_nat)
  then have "(0x18300 + of_nat i :: u20) \<noteq> 0x18100" "(0x18300 + of_nat i :: u20) \<noteq> 0x18101"
    using i by (auto simp: word_unat_eq_iff)
  then show "fget m 0x18300 600 ! i = replicate 600 1 ! i"
    using i assms by (simp add: nth_fget) (simp add: sample_kernel_def)
qed simp

theorem written_file_reads_back_witness:
  "\<exists>s'. write_file sample_program 0x300 0x100 0 600 0 sample_kernel = Some (600, s') \<and>
    (\<exists>s''. read_file sample_program 0x800 0x100 0 600 s' = Some (600, s'') \<and> fget (far s'') 0x18800 600 = replicate 600 1)"
proof -
  have data: "fget (far sample_kernel) 0x18300 600 = replicate 600 1" by (rule sample_data [OF refl])
  have size: "unat (e_size (demo_entries ! 1)) = 600" by (simp add: mk_entry_def)
  have splice: "splice 0 (replicate 600 1) (replicate 600 (0 :: u8)) = replicate 600 1" by (simp add: splice_def)
  have pre: "file_at (kfs sample_kernel) (path_at (far sample_kernel) (lp (seg sample_program) 0x100)) 0 [bytes ''a''] 1
        (demo_entries ! 1) 2 [1]"
      "disjoint_ranges (param_at sample_program) 14 (lp (seg sample_program) 0x100) MAX_PATH"
      "disjoint_ranges (param_at sample_program) 14 (lp (seg sample_program) 0x300) (unat (600 :: u16))"
      "unat (0 :: u16) + unat (600 :: u16) \<le> unat (e_size (demo_entries ! 1))" "0 AND WF_TRUNCATE = 0"
    using sample_file sample_disjoint size by (simp_all add: sample_params sample_path)
  from written_file_reads_back [OF pre]
  obtain s' where w: "write_file sample_program 0x300 0x100 0 600 0 sample_kernel = Some (600, s')" and
    all: "\<forall>buff' o' c'. let D = take (unat c') (drop (unat o') (splice (unat (0 :: u16))
          (fget (far sample_kernel) (lp (seg sample_program) 0x300) (unat (600 :: u16)))
          (contents (disk_of (kfs sample_kernel) 0) (demo_entries ! 1))))
      in \<exists>s''. read_file sample_program buff' 0x100 o' c' s' = Some (of_nat (length D), s'') \<and>
        fget (far s'') (lp (seg sample_program) buff') (length D) = D"
    by blast
  from all [THEN spec [of _ "0x800"], THEN spec [of _ 0], THEN spec [of _ 600]]
  have "\<exists>s''. read_file sample_program 0x800 0x100 0 600 s' = Some (600, s'') \<and> fget (far s'') 0x18800 600 = replicate 600 1"
    using data sample_contents splice by (simp add: sample_params Let_def)
  then show ?thesis using w by blast
qed

end
