(* ===== verification/Cli_Config.thy ===== *)
theory Cli_Config
  imports Cli File_Samples
begin

section \<open>Command lines and the configuration file\<close>

text \<open>
  The arguments of a command are the words of its line. A script runs its lines one after the other; the one
  \<open>config save\<close> writes sets the configuration it was written with again.
\<close>

subsection \<open>Words\<close>

abbreviation space :: u8 where "space \<equiv> of_char (CHR '' '')"

text \<open>The reference: the maximal runs of characters other than spaces.\<close>

function line_words :: "u8 list \<Rightarrow> u8 list list" where
  "line_words [] = []"
| "line_words (c # s) =
     (if c = space then line_words s
      else (c # takeWhile (\<lambda>c. c \<noteq> space) s) # line_words (dropWhile (\<lambda>c. c \<noteq> space) s))"
  by pat_completeness auto
termination
  by (relation "measure length") (auto simp: le_imp_less_Suc length_dropWhile_le)

lemma line_words_skip: "line_words (dropWhile (\<lambda>c. c = space) s) = line_words s"
  by (induction s) auto

lemma line_words_word:
  "w \<noteq> [] \<Longrightarrow> space \<notin> set w \<Longrightarrow> line_words (w @ r) =
    (w @ takeWhile (\<lambda>c. c \<noteq> space) r) # line_words (dropWhile (\<lambda>c. c \<noteq> space) r)"
proof (cases w)
  case (Cons c cs)
  assume "space \<notin> set w"
  then have "\<forall>x \<in> set cs. x \<noteq> space" "c \<noteq> space" using Cons by auto
  then show ?thesis by (simp add: Cons takeWhile_append2 dropWhile_append2)
qed simp

lemma strtok_words:
  assumes "p \<le> length str" "strtok_list str p space = (a, tok, next)"
  shows "line_words (drop p str) = (if tok = [] then [] else tok # line_words (drop next str)) \<and> next \<le> length str \<and>
    (tok = [] \<longrightarrow> next = length str)"
proof -
  define k where "k = length (takeWhile (\<lambda>c. c = space) (drop p str))"
  define r where "r = dropWhile (\<lambda>c. c = space) (drop p str)"
  have a: "a = p + k" "tok = takeWhile (\<lambda>c. c \<noteq> space) (drop a str)"
    "next = (if a + length tok < length str then a + length tok + 1 else a + length tok)"
    using assms(2) by (auto simp: strtok_list_def skip_delim_def k_def Let_def split: if_splits)
  have r: "drop a str = r" unfolding r_def a(1) k_def dropWhile_eq_drop by (simp add: add.commute)
  have "k \<le> length (drop p str)" unfolding k_def by (rule length_takeWhile_le)
  then have al: "a \<le> length str" using assms(1) a(1) by simp
  have "length tok \<le> length (drop a str)" unfolding a(2) by (rule length_takeWhile_le)
  then have nl: "next \<le> length str" using al a(3) by auto
  have w: "line_words (drop p str) = line_words r" unfolding r_def by (simp only: line_words_skip)
  show ?thesis
  proof (cases r)
    case Nil
    then have "a = length str" "tok = []" using r al a(2) by simp_all
    then show ?thesis using w nl a(3) Nil by simp
  next
    case (Cons c s)
    then have c: "c \<noteq> space" using hd_dropWhile [of "\<lambda>c. c = space" "drop p str"] by (auto simp: r_def)
    then have tok: "tok = c # takeWhile (\<lambda>c. c \<noteq> space) s" using a(2) r Cons by simp
    have rest: "drop (length tok) r = dropWhile (\<lambda>c. c \<noteq> space) s"
      using tok Cons by (simp add: dropWhile_eq_drop)
    have "line_words (drop next str) = line_words (dropWhile (\<lambda>c. c \<noteq> space) s)"
    proof (cases "a + length tok < length str")
      case True
      have "dropWhile (\<lambda>c. c \<noteq> space) s = drop (a + length tok) str" using rest r by (metis add.commute drop_drop)
      also have "\<dots> = str ! (a + length tok) # drop (a + length tok + 1) str" using True by (simp add: Cons_nth_drop_Suc)
      finally have e: "dropWhile (\<lambda>c. c \<noteq> space) s = str ! (a + length tok) # drop next str" using a(3) True by simp
      then have "str ! (a + length tok) = space" using hd_dropWhile [of "\<lambda>c. c \<noteq> space" s] by auto
      then show ?thesis using e by simp
    next
      case False
      then have n: "drop next str = []" "drop (length tok) r = []" using a(3) r by (auto simp: add.commute)
      show ?thesis unfolding rest [symmetric] n by (rule refl)
    qed
    then show ?thesis using w tok Cons c nl by simp
  qed
qed

lemma arguments_words:
  "p \<le> length str \<Longrightarrow> length argv \<le> 4 \<Longrightarrow> arguments str p argv = argv @ take (4 - length argv) (line_words (drop p str))"
proof (induction str p argv rule: arguments.induct)
  case (1 str p argv)
  show ?case
  proof (cases "p < length str \<and> length argv < 4")
    case True
    obtain a tok nxt where t: "strtok_list str p space = (a, tok, nxt)" by (cases "strtok_list str p space") auto
    have w: "line_words (drop p str) = (if tok = [] then [] else tok # line_words (drop nxt str))" "nxt \<le> length str"
      using strtok_words [of p str a tok nxt] t True by auto
    have step: "arguments str p argv = arguments str nxt (if tok \<noteq> [] then argv @ [tok] else argv)"
      using True t by (subst arguments.simps) simp
    have ih: "arguments str nxt (if tok \<noteq> [] then argv @ [tok] else argv) =
        (if tok \<noteq> [] then argv @ [tok] else argv) @
          take (4 - length (if tok \<noteq> [] then argv @ [tok] else argv)) (line_words (drop nxt str))"
      by (rule "1.IH" [OF _ t [symmetric] refl refl]) (use True w(2) in auto)
    show ?thesis
    proof (cases "tok = []")
      case tok: True
      then have "nxt = length str" using strtok_words [of p str a tok nxt] t True by auto
      then show ?thesis using step ih tok w by simp
    next
      case False
      then obtain m where "4 - length argv = Suc m" using True by (cases "4 - length argv") auto
      moreover from this have "3 - length argv = m" by simp
      ultimately show ?thesis using step ih False w(1) by simp
    qed
  next
    case False
    then show ?thesis using "1.prems" by (subst arguments.simps) auto
  qed
qed

text \<open>
  C38: The arguments of a command are the first four words of its line, whatever spaces are before, between and behind
  them: tokenising with \<open>strtok\<close> is splitting at runs of spaces.
\<close>

theorem arguments_are_words: "arguments str 0 [] = take 4 (line_words str)"
  using arguments_words [of 0 str "[]"] by simp

subsection \<open>A configuration command\<close>

lemma word_list:
  assumes "w \<noteq> []" "space \<notin> set w"
  shows "line_words (w @ space # r) = w # line_words r" "line_words w = [w]"
proof -
  show "line_words (w @ space # r) = w # line_words r" using line_words_word [OF assms, of "space # r"] by simp
  show "line_words w = [w]" using line_words_word [OF assms, of "[]"] by simp
qed

lemma execute_config:
  assumes "var \<noteq> []" "space \<notin> set var" "v \<noteq> []" "space \<notin> set v"
  shows "execute c (bytes ''config'' @ space # var @ space # v) = config_set c var v"
proof -
  have "line_words (bytes ''config'' @ space # var @ space # v) = [bytes ''config'', var, v]"
    using word_list(1) [OF assms(1,2)] word_list(2) [OF assms(3,4)] word_list(1) [of "bytes ''config''"] by simp
  then have "arguments (bytes ''config'' @ space # var @ space # v) 0 [] = [bytes ''config'', var, v]"
    using arguments_words [of 0 "bytes ''config'' @ space # var @ space # v" "[]"] by simp
  then show ?thesis by (simp add: execute_def strcmp_zero_iff cli_config_def)
qed

subsection \<open>The text of the configuration\<close>

lemma strcat_parts:
  assumes "unat n = N"
  shows "0 \<notin> set t \<Longrightarrow> length t + length (concat (map cstring parts)) < N \<Longrightarrow>
    foldl (\<lambda>b p. snd (strcat_s b p n)) (t @ replicate (N - length t) 0) parts =
      t @ concat (map cstring parts) @ replicate (N - length t - length (concat (map cstring parts))) 0"
proof (induction parts arbitrary: t)
  case (Cons p parts)
  let ?t = "t @ cstring p"
  obtain j where j: "N - length t = Suc j" using Cons.prems by (cases "N - length t") auto
  have c: "cstring (t @ replicate (N - length t) 0) = t" using Cons.prems(1) j by simp
  have "snd (strcat_s (t @ replicate (N - length t) 0) p n) = ?t @ 0 # drop (length ?t + 1) (t @ replicate (N - length t) 0)"
    using strcat_s_ok [of n "t @ replicate (N - length t) 0" p] Cons.prems assms by (simp add: c)
  also have "0 # drop (length ?t + 1) (t @ replicate (N - length t) 0) = replicate (N - length ?t) (0 :: u8)"
    using Cons.prems by (simp add: Cons_replicate_eq)
  finally have "snd (strcat_s (t @ replicate (N - length t) 0) p n) = ?t @ replicate (N - length ?t) 0" .
  then show ?case using Cons.IH [of ?t] Cons.prems cstring_nonzero [of p] by simp
qed simp

definition on_off :: "u16 \<Rightarrow> u8 list" where
  "on_off v = (if v \<noteq> 0 then bytes ''enabled'' else bytes ''disabled'')"

definition config_lines :: "u16 \<Rightarrow> u16 \<Rightarrow> u8 list \<Rightarrow> u8 list \<Rightarrow> (u8 list \<times> u8 list) list" where
  "config_lines d g ip gate =
     [(bytes ''debug'', on_off d), (bytes ''graphics'', on_off g), (bytes ''net_IP'', dotted ip), (bytes ''net_gate'', dotted gate)]"

definition config_line :: "u8 list \<times> u8 list \<Rightarrow> u8 list" where
  "config_line l = bytes ''config'' @ space # fst l @ space # snd l"

definition config_text :: "u16 \<Rightarrow> u16 \<Rightarrow> u8 list \<Rightarrow> u8 list \<Rightarrow> u8 list" where
  "config_text d g ip gate = concat (map (\<lambda>l. config_line l @ [10]) (config_lines d g ip gate))"

lemma cstring_ip_to_str: "cstring (ip_to_str ip) = dotted ip"
proof -
  have "16 - length (dotted ip) = Suc (15 - length (dotted ip))" using dotted_facts(1) [of ip] by simp
  then show ?thesis unfolding ip_to_str_ok using dotted_facts(2) [of ip] by simp
qed

lemma config_text_facts:
  "length (config_text d g ip gate) \<le> 120" "0 \<notin> set (config_text d g ip gate)"
  using dotted_facts [of ip] dotted_facts [of gate]
  by (simp_all add: config_text_def config_lines_def config_line_def on_off_def)

lemma config_buffer_text:
  "config_buffer d g ip gate = config_text d g ip gate @ replicate (512 - length (config_text d g ip gate)) 0"
proof -
  have "concat (map cstring (config_parts d g ip gate)) = config_text d g ip gate"
    unfolding config_parts_def config_text_def config_lines_def config_line_def list.map cstring_ip_to_str
    by (simp add: on_off_def)
  then show ?thesis
    using strcat_parts [of 512 512 "[]" "config_parts d g ip gate"] config_text_facts(1) [of d g ip gate]
    by (simp add: config_buffer_def)
qed

text \<open>What \<open>config save\<close> writes: the text and its terminator.\<close>

lemma saved_count: "unat (strlen (config_buffer d g ip gate) + 1) = length (config_text d g ip gate) + 1"
proof -
  let ?T = "config_text d g ip gate"
  obtain j where j: "512 - length ?T = Suc j" using config_text_facts(1) [of d g ip gate] by (cases "512 - length ?T") auto
  then have "strlen (config_buffer d g ip gate) = of_nat (length ?T)"
    using config_text_facts(2) [of d g ip gate] by (simp add: config_buffer_text strlen_cstring)
  then have "strlen (config_buffer d g ip gate) + 1 = of_nat (length ?T + 1)" by simp
  then show ?thesis using config_text_facts(1) [of d g ip gate] by (simp only: unat_of_nat_u16)
qed

lemma saved_bytes:
  "take (unat (strlen (config_buffer d g ip gate) + 1)) (config_buffer d g ip gate) = config_text d g ip gate @ [0]"
proof -
  let ?T = "config_text d g ip gate"
  obtain j where "512 - length ?T = Suc j" using config_text_facts(1) [of d g ip gate] by (cases "512 - length ?T") auto
  then show ?thesis unfolding saved_count by (simp add: config_buffer_text)
qed

subsection \<open>Scripts\<close>

text \<open>A step of a script whose file holds \<open>C\<close>.\<close>

definition script :: "fs_state \<Rightarrow> u8 list \<Rightarrow> u8 list \<Rightarrow> bool" where
  "script f path C \<longleftrightarrow> length C < 65536 \<and>
     (\<forall>off. fs_read_file f path off 72 = (let b = take 72 (drop (unat off) C) in Inr (of_nat (length b), b)))"

lemma script_line:
  assumes "script (kfs s) path C" "C = pre @ l @ 10 # rest" "length l < 72" "10 \<notin> set l" "0 \<notin> set l"
  shows "cli_exec_file c path (of_nat (length pre)) s =
    nbind (execute c l) (\<lambda>_ s. cli_exec_file c path (of_nat (length pre + length l + 1)) s) s"
proof -
  let ?b = "take 72 (l @ 10 # rest)"
  have u: "unat (of_nat (length pre) :: u16) = length pre"
    using assms(1,2) by (simp add: script_def unat_of_nat_u16)
  have r: "fs_read_file (kfs s) path (of_nat (length pre)) 72 = Inr (of_nat (length ?b), ?b)"
    using assms(1,2) by (simp add: script_def u Let_def)
  have len: "0 < length ?b" "length ?b \<le> 72" by auto
  have ub: "unat (of_nat (length ?b) :: u16) = length ?b"
    by (rule unat_of_nat_u16) (rule le_less_trans [OF len(2)], simp)
  have "(of_nat (length ?b) :: u16) \<noteq> 0" "\<not> (of_nat (length ?b) :: u16) \<ge> ERROR_ANY"
    using len ub by (auto simp: word_le_nat_alt word_unat_eq_iff)
  note nz = this
  have b: "?b = l @ 10 # take (71 - length l) rest"
  proof -
    have "72 - length l = Suc (71 - length l)" using assms(3) by simp
    then show ?thesis by simp
  qed
  have "line_break ?b = Some (length l)"
    unfolding line_break_def find_upt_Some_iff b using assms(4) by (auto simp: nth_append in_set_conv_nth)
  moreover have "local_buff s (unat (of_nat (length ?b) :: u16)) ?b = ?b" unfolding ub by (rule local_buff_full)
  moreover have "cstring (take (length l) ?b) = l" unfolding b using assms(5) by (simp add: cstring_id)
  moreover have "(of_nat (length pre) :: u16) + 1 + of_nat (length l) = of_nat (length pre + length l + 1)" by simp
  ultimately show ?thesis
    using r nz by (subst cli_exec_file.simps) (simp only: sum.case prod.case Let_def option.case if_False simp_thms)
qed

lemma script_end:
  assumes "script (kfs s) path C" "C = pre @ 0 # rest" "10 \<notin> set rest"
  shows "cli_exec_file c path (of_nat (length pre)) s = Some ((), s)"
proof -
  let ?b = "take 72 (0 # rest)"
  have "unat (of_nat (length pre) :: u16) = length pre"
    using assms by (simp add: script_def unat_of_nat_u16)
  then have r: "fs_read_file (kfs s) path (of_nat (length pre)) 72 = Inr (of_nat (length ?b), ?b)"
    using assms by (simp add: script_def Let_def)
  have "unat (of_nat (length ?b) :: u16) = length ?b" by (rule unat_of_nat_u16) simp
  then have "local_buff s (unat (of_nat (length ?b) :: u16)) ?b = ?b" by (simp only: local_buff_full)
  moreover have "\<forall>i < length ?b. ?b ! i \<noteq> 10"
  proof (intro allI impI)
    fix i assume "i < length ?b"
    then have "?b ! i \<in> set (0 # rest)" by (intro in_set_takeD [OF nth_mem])
    then show "?b ! i \<noteq> 10" using assms(3) by auto
  qed
  then have "line_break ?b = None" unfolding line_break_def find_upt_None_iff .
  ultimately show ?thesis
    using r by (subst cli_exec_file.simps) (simp only: sum.case prod.case Let_def option.case nret_def if_cancel)
qed

subsection \<open>The configuration comes back\<close>

lemma digit_range: "d < 10 \<Longrightarrow> 48 \<le> unat (digit_char (of_nat d)) \<and> unat (digit_char (of_nat d)) \<le> 57"
proof -
  have "list_all (\<lambda>d. 48 \<le> unat (digit_char (of_nat d)) \<and> unat (digit_char (of_nat d)) \<le> 57) [0 ..< 10]"
    by code_simp
  then show "d < 10 \<Longrightarrow> ?thesis" by (simp add: list_all_iff)
qed

lemma dec8_chars: "x \<in> set (dec8 b) \<Longrightarrow> 48 \<le> unat x \<and> unat x \<le> 57"
  using digits_below_number [of 10 "unat b"] digit_range by (auto simp: digits_below_def list_all_iff)

lemma dotted_chars: "space \<notin> set (dotted ip)" "10 \<notin> set (dotted ip)" "dotted ip \<noteq> []"
  using dec8_chars dec8_facts(2) [of "ip ! 0"] by (fastforce simp: dotted_def)+

lemma str_to_ip_dotted:
  assumes "length ip = 4" "length ip0 = 4"
  shows "str_to_ip ip0 (dotted ip) = ip"
proof -
  have "cstring (snd (strcpy_s (replicate 24 0) (dotted ip) 24)) = dotted ip"
    using dotted_facts [of ip] by (simp add: strcpy_s_ok cstring_id)
  then show ?thesis using ip_tokens_dotted [OF assms] by (simp add: str_to_ip_def)
qed

text \<open>The state a configuration file leaves: the parts of the configuration, and what else has changed.\<close>

definition configured :: "u16 \<Rightarrow> u16 \<Rightarrow> u8 list \<Rightarrow> u8 list \<Rightarrow> kernel \<Rightarrow> kernel \<Rightarrow> bool" where
  "configured d g ip gate s s' \<longleftrightarrow>
     serial_debug s' = (if d \<noteq> 0 then 1 else 0) \<and> graphics_mode s' = (if g \<noteq> 0 then 1 else 0) \<and>
     local_ip (knet s') = ip \<and> local_gate (knet s') = gate \<and>
     kfs s' = kfs s \<and> far s' = far s \<and> kheap s' = kheap s \<and> klmem s' = klmem s"

lemma config_names:
  "strcmp (bytes ''debug'') (bytes ''debug'') = 0" "strcmp (bytes ''graphics'') (bytes ''debug'') \<noteq> 0"
  "strcmp (bytes ''graphics'') (bytes ''graphics'') = 0" "strcmp (bytes ''net_IP'') (bytes ''debug'') \<noteq> 0"
  "strcmp (bytes ''net_IP'') (bytes ''graphics'') \<noteq> 0" "strcmp (bytes ''net_IP'') (bytes ''net_IP'') = 0"
  "strcmp (bytes ''net_gate'') (bytes ''debug'') \<noteq> 0" "strcmp (bytes ''net_gate'') (bytes ''graphics'') \<noteq> 0"
  "strcmp (bytes ''net_gate'') (bytes ''net_IP'') \<noteq> 0" "strcmp (bytes ''net_gate'') (bytes ''net_gate'') = 0"
  "strcmp (bytes ''enabled'') (bytes ''enabled'') = 0" "strcmp (bytes ''disabled'') (bytes ''enabled'') \<noteq> 0"
  "strcmp (bytes ''disabled'') (bytes ''disabled'') = 0"
  by (simp_all add: strcmp_zero_iff)

lemma config_set_debug: "config_set c (bytes ''debug'') (on_off d) s = Some ((), s\<lparr>serial_debug := if d \<noteq> 0 then 1 else 0\<rparr>)"
  by (simp add: config_set_def on_off_def config_names del: bytes_simps)

lemma config_set_graphics:
  "\<exists>s'. config_set c (bytes ''graphics'') (on_off g) s = Some ((), s') \<and> graphics_mode s' = (if g \<noteq> 0 then 1 else 0) \<and>
    serial_debug s' = serial_debug s \<and> knet s' = knet s \<and> kfs s' = kfs s \<and> far s' = far s \<and> kheap s' = kheap s \<and>
    klmem s' = klmem s"
  by (simp add: config_set_def on_off_def config_names io_set_graphics_mode_def io_set_text_mode_def emit_def nbind_def
      del: bytes_simps)

lemma config_set_ip:
  assumes "length ip = 4" "length (local_ip (knet s)) = 4"
  shows "config_set c (bytes ''net_IP'') (dotted ip) s = Some ((), s\<lparr>knet := (knet s)\<lparr>local_ip := ip\<rparr>\<rparr>)"
  by (simp add: config_set_def config_names str_to_ip_dotted [OF assms] del: bytes_simps)

lemma config_set_gate:
  assumes "length gate = 4" "length (local_gate (knet s)) = 4"
  shows "config_set c (bytes ''net_gate'') (dotted gate) s = Some ((), s\<lparr>knet := (knet s)\<lparr>local_gate := gate\<rparr>\<rparr>)"
  by (simp add: config_set_def config_names str_to_ip_dotted [OF assms] del: bytes_simps)

primrec run_lines :: "console \<Rightarrow> u8 list list \<Rightarrow> unit kernelm" where
  "run_lines c [] = nret ()"
| "run_lines c (l # ls) = nbind (execute c l) (\<lambda>_. run_lines c ls)"

definition one_line :: "u8 list \<Rightarrow> bool" where
  "one_line l \<longleftrightarrow> length l < 72 \<and> 10 \<notin> set l \<and> 0 \<notin> set l"

lemma script_lines:
  assumes "\<forall>l \<in> set ls. one_line l \<and> (\<forall>s s'. execute c l s = Some ((), s') \<longrightarrow> kfs s' = kfs s)" "10 \<notin> set rest"
  shows "script (kfs s) path (pre @ concat (map (\<lambda>l. l @ [10]) ls) @ 0 # rest) \<Longrightarrow> run_lines c ls s = Some ((), s') \<Longrightarrow>
    cli_exec_file c path (of_nat (length pre)) s = Some ((), s')"
  using assms
proof (induction ls arbitrary: pre s)
  case Nil
  then show ?case using script_end [of s path "pre @ 0 # rest" pre rest] by simp
next
  case (Cons l ls)
  let ?C = "pre @ concat (map (\<lambda>l. l @ [10]) (l # ls)) @ 0 # rest"
  obtain s1 where s1: "execute c l s = Some ((), s1)" "run_lines c ls s1 = Some ((), s')"
    using Cons.prems(2) by (auto simp: nbind_def bind_eq_Some_conv)
  have "kfs s1 = kfs s" using Cons.prems(3) s1(1) by auto
  then have "script (kfs s1) path ((pre @ l @ [10]) @ concat (map (\<lambda>l. l @ [10]) ls) @ 0 # rest)"
    using Cons.prems(1) by simp
  from Cons.IH [OF this s1(2)] have ih: "cli_exec_file c path (of_nat (length (pre @ l @ [10]))) s1 = Some ((), s')"
    using Cons.prems(3,4) by simp
  have "cli_exec_file c path (of_nat (length pre)) s =
      nbind (execute c l) (\<lambda>_ s. cli_exec_file c path (of_nat (length pre + length l + 1)) s) s"
    using script_line [of s path ?C pre l "concat (map (\<lambda>l. l @ [10]) ls) @ 0 # rest" c] Cons.prems(1,3) by (simp add: one_line_def)
  then show ?case using s1(1) ih by (simp add: algebra_simps)
qed

lemma on_off_chars: "on_off v \<noteq> []" "space \<notin> set (on_off v)" "10 \<notin> set (on_off v)" "0 \<notin> set (on_off v)" "length (on_off v) \<le> 8"
  by (simp_all add: on_off_def)

lemma execute_config_line:
  assumes "l \<in> set (config_lines d g ip gate)"
  shows "execute c (config_line l) = config_set c (fst l) (snd l)" "one_line (config_line l)"
    "config_set c (fst l) (snd l) s = Some ((), s1) \<Longrightarrow> kfs s1 = kfs s"
proof -
  have l: "l = (bytes ''debug'', on_off d) \<or> l = (bytes ''graphics'', on_off g) \<or> l = (bytes ''net_IP'', dotted ip) \<or>
      l = (bytes ''net_gate'', dotted gate)" using assms unfolding config_lines_def by simp
  show "execute c (config_line l) = config_set c (fst l) (snd l)"
    unfolding config_line_def by (rule execute_config) (use l on_off_chars dotted_chars in auto)
  show "one_line (config_line l)"
    using l on_off_chars dotted_chars dotted_facts [of ip] dotted_facts [of gate] on_off_chars(5) [of d] on_off_chars(5) [of g]
    by (elim disjE) (simp_all add: one_line_def config_line_def le_less_trans [OF on_off_chars(5)])
  show "config_set c (fst l) (snd l) s = Some ((), s1) \<Longrightarrow> kfs s1 = kfs s"
    using l
  proof (elim disjE)
    assume "config_set c (fst l) (snd l) s = Some ((), s1)" "l = (bytes ''graphics'', on_off g)"
    then show ?thesis using config_set_graphics [of c g s] by auto
  qed (auto simp: config_set_debug config_set_def [where var = "bytes ''net_IP''"] config_set_def [where var = "bytes ''net_gate''"]
      config_names simp del: bytes_simps)
qed

lemma config_lines_run:
  assumes "length ip = 4" "length (local_ip (knet s)) = 4" "length gate = 4" "length (local_gate (knet s)) = 4"
  shows "\<exists>s'. run_lines c (map config_line (config_lines d g ip gate)) s = Some ((), s') \<and> configured d g ip gate s s'"
proof -
  have run: "execute c (config_line (var, v)) = config_set c var v" if "(var, v) \<in> set (config_lines d g ip gate)" for var v
    using execute_config_line(1) [OF that] by simp
  define s1 where "s1 = s\<lparr>serial_debug := if d \<noteq> 0 then 1 else 0\<rparr>"
  obtain s2 where s2: "config_set c (bytes ''graphics'') (on_off g) s1 = Some ((), s2)" "graphics_mode s2 = (if g \<noteq> 0 then 1 else 0)"
    "serial_debug s2 = serial_debug s1" "knet s2 = knet s1" "kfs s2 = kfs s1" "far s2 = far s1" "kheap s2 = kheap s1"
    "klmem s2 = klmem s1"
    using config_set_graphics [of c g s1] by blast
  define s3 where "s3 = s2\<lparr>knet := (knet s2)\<lparr>local_ip := ip\<rparr>\<rparr>"
  define s4 where "s4 = s3\<lparr>knet := (knet s3)\<lparr>local_gate := gate\<rparr>\<rparr>"
  have e: "execute c (config_line (bytes ''debug'', on_off d)) s = Some ((), s1)"
    "execute c (config_line (bytes ''graphics'', on_off g)) s1 = Some ((), s2)"
    "execute c (config_line (bytes ''net_IP'', dotted ip)) s2 = Some ((), s3)"
    "execute c (config_line (bytes ''net_gate'', dotted gate)) s3 = Some ((), s4)"
    using config_set_debug [of c d s] s2(1) config_set_ip [of ip s2 c] config_set_gate [of gate s3 c] assms s2(4)
    by (simp_all add: run config_lines_def s1_def s3_def s4_def del: bytes_simps)
  then have "run_lines c (map config_line (config_lines d g ip gate)) s = Some ((), s4)"
    by (simp add: config_lines_def del: bytes_simps)
  moreover have "configured d g ip gate s s4"
    using s2 by (simp add: configured_def s4_def s3_def s1_def)
  ultimately show ?thesis by blast
qed

lemma file_script:
  assumes "file_at f path disk cs n e k ns"
  shows "script f path (contents (disk_of f disk) e)"
  using file_at_read [OF assms] file_at_facts [OF assms] by (simp add: script_def)

text \<open>
  C8: The configuration is restored from its file: if a file begins with what \<open>config save\<close> wrote for a debug flag, a mode and
  two addresses, and holds no line feed behind it, then executing it as a script returns and sets exactly
  these four again, whatever they were, and keeps the file system and the memory.
\<close>

theorem config_file_restores:
  fixes s :: kernel and d g :: u16 and ip gate :: "u8 list"
  assumes "file_at (kfs s) path disk cs n e k ns"
  defines "b \<equiv> config_buffer d g ip gate"
  defines "C \<equiv> contents (disk_of (kfs s) disk) e" and "m \<equiv> unat (strlen b + 1)"
  assumes "take m C = take m b" "10 \<notin> set (drop m C)"
    and "length ip = 4" "length (local_ip (knet s)) = 4" "length gate = 4" "length (local_gate (knet s)) = 4"
  shows "\<exists>s'. cli_exec_file c path 0 s = Some ((), s') \<and> configured d g ip gate s s'"
proof -
  let ?ls = "map config_line (config_lines d g ip gate)"
  have "C = take m C @ drop m C" by simp
  also have "take m C = config_text d g ip gate @ [0]"
    using assms(5) saved_bytes [of d g ip gate] by (simp add: m_def b_def)
  also have "config_text d g ip gate = concat (map (\<lambda>l. l @ [10]) ?ls)"
    by (simp only: config_text_def map_map comp_def)
  finally have C: "C = [] @ concat (map (\<lambda>l. l @ [10]) ?ls) @ 0 # drop m C" by simp
  have sc: "script (kfs s) path ([] @ concat (map (\<lambda>l. l @ [10]) ?ls) @ 0 # drop m C)"
    using file_script [OF assms(1)] C C_def by simp
  obtain s' where s': "run_lines c ?ls s = Some ((), s')" "configured d g ip gate s s'"
    using config_lines_run [OF assms(7-10)] by blast
  have "\<forall>l \<in> set ?ls. one_line l \<and> (\<forall>s s'. execute c l s = Some ((), s') \<longrightarrow> kfs s' = kfs s)"
    using execute_config_line [of _ d g ip gate] by auto
  from script_lines [OF this assms(6) sc s'(1)] show ?thesis using s'(2) by auto
qed

subsection \<open>Sample\<close>

definition sample_console :: console where
  "sample_console = \<lparr>cprog = sample_program, serial_status = 0, a20_enabled = 1, system_timer_freq = 100, power_off = False,
     restart = False, uprog_call = \<lambda>argc argv s. Some (0, s), time_var = 0xFD00, col_var = 0xFD10, row_var = 0xFD12,
     line_var = 0xFD20\<rparr>"

theorem config_file_restores_witness:
  defines "b \<equiv> config_buffer 0 1 [10, 0, 0, 7] [10, 0, 0, 254]"
  shows "\<exists>f t s'. fs_write_file (take (unat (strlen b + 1)) b) (bytes ''a'') 0 (strlen b + 1) 0 demo_fs = Some (t, f) \<and>
    cli_exec_file sample_console (bytes ''a'') 0 (sample_kernel\<lparr>kfs := f\<rparr>) = Some ((), s') \<and>
    configured 0 1 [10, 0, 0, 7] [10, 0, 0, 254] (sample_kernel\<lparr>kfs := f\<rparr>) s'"
proof -
  let ?T = "config_text 0 1 [10, 0, 0, 7] [10, 0, 0, 254]"
  let ?e = "demo_entries ! 1" and ?m = "unat (strlen b + 1)"
  have kfs: "kfs sample_kernel = demo_fs" by (simp add: sample_kernel_def)
  have m: "?m = length ?T + 1" "?m \<le> 600"
    using saved_count [of 0 1 "[10, 0, 0, 7]" "[10, 0, 0, 254]"] config_text_facts(1) [of 0 1 "[10, 0, 0, 7]" "[10, 0, 0, 254]"]
    by (simp_all add: b_def)
  have tb: "take ?m b = ?T @ [0]" using saved_bytes by (simp add: b_def)
  have size: "unat (e_size ?e) = 600" by (simp add: mk_entry_def)
  have "unat 0 + ?m \<le> unat (e_size ?e)" using m size by simp
  moreover have "length (take ?m b) = ?m" unfolding tb using m by simp
  ultimately obtain f t where f: "fs_write_file (take ?m b) (bytes ''a'') 0 (strlen b + 1) 0 demo_fs = Some (Inr (strlen b + 1, bytes ''a''), f)"
      "file_at f (bytes ''a'') 0 [bytes ''a''] 1 (?e\<lparr>e_time := t\<rparr>) 2 [1]"
      "contents (disk_of f 0) (?e\<lparr>e_time := t\<rparr>) = splice (unat 0) (take ?m b) (contents (disk_of demo_fs 0) ?e)"
    using file_at_write [OF sample_file [unfolded kfs], of 0 "strlen b + 1" "take ?m b" 0] by (auto simp del: WF_TRUNCATE_def) 
  let ?s = "sample_kernel\<lparr>kfs := f\<rparr>"
  have C: "contents (disk_of f 0) (?e\<lparr>e_time := t\<rparr>) = ?T @ 0 # replicate (600 - ?m) 0"
    using f(3) [unfolded tb sample_contents [unfolded kfs]] m by (simp add: splice_def)
  have "file_at (kfs ?s) (bytes ''a'') 0 [bytes ''a''] 1 (?e\<lparr>e_time := t\<rparr>) 2 [1]" using f(2) by simp
  from config_file_restores [OF this, of 0 1 "[10, 0, 0, 7]" "[10, 0, 0, 254]" sample_console]
  have "\<exists>s'. cli_exec_file sample_console (bytes ''a'') 0 ?s = Some ((), s') \<and> configured 0 1 [10, 0, 0, 7] [10, 0, 0, 254] ?s s'"
    using C m tb by (simp add: b_def [symmetric] sample_kernel_def sample_net_def)
  then show ?thesis using f(1) by blast
qed

end
