(* ===== verification/Cli_Start.thy ===== *)
theory Cli_Start
  imports Cli_Config
begin

section \<open>Starting a program\<close>

text \<open>
  A command that is not built in loads a file into the segment of programs, copies the arguments behind it and
  calls it. This is what the program finds in its memory.
\<close>

subsection \<open>Ranges at numbers\<close>

lemma fput_nat:
  assumes "p + length bs \<le> 1048576"
  shows "fput m (of_nat p) bs x = (if p \<le> unat x \<and> unat x < p + length bs then bs ! (unat x - p) else m x)"
proof (cases "p < 1048576")
  case True
  then have p: "unat (phys (of_nat p)) = p" by (simp add: phys_of_nat unat_of_nat_u20)
  have "unat (x - phys (of_nat p)) = (if p \<le> unat x then unat x - p else unat x + 1048576 - p)"
    using p by (simp add: unat_sub_if_size word_size)
  then show ?thesis using assms by (auto simp: fput_def)
next
  case False
  then show ?thesis using assms unat_u20_lt [of x] by (auto simp: fput_def)
qed

lemma fget_nat:
  "p + n \<le> 1048576 \<Longrightarrow> fget m (of_nat p) n = map (\<lambda>i. m (of_nat (p + i))) [0 ..< n]"
  by (simp add: fget_def lmem_getbyte_def phys_add phys_of_nat)

lemma fget_fput_nat:
  assumes "p + n \<le> 1048576" "q + length bs \<le> 1048576" "p + n \<le> q \<or> q + length bs \<le> p"
  shows "fget (fput m (of_nat q) bs) (of_nat p) n = fget m (of_nat p) n"
proof -
  have "fput m (of_nat q) bs (of_nat (p + i)) = m (of_nat (p + i))" if "i < n" for i
    using assms that by (simp add: fput_nat unat_of_nat_u20 del: of_nat_add) linarith
  then show ?thesis using assms(1) by (simp add: fget_nat del: of_nat_add)
qed

lemma fget_cong:
  assumes "p + n \<le> 1048576" "\<And>y. y < n \<Longrightarrow> m (of_nat (p + y)) = m' (of_nat (p + y))"
  shows "fget m (of_nat p) n = fget m' (of_nat p) n"
  using assms by (simp add: fget_nat del: of_nat_add)

lemma setbyte_two: "lmem_setbyte (a + 1) y (lmem_setbyte a x m) = fput m a [x, y]"
  using fput_snoc [of 1 "[x]" m a y] by (simp add: lmem_setbyte_def fput_one phys_add)

lemma setbyte_loop:
  assumes "length bs \<le> 1048576"
  shows "foldl (\<lambda>m i. lmem_setbyte (a + of_nat i) (bs ! i) m) m [0 ..< length bs] = fput m a bs"
proof -
  define f where "f = (\<lambda>m i. lmem_setbyte (a + of_nat i) (bs ! i) m)"
  have "foldl f m [0 ..< k] = fput m a (take k bs)" if "k \<le> length bs" for k
    using that
  proof (induction k)
    case (Suc k)
    have "f (fput m a (take k bs)) k = fput m a (take k bs @ [bs ! k])"
      unfolding f_def lmem_setbyte_def phys_add phys_of_nat using Suc.prems assms by (intro fput_snoc) simp_all
    then show ?case using Suc by (simp add: take_Suc_conv_app_nth)
  qed simp
  then show ?thesis by (simp add: f_def)
qed

subsection \<open>The file\<close>

lemma load_program_ok:
  fixes C :: "u8 list"
  assumes read: "\<And>o1 c. fs_read_file F name o1 c = (let data = take (unat c) (drop (unat o1) C) in Inr (of_nat (length data), data))"
    and C: "length C \<le> 61440"
  shows "kfs s = F \<Longrightarrow> unat offset \<le> length C \<Longrightarrow> load_program c name (of_nat (length C)) offset s =
    Some (True, s\<lparr>far := fput (far s) (of_nat (0x18000 + unat offset)) (drop (unat offset) C)\<rparr>)"
proof (induction "length C - unat offset" arbitrary: offset s rule: less_induct)
  case less
  have uC: "unat (of_nat (length C) :: u16) = length C" using C by (intro unat_of_nat_u16) simp
  show ?case
  proof (cases "offset < of_nat (length C)")
    case False
    then have "unat offset = length C" using less.prems(2) uC by (simp add: word_less_nat_alt)
    then show ?thesis using False by (subst load_program.simps) simp
  next
    case True
    then have lt: "unat offset < length C" using uC by (simp add: word_less_nat_alt)
    define k where "k = min16 (of_nat (length C) - offset) 512"
    define b where "b = take (unat k) (drop (unat offset) C)"
    have "unat (of_nat (length C) - offset) = length C - unat offset"
      using True uC by (simp add: unat_sub word_less_nat_alt word_le_nat_alt)
    then have k: "0 < unat k" "unat k \<le> 512" "unat k \<le> length C - unat offset"
      using lt by (auto simp: k_def unat_min16)
    then have lenb: "length b = unat k" by (simp add: b_def)
    have r: "fs_read_file F name offset k = Inr (k, b)"
      using lenb by (simp add: read b_def [symmetric] Let_def)
    have on: "unat (offset + k) = unat offset + unat k" using k C less.prems(2) by (intro unat_plus_u16) simp
    have ka: "k < ERROR_ANY" using k(2) by (simp add: word_less_nat_alt)
    let ?s = "s\<lparr>far := fput (far s) (of_nat (0x18000 + unat offset)) b\<rparr>"
    have rec: "load_program c name (of_nat (length C)) (offset + k) ?s =
        Some (True, ?s\<lparr>far := fput (far ?s) (of_nat (0x18000 + unat (offset + k))) (drop (unat (offset + k)) C)\<rparr>)"
      using less.prems k on by (intro less.hyps) simp_all
    have "push_bit 4 UPROG_MEMSEG + UPROG_MEMLOC + ucast offset = (of_nat (0x18000 + unat offset) :: u32)" by simp
    then have put: "put_bytes_at (push_bit 4 UPROG_MEMSEG + UPROG_MEMLOC + ucast offset) b s = Some ((), ?s)"
      using k lenb setbyte_loop [of b "of_nat (0x18000 + unat offset)" "far s"] by (simp add: put_bytes_at_def)
    have "fput (fput (far s) (of_nat (0x18000 + unat offset)) b) (of_nat (0x18000 + unat (offset + k))) (drop (unat (offset + k)) C) =
        fput (far s) (of_nat (0x18000 + unat offset)) (b @ drop (unat (offset + k)) C)"
      using lenb C k by (intro fput_after) (simp_all add: on)
    also have "b @ drop (unat (offset + k)) C = drop (unat offset) C"
      unfolding b_def on by (metis append_take_drop_id drop_drop add.commute)
    finally have "load_program c name (of_nat (length C)) (offset + k) ?s =
        Some (True, s\<lparr>far := fput (far s) (of_nat (0x18000 + unat offset)) (drop (unat offset) C)\<rparr>)"
      using rec by simp
    moreover have "local_buff s (unat k) b = b" using local_buff_full [of s b] lenb by simp
    ultimately show ?thesis
      using True r ka put less.prems(1) k_def
      by (subst load_program.simps) (simp del: UPROG_MEMSEG_def UPROG_MEMLOC_def ERROR_ANY_def)
  qed
qed

subsection \<open>The arguments\<close>

definition arg_at :: "u8 list list \<Rightarrow> nat \<Rightarrow> nat" where
  "arg_at argv j = sum_list (map (\<lambda>a. length a + 1) (take j argv))"

lemma arg_at_Cons: "arg_at (a # argv) 0 = 0" "arg_at (a # argv) (Suc j) = length a + 1 + arg_at argv j"
  by (simp_all add: arg_at_def)

definition put_args_step :: "u8 list \<Rightarrow> nat \<Rightarrow> nat \<Rightarrow> fmem \<Rightarrow> fmem" where
  "put_args_step arg i k m =
     fput (fput m (of_nat (0x27F80 + 2 * i)) (le16 (of_nat (0xFF88 + k)))) (of_nat (0x27F88 + k)) (arg @ [0])"

lemma le16_of_long:
  "le16 (of_nat n) = [ucast ((of_nat n :: u32) AND 0xFF), ucast (drop_bit 8 (of_nat n :: u32) AND 0xFF)]"
proof -
  have "le16 (ucast x) = [ucast (take_bit 8 x), ucast (take_bit 8 (drop_bit 8 x))]" for x :: u32
    by (auto simp: le16_def bit_simps intro!: bit_word_eqI)
  moreover have "x AND 0xFF = take_bit 8 x" for x :: u32 by (simp add: take_bit_eq_mask mask_eq_exp_minus_1)
  moreover have "(of_nat n :: u16) = ucast (of_nat n :: u32)"
    by (simp add: word_unat_eq_iff unsigned_ucast_eq unat_of_nat take_bit_eq_mod mod_mod_cancel)
  ultimately show ?thesis by simp
qed

lemma store_args_step:
  assumes "k + length arg < 120" "i < 4"
  shows "store_args (arg # args) i k m = store_args args (i + 1) (k + length arg + 1) (put_args_step arg i k m)"
proof -
  let ?v = "of_nat (0x27F80 + 2 * i) :: u32" and ?l = "of_nat (0xFF88 + k) :: u32"
  have v: "push_bit 4 UPROG_MEMSEG + UPROG_ARGLOC + 2 * of_nat i = ?v" by simp
  have l: "UPROG_STRLOC + of_nat k = ?l" by simp
  have w: "le16 (of_nat (0xFF88 + k)) = [ucast (?l AND 0xFF), ucast (drop_bit 8 ?l AND 0xFF)]"
    by (rule le16_of_long)
  have two: "lmem_setbyte (?v + 1) y (lmem_setbyte ?v x m) = fput m ?v [x, y]" for x y
    by (rule setbyte_two)
  have str: "foldl (\<lambda>m j. lmem_setbyte (push_bit 4 UPROG_MEMSEG + UPROG_STRLOC + of_nat (k + j)) ((arg @ [0]) ! j) m) m' [0 ..< length arg + 1] =
      fput m' (of_nat (0x27F88 + k)) (arg @ [0])" for m'
    using setbyte_loop [of "arg @ [0]" "of_nat (0x27F88 + k)" m'] assms(1) by (simp add: add.assoc)
  show ?thesis
    unfolding store_args.simps Let_def v l two str w [symmetric] put_args_step_def by (rule refl)
qed

lemma put_args_step_ok:
  assumes "k + length arg < 120" "i < 4"
  shows "far16 (put_args_step arg i k m) (of_nat (0x27F80 + 2 * i)) = of_nat (0xFF88 + k)"
    "fget (put_args_step arg i k m) (of_nat (0x27F88 + k)) (length arg + 1) = arg @ [0]"
    "\<not> (0x27F80 + 2 * i \<le> unat x \<and> unat x < 0x27F82 + 2 * i) \<Longrightarrow>
     \<not> (0x27F88 + k \<le> unat x \<and> unat x < 0x27F88 + k + length arg + 1) \<Longrightarrow> put_args_step arg i k m x = m x"
proof -
  let ?a = "0x27F80 + 2 * i" and ?p = "fput m (of_nat (0x27F80 + 2 * i)) (le16 (of_nat (0xFF88 + k)))"
  have "fget (put_args_step arg i k m) (of_nat ?a) 2 = fget ?p (of_nat ?a) 2"
    unfolding put_args_step_def by (rule fget_fput_nat) (use assms in simp_all)
  then have "far16 (put_args_step arg i k m) (of_nat ?a) = far16 ?p (of_nat ?a)" by (simp only: far16_def)
  then show "far16 (put_args_step arg i k m) (of_nat ?a) = of_nat (0xFF88 + k)" by (simp only: far16_one)
  have "fget (put_args_step arg i k m) (of_nat (0x27F88 + k)) (length arg + 1) = take (length arg + 1) (arg @ [0])"
    unfolding put_args_step_def by (rule fget_fput0) (use assms in simp_all)
  then show "fget (put_args_step arg i k m) (of_nat (0x27F88 + k)) (length arg + 1) = arg @ [0]" by simp
  show "put_args_step arg i k m x = m x"
    if x: "\<not> (0x27F80 + 2 * i \<le> unat x \<and> unat x < 0x27F82 + 2 * i)"
      "\<not> (0x27F88 + k \<le> unat x \<and> unat x < 0x27F88 + k + length arg + 1)"
  proof -
    have "put_args_step arg i k m x = (if 0x27F88 + k \<le> unat x \<and> unat x < 0x27F88 + k + length (arg @ [0])
        then (arg @ [0]) ! (unat x - (0x27F88 + k)) else ?p x)"
      unfolding put_args_step_def by (rule fput_nat) (use assms in simp)
    also have "\<dots> = ?p x" using x(2) by (intro if_not_P) simp
    also have "\<dots> = (if ?a \<le> unat x \<and> unat x < ?a + length (le16 (of_nat (0xFF88 + k)))
        then le16 (of_nat (0xFF88 + k)) ! (unat x - ?a) else m x)"
      by (rule fput_nat) (use assms in simp)
    also have "\<dots> = m x" using x(1) by (intro if_not_P) simp
    finally show ?thesis .
  qed
qed

lemma arg_at_less: "j < length argv \<Longrightarrow> arg_at argv j + length (argv ! j) + 1 \<le> arg_at argv (length argv)"
proof (induction argv arbitrary: j)
  case (Cons a argv)
  then show ?case by (cases j) (auto simp: arg_at_Cons)
qed simp

lemma ucast_of_nat_long: "n < 65536 \<Longrightarrow> (ucast (of_nat n :: u16) :: u32) = of_nat n"
  by (simp add: word_unat_eq_iff unat_of_nat)

text \<open>What the copy of the arguments leaves in memory.\<close>

lemma store_args_ok:
  assumes "i + length args \<le> 4" "k + arg_at args (length args) \<le> 120"
  shows "(\<forall>j < length args. far16 (store_args args i k m) (of_nat (0x27F80 + 2 * (i + j))) = of_nat (0xFF88 + (k + arg_at args j)) \<and>
      fget (store_args args i k m) (of_nat (0x27F88 + (k + arg_at args j))) (length (args ! j) + 1) = args ! j @ [0]) \<and>
    (\<forall>x. \<not> (0x27F80 + 2 * i \<le> unat x \<and> unat x < 0x27F80 + 2 * (i + length args)) \<longrightarrow>
      \<not> (0x27F88 + k \<le> unat x \<and> unat x < 0x27F88 + k + arg_at args (length args)) \<longrightarrow> store_args args i k m x = m x)"
  using assms
proof (induction args arbitrary: i k m)
  case (Cons a args)
  let ?k = "k + length a + 1" and ?m = "put_args_step a i k m"
  let ?r = "store_args args (i + 1) ?k ?m"
  have b: "k + length a < 120" "i < 4" "i + 1 + length args \<le> 4" "?k + arg_at args (length args) \<le> 120"
    using Cons.prems by (simp_all add: arg_at_Cons)
  note ih = Cons.IH [OF b(3,4), of ?m]
  have step: "store_args (a # args) i k m = ?r" by (rule store_args_step [OF b(1,2)])
  have keep: "?r x = ?m x" if "unat x < 0x27F82 + 2 * i \<or> 0x27F80 + 2 * (i + 1 + length args) \<le> unat x \<and> unat x < 0x27F88 + ?k \<or>
      0x27F88 + ?k + arg_at args (length args) \<le> unat x" for x
  proof -
    have "\<not> (0x27F80 + 2 * (i + 1) \<le> unat x \<and> unat x < 0x27F80 + 2 * (i + 1 + length args))"
      "\<not> (0x27F88 + ?k \<le> unat x \<and> unat x < 0x27F88 + ?k + arg_at args (length args))"
      using that b by auto
    then show ?thesis using ih by blast
  qed
  have "fget ?r (of_nat (0x27F80 + 2 * i)) 2 = fget ?m (of_nat (0x27F80 + 2 * i)) 2"
    by (rule fget_cong, use b in simp, rule keep) (use b in \<open>simp add: unat_of_nat_u20 del: of_nat_add of_nat_mult\<close>)
  then have p0: "far16 ?r (of_nat (0x27F80 + 2 * i)) = of_nat (0xFF88 + k)"
    using put_args_step_ok(1) [OF b(1,2)] by (simp only: far16_def)
  have "fget ?r (of_nat (0x27F88 + k)) (length a + 1) = fget ?m (of_nat (0x27F88 + k)) (length a + 1)"
    by (rule fget_cong, use b in simp, rule keep) (use b in \<open>simp add: unat_of_nat_u20 del: of_nat_add of_nat_mult\<close>)
  then have s0: "fget ?r (of_nat (0x27F88 + k)) (length a + 1) = a @ [0]" using put_args_step_ok(2) [OF b(1,2)] by simp
  show ?case unfolding step
  proof (intro conjI allI impI)
    fix j assume "j < length (a # args)"
    then show "far16 ?r (of_nat (0x27F80 + 2 * (i + j))) = of_nat (0xFF88 + (k + arg_at (a # args) j))"
      "fget ?r (of_nat (0x27F88 + (k + arg_at (a # args) j))) (length ((a # args) ! j) + 1) = (a # args) ! j @ [0]"
      using ih p0 s0 by (cases j; simp add: arg_at_Cons algebra_simps)+
  next
    fix x :: u20
    assume "\<not> (0x27F80 + 2 * i \<le> unat x \<and> unat x < 0x27F80 + 2 * (i + length (a # args)))"
      "\<not> (0x27F88 + k \<le> unat x \<and> unat x < 0x27F88 + k + arg_at (a # args) (length (a # args)))"
    then have "\<not> (0x27F80 + 2 * (i + 1) \<le> unat x \<and> unat x < 0x27F80 + 2 * (i + 1 + length args))"
      "\<not> (0x27F88 + ?k \<le> unat x \<and> unat x < 0x27F88 + ?k + arg_at args (length args))"
      "\<not> (0x27F80 + 2 * i \<le> unat x \<and> unat x < 0x27F82 + 2 * i)"
      "\<not> (0x27F88 + k \<le> unat x \<and> unat x < 0x27F88 + k + length a + 1)"
      by (auto simp: arg_at_Cons)
    then have "?r x = ?m x" "?m x = m x" using ih put_args_step_ok(3) [OF b(1,2)] by blast+
    then show "?r x = m x" by simp
  qed
qed simp

subsection \<open>The program that is called\<close>

text \<open>
  C7: A command that is not built in starts its program: if its name leads to a file whose name ends in \<open>.bin\<close>, then
  the program is called with the number of arguments, and finds in its segment the bytes of the file from
  address 0 on and, behind the pointers at \<open>UPROG_ARGLOC\<close>, every argument with its terminator; memory
  outside the segment, the file system and the rest of the kernel are as they were.
\<close>

theorem program_started:
  fixes s :: kernel
  assumes "file_at (kfs s) (program_name (argv ! 0)) disk cs n e k ns" "n \<noteq> 0"
    and "strcmp (drop (unat (strchr (program_name (argv ! 0)) (of_char (CHR ''.'')) - 1)) (program_name (argv ! 0))) (bytes ''.bin'') = 0"
    and "length argv \<le> 4" "arg_at argv (length argv) \<le> 120"
  defines "C \<equiv> contents (disk_of (kfs s) disk) e"
  shows "\<exists>m. cli_extern c argv s = nbind (uprog_call c (of_nat (length argv)) 0xFF80) (\<lambda>_. nret ()) (s\<lparr>far := m\<rparr>) \<and>
    fget m 0x18000 (length C) = C \<and>
    (\<forall>j < length argv. fget m (0x18000 + ucast (far16 m (0x27F80 + 2 * of_nat j))) (length (argv ! j) + 1) = argv ! j @ [0]) \<and>
    (\<forall>x. unat x < 0x18000 \<or> 0x28000 \<le> unat x \<longrightarrow> m x = far s x)"
proof -
  note fa = file_at_facts [OF assms(1)]
  let ?name = "program_name (argv ! 0)"
  have get: "fs_get_entry (kfs s) ?name UNKNOWN_VALUE UNKNOWN_VALUE = Inr (n, e)"
    using assms(1) denotes_get [of "kfs s" ?name disk cs] by (simp add: file_at_def)
  have lenC: "length C = unat (e_size e)" "length C \<le> 61440" using fa by (simp_all add: C_def)
  have sz: "(ucast (e_size e) :: u16) = of_nat (length C)" unfolding lenC(1) by simp
  have "unat (of_nat (length C) :: u16) = length C" using lenC(2) by (intro unat_of_nat_u16) simp
  then have ms: "min16 (of_nat (length C)) (ucast (UPROG_ARGLOC - UPROG_MEMLOC)) = of_nat (length C)"
    using lenC(2) by (simp add: min16_def word_less_nat_alt word_unat_eq_iff) 
  define m1 where "m1 = fput (far s) 0x18000 C"
  define m where "m = store_args argv 0 0 m1"
  have load: "load_program c ?name (of_nat (length C)) 0 s = Some (True, s\<lparr>far := m1\<rparr>)"
    using load_program_ok [OF file_at_read [OF assms(1)], of s 0 c] lenC(2) by (simp add: C_def m1_def)
  have run: "cli_extern c argv s = nbind (uprog_call c (of_nat (length argv)) 0xFF80) (\<lambda>_. nret ()) (s\<lparr>far := m\<rparr>)"
    using get fa(4) assms(2,3) load sz ms
    by (simp add: cli_extern_def Let_def m_def del: UNKNOWN_VALUE_def T_FILE_def bytes_simps)
  note st = store_args_ok [of 0 argv 0 m1, folded m_def]
  have keep: "m x = m1 x" if "unat x < 0x27F80 \<or> 0x28000 \<le> unat x" for x
    using st assms(4,5) that by auto
  have "fget m (of_nat 0x18000) (length C) = fget m1 (of_nat 0x18000) (length C)"
    by (rule fget_cong, use lenC in simp, rule keep) (use lenC in \<open>simp add: unat_of_nat_u20 del: of_nat_add of_nat_numeral\<close>)
  also have "\<dots> = C" using lenC fget_fput0 [of "length C" C "far s" "0x18000"] by (simp add: m1_def)
  finally have "fget m 0x18000 (length C) = C" by simp
  moreover have "fget m (0x18000 + ucast (far16 m (0x27F80 + 2 * of_nat j))) (length (argv ! j) + 1) = argv ! j @ [0]"
    if "j < length argv" for j
  proof -
    have lt: "0xFF88 + arg_at argv j < 65536" using arg_at_less [OF that] assms(5) by simp
    have "(0x18000 + ucast (of_nat (0xFF88 + arg_at argv j) :: u16) :: u32) = of_nat (0x18000 + (0xFF88 + arg_at argv j))"
      using ucast_of_nat_long [OF lt] by (simp only: of_nat_add of_nat_numeral)
    also have "\<dots> = of_nat (0x27F88 + arg_at argv j)" by simp
    finally have p: "(0x18000 + ucast (of_nat (0xFF88 + arg_at argv j) :: u16) :: u32) = of_nat (0x27F88 + arg_at argv j)" .
    have "far16 m (of_nat (0x27F80 + 2 * j)) = of_nat (0xFF88 + arg_at argv j)"
      "fget m (of_nat (0x27F88 + arg_at argv j)) (length (argv ! j) + 1) = argv ! j @ [0]"
      using st assms(4,5) that by simp_all
    moreover have "(0x27F80 + 2 * of_nat j :: u32) = of_nat (0x27F80 + 2 * j)" by simp
    ultimately show ?thesis by (simp only: p)
  qed
  moreover have "m x = far s x" if "unat x < 0x18000 \<or> 0x28000 \<le> unat x" for x
  proof -
    have "m x = m1 x" using that by (intro keep) auto
    also have "m1 x = far s x"
      using that lenC(2) fput_nat [of "0x18000" C "far s" x] by (auto simp: m1_def)
    finally show ?thesis .
  qed
  ultimately show ?thesis using run by blast
qed

subsection \<open>Sample\<close>

definition prog_entries :: "sfs_entry list" where
  "prog_entries = [mk_entry T_DIR ''.'' 1 0 [1], mk_entry T_FILE ''p.bin'' 600 0 [7, 8], zero_entry, zero_entry]"

definition prog_image :: "u16 \<Rightarrow> u8 list" where "prog_image = image_of demo_sb prog_entries"

definition prog_fs :: fs_state where "prog_fs = demo_state prog_image"

lemma prog_shapes [simp]: "\<forall>e \<in> set prog_entries. entry_shape e"
  by (simp add: prog_entries_def)

lemma prog_sectors [simp]: "sectors_ok prog_image"
  by (simp add: prog_image_def)

lemma prog_entry_at: "n < 4 \<Longrightarrow> entry_at prog_image n = prog_entries ! n"
  using entry_at_image_of [OF prog_shapes, of n demo_sb] by (simp add: prog_image_def prog_entries_def)

lemma prog_entries_of: "entries_of prog_image = 4"
  by (simp add: entries_of_def demo_sb_def prog_image_def)

lemma prog_mounted: "mounted prog_fs 0"
  by (simp add: mounted_def prog_fs_def prog_entries_of)

lemma prog_denotes: "denotes prog_fs (bytes ''p.bin'') 0 [bytes ''p.bin'']"
  by (simp add: denotes_def component_def disk_names_ok_def prog_fs_def demo_string_is_disk)
    (simp add: demo_state_def)

lemma prog_resolve: "resolve prog_fs 0 [bytes ''p.bin''] = Inr (1, prog_entries ! 1)"
proof -
  have "table.first (entry_matches (bytes ''p.bin'') 0) prog_image 4 = Some 1"
    by (simp add: table.first_Some_iff prog_entry_at prog_entries_def)
      (simp add: mk_entry_def entry_matches_def entry_used_def entry_name_terminated zero_entry_def cstring_def)
  then show ?thesis
    using lookup_entry_ok [OF prog_mounted] by (simp add: resolve_def prog_entries_of prog_fs_def prog_entry_at)
qed

lemma prog_file: "file_at prog_fs (bytes ''p.bin'') 0 [bytes ''p.bin''] 1 (prog_entries ! 1) 2 [1]"
proof -
  have "laid_out prog_image 1 2 [1]"
    by (simp add: laid_out_def Let_def prog_entries_of prog_entry_at)
      (simp add: prog_entries_def mk_entry_def zero_entry_def entry_is_def blocks_of_def prog_image_def demo_sb_def)
  then show ?thesis
    using prog_mounted prog_denotes prog_resolve by (simp add: file_at_def prog_fs_def prog_entry_at)
qed

lemma prog_contents: "contents (disk_of prog_fs 0) (prog_entries ! 1) = replicate 600 0"
  by (simp add: contents_def file_bytes_def blocks_of_def prog_fs_def prog_image_def prog_entries_def)
    (simp add: mk_entry_def zero_entry_def image_of_def replicate_add [symmetric])

theorem program_started_witness:
  "\<exists>m. cli_extern sample_console [bytes ''p'', bytes ''hi''] (sample_kernel\<lparr>kfs := prog_fs\<rparr>) =
      Some ((), sample_kernel\<lparr>kfs := prog_fs, far := m\<rparr>) \<and>
    fget m 0x18000 600 = replicate 600 0 \<and> fget m (0x18000 + ucast (far16 m 0x27F82)) 3 = bytes ''hi'' @ [0]"
proof -
  let ?argv = "[bytes ''p'', bytes ''hi'']"
  have name: "program_name (?argv ! 0) = bytes ''p.bin''"
    unfolding program_name_def by code_simp
  have dot: "strcmp (drop (unat (strchr (bytes ''p.bin'') (of_char (CHR ''.'')) - 1)) (bytes ''p.bin'')) (bytes ''.bin'') = 0"
    by code_simp
  have f: "file_at (kfs (sample_kernel\<lparr>kfs := prog_fs\<rparr>)) (program_name (?argv ! 0)) 0 [bytes ''p.bin''] 1 (prog_entries ! 1) 2 [1]"
    unfolding name using prog_file by simp
  have "strcmp (drop (unat (strchr (program_name (?argv ! 0)) (of_char (CHR ''.'')) - 1)) (program_name (?argv ! 0))) (bytes ''.bin'') = 0"
    unfolding name by (rule dot)
  from program_started [OF f _ this, of sample_console]
  obtain m where m: "cli_extern sample_console ?argv (sample_kernel\<lparr>kfs := prog_fs\<rparr>) =
      nbind (uprog_call sample_console (of_nat (length ?argv)) 0xFF80) (\<lambda>_. nret ()) (sample_kernel\<lparr>kfs := prog_fs, far := m\<rparr>)"
      "fget m 0x18000 600 = replicate 600 0"
      "\<forall>j < length ?argv. fget m (0x18000 + ucast (far16 m (0x27F80 + 2 * of_nat j))) (length (?argv ! j) + 1) = ?argv ! j @ [0]"
    using prog_contents by (auto simp: arg_at_def simp del: bytes_simps)
  have "fget m (0x18000 + ucast (far16 m 0x27F82)) 3 = bytes ''hi'' @ [0]" using m(3) [rule_format, of 1] by (simp add: numeral_3_eq_3)
  then show ?thesis using m(1,2) by (intro exI [of _ m]) (simp add: sample_console_def nbind_def)
qed

end
