(* ===== verification/Edit.thy ===== *)
theory Edit
  imports Ulib_Calls
begin

section \<open>The text editor (source/programs/edit.c)\<close>

text \<open>
  The program \<open>edit\<close>. The text, with a 0 behind it, lies in a fixed buffer of far memory; a second buffer holds
  the characters last drawn in the editor area, so that only changes are drawn. The record \<open>edit_env\<close> holds what
  does not change: the program, its arguments (near pointers), and the addresses of the variables whose address
  is passed to system calls. The record \<open>editor\<close> holds the static variables and the locals of \<open>main\<close> that live
  across turns of its loop. Single characters copied into a local variable by \<open>lmemcpy\<close> are read directly. The
  two loops that need not end, loading the file and the main loop, are partial functions.
\<close>

definition SHOW_CURRENT :: u16 where [simp]: "SHOW_CURRENT = 0"
definition SKIP_CURRENT :: u16 where [simp]: "SKIP_CURRENT = 1"

definition AT_T_BLACK :: u8 where "AT_T_BLACK = 0x00"
definition AT_T_RED :: u8 where "AT_T_RED = 0x04"
definition AT_T_WHITE :: u8 where "AT_T_WHITE = 0x0F"
definition AT_B_BLUE :: u8 where "AT_B_BLUE = 0x10"
definition AT_B_LGRAY :: u8 where "AT_B_LGRAY = 0x70"

definition TITLE_ATTRIBUTES :: u8 where "TITLE_ATTRIBUTES = AT_T_BLACK OR AT_B_LGRAY"
definition EDITOR_ATTRIBUTES :: u8 where "EDITOR_ATTRIBUTES = AT_T_WHITE OR AT_B_BLUE"

definition MOUSE_LEFT_BUTTON :: u16 where [simp]: "MOUSE_LEFT_BUTTON = 0x01"
definition FST_FILE :: u8 where [simp]: "FST_FILE = 0x02"
definition FWF_CREATE :: u16 where [simp]: "FWF_CREATE = 0x0001"
definition FWF_TRUNCATE :: u16 where [simp]: "FWF_TRUNCATE = 0x0002"

record edit_env =
  ed_prog :: program
  ed_argv :: "u16 list"
  entry_var :: u16
  cbuff_var :: u16
  width_var :: u16
  height_var :: u16

record editor =
  SCREEN_WIDTH :: u16
  SCREEN_HEIGHT :: u16
  ed_mouse_x :: u16
  ed_mouse_y :: u16
  ed_mouse_buttons :: u16
  screen_buff :: u32
  ed_buff :: u32
  buff_size :: u32
  buff_cursor_offset :: u32
  current_line :: u16

text \<open>The statics and locals as they are initialised.\<close>

definition editor_start :: editor where
  "editor_start = \<lparr>SCREEN_WIDTH = 80, SCREEN_HEIGHT = 25, ed_mouse_x = 0, ed_mouse_y = 0, ed_mouse_buttons = 0,
     screen_buff = 0, ed_buff = 0, buff_size = 0, buff_cursor_offset = 0, current_line = 0\<rparr>"

text \<open>Strings behind near pointers, and formatted output with them.\<close>

definition near_string :: "program \<Rightarrow> fmem \<Rightarrow> u16 \<Rightarrow> u8 list" where
  "near_string u m p = cstring (map (\<lambda>i. lmem_getbyte m (lp (seg u) (p + of_nat i))) [0 ..< 65536])"

definition print :: "program \<Rightarrow> string \<Rightarrow> u16 list \<Rightarrow> unit kernelm" where
  "print u text ws = nbind (nget far) (\<lambda>m.
     put_string u (near_string u m) (bytes text @ [10, 13]) (\<lambda>i. if i < length ws then ws ! i else 0))"

definition ed_path :: "edit_env \<Rightarrow> u16" where "ed_path v = ed_argv v ! 1"

definition path_length :: "edit_env \<Rightarrow> fmem \<Rightarrow> u16" where
  "path_length v m = strlen (near_string (ed_prog v) m (ed_path v))"

subsection \<open>Far strings and the copy of the screen\<close>

definition getlc :: "fmem \<Rightarrow> u32 \<Rightarrow> u8" where "getlc m p = lmem_getbyte m p"

definition setlc :: "u32 \<Rightarrow> u32 \<Rightarrow> u8 \<Rightarrow> unit kernelm" where
  "setlc p offset c = nput (\<lambda>s. s\<lparr>far := lmem_setbyte (p + offset) c (far s)\<rparr>)"

definition far_copy :: "u32 \<Rightarrow> u32 \<Rightarrow> u32 \<Rightarrow> unit kernelm" where
  "far_copy dst src n = nput (\<lambda>s. s\<lparr>far := snd (lmemcpy dst src n (far s))\<rparr>)"

definition screen_offset :: "editor \<Rightarrow> u16 \<Rightarrow> u16 \<Rightarrow> u32" where
  "screen_offset e col row = ucast (col + (row - 1) * SCREEN_WIDTH e)"

definition editor_putchar :: "edit_env \<Rightarrow> editor \<Rightarrow> u16 \<Rightarrow> u16 \<Rightarrow> u8 \<Rightarrow> unit kernelm" where
  "editor_putchar v e col row c = nbind (nget (\<lambda>s. getlc (far s) (screen_buff e + screen_offset e col row))) (\<lambda>buff_c.
     let c = (if col = ed_mouse_x e \<and> row = ed_mouse_y e then 43 else c)
     in if c \<noteq> buff_c
        then nbind (setlc (screen_buff e) (screen_offset e col row) c) (\<lambda>_.
             putchar_attr (ed_prog v) col row c EDITOR_ATTRIBUTES)
        else nret ())"

text \<open>\<open>next_line\<close>: the characters of the line, the spaces behind it, and the step over the end of the line.\<close>

function next_line_chars :: "edit_env \<Rightarrow> editor \<Rightarrow> u16 \<Rightarrow> u16 \<Rightarrow> u16 \<Rightarrow> u32 \<Rightarrow> (u16 \<times> u32) kernelm" where
  "next_line_chars v e mode row col line = nbind (nget far) (\<lambda>m.
     if line \<noteq> 0 \<and> getlc m line \<noteq> 0 \<and> getlc m line \<noteq> 10 \<and> col < SCREEN_WIDTH e
     then nbind (if mode = SHOW_CURRENT then editor_putchar v e col row (getlc m line) else nret ()) (\<lambda>_.
          next_line_chars v e mode row (col + 1) (line + 1))
     else nret (col, line))"
  by pat_completeness auto
termination
proof (relation "measure (\<lambda>(v, e, mode, row, col, line). unat (SCREEN_WIDTH e) - unat col)")
  fix v :: edit_env and e :: editor and mode row col :: u16 and line :: u32 and m :: fmem
  assume "line \<noteq> 0 \<and> getlc m line \<noteq> 0 \<and> getlc m line \<noteq> 10 \<and> col < SCREEN_WIDTH e"
  then have "unat col < unat (SCREEN_WIDTH e)" by (simp add: word_less_nat_alt)
  moreover from this have "unat (col + 1) = unat col + 1"
    using unat_u16_lt [of "SCREEN_WIDTH e"] by (intro unat_plus1_u16) simp
  ultimately show "((v, e, mode, row, col + 1, line + 1), v, e, mode, row, col, line) \<in>
      measure (\<lambda>(v, e, mode, row, col, line). unat (SCREEN_WIDTH e) - unat col)" by simp
qed simp

declare next_line_chars.simps [simp del]

definition next_line :: "edit_env \<Rightarrow> editor \<Rightarrow> u16 \<Rightarrow> u16 \<Rightarrow> u32 \<Rightarrow> u32 kernelm" where
  "next_line v e mode row line =
     nbind (next_line_chars v e mode row 0 line) (\<lambda>(col, line).
     nbind (if mode = SHOW_CURRENT
            then each (\<lambda>c. editor_putchar v e (of_nat c) row 32) [unat col ..< unat (SCREEN_WIDTH e)]
            else nret ()) (\<lambda>_.
     nget (\<lambda>s. if line \<noteq> 0 \<and> getlc (far s) line = 10 then line + 1 else line)))"

primrec skip_lines :: "edit_env \<Rightarrow> editor \<Rightarrow> nat \<Rightarrow> u32 \<Rightarrow> u32 kernelm" where
  "skip_lines v e 0 buff = nret buff"
| "skip_lines v e (Suc n) buff = nbind (nget far) (\<lambda>m.
     if getlc m buff \<noteq> 0 then nbind (next_line v e SKIP_CURRENT 0 buff) (skip_lines v e n) else nret buff)"

primrec show_lines :: "edit_env \<Rightarrow> editor \<Rightarrow> nat list \<Rightarrow> u32 \<Rightarrow> unit kernelm" where
  "show_lines v e [] buff = nret ()"
| "show_lines v e (l # ls) buff = nbind (nget far) (\<lambda>m.
     if getlc m buff \<noteq> 0 then nbind (next_line v e SHOW_CURRENT (of_nat l) buff) (show_lines v e ls)
     else nbind (next_line v e SHOW_CURRENT (of_nat l) 0) (\<lambda>_. show_lines v e ls buff))"

definition show_buffer_at_line :: "edit_env \<Rightarrow> editor \<Rightarrow> u32 \<Rightarrow> u16 \<Rightarrow> unit kernelm" where
  "show_buffer_at_line v e buff n =
     nbind (skip_lines v e (unat n) buff) (show_lines v e [1 ..< unat (SCREEN_HEIGHT e)])"

subsection \<open>Offsets, lines and columns\<close>

text \<open>\<open>buffer_offset_to_linecol\<close>: the loop over the characters before the offset; it returns column and line.\<close>

primrec linecol_loop :: "fmem \<Rightarrow> u16 \<Rightarrow> nat \<Rightarrow> u32 \<Rightarrow> u16 \<times> u16 \<Rightarrow> u16 \<times> u16" where
  "linecol_loop m w 0 buff x = x"
| "linecol_loop m w (Suc n) buff x =
     (if getlc m buff \<noteq> 0
      then linecol_loop m w n (buff + 1)
        (let (col, line) = x
         in if getlc m buff = 10 then (0, line + 1) else if col + 1 \<ge> w then (0, line + 1) else (col + 1, line))
      else x)"

definition buffer_offset_to_linecol :: "fmem \<Rightarrow> u16 \<Rightarrow> u32 \<Rightarrow> u32 \<Rightarrow> u16 \<times> u16" where
  "buffer_offset_to_linecol m w buff offset = linecol_loop m w (unat offset) buff (0, 0)"

text \<open>\<open>linecol_to_buffer_offset\<close>: its two loops.\<close>

function line_loop :: "fmem \<Rightarrow> u16 \<Rightarrow> u16 \<Rightarrow> u16 \<Rightarrow> u32 \<Rightarrow> u32 \<Rightarrow> u32 \<times> u32" where
  "line_loop m w c line offset buff =
     (if getlc m buff \<noteq> 0 \<and> line > 0
      then if getlc m buff = 10 \<or> c \<ge> w then line_loop m w (0 + 1) (line - 1) (offset + 1) (buff + 1)
           else line_loop m w (c + 1) line (offset + 1) (buff + 1)
      else (offset, buff))"
  by pat_completeness auto
termination
proof (relation "measures [\<lambda>(m, w, c, line, offset, buff). unat line, \<lambda>(m, w, c, line, offset, buff). unat w - unat c]")
  fix m :: fmem and w c line :: u16 and offset buff :: u32
  assume a: "getlc m buff \<noteq> 0 \<and> line > 0"
  then have "unat (line - 1) < unat line"
    using unat_minus_of_nat [of 1 line] by (simp add: word_less_nat_alt)
  then show "((m, w, 0 + 1, line - 1, offset + 1, buff + 1), m, w, c, line, offset, buff) \<in>
      measures [\<lambda>(m, w, c, line, offset, buff). unat line, \<lambda>(m, w, c, line, offset, buff). unat w - unat c]"
    by simp
  assume "\<not> (getlc m buff = 10 \<or> c \<ge> w)"
  then have "unat c < unat w" by (simp add: word_le_nat_alt)
  moreover from this have "unat (c + 1) = unat c + 1"
    using unat_u16_lt [of w] by (intro unat_plus1_u16) simp
  ultimately show "((m, w, c + 1, line, offset + 1, buff + 1), m, w, c, line, offset, buff) \<in>
      measures [\<lambda>(m, w, c, line, offset, buff). unat line, \<lambda>(m, w, c, line, offset, buff). unat w - unat c]"
    by simp
qed simp

declare line_loop.simps [simp del]

primrec col_loop :: "fmem \<Rightarrow> nat \<Rightarrow> u32 \<Rightarrow> u32 \<Rightarrow> u32" where
  "col_loop m 0 offset buff = offset"
| "col_loop m (Suc col) offset buff =
     (if getlc m buff \<noteq> 0 \<and> getlc m buff \<noteq> 10 then col_loop m col (offset + 1) (buff + 1) else offset)"

definition linecol_to_buffer_offset :: "fmem \<Rightarrow> u16 \<Rightarrow> u32 \<Rightarrow> u16 \<Rightarrow> u16 \<Rightarrow> u32" where
  "linecol_to_buffer_offset m w buff col line =
     (let (offset, buff) = line_loop m w 0 line 0 buff in col_loop m (unat col) offset buff)"

primrec fileline_loop :: "fmem \<Rightarrow> nat \<Rightarrow> u32 \<Rightarrow> u16 \<Rightarrow> u16" where
  "fileline_loop m 0 buff line = line"
| "fileline_loop m (Suc n) buff line =
     (if getlc m buff \<noteq> 0 then fileline_loop m n (buff + 1) (if getlc m buff = 10 then line + 1 else line) else line)"

definition buffer_offset_to_fileline :: "fmem \<Rightarrow> u32 \<Rightarrow> u16 \<Rightarrow> u16" where
  "buffer_offset_to_fileline m buff offset = fileline_loop m (unat offset) buff 0"


subsection \<open>Keys\<close>

definition title_info :: "u8 list" where "title_info = bytes ''L:     F1:Save ESC:Exit''"

definition show_changed :: "edit_env \<Rightarrow> u8 \<Rightarrow> u8 \<Rightarrow> unit kernelm" where
  "show_changed v c attr = nbind (nget (\<lambda>s. path_length v (far s))) (\<lambda>n. putchar_attr (ed_prog v) n 0 c attr)"

text \<open>F1: the text is written in blocks of 512 bytes; \<open>result\<close> is the last result of \<open>write_file\<close>.\<close>

function save_loop :: "edit_env \<Rightarrow> editor \<Rightarrow> u32 \<Rightarrow> u16 \<Rightarrow> u16 kernelm" where
  "save_loop v e offset r =
     (if offset < buff_size e \<and> r < ERROR_ANY
      then let to_copy = (if 512 < buff_size e - offset then 512 else buff_size e - offset)
           in nbind (far_copy (lp (seg (ed_prog v)) (cbuff_var v)) (ed_buff e + offset) to_copy) (\<lambda>_.
              nbind (write_file (ed_prog v) (cbuff_var v) (ed_path v) (ucast offset) (ucast to_copy)
                (FWF_CREATE OR FWF_TRUNCATE)) (\<lambda>r.
              save_loop v e (offset + to_copy) r))
      else nret r)"
  by pat_completeness auto
termination
proof (relation "measure (\<lambda>(v, e, offset, r). unat (buff_size e) - unat offset)")
  fix v :: edit_env and e :: editor and offset n :: u32 and r r' :: u16
  assume a: "offset < buff_size e \<and> r < ERROR_ANY"
    and n: "n = (if 512 < buff_size e - offset then 512 else buff_size e - offset)"
  have d: "unat (buff_size e - offset) = unat (buff_size e) - unat offset"
    using a by (intro unat_sub) (simp add: word_less_nat_alt word_le_nat_alt)
  then have "0 < unat n" "unat n \<le> unat (buff_size e) - unat offset"
    using a by (auto simp: n word_less_nat_alt)
  moreover from this have "unat (offset + n) = unat offset + unat n"
    using unat_u32_lt [of "buff_size e"] by (intro unat_plus_u32) simp
  ultimately show "((v, e, offset + n, r'), v, e, offset, r) \<in> measure (\<lambda>(v, e, offset, r). unat (buff_size e) - unat offset)"
    using a by (simp add: word_less_nat_alt)
qed simp

declare save_loop.simps [simp del]

definition key_save :: "edit_env \<Rightarrow> editor \<Rightarrow> unit kernelm" where
  "key_save v e = nbind (save_loop v e 0 0) (\<lambda>r.
     nbind (if r < ERROR_ANY then show_changed v 32 TITLE_ATTRIBUTES
            else show_changed v 42 ((TITLE_ATTRIBUTES AND 0xF0) OR AT_T_RED)) (\<lambda>_.
     ignore (getkey (ed_prog v) KM_CLEAR_BUFFER)))"

text \<open>The keys that move the cursor by lines or in its line: the new column and line from the old ones.\<close>

definition move_target :: "editor \<Rightarrow> u16 \<Rightarrow> u16 \<times> u16 \<Rightarrow> (u16 \<times> u16) option" where
  "move_target e k = (\<lambda>(col, line).
     (if k = KEY_UP then if line > 0 then Some (col, line - 1) else None
      else if k = KEY_DOWN then Some (col, line + 1)
      else if k = KEY_HOME then Some (0, line)
      else if k = KEY_END then Some (0xFFFF, line)
      else if k = KEY_PG_DN then Some (col, line + (SCREEN_HEIGHT e - 1))
      else Some (col, line - (if line < SCREEN_HEIGHT e - 1 then line else SCREEN_HEIGHT e - 1))))"

definition move_cursor :: "editor \<Rightarrow> u16 \<Rightarrow> fmem \<Rightarrow> editor" where
  "move_cursor e k m =
     (case move_target e k (buffer_offset_to_linecol m (SCREEN_WIDTH e) (ed_buff e) (buff_cursor_offset e)) of
        Some (col, line) \<Rightarrow> e\<lparr>buff_cursor_offset := linecol_to_buffer_offset m (SCREEN_WIDTH e) (ed_buff e) col line\<rparr>
      | None \<Rightarrow> e)"

definition typed_char :: "u16 \<Rightarrow> u16" where
  "typed_char k = (if k = KEY_RETURN then 10 else if k = KEY_TAB then 9 else k)"

definition line_moves :: "u16 list" where
  "line_moves = [KEY_UP, KEY_DOWN, KEY_HOME, KEY_END, KEY_PG_DN, KEY_PG_UP]"

definition key_backspace :: "edit_env \<Rightarrow> editor \<Rightarrow> editor kernelm" where
  "key_backspace v e =
     (if buff_cursor_offset e > 0
      then nbind (far_copy (ed_buff e + buff_cursor_offset e - 1) (ed_buff e + buff_cursor_offset e)
             (buff_size e - buff_cursor_offset e)) (\<lambda>_.
           nbind (show_changed v 42 TITLE_ATTRIBUTES) (\<lambda>_.
           nret (e\<lparr>buff_size := buff_size e - 1, buff_cursor_offset := buff_cursor_offset e - 1\<rparr>)))
      else nret e)"

definition key_del :: "edit_env \<Rightarrow> editor \<Rightarrow> editor kernelm" where
  "key_del v e =
     (if buff_cursor_offset e < buff_size e - 1
      then nbind (far_copy (ed_buff e + buff_cursor_offset e) (ed_buff e + buff_cursor_offset e + 1)
             (buff_size e - buff_cursor_offset e - 1)) (\<lambda>_.
           nbind (show_changed v 42 TITLE_ATTRIBUTES) (\<lambda>_. nret (e\<lparr>buff_size := buff_size e - 1\<rparr>)))
      else nret e)"

definition key_insert :: "edit_env \<Rightarrow> editor \<Rightarrow> u16 \<Rightarrow> editor kernelm" where
  "key_insert v e k =
     nbind (far_copy (ed_buff e + buff_cursor_offset e + 1) (ed_buff e + buff_cursor_offset e)
       (buff_size e - buff_cursor_offset e)) (\<lambda>_.
     nbind (setlc (ed_buff e) (buff_cursor_offset e) (ucast (typed_char k))) (\<lambda>_.
     nbind (show_changed v 42 TITLE_ATTRIBUTES) (\<lambda>_.
     nret (e\<lparr>buff_size := buff_size e + 1, buff_cursor_offset := buff_cursor_offset e + 1\<rparr>))))"

definition key_action :: "edit_env \<Rightarrow> editor \<Rightarrow> u16 \<Rightarrow> editor kernelm" where
  "key_action v e k =
     (if k = KEY_F1 then nbind (key_save v e) (\<lambda>_. nret e)
      else if k \<in> set line_moves then nget (\<lambda>s. move_cursor e k (far s))
      else if k = KEY_LEFT
      then nret (if buff_cursor_offset e > 0 then e\<lparr>buff_cursor_offset := buff_cursor_offset e - 1\<rparr> else e)
      else if k = KEY_RIGHT
      then nret (if buff_cursor_offset e < buff_size e - 1 then e\<lparr>buff_cursor_offset := buff_cursor_offset e + 1\<rparr> else e)
      else if k = KEY_BACKSPACE then key_backspace v e
      else if k = KEY_DEL then key_del v e
      else if k \<noteq> KEY_ESC \<and> k \<noteq> 0 then key_insert v e k
      else nret e)"

subsection \<open>The display\<close>

text \<open>The digits of the line number, the lowest first; then the number as it is shown, in four columns.\<close>

primrec bcd_digits :: "nat \<Rightarrow> u16 \<Rightarrow> u8 list" where
  "bcd_digits 0 t = []"
| "bcd_digits (Suc n) t = ucast (t mod 10) # (if t div 10 = 0 then [] else bcd_digits n (t div 10))"

definition line_number_char :: "u8 list \<Rightarrow> nat \<Rightarrow> u8" where
  "line_number_char ds i = (if i < length ds then ds ! (length ds - 1 - i) + 48 else 32)"

definition show_line_number :: "edit_env \<Rightarrow> editor \<Rightarrow> unit kernelm" where
  "show_line_number v e = nbind (nget (\<lambda>s. buffer_offset_to_fileline (far s) (ed_buff e) (ucast (buff_cursor_offset e)) + 1)) (\<lambda>l.
     let ds = bcd_digits 4 (if 9999 < l then 9999 else l);
         n = SCREEN_WIDTH e - strlen title_info + 2
     in each (\<lambda>i. putchar_attr (ed_prog v) (n + of_nat i) 0 (line_number_char ds i) TITLE_ATTRIBUTES) [0 ..< 4])"

definition scroll_to :: "editor \<Rightarrow> u16 \<Rightarrow> editor" where
  "scroll_to e line =
     (if line < current_line e then e\<lparr>current_line := line\<rparr>
      else if line > current_line e + SCREEN_HEIGHT e - 2 then e\<lparr>current_line := line - SCREEN_HEIGHT e + 2\<rparr>
      else e)"

definition refresh :: "edit_env \<Rightarrow> editor \<Rightarrow> editor kernelm" where
  "refresh v e =
     nbind (nget (\<lambda>s. buffer_offset_to_linecol (far s) (SCREEN_WIDTH e) (ed_buff e) (buff_cursor_offset e))) (\<lambda>(col, line).
     let e = scroll_to e line
     in nbind (show_line_number v e) (\<lambda>_.
        nbind (set_show_cursor (ed_prog v) HIDE_CURSOR) (\<lambda>_.
        nbind (show_buffer_at_line v e (ed_buff e) (current_line e)) (\<lambda>_.
        nbind (set_cursor_position (ed_prog v) col (line - current_line e + 1)) (\<lambda>_.
        nbind (set_show_cursor (ed_prog v) SHOW_CURSOR) (\<lambda>_. nret e))))))"

subsection \<open>The main loop\<close>

definition edit_mouse :: "edit_env \<Rightarrow> editor \<Rightarrow> editor kernelm" where
  "edit_mouse v e = nbind (get_mouse_state (ed_prog v) SSM_CHARS) (\<lambda>(x, y, b).
     let e = e\<lparr>ed_mouse_x := x, ed_mouse_y := y, ed_mouse_buttons := b\<rparr>
     in nget (\<lambda>s. if b AND MOUSE_LEFT_BUTTON \<noteq> 0
                  then e\<lparr>buff_cursor_offset := linecol_to_buffer_offset (far s) (SCREEN_WIDTH e) (ed_buff e) x (y - 1)\<rparr>
                  else e))"

definition ignored_key :: "u16 \<Rightarrow> bool" where
  "ignored_key k \<longleftrightarrow> (k > KEY_F1 \<and> k \<le> KEY_F10) \<or> k = KEY_F11 \<or> k = KEY_F12 \<or> k = KEY_PRT_SC \<or> k = KEY_INS \<or> k = 0"

partial_function (option) edit_loop :: "edit_env \<Rightarrow> editor \<Rightarrow> u16 \<Rightarrow> kernel \<Rightarrow> (editor \<times> kernel) option" where
  "edit_loop v e k s =
     (if k = KEY_ESC then nret e s
      else nbind (edit_mouse v e) (\<lambda>e.
           nbind (getkey (ed_prog v) KM_NO_WAIT) (\<lambda>k s.
           if ignored_key k then edit_loop v e k s
           else nbind (key_action v e k) (\<lambda>e. nbind (refresh v e) (\<lambda>e s. edit_loop v e (typed_char k) s)) s)) s)"

subsection \<open>Loading a file and starting\<close>

text \<open>
  The loop that reads the file in blocks of 512 bytes: \<open>Inl\<close> the error of \<open>read_file\<close>, or \<open>Inr\<close> the number of bytes
  read.
\<close>

partial_function (option) load_loop :: "edit_env \<Rightarrow> u32 \<Rightarrow> u32 \<Rightarrow> kernel \<Rightarrow> ((u16 + u32) \<times> kernel) option" where
  "load_loop v buff offset s =
     nbind (read_file (ed_prog v) (cbuff_var v) (ed_path v) (ucast offset) 512) (\<lambda>r s.
       if r = 0 then nret (Inr offset) s
       else if r \<ge> ERROR_ANY then nret (Inl r) s
       else nbind (far_copy (buff + offset) (lp (seg (ed_prog v)) (cbuff_var v)) (ucast r)) (\<lambda>_ s.
            load_loop v buff (offset + ucast r) s) s) s"

text \<open>Loading: the number of bytes of the buffer in use, or \<open>None\<close> when the program ends with an error.\<close>

definition load_file :: "edit_env \<Rightarrow> u32 \<Rightarrow> u16 \<Rightarrow> u32 option kernelm" where
  "load_file v buff sz =
     nbind (setlc buff (ucast sz) 0) (\<lambda>_.
     nbind (\<lambda>s. load_loop v buff 0 s) (\<lambda>r.
     case r of
       Inl err \<Rightarrow> nbind (lmfree (ed_prog v) buff) (\<lambda>_.
         nbind (print (ed_prog v) ''Can't read file %s (error=%x)'' [ed_path v, err]) (\<lambda>_. nret None))
     | Inr offset \<Rightarrow>
         if offset \<noteq> ucast sz
         then nbind (lmfree (ed_prog v) buff) (\<lambda>_.
              nbind (print (ed_prog v) ''Can't read file (readed %d bytes, expected %d)'' [ucast offset, sz]) (\<lambda>_. nret None))
         else nget (\<lambda>s. Some (if ucast sz = (0 :: u32) \<or> getlc (far s) (buff + ucast sz - 1) \<noteq> 0 then ucast sz + 1 else ucast sz))))"

definition open_file :: "edit_env \<Rightarrow> u32 \<Rightarrow> u32 option kernelm" where
  "open_file v buff =
     (let entry = lp (seg (ed_prog v)) (entry_var v)
      in nbind (get_entry (ed_prog v) (entry_var v) (ed_path v) UNKNOWN_VALUE UNKNOWN_VALUE) (\<lambda>n.
         nbind (nget (\<lambda>s. (lmem_getbyte (far s) (entry + 15), far16 (far s) (entry + 16)))) (\<lambda>(flags, sz).
         nbind (if n < ERROR_ANY \<and> flags AND FST_FILE \<noteq> 0 then load_file v buff sz else nret (Some 0)) (\<lambda>r.
         if r = Some 0
         then nbind (nput (\<lambda>s. s\<lparr>far := snd (lmemset buff 0 1 (far s))\<rparr>)) (\<lambda>_. nret (Some 1))
         else nret r))))"

text \<open>The title bar: the path, spaces, and the information at the right end.\<close>

definition write_title :: "edit_env \<Rightarrow> editor \<Rightarrow> unit kernelm" where
  "write_title v e = nbind (nget (\<lambda>s. near_string (ed_prog v) (far s) (ed_path v))) (\<lambda>name.
     let put = (\<lambda>i c. putchar_attr (ed_prog v) (of_nat i) 0 c TITLE_ATTRIBUTES);
         a = unat (strlen name); b = unat (SCREEN_WIDTH e - strlen title_info)
     in nbind (each (\<lambda>i. put i (name ! i)) [0 ..< a]) (\<lambda>_.
        nbind (each (\<lambda>i. put i 32) [a ..< b]) (\<lambda>_.
        each (\<lambda>i. put i (title_info ! unat (of_nat i + strlen title_info - SCREEN_WIDTH e)))
          [max a b ..< unat (SCREEN_WIDTH e)])))"

text \<open>From a loaded buffer to the end of the program.\<close>

definition edit_session :: "edit_env \<Rightarrow> editor \<Rightarrow> unit kernelm" where
  "edit_session v e =
     nbind (write_title v e) (\<lambda>_.
     nbind (set_show_cursor (ed_prog v) HIDE_CURSOR) (\<lambda>_.
     nbind (show_buffer_at_line v e (ed_buff e) (current_line e)) (\<lambda>_.
     nbind (set_cursor_position (ed_prog v) 0 1) (\<lambda>_.
     nbind (set_show_cursor (ed_prog v) SHOW_CURSOR) (\<lambda>_.
     nbind (\<lambda>s. edit_loop v e 0 s) (\<lambda>e.
     nbind (lmfree (ed_prog v) (screen_buff e)) (\<lambda>_.
     nbind (lmfree (ed_prog v) (ed_buff e)) (\<lambda>_.
     nbind (clear_screen (ed_prog v)) (\<lambda>_.
     set_cursor_position (ed_prog v) 0 0)))))))))"

definition screen_setup :: "edit_env \<Rightarrow> editor \<Rightarrow> editor kernelm" where
  "screen_setup v e = (let u = ed_prog v in
     nbind (get_screen_size u SSM_CHARS (width_var v) (height_var v)) (\<lambda>_.
     nbind (nget (\<lambda>s. (far16 (far s) (lp (seg u) (width_var v)), far16 (far s) (lp (seg u) (height_var v))))) (\<lambda>(w, h).
     nbind (lmalloc u (ucast (w * (h - 1)))) (\<lambda>b.
     nret (e\<lparr>SCREEN_WIDTH := w, SCREEN_HEIGHT := h, screen_buff := b\<rparr>)))))"

definition clear_screen_buff :: "editor \<Rightarrow> unit kernelm" where
  "clear_screen_buff e = nput (\<lambda>s. s\<lparr>far := snd (lmemset (screen_buff e) 0
     (ucast (SCREEN_WIDTH e * (SCREEN_HEIGHT e - 1))) (far s))\<rparr>)"

definition usage :: "edit_env \<Rightarrow> unit kernelm" where
  "usage v = (let u = ed_prog v in
     nbind (print u ''Usage: %s <file>'' [ed_argv v ! 0]) (\<lambda>_.
     nbind (print u ''<file> can be:'' []) (\<lambda>_.
     nbind (print u ''-an existing file path: opens existing file to edit'' []) (\<lambda>_.
     nbind (print u ''-a new file path: opens empty editor. File will be created on save'' []) (\<lambda>_.
     print u '''' [])))))"

definition edit_main :: "edit_env \<Rightarrow> u16 kernelm" where
  "edit_main v = (let u = ed_prog v; e = editor_start in
     if length (ed_argv v) \<noteq> 2 then nbind (usage v) (\<lambda>_. nret 1)
     else nbind (lmalloc u 0xFFFF) (\<lambda>buff.
          if buff = 0 then nbind (print u ''Error: can't allocate memory'' []) (\<lambda>_. nret 1)
          else nbind (open_file v buff) (\<lambda>r.
               case r of
                 None \<Rightarrow> nret 1
               | Some n \<Rightarrow>
                   nbind (screen_setup v (e\<lparr>ed_buff := buff, buff_size := n\<rparr>)) (\<lambda>e.
                   if screen_buff e = 0
                   then nbind (print u ''Error: can't allocate memory'' []) (\<lambda>_.
                        nbind (lmfree u buff) (\<lambda>_. nret 1))
                   else nbind (clear_screen_buff e) (\<lambda>_. nbind (edit_session v e) (\<lambda>_. nret 0))))))"

end
