(* ===== verification/Line_Typing.thy ===== *)
theory Line_Typing
  imports Line_Editor File_Samples
begin

section \<open>Typing a line\<close>

text \<open>
  The keyboard as a script: the results of the successive reads of the keyboard, 0 where no key is waiting.
  Everything \<open>getstr\<close> does beside reading keys is quiet: it returns and does not read the keyboard. So what \<open>getstr\<close>
  returns is what the editor on strings makes of the script.
\<close>

definition is_key :: "io_event \<Rightarrow> bool" where
  "is_key e = (case e of InKey k \<Rightarrow> True | _ \<Rightarrow> False)"

definition keys_read :: "io_event list \<Rightarrow> nat" where
  "keys_read evs = length (filter is_key evs)"

lemma keys_read_Cons: "keys_read (e # evs) = (if is_key e then 1 else 0) + keys_read evs"
  by (simp add: keys_read_def)

definition typed :: "u16 list \<Rightarrow> io_event list \<Rightarrow> u16" where
  "typed script evs = (if keys_read evs < length script then script ! keys_read evs else 0)"

text \<open>The keys that are still to be read.\<close>

definition waiting :: "u16 list \<Rightarrow> kernel \<Rightarrow> u16 list \<Rightarrow> bool" where
  "waiting script s ks \<longleftrightarrow> key_dev s = typed script \<and> drop (keys_read (events s)) script = ks"

subsection \<open>Quiet operations\<close>

definition quiet :: "'a kernelm \<Rightarrow> bool" where
  "quiet f \<longleftrightarrow> (\<forall>s. \<exists>r s'. f s = Some (r, s') \<and> key_dev s' = key_dev s \<and> keys_read (events s') = keys_read (events s))"

lemma quietE:
  assumes "quiet f"
  obtains r s' where "f s = Some (r, s')" "key_dev s' = key_dev s" "keys_read (events s') = keys_read (events s)"
  using assms unfolding quiet_def by meson

lemma quiet_nbind:
  assumes "quiet f" "\<And>x. quiet (g x)"
  shows "quiet (nbind f g)"
  unfolding quiet_def
proof
  fix s
  obtain r s' where f: "f s = Some (r, s')" "key_dev s' = key_dev s" "keys_read (events s') = keys_read (events s)"
    using assms(1) by (rule quietE)
  obtain q s'' where "g r s' = Some (q, s'')" "key_dev s'' = key_dev s'" "keys_read (events s'') = keys_read (events s')"
    using assms(2) by (rule quietE)
  then show "\<exists>r s'. nbind f g s = Some (r, s') \<and> key_dev s' = key_dev s \<and> keys_read (events s') = keys_read (events s)"
    using f by simp
qed

lemma quiet_basic: "quiet (nret x)" "quiet (nget g)" "quiet (put_far a bs)" "\<not> is_key e \<Longrightarrow> quiet (emit e)"
  by (simp_all add: quiet_def put_far_def emit_def keys_read_Cons)

lemma quiet_each: "(\<And>x. quiet (f x)) \<Longrightarrow> quiet (each f xs)"
  by (induction xs) (auto intro: quiet_basic quiet_nbind)

lemma screen_call: "service < SYSCALL_MEM_ALLOCATE \<Longrightarrow> service \<noteq> SYSCALL_IO_DRAW_CHAR \<Longrightarrow>
    syscall u service p = screen_service service p"
  by (rule ext) (simp add: syscall_def kernel_service.simps)

lemma quiet_screen_calls:
  "quiet (putchar u c)" "quiet (set_cursor_position u x y)" "quiet (get_cursor_position u px py)"
  "quiet (set_show_cursor u mode)"
  by (auto simp: putchar_def set_cursor_position_def get_cursor_position_def set_show_cursor_def ignore_def syscall_with_def
      screen_call screen_service_def service_out_char_def service_set_cursor_pos_def service_get_cursor_pos_def
      service_set_show_cursor_def is_key_def split: prod.splits if_splits intro!: quiet_nbind quiet_basic)

lemma quiet_redraw: "quiet (redraw_line u str max_count col row l)"
  by (cases l) (auto simp: redraw_line_def intro!: quiet_nbind quiet_each quiet_screen_calls)

lemma quiet_waiting: "quiet f \<Longrightarrow> waiting script s ks \<Longrightarrow> \<exists>r s'. f s = Some (r, s') \<and> waiting script s' ks"
  unfolding quiet_def waiting_def by metis

subsection \<open>Reading keys\<close>

lemma waiting_key:
  assumes "waiting script s (k # ks)"
  shows "key_dev s (events s) = k"
    "keys_read evs = keys_read (events s) + 1 \<Longrightarrow> waiting script (s\<lparr>far := m, events := evs\<rparr>) ks"
proof -
  have d: "drop (keys_read (events s)) script = k # ks" "key_dev s = typed script" using assms by (simp_all add: waiting_def)
  have "keys_read (events s) < length script" using d(1) by (metis drop_eq_Nil linorder_not_le list.distinct(1))
  then show "key_dev s (events s) = k" using d by (simp add: typed_def nth_via_drop)
  show "waiting script (s\<lparr>far := m, events := evs\<rparr>) ks" if "keys_read evs = keys_read (events s) + 1"
    using that d by (simp add: waiting_def drop_Suc) (metis list.sel(3) drop_Suc tl_drop)
qed

lemma getkey_no_wait:
  assumes "waiting script s (k # ks)"
  shows "\<exists>s'. getkey u KM_NO_WAIT s = Some (clean_key k, s') \<and> waiting script s' ks"
proof -
  let ?s = "s\<lparr>far := fput (far s) (param_at u) (le16 0)\<rparr>"
  have "key_loop 0 ?s = Some (k, ?s\<lparr>events := InKey k # events s\<rparr>)"
    using waiting_key(1) [OF assms] by (simp add: key_loop.simps io_in_key_def nbind_def)
  then have "getkey u KM_NO_WAIT s = Some (clean_key k, ?s\<lparr>events := InKey k # events s\<rparr>)"
    by (simp add: getkey_def syscall_with_def put_far_def screen_call screen_service_def service_in_key_def)
  then show ?thesis
    using waiting_key(2) [OF assms, of "InKey k # events s" "far ?s"] by (auto simp: keys_read_Cons is_key_def)
qed

lemma key_loop_clear:
  "waiting script s (pre @ 0 # ks) \<Longrightarrow> 0 \<notin> set pre \<Longrightarrow>
    \<exists>s'. key_loop KM_CLEAR_BUFFER s = Some (0, s') \<and> waiting script s' ks"
proof (induction pre arbitrary: s)
  case Nil
  then have w: "waiting script s (0 # ks)" by simp
  have "key_loop KM_CLEAR_BUFFER s = Some (0, s\<lparr>events := InKey 0 # events s\<rparr>)"
    using waiting_key(1) [OF w] by (simp add: key_loop.simps io_in_key_def nbind_def)
  then show ?case using waiting_key(2) [OF w, of "InKey 0 # events s" "far s"] by (auto simp: keys_read_Cons is_key_def)
next
  case (Cons k pre)
  then have w: "waiting script s (k # pre @ 0 # ks)" by simp
  let ?s = "s\<lparr>events := InKey k # events s\<rparr>"
  have "waiting script ?s (pre @ 0 # ks)"
    using waiting_key(2) [OF w, of "InKey k # events s" "far s"] by (auto simp: keys_read_Cons is_key_def)
  moreover have "key_loop KM_CLEAR_BUFFER s = key_loop KM_CLEAR_BUFFER ?s"
    using waiting_key(1) [OF w] Cons.prems(2) by (subst key_loop.simps) (simp add: io_in_key_def nbind_def)
  ultimately show ?case using Cons by auto
qed

lemma getkey_clear:
  assumes "waiting script s (pre @ 0 # ks)" "0 \<notin> set pre"
  shows "\<exists>s'. getkey u KM_CLEAR_BUFFER s = Some (0, s') \<and> waiting script s' ks"
proof -
  let ?s = "s\<lparr>far := fput (far s) (param_at u) (le16 KM_CLEAR_BUFFER)\<rparr>"
  have "waiting script ?s (pre @ 0 # ks)" using assms(1) by (simp add: waiting_def)
  then obtain s' where "key_loop KM_CLEAR_BUFFER ?s = Some (0, s')" "waiting script s' ks"
    using key_loop_clear assms(2) by meson
  then show ?thesis
    by (auto simp: getkey_def syscall_with_def put_far_def screen_call screen_service_def service_in_key_def clean_key_def)
qed

subsection \<open>The line that is read\<close>

lemma getstr_loop_types:
  assumes "waiting script s (ks @ k # rest)" "\<forall>k \<in> set ks. clean_key k \<noteq> KEY_RETURN" "clean_key k = KEY_RETURN"
  shows "\<exists>s'. getstr_loop u str max_count col row l s = Some (fst (line_keys str max_count (map clean_key ks) l), s') \<and>
    waiting script s' rest"
  using assms(1,2)
proof (induction ks arbitrary: s l)
  case Nil
  then obtain s' where "getkey u KM_NO_WAIT s = Some (KEY_RETURN, s')" "waiting script s' rest"
    using getkey_no_wait [of script s k rest u] assms(3) by auto
  then show ?case by (simp add: getstr_loop.simps line_keys_def)
next
  case (Cons k1 ks)
  then obtain s1 where k: "getkey u KM_NO_WAIT s = Some (clean_key k1, s1)" "waiting script s1 (ks @ k # rest)"
    using getkey_no_wait [of script s k1 "ks @ k # rest" u] by auto
  show ?case
  proof (cases "line_key str max_count (clean_key k1) l")
    case None
    then show ?thesis
      using k Cons by (subst getstr_loop.simps) (simp add: line_keys_def)
  next
    case (Some l')
    obtain s2 where "redraw_line u str max_count col row l' s1 = Some ((), s2)" "waiting script s2 (ks @ k # rest)"
      using quiet_waiting [OF quiet_redraw k(2)] by fastforce
    then show ?thesis
      using k Some Cons by (subst getstr_loop.simps) (simp add: line_keys_def)
  qed
qed

text \<open>
  C9: \<open>getstr\<close> reads a line. Keys pressed before it starts are dropped; the keys after them, up to the return key,
  edit an empty line of at most \<open>max_count - 1\<close> characters at its cursor, where backspace, delete, the arrows, home and end work on the
  string and keys without a character are ignored. It returns with the length of the line, the buffer
  holds the line and zeros behind it, and no other byte of memory has changed.
\<close>

theorem getstr_reads_line:
  assumes "waiting script s (pre @ 0 # ks @ k # rest)" "0 \<notin> set pre"
    and "\<forall>k \<in> set ks. clean_key k \<noteq> KEY_RETURN" "clean_key k = KEY_RETURN"
    and "0 < max_count" "unat str + unat max_count \<le> 65536"
  defines "line \<equiv> fst (edit_keys (unat max_count - 1) (map clean_key ks) ([], 0))"
  shows "length line < unat max_count \<and> (\<exists>s'. getstr u pcol prow m str max_count s =
      Some ((of_nat (length line), put_mem m str (line @ replicate (unat max_count - length line) 0)), s') \<and>
    waiting script s' rest)"
proof -
  let ?n = "unat max_count" and ?m = "snd (memset m str 0 max_count)"
  define l where "l = line_keys str max_count (map clean_key ks) (?m, 0)"
  obtain s1 where s1: "getkey u KM_CLEAR_BUFFER s = Some (0, s1)" "waiting script s1 (ks @ k # rest)"
    using getkey_clear [OF assms(1,2)] by blast
  obtain s2 where s2: "get_cursor_position u pcol prow s1 = Some ((), s2)" "waiting script s2 (ks @ k # rest)"
    using quiet_waiting [OF quiet_screen_calls(3) s1(2)] by fastforce
  obtain s3 where s3: "set_show_cursor u SHOW_CURSOR s2 = Some ((), s3)" "waiting script s3 (ks @ k # rest)"
    using quiet_waiting [OF quiet_screen_calls(4) s2(2)] by fastforce
  obtain s4 where s4: "getstr_loop u str max_count (far16 (far s3) (lp (seg u) pcol)) (far16 (far s3) (lp (seg u) prow)) (?m, 0) s3 =
      Some (fst l, s4)" "waiting script s4 rest"
    using getstr_loop_types [OF s3(2) assms(3,4)] unfolding l_def by blast
  obtain s5 where s5: "putchar u 10 s4 = Some ((), s5)" "waiting script s5 rest"
    using quiet_waiting [OF quiet_screen_calls(1) s4(2)] by fastforce
  obtain s6 where s6: "putchar u 13 s5 = Some ((), s6)" "waiting script s6 rest"
    using quiet_waiting [OF quiet_screen_calls(1) s5(2)] by fastforce
  have n: "0 < ?n" using assms(5) by (simp add: word_less_nat_alt)
  have "holds_line m str ?n ([], 0) (?m, 0)"
    using n by (simp add: holds_line_def memset_put pad_def)
  from line_keys_edits [OF this assms(6) refl]
  have h: "holds_line m str ?n (edit_keys (?n - 1) (map clean_key ks) ([], 0)) l" unfolding l_def .
  obtain p i where p: "edit_keys (?n - 1) (map clean_key ks) ([], 0) = (line, p)" "l = (fst l, i)"
    unfolding line_def by (metis prod.collapse)
  then have hl: "holds_line m str ?n (line, p) (fst l, i)" using h by metis
  then have m: "fst l = put_mem m str (pad ?n line)" "length line < ?n" by (simp_all add: holds_line_def)
  have "str + (max_count - 1) = str + of_nat (?n - 1)" using n by (simp add: of_nat_diff)
  moreover have "(pad ?n line)[?n - 1 := 0] = pad ?n line"
    using m(2) by (intro nth_equalityI) (auto simp: nth_list_update nth_pad)
  ultimately have "(fst l)(str + (max_count - 1) := 0) = fst l"
    using put_mem_upd [of "?n - 1" "pad ?n line" m str 0] n m assms(6) unfolding m(1) by simp
  moreover have "strlen (str_mem (fst l) str) = of_nat (length line)"
    using str_mem_line [OF hl] assms(6) by (simp add: strlen_cstring)
  ultimately have "getstr u pcol prow m str max_count s = Some ((of_nat (length line), fst l), s6)"
    using s1(1) s2(1) s3(1) s4(1) s5(1) s6(1) by (simp add: getstr_def Let_def)
  then show ?thesis using m s6(2) by (auto simp: pad_def)
qed

theorem getstr_reads_line_witness:
  defines "keys \<equiv> [0x266C, 0, 0x1F73, 0x1F73, 0x2D78, 0x0E08, 0x4700, 0x5300, 0x0000, 0x266C, 0x1C0D]"
  shows "\<exists>s'. getstr sample_program 0xFE00 0xFE02 (\<lambda>x. 1) 0x1000 8 (sample_kernel\<lparr>key_dev := typed keys\<rparr>) =
      Some ((2, put_mem (\<lambda>x. 1) 0x1000 (bytes ''ls'' @ replicate 6 0)), s') \<and> waiting keys s' []"
proof -
  have w: "waiting keys (sample_kernel\<lparr>key_dev := typed keys\<rparr>)
      ([0x266C] @ 0 # [0x1F73, 0x1F73, 0x2D78, 0x0E08, 0x4700, 0x5300, 0x0000, 0x266C] @ 0x1C0D # [])"
    by (simp add: waiting_def keys_def sample_kernel_def keys_read_def)
  have clean: "map clean_key [0x1F73, 0x1F73, 0x2D78, 0x0E08, 0x4700, 0x5300, 0x0000, 0x266C] =
      [0x73, 0x73, 0x78, 0x08, 0x4700, 0x5300, 0, 0x6C]" "clean_key 0x1C0D = KEY_RETURN"
    by code_simp+
  have line: "fst (edit_keys 7 [0x73, 0x73, 0x78, 0x08, 0x4700, 0x5300, 0, 0x6C] ([], 0)) = bytes ''ls''"
    by code_simp
  have "\<forall>k \<in> set (map clean_key [0x1F73, 0x1F73, 0x2D78, 0x0E08, 0x4700, 0x5300, 0x0000, 0x266C]). k \<noteq> KEY_RETURN"
    unfolding clean by simp
  then have "\<forall>k \<in> set [0x1F73, 0x1F73, 0x2D78, 0x0E08, 0x4700, 0x5300, 0x0000, 0x266C]. clean_key k \<noteq> KEY_RETURN"
    by simp
  from getstr_reads_line [OF w _ this clean(2), of 8 "0x1000" sample_program "0xFE00" "0xFE02" "\<lambda>x. 1"]
  show ?thesis unfolding clean by (simp add: line)
qed

end
