(* ===== verification/Edit_Text.thy ===== *)
theory Edit_Text
  imports Edit Line_Typing
begin

section \<open>Text and cursor of the editor\<close>

text \<open>
  What the keys of the editor do, stated on a text and a position in it. Lines end with a newline; \<open>place\<close> is the
  column and the line of a position, \<open>offset_of\<close> the position of a column and a line, at the end of the line where
  it is shorter and at the end of the text where there is no such line. The conversions of the code agree with
  them as long as all lines are shorter than the screen, and a key of the code is the key on the text.
\<close>

subsection \<open>The editor on texts\<close>

definition place :: "u8 list \<Rightarrow> nat \<Rightarrow> nat \<times> nat" where
  "place t p = foldl (\<lambda>(col, line) c. if c = 10 then (0, line + 1) else (col + 1, line)) (0, 0) (take p t)"

fun line_start :: "u8 list \<Rightarrow> nat \<Rightarrow> nat" where
  "line_start t 0 = 0"
| "line_start [] (Suc line) = 0"
| "line_start (c # t) (Suc line) = Suc (line_start t (if c = 10 then line else Suc line))"

definition run :: "u8 list \<Rightarrow> nat" where "run t = length (takeWhile (\<lambda>c. c \<noteq> 10) t)"

definition offset_of :: "u8 list \<Rightarrow> nat \<Rightarrow> nat \<Rightarrow> nat" where
  "offset_of t col line = line_start t line + min col (run (drop (line_start t line) t))"

text \<open>Every line is shorter than \<open>w\<close>.\<close>

primrec short_lines :: "nat \<Rightarrow> u8 list \<Rightarrow> bool" where
  "short_lines w [] \<longleftrightarrow> 0 < w"
| "short_lines w (c # t) \<longleftrightarrow> run (c # t) < w \<and> short_lines w t"

text \<open>A key; \<open>h\<close> is the number of lines of a page.\<close>

definition text_key :: "nat \<Rightarrow> u16 \<Rightarrow> u8 list \<times> nat \<Rightarrow> u8 list \<times> nat" where
  "text_key h k = (\<lambda>(t, p). let (col, line) = place t p in
     (if k = KEY_UP then (t, if line = 0 then p else offset_of t col (line - 1))
      else if k = KEY_DOWN then (t, offset_of t col (line + 1))
      else if k = KEY_HOME then (t, offset_of t 0 line)
      else if k = KEY_END then (t, offset_of t (length t) line)
      else if k = KEY_PG_DN then (t, offset_of t col (line + h))
      else if k = KEY_PG_UP then (t, offset_of t col (line - h))
      else if k = KEY_LEFT then (t, p - 1)
      else if k = KEY_RIGHT then (t, min (p + 1) (length t))
      else if k = KEY_BACKSPACE then (if p = 0 then (t, p) else (take (p - 1) t @ drop p t, p - 1))
      else if k = KEY_DEL then (take p t @ drop (p + 1) t, p)
      else if k = KEY_ESC then (t, p)
      else (take p t @ ucast (typed_char k) # drop p t, p + 1)))"

lemma run_simps [simp]: "run [] = 0" "run (c # t) = (if c = 10 then 0 else Suc (run t))"
  by (simp_all add: run_def)

lemma run_le: "run t \<le> length t"
  unfolding run_def by (rule length_takeWhile_le)

lemma line_start_le: "line_start t line \<le> length t"
  by (induction t line rule: line_start.induct) auto

lemma offset_of_le: "offset_of t col line \<le> length t"
  using line_start_le [of t line] run_le [of "drop (line_start t line) t"] by (auto simp: offset_of_def min_def)

lemma short_run: "short_lines w t \<Longrightarrow> run t < w"
  by (cases t) auto

lemma short_drop: "short_lines w t \<Longrightarrow> short_lines w (drop j t)"
proof (induction t arbitrary: j)
  case (Cons c t)
  then show ?case by (cases j) auto
qed simp

text \<open>The place of a position that is reached from a column and a line.\<close>

definition advance :: "nat \<times> nat \<Rightarrow> u8 list \<Rightarrow> nat \<times> nat" where
  "advance x cs = foldl (\<lambda>(col, line) c. if c = 10 then (0, line + 1) else (col + 1, line)) x cs"

lemma advance_simps [simp]:
  "advance x [] = x" "advance (col, line) (c # cs) = advance (if c = 10 then (0, line + 1) else (col + 1, line)) cs"
  by (simp_all add: advance_def)

lemma place_advance: "place t p = advance (0, 0) (take p t)"
  by (simp add: place_def advance_def)

lemma advance_line: "snd (advance (col, line) cs) \<le> line + length cs"
proof (induction cs arbitrary: col line)
  case (Cons c cs)
  show ?case using Cons.IH [where line = "Suc line" and col = 0] Cons.IH [where line = line and col = "Suc col"] by auto
qed simp

lemma place_line: "snd (place t p) \<le> length t"
  using advance_line [of 0 0 "take p t"] by (simp add: place_advance)

text \<open>The round trip on texts.\<close>

lemma advance_back:
  assumes "p \<le> length t"
  shows "line \<le> snd (advance (col, line) (take p t)) \<and>
    line_start t (snd (advance (col, line) (take p t)) - line) +
      fst (advance (col, line) (take p t)) =
    p + (if snd (advance (col, line) (take p t)) = line then col else 0) \<and>
    fst (advance (col, line) (take p t)) \<le> (if snd (advance (col, line) (take p t)) = line then col else 0) +
      run (drop (line_start t (snd (advance (col, line) (take p t)) - line)) t)"
  using assms
proof (induction t arbitrary: p col line)
  case (Cons c t)
  show ?case
  proof (cases p)
    case (Suc q)
    show ?thesis
    proof (cases "c = 10")
      case True
      obtain a b where x: "advance (0, Suc line) (take q t) = (a, b)" by fastforce
      have ih: "Suc line \<le> b" "line_start t (b - Suc line) + a = q" "a \<le> run (drop (line_start t (b - Suc line)) t)"
        using Cons.IH [of q "Suc line" 0] Cons.prems Suc by (auto simp: x split: if_splits)
      then obtain l where "b = Suc (line + l)" by (metis Suc_le_D add_Suc le_Suc_ex)
      then show ?thesis using True Suc x ih by simp
    next
      case False
      obtain a b where x: "advance (Suc col, line) (take q t) = (a, b)" by fastforce
      have ih: "line \<le> b \<and> line_start t (b - line) + a = q + (if b = line then Suc col else 0) \<and>
          a \<le> (if b = line then Suc col else 0) + run (drop (line_start t (b - line)) t)"
        using Cons.IH [of q line "Suc col"] Cons.prems Suc by (simp add: x)
      then obtain l where "b = line + l" by (metis le_Suc_ex)
      then show ?thesis using False Suc x ih by (cases l) (auto split: if_splits)
    qed
  qed simp
qed simp

lemma offset_of_place: "p \<le> length t \<Longrightarrow> offset_of t (fst (place t p)) (snd (place t p)) = p"
  using advance_back [of p t 0 0] by (auto simp: place_advance offset_of_def split: if_splits)


subsection \<open>The conversions of the code\<close>

definition text_at :: "fmem \<Rightarrow> u32 \<Rightarrow> u8 list \<Rightarrow> bool" where
  "text_at m a t \<longleftrightarrow> fget m a (length t + 1) = t @ [0] \<and> 0 \<notin> set t"

lemma fget_Cons: "fget m a (Suc n) = lmem_getbyte m a # fget m (a + 1) n"
  by (simp add: fget_def map_upt_Suc add.assoc del: upt_Suc)

lemma text_at_Nil: "text_at m a [] \<Longrightarrow> getlc m a = 0"
  by (simp add: text_at_def getlc_def fget_Cons)

lemma text_at_Cons: "text_at m a (c # t) \<longleftrightarrow> getlc m a = c \<and> c \<noteq> 0 \<and> text_at m (a + 1) t"
  by (auto simp: text_at_def getlc_def fget_Cons simp del: fget_def)

lemma text_at_drop: "text_at m a t \<Longrightarrow> j \<le> length t \<Longrightarrow> text_at m (a + of_nat j) (drop j t)"
proof (induction t arbitrary: a j)
  case (Cons c t)
  then show ?case using Cons.IH [where a = "a + 1"] by (cases j) (auto simp: text_at_Cons add.assoc)
qed simp

lemma linecol_text:
  assumes "text_at m a t" "p \<le> length t" "short_lines (unat w) t" "unat col + run t < unat w" "unat line + p < 65536"
  shows "map_prod unat unat (linecol_loop m w p a (col, line)) = advance (unat col, unat line) (take p t)"
  using assms
proof (induction p arbitrary: a t col line)
  case (Suc p)
  then obtain c r where t: "t = c # r" by (cases t) auto
  have r: "getlc m a = c" "c \<noteq> 0" "text_at m (a + 1) r" "p \<le> length r" "short_lines (unat w) r" "run r < unat w"
    using Suc.prems short_run [of "unat w" r] by (auto simp: t text_at_Cons)
  have l: "unat (line + 1) = unat line + 1" using Suc.prems(5) by (intro unat_plus1_u16) simp
  show ?case
  proof (cases "c = 10")
    case True
    then show ?thesis using Suc.IH [OF r(3-5), of 0 "line + 1"] Suc.prems(5) r l by (simp add: t)
  next
    case False
    have "unat col + Suc (run r) < unat w" using Suc.prems(4) False by (simp add: t)
    moreover from this have cc: "unat (col + 1) = unat col + 1"
      using unat_u16_lt [of w] by (intro unat_plus1_u16) simp
    ultimately show ?thesis
      using Suc.IH [OF r(3-5), of "col + 1" line] Suc.prems(5) False r by (simp add: t word_le_nat_alt)
  qed
qed simp

lemma linecol_place:
  assumes "text_at m buff t" "unat offset \<le> length t" "short_lines (unat w) t" "length t < 65536"
  shows "map_prod unat unat (buffer_offset_to_linecol m w buff offset) = place t (unat offset)"
  using linecol_text [OF assms(1-3), of 0 0] short_run [OF assms(3)] assms
  by (simp add: buffer_offset_to_linecol_def place_advance)

lemma line_loop_text:
  assumes "text_at m a t" "short_lines (unat w) t" "unat c + run t \<le> unat w"
  shows "line_loop m w c line off a = (off + of_nat (line_start t (unat line)), a + of_nat (line_start t (unat line)))"
  using assms
proof (induction t arbitrary: a c line off)
  case Nil
  then show ?case by (subst line_loop.simps) (cases "unat line"; simp add: text_at_Nil)
next
  case (Cons x t)
  have r: "getlc m a = x" "x \<noteq> 0" "text_at m (a + 1) t" "short_lines (unat w) t" "run t < unat w"
    using Cons.prems short_run [of "unat w" t] by (auto simp: text_at_Cons)
  show ?case
  proof (cases "unat line")
    case 0
    then have "line = 0" by (simp add: unat_eq_0)
    then show ?thesis by (subst line_loop.simps) simp
  next
    case (Suc l)
    then have l: "0 < line" "unat (line - 1) = l"
      using unat_minus_of_nat [of 1 line] by (simp_all add: word_less_nat_alt)
    show ?thesis
    proof (cases "x = 10")
      case True
      then show ?thesis
        using Cons.IH [OF r(3,4), of 1 "line - 1" "off + 1"] r l Suc by (subst line_loop.simps) (simp add: algebra_simps)
    next
      case False
      then have c: "unat c + Suc (run t) \<le> unat w" using Cons.prems(3) by simp
      then have "unat (c + 1) = unat c + 1" using unat_u16_lt [of w] by (intro unat_plus1_u16) simp
      moreover have "\<not> c \<ge> w" using c by (simp add: word_le_nat_alt)
      ultimately show ?thesis
        using Cons.IH [OF r(3,4), of "c + 1" line "off + 1"] r l Suc c False
        by (subst line_loop.simps) (simp add: algebra_simps)
    qed
  qed
qed

lemma col_loop_text:
  assumes "text_at m a t"
  shows "col_loop m n off a = off + of_nat (min n (run t))"
  using assms
proof (induction n arbitrary: a t off)
  case (Suc n)
  show ?case
  proof (cases t)
    case Nil
    then show ?thesis using Suc.prems by (simp add: text_at_Nil)
  next
    case (Cons x r)
    then have r: "getlc m a = x" "x \<noteq> 0" "text_at m (a + 1) r" using Suc.prems by (auto simp: text_at_Cons)
    then show ?thesis using Suc.IH [OF r(3), of "off + 1"] Cons by (simp add: algebra_simps)
  qed
qed simp

lemma offset_text:
  assumes "text_at m buff t" "short_lines (unat w) t"
  shows "linecol_to_buffer_offset m w buff col line = of_nat (offset_of t (unat col) (unat line))"
proof -
  let ?l = "line_start t (unat line)"
  have "line_loop m w 0 line 0 buff = (of_nat ?l, buff + of_nat ?l)"
    using line_loop_text [OF assms, of 0 line 0] short_run [OF assms(2)] by simp
  moreover have "col_loop m (unat col) (of_nat ?l) (buff + of_nat ?l) = of_nat ?l + of_nat (min (unat col) (run (drop ?l t)))"
    by (rule col_loop_text) (rule text_at_drop [OF assms(1) line_start_le])
  ultimately show ?thesis by (simp add: linecol_to_buffer_offset_def offset_of_def)
qed

text \<open>
  C40: the conversions between offsets and screen positions are inverse to each other. For a text whose lines are
  all shorter than the screen, the offset of the column and line of an offset is that offset.
\<close>

theorem linecol_roundtrip:
  assumes "text_at m buff t" "short_lines (unat w) t" "length t < 65536" "unat offset \<le> length t"
  shows "(let (col, line) = buffer_offset_to_linecol m w buff offset in linecol_to_buffer_offset m w buff col line) = offset"
proof -
  obtain col line where x: "buffer_offset_to_linecol m w buff offset = (col, line)" by fastforce
  then have "place t (unat offset) = (unat col, unat line)"
    using linecol_place [OF assms(1,4,2,3)] by (metis map_prod_simp)
  then have "offset_of t (unat col) (unat line) = unat offset" using offset_of_place [OF assms(4)] by simp
  then show ?thesis using offset_text [OF assms(1,2), of col line] x by simp
qed

theorem linecol_roundtrip_witness:
  "let m = fput (\<lambda>_. 0) 0x20000 (bytes ''ab'' @ [10] @ bytes ''cde'' @ [0])
   in buffer_offset_to_linecol m 80 0x20000 5 = (2, 1) \<and>
      (let (col, line) = buffer_offset_to_linecol m 80 0x20000 5 in linecol_to_buffer_offset m 80 0x20000 col line) = 5"
proof -
  define t where "t = bytes ''ab'' @ [10] @ bytes ''cde''"
  have t: "0 \<notin> set t" "short_lines (unat (80 :: u16)) t" "length t = 6" "place t 5 = (2, 1)"
    unfolding t_def by code_simp+
  define m where "m = fput (\<lambda>_. 0) 0x20000 (t @ [0])"
  have m: "text_at m 0x20000 t"
    using fget_fput0 [of 7 "t @ [0]" "\<lambda>_. 0" "0x20000"] t by (simp add: text_at_def m_def)
  have "map_prod unat unat (buffer_offset_to_linecol m 80 0x20000 5) = (2, 1)"
    using linecol_place [OF m _ t(2), of 5] t by simp
  then have "buffer_offset_to_linecol m 80 0x20000 5 = (2, 1)"
    by (cases "buffer_offset_to_linecol m 80 0x20000 5") (simp add: word_unat_eq_iff)
  moreover note linecol_roundtrip [OF m t(2), of 5]
  ultimately show ?thesis using t by (simp add: m_def t_def)
qed


text \<open>With a line that is longer than the screen the way back is one character too far.\<close>

lemma wrapped_line_off_by_one:
  "let m = fput (\<lambda>_. 0) 0x20000 (bytes ''abcde'')
   in buffer_offset_to_linecol m 3 0x20000 4 = (1, 1) \<and> linecol_to_buffer_offset m 3 0x20000 1 1 = 5"
  by code_simp

end
