(* ===== verification/Edit_Screen.thy ===== *)
theory Edit_Screen
  imports Edit_Text
begin

section \<open>The display of the editor\<close>

text \<open>
  The editor draws a character only when it differs from the one in its own copy of the screen. What the screen
  shows is what the events say was drawn last in a cell; showing the buffer makes every cell of the editor area
  show the picture of the text, as long as the copy agrees with the screen before.
\<close>

subsection \<open>Screen, copy, and what is left alone\<close>

text \<open>The character the text screen shows in a cell; \<open>None\<close> where that is not known.\<close>

fun shown :: "io_event list \<Rightarrow> nat \<Rightarrow> nat \<Rightarrow> u8 option" where
  "shown (OutCharAttr col row c attr # evs) x y = (if unat col = x \<and> unat row = y then Some c else shown evs x y)"
| "shown (SetCursor col row # evs) x y = shown evs x y"
| "shown (GetCursor # evs) x y = shown evs x y"
| "shown (HideCursor # evs) x y = shown evs x y"
| "shown (ShowCursor # evs) x y = shown evs x y"
| "shown (InKey k # evs) x y = shown evs x y"
| "shown (OutSerial c # evs) x y = shown evs x y"
| "shown evs x y = None"

definition screen_cells :: "editor \<Rightarrow> nat" where
  "screen_cells e = unat (SCREEN_WIDTH e) * (unat (SCREEN_HEIGHT e) - 1)"

text \<open>The cells of the editor area: the title bar is row 0.\<close>

definition in_area :: "editor \<Rightarrow> nat \<Rightarrow> nat \<Rightarrow> bool" where
  "in_area e x y \<longleftrightarrow> x < unat (SCREEN_WIDTH e) \<and> 1 \<le> y \<and> y < unat (SCREEN_HEIGHT e)"

definition cell_index :: "editor \<Rightarrow> nat \<Rightarrow> nat \<Rightarrow> nat" where
  "cell_index e x y = x + (y - 1) * unat (SCREEN_WIDTH e)"

definition cell :: "editor \<Rightarrow> kernel \<Rightarrow> nat \<Rightarrow> nat \<Rightarrow> u8" where
  "cell e s x y = far s (phys (screen_buff e) + of_nat (cell_index e x y))"

text \<open>Memory that is neither the copy of the screen nor holds parameters of system calls.\<close>

definition protected :: "edit_env \<Rightarrow> editor \<Rightarrow> u20 \<Rightarrow> bool" where
  "protected v e x \<longleftrightarrow> 12 \<le> unat (x - phys (param_at (ed_prog v))) \<and> screen_cells e \<le> unat (x - phys (screen_buff e))"

definition edit_layout :: "edit_env \<Rightarrow> editor \<Rightarrow> bool" where
  "edit_layout v e \<longleftrightarrow> ed_buff e \<noteq> 0 \<and> unat (ed_buff e) + 0xFFFF \<le> 1048576 \<and>
     (\<forall>i < 0xFFFF. protected v e (phys (ed_buff e) + of_nat i)) \<and>
     (\<forall>i < screen_cells e. 12 \<le> unat (phys (screen_buff e) + of_nat i - phys (param_at (ed_prog v)))) \<and>
     screen_cells e < 65536 \<and> 2 \<le> unat (SCREEN_HEIGHT e)"

definition mirrors :: "editor \<Rightarrow> kernel \<Rightarrow> bool" where
  "mirrors e s \<longleftrightarrow> (\<forall>x y. in_area e x y \<longrightarrow> cell e s x y = 0 \<or> shown (events s) x y = Some (cell e s x y))"

definition same_input :: "kernel \<Rightarrow> kernel \<Rightarrow> bool" where
  "same_input s s' \<longleftrightarrow> key_dev s' = key_dev s \<and> keys_read (events s') = keys_read (events s) \<and> mouse_b s' = mouse_b s"

text \<open>From \<open>s\<close> to \<open>s'\<close> the cells of \<open>A\<close> have got the characters of \<open>g\<close>, and no others have changed.\<close>

definition drawn :: "edit_env \<Rightarrow> editor \<Rightarrow> (nat \<times> nat) set \<Rightarrow> (nat \<Rightarrow> nat \<Rightarrow> u8) \<Rightarrow> kernel \<Rightarrow> kernel \<Rightarrow> bool" where
  "drawn v e A g s s' \<longleftrightarrow> same_input s s' \<and> (\<forall>x. protected v e x \<longrightarrow> far s' x = far s x) \<and>
     (\<forall>x y. in_area e x y \<longrightarrow>
        (if (x, y) \<in> A then cell e s' x y = g x y \<and> shown (events s') x y = Some (g x y)
         else cell e s' x y = cell e s x y \<and> shown (events s') x y = shown (events s) x y))"

lemma drawn_refl: "drawn v e {} g s s"
  by (simp add: drawn_def same_input_def)

lemma drawn_cell:
  "drawn v e A g s s' \<Longrightarrow> in_area e x y \<Longrightarrow>
    (if (x, y) \<in> A then cell e s' x y = g x y \<and> shown (events s') x y = Some (g x y)
     else cell e s' x y = cell e s x y \<and> shown (events s') x y = shown (events s) x y)"
  by (simp add: drawn_def)

lemma drawn_trans:
  assumes "drawn v e A g s s'" "drawn v e B g s' s''"
  shows "drawn v e (A \<union> B) g s s''"
  unfolding drawn_def
proof (intro conjI allI impI)
  show "same_input s s''" using assms by (simp add: drawn_def same_input_def)
  show "far s'' x = far s x" if "protected v e x" for x using that assms by (simp add: drawn_def)
  show "if (x, y) \<in> A \<union> B then cell e s'' x y = g x y \<and> shown (events s'') x y = Some (g x y)
      else cell e s'' x y = cell e s x y \<and> shown (events s'') x y = shown (events s) x y" if "in_area e x y" for x y
    using drawn_cell [OF assms(1) that] drawn_cell [OF assms(2) that] by (auto split: if_splits)
qed

lemma drawn_cong:
  assumes "drawn v e A g s s'" "\<And>x y. in_area e x y \<Longrightarrow> (x, y) \<in> A \<longleftrightarrow> (x, y) \<in> B"
    "\<And>x y. in_area e x y \<Longrightarrow> (x, y) \<in> B \<Longrightarrow> g x y = h x y"
  shows "drawn v e B h s s'"
  using assms(1) unfolding drawn_def
proof (elim conjE, intro conjI allI impI)
  show "if (x, y) \<in> B then cell e s' x y = h x y \<and> shown (events s') x y = Some (h x y)
      else cell e s' x y = cell e s x y \<and> shown (events s') x y = shown (events s) x y" if "in_area e x y" for x y
    using drawn_cell [OF assms(1) that] assms(2,3) [OF that] by (auto split: if_splits)
qed simp_all

lemma drawn_mirrors:
  assumes "drawn v e A g s s'" "mirrors e s"
  shows "mirrors e s'"
  unfolding mirrors_def
proof (intro allI impI)
  fix x y assume a: "in_area e x y"
  show "cell e s' x y = 0 \<or> shown (events s') x y = Some (cell e s' x y)"
    using drawn_cell [OF assms(1) a] a assms(2) by (auto simp: mirrors_def split: if_splits)
qed

subsection \<open>The system calls of the display\<close>

lemma putchar_attr_run:
  "putchar_attr u col row c attr s = Some ((), s\<lparr>far := fput (far s) (param_at u)
     (posattr_bytes \<lparr>pa_x = col, pa_y = row, pa_c = ucast c, pa_attr = ucast attr\<rparr>), events := OutCharAttr col row c attr # events s\<rparr>)"
proof -
  have "ucast (ucast b :: u16) = (b :: u8)" for b by (rule bit_word_eqI) (simp add: bit_simps)
  then show ?thesis
    by (simp add: putchar_attr_def ignore_def syscall_with_def put_far_def screen_call screen_service_def
        service_out_char_attr_def emit_def nbind_def)
qed

lemma set_cursor_run:
  "set_cursor_position u col row s = Some ((), s\<lparr>far := fput (far s) (param_at u)
     (position_bytes \<lparr>ps_x = col, ps_y = row, ps_px = 0, ps_py = 0\<rparr>), events := SetCursor col row # events s\<rparr>)"
  by (simp add: set_cursor_position_def ignore_def syscall_with_def put_far_def screen_call screen_service_def
      service_set_cursor_pos_def emit_def nbind_def)

lemma show_cursor_run:
  "set_show_cursor u mode s = Some ((), s\<lparr>far := fput (far s) (param_at u) (le16 mode),
     events := (if mode = HIDE_CURSOR then HideCursor else ShowCursor) # events s\<rparr>)"
  by (simp add: set_show_cursor_def ignore_def syscall_with_def put_far_def screen_call screen_service_def
      service_set_show_cursor_def emit_def nbind_def)

text \<open>Parameters beside the copy of the screen.\<close>

lemma cell_index_less:
  assumes "in_area e x y"
  shows "cell_index e x y < screen_cells e"
proof -
  obtain h where h: "unat (SCREEN_HEIGHT e) = Suc h" "y - 1 < h"
    using assms by (cases "unat (SCREEN_HEIGHT e)") (auto simp: in_area_def)
  have "cell_index e x y < unat (SCREEN_WIDTH e) + (y - 1) * unat (SCREEN_WIDTH e)"
    using assms by (simp add: cell_index_def in_area_def)
  also have "\<dots> = Suc (y - 1) * unat (SCREEN_WIDTH e)" by simp
  also have "\<dots> \<le> h * unat (SCREEN_WIDTH e)" using h(2) by (intro mult_le_mono1) simp
  finally show ?thesis using h(1) by (simp add: screen_cells_def mult.commute)
qed

lemma cell_index_inj:
  assumes "in_area e x y" "in_area e x' y'" "cell_index e x y = cell_index e x' y'"
  shows "x = x' \<and> y = y'"
proof -
  let ?w = "unat (SCREEN_WIDTH e)"
  have "cell_index e a b mod ?w = a" "cell_index e a b div ?w = b - 1" if "in_area e a b" for a b
    using that by (simp_all add: cell_index_def in_area_def)
  from this(1) [OF assms(1)] this(1) [OF assms(2)] this(2) [OF assms(1)] this(2) [OF assms(2)]
  show ?thesis using assms by (auto simp: in_area_def)
qed

lemma params_beside:
  assumes "edit_layout v e" "length bs \<le> 12"
  shows "protected v e x \<Longrightarrow> fput m (param_at (ed_prog v)) bs x = m x"
    "in_area e x' y' \<Longrightarrow> cell e (s\<lparr>far := fput m (param_at (ed_prog v)) bs, events := evs\<rparr>) x' y' = cell e (s\<lparr>far := m\<rparr>) x' y'"
proof -
  show "fput m (param_at (ed_prog v)) bs x = m x" if "protected v e x"
    using that assms(2) by (auto simp: protected_def fput_def)
  show "cell e (s\<lparr>far := fput m (param_at (ed_prog v)) bs, events := evs\<rparr>) x' y' = cell e (s\<lparr>far := m\<rparr>) x' y'" if "in_area e x' y'"
  proof -
    have "12 \<le> unat (phys (screen_buff e) + of_nat (cell_index e x' y') - phys (param_at (ed_prog v)))"
      using assms(1) cell_index_less [OF that] unfolding edit_layout_def by blast
    then show ?thesis using assms(2) by (simp add: cell_def fput_def)
  qed
qed

text \<open>A call that draws nothing in the editor area.\<close>

lemma drawn_call:
  assumes "edit_layout v e" "length bs \<le> 12" "\<And>x y. in_area e x y \<Longrightarrow> shown (ev # events s) x y = shown (events s) x y"
    "\<not> is_key ev"
  shows "drawn v e {} g s (s\<lparr>far := fput (far s) (param_at (ed_prog v)) bs, events := ev # events s\<rparr>)"
  using assms params_beside [OF assms(1,2)]
  by (simp add: drawn_def same_input_def keys_read_Cons cell_def)

lemma drawn_title:
  assumes "edit_layout v e"
  shows "\<exists>s'. putchar_attr (ed_prog v) col 0 c attr s = Some ((), s') \<and> drawn v e {} g s s'"
  unfolding putchar_attr_run
  by (intro exI conjI, rule refl, rule drawn_call [OF assms]) (auto simp: in_area_def is_key_def)

lemma drawn_cursor:
  assumes "edit_layout v e"
  shows "\<exists>s'. set_cursor_position (ed_prog v) col row s = Some ((), s') \<and> drawn v e {} g s s'"
    "\<exists>s'. set_show_cursor (ed_prog v) mode s = Some ((), s') \<and> drawn v e {} g s s'"
  unfolding set_cursor_run show_cursor_run
  by (intro exI conjI, rule refl, rule drawn_call [OF assms]; auto simp: is_key_def)+


subsection \<open>Drawing a character\<close>

text \<open>What is drawn for a character: the mouse is a plus sign.\<close>

definition glyph :: "editor \<Rightarrow> nat \<Rightarrow> nat \<Rightarrow> u8 \<Rightarrow> u8" where
  "glyph e x y c = (if of_nat x = ed_mouse_x e \<and> of_nat y = ed_mouse_y e then 43 else c)"

lemma screen_offset_cell:
  assumes "edit_layout v e" "in_area e x y"
  shows "screen_offset e (of_nat x) (of_nat y) = of_nat (cell_index e x y)"
proof -
  have n: "cell_index e x y < 65536"
    using cell_index_less [OF assms(2)] assms(1) by (simp add: edit_layout_def)
  have "of_nat y - 1 = (of_nat (y - 1) :: u16)" using assms(2) by (simp add: in_area_def of_nat_diff)
  then have "of_nat x + (of_nat y - 1) * SCREEN_WIDTH e = (of_nat (cell_index e x y) :: u16)"
    by (simp add: cell_index_def)
  then show ?thesis
    using n by (simp add: screen_offset_def word_unat_eq_iff unsigned_ucast_eq unat_of_nat take_bit_eq_mod)
qed

lemma editor_putchar_drawn:
  assumes l: "edit_layout v e" and m: "mirrors e s" and a: "in_area e x y" and c: "c \<noteq> 0" "g x y = glyph e x y c"
  shows "\<exists>s'. editor_putchar v e (of_nat x) (of_nat y) c s = Some ((), s') \<and> drawn v e {(x, y)} g s s'"
proof -
  define p where "p = phys (screen_buff e) + of_nat (cell_index e x y)"
  have p: "phys (screen_buff e + screen_offset e (of_nat x) (of_nat y)) = p"
    by (simp add: p_def screen_offset_cell [OF l a] phys_add phys_of_nat)
  let ?c = "glyph e x y c"
  have nz: "?c \<noteq> 0" using c(1) by (simp add: glyph_def)
  have cellp: "cell e s x y = far s p" for s by (simp add: cell_def p_def)
  show ?thesis
  proof (cases "far s p = ?c")
    case True
    then have "editor_putchar v e (of_nat x) (of_nat y) c s = Some ((), s)"
      by (simp add: editor_putchar_def getlc_def lmem_getbyte_def p glyph_def nbind_def)
    moreover have "cell e s x y = 0 \<or> shown (events s) x y = Some (cell e s x y)" using m a by (simp add: mirrors_def)
    with True nz c(2) have "drawn v e {(x, y)} g s s"
      by (auto simp: drawn_def same_input_def cellp)
    ultimately show ?thesis by blast
  next
    case False
    define bs where "bs = posattr_bytes \<lparr>pa_x = of_nat x, pa_y = of_nat y, pa_c = ucast ?c, pa_attr = ucast EDITOR_ATTRIBUTES\<rparr>"
    define m where "m = (far s)(p := ?c)"
    let ?s = "s\<lparr>far := fput m (param_at (ed_prog v)) bs, events := OutCharAttr (of_nat x) (of_nat y) ?c EDITOR_ATTRIBUTES # events s\<rparr>"
    have "editor_putchar v e (of_nat x) (of_nat y) c s = Some ((), ?s)"
      using False by (simp add: editor_putchar_def getlc_def setlc_def lmem_getbyte_def lmem_setbyte_def p glyph_def
          putchar_attr_run bs_def m_def nbind_def)
    moreover have "drawn v e {(x, y)} g s ?s"
      unfolding drawn_def
    proof (intro conjI allI impI)
      have b: "length bs \<le> 12" by (simp add: bs_def)
      note beside = params_beside [OF l b]
      show "same_input s ?s" by (simp add: same_input_def keys_read_Cons is_key_def)
      show "far ?s z = far s z" if "protected v e z" for z
      proof -
        have "z \<noteq> p"
        proof
          assume "z = p"
          then have "unat (z - phys (screen_buff e)) = unat (of_nat (cell_index e x y) :: u20)" by (simp add: p_def)
          also have "\<dots> = cell_index e x y"
            using cell_index_less [OF a] l by (intro unat_of_nat_u20) (simp add: edit_layout_def)
          finally show False using that cell_index_less [OF a] by (simp add: protected_def)
        qed
        then show ?thesis using beside(1) [OF that, where m = m] by (simp add: m_def)
      qed
      fix x' y' assume a': "in_area e x' y'"
      have small: "unat (of_nat x' :: u16) = x'" "unat (of_nat y' :: u16) = y'" "unat (of_nat x :: u16) = x" "unat (of_nat y :: u16) = y"
        using a a' unat_u16_lt [of "SCREEN_WIDTH e"] unat_u16_lt [of "SCREEN_HEIGHT e"]
        by (auto simp: in_area_def unat_of_nat)
      have "phys (screen_buff e) + of_nat (cell_index e x' y') = p \<longleftrightarrow> cell_index e x' y' = cell_index e x y"
      proof
        assume "phys (screen_buff e) + of_nat (cell_index e x' y') = p"
        then have "(of_nat (cell_index e x' y') :: u20) = of_nat (cell_index e x y)" by (simp add: p_def)
        then have "unat (of_nat (cell_index e x' y') :: u20) = unat (of_nat (cell_index e x y) :: u20)" by (rule arg_cong)
        then show "cell_index e x' y' = cell_index e x y"
          using cell_index_less [OF a] cell_index_less [OF a'] l by (simp add: edit_layout_def unat_of_nat_u20)
      qed (simp add: p_def)
      then have "phys (screen_buff e) + of_nat (cell_index e x' y') = p \<longleftrightarrow> x' = x \<and> y' = y"
        using cell_index_inj [OF a' a] by auto
      then have "cell e ?s x' y' = (if x' = x \<and> y' = y then ?c else cell e s x' y')"
        using beside(2) [OF a', where s = s and m = m and evs = "events ?s"] by (auto simp: cell_def m_def)
      moreover have "shown (events ?s) x' y' = (if x' = x \<and> y' = y then Some ?c else shown (events s) x' y')"
        using small by auto
      ultimately show "if (x', y') \<in> {(x, y)} then cell e ?s x' y' = g x' y' \<and> shown (events ?s) x' y' = Some (g x' y')
          else cell e ?s x' y' = cell e s x' y' \<and> shown (events ?s) x' y' = shown (events s) x' y'"
        using c(2) by auto
    qed
    ultimately show ?thesis by blast
  qed
qed

subsection \<open>Drawing a line\<close>

definition row_text :: "nat \<Rightarrow> u8 list \<Rightarrow> u8 list" where
  "row_text w t = take w (takeWhile (\<lambda>c. c \<noteq> 10) t)"

definition row_rest :: "nat \<Rightarrow> u8 list \<Rightarrow> u8 list" where
  "row_rest w t = (case drop (length (row_text w t)) t of [] \<Rightarrow> [] | c # r \<Rightarrow> if c = 10 then r else c # r)"

definition row_char :: "nat \<Rightarrow> u8 list \<Rightarrow> nat \<Rightarrow> u8" where
  "row_char w t x = (if x < length (row_text w t) then row_text w t ! x else 32)"

text \<open>A text that drawing does not change.\<close>

definition text_here :: "edit_env \<Rightarrow> editor \<Rightarrow> kernel \<Rightarrow> u32 \<Rightarrow> u8 list \<Rightarrow> bool" where
  "text_here v e s line t \<longleftrightarrow> text_at (far s) line t \<and> line \<noteq> 0 \<and> unat line + length t < 1048576 \<and>
     (\<forall>i \<le> length t. protected v e (phys line + of_nat i))"

lemma text_at_cong:
  assumes "text_at m a t" "\<And>i. i \<le> length t \<Longrightarrow> m' (phys a + of_nat i) = m (phys a + of_nat i)"
  shows "text_at m' a t"
proof -
  have "fget m' a (length t + 1) = fget m a (length t + 1)"
    by (rule nth_equalityI) (use assms(2) in \<open>simp_all add: nth_fget\<close>)
  then show ?thesis using assms(1) by (simp add: text_at_def)
qed

lemma text_here_drawn: "text_here v e s line t \<Longrightarrow> drawn v e A g s s' \<Longrightarrow> text_here v e s' line t"
  using text_at_cong [of "far s" line t "far s'"] by (auto simp: text_here_def drawn_def)

lemma text_here_Cons:
  assumes "text_here v e s line (c # t)"
  shows "getlc (far s) line = c" "c \<noteq> 0" "text_here v e s (line + 1) t"
proof -
  have t: "text_at (far s) line (c # t)" "unat line + Suc (length t) < 1048576"
      "\<forall>i \<le> Suc (length t). protected v e (phys line + of_nat i)"
    using assms by (simp_all add: text_here_def)
  show "getlc (far s) line = c" "c \<noteq> 0" using t(1) by (simp_all add: text_at_Cons)
  have u: "unat (line + 1) = unat line + 1" using t(2) unat_plus_u32 [of line 1] by simp
  moreover from this have "line + 1 \<noteq> 0" by (metis Suc_eq_plus1 nat.distinct(1) unat_0)
  moreover have "protected v e (phys (line + 1) + of_nat i)" if "i \<le> length t" for i
    using t(3) [rule_format, of "Suc i"] that by (simp add: phys_add add.assoc add.left_commute)
  ultimately show "text_here v e s (line + 1) t" using t by (simp add: text_here_def text_at_Cons)
qed

lemma text_here_Nil: "text_here v e s line [] \<Longrightarrow> getlc (far s) line = 0"
  by (simp add: text_here_def text_at_Nil)


definition bar :: "nat \<Rightarrow> nat \<Rightarrow> nat \<Rightarrow> (nat \<times> nat) set" where
  "bar y a b = {(x, y'). y' = y \<and> a \<le> x \<and> x < b}"

lemma bar_join: "a \<le> b \<Longrightarrow> b \<le> c \<Longrightarrow> bar y a b \<union> bar y b c = bar y a c"
  by (auto simp: bar_def)

lemma bar_simps [simp]: "bar y a a = {}" "bar y a (Suc a) = {(a, y)}"
  by (auto simp: bar_def)

lemma row_text_simps [simp]:
  "row_text w [] = []" "row_text 0 t = []"
  "row_text (Suc w) (c # t) = (if c = 10 then [] else c # row_text w t)"
  by (simp_all add: row_text_def)

lemma row_text_le: "length (row_text w t) \<le> w" "length (row_text w t) \<le> length t"
  using length_takeWhile_le [of "\<lambda>c. c \<noteq> 10" t] by (auto simp: row_text_def min_def)

lemma text_here_drop:
  assumes "text_here v e s line t" "k \<le> length t"
  shows "text_here v e s (line + of_nat k) (drop k t)"
  using assms
proof (induction t arbitrary: line k)
  case (Cons c t)
  then show ?case
    using text_here_Cons(3) [OF Cons.prems(1)] Cons.IH [of "line + 1"] by (cases k) (auto simp: add.assoc)
qed simp

lemma chars_drawn:
  assumes l: "edit_layout v e" and y: "1 \<le> y" "y < unat (SCREEN_HEIGHT e)"
    and g: "\<And>i. i < length (row_text (unat (SCREEN_WIDTH e) - col) t) \<Longrightarrow>
      g (col + i) y = glyph e (col + i) y (row_text (unat (SCREEN_WIDTH e) - col) t ! i)"
    and "mirrors e s" "text_here v e s line t" "col \<le> unat (SCREEN_WIDTH e)"
  shows "\<exists>s'. next_line_chars v e SHOW_CURRENT (of_nat y) (of_nat col) line s =
      Some ((of_nat (col + length (row_text (unat (SCREEN_WIDTH e) - col) t)),
        line + of_nat (length (row_text (unat (SCREEN_WIDTH e) - col) t))), s') \<and>
    drawn v e (bar y col (col + length (row_text (unat (SCREEN_WIDTH e) - col) t))) g s s'"
  using assms(4-7)
proof (induction t arbitrary: col line s)
  case Nil
  then show ?case
    by (subst next_line_chars.simps) (auto simp: text_here_Nil drawn_refl nbind_def)
next
  case (Cons c t)
  note h = text_here_Cons [OF Cons.prems(3)]
  let ?w = "unat (SCREEN_WIDTH e)"
  have line: "line \<noteq> 0" using Cons.prems(3) by (simp add: text_here_def)
  have col: "unat (of_nat col :: u16) = col" using Cons.prems(4) unat_u16_lt [of "SCREEN_WIDTH e"] by (simp add: unat_of_nat)
  show ?case
  proof (cases "c = 10 \<or> col = ?w")
    case True
    then have "length (row_text (?w - col) (c # t)) = 0" by (cases "?w - col") auto
    then show ?thesis
      using True h col by (subst next_line_chars.simps) (auto simp: drawn_refl nbind_def word_less_nat_alt)
  next
    case False
    then obtain w where w: "?w - col = Suc w" "?w - Suc col = w" "col < ?w" using Cons.prems(4) by (cases "?w - col") auto
    have r: "row_text (?w - col) (c # t) = c # row_text w t" using False w by simp
    have "g col y = glyph e col y c" using Cons.prems(1) [of 0] r by simp
    moreover have "in_area e col y" using w y by (simp add: in_area_def)
    ultimately obtain s1 where s1: "editor_putchar v e (of_nat col) (of_nat y) c s = Some ((), s1)" "drawn v e {(col, y)} g s s1"
      using editor_putchar_drawn [OF l Cons.prems(2) _ h(2)] by blast
    have "\<exists>s'. next_line_chars v e SHOW_CURRENT (of_nat y) (of_nat (Suc col)) (line + 1) s1 =
        Some ((of_nat (Suc col + length (row_text w t)), line + 1 + of_nat (length (row_text w t))), s') \<and>
      drawn v e (bar y (Suc col) (Suc col + length (row_text w t))) g s1 s'"
    proof (rule Cons.IH [of "Suc col" s1 "line + 1", unfolded w(2)])
      show "g (Suc col + i) y = glyph e (Suc col + i) y (row_text w t ! i)" if "i < length (row_text w t)" for i
        using Cons.prems(1) [of "Suc i"] that r by simp
      show "mirrors e s1" by (rule drawn_mirrors [OF s1(2) Cons.prems(2)])
      show "text_here v e s1 (line + 1) t" by (rule text_here_drawn [OF h(3) s1(2)])
    qed (use w in simp)
    then obtain s2 where s2: "next_line_chars v e SHOW_CURRENT (of_nat y) (of_nat (Suc col)) (line + 1) s1 =
        Some ((of_nat (Suc col + length (row_text w t)), line + 1 + of_nat (length (row_text w t))), s2)"
      "drawn v e (bar y (Suc col) (Suc col + length (row_text w t))) g s1 s2" by blast
    have "drawn v e (bar y col (col + length (row_text (?w - col) (c # t)))) g s s2"
      using drawn_trans [OF s1(2) s2(2)] bar_join [of col "Suc col" "Suc (col + length (row_text w t))" y] r by simp
    moreover have "next_line_chars v e SHOW_CURRENT (of_nat y) (of_nat col) line s =
        Some ((of_nat (Suc col + length (row_text w t)), line + 1 + of_nat (length (row_text w t))), s2)"
      using s1(1) s2(1) h(1,2) line False col w
      by (subst next_line_chars.simps) (simp add: nbind_def word_less_nat_alt add.commute)
    ultimately show ?thesis using r by (auto simp: algebra_simps)
  qed
qed

lemma chars_skipped:
  assumes "text_here v e s line t" "col \<le> unat (SCREEN_WIDTH e)"
  shows "next_line_chars v e SKIP_CURRENT row (of_nat col) line s =
      Some ((of_nat (col + length (row_text (unat (SCREEN_WIDTH e) - col) t)),
        line + of_nat (length (row_text (unat (SCREEN_WIDTH e) - col) t))), s)"
  using assms
proof (induction t arbitrary: col line)
  case Nil
  then show ?case by (subst next_line_chars.simps) (auto simp: text_here_Nil nbind_def)
next
  case (Cons c t)
  note h = text_here_Cons [OF Cons.prems(1)]
  let ?w = "unat (SCREEN_WIDTH e)"
  have line: "line \<noteq> 0" using Cons.prems(1) by (simp add: text_here_def)
  have col: "unat (of_nat col :: u16) = col" using Cons.prems(2) unat_u16_lt [of "SCREEN_WIDTH e"] by (simp add: unat_of_nat)
  show ?case
  proof (cases "c = 10 \<or> col = ?w")
    case True
    then have "length (row_text (?w - col) (c # t)) = 0" by (cases "?w - col") auto
    then show ?thesis
      using True h col by (subst next_line_chars.simps) (auto simp: nbind_def word_less_nat_alt)
  next
    case False
    then obtain w where w: "?w - col = Suc w" "?w - Suc col = w" "col < ?w" using Cons.prems(2) by (cases "?w - col") auto
    then show ?thesis
      using Cons.IH [of "line + 1" "Suc col"] h line False col
      by (subst next_line_chars.simps) (simp add: nbind_def word_less_nat_alt algebra_simps)
  qed
qed


lemma spaces_drawn:
  assumes l: "edit_layout v e" and y: "1 \<le> y" "y < unat (SCREEN_HEIGHT e)"
    and "\<And>x. k \<le> x \<Longrightarrow> x < n \<Longrightarrow> g x y = glyph e x y 32" "mirrors e s" "n \<le> unat (SCREEN_WIDTH e)" "k \<le> n"
  shows "\<exists>s'. each (\<lambda>c. editor_putchar v e (of_nat c) (of_nat y) 32) [k ..< n] s = Some ((), s') \<and> drawn v e (bar y k n) g s s'"
  using assms(4-7)
proof (induction "n - k" arbitrary: k s)
  case 0
  then show ?case by (auto simp: drawn_refl)
next
  case (Suc d)
  then have k: "k < n" "[k ..< n] = k # [Suc k ..< n]" by (simp_all add: upt_conv_Cons)
  have d: "d = n - Suc k" using Suc.hyps(2) by simp
  have "in_area e k y" using Suc.prems(3) y k(1) by (simp add: in_area_def)
  then obtain s1 where s1: "editor_putchar v e (of_nat k) (of_nat y) 32 s = Some ((), s1)" "drawn v e {(k, y)} g s s1"
    using editor_putchar_drawn [OF l Suc.prems(2), of k y 32 g] Suc.prems(1) [of k] k(1) by auto
  moreover obtain s2 where "each (\<lambda>c. editor_putchar v e (of_nat c) (of_nat y) 32) [Suc k ..< n] s1 = Some ((), s2)"
      "drawn v e (bar y (Suc k) n) g s1 s2"
    using Suc.hyps(1) [OF d, of s1] Suc.prems drawn_mirrors [OF s1(2) Suc.prems(2)] k(1) by auto
  ultimately show ?case
    using drawn_trans [OF s1(2), of "bar y (Suc k) n" s2] bar_join [of k "Suc k" n y] k by auto
qed

text \<open>The step over the end of a line.\<close>

lemma end_of_line:
  fixes w :: nat
  assumes "text_here v e s line t"
  defines "k \<equiv> length (row_text w t)"
  defines "line' \<equiv> (if line + of_nat k \<noteq> 0 \<and> getlc (far s) (line + of_nat k) = 10 then line + of_nat k + 1 else line + of_nat k)"
  shows "text_here v e s line' (row_rest w t)"
proof -
  have d: "text_here v e s (line + of_nat k) (drop k t)"
    unfolding k_def by (rule text_here_drop [OF assms(1) row_text_le(2)])
  then have nz: "line + of_nat k \<noteq> 0" by (simp add: text_here_def)
  show ?thesis
  proof (cases "drop k t")
    case Nil
    then have "getlc (far s) (line + of_nat k) = 0" using d by (simp add: text_here_Nil)
    then show ?thesis using d Nil by (simp add: row_rest_def line'_def k_def [symmetric])
  next
    case (Cons c r)
    then have "getlc (far s) (line + of_nat k) = c" "text_here v e s (line + of_nat k + 1) r"
      using text_here_Cons d by metis+
    then show ?thesis using d Cons nz by (simp add: row_rest_def line'_def k_def [symmetric])
  qed
qed

lemma next_line_shown:
  assumes l: "edit_layout v e" and y: "1 \<le> y" "y < unat (SCREEN_HEIGHT e)" and m: "mirrors e s"
    and t: "text_here v e s line t"
    and g: "\<And>x. x < unat (SCREEN_WIDTH e) \<Longrightarrow> g x y = glyph e x y (row_char (unat (SCREEN_WIDTH e)) t x)"
  shows "\<exists>s' line'. next_line v e SHOW_CURRENT (of_nat y) line s = Some (line', s') \<and>
    drawn v e (bar y 0 (unat (SCREEN_WIDTH e))) g s s' \<and> text_here v e s' line' (row_rest (unat (SCREEN_WIDTH e)) t)"
proof -
  let ?w = "unat (SCREEN_WIDTH e)"
  define k where "k = length (row_text ?w t)"
  have k: "k \<le> ?w" "unat (of_nat k :: u16) = k"
    using row_text_le(1) [of ?w t] unat_u16_lt [of "SCREEN_WIDTH e"] by (simp_all add: k_def unat_of_nat)
  have "\<exists>s1. next_line_chars v e SHOW_CURRENT (of_nat y) (of_nat 0) line s = Some ((of_nat k, line + of_nat k), s1) \<and>
      drawn v e (bar y 0 k) g s s1"
    using chars_drawn [OF l y _ m t, of 0 g] g k(1) unfolding k_def by (auto simp: row_char_def)
  then obtain s1 where s1: "next_line_chars v e SHOW_CURRENT (of_nat y) 0 line s = Some ((of_nat k, line + of_nat k), s1)"
    "drawn v e (bar y 0 k) g s s1" by auto
  obtain s2 where s2: "each (\<lambda>c. editor_putchar v e (of_nat c) (of_nat y) 32) [k ..< ?w] s1 = Some ((), s2)"
    "drawn v e (bar y k ?w) g s1 s2"
    using spaces_drawn [OF l y _ drawn_mirrors [OF s1(2) m], of k ?w g] g k(1) by (auto simp: row_char_def k_def)
  have d: "drawn v e (bar y 0 ?w) g s s2" using drawn_trans [OF s1(2) s2(2)] bar_join [of 0 k ?w y] k(1) by simp
  show ?thesis
    using end_of_line [OF text_here_drawn [OF t d], of ?w] s1(1) s2(1) d k(2)
    by (auto simp: next_line_def nbind_def k_def [symmetric])
qed

lemma next_line_blank:
  assumes l: "edit_layout v e" and y: "1 \<le> y" "y < unat (SCREEN_HEIGHT e)" and m: "mirrors e s"
    and g: "\<And>x. x < unat (SCREEN_WIDTH e) \<Longrightarrow> g x y = glyph e x y 32"
  shows "\<exists>s'. next_line v e SHOW_CURRENT (of_nat y) 0 s = Some (0, s') \<and> drawn v e (bar y 0 (unat (SCREEN_WIDTH e))) g s s'"
proof -
  have "next_line_chars v e SHOW_CURRENT (of_nat y) 0 0 s = Some ((0, 0), s)"
    by (subst next_line_chars.simps) (simp add: nbind_def)
  moreover obtain s2 where "each (\<lambda>c. editor_putchar v e (of_nat c) (of_nat y) 32) [0 ..< unat (SCREEN_WIDTH e)] s = Some ((), s2)"
    "drawn v e (bar y 0 (unat (SCREEN_WIDTH e))) g s s2"
    using spaces_drawn [OF l y _ m, of 0 "unat (SCREEN_WIDTH e)" g] g by auto
  ultimately show ?thesis by (auto simp: next_line_def nbind_def)
qed

lemma next_line_skipped:
  assumes "text_here v e s line t"
  shows "\<exists>line'. next_line v e SKIP_CURRENT row line s = Some (line', s) \<and> text_here v e s line' (row_rest (unat (SCREEN_WIDTH e)) t)"
  using end_of_line [OF assms, of "unat (SCREEN_WIDTH e)"] chars_skipped [OF assms, of 0 row]
  by (auto simp: next_line_def nbind_def)

subsection \<open>The picture of a text\<close>

text \<open>Rows of the text from row \<open>n\<close> on, under the title; the mouse is drawn over them.\<close>

definition picture :: "editor \<Rightarrow> u8 list \<Rightarrow> nat \<Rightarrow> nat \<Rightarrow> nat \<Rightarrow> u8" where
  "picture e t n x y =
     glyph e x y (row_char (unat (SCREEN_WIDTH e)) ((row_rest (unat (SCREEN_WIDTH e)) ^^ (n + (y - 1))) t) x)"

lemma row_rest_Nil [simp]: "row_rest w [] = []"
  by (simp add: row_rest_def)

lemma rows_Nil [simp]: "(row_rest w ^^ n) [] = []"
  by (induction n) simp_all

lemma lines_skipped:
  "text_here v e s line t \<Longrightarrow>
    \<exists>line'. skip_lines v e n line s = Some (line', s) \<and> text_here v e s line' ((row_rest (unat (SCREEN_WIDTH e)) ^^ n) t)"
proof (induction n arbitrary: line t)
  case (Suc n)
  show ?case
  proof (cases t)
    case Nil
    then show ?thesis using Suc.prems text_here_Nil [of v e s line] by (auto simp: nbind_def)
  next
    case (Cons c r)
    obtain line1 where line1: "next_line v e SKIP_CURRENT 0 line s = Some (line1, s)"
      "text_here v e s line1 (row_rest (unat (SCREEN_WIDTH e)) t)"
      using next_line_skipped [OF Suc.prems] by blast
    have "getlc (far s) line \<noteq> 0" using text_here_Cons(1,2) [of v e s line c r] Suc.prems Cons by auto
    then show ?thesis using Suc.IH [OF line1(2)] line1(1) by (simp add: nbind_def funpow_swap1)
  qed
qed auto

lemma lines_shown:
  assumes l: "edit_layout v e" and "text_here v e s line t" "mirrors e s" "1 \<le> k" "k \<le> unat (SCREEN_HEIGHT e)"
    and "\<And>x y. k \<le> y \<Longrightarrow> g x y = glyph e x y (row_char (unat (SCREEN_WIDTH e)) ((row_rest (unat (SCREEN_WIDTH e)) ^^ (y - k)) t) x)"
  shows "\<exists>s'. show_lines v e [k ..< unat (SCREEN_HEIGHT e)] line s = Some ((), s') \<and>
    drawn v e {(x, y). k \<le> y} g s s'"
  using assms(2-)
proof (induction "unat (SCREEN_HEIGHT e) - k" arbitrary: k line s t)
  case 0
  then have "drawn v e {(x, y). k \<le> y} g s s"
    by (intro drawn_cong [OF drawn_refl]) (auto simp: in_area_def)
  then show ?case using 0 by auto
next
  case (Suc d)
  let ?w = "unat (SCREEN_WIDTH e)"
  have k: "k < unat (SCREEN_HEIGHT e)" "[k ..< unat (SCREEN_HEIGHT e)] = k # [Suc k ..< unat (SCREEN_HEIGHT e)]"
    using Suc.hyps(2) by (simp_all add: upt_conv_Cons)
  have d: "d = unat (SCREEN_HEIGHT e) - Suc k" using Suc.hyps(2) by simp
  have first: "g x k = glyph e x k (row_char ?w t x)" for x using Suc.prems(5) [of k x] by simp
  have rest: "g x y = glyph e x y (row_char ?w ((row_rest ?w ^^ (y - Suc k)) (row_rest ?w t)) x)" if "Suc k \<le> y" for x y
  proof -
    have "y - k = Suc (y - Suc k)" using that by simp
    then show ?thesis using Suc.prems(5) [of y x] that by (simp add: funpow_swap1)
  qed
  have "\<exists>s1 line1. (if getlc (far s) line \<noteq> 0 then next_line v e SHOW_CURRENT (of_nat k) line
        else nbind (next_line v e SHOW_CURRENT (of_nat k) 0) (\<lambda>_. nret line)) s = Some (line1, s1) \<and>
      drawn v e (bar k 0 ?w) g s s1 \<and> text_here v e s1 line1 (row_rest ?w t)"
  proof (cases t)
    case Nil
    have "g x k = glyph e x k 32" for x using first [of x] Nil by (simp add: row_char_def)
    then obtain s1 where s1: "next_line v e SHOW_CURRENT (of_nat k) 0 s = Some (0, s1)" "drawn v e (bar k 0 ?w) g s s1"
      using next_line_blank [OF l Suc.prems(3) k(1) Suc.prems(2)] by blast
    moreover have "getlc (far s) line = 0" using Suc.prems(1) Nil text_here_Nil by blast
    ultimately show ?thesis using text_here_drawn [OF Suc.prems(1) s1(2)] Nil by (simp add: nbind_def)
  next
    case (Cons c r)
    then have "getlc (far s) line \<noteq> 0" using text_here_Cons(1,2) [of v e s line c r] Suc.prems(1) by auto
    then show ?thesis
      using next_line_shown [OF l Suc.prems(3) k(1) Suc.prems(2,1), of g] first by auto
  qed
  then obtain s1 line1 where s1: "(if getlc (far s) line \<noteq> 0 then next_line v e SHOW_CURRENT (of_nat k) line
        else nbind (next_line v e SHOW_CURRENT (of_nat k) 0) (\<lambda>_. nret line)) s = Some (line1, s1)"
      "drawn v e (bar k 0 ?w) g s s1" "text_here v e s1 line1 (row_rest ?w t)" by blast
  obtain s2 where s2: "show_lines v e [Suc k ..< unat (SCREEN_HEIGHT e)] line1 s1 = Some ((), s2)"
      "drawn v e {(x, y). Suc k \<le> y} g s1 s2"
    using Suc.hyps(1) [OF d s1(3)] drawn_mirrors [OF s1(2) Suc.prems(2)] k(1) rest
    by auto
  have "drawn v e {(x, y). k \<le> y} g s s2"
    by (rule drawn_cong [OF drawn_trans [OF s1(2) s2(2)]]) (auto simp: bar_def in_area_def)
  moreover have "show_lines v e [k ..< unat (SCREEN_HEIGHT e)] line s = Some ((), s2)"
    using s1(1) s2(1) unfolding k(2) by (auto simp: nbind_def split: if_splits bind_splits)
  ultimately show ?case by blast
qed

lemma show_buffer_drawn:
  assumes l: "edit_layout v e" and t: "text_here v e s buff t" and m: "mirrors e s"
  shows "\<exists>s'. show_buffer_at_line v e buff n s = Some ((), s') \<and> drawn v e UNIV (picture e t (unat n)) s s'"
proof -
  let ?w = "unat (SCREEN_WIDTH e)"
  obtain line where line: "skip_lines v e (unat n) buff s = Some (line, s)"
    "text_here v e s line ((row_rest ?w ^^ unat n) t)"
    using lines_skipped [OF t] by blast
  have "\<exists>s'. show_lines v e [1 ..< unat (SCREEN_HEIGHT e)] line s = Some ((), s') \<and>
      drawn v e {(x, y). 1 \<le> y} (picture e t (unat n)) s s'"
  proof (rule lines_shown [OF l line(2) m])
    show "1 \<le> unat (SCREEN_HEIGHT e)" using l by (simp add: edit_layout_def)
    show "picture e t (unat n) x y = glyph e x y (row_char ?w ((row_rest ?w ^^ (y - 1)) ((row_rest ?w ^^ unat n) t)) x)"
      if "1 \<le> y" for x y
      by (simp add: picture_def add.commute [of "unat n"] funpow_add)
  qed simp
  then obtain s' where s': "show_lines v e [1 ..< unat (SCREEN_HEIGHT e)] line s = Some ((), s')"
    "drawn v e {(x, y). 1 \<le> y} (picture e t (unat n)) s s'" by blast
  have "drawn v e UNIV (picture e t (unat n)) s s'"
    by (rule drawn_cong [OF s'(2)]) (auto simp: in_area_def)
  then show ?thesis using line(1) s'(1) by (auto simp: show_buffer_at_line_def nbind_def)
qed

text \<open>
  C15: the editor shows its text. When the text lies apart from the copy of the screen and from the parameters of
  system calls, and the copy agrees with the screen, \<open>show_buffer_at_line\<close> returns, and every cell of the editor
  area shows the text from the given row on: rows end at a newline or at the width of the screen, spaces follow,
  and the mouse is drawn over them. The copy still agrees with the screen and the text is unchanged.
\<close>

theorem buffer_shown:
  assumes "edit_layout v e" "text_here v e s buff t" "mirrors e s"
  shows "\<exists>s'. show_buffer_at_line v e buff n s = Some ((), s') \<and> text_here v e s' buff t \<and> mirrors e s' \<and>
    (\<forall>x y. in_area e x y \<longrightarrow> shown (events s') x y = Some (picture e t (unat n) x y))"
proof -
  obtain s' where s': "show_buffer_at_line v e buff n s = Some ((), s')" "drawn v e UNIV (picture e t (unat n)) s s'"
    using show_buffer_drawn [OF assms] by blast
  then show ?thesis
    using text_here_drawn [OF assms(2) s'(2)] drawn_mirrors [OF s'(2) assms(3)] by (auto simp: drawn_def)
qed

subsection \<open>A sample\<close>

definition sample_env :: edit_env where
  "sample_env = \<lparr>ed_prog = sample_program, ed_argv = [0, 0], entry_var = 0xFE00, cbuff_var = 0xFB00, width_var = 0x4000, height_var = 0x4002\<rparr>"

definition sample_editor :: "nat \<Rightarrow> nat \<Rightarrow> editor" where
  "sample_editor n p = editor_start\<lparr>screen_buff := 0x60000, ed_buff := 0x40000, buff_size := of_nat (n + 1),
     buff_cursor_offset := of_nat p\<rparr>"

definition sample_state :: "u8 list \<Rightarrow> (io_event list \<Rightarrow> u16) \<Rightarrow> kernel" where
  "sample_state t keys = sample_kernel\<lparr>far := fput (\<lambda>_. 0) 0x40000 (t @ [0]), key_dev := keys\<rparr>"

lemma gap_above:
  assumes "a + d \<le> b" "b + i < 1048576"
  shows "d \<le> unat (of_nat b + of_nat i - of_nat a :: u20)"
proof -
  have "of_nat b + of_nat i - of_nat a = (of_nat (b + i - a) :: u20)" using assms(1) by (simp add: of_nat_diff)
  then show ?thesis using assms by (simp only: unat_of_nat_u20)
qed

lemma gap_below:
  assumes "b + i < a" "a + d \<le> b + 1048576"
  shows "d \<le> unat (of_nat b + of_nat i - of_nat a :: u20)"
proof -
  have "of_nat b + of_nat i - of_nat a = (of_nat (b + i + 1048576 - a) :: u20)"
    using assms by (simp add: of_nat_diff)
  then show ?thesis using assms by (simp only: unat_of_nat_u20)
qed

lemma sample_screen: "screen_cells (sample_editor n p) = 1920"
  by (simp add: screen_cells_def sample_editor_def editor_start_def)

lemma sample_edit_layout: "edit_layout sample_env (sample_editor n p)"
proof -
  have "protected sample_env (sample_editor n p) (phys 0x40000 + of_nat i)" if "i < 65535" for i
    using that gap_above [of "0x27F00" 12 "0x40000" i] gap_below [of "0x40000" i "0x60000" 1920]
    by (simp add: protected_def sample_screen) (simp add: sample_env_def sample_params sample_editor_def)
  moreover have "12 \<le> unat (phys 0x60000 + of_nat i - phys (param_at sample_program))" if "i < 1920" for i
    using that gap_above [of "0x27F00" 12 "0x60000" i] by (simp add: sample_params)
  ultimately show ?thesis
    using sample_screen [of n p] by (simp add: edit_layout_def) (simp add: sample_env_def sample_editor_def editor_start_def)
qed

lemma sample_text:
  assumes "0 \<notin> set t" "length t < 65535"
  shows "text_at (far (sample_state t keys)) 0x40000 t"
  using fget_fput0 [of "length t + 1" "t @ [0]" "\<lambda>_. 0" "0x40000"] assms by (simp add: text_at_def sample_state_def)

lemma sample_mirrors:
  assumes "length t < 65535"
  shows "mirrors (sample_editor n p) (sample_state t keys)"
proof -
  have "cell (sample_editor n p) (sample_state t keys) x y = 0" if "in_area (sample_editor n p) x y" for x y
  proof -
    have "cell_index (sample_editor n p) x y < 1920" using cell_index_less [OF that] sample_screen by simp
    then have "65535 < unat (of_nat 0x60000 + of_nat (cell_index (sample_editor n p) x y) - of_nat 0x40000 :: u20)"
      using gap_above [of "0x40000" 65536 "0x60000" "cell_index (sample_editor n p) x y"] by simp
    then show ?thesis using assms by (simp add: cell_def sample_state_def fput_def) (simp add: sample_editor_def)
  qed
  then show ?thesis by (simp add: mirrors_def)
qed

theorem buffer_shown_witness:
  "\<exists>s'. show_buffer_at_line sample_env (sample_editor 4 0) 0x40000 1 (sample_state (bytes ''a'' @ [10] @ bytes ''bc'') (\<lambda>_. 0)) = Some ((), s') \<and>
    shown (events s') 0 1 = Some 98 \<and> shown (events s') 1 1 = Some 99 \<and> shown (events s') 2 1 = Some 32 \<and> shown (events s') 0 2 = Some 32"
proof -
  define t where "t = bytes ''a'' @ [10] @ bytes ''bc''"
  let ?e = "sample_editor 4 0" and ?s = "sample_state t (\<lambda>_. 0)"
  have t: "0 \<notin> set t" "length t = 4" unfolding t_def by code_simp+
  have e: "ed_buff ?e = 0x40000" "SCREEN_WIDTH ?e = 80" "SCREEN_HEIGHT ?e = 25" "ed_mouse_x ?e = 0" "ed_mouse_y ?e = 0"
    by (simp_all add: sample_editor_def editor_start_def)
  have "text_here sample_env ?e ?s 0x40000 t"
    using sample_text [OF t(1), of "\<lambda>_. 0"] t(2) sample_edit_layout [of 4 0] by (simp add: text_here_def edit_layout_def e)
  from buffer_shown [OF sample_edit_layout this sample_mirrors, of 1] obtain s' where
    s': "show_buffer_at_line sample_env ?e 0x40000 1 ?s = Some ((), s')"
      "\<And>x y. in_area ?e x y \<Longrightarrow> shown (events s') x y = Some (picture ?e t 1 x y)"
    using t(2) by auto
  have rows: "row_rest 80 t = bytes ''bc''" "row_rest 80 (bytes ''bc'') = []" unfolding t_def by code_simp+
  have "picture ?e t 1 0 1 = 98" "picture ?e t 1 1 1 = 99" "picture ?e t 1 2 1 = 32" "picture ?e t 1 0 2 = 32"
    using rows by (simp_all add: picture_def e glyph_def row_char_def row_text_def)
  moreover have "in_area ?e 0 1" "in_area ?e 1 1" "in_area ?e 2 1" "in_area ?e 0 2" by (simp_all add: in_area_def e)
  ultimately show ?thesis using s' unfolding t_def by metis
qed

end
