(* ===== verification/Edit_Session.thy ===== *)
theory Edit_Session
  imports Edit_Screen
begin

section \<open>Sessions of the editor\<close>

text \<open>
  One key of the main loop is one key of the editor on texts, and a session of the editor, driven by a script of
  keys that ends with escape, computes the text and cursor the script stands for and shows them.
\<close>

subsection \<open>Moving text in the buffer\<close>

lemma fget_fput_at:
  assumes "d + length bs \<le> n" "n \<le> 1048576"
  shows "fget (fput m (a + of_nat d) bs) a n = take d (fget m a n) @ bs @ drop (d + length bs) (fget m a n)"
proof (rule nth_equalityI)
  fix i assume "i < length (fget (fput m (a + of_nat d) bs) a n)"
  then have i: "i < n" by simp
  have u: "unat (phys a + of_nat i - phys (a + of_nat d)) = (if d \<le> i then i - d else i + 1048576 - d)"
  proof (cases "d < 1048576")
    case True
    have "unat (phys a + of_nat i - phys a) = i" using i assms(2) by (simp add: unat_of_nat_u20)
    moreover have "phys (a + of_nat d) = phys a + of_nat d" by (simp add: phys_add phys_of_nat)
    ultimately show ?thesis using unat_past20 [of "phys (a + of_nat d)" "phys a" d "phys a + of_nat i"] True by simp
  next
    case False
    then have "d = 1048576" using assms by simp
    then have "phys (a + of_nat d) = phys a"
      using phys_of_nat [of d] by (simp add: phys_add)
    then show ?thesis using i assms(2) \<open>d = 1048576\<close> by (simp add: unat_of_nat_u20)
  qed
  show "fget (fput m (a + of_nat d) bs) a n ! i = (take d (fget m a n) @ bs @ drop (d + length bs) (fget m a n)) ! i"
    using i u assms by (auto simp: nth_fget fput_def nth_append)
qed (use assms in simp)

lemma fget_part: "j + c \<le> n \<Longrightarrow> fget m (a + of_nat j) c = take c (drop j (fget m a n))"
  by (rule nth_equalityI) (simp_all add: nth_fget phys_add phys_of_nat add.assoc)

lemma fget_take: "k \<le> n \<Longrightarrow> fget m a k = take k (fget m a n)"
  using fget_part [of 0 k n m a] by simp

lemma fput_outside:
  assumes "d + length bs \<le> n" "n \<le> unat (x - phys a)" "n \<le> 1048576"
  shows "fput m (a + of_nat d) bs x = m x"
proof (cases "bs = []")
  case False
  then have "d < 1048576" using assms(1,3) by (cases bs) auto
  moreover have "phys (a + of_nat d) = phys a + of_nat d" by (simp add: phys_add phys_of_nat)
  ultimately have "length bs \<le> unat (x - phys (a + of_nat d))"
    using unat_past20 [of "phys (a + of_nat d)" "phys a" d x] assms by simp
  then show ?thesis by (simp add: fput_def)
qed simp

lemma text_moved:
  assumes "unat a + n \<le> 1048576" "j + c \<le> n" "d + c \<le> n"
  shows "fget (snd (lmemcpy (a + of_nat d) (a + of_nat j) (of_nat c) m)) a n =
      take d (fget m a n) @ take c (drop j (fget m a n)) @ drop (d + c) (fget m a n)"
    "n \<le> unat (x - phys a) \<Longrightarrow> snd (lmemcpy (a + of_nat d) (a + of_nat j) (of_nat c) m) x = m x"
proof -
  have u: "unat (a + of_nat i) = unat a + i" "unat (of_nat c :: u32) = c" if "i \<le> n" for i
  proof -
    have "unat (of_nat i :: u32) = i" using that assms(1) by (intro unat_of_nat_u32) simp
    then show "unat (a + of_nat i) = unat a + i" using unat_plus_u32 [of a "of_nat i"] that assms(1) by simp
    show "unat (of_nat c :: u32) = c" using assms by (intro unat_of_nat_u32) simp
  qed
  have "snd (lmemcpy (a + of_nat d) (a + of_nat j) (of_nat c) m) = fput m (a + of_nat d) (take c (drop j (fget m a n)))"
    using lmemcpy_put [of "a + of_nat j" "of_nat c" "a + of_nat d" m] u [of j] u [of d] assms fget_part [OF assms(2), of m a] by simp
  moreover have "length (take c (drop j (fget m a n))) = c" using assms(2) by simp
  ultimately show "fget (snd (lmemcpy (a + of_nat d) (a + of_nat j) (of_nat c) m)) a n =
      take d (fget m a n) @ take c (drop j (fget m a n)) @ drop (d + c) (fget m a n)"
    "n \<le> unat (x - phys a) \<Longrightarrow> snd (lmemcpy (a + of_nat d) (a + of_nat j) (of_nat c) m) x = m x"
    using fget_fput_at [of d "take c (drop j (fget m a n))" n m a] fput_outside [of d "take c (drop j (fget m a n))" n x a m] assms
    by simp_all
qed

lemma text_set:
  assumes "unat a + n \<le> 1048576" "p < n"
  shows "fget (lmem_setbyte (a + of_nat p) c m) a n = (fget m a n)[p := c]"
    "n \<le> unat (x - phys a) \<Longrightarrow> lmem_setbyte (a + of_nat p) c m x = m x"
proof -
  have "lmem_setbyte (a + of_nat p) c m = fput m (a + of_nat p) [c]" by (simp add: lmem_setbyte_def fput_one)
  then show "fget (lmem_setbyte (a + of_nat p) c m) a n = (fget m a n)[p := c]"
    "n \<le> unat (x - phys a) \<Longrightarrow> lmem_setbyte (a + of_nat p) c m x = m x"
    using fget_fput_at [of p "[c]" n m a] fput_outside [of p "[c]" n x a m] assms by (simp_all add: upd_conv_take_nth_drop)
qed

subsection \<open>One key\<close>

definition holds_text :: "edit_env \<Rightarrow> editor \<Rightarrow> kernel \<Rightarrow> u8 list \<times> nat \<Rightarrow> bool" where
  "holds_text v e s = (\<lambda>(t, p). text_at (far s) (ed_buff e) t \<and> length t < 0xFFFF \<and>
     unat (buff_size e) = length t + 1 \<and> unat (buff_cursor_offset e) = p \<and> p \<le> length t)"

text \<open>The parts of the state of the editor that keys leave alone, and the display they leave alone.\<close>

definition same_view :: "editor \<Rightarrow> editor \<Rightarrow> bool" where
  "same_view e e' \<longleftrightarrow> e' = e\<lparr>buff_size := buff_size e', buff_cursor_offset := buff_cursor_offset e'\<rparr>"

definition display_kept :: "editor \<Rightarrow> kernel \<Rightarrow> kernel \<Rightarrow> bool" where
  "display_kept e s s' \<longleftrightarrow> same_input s s' \<and>
     (\<forall>x y. in_area e x y \<longrightarrow> cell e s' x y = cell e s x y \<and> shown (events s') x y = shown (events s) x y)"

lemma display_kept_refl: "display_kept e s s"
  by (simp add: display_kept_def same_input_def)

lemma display_kept_drawn: "drawn v e {} g s s' \<Longrightarrow> display_kept e s s'"
  by (simp add: drawn_def display_kept_def)

lemma display_kept_trans: "display_kept e s s' \<Longrightarrow> display_kept e s' s'' \<Longrightarrow> display_kept e s s''"
  by (simp add: display_kept_def same_input_def)

lemma display_kept_mirrors: "display_kept e s s' \<Longrightarrow> mirrors e s \<Longrightarrow> mirrors e s'"
  by (simp add: display_kept_def mirrors_def)

lemma text_is_here:
  assumes "edit_layout v e" "text_at (far s) (ed_buff e) t" "length t < 0xFFFF"
  shows "text_here v e s (ed_buff e) t"
  using assms by (auto simp: text_here_def edit_layout_def)

text \<open>A change of the buffer, and the mark in the title.\<close>

lemma buffer_changed:
  assumes l: "edit_layout v e" and "\<And>x. 0xFFFF \<le> unat (x - phys (ed_buff e)) \<Longrightarrow> m x = far s x"
    and "text_at m (ed_buff e) t" "length t < 0xFFFF"
  shows "\<exists>s'. show_changed v c attr (s\<lparr>far := m\<rparr>) = Some ((), s') \<and> text_at (far s') (ed_buff e) t \<and> display_kept e s s'"
proof -
  let ?s = "s\<lparr>far := m\<rparr>"
  have "cell e ?s x y = cell e s x y" if a: "in_area e x y" for x y
  proof -
    let ?x = "phys (screen_buff e) + of_nat (cell_index e x y)"
    have "0xFFFF \<le> unat (?x - phys (ed_buff e))"
    proof (rule ccontr)
      assume "\<not> 0xFFFF \<le> unat (?x - phys (ed_buff e))"
      moreover have "\<forall>i < 0xFFFF. protected v e (phys (ed_buff e) + of_nat i)" using l by (simp add: edit_layout_def)
      ultimately have "protected v e (phys (ed_buff e) + of_nat (unat (?x - phys (ed_buff e))))"
        by (metis not_le)
      moreover have "phys (ed_buff e) + of_nat (unat (?x - phys (ed_buff e))) = ?x" by simp
      ultimately have "protected v e ?x" by metis
      then have "screen_cells e \<le> unat (of_nat (cell_index e x y) :: u20)" by (simp add: protected_def)
      moreover have "unat (of_nat (cell_index e x y) :: u20) = cell_index e x y"
        using cell_index_less [OF a] l by (intro unat_of_nat_u20) (simp add: edit_layout_def)
      ultimately show False using cell_index_less [OF a] by simp
    qed
    then show ?thesis by (simp add: cell_def assms(2))
  qed
  then have kept: "display_kept e s ?s" by (simp add: display_kept_def same_input_def)
  obtain s' where s': "putchar_attr (ed_prog v) (path_length v m) 0 c attr ?s = Some ((), s')" "drawn v e {} (\<lambda>_ _. 0) ?s s'"
    using drawn_title [OF l] by blast
  have "text_here v e ?s (ed_buff e) t" by (rule text_is_here [OF l _ assms(4)]) (simp add: assms(3))
  from text_here_drawn [OF this s'(2)] have "text_at (far s') (ed_buff e) t" by (simp add: text_here_def)
  then show ?thesis
    using s'(1) display_kept_trans [OF kept display_kept_drawn [OF s'(2)]] by (simp add: show_changed_def nbind_def)
qed


lemma word_from_unat: "unat (x :: u32) = n \<Longrightarrow> x = of_nat n"
  by (metis of_nat_unat ucast_id)

lemma split_at:
  assumes "p < length t"
  obtains x u q where "t = u @ x # q" "length u = p" "drop (p + 1) t = q" "take p t = u"
  using that [of "take p t" "t ! p" "drop (p + 1) t"] assms id_take_nth_drop [OF assms] by simp

lemma cursor_words:
  assumes "holds_text v e s (t, p)"
  shows "buff_cursor_offset e = of_nat p" "buff_size e = of_nat (length t + 1)" "p \<le> length t" "length t < 0xFFFF"
    "fget (far s) (ed_buff e) (length t + 1) = t @ [0]" "0 \<notin> set t"
proof -
  show "buff_cursor_offset e = of_nat p" "buff_size e = of_nat (length t + 1)"
    by (rule word_from_unat, use assms in \<open>simp add: holds_text_def\<close>)+
qed (use assms in \<open>simp_all add: holds_text_def text_at_def\<close>)

lemma words_of_nat:
  "n < 0x10000 \<Longrightarrow> unat (of_nat n :: u32) = n" 
  by (intro unat_of_nat_u32) simp

lemma backspace_edits:
  assumes l: "edit_layout v e" and h: "holds_text v e s (t, p)"
  shows "\<exists>e' s'. key_backspace v e s = Some (e', s') \<and> same_view e e' \<and> display_kept e s s' \<and>
    holds_text v e' s' (if p = 0 then (t, p) else (take (p - 1) t @ drop p t, p - 1))"
proof (cases "p = 0")
  case True
  then have "key_backspace v e s = Some (e, s)"
    using cursor_words(1) [OF h] by (simp add: key_backspace_def)
  then show ?thesis using h True by (auto simp: same_view_def display_kept_refl)
next
  case False
  note w = cursor_words [OF h]
  have "p - 1 < length t" "p - 1 + 1 = p" using False w(3) by simp_all
  then obtain x u q where t: "t = u @ x # q" "length u = p - 1" "drop p t = q" "take (p - 1) t = u"
    using split_at by metis
  define t' where "t' = u @ q"
  let ?n = "length t + 1"
  have buff: "unat (ed_buff e) + 0xFFFF \<le> 1048576" using l by (simp add: edit_layout_def)
  define m where "m = snd (lmemcpy (ed_buff e + of_nat (p - 1)) (ed_buff e + of_nat p) (of_nat (?n - p)) (far s))"
  have "fget m (ed_buff e) ?n = take (p - 1) (t @ [0]) @ take (?n - p) (drop p (t @ [0])) @ drop (p - 1 + (?n - p)) (t @ [0])"
    unfolding m_def w(5) [symmetric] by (rule text_moved(1)) (use buff w False in simp_all)
  also have "\<dots> = (t' @ [0]) @ [0]" using t w(3) False by (simp add: t'_def)
  finally have "fget m (ed_buff e) (length t' + 1) = t' @ [0]"
    using fget_take [of "length t' + 1" ?n m "ed_buff e"] t w(3) by (simp add: t'_def)
  then have t': "text_at m (ed_buff e) t'" using w(6) t by (auto simp: text_at_def t'_def)
  have out: "m x = far s x" if "0xFFFF \<le> unat (x - phys (ed_buff e))" for x
    unfolding m_def by (rule text_moved(2) [of _ ?n]) (use that buff w False in simp_all)
  have len: "length t' < 0xFFFF" "length t' + 1 = length t" using w(4) t by (simp_all add: t'_def)
  obtain s' where s': "show_changed v 42 TITLE_ATTRIBUTES (s\<lparr>far := m\<rparr>) = Some ((), s')" "text_at (far s') (ed_buff e) t'"
      "display_kept e s s'"
    using buffer_changed [OF l out t' len(1)] by blast
  let ?e = "e\<lparr>buff_size := buff_size e - 1, buff_cursor_offset := buff_cursor_offset e - 1\<rparr>"
  have a: "ed_buff e + buff_cursor_offset e - 1 = ed_buff e + of_nat (p - 1)" "buff_size e - buff_cursor_offset e = of_nat (?n - p)"
    using False w(1-3) by (simp_all add: of_nat_diff)
  have pos: "buff_cursor_offset e > 0" using False w by (simp add: word_less_nat_alt words_of_nat)
  have "key_backspace v e s = Some (?e, s')"
    unfolding key_backspace_def a far_copy_def
    using pos s'(1) by (simp add: nbind_def m_def w(1))
  moreover have "buff_size e - 1 = of_nat (length t)" "buff_cursor_offset e - 1 = of_nat (p - 1)"
    using w(1,2) False by (simp_all add: of_nat_diff)
  then have "unat (buff_size e - 1) = length t" "unat (buff_cursor_offset e - 1) = p - 1"
    using w(3,4) by (simp_all only: words_of_nat)
  then have "holds_text v ?e s' (t', p - 1)"
    using s'(2) len w(3) t by (simp add: holds_text_def t'_def)
  ultimately show ?thesis using s'(3) False t(3,4) by (auto simp: same_view_def t'_def)
qed

lemma del_edits:
  assumes l: "edit_layout v e" and h: "holds_text v e s (t, p)"
  shows "\<exists>e' s'. key_del v e s = Some (e', s') \<and> same_view e e' \<and> display_kept e s s' \<and>
    holds_text v e' s' (take p t @ drop (p + 1) t, p)"
proof (cases "p = length t")
  case True
  then have "\<not> buff_cursor_offset e < buff_size e - 1"
    using cursor_words(1,2) [OF h] by simp
  then have "key_del v e s = Some (e, s)" by (simp add: key_del_def)
  then show ?thesis using h True by (auto simp: same_view_def display_kept_refl)
next
  case False
  note w = cursor_words [OF h]
  have "p < length t" using False w(3) by simp
  then obtain x u q where t: "t = u @ x # q" "length u = p" "drop (p + 1) t = q" "take p t = u"
    by (rule split_at)
  define t' where "t' = u @ q"
  let ?n = "length t + 1"
  have buff: "unat (ed_buff e) + 0xFFFF \<le> 1048576" using l by (simp add: edit_layout_def)
  define m where "m = snd (lmemcpy (ed_buff e + of_nat p) (ed_buff e + of_nat (p + 1)) (of_nat (?n - p - 1)) (far s))"
  have "fget m (ed_buff e) ?n = take p (t @ [0]) @ take (?n - p - 1) (drop (p + 1) (t @ [0])) @ drop (p + (?n - p - 1)) (t @ [0])"
    unfolding m_def w(5) [symmetric] by (rule text_moved(1)) (use buff w False in simp_all)
  also have "\<dots> = (t' @ [0]) @ [0]" using t w(3) False by (simp add: t'_def)
  finally have "fget m (ed_buff e) (length t' + 1) = t' @ [0]"
    using fget_take [of "length t' + 1" ?n m "ed_buff e"] t w(3) by (simp add: t'_def)
  then have t': "text_at m (ed_buff e) t'" using w(6) t by (auto simp: text_at_def t'_def)
  have out: "m x = far s x" if "0xFFFF \<le> unat (x - phys (ed_buff e))" for x
    unfolding m_def by (rule text_moved(2) [of _ ?n]) (use that buff w False in simp_all)
  have len: "length t' < 0xFFFF" "length t' + 1 = length t" using w(4) t by (simp_all add: t'_def)
  obtain s' where s': "show_changed v 42 TITLE_ATTRIBUTES (s\<lparr>far := m\<rparr>) = Some ((), s')" "text_at (far s') (ed_buff e) t'"
      "display_kept e s s'"
    using buffer_changed [OF l out t' len(1)] by blast
  let ?e = "e\<lparr>buff_size := buff_size e - 1\<rparr>"
  have sz: "buff_size e - 1 = of_nat (length t)" using w(2) by simp
  then have u: "unat (buff_size e - 1) = length t" using w(4) by (simp only: words_of_nat)
  have a: "ed_buff e + buff_cursor_offset e + 1 = ed_buff e + of_nat (p + 1)"
      "buff_size e - buff_cursor_offset e - 1 = of_nat (?n - p - 1)"
    using w(1-3) by (simp_all add: of_nat_diff)
  have pos: "buff_cursor_offset e < buff_size e - 1" using False w u by (simp add: word_less_nat_alt words_of_nat)
  have "key_del v e s = Some (?e, s')"
    unfolding key_del_def a far_copy_def
    using pos s'(1) by (simp add: nbind_def m_def w(1))
  moreover have "holds_text v ?e s' (t', p)"
    using s'(2) len u t h by (simp add: holds_text_def t'_def)
  ultimately show ?thesis using s'(3) False t(3,4) by (auto simp: same_view_def t'_def)
qed

lemma insert_edits:
  assumes l: "edit_layout v e" and h: "holds_text v e s (t, p)" and room: "length t + 1 < 0xFFFF"
    and c: "(ucast (typed_char k) :: u8) \<noteq> 0"
  shows "\<exists>e' s'. key_insert v e k s = Some (e', s') \<and> same_view e e' \<and> display_kept e s s' \<and>
    holds_text v e' s' (take p t @ ucast (typed_char k) # drop p t, p + 1)"
proof -
  note w = cursor_words [OF h]
  let ?c = "ucast (typed_char k) :: u8"
  obtain u q where t: "t = u @ q" "length u = p" "drop p t = q" "take p t = u"
    using w(3) by (metis append_take_drop_id length_take min.absorb2)
  define t' where "t' = u @ ?c # q"
  let ?n = "length t + 2"
  have buff: "unat (ed_buff e) + 0xFFFF \<le> 1048576" using l by (simp add: edit_layout_def)
  define z where "z = far s (phys (ed_buff e) + of_nat (length t + 1))"
  have old: "fget (far s) (ed_buff e) ?n = t @ [0, z]"
    using fget_Suc [of "far s" "ed_buff e" "length t + 1"] w(5) by (simp add: z_def)
  define m where "m = snd (lmemcpy (ed_buff e + of_nat (p + 1)) (ed_buff e + of_nat p) (of_nat (length t + 1 - p)) (far s))"
  have "fget m (ed_buff e) ?n = take (p + 1) (t @ [0, z]) @ take (length t + 1 - p) (drop p (t @ [0, z])) @
      drop (p + 1 + (length t + 1 - p)) (t @ [0, z])"
    unfolding m_def old [symmetric] by (rule text_moved(1)) (use buff w room in simp_all)
  also have "\<dots> = u @ hd (q @ [0]) # q @ [0]" using t w(3) by (cases q) simp_all
  finally have moved: "fget m (ed_buff e) ?n = u @ hd (q @ [0]) # q @ [0]" .
  define m' where "m' = lmem_setbyte (ed_buff e + of_nat p) ?c m"
  have "fget m' (ed_buff e) ?n = (u @ hd (q @ [0]) # q @ [0])[p := ?c]"
    unfolding m'_def moved [symmetric] by (rule text_set(1)) (use buff w room in simp_all)
  then have "fget m' (ed_buff e) (length t' + 1) = t' @ [0]" using t by (simp add: t'_def list_update_append)
  then have t': "text_at m' (ed_buff e) t'" using w(6) t c by (auto simp: text_at_def t'_def)
  have out: "m' x = far s x" if "0xFFFF \<le> unat (x - phys (ed_buff e))" for x
  proof -
    have "m' x = m x" unfolding m'_def by (rule text_set(2) [of _ ?n]) (use that buff w room in simp_all)
    also have "\<dots> = far s x" unfolding m_def by (rule text_moved(2) [of _ ?n]) (use that buff w room in simp_all)
    finally show ?thesis .
  qed
  have len: "length t' < 0xFFFF" "length t' = length t + 1" using room t by (simp_all add: t'_def)
  obtain s' where s': "show_changed v 42 TITLE_ATTRIBUTES (s\<lparr>far := m'\<rparr>) = Some ((), s')" "text_at (far s') (ed_buff e) t'"
      "display_kept e s s'"
    using buffer_changed [OF l out t' len(1)] by blast
  let ?e = "e\<lparr>buff_size := buff_size e + 1, buff_cursor_offset := buff_cursor_offset e + 1\<rparr>"
  have a: "ed_buff e + buff_cursor_offset e + 1 = ed_buff e + of_nat (p + 1)"
      "buff_size e - buff_cursor_offset e = of_nat (length t + 1 - p)"
    using w(1-3) by (simp_all add: of_nat_diff)
  have "key_insert v e k s = Some (?e, s')"
    unfolding key_insert_def a far_copy_def setlc_def
    using s'(1) by (simp add: nbind_def m_def m'_def w(1))
  moreover have "buff_size e + 1 = of_nat (length t + 2)" "buff_cursor_offset e + 1 = of_nat (p + 1)"
    using w(1,2) by simp_all
  then have "unat (buff_size e + 1) = length t + 2" "unat (buff_cursor_offset e + 1) = p + 1"
    using w(3) room by (simp_all only: words_of_nat)
  then have "holds_text v ?e s' (t', p + 1)"
    using s'(2) len w(3) t by (simp add: holds_text_def t'_def)
  ultimately show ?thesis using s'(3) t(3,4) by (auto simp: same_view_def t'_def)
qed


subsection \<open>Moving by lines\<close>

definition fits :: "editor \<Rightarrow> u8 list \<Rightarrow> bool" where
  "fits e t \<longleftrightarrow> short_lines (unat (SCREEN_WIDTH e)) t \<and> length t + unat (SCREEN_HEIGHT e) < 0xFFFF"

lemma place_words:
  assumes h: "holds_text v e s (t, p)" and f: "fits e t"
  obtains col line where
    "buffer_offset_to_linecol (far s) (SCREEN_WIDTH e) (ed_buff e) (buff_cursor_offset e) = (col, line)"
    "place t p = (unat col, unat line)" "unat line \<le> length t"
proof -
  obtain col line where x: "buffer_offset_to_linecol (far s) (SCREEN_WIDTH e) (ed_buff e) (buff_cursor_offset e) = (col, line)"
    by fastforce
  have "map_prod unat unat (buffer_offset_to_linecol (far s) (SCREEN_WIDTH e) (ed_buff e) (buff_cursor_offset e)) =
      place t (unat (buff_cursor_offset e))"
    by (rule linecol_place) (use h f in \<open>auto simp: holds_text_def fits_def\<close>)
  then have "place t p = (unat col, unat line)" using h x by (simp add: holds_text_def)
  then show thesis using that x place_line [of t p] by simp
qed

lemma offset_of_run:
  assumes "run (drop (line_start t line) t) \<le> col" "run (drop (line_start t line) t) \<le> col'"
  shows "offset_of t col line = offset_of t col' line"
  using assms by (simp add: offset_of_def)

lemma offset_of_end: "length t < 0xFFFF \<Longrightarrow> offset_of t 0xFFFF line = offset_of t (length t) line"
  using run_le [of "drop (line_start t line) t"] by (intro offset_of_run) simp_all

lemma holds_moved:
  assumes "holds_text v e s (t, p)" "q \<le> length t"
  shows "holds_text v (e\<lparr>buff_cursor_offset := of_nat q\<rparr>) s (t, q)"
  using assms words_of_nat [of q] by (simp add: holds_text_def)

lemma move_edits:
  assumes l: "edit_layout v e" and h: "holds_text v e s (t, p)" and f: "fits e t" and k: "k \<in> set line_moves"
  shows "holds_text v (move_cursor e k (far s)) s (text_key (unat (SCREEN_HEIGHT e) - 1) k (t, p))"
    "same_view e (move_cursor e k (far s))"
proof -
  let ?h = "unat (SCREEN_HEIGHT e) - 1"
  note w = cursor_words [OF h]
  obtain col line where x: "buffer_offset_to_linecol (far s) (SCREEN_WIDTH e) (ed_buff e) (buff_cursor_offset e) = (col, line)"
    "place t p = (unat col, unat line)" "unat line \<le> length t" by (rule place_words [OF h f])
  have off: "linecol_to_buffer_offset (far s) (SCREEN_WIDTH e) (ed_buff e) c r = of_nat (offset_of t (unat c) (unat r))" for c r
    by (rule offset_text) (use h f in \<open>auto simp: holds_text_def fits_def\<close>)
  have b: "unat line + unat (SCREEN_HEIGHT e) < 65536" using x(3) f by (simp add: fits_def)
  have H: "1 \<le> unat (SCREEN_HEIGHT e)" "unat (SCREEN_HEIGHT e - 1) = ?h"
    using l unat_minus_of_nat [of 1 "SCREEN_HEIGHT e"] by (simp_all add: edit_layout_def)
  have u: "unat (line + 1) = unat line + 1" "unat (line + (SCREEN_HEIGHT e - 1)) = unat line + ?h"
      "0 < line \<Longrightarrow> unat (line - 1) = unat line - 1"
    using b H unat_plus1_u16 [of line] unat_plus_u16 [of line "SCREEN_HEIGHT e - 1"] unat_pred [of line]
    by (simp_all add: word_less_nat_alt)
  have page: "unat (line - (if line < SCREEN_HEIGHT e - 1 then line else SCREEN_HEIGHT e - 1)) = unat line - ?h"
    using H(2) by (auto simp: word_less_nat_alt not_less unat_sub word_le_nat_alt)
  have end_of: "offset_of t 65535 (unat line) = offset_of t (length t) (unat line)"
    using offset_of_end [of t "unat line"] w(4) by simp
  have zero: "(0 < line) = (unat line \<noteq> 0)" by (simp add: word_less_nat_alt)
  have moved: "holds_text v (e\<lparr>buff_cursor_offset := of_nat (offset_of t c r)\<rparr>) s (t, offset_of t c r)" for c r
    by (rule holds_moved [OF h offset_of_le])
  consider "k = KEY_UP" | "k = KEY_DOWN" | "k = KEY_HOME" | "k = KEY_END" | "k = KEY_PG_DN" | "k = KEY_PG_UP"
    using k by (auto simp: line_moves_def)
  then show "holds_text v (move_cursor e k (far s)) s (text_key ?h k (t, p))"
  proof cases
    case 1
    then show ?thesis using moved [of "unat col" "unat line - 1"] x(1,2) off u(3) zero h
      by (simp add: move_cursor_def move_target_def text_key_def)
  next
    case 2
    then show ?thesis using moved [of "unat col" "unat line + 1"] x(1,2) off u(1)
      by (simp add: move_cursor_def move_target_def text_key_def)
  next
    case 3
    then show ?thesis using moved [of 0 "unat line"] x(1,2) off
      by (simp add: move_cursor_def move_target_def text_key_def)
  next
    case 4
    then show ?thesis using moved [of "length t" "unat line"] x(1,2) off end_of
      by (simp add: move_cursor_def move_target_def text_key_def)
  next
    case 5
    then show ?thesis using moved [of "unat col" "unat line + ?h"] x(1,2) off u(2)
      by (simp add: move_cursor_def move_target_def text_key_def)
  next
    case 6
    then show ?thesis using moved [of "unat col" "unat line - ?h"] x(1,2) off page
      by (simp add: move_cursor_def move_target_def text_key_def)
  qed
  show "same_view e (move_cursor e k (far s))"
    by (auto simp: same_view_def move_cursor_def split: option.splits)
qed

text \<open>All keys. A key that is not a command stands for a character.\<close>

definition plain_key :: "u16 \<Rightarrow> bool" where
  "plain_key k \<longleftrightarrow> k \<noteq> 0 \<and> k \<noteq> KEY_F1 \<and>
     (k \<in> set line_moves \<or> k \<in> {KEY_LEFT, KEY_RIGHT, KEY_BACKSPACE, KEY_DEL, KEY_ESC} \<or> (ucast (typed_char k) :: u8) \<noteq> 0)"

lemma key_edits:
  assumes l: "edit_layout v e" and h: "holds_text v e s (t, p)" and f: "fits e t" and k: "plain_key k"
  shows "\<exists>e' s'. key_action v e k s = Some (e', s') \<and> same_view e e' \<and> display_kept e s s' \<and>
    holds_text v e' s' (text_key (unat (SCREEN_HEIGHT e) - 1) k (t, p))"
proof -
  note w = cursor_words [OF h]
  have F1: "k \<noteq> KEY_F1" "k \<noteq> 0" using k by (simp_all add: plain_key_def)
  have room: "length t + 1 < 0xFFFF" using f l by (simp add: fits_def edit_layout_def)
  consider (line) "k \<in> set line_moves" | (left) "k = KEY_LEFT" | (right) "k = KEY_RIGHT" | (bs) "k = KEY_BACKSPACE"
    | (del) "k = KEY_DEL" | (esc) "k = KEY_ESC"
    | (char) "k \<notin> set line_moves" "k \<noteq> KEY_LEFT" "k \<noteq> KEY_RIGHT" "k \<noteq> KEY_BACKSPACE" "k \<noteq> KEY_DEL" "k \<noteq> KEY_ESC"
    by blast
  then show ?thesis
  proof cases
    case line
    then have "key_action v e k s = Some (move_cursor e k (far s), s)" using F1 by (simp add: key_action_def)
    then show ?thesis using move_edits [OF l h f line] display_kept_refl by blast
  next
    case left
    have "unat (buff_cursor_offset e - 1) = p - 1" if "p > 0"
    proof -
      have "buff_cursor_offset e - 1 = of_nat (p - 1)" using that w(1) by (simp add: of_nat_diff)
      then show ?thesis using w(3,4) by (simp only: words_of_nat)
    qed
    moreover have "(buff_cursor_offset e > 0) = (p > 0)" using h by (simp add: holds_text_def word_less_nat_alt)
    ultimately show ?thesis
      using h left by (auto simp: key_action_def line_moves_def text_key_def holds_text_def same_view_def display_kept_refl
          split: prod.splits)
  next
    case right
    have "buff_size e - 1 = of_nat (length t)" using w(2) by simp
    then have u: "unat (buff_size e - 1) = length t" using w(4) by (simp only: words_of_nat)
    have "unat (buff_cursor_offset e + 1) = p + 1"
    proof -
      have "buff_cursor_offset e + 1 = of_nat (p + 1)" using w(1) by simp
      then show ?thesis using w(3,4) by (simp only: words_of_nat)
    qed
    moreover have "(buff_cursor_offset e < buff_size e - 1) = (p < length t)"
      using h u by (simp add: holds_text_def word_less_nat_alt)
    ultimately show ?thesis
      using h right by (auto simp: key_action_def line_moves_def text_key_def holds_text_def same_view_def display_kept_refl
          split: prod.splits)
  next
    case bs
    then show ?thesis
      using backspace_edits [OF l h] by (auto simp: key_action_def line_moves_def text_key_def split: prod.splits)
  next
    case del
    then show ?thesis
      using del_edits [OF l h] by (auto simp: key_action_def line_moves_def text_key_def split: prod.splits)
  next
    case esc
    then have "key_action v e k s = Some (e, s)" by (simp add: key_action_def line_moves_def)
    then show ?thesis using h esc by (auto simp: text_key_def same_view_def display_kept_refl split: prod.splits)
  next
    case char
    then have "(ucast (typed_char k) :: u8) \<noteq> 0" using k by (simp add: plain_key_def)
    from insert_edits [OF l h room this] show ?thesis
      using char F1 by (auto simp: key_action_def line_moves_def text_key_def split: prod.splits)
  qed
qed


subsection \<open>Keys of the keyboard\<close>

lemma special_key:
  assumes "ucast (getHI k) = drop_bit 8 c" "c AND 0xFF = (0 :: u16)"
  shows "k AND 0xFF00 = c"
proof (rule bit_word_eqI)
  fix n assume n: "n < LENGTH(16)"
  have m: "(0xFF :: u16) = mask 8" "(0xFF00 :: u16) = push_bit 8 (mask 8)" by (simp_all add: mask_eq_exp_minus_1 push_bit_eq_mult)
  have c: "\<not> bit c i" if "i < 8" for i
  proof -
    have "bit (c AND 0xFF) i = bit (0 :: u16) i" using assms(2) by simp
    then show ?thesis using that unfolding m by (simp add: bit_simps)
  qed
  show "bit (k AND 0xFF00) n = bit c n"
  proof (cases "n < 8")
    case True
    then show ?thesis using c unfolding m by (simp add: bit_simps)
  next
    case False
    have "bit (ucast (getHI k) :: u16) (n - 8) = bit (drop_bit 8 c) (n - 8)" using assms(1) by simp
    then show ?thesis using False n unfolding getHI_def m by (auto simp: bit_simps)
  qed
qed

lemma clean_key_cases:
  obtains "clean_key k \<in> set special_keys" | "clean_key k = k AND 0x00FF"
proof (cases "k \<noteq> 0 \<and> list_ex (\<lambda>c. ucast (getHI k) = drop_bit 8 c) special_keys")
  case True
  then obtain c where c: "c \<in> set special_keys" "ucast (getHI k) = drop_bit 8 c" by (auto simp: list_ex_iff)
  have "list_all (\<lambda>c. c AND 0xFF = 0) special_keys" by code_simp
  then have "k AND 0xFF00 = c" using special_key c by (simp add: list_all_iff)
  then show thesis using that(1) True c(1) by (simp add: clean_key_def)
next
  case False
  then show thesis using that(2) by (auto simp: clean_key_def)
qed

lemma low_key:
  assumes "k AND 0x00FF \<noteq> (0 :: u16)"
  shows "(ucast (typed_char (k AND 0x00FF)) :: u8) \<noteq> 0"
proof -
  let ?k = "k AND 0x00FF"
  have m: "(0xFF :: u16) = mask 8" by (simp add: mask_eq_exp_minus_1)
  have "?k = take_bit 8 k" unfolding m by (rule take_bit_eq_mask [symmetric])
  then have "unat ?k = take_bit 8 (unat k)" by (simp only: unsigned_take_bit_eq)
  then have "unat ?k < 256" by (simp add: take_bit_eq_mod)
  moreover have "0 < unat ?k" using assms by (simp add: word_neq_0_conv word_less_nat_alt)
  ultimately have "unat (ucast ?k :: u8) = unat ?k" by (simp add: unsigned_ucast_eq take_bit_eq_mod)
  then have "(ucast ?k :: u8) \<noteq> 0" using \<open>0 < unat ?k\<close> by (metis less_irrefl unat_0)
  then show ?thesis by (simp add: typed_char_def)
qed

lemma pressed_plain:
  assumes "\<not> ignored_key (clean_key k)" "clean_key k \<noteq> KEY_F1"
  shows "plain_key (clean_key k)"
proof (rule clean_key_cases [of k])
  assume "clean_key k \<in> set special_keys"
  then show ?thesis
    using assms by (auto simp: special_keys_def ignored_key_def plain_key_def line_moves_def word_less_nat_alt word_le_nat_alt)
next
  assume c: "clean_key k = k AND 0x00FF"
  moreover have "clean_key k \<noteq> 0" using assms(1) by (simp add: ignored_key_def)
  ultimately have "(ucast (typed_char (clean_key k)) :: u8) \<noteq> 0" using low_key [of k] by simp
  then show ?thesis using assms(2) \<open>clean_key k \<noteq> 0\<close> by (simp add: plain_key_def)
qed

subsection \<open>One turn of the main loop\<close>

text \<open>A state between two turns.\<close>

definition editing :: "edit_env \<Rightarrow> editor \<Rightarrow> kernel \<Rightarrow> u8 list \<times> nat \<Rightarrow> bool" where
  "editing v e s x \<longleftrightarrow> edit_layout v e \<and> holds_text v e s x \<and> mirrors e s \<and>
     unat (current_line e) + unat (SCREEN_HEIGHT e) < 65536 \<and> mouse_b s AND 1 = 0"

text \<open>The screen shows the text from the current line on, and the cursor is where the position in the text is shown.\<close>

fun cursor_shown :: "io_event list \<Rightarrow> (nat \<times> nat) option" where
  "cursor_shown (SetCursor col row # evs) = Some (unat col, unat row)"
| "cursor_shown (ShowCursor # evs) = cursor_shown evs"
| "cursor_shown evs = None"

definition displays :: "editor \<Rightarrow> kernel \<Rightarrow> u8 list \<times> nat \<Rightarrow> bool" where
  "displays e s = (\<lambda>(t, p).
     (\<forall>x y. in_area e x y \<longrightarrow> shown (events s) x y = Some (picture e t (unat (current_line e)) x y)) \<and>
     (let (col, line) = place t p
      in unat (current_line e) \<le> line \<and> line - unat (current_line e) + 1 < unat (SCREEN_HEIGHT e) \<and>
         cursor_shown (events s) = Some (col, line - unat (current_line e) + 1)))"

definition same_screen :: "editor \<Rightarrow> editor \<Rightarrow> bool" where
  "same_screen e e' \<longleftrightarrow> SCREEN_WIDTH e' = SCREEN_WIDTH e \<and> SCREEN_HEIGHT e' = SCREEN_HEIGHT e \<and>
     screen_buff e' = screen_buff e \<and> ed_buff e' = ed_buff e"

lemma same_screen_refl: "same_screen e e"
  by (simp add: same_screen_def)

lemma same_screen_trans: "same_screen e e' \<Longrightarrow> same_screen e' e'' \<Longrightarrow> same_screen e e''"
  by (simp add: same_screen_def)

lemma same_view_screen: "same_view e e' \<Longrightarrow> same_screen e e' \<and> current_line e' = current_line e"
  unfolding same_view_def same_screen_def by (metis editor.select_convs editor.update_convs(8,9) editor.surjective)

lemma same_screen_defs:
  assumes "same_screen e e'"
  shows "screen_cells e' = screen_cells e" "in_area e' x y = in_area e x y" "cell e' s x y = cell e s x y"
    "protected v e' a = protected v e a" "edit_layout v e' = edit_layout v e" "mirrors e' s = mirrors e s"
    "fits e' t = fits e t"
proof -
  have e: "SCREEN_WIDTH e' = SCREEN_WIDTH e" "SCREEN_HEIGHT e' = SCREEN_HEIGHT e"
     "screen_buff e' = screen_buff e" "ed_buff e' = ed_buff e"
    using assms by (simp_all add: same_screen_def)
  show c: "screen_cells e' = screen_cells e" "in_area e' x y = in_area e x y" "cell e' s x y = cell e s x y" for x y s
    by (simp_all add: screen_cells_def in_area_def cell_def cell_index_def e)
  show "protected v e' a = protected v e a" for a by (simp add: protected_def c e)
  then show "edit_layout v e' = edit_layout v e" by (simp add: edit_layout_def c e)
  show "mirrors e' s = mirrors e s" by (simp add: mirrors_def c)
  show "fits e' t = fits e t" by (simp add: fits_def e)
qed

lemma same_input_waiting: "same_input s s' \<Longrightarrow> waiting script s ks \<Longrightarrow> waiting script s' ks"
  by (simp add: same_input_def waiting_def)


lemma mouse_run:
  obtains x y bs where "get_mouse_state u SSM_CHARS s = Some ((x, y, mouse_b s AND 3), s\<lparr>far := fput (far s) (param_at u) bs\<rparr>)"
    "length bs \<le> 12"
proof -
  obtain x y b where "get_mouse_state u SSM_CHARS s = Some ((x, y, mouse_b s AND 3),
      s\<lparr>far := fput (far s) (param_at u) (posattr_bytes b)\<rparr>)"
    by (simp add: get_mouse_state_def syscall_with_def put_far_def screen_call screen_service_def
        service_get_mouse_state_def nbind_def Let_def fput_same)
  then show thesis using that [of x y "posattr_bytes b"] by simp
qed

lemma key_run:
  assumes "waiting script s (k # ks)"
  shows "getkey u KM_NO_WAIT s = Some (clean_key k, s\<lparr>far := fput (far s) (param_at u) (le16 KM_NO_WAIT), events := InKey k # events s\<rparr>)"
    "waiting script (s\<lparr>far := m, events := InKey k # events s\<rparr>) ks"
proof -
  let ?s = "s\<lparr>far := fput (far s) (param_at u) (le16 0)\<rparr>"
  have "key_loop 0 ?s = Some (k, ?s\<lparr>events := InKey k # events s\<rparr>)"
    using waiting_key(1) [OF assms] by (simp add: key_loop.simps io_in_key_def nbind_def)
  then show "getkey u KM_NO_WAIT s = Some (clean_key k, s\<lparr>far := fput (far s) (param_at u) (le16 KM_NO_WAIT), events := InKey k # events s\<rparr>)"
    by (simp add: getkey_def syscall_with_def put_far_def screen_call screen_service_def service_in_key_def)
  show "waiting script (s\<lparr>far := m, events := InKey k # events s\<rparr>) ks"
    using waiting_key(2) [OF assms, of "InKey k # events s" m] by (simp add: keys_read_Cons is_key_def)
qed

text \<open>Parameters written and a key read leave the session as it is.\<close>

lemma editing_params:
  assumes ed: "editing v e s x" and b: "length bs \<le> 12"
    and evs: "\<And>x y. shown evs x y = shown (events s) x y"
  shows "editing v e (s\<lparr>far := fput (far s) (param_at (ed_prog v)) bs, events := evs\<rparr>) x"
proof -
  let ?s = "s\<lparr>far := fput (far s) (param_at (ed_prog v)) bs, events := evs\<rparr>"
  obtain t p where x: "x = (t, p)" by fastforce
  have l: "edit_layout v e" and h: "holds_text v e s (t, p)" and m: "mirrors e s" using ed x by (auto simp: editing_def)
  have "text_here v e s (ed_buff e) t" using text_is_here [OF l] h by (simp add: holds_text_def)
  then have "text_at (far ?s) (ed_buff e) t"
    using params_beside(1) [OF l b] by (auto simp: text_here_def intro: text_at_cong)
  moreover have "cell e ?s x' y' = cell e s x' y'" if "in_area e x' y'" for x' y'
    using params_beside(2) [OF l b that, where s = s and m = "far s" and evs = evs] by (simp add: cell_def)
  then have "mirrors e ?s" using m evs by (simp add: mirrors_def)
  ultimately show ?thesis using ed h x by (simp add: editing_def holds_text_def)
qed

lemma mouse_turn:
  assumes "editing v e s x"
  shows "\<exists>e' s'. edit_mouse v e s = Some (e', s') \<and> editing v e' s' x \<and> same_screen e e' \<and> same_input s s' \<and> events s' = events s"
proof -
  obtain a b bs where r: "get_mouse_state (ed_prog v) SSM_CHARS s =
      Some ((a, b, mouse_b s AND 3), s\<lparr>far := fput (far s) (param_at (ed_prog v)) bs\<rparr>)" "length bs \<le> 12"
    by (rule mouse_run)
  let ?e = "e\<lparr>ed_mouse_x := a, ed_mouse_y := b, ed_mouse_buttons := mouse_b s AND 3\<rparr>"
  let ?s = "s\<lparr>far := fput (far s) (param_at (ed_prog v)) bs\<rparr>"
  have "(mouse_b s AND 3) AND 1 = mouse_b s AND (3 AND 1)" by (simp only: and.assoc)
  then have "(mouse_b s AND 3) AND 1 = 0" using assms by (simp add: editing_def)
  then have "edit_mouse v e s = Some (?e, ?s)" using r(1) by (simp add: edit_mouse_def nbind_def)
  moreover have "same_screen e ?e" by (simp add: same_screen_def)
  moreover have "editing v e ?s x" using editing_params [OF assms r(2), of "events s"] by simp
  then have "editing v ?e ?s x"
    using same_screen_defs(5,6) [OF \<open>same_screen e ?e\<close>] by (auto simp: editing_def holds_text_def)
  ultimately show ?thesis by (auto simp: same_input_def)
qed

text \<open>The display after a key.\<close>

lemma title_calls:
  assumes "edit_layout v e"
  shows "\<exists>s'. each (\<lambda>i. putchar_attr (ed_prog v) (c i) 0 (d i) attr) xs s = Some ((), s') \<and> drawn v e {} g s s'"
proof (induction xs arbitrary: s)
  case Nil
  then show ?case by (auto simp: drawn_refl)
next
  case (Cons i xs)
  obtain s1 where "putchar_attr (ed_prog v) (c i) 0 (d i) attr s = Some ((), s1)" "drawn v e {} g s s1"
    using drawn_title [OF assms] by blast
  moreover from Cons.IH obtain s2 where "each (\<lambda>i. putchar_attr (ed_prog v) (c i) 0 (d i) attr) xs s1 = Some ((), s2)"
    "drawn v e {} g s1 s2" by blast
  ultimately show ?case using drawn_trans [of v e "{}" g s s1 "{}" s2] by auto
qed

lemma scrolled_to:
  fixes line :: u16
  assumes "unat (current_line e) + unat (SCREEN_HEIGHT e) < 65536" "unat line + unat (SCREEN_HEIGHT e) < 65536" "2 \<le> unat (SCREEN_HEIGHT e)"
  defines "n \<equiv> unat (current_line (scroll_to e line))"
  shows "n \<le> unat line" "unat line - n + 1 < unat (SCREEN_HEIGHT e)" "n + unat (SCREEN_HEIGHT e) < 65536"
    "unat (line - current_line (scroll_to e line) + 1) = unat line - n + 1"
    "scroll_to e line = e\<lparr>current_line := current_line (scroll_to e line)\<rparr>"
proof -
  let ?h = "unat (SCREEN_HEIGHT e)" and ?n = "unat (current_line e)"
  have a: "unat (current_line e + SCREEN_HEIGHT e - 2) = ?n + ?h - 2"
  proof -
    have "unat (current_line e + SCREEN_HEIGHT e) = ?n + ?h" using assms(1) by (simp add: unat_plus_u16)
    then show ?thesis using assms(3) unat_minus_of_nat [of 2 "current_line e + SCREEN_HEIGHT e"] by simp
  qed
  have eq: "line - SCREEN_HEIGHT e + 2 = line - (SCREEN_HEIGHT e - 2)" by (simp add: algebra_simps)
  have "unat (line - (SCREEN_HEIGHT e - 2)) = unat line - (?h - 2)" if "?n + ?h - 2 < unat line"
  proof -
    have "unat (SCREEN_HEIGHT e - 2) = ?h - 2" using assms(3) unat_minus_of_nat [of 2 "SCREEN_HEIGHT e"] by simp
    moreover from this have "SCREEN_HEIGHT e - 2 \<le> line" using that by (simp add: word_le_nat_alt)
    ultimately show ?thesis by (simp add: unat_sub)
  qed
  then have b: "?n + ?h - 2 < unat line \<Longrightarrow> unat (line - SCREEN_HEIGHT e + 2) = unat line - (?h - 2)" by (simp only: eq)
  have n: "n = (if unat line < ?n then unat line else if ?n + ?h - 2 < unat line then unat line - (?h - 2) else ?n)"
    using a b unfolding n_def scroll_to_def by (simp add: word_less_nat_alt)
  then show "n \<le> unat line" "unat line - n + 1 < ?h" "n + ?h < 65536"
    using assms by auto
  then have "current_line (scroll_to e line) \<le> line" by (simp add: n_def word_le_nat_alt)
  then have "unat (line - current_line (scroll_to e line)) = unat line - n" by (simp add: unat_sub n_def)
  moreover from this have "unat (line - current_line (scroll_to e line) + 1) = unat (line - current_line (scroll_to e line)) + 1"
    using \<open>unat line - n + 1 < ?h\<close> unat_u16_lt [of "SCREEN_HEIGHT e"] by (intro unat_plus1_u16) simp
  ultimately show "unat (line - current_line (scroll_to e line) + 1) = unat line - n + 1" by simp
  show "scroll_to e line = e\<lparr>current_line := current_line (scroll_to e line)\<rparr>" by (simp add: scroll_to_def)
qed

lemma refresh_displays:
  assumes ed: "editing v e s (t, p)" and f: "fits e t"
  shows "\<exists>e' s'. refresh v e s = Some (e', s') \<and> editing v e' s' (t, p) \<and> same_screen e e' \<and> same_input s s' \<and> displays e' s' (t, p)"
proof -
  have l: "edit_layout v e" and h: "holds_text v e s (t, p)" and m: "mirrors e s" using ed by (auto simp: editing_def)
  obtain col line where x: "buffer_offset_to_linecol (far s) (SCREEN_WIDTH e) (ed_buff e) (buff_cursor_offset e) = (col, line)"
    "place t p = (unat col, unat line)" "unat line \<le> length t" by (rule place_words [OF h f])
  define e' where "e' = scroll_to e line"
  have H: "unat (current_line e) + unat (SCREEN_HEIGHT e) < 65536" "unat line + unat (SCREEN_HEIGHT e) < 65536" "2 \<le> unat (SCREEN_HEIGHT e)"
    using ed f x(3) by (simp_all add: editing_def fits_def edit_layout_def)
  note sc = scrolled_to [OF H, folded e'_def]
  have ss: "same_screen e e'" by (subst sc(5)) (simp add: same_screen_def)
  note defs = same_screen_defs [OF ss]
  have l': "edit_layout v e'" using l defs by simp
  let ?g = "picture e' t (unat (current_line e'))"
  obtain s1 where s1: "show_line_number v e' s = Some ((), s1)" "drawn v e' {} ?g s s1"
  proof -
    have "\<exists>s1. show_line_number v e' s = Some ((), s1) \<and> drawn v e' {} ?g s s1"
      unfolding show_line_number_def Let_def nbind_def iom_simps bind.simps prod.case by (rule title_calls [OF l'])
    then show thesis using that by blast
  qed
  obtain s2 where s2: "set_show_cursor (ed_prog v) HIDE_CURSOR s1 = Some ((), s2)" "drawn v e' {} ?g s1 s2"
    using drawn_cursor(2) [OF l'] by blast
  have d2: "drawn v e' {} ?g s s2" using drawn_trans [OF s1(2) s2(2)] by simp
  have "text_here v e' s (ed_buff e') t"
    using text_is_here [OF l'] h ss by (simp add: holds_text_def same_screen_def)
  note t2 = text_here_drawn [OF this d2]
  have m2: "mirrors e' s2" using drawn_mirrors [OF d2] m defs(6) by simp
  obtain s3 where s3: "show_buffer_at_line v e' (ed_buff e') (current_line e') s2 = Some ((), s3)" "drawn v e' UNIV ?g s2 s3"
    using show_buffer_drawn [OF l' t2 m2] by blast
  let ?row = "line - current_line e' + 1"
  obtain s4 where s4: "set_cursor_position (ed_prog v) col ?row s3 = Some ((), s4)" "drawn v e' {} ?g s3 s4"
    "events s4 = SetCursor col ?row # events s3"
    using drawn_cursor(1) [OF l', of col ?row s3 ?g] by (auto simp: set_cursor_run)
  obtain s5 where s5: "set_show_cursor (ed_prog v) SHOW_CURSOR s4 = Some ((), s5)" "drawn v e' {} ?g s4 s5"
    "events s5 = ShowCursor # events s4"
    using drawn_cursor(2) [OF l', of SHOW_CURSOR s4 ?g] by (auto simp: show_cursor_run)
  have "drawn v e' UNIV ?g s s5"
    using drawn_trans [OF d2 drawn_trans [OF s3(2) drawn_trans [OF s4(2) s5(2)]]] by simp
  note d5 = this
  have "text_at (far s5) (ed_buff e') t"
    using text_here_drawn [OF t2 drawn_trans [OF s3(2) drawn_trans [OF s4(2) s5(2)]]] by (simp add: text_here_def)
  moreover have "mirrors e' s5" using drawn_mirrors [OF d5] m defs(6) by simp
  moreover have i5: "same_input s s5" using d5 by (simp add: drawn_def)
  moreover have "buff_size e' = buff_size e" "buff_cursor_offset e' = buff_cursor_offset e" by (subst sc(5), simp)+
  ultimately have "editing v e' s5 (t, p)"
    using ed l' sc(3) ss by (simp add: editing_def holds_text_def same_screen_def same_input_def)
  moreover have "displays e' s5 (t, p)"
    using d5 x(2) sc(1,2,4) s4(3) s5(3) ss by (simp add: displays_def drawn_def same_screen_def)
  moreover have "refresh v e s = Some (e', s5)"
    using s1(1) s2(1) s3(1) s4(1) s5(1) x(1) by (simp add: refresh_def nbind_def e'_def [symmetric] Let_def)
  ultimately show ?thesis using ss i5 by blast
qed


subsection \<open>The main loop\<close>

definition text_keys :: "nat \<Rightarrow> u16 list \<Rightarrow> u8 list \<times> nat \<Rightarrow> u8 list \<times> nat" where
  "text_keys h ks x = foldl (\<lambda>x k. text_key h k x) x ks"

definition pressed :: "u16 list \<Rightarrow> u16 list" where
  "pressed ks = filter (\<lambda>k. \<not> ignored_key k) (map clean_key ks)"

lemma typed_char_esc: "k \<noteq> KEY_ESC \<Longrightarrow> typed_char k \<noteq> KEY_ESC"
  by (simp add: typed_char_def)

text \<open>The mouse and a key.\<close>

lemma turn_read:
  assumes "editing v e s x" "waiting script s (k # ks)"
  shows "\<exists>e1 s1 s2. edit_mouse v e s = Some (e1, s1) \<and> getkey (ed_prog v) KM_NO_WAIT s1 = Some (clean_key k, s2) \<and>
    editing v e1 s2 x \<and> same_screen e e1 \<and> waiting script s2 ks"
proof -
  obtain e1 s1 where m: "edit_mouse v e s = Some (e1, s1)" "editing v e1 s1 x" "same_screen e e1" "same_input s s1"
    using mouse_turn [OF assms(1)] by blast
  have w: "waiting script s1 (k # ks)" by (rule same_input_waiting [OF m(4) assms(2)])
  note r = key_run [OF w]
  have "editing v e1 (s1\<lparr>far := fput (far s1) (param_at (ed_prog v)) (le16 KM_NO_WAIT), events := InKey k # events s1\<rparr>) x"
    by (rule editing_params [OF m(2)]) simp_all
  then show ?thesis using m(1,3) r by blast
qed

text \<open>The key and the display.\<close>

lemma turn_acted:
  assumes ed: "editing v e s (t, p)" and w: "waiting script s ks" and k: "plain_key k" and f: "fits e t"
    and x: "text_key (unat (SCREEN_HEIGHT e) - 1) k (t, p) = (t', p')" and f': "fits e t'"
  shows "\<exists>e1 s1 e2 s2. key_action v e k s = Some (e1, s1) \<and> refresh v e1 s1 = Some (e2, s2) \<and> same_screen e e2 \<and>
    editing v e2 s2 (t', p') \<and> displays e2 s2 (t', p') \<and> waiting script s2 ks"
proof -
  have l: "edit_layout v e" and h: "holds_text v e s (t, p)" using ed by (auto simp: editing_def)
  obtain e1 s1 where a: "key_action v e k s = Some (e1, s1)" "same_view e e1" "display_kept e s s1" "holds_text v e1 s1 (t', p')"
    using key_edits [OF l h f k] unfolding x by blast
  have ss: "same_screen e e1" "current_line e1 = current_line e" using same_view_screen [OF a(2)] by simp_all
  note defs = same_screen_defs [OF ss(1)]
  have i: "same_input s s1" using a(3) by (simp add: display_kept_def)
  have "editing v e1 s1 (t', p')"
    using ed a(4) display_kept_mirrors [OF a(3)] defs ss i by (simp add: editing_def same_screen_def same_input_def)
  moreover have "fits e1 t'" using f' defs by simp
  ultimately obtain e2 s2 where "refresh v e1 s1 = Some (e2, s2)" "editing v e2 s2 (t', p')" "same_screen e1 e2"
    "same_input s1 s2" "displays e2 s2 (t', p')"
    using refresh_displays by blast
  then show ?thesis
    using a(1) same_screen_trans [OF ss(1)] same_input_waiting i w by blast
qed

text \<open>The turn of the escape key.\<close>

lemma turn_escaped:
  assumes ed: "editing v e s (t, p)" and w: "waiting script s (esc # rest)" and k: "clean_key esc = KEY_ESC" "k \<noteq> KEY_ESC"
    and f: "fits e t"
  shows "\<exists>e' s'. edit_loop v e k s = Some (e', s') \<and> same_screen e e' \<and> waiting script s' rest \<and>
    editing v e' s' (t, p) \<and> displays e' s' (t, p)"
proof -
  obtain e1 s1 s2 where r: "edit_mouse v e s = Some (e1, s1)" "getkey (ed_prog v) KM_NO_WAIT s1 = Some (KEY_ESC, s2)"
    "editing v e1 s2 (t, p)" "same_screen e e1" "waiting script s2 rest"
    using turn_read [OF ed w] k(1) by auto
  have f1: "fits e1 t" using f same_screen_defs(7) [OF r(4)] by simp
  have "text_key (unat (SCREEN_HEIGHT e1) - 1) KEY_ESC (t, p) = (t, p)"
    by (simp add: text_key_def split: prod.splits)
  from turn_acted [OF r(3,5) _ f1 this f1] obtain e2 s3 e3 s4 where
    a: "key_action v e1 KEY_ESC s2 = Some (e2, s3)" "refresh v e2 s3 = Some (e3, s4)" "same_screen e1 e3"
      "editing v e3 s4 (t, p)" "displays e3 s4 (t, p)" "waiting script s4 rest"
    by (auto simp: plain_key_def)
  have "\<not> ignored_key KEY_ESC" "typed_char KEY_ESC = KEY_ESC" by (simp_all add: ignored_key_def typed_char_def)
  then have "edit_loop v e k s = Some (e3, s4)"
    using k(2) r(1,2) a(1,2) by (subst edit_loop.simps) (simp add: nbind_def edit_loop.simps)
  then show ?thesis using a(3-6) same_screen_trans [OF r(4)] by blast
qed

text \<open>
  C4: a session of the editor. The keyboard is a script of keys that ends with escape and has no F1; no button of the mouse is
  pressed, and every text on the way has lines shorter than the screen and fits the buffer. Then the main loop ends, and the buffer holds the text and the
  cursor that the keys, without those the editor ignores, make of the text before: characters, tabs and new
  lines inserted at the cursor, backspace, delete, and the keys that move the cursor. The editor area shows that
  text, scrolled so that the cursor is inside, and the cursor of the screen stands on its place.
\<close>

theorem editing_session:
  assumes "editing v e s (t, p)" "waiting script s (ks @ esc # rest)" "clean_key esc = KEY_ESC" "k \<noteq> KEY_ESC"
    and "\<forall>k \<in> set ks. clean_key k \<noteq> KEY_ESC \<and> clean_key k \<noteq> KEY_F1"
    and "\<forall>i \<le> length (pressed ks). fits e (fst (text_keys (unat (SCREEN_HEIGHT e) - 1) (take i (pressed ks)) (t, p)))"
  defines "x' \<equiv> text_keys (unat (SCREEN_HEIGHT e) - 1) (pressed ks) (t, p)"
  shows "\<exists>e' s'. edit_loop v e k s = Some (e', s') \<and> same_screen e e' \<and> waiting script s' rest \<and>
    editing v e' s' x' \<and> displays e' s' x'"
  unfolding x'_def
  using assms(1,2,4-6)
proof (induction ks arbitrary: e s t p k)
  case Nil
  then show ?case
    using turn_escaped [of v e s t p script esc rest k] assms(3) by (simp add: pressed_def text_keys_def)
next
  case (Cons k1 ks)
  let ?h = "unat (SCREEN_HEIGHT e) - 1" and ?k = "clean_key k1"
  obtain e1 s1 s2 where r: "edit_mouse v e s = Some (e1, s1)" "getkey (ed_prog v) KM_NO_WAIT s1 = Some (?k, s2)"
    "editing v e1 s2 (t, p)" "same_screen e e1" "waiting script s2 (ks @ esc # rest)"
    using turn_read [of v e s "(t, p)" script k1 "ks @ esc # rest"] Cons.prems by auto
  have k: "?k \<noteq> KEY_ESC" "?k \<noteq> KEY_F1" "\<forall>k \<in> set ks. clean_key k \<noteq> KEY_ESC \<and> clean_key k \<noteq> KEY_F1"
    using Cons.prems(4) by simp_all
  have h1: "unat (SCREEN_HEIGHT e1) = unat (SCREEN_HEIGHT e)" using r(4) by (simp add: same_screen_def)
  note fits1 = same_screen_defs(7) [OF r(4)]
  show ?case
  proof (cases "ignored_key ?k")
    case True
    then have p: "pressed (k1 # ks) = pressed ks" by (simp add: pressed_def)
    have "edit_loop v e k s = edit_loop v e1 ?k s2"
      using Cons.prems(3) r(1,2) True by (subst edit_loop.simps) (simp add: nbind_def)
    moreover have "\<forall>i \<le> length (pressed ks). fits e1 (fst (text_keys (unat (SCREEN_HEIGHT e1) - 1) (take i (pressed ks)) (t, p)))"
      using Cons.prems(5) fits1 unfolding p h1 by simp
    ultimately show ?thesis using Cons.IH [OF r(3,5) k(1,3)] same_screen_trans [OF r(4)] unfolding p h1 by simp blast
  next
    case False
    then have p: "pressed (k1 # ks) = ?k # pressed ks" by (simp add: pressed_def)
    obtain t' p' where x: "text_key ?h ?k (t, p) = (t', p')" by fastforce
    have all: "fits e (fst (text_keys ?h (take i (?k # pressed ks)) (t, p)))" if "i \<le> Suc (length (pressed ks))" for i
      using Cons.prems(5) that unfolding p by simp
    have f: "fits e1 t" using all [of 0] fits1 by (simp add: text_keys_def)
    have f': "fits e1 t'" using all [of 1] fits1 x by (simp add: text_keys_def)
    have x1: "text_key (unat (SCREEN_HEIGHT e1) - 1) ?k (t, p) = (t', p')" using x h1 by simp
    from turn_acted [OF r(3,5) pressed_plain [OF False k(2)] f x1 f'] obtain e2 s3 e3 s4 where
      a: "key_action v e1 ?k s2 = Some (e2, s3)" "refresh v e2 s3 = Some (e3, s4)" "same_screen e1 e3"
        "editing v e3 s4 (t', p')" "waiting script s4 (ks @ esc # rest)"
      by blast
    have ss: "same_screen e e3" by (rule same_screen_trans [OF r(4) a(3)])
    then have h3: "unat (SCREEN_HEIGHT e3) = unat (SCREEN_HEIGHT e)" by (simp add: same_screen_def)
    have "edit_loop v e k s = edit_loop v e3 (typed_char ?k) s4"
      using Cons.prems(3) r(1,2) a(1,2) False by (subst edit_loop.simps) (simp add: nbind_def)
    moreover have "\<forall>i \<le> length (pressed ks). fits e3 (fst (text_keys (unat (SCREEN_HEIGHT e3) - 1) (take i (pressed ks)) (t', p')))"
    proof (intro allI impI)
      fix i assume "i \<le> length (pressed ks)"
      then show "fits e3 (fst (text_keys (unat (SCREEN_HEIGHT e3) - 1) (take i (pressed ks)) (t', p')))"
        using all [of "Suc i"] x same_screen_defs(7) [OF ss] unfolding h3 by (simp add: text_keys_def)
    qed
    ultimately show ?thesis
      using Cons.IH [OF a(4,5) typed_char_esc [OF k(1)] k(3)] x same_screen_trans [OF ss] unfolding p h3
      by (simp add: text_keys_def) blast
  qed
qed


theorem editing_session_witness:
  defines "keys \<equiv> [0x1C0D, 0x2368, 0, 0x3C00, 0x4800, 0x0E08, 0x011B]"
  shows "\<exists>e' s'. edit_loop sample_env (sample_editor 2 2) 0 (sample_state (bytes ''ab'') (typed keys)) = Some (e', s') \<and>
    text_at (far s') 0x40000 (bytes ''b'' @ [10] @ bytes ''h'') \<and> cursor_shown (events s') = Some (0, 1)"
proof -
  define t where "t = bytes ''ab''"
  let ?e = "sample_editor 2 2" and ?s = "sample_state t (typed keys)" and ?ks = "[0x1C0D, 0x2368, 0, 0x3C00, 0x4800, 0x0E08]"
  have t: "0 \<notin> set t" "length t = 2" unfolding t_def by code_simp+
  have e: "ed_buff ?e = 0x40000" "SCREEN_WIDTH ?e = 80" "SCREEN_HEIGHT ?e = 25" "buff_size ?e = 3" "buff_cursor_offset ?e = 2"
      "current_line ?e = 0"
    by (simp_all add: sample_editor_def editor_start_def)
  have ed: "editing sample_env ?e ?s (t, 2)"
    using sample_edit_layout [of 2 2] sample_mirrors [of t 2 2 "typed keys"] sample_text [OF t(1), of "typed keys"] t(2)
    by (simp add: editing_def holds_text_def e) (simp add: sample_state_def sample_kernel_def)
  have w: "waiting keys ?s (?ks @ 0x011B # [])"
    by (simp add: waiting_def keys_def sample_state_def sample_kernel_def keys_read_def)
  have k: "clean_key 0x011B = KEY_ESC" "list_all (\<lambda>k. clean_key k \<noteq> KEY_ESC \<and> clean_key k \<noteq> KEY_F1) ?ks"
    "pressed ?ks = [0x0D, 0x68, 0x4800, 0x08]"
    by code_simp+
  have texts: "text_keys 24 [0x0D, 0x68, 0x4800, 0x08] (t, 2) = (bytes ''b'' @ [10] @ bytes ''h'', 0)"
    unfolding t_def by code_simp
  have "list_all (\<lambda>i. short_lines 80 (fst (text_keys 24 (take i [0x0D, 0x68, 0x4800, 0x08]) (t, 2))) \<and>
      length (fst (text_keys 24 (take i [0x0D, 0x68, 0x4800, 0x08]) (t, 2))) < 10) [0 ..< 5]"
    unfolding t_def by code_simp
  then have small: "short_lines 80 (fst (text_keys 24 (take i [0x0D, 0x68, 0x4800, 0x08]) (t, 2)))"
      "length (fst (text_keys 24 (take i [0x0D, 0x68, 0x4800, 0x08]) (t, 2))) < 10" if "i < 5" for i
    using that unfolding list_all_iff by auto
  have "\<forall>i \<le> length (pressed ?ks). fits ?e (fst (text_keys (unat (SCREEN_HEIGHT ?e) - 1) (take i (pressed ?ks)) (t, 2)))"
  proof (intro allI impI)
    fix i assume "i \<le> length (pressed ?ks)"
    then have "i < 5" unfolding k(3) by simp
    define u where "u = fst (text_keys 24 (take i [0x0D, 0x68, 0x4800, 0x08]) (t, 2))"
    have "short_lines 80 u" "length u < 10" using small [OF \<open>i < 5\<close>] unfolding u_def by blast+
    then have "fits ?e u" by (simp add: fits_def e)
    then show "fits ?e (fst (text_keys (unat (SCREEN_HEIGHT ?e) - 1) (take i (pressed ?ks)) (t, 2)))"
      unfolding u_def k(3) e by simp
  qed
  from editing_session [OF ed w k(1) _ _ this, of 0] k(2) obtain e' s' where
    s': "edit_loop sample_env ?e 0 ?s = Some (e', s')" "same_screen ?e e'"
      "editing sample_env e' s' (bytes ''b'' @ [10] @ bytes ''h'', 0)" "displays e' s' (bytes ''b'' @ [10] @ bytes ''h'', 0)"
    unfolding k(3) e using texts by (auto simp: list_all_iff)
  have "text_at (far s') 0x40000 (bytes ''b'' @ [10] @ bytes ''h'')"
    using s'(2,3) by (simp add: editing_def holds_text_def same_screen_def e)
  moreover have "cursor_shown (events s') = Some (0, 1)"
    using s'(4) by (simp add: displays_def place_def)
  ultimately show ?thesis using s'(1) unfolding t_def by blast
qed

end
