(* ===== verification/Fs_Growth.thy ===== *)
theory Fs_Growth
  imports Fs_Contents
begin

section \<open>Files that grow\<close>

text \<open>
  A write past the end of a file lengthens its chain, sets its size, takes free blocks and writes the data. The
  code finds the blocks before it writes any of the new references: growing by one block works, and is what the
  kernel does for a program that writes block by block; growing by several in one call gives them all the same block.
\<close>

subsection \<open>Taking blocks\<close>

lemma skip_to_entry_none [simp]: "unat cur \<le> 120 \<Longrightarrow> skip_to_entry disk nt te cur final s = Some (Inr (nt, te, cur, final), s)"
  by (subst skip_to_entry.simps) (simp add: word_less_nat_alt)

lemma alloc_blocks_repeats:
  fixes b :: u16
  assumes "find_free_block s disk = Inr b" "b < ERROR_ANY"
  shows "unat cur \<le> unat final \<Longrightarrow> unat final \<le> 120 \<Longrightarrow> length (e_ref te) = 120 \<Longrightarrow>
    alloc_blocks disk nt te cur final s = Some (Inr (nt, te\<lparr>e_ref :=
      take (unat cur) (e_ref te) @ replicate (unat final - unat cur) (ucast b) @ drop (unat final) (e_ref te)\<rparr>), s)"
proof (induction "unat final - unat cur" arbitrary: cur te)
  case 0
  then have "\<not> cur < final" by (simp add: word_less_nat_alt)
  then show ?case using 0 by (subst alloc_blocks.simps) (simp add: ret_def)
next
  case (Suc d)
  let ?te = "te\<lparr>e_ref := (e_ref te)[unat cur := ucast b]\<rparr>"
  have lt: "unat cur < unat final" using Suc.hyps(2) by simp
  then have c1: "unat (cur + 1) = Suc (unat cur)" using Suc.prems(2) by (simp add: unat_plus1_u16)
  have "alloc_blocks disk nt ?te (cur + 1) final s = Some (Inr (nt, ?te\<lparr>e_ref :=
      take (unat (cur + 1)) (e_ref ?te) @ replicate (unat final - unat (cur + 1)) (ucast b) @ drop (unat final) (e_ref ?te)\<rparr>), s)"
    using Suc.hyps(2) Suc.prems lt c1 by (intro Suc.hyps(1)) simp_all
  moreover have "take (unat (cur + 1)) (e_ref ?te) = take (unat cur) (e_ref te) @ [ucast b]"
    using c1 lt Suc.prems by (simp add: take_Suc_conv_app_nth)
  moreover have "unat final - unat cur = Suc (unat final - unat (cur + 1))" using c1 lt by simp
  ultimately have "alloc_blocks disk nt ?te (cur + 1) final s = Some (Inr (nt, te\<lparr>e_ref :=
      take (unat cur) (e_ref te) @ replicate (unat final - unat cur) (ucast b) @ drop (unat final) (e_ref te)\<rparr>), s)"
    using lt by simp
  then show ?case
    using lt Suc.prems assms
    by (subst alloc_blocks.simps) (simp add: bindE_def reads_def result_code_def word_less_nat_alt not_le)
qed

subsection \<open>Sizes in blocks and free blocks\<close>

lemma blocks_for: "(x + 511) div 512 = (if x mod 512 = 0 then x div 512 else Suc (x div 512))" for x :: nat
proof -
  have "x = 512 * (x div 512) + x mod 512" "x mod 512 < 512" by simp_all
  then obtain q r where x: "x = 512 * q + r" "r < 512" by metis
  have "(512 * q + (r + 511)) div 512 = q + (r + 511) div 512" by simp
  moreover have "(r + 511) div 512 = (if r = 0 then 0 else 1)" using x(2) by (auto intro!: div_nat_eqI)
  moreover have "x mod 512 = r" "x div 512 = q" using x by simp_all
  ultimately show ?thesis using x(1) by (simp only: add.assoc) simp
qed

lemma unat_needed_blocks: "unat (needed_blocks z) = (unat z + 511) div 512"
proof -
  have q: "unat (z div 512) = unat z div 512" "unat (z mod 512) = unat z mod 512" by (simp_all add: unat_div unat_mod)
  have "unat z div 512 < 128" using unat_u16_lt [of z] by simp
  then have "unat (z div 512 + 1) = Suc (unat z div 512)" using q by (simp add: unat_plus1_u16)
  moreover have "z mod 512 = 0 \<longleftrightarrow> unat z mod 512 = 0" using q(2) by (metis unat_eq_0)
  ultimately show ?thesis using q(1) by (simp add: needed_blocks_def blocks_for)
qed

definition free_blocks :: "(u16 \<Rightarrow> u8 list) \<Rightarrow> u16 set" where
  "free_blocks f = {b. first_data_block (superblock_of f) \<le> b \<and> b < ucast (sb_size (superblock_of f)) \<and>
     b < ERROR_ANY \<and> block_free f b}"

lemma finite_free_blocks [simp]: "finite (free_blocks f)"
  by (rule finite_subset [OF subset_UNIV]) simp

lemma first_data_block_behind:
  assumes "entries_of f \<le> table_limit"
  shows "unat (first_data_block (superblock_of f)) = 2 + entries_of f"
proof -
  let ?n = "sb_nentries (superblock_of f)"
  have n: "unat ?n \<le> 65531" using assms by (simp add: entries_of_def)
  have "unat (?n * 512 :: u32) = unat ?n * 512" using n by (simp add: unat_word_ariths)
  then have "unat ((?n * 512) div 512 :: u32) = unat ?n" by (simp add: unat_div)
  then have "unat (2 + (?n * 512) div 512 :: u32) = 2 + unat ?n" using n by (simp add: unat_word_ariths)
  then show ?thesis
    using n by (simp add: first_data_block_def entries_of_def unsigned_ucast_eq take_bit_nat_eq_self)
qed

lemma find_free_block_some:
  assumes "mounted s disk" "free_blocks (disk_of s disk) \<noteq> {}"
  shows "\<exists>b. find_free_block s disk = Inr b \<and> b \<in> free_blocks (disk_of s disk)"
proof -
  let ?f = "disk_of s disk"
  obtain b' where b': "b' \<in> free_blocks ?f" using assms(2) by blast
  note first = find_free_block_first [OF assms(1)]
  show ?thesis
  proof (cases "find_free_block s disk")
    case (Inl c)
    then show ?thesis using first [of b' c] b' by (auto simp: free_blocks_def)
  next
    case (Inr b)
    then have b: "first_data_block (superblock_of ?f) \<le> b" "b < ucast (sb_size (superblock_of ?f))" "block_free ?f b"
        "\<forall>b'. first_data_block (superblock_of ?f) \<le> b' \<and> b' < b \<longrightarrow> \<not> block_free ?f b'"
      using first [of b 0] by auto
    have "b \<le> b'" using b(4) b' by (auto simp: free_blocks_def not_le)
    then show ?thesis using Inr b b' by (auto simp: free_blocks_def)
  qed
qed

lemma free_block_place:
  assumes "b \<in> free_blocks f" "entries_of f \<le> table_limit"
  shows "2 + entries_of f \<le> unat b" "b \<noteq> 0" "(ucast b :: u32) \<noteq> 0" "b < ERROR_ANY" "block_free f b"
proof -
  show "2 + entries_of f \<le> unat b" using assms by (simp add: free_blocks_def word_le_nat_alt first_data_block_behind)
  then show "b \<noteq> 0" by auto
  then show "(ucast b :: u32) \<noteq> 0" by (auto simp: word_unat_eq_iff)
qed (use assms in \<open>simp_all add: free_blocks_def\<close>)

subsection \<open>A file of one or two chained entries\<close>

text \<open>
  A file as the code grows it: its blocks are in its first entry, whose other references are 0. As long as it has not grown
  it has one entry and no entry names it as its parent; the first growth chains a second one without references.
\<close>

definition growing_file :: "(u16 \<Rightarrow> u8 list) \<Rightarrow> u16 \<Rightarrow> nat \<Rightarrow> u16 list \<Rightarrow> bool" where
  "growing_file f n k ns \<longleftrightarrow> laid_out f n k ns \<and>
     (let e = entry_at f (unat n)
      in (unat (e_size e) + 511) div 512 = k \<and> drop k (e_ref e) = replicate (120 - k) 0 \<and>
         take k (e_ref e) = map ucast (blocks_of e k) \<and> entry_used (entry_at f 0) \<and>
         (ns = [n] \<and> e_next e = 0 \<and>
            (\<forall>j < entries_of f. entry_used (entry_at f j) \<longrightarrow> e_parent (entry_at f j) \<noteq> ucast n) \<or>
          (\<exists>m. ns = [n, m] \<and> e_next e = ucast m \<and> e_next (entry_at f (unat m)) = 0 \<and> e_ref (entry_at f (unat m)) = replicate 120 0)))"

lemma put_entry_absorb:
  assumes "n < table_limit" "m < table_limit" "n \<noteq> m"
  shows "put_entry (put_entry (put_entry f n a) m b) n c = put_entry (put_entry f n c) m b"
  using slot_eq_iff [OF assms(1,2)] assms(3) by (auto simp: put_entry_def fun_eq_iff)

lemma put_entry_swap:
  assumes "n < table_limit" "m < table_limit" "n \<noteq> m"
  shows "put_entry (put_entry f n a) m b = put_entry (put_entry f m b) n a"
  using slot_eq_iff [OF assms(1,2)] assms(3) by (auto simp: put_entry_def fun_eq_iff)

lemma set_entry_size_two:
  fixes n m :: u16
  assumes ok: "device_ok s disk" "n < ERROR_ANY" "m < ERROR_ANY" "n \<noteq> m" "m \<noteq> 0"
  defines "f \<equiv> disk_of s disk"
  assumes e: "e = entry_at f (unat n)" "ucast (e_next e) = m" "entry_is e T_FILE"
    and c: "c = entry_at f (unat m)" "e_next c = 0"
  shows "set_entry_size disk n sz s = Some (Inr (), set_disk s disk
    (put_entry (put_entry f (unat n) (e\<lparr>e_size := ucast sz\<rparr>)) (unat m) (c\<lparr>e_size := ucast (sz - 61440)\<rparr>)))"
proof -
  have sec: "sectors_ok f" using ok by (simp add: f_def device_ok_sectors)
  have sh: "entry_shape e" "entry_shape c" using sec e(1) c(1) by (simp_all add: entry_at_shape)
  have lt: "unat n < table_limit" "unat m < table_limit" "unat m \<noteq> unat n"
    using ok by (simp_all add: word_less_nat_alt word_unat_eq_iff)
  let ?f = "put_entry f (unat n) (e\<lparr>e_size := ucast sz\<rparr>)"
  have c': "entry_at ?f (unat m) = c" using sec sh lt c(1) by (simp add: entry_at_put)
  have "set_entry_size disk m (sz - 61440) (set_disk s disk ?f) = Some (Inr (), set_disk s disk
      (put_entry ?f (unat m) (c\<lparr>e_size := ucast (sz - 61440)\<rparr>)))"
    using set_entry_size_single [of "set_disk s disk ?f" disk m "sz - 61440"] ok sec sh c c' by simp
  then show ?thesis
    using ok e sec sh by (subst set_entry_size.simps)
      (simp add: bindE_def reads_def get_entry_n_ok write_entry_ok Let_def f_def)
qed

lemma clear_refs_end: "clear_refs i (replicate 120 0) = replicate 120 0" if "i \<le> 120"
  using that by (rule clear_refs_zero)

text \<open>With a second entry that has no references, setting the number of references only writes that entry again.\<close>

lemma set_entry_refcount_again:
  fixes n m k :: u16
  assumes ok: "device_ok s disk" "n < ERROR_ANY" "m < ERROR_ANY" "m \<noteq> 0"
  defines "f \<equiv> disk_of s disk"
  assumes e: "ucast (e_next (entry_at f (unat n))) = m"
    and c: "c = entry_at f (unat m)" "e_next c = 0" "e_ref c = replicate 120 0"
    and k: "0 < unat k" "unat k \<le> 120"
  shows "set_entry_refcount disk n k s = Some (Inr (), set_disk s disk (put_entry f (unat m) c))"
proof -
  have one: "unat (needed_entries k) = Suc 0" using needed_entries_one [OF k] by simp
  have nz: "e_next (entry_at f (unat n)) \<noteq> 0" using e ok(4) by auto
  have km: "unat (k mod SFS_ENTRYREFS) \<le> 120" by (simp add: unat_mod)
  have sh: "entry_shape c" using ok c(1) by (simp add: f_def entry_at_shape device_ok_sectors)
  have "clear_refs (unat (k mod SFS_ENTRYREFS)) (replicate 120 0) = replicate 120 0" by (rule clear_refs_zero [OF km])
  then have "c\<lparr>e_ref := clear_refs (unat (k mod SFS_ENTRYREFS)) (e_ref c)\<rparr> = c" using c(3) by simp
  then show ?thesis
    using ok e nz one c sh
    by (simp add: set_entry_refcount_def bindE_def reads_def ret_def get_entry_n_ok write_entry_ok f_def Let_def)
qed

text \<open>
  Setting the size beforehand does not change which data blocks are free: the reference that becomes visible is still 0, and
  so are all those of the second entry.
\<close>

lemma references_take:
  fixes sz :: u16
  assumes "unat sz \<le> 61440" "e_size e = ucast sz" "entry_is e T_FILE"
  shows "references_block b e \<longleftrightarrow> ucast b \<in> set (take ((unat sz + 511) div 512) (e_ref e))"
proof -
  have "(ucast (e_size e) :: u16) = sz" using assms(2) by (simp add: ucast_u16_u32_u16)
  moreover have "(unat sz + 511) div 512 \<le> 120" using assms(1) by simp
  ultimately show ?thesis using assms(3) by (simp add: references_block_def unat_min16 unat_needed_blocks min_def)
qed

lemma references_zeros: "e_ref e = replicate 120 0 \<Longrightarrow> b \<noteq> 0 \<Longrightarrow> \<not> references_block b e"
  by (auto simp: references_block_def word_unat_eq_iff dest!: in_set_takeD)

lemma references_unused: "\<not> entry_used e \<Longrightarrow> \<not> references_block b e"
proof -
  assume "\<not> entry_used e"
  then have "e_flags e AND 3 = 0" by (simp add: entry_used_def)
  moreover have "(e_flags e AND 3) AND 2 = e_flags e AND 2" by (simp add: and.assoc)
  ultimately show ?thesis by (simp add: references_block_def entry_is_def)
qed

lemma references_more_zeros:
  fixes sz :: u16
  assumes "entry_is e T_FILE" "unat (e_size e) \<le> unat sz" "unat sz \<le> 61440" "b \<noteq> 0"
    and "k = (unat (e_size e) + 511) div 512" "drop k (e_ref e) = replicate (120 - k) 0"
  shows "references_block b (e\<lparr>e_next := x, e_size := ucast sz\<rparr>) = references_block b e"
proof -
  let ?q = "(unat sz + 511) div 512"
  have kq: "k \<le> ?q" using assms(2,5) by (simp add: div_le_mono)
  have sz1: "unat (ucast (e_size e) :: u16) = unat (e_size e)"
    using assms(2,3) by (simp add: unsigned_ucast_eq take_bit_nat_eq_self)
  then have "unat (ucast (ucast (e_size e) :: u16) :: u32) = unat (e_size e)" by (simp only: unat_ucast_u16_u32)
  then have sz0: "e_size e = ucast (ucast (e_size e) :: u16)" by (simp only: word_unat_eq_iff)
  have "set (take ?q (e_ref e)) \<subseteq> set (take k (e_ref e)) \<union> {0}"
  proof -
    have "take ?q (e_ref e) = take k (e_ref e) @ take (?q - k) (drop k (e_ref e))"
      using kq by (metis le_add_diff_inverse take_add)
    then show ?thesis using assms(6) by auto
  qed
  moreover have "set (take k (e_ref e)) \<subseteq> set (take ?q (e_ref e))" using kq by (rule set_take_subset_set_take)
  moreover have "(ucast b :: u32) \<noteq> 0" using assms(4) by (auto simp: word_unat_eq_iff)
  ultimately have "ucast b \<in> set (take ?q (e_ref e)) \<longleftrightarrow> (ucast b :: u32) \<in> set (take k (e_ref e))" by blast
  moreover have "references_block b e \<longleftrightarrow> ucast b \<in> set (take k (e_ref e))"
    using references_take [of "ucast (e_size e)" e b] sz0 sz1 assms by simp
  moreover have "references_block b (e\<lparr>e_next := x, e_size := ucast sz\<rparr>) \<longleftrightarrow> ucast b \<in> set (take ?q (e_ref e))"
    using references_take [of sz "e\<lparr>e_next := x, e_size := ucast sz\<rparr>" b] assms(1,3) by (simp add: entry_is_def)
  ultimately show ?thesis by simp
qed

lemma find_free_block_cong:
  assumes "mounted s disk" "mounted s' disk" "superblock_of (disk_of s' disk) = superblock_of (disk_of s disk)"
    and "\<And>b. b \<noteq> 0 \<Longrightarrow> block_free (disk_of s' disk) b = block_free (disk_of s disk) b"
  shows "find_free_block s' disk = find_free_block s disk"
proof -
  let ?lo = "unat (first_data_block (superblock_of (disk_of s disk)))"
  let ?hi = "unat (ucast (sb_size (superblock_of (disk_of s disk))) :: u16)"
  have "(of_nat k :: u16) \<noteq> 0" if "k \<in> set [?lo ..< ?hi]" for k
  proof -
    have "2 \<le> k" using that first_data_block_behind [of "disk_of s disk"] assms(1) by (simp add: mounted_def)
    moreover have "k < 65536" using that unat_u16_lt [of "ucast (sb_size (superblock_of (disk_of s disk))) :: u16"] by simp
    ultimately have "unat (of_nat k :: u16) \<noteq> 0" by (simp add: unat_of_nat_u16)
    then show ?thesis by auto
  qed
  then have "find (\<lambda>k. block_free (disk_of s' disk) (of_nat k)) [?lo ..< ?hi] =
      find (\<lambda>k. block_free (disk_of s disk) (of_nat k)) [?lo ..< ?hi]"
    by (intro find_cong) (simp_all add: assms(4))
  then show ?thesis by (simp add: find_free_block_ok assms(1-3))
qed

subsection \<open>Growing\<close>

text \<open>
  The two entries of a file after it has grown: the first with the new size, the new reference and the link, the second a
  copy of it without references when it is new.
\<close>

definition grown :: "sfs_entry \<Rightarrow> u16 \<Rightarrow> u16 \<Rightarrow> nat \<Rightarrow> u16 \<Rightarrow> sfs_entry" where
  "grown e m sz k b = e\<lparr>e_next := ucast m, e_size := ucast sz,
     e_ref := if 512 * k < unat sz then (e_ref e)[k := ucast b] else e_ref e\<rparr>"

definition second_entry :: "(u16 \<Rightarrow> u8 list) \<Rightarrow> u16 \<Rightarrow> u16 list \<Rightarrow> u16 \<Rightarrow> sfs_entry" where
  "second_entry f n ns m =
     (if ns = [n] then (entry_at f (unat n))\<lparr>e_parent := ucast n, e_next := 0, e_size := 0, e_ref := replicate 120 0\<rparr>
      else entry_at f (unat m))"

lemma growing_cases:
  assumes "growing_file f n k ns"
  obtains "ns = [n]" "e_next (entry_at f (unat n)) = 0"
    | m where "ns = [n, m]" "m \<noteq> 0" "m \<noteq> n" "e_next (entry_at f (unat n)) = ucast m" "unat m < entries_of f"
        "e_next (entry_at f (unat m)) = 0" "e_ref (entry_at f (unat m)) = replicate 120 0"
  using assms by (fastforce simp: growing_file_def laid_out_def Let_def)

lemma second_entry_facts:
  assumes "growing_file f n k ns" "ns = [n, m] \<or> ns = [n]" "sectors_ok f"
  shows "e_next (second_entry f n ns m) = 0" "e_ref (second_entry f n ns m) = replicate 120 0"
    "entry_shape (second_entry f n ns m)"
  using assms entry_at_shape [OF assms(3)] by (auto simp: second_entry_def growing_file_def Let_def entry_shape_def)

lemma block_free_grown:
  fixes n m sz b :: u16
  assumes ok: "sectors_ok f" "entries_of f \<le> table_limit" and g: "growing_file f n k ns"
    and e: "e = entry_at f (unat n)" "entry_is e T_FILE" "unat (e_size e) \<le> unat sz" "unat sz \<le> 61440"
    and n: "unat n < entries_of f" "unat m < entries_of f" "m \<noteq> n"
    and c: "e_ref c = replicate 120 0" "entry_shape c" "ns = [n] \<and> \<not> entry_used (entry_at f (unat m)) \<or> ns = [n, m]" and b: "b \<noteq> 0"
  shows "block_free (put_entry (put_entry f (unat n) (e\<lparr>e_next := x, e_size := ucast sz\<rparr>)) (unat m) c) b = block_free f b"
proof -
  let ?e = "e\<lparr>e_next := x, e_size := ucast sz\<rparr>"
  let ?f = "put_entry (put_entry f (unat n) ?e) (unat m) c"
  have lt: "unat n < table_limit" "unat m < table_limit" "unat m \<noteq> unat n" using n ok(2) by (simp_all add: word_unat_eq_iff)
  have sh: "entry_shape ?e" using ok(1) e(1) by (simp add: entry_at_shape)
  have k: "k = (unat (e_size e) + 511) div 512" "drop k (e_ref e) = replicate (120 - k) 0"
    using g e(1) by (simp_all add: growing_file_def Let_def)
  have "references_block b (entry_at ?f j) = references_block b (entry_at f j)" if j: "j < entries_of f" for j
  proof -
    have m0: "\<not> references_block b (entry_at f (unat m))"
      using c(3) references_unused references_zeros g b by (auto simp: growing_file_def Let_def)
    have "entry_at ?f j = (if j = unat m then c else if j = unat n then ?e else entry_at f j)"
      using ok sh c(2) lt j by (simp add: entry_at_put)
    then show ?thesis
      using m0 references_zeros [OF c(1) b] references_more_zeros [OF e(2,3,4) b k] e(1) by simp
  qed
  moreover have "entries_of ?f = entries_of f" using lt by simp
  ultimately show ?thesis by (simp add: block_free_def)
qed

lemma final_blocks:
  fixes z sz k :: nat
  assumes "k = (z + 511) div 512" "z < sz" "sz \<le> 512 * Suc k"
  shows "(sz + 511) div 512 = (if 512 * k < sz then Suc k else k)"
proof -
  have "z + 511 = 512 * k + (z + 511) mod 512" "(z + 511) mod 512 < 512" using assms(1) by simp_all
  then have "512 * k < z + 512" "z \<le> 512 * k" by linarith+
  then have "512 * (if 512 * k < sz then Suc k else k) \<le> sz + 511" "sz + 511 < 512 * Suc (if 512 * k < sz then Suc k else k)"
    using assms(2,3) by (cases "512 * k < sz"; simp)+
  then show ?thesis by (intro div_nat_eqI) (simp_all add: mult.commute)
qed

lemma alloc_last:
  fixes b :: u16
  assumes "512 * k < unat sz \<Longrightarrow> find_free_block s disk = Inr b" "512 * k < unat sz \<Longrightarrow> b < ERROR_ANY"
    and "unat cur = k" "unat final = (if 512 * k < unat sz then Suc k else k)" "unat final \<le> 120" "length (e_ref te) = 120"
  shows "alloc_blocks disk nt te cur final s =
    Some (Inr (nt, te\<lparr>e_ref := if 512 * k < unat sz then (e_ref te)[k := ucast b] else e_ref te\<rparr>), s)"
proof (cases "512 * k < unat sz")
  case False
  then have "\<not> cur < final" using assms(3,4) by (simp add: word_less_nat_alt)
  then show ?thesis using False by (subst alloc_blocks.simps) (simp add: ret_def)
next
  case True
  have "take k (e_ref te) @ [ucast b] @ drop (Suc k) (e_ref te) = (e_ref te)[k := ucast b]"
    using True assms(4-6) by (simp add: upd_conv_take_nth_drop)
  then show ?thesis using alloc_blocks_repeats [of s disk b cur final te nt] assms True by simp
qed

lemma grow_file_ok:
  fixes n m sz b :: u16
  assumes mt: "mounted s disk"
  defines "f \<equiv> disk_of s disk"
  assumes g: "growing_file f n k ns" and e: "e = entry_at f (unat n)"
    and sz: "unat (e_size e) < unat sz" "unat sz \<le> 512 * Suc k" "unat sz \<le> 61440"
    and m: "ns = [n] \<and> find_free_entry s disk = Inr m \<or> ns = [n, m]"
    and b: "512 * k < unat sz \<Longrightarrow> find_free_block s disk = Inr b \<and> b < ERROR_ANY"
  shows "grow_file disk n e sz s = Some (Inr (grown e m sz k b), set_disk s disk
    (put_entry (put_entry f (unat n) (grown e m sz k b)) (unat m) ((second_entry f n ns m)\<lparr>e_size := ucast (sz - 61440)\<rparr>)))"
proof -
  have ok: "device_ok s disk" "sectors_ok f" and lim: "entries_of f \<le> table_limit"
    using mt by (simp_all add: f_def mounted_device mounted_sectors mounted_def)
  have lay: "entry_is e T_FILE" "unat n < entries_of f" "entry_used (entry_at f 0)"
      "k = (unat (e_size e) + 511) div 512"
    using g e by (auto simp: growing_file_def laid_out_def Let_def)
  have used: "entry_used e"
  proof -
    have "(e_flags e AND 3) AND 2 = e_flags e AND 2" by (simp add: and.assoc)
    then show ?thesis using lay(1) by (auto simp: entry_is_def entry_used_def)
  qed
  have mm: "unat m < entries_of f" "m \<noteq> n" "m \<noteq> 0"
      "ns = [n] \<and> e_next e = 0 \<and> \<not> entry_used (entry_at f (unat m)) \<or> ns = [n, m] \<and> e_next e = ucast m"
  proof -
    have fr: "unat m < entries_of f \<and> \<not> entry_used (entry_at f (unat m))" if "find_free_entry s disk = Inr m"
      using find_free_entry_InrD [OF mt that] by (simp add: f_def)
    then have fr2: "m \<noteq> n \<and> m \<noteq> 0" if "find_free_entry s disk = Inr m" using that used lay(3) e by auto
    show "unat m < entries_of f" "m \<noteq> n" "m \<noteq> 0"
        "ns = [n] \<and> e_next e = 0 \<and> \<not> entry_used (entry_at f (unat m)) \<or> ns = [n, m] \<and> e_next e = ucast m"
      using m fr fr2 e by (cases rule: growing_cases [OF g]; auto)+
  qed
  have lt: "n < ERROR_ANY" "m < ERROR_ANY" "unat n < table_limit" "unat m < table_limit" "unat m \<noteq> unat n"
    using lay(2) mm lim by (simp_all add: word_less_nat_alt word_unat_eq_iff)
  have m32: "(ucast (ucast m :: u32) :: u16) = m" by simp
  define c where "c = second_entry f n ns m"
  have nsm: "ns = [n, m] \<or> ns = [n]" using m by blast
  note c = second_entry_facts [OF g nsm ok(2), folded c_def]
  let ?final = "needed_blocks sz"
  have fin: "unat ?final = (if 512 * k < unat sz then Suc k else k)"
    unfolding unat_needed_blocks by (rule final_blocks [OF lay(4) sz(1,2)])
  have fin': "0 < unat ?final" "unat ?final \<le> 120"
    using sz(1,3) by (simp_all add: unat_needed_blocks)
  define fa where "fa = (if ns = [n] then put_entry (put_entry f (unat n) (e\<lparr>e_next := ucast m\<rparr>)) (unat m) c else put_entry f (unat m) c)"
  have sh: "entry_shape e" "entry_shape c" using ok(2) e c by (simp_all add: entry_at_shape)
  have fa: "sectors_ok fa" "entry_at fa (unat n) = e\<lparr>e_next := ucast m\<rparr>" "entry_at fa (unat m) = c"
      "put_entry (put_entry fa (unat n) x) (unat m) y = put_entry (put_entry f (unat n) x) (unat m) y" for x y
  proof -
    show "sectors_ok fa" "entry_at fa (unat m) = c" using ok sh lt by (simp_all add: fa_def entry_at_put)
    show "entry_at fa (unat n) = e\<lparr>e_next := ucast m\<rparr>" using ok sh lt mm(4) e by (auto simp: fa_def entry_at_put)
    have "put_entry (put_entry (put_entry f' (unat m) c) (unat n) x) (unat m) y = put_entry (put_entry f' (unat n) x) (unat m) y" for f'
      using put_entry_absorb [of "unat m" "unat n" f' c x y] put_entry_swap [of "unat m" "unat n" f' y x] lt by simp
    then show "put_entry (put_entry fa (unat n) x) (unat m) y = put_entry (put_entry f (unat n) x) (unat m) y"
      by (simp add: fa_def)
  qed
  have count: "set_entry_refcount disk n ?final s = Some (Inr (), set_disk s disk fa)"
  proof (cases "ns = [n]")
    case True
    then have "find_free_entry s disk = Inr m" "e_next e = 0" using m mm(4) by auto
    moreover have "c = e\<lparr>e_parent := ucast n, e_next := 0, e_size := 0, e_ref := replicate 120 0\<rparr>"
      using True e by (simp add: c_def second_entry_def)
    ultimately show ?thesis
      using set_entry_refcount_chains [OF mt fin', of n] True lay(2) used e by (simp add: f_def fa_def)
  next
    case False
    then have "e_next e = ucast m" "c = entry_at f (unat m)" using mm(4) by (auto simp: c_def second_entry_def)
    then show ?thesis
      using set_entry_refcount_again [OF ok(1) lt(1,2) mm(3), where c = c and k = ?final] c fin' False e m32 by (simp add: f_def fa_def)
  qed
  let ?c = "c\<lparr>e_size := ucast (sz - 61440)\<rparr>" and ?e = "e\<lparr>e_next := ucast m, e_size := ucast sz\<rparr>"
  let ?f1 = "put_entry (put_entry f (unat n) ?e) (unat m) ?c"
  have size: "set_entry_size disk n sz (set_disk s disk fa) = Some (Inr (), set_disk s disk ?f1)"
    using set_entry_size_two [of "set_disk s disk fa" disk n m "e\<lparr>e_next := ucast m\<rparr>" c sz] ok lt mm fa c lay(1) m32
    by (simp add: entry_is_def)
  have f1: "sectors_ok ?f1" "entry_at ?f1 (unat n) = ?e" using ok sh lt by (simp_all add: entry_at_put)
  have m1: "mounted (set_disk s disk ?f1) disk"
    using mt ok f1(1) lim lt by (simp add: mounted_def)
  have free: "find_free_block (set_disk s disk ?f1) disk = find_free_block s disk"
  proof (rule find_free_block_cong [OF mt m1])
    fix b :: u16 assume "b \<noteq> 0"
    then show "block_free (disk_of (set_disk s disk ?f1) disk) b = block_free (disk_of s disk) b"
      using block_free_grown [OF ok(2) lim g e lay(1) less_imp_le [OF sz(1)] sz(3) lay(2) mm(1,2), of ?c b "ucast m"] sh c mm(4)
      by (auto simp: f_def [symmetric])
  qed (use lt in \<open>simp add: f_def [symmetric]\<close>)
  have szu: "ucast (e_size e) = (ucast (e_size e) :: u16) \<and> unat (ucast (e_size e) :: u16) = unat (e_size e)"
    using sz(1,3) by (simp add: unsigned_ucast_eq take_bit_nat_eq_self)
  have alloc: "alloc_blocks disk n ?e (needed_blocks (ucast (e_size e))) ?final (set_disk s disk ?f1) =
      Some (Inr (n, grown e m sz k b), set_disk s disk ?f1)"
    using alloc_last [of k sz "set_disk s disk ?f1" disk b "needed_blocks (ucast (e_size e))" ?final ?e n] b fin fin' free szu lay(4) sh(1)
    by (simp add: grown_def unat_needed_blocks entry_shape_def)
  have gs: "entry_shape (grown e m sz k b)" using sh(1) by (simp add: grown_def entry_shape_def)
  have wr: "write_entry (grown e m sz k b) disk n (set_disk s disk ?f1) =
      Some (Inr (), set_disk s disk (put_entry (put_entry f (unat n) (grown e m sz k b)) (unat m) ?c))"
    using ok f1 lt gs put_entry_absorb [of "unat n" "unat m" f ?e ?c "grown e m sz k b"] by (simp add: write_entry_set)
  have rd: "get_entry_n (set_disk s disk (put_entry (put_entry f (unat n) (grown e m sz k b)) (unat m) ?c)) disk n =
      Inr (grown e m sz k b)"
    using ok sh lt gs by (simp add: get_entry_set entry_at_put)
  have less: "e_size e < ucast sz" using sz(1) by (simp add: word_less_nat_alt)
  show ?thesis
    unfolding grow_file_def Let_def if_P [OF less] c_def [symmetric]
    using ok lt f1 by (simp add: count size get_entry_set alloc wr rd)
qed

subsection \<open>Paths that keep their meaning\<close>

lemma lookup_kept:
  assumes "mounted s disk" "mounted s' disk" "entries_of (disk_of s' disk) = entries_of (disk_of s disk)"
    and "\<And>j. j < entries_of (disk_of s disk) \<Longrightarrow>
      entry_matches name parent (entry_at (disk_of s' disk) j) = entry_matches name parent (entry_at (disk_of s disk) j)"
  shows "lookup_entry s' name parent disk = found_in (disk_of s' disk) (lookup_entry s name parent disk)"
proof -
  have "k < entries_of (disk_of s disk) \<Longrightarrow> unat (of_nat k :: u16) = k" for k
    using assms(1) by (intro unat_of_nat_u16) (simp add: mounted_def)
  moreover have "table.first (entry_matches name parent) (disk_of s disk) (entries_of (disk_of s disk)) = Some k \<Longrightarrow>
      k < entries_of (disk_of s disk)" for k by (simp add: table.first_Some_iff)
  moreover have "table.first (entry_matches name parent) (disk_of s' disk) (entries_of (disk_of s disk)) =
      table.first (entry_matches name parent) (disk_of s disk) (entries_of (disk_of s disk))"
    unfolding table.first_def using assms(4) by (intro find_cong) auto
  ultimately show ?thesis
    by (simp add: lookup_entry_ok [OF assms(1)] lookup_entry_ok [OF assms(2)] assms(3) found_in_def split: option.split)
qed

lemma lookup_match:
  assumes "mounted s disk" "lookup_entry s name parent disk = Inr (n, e)"
  shows "unat n < entries_of (disk_of s disk)" "entry_matches name parent (entry_at (disk_of s disk) (unat n))"
    "e = entry_at (disk_of s disk) (unat n)"
  using lookup_entry_first [OF assms(1), of name parent n e 0] assms(2) by auto

text \<open>Where every successful lookup keeps its result, so does every path that resolves.\<close>

lemma walk_kept:
  assumes "\<And>name parent n e. lookup_entry s name parent disk = Inr (n, e) \<Longrightarrow>
      lookup_entry s' name parent disk = Inr (n, entry_at (disk_of s' disk) (unat n))"
  shows "walk_dirs s disk p xs = Inr q \<Longrightarrow> walk_dirs s' disk p xs = Inr q"
  by (induction xs arbitrary: p) (auto dest: assms split: sum.splits)

lemma resolve_kept:
  assumes "\<And>name parent n e. lookup_entry s name parent disk = Inr (n, e) \<Longrightarrow>
      lookup_entry s' name parent disk = Inr (n, entry_at (disk_of s' disk) (unat n))"
    and "resolve s disk cs = Inr (n, e)"
  shows "resolve s' disk cs = Inr (n, entry_at (disk_of s' disk) (unat n))"
proof -
  obtain q where "walk_dirs s disk 0 (butlast cs) = Inr q" "lookup_entry s (last cs) q disk = Inr (n, e)"
    using assms(2) by (auto simp: resolve_def split: sum.splits)
  then show ?thesis using walk_kept [OF assms(1)] assms(1) by (simp add: resolve_def)
qed

lemma grown_names:
  fixes n m :: u16
  assumes mt: "mounted s disk" "mounted s' disk"
  defines "f \<equiv> disk_of s disk"
  defines "f' \<equiv> disk_of s' disk"
  assumes ents: "entries_of f' = entries_of f" and g: "growing_file f n k ns"
    and m: "ns = [n] \<and> \<not> entry_used (entry_at f (unat m)) \<or> ns = [n, m]"
    and e: "e_name (entry_at f' (unat n)) = e_name (entry_at f (unat n))"
      "e_flags (entry_at f' (unat n)) = e_flags (entry_at f (unat n))"
      "e_parent (entry_at f' (unat n)) = e_parent (entry_at f (unat n))"
    and c: "e_name (entry_at f' (unat m)) = e_name (second_entry f n ns m)"
      "e_flags (entry_at f' (unat m)) = e_flags (second_entry f n ns m)"
      "e_parent (entry_at f' (unat m)) = e_parent (second_entry f n ns m)"
    and others: "\<And>j. j < entries_of f \<Longrightarrow> j \<noteq> unat n \<Longrightarrow> j \<noteq> unat m \<Longrightarrow> entry_at f' j = entry_at f j"
    and found: "lookup_entry s name parent disk = Inr (i, x)"
  shows "lookup_entry s' name parent disk = Inr (i, entry_at f' (unat i))"
proof -
  have names: "list_all (\<lambda>m. 0 \<in> set (e_name (entry_at f (unat m)))) ns"
    using g by (simp add: growing_file_def laid_out_def Let_def list_all_iff)
  have i: "unat i < entries_of f" "entry_matches name parent (entry_at f (unat i))" "x = entry_at f (unat i)"
    using lookup_match [OF mt(1) found] by (simp_all add: f_def)
  have "entry_matches name parent (entry_at f' j) = entry_matches name parent (entry_at f j)" if j: "j < entries_of f" for j
  proof -
    consider "j = unat m" | "j \<noteq> unat m" "j = unat n" | "j \<noteq> unat m" "j \<noteq> unat n" by blast
    then show ?thesis
    proof cases
      case 1
      show ?thesis
      proof (cases "ns = [n]")
        case True
        have childless: "e_parent (entry_at f l) \<noteq> ucast n" if "l < entries_of f" "entry_used (entry_at f l)" for l
          using g True that by (auto simp: growing_file_def Let_def)
        have "\<not> entry_matches name parent (entry_at f j)" using True m 1 by (auto simp: entry_matches_def)
        moreover have "e_parent (entry_at f' j) = ucast n" using c(3) 1 True by (simp add: second_entry_def)
        then have "\<not> entry_matches name parent (entry_at f' j)"
          using childless [OF i(1)] i(2) by (auto simp: entry_matches_def)
        ultimately show ?thesis by simp
      next
        case False
        then have "ns = [n, m]" using m by blast
        then show ?thesis using 1 c names by (intro entry_matches_same_name) (simp_all add: second_entry_def)
      qed
    next
      case 2
      moreover have "n \<in> set ns" using m by auto
      ultimately show ?thesis using e names by (intro entry_matches_same_name) (simp_all add: list_all_iff)
    next
      case 3
      then show ?thesis using others j by simp
    qed
  qed
  then have "lookup_entry s' name parent disk = found_in f' (lookup_entry s name parent disk)"
    unfolding f'_def using ents by (intro lookup_kept [OF mt]) (simp_all add: f_def f'_def)
  then show ?thesis using found by (simp add: found_in_def)
qed

subsection \<open>Writing past the end\<close>

definition growing_at :: "fs_state \<Rightarrow> u8 list \<Rightarrow> u16 \<Rightarrow> u8 list list \<Rightarrow> u16 \<Rightarrow> sfs_entry \<Rightarrow> nat \<Rightarrow> u16 list \<Rightarrow> bool" where
  "growing_at s path disk cs n e k ns \<longleftrightarrow> mounted s disk \<and> denotes s path disk cs \<and> resolve s disk cs = Inr (n, e) \<and>
     e = entry_at (disk_of s disk) (unat n) \<and> growing_file (disk_of s disk) n k ns"

text \<open>All that changes between two contents of a disk: the entries \<open>ns\<close> and the data blocks \<open>bs\<close>.\<close>

definition only_changes :: "u16 set \<Rightarrow> u16 set \<Rightarrow> (u16 \<Rightarrow> u8 list) \<Rightarrow> (u16 \<Rightarrow> u8 list) \<Rightarrow> bool" where
  "only_changes ns bs f f' \<longleftrightarrow> superblock_of f' = superblock_of f \<and> entries_of f' = entries_of f \<and>
     (\<forall>j < entries_of f. of_nat j \<notin> ns \<longrightarrow> entry_at f' j = entry_at f j) \<and>
     (\<forall>x. 2 + entries_of f \<le> unat x \<longrightarrow> x \<notin> bs \<longrightarrow> f' x = f x)"

lemma only_changes_trans:
  "only_changes ns bs f f' \<Longrightarrow> only_changes ns' bs' f' f'' \<Longrightarrow> ns \<subseteq> ns' \<Longrightarrow> bs \<subseteq> bs' \<Longrightarrow> only_changes ns' bs' f f''"
  unfolding only_changes_def by (intro conjI allI impI) (metis subsetD)+

lemma references_growing:
  assumes "e = entry_at f (unat n)" "growing_file f n k ns"
  shows "references_block b e \<longleftrightarrow> b \<in> set (blocks_of e k)"
proof -
  have e: "entry_is e T_FILE" "k \<le> 120" "unat (e_size e) \<le> 512 * k" "(unat (e_size e) + 511) div 512 = k"
      "take k (e_ref e) = map ucast (blocks_of e k)"
    using assms by (simp_all add: growing_file_def laid_out_def Let_def)
  have "unat (ucast (e_size e) :: u16) = unat (e_size e)" using e(2,3) by (simp add: unsigned_ucast_eq take_bit_nat_eq_self)
  moreover then have "e_size e = ucast (ucast (e_size e) :: u16)" by (simp only: word_unat_eq_iff unat_ucast_u16_u32)
  ultimately have "references_block b e \<longleftrightarrow> ucast b \<in> set (take k (e_ref e))"
    using references_take [of "ucast (e_size e)" e b] e by simp
  also have "\<dots> \<longleftrightarrow> b \<in> set (blocks_of e k)"
    unfolding e(5) using ucast_u16_u32_u16 by (metis (mono_tags, lifting) image_iff list.set_map)
  finally show ?thesis .
qed

lemma take_splice_end: "off \<le> length c \<Longrightarrow> take (off + length d) (splice off d c) = take off c @ d"
  by (simp add: splice_def)

lemma blocks_grown:
  fixes sz :: u16
  assumes "length (e_ref e) = 120" "k \<le> 120" "unat sz \<le> 61440"
  shows "blocks_of (grown e m sz k b) (if 512 * k < unat sz then Suc k else k) =
    blocks_of e k @ (if 512 * k < unat sz then [b] else [])"
  using assms by (simp add: blocks_of_def grown_def take_Suc_conv_app_nth)

lemma file_is_used: "entry_is e T_FILE \<Longrightarrow> entry_used e"
proof -
  assume "entry_is e T_FILE"
  moreover have "(e_flags e AND 3) AND 2 = e_flags e AND 2" by (simp add: and.assoc)
  ultimately show ?thesis by (auto simp: entry_is_def entry_used_def)
qed

text \<open>The second entry is a free one or the one there is already.\<close>

lemma second_index:
  fixes n m :: u16
  assumes mt: "mounted s disk"
  defines "f \<equiv> disk_of s disk"
  assumes g: "growing_file f n k ns" and m: "ns = [n] \<and> find_free_entry s disk = Inr m \<or> ns = [n, m]"
  shows "unat m < entries_of f" "m \<noteq> n" "m \<noteq> 0" "ns = [n] \<and> \<not> entry_used (entry_at f (unat m)) \<or> ns = [n, m]"
proof -
  have u: "entry_used (entry_at f 0)" "entry_used (entry_at f (unat n))"
    using g by (auto simp: growing_file_def laid_out_def Let_def intro: file_is_used)
  have fr: "unat m < entries_of f \<and> \<not> entry_used (entry_at f (unat m))" if "find_free_entry s disk = Inr m"
    using find_free_entry_InrD [OF mt that] by (simp add: f_def)
  then have fr2: "m \<noteq> n \<and> m \<noteq> 0" if "find_free_entry s disk = Inr m" using that u by auto
  show "unat m < entries_of f" "m \<noteq> n" "m \<noteq> 0" "ns = [n] \<and> \<not> entry_used (entry_at f (unat m)) \<or> ns = [n, m]"
    using m fr fr2 by (cases rule: growing_cases [OF g]; auto)+
qed

text \<open>Growing, seen from the disk: what has changed, and that the file is laid out at its new size.\<close>

lemma append_grows:
  fixes n m sz :: u16
  assumes mt: "mounted s disk"
  defines "f \<equiv> disk_of s disk"
  assumes g: "growing_file f n k ns" and e: "e = entry_at f (unat n)"
    and sz: "unat (e_size e) < unat sz" "unat sz \<le> 512 * Suc k" "unat sz \<le> 61440"
    and m: "ns = [n] \<and> find_free_entry s disk = Inr m \<or> ns = [n, m]"
    and room: "512 * k < unat sz \<Longrightarrow> free_blocks f \<noteq> {}"
  defines "k' \<equiv> if 512 * k < unat sz then Suc k else k"
  obtains b f2 z where "grow_file disk n e sz s = Some (Inr (grown e m sz k b), set_disk s disk f2)"
    "mounted (set_disk s disk f2) disk" "entry_at f2 (unat n) = grown e m sz k b"
    "entry_at f2 (unat m) = (second_entry f n ns m)\<lparr>e_size := z\<rparr>"
    "entries_of f2 = entries_of f" "superblock_of f2 = superblock_of f"
    "\<forall>j < entries_of f. j \<noteq> unat n \<longrightarrow> j \<noteq> unat m \<longrightarrow> entry_at f2 j = entry_at f j"
    "\<forall>x. 2 + entries_of f \<le> unat x \<longrightarrow> f2 x = f x" "512 * k < unat sz \<longrightarrow> b \<in> free_blocks f"
    "blocks_of (grown e m sz k b) k' = blocks_of e k @ (if 512 * k < unat sz then [b] else [])"
    "laid_out f2 n k' [n, m]"
proof -
  have ok: "device_ok s disk" "sectors_ok f" and lim: "entries_of f \<le> table_limit"
    using mt by (simp_all add: f_def mounted_device mounted_sectors mounted_def)
  have lay: "entry_is e T_FILE" "\<not> entry_is e T_DIR" "k \<le> 120" "unat (e_size e) \<le> 512 * k" "unat n < entries_of f"
      "distinct (blocks_of e k)" "\<And>b. b \<in> set (blocks_of e k) \<Longrightarrow> 2 + entries_of f \<le> unat b" "0 \<in> set (e_name e)"
      "k = (unat (e_size e) + 511) div 512"
    using g e by (auto simp: growing_file_def laid_out_def Let_def list_all_iff)
  note mm = second_index [OF mt g [unfolded f_def] m, folded f_def]
  have lt: "n < ERROR_ANY" "m < ERROR_ANY" "unat n < table_limit" "unat m < table_limit" "unat m \<noteq> unat n"
    using lay(5) mm lim by (simp_all add: word_less_nat_alt word_unat_eq_iff)
  have sh: "entry_shape e" "length (e_ref e) = 120" using ok(2) e entry_at_shape [of f] by (auto simp: entry_shape_def)
  obtain b where b: "512 * k < unat sz \<Longrightarrow> find_free_block s disk = Inr b \<and> b \<in> free_blocks f"
    using find_free_block_some [OF mt] room by (cases "512 * k < unat sz") (auto simp: f_def)
  have b': "512 * k < unat sz \<Longrightarrow> b < ERROR_ANY \<and> 2 + entries_of f \<le> unat b \<and> block_free f b"
    using b free_block_place [OF _ lim, of b] by blast
  have nsm: "ns = [n, m] \<or> ns = [n]" using m by blast
  note c = second_entry_facts [OF g nsm ok(2)]
  let ?E = "grown e m sz k b" and ?C = "(second_entry f n ns m)\<lparr>e_size := ucast (sz - 61440)\<rparr>"
  let ?f2 = "put_entry (put_entry f (unat n) ?E) (unat m) ?C"
  have grow: "grow_file disk n e sz s = Some (Inr ?E, set_disk s disk ?f2)"
    unfolding f_def by (rule grow_file_ok [OF mt g [unfolded f_def] e [unfolded f_def] sz]) (use m b b' in auto)
  have Esh: "entry_shape ?E" "entry_shape ?C" using sh c(3) by (simp_all add: grown_def entry_shape_def)
  have f2: "sectors_ok ?f2" "entry_at ?f2 (unat n) = ?E" "entry_at ?f2 (unat m) = ?C" "entries_of ?f2 = entries_of f"
      "superblock_of ?f2 = superblock_of f"
      "\<And>j. j < entries_of f \<Longrightarrow> j \<noteq> unat n \<Longrightarrow> j \<noteq> unat m \<Longrightarrow> entry_at ?f2 j = entry_at f j"
    using ok Esh lt lim by (simp_all add: entry_at_put)
  have data2: "?f2 x = f x" if "2 + entries_of f \<le> unat x" for x
  proof -
    have "x \<noteq> of_nat (2 + unat n)" "x \<noteq> of_nat (2 + unat m)"
      using that lay(5) mm(1) entry_place(2) [OF lt(1)] entry_place(2) [OF lt(2)] by (auto simp del: of_nat_add)
    then show ?thesis by (simp add: put_entry_def)
  qed
  have m2: "mounted (set_disk s disk ?f2) disk" using mt ok f2 lim by (simp add: mounted_def)
  have bl: "blocks_of ?E k' = blocks_of e k @ (if 512 * k < unat sz then [b] else [])"
    unfolding k'_def using sh(2) lay(3) sz(3) by (rule blocks_grown)
  have fresh: "b \<notin> set (blocks_of e k)" if "512 * k < unat sz"
    using b' [OF that] references_growing [OF e g] lay(5) e by (auto simp: block_free_def)
  have k': "k' \<le> 120" "unat sz \<le> 512 * k'"
    using sz lay(3) by (auto simp: k'_def)
  have Cnm: "0 \<in> set (e_name ?C)"
    using m lay(8) e g by (auto simp: second_entry_def growing_file_def laid_out_def Let_def)
  have lay2: "laid_out ?f2 n k' [n, m]"
  proof -
    have "distinct (blocks_of ?E k')" using bl lay(6) fresh by auto
    moreover have "\<And>x. x \<in> set (blocks_of ?E k') \<Longrightarrow> 2 + entries_of f \<le> unat x" using bl lay(7) b' by (auto split: if_splits)
    moreover have "entry_is ?E T_FILE" "\<not> entry_is ?E T_DIR" "e_size ?E = ucast sz" "e_next ?E = ucast m" "e_name ?E = e_name e"
      using lay(1,2) by (simp_all add: grown_def entry_is_def)
    ultimately show ?thesis
      using f2 k' lay(5,8) mm lt Cnm c(1) by (simp add: laid_out_def Let_def list_all_iff)
  qed
  have "\<forall>j < entries_of f. j \<noteq> unat n \<longrightarrow> j \<noteq> unat m \<longrightarrow> entry_at ?f2 j = entry_at f j"
    "\<forall>x. 2 + entries_of f \<le> unat x \<longrightarrow> ?f2 x = f x" "512 * k < unat sz \<longrightarrow> b \<in> free_blocks f"
    using f2(6) data2 b by blast+
  from that [OF grow m2 f2(2-5) this bl lay2] show thesis .
qed

lemma growing_after:
  fixes n m sz :: u16
  assumes g: "growing_file f n k ns" and e: "e = entry_at f (unat n)" and sh: "length (e_ref e) = 120"
    and sz: "unat (e_size e) < unat sz" "unat sz \<le> 512 * Suc k" "unat sz \<le> 61440"
  defines "k' \<equiv> if 512 * k < unat sz then Suc k else k"
  assumes lay: "laid_out f' n k' [n, m]" and e': "entry_at f' (unat n) = (grown e m sz k b)\<lparr>e_time := t\<rparr>"
    and c: "e_next (entry_at f' (unat m)) = 0" "e_ref (entry_at f' (unat m)) = replicate 120 0" and "entry_used (entry_at f' 0)"
  shows "growing_file f' n k' [n, m]"
proof -
  have old: "k \<le> 120" "k = (unat (e_size e) + 511) div 512" "drop k (e_ref e) = replicate (120 - k) 0"
      "take k (e_ref e) = map ucast (blocks_of e k)"
    using g e by (simp_all add: growing_file_def laid_out_def Let_def)
  let ?E = "grown e m sz k b"
  have "drop k' (e_ref ?E) = replicate (120 - k') 0"
  proof (cases "512 * k < unat sz")
    case True
    have "drop (Suc k) ((e_ref e)[k := ucast b]) = drop (Suc k) (e_ref e)" by (simp del: drop_Suc)
    also have "\<dots> = tl (drop k (e_ref e))" by (simp only: drop_Suc tl_drop)
    finally have "drop (Suc k) ((e_ref e)[k := ucast b]) = tl (drop k (e_ref e))" .
    then show ?thesis using True old(3) by (simp add: k'_def grown_def)
  qed (use old(3) in \<open>simp add: k'_def grown_def\<close>)
  moreover have "take k' (e_ref ?E) = map ucast (blocks_of ?E k')"
    using old(1,4) sz(3) sh unfolding k'_def blocks_grown [OF sh old(1) sz(3)]
    by (auto simp: grown_def take_Suc_conv_app_nth)
  moreover have "(unat sz + 511) div 512 = k'" unfolding k'_def by (rule final_blocks [OF old(2) sz(1,2)])
  moreover have "e_next ?E = ucast m" "e_size ?E = ucast sz" by (simp_all add: grown_def)
  ultimately show ?thesis using assms(8-) by (simp add: growing_file_def Let_def blocks_of_def)
qed

lemma growing_second:
  "growing_file f n k [n, m] \<Longrightarrow> e_next (entry_at f (unat m)) = 0 \<and> e_ref (entry_at f (unat m)) = replicate 120 0"
  by (simp add: growing_file_def Let_def)

lemma free_blocks_grown:
  fixes n m :: u16
  assumes g: "growing_file f n k ns" "growing_file f' n k' [n, m]"
    and same: "superblock_of f' = superblock_of f" "entries_of f' = entries_of f" "entries_of f \<le> table_limit"
    and m: "ns = [n] \<and> \<not> entry_used (entry_at f (unat m)) \<or> ns = [n, m]"
    and others: "\<And>j. j < entries_of f \<Longrightarrow> j \<noteq> unat n \<Longrightarrow> j \<noteq> unat m \<Longrightarrow> entry_at f' j = entry_at f j"
    and bl: "blocks_of (entry_at f' (unat n)) k' = blocks_of (entry_at f (unat n)) k @ new"
  shows "free_blocks f' = free_blocks f - set new"
proof -
  have "block_free f' b \<longleftrightarrow> block_free f b \<and> b \<notin> set new" if b: "b \<noteq> 0" for b
  proof -
    have n: "references_block b (entry_at f' (unat n)) \<longleftrightarrow> references_block b (entry_at f (unat n)) \<or> b \<in> set new"
      using bl by (simp add: references_growing [OF refl g(1)] references_growing [OF refl g(2)])
    have m: "\<not> references_block b (entry_at f (unat m))" "\<not> references_block b (entry_at f' (unat m))"
      using m growing_second g b references_zeros references_unused by blast+
    have "unat n < entries_of f" using g(1) by (auto simp: growing_file_def laid_out_def Let_def)
    moreover have "references_block b (entry_at f' j) \<longleftrightarrow> references_block b (entry_at f j)" if "j < entries_of f" "j \<noteq> unat n" for j
      using m others that by (cases "j = unat m") auto
    ultimately show ?thesis using n unfolding block_free_def same(2) by metis
  qed
  moreover have "b \<noteq> 0" if "first_data_block (superblock_of f) \<le> b" for b
    using that first_data_block_behind [OF same(3)] by (auto simp: word_le_nat_alt)
  ultimately show ?thesis unfolding free_blocks_def same(1) by blast
qed

lemma contents_appended:
  assumes "sectors_ok f" "sectors_ok f'" "entry_shape e" "entry_shape e'" "k \<le> 120" "k' \<le> 120" "unat (e_size e) \<le> 512 * k"
    and size: "unat (e_size e') = off + length d" "off + length d \<le> 512 * k'" "off \<le> unat (e_size e)"
    and bytes: "file_bytes f' (blocks_of e' k') = splice off d (file_bytes f2 (blocks_of e' k'))"
    and bl: "blocks_of e' k' = blocks_of e k @ new" and same: "\<And>x. x \<in> set (blocks_of e k) \<Longrightarrow> f2 x = f x" and "sectors_ok f2"
  shows "contents f' e' = take off (contents f e) @ d"
proof -
  have len: "length (blocks_of e' k') = k'" "length (blocks_of e k) = k"
    using assms(3-6) by (simp_all add: blocks_of_def entry_shape_def)
  have "contents f' e' = take (off + length d) (splice off d (file_bytes f2 (blocks_of e' k')))"
    using contents_blocks [OF assms(2) _ assms(6,4)] size bytes by simp
  also have "\<dots> = take off (file_bytes f2 (blocks_of e' k')) @ d"
    using size(2) len assms(14) by (intro take_splice_end) simp
  also have "file_bytes f2 (blocks_of e' k') = file_bytes f (blocks_of e k) @ file_bytes f2 new"
    using same unfolding bl file_bytes_def by (simp cong: map_cong)
  also have "take off (file_bytes f (blocks_of e k) @ file_bytes f2 new) = take off (file_bytes f (blocks_of e k))"
    using size(3) assms(1,7) len(2) by simp
  also have "\<dots> = take off (contents f e)"
    using contents_blocks [OF assms(1,7,5,3)] size(3) by (simp add: min_def)
  finally show ?thesis .
qed

lemma append_ok:
  fixes n m offset count flags :: u16
  assumes at: "growing_at s path disk cs n e k ns"
  defines "f \<equiv> disk_of s disk"
  assumes fit: "unat offset \<le> unat (e_size e)" "unat (e_size e) < unat offset + unat count"
      "unat offset + unat count \<le> 512 * Suc k" "unat offset + unat count \<le> 61440" "unat count \<le> length buff"
    and m: "ns = [n] \<and> find_free_entry s disk = Inr m \<or> ns = [n, m]"
    and room: "512 * k < unat offset + unat count \<Longrightarrow> free_blocks f \<noteq> {}"
  defines "k' \<equiv> if 512 * k < unat offset + unat count then Suc k else k"
  shows "\<exists>s' e' new. fs_write_file buff path offset count flags s = Some (Inr (count, path), s') \<and>
    growing_at s' path disk cs n e' k' [n, m] \<and>
    contents (disk_of s' disk) e' = take (unat offset) (contents f e) @ take (unat count) buff \<and>
    unat (e_size e') = unat offset + unat count \<and>
    blocks_of e' k' = blocks_of e k @ new \<and> length new = k' - k \<and> set new \<subseteq> free_blocks f \<and>
    free_blocks (disk_of s' disk) = free_blocks f - set new \<and>
    only_changes {n, m} (set (blocks_of e' k')) f (disk_of s' disk) \<and>
    disk_info s' = disk_info s \<and> hw s' = hw s \<and> system_disk s' = system_disk s"
proof -
  let ?sz = "offset + count"
  have mt: "mounted s disk" and path: "denotes s path disk cs" "resolve s disk cs = Inr (n, e)"
    and e: "e = entry_at f (unat n)" and g: "growing_file f n k ns"
    using at by (simp_all add: growing_at_def f_def)
  have lim: "entries_of f \<le> table_limit" and sec: "sectors_ok f"
    using mt by (simp_all add: f_def mounted_def device_ok_sectors)
  have usz: "unat ?sz = unat offset + unat count" using fit(4) by (intro unat_plus_u16) simp
  have sz: "unat (e_size e) < unat ?sz" "unat ?sz \<le> 512 * Suc k" "unat ?sz \<le> 61440" using fit usz by simp_all
  have k'_sz: "k' = (if 512 * k < unat ?sz then Suc k else k)" by (simp add: k'_def usz)
  have room': "512 * k < unat ?sz \<Longrightarrow> free_blocks (disk_of s disk) \<noteq> {}" using room usz f_def by simp
  obtain b f2 z where g2: "grow_file disk n e ?sz s = Some (Inr (grown e m ?sz k b), set_disk s disk f2)"
    "mounted (set_disk s disk f2) disk" "entry_at f2 (unat n) = grown e m ?sz k b"
    "entry_at f2 (unat m) = (second_entry f n ns m)\<lparr>e_size := z\<rparr>"
    "entries_of f2 = entries_of f" "superblock_of f2 = superblock_of f"
    "\<forall>j < entries_of f. j \<noteq> unat n \<longrightarrow> j \<noteq> unat m \<longrightarrow> entry_at f2 j = entry_at f j"
    "\<forall>x. 2 + entries_of f \<le> unat x \<longrightarrow> f2 x = f x" "512 * k < unat ?sz \<longrightarrow> b \<in> free_blocks f"
    "blocks_of (grown e m ?sz k b) k' = blocks_of e k @ (if 512 * k < unat ?sz then [b] else [])"
    "laid_out f2 n k' [n, m]"
    by (rule append_grows [OF mt g [unfolded f_def] e [unfolded f_def] sz m room', folded f_def k'_sz], assumption) (rule that; assumption)
  define E new where "E = grown e m ?sz k b" and "new = (if 512 * k < unat ?sz then [b] else [])"
  note g2 = g2 [folded E_def new_def]
  let ?s2 = "set_disk s disk f2"
  have Esz: "unat (e_size E) = unat ?sz" by (simp add: E_def grown_def)
  obtain s' t where s': "store_data disk n E offset count buff path ?s2 = Some (Inr (count, path), s')" "mounted s' disk"
      "disk_info s' = disk_info s" "hw s' = hw s" "system_disk s' = system_disk s" "same_names f2 (disk_of s' disk)"
      "file_bytes (disk_of s' disk) (blocks_of E k') = splice (unat offset) (take (unat count) buff) (file_bytes f2 (blocks_of E k'))"
      "entry_at (disk_of s' disk) (unat n) = E\<lparr>e_time := t\<rparr>" "laid_out (disk_of s' disk) n k' [n, m]"
      "\<forall>j < entries_of f. \<exists>t. entry_at (disk_of s' disk) j = (entry_at f2 j)\<lparr>e_time := t\<rparr>"
      "\<forall>j < entries_of f. of_nat j \<notin> {n, m} \<longrightarrow> entry_at (disk_of s' disk) j = entry_at f2 j"
      "superblock_of (disk_of s' disk) = superblock_of f"
      "\<forall>x. x \<notin> set (blocks_of E k') \<longrightarrow> 2 + entries_of f \<le> unat x \<longrightarrow> disk_of s' disk x = f2 x"
    using store_data_ok [OF g2(2), of E n k' "[n, m]" offset count buff path] g2(3,5,6,11) fit(5) usz Esz by auto
  define f' where "f' = disk_of s' disk"
  note s'f = s' [folded f'_def]
  note mm = second_index [OF mt g [unfolded f_def] m, folded f_def]
  have ents: "entries_of f' = entries_of f" using s'f(6) g2(5) by (simp add: same_names_def)
  have other: "entry_at f' j = entry_at f j" if "j < entries_of f" "of_nat j \<notin> {n, m}" for j
  proof -
    have "unat (of_nat j :: u16) = j" using that(1) lim by (intro unat_of_nat_u16) simp
    then have "j \<noteq> unat n" "j \<noteq> unat m" using that(2) by auto
    then show ?thesis using s'f(11) g2(7) that by simp
  qed
  have other': "entry_at f' j = entry_at f j" if "j < entries_of f" "j \<noteq> unat n" "j \<noteq> unat m" for j
  proof -
    have "unat (of_nat j :: u16) = j" using that(1) lim by (intro unat_of_nat_u16) simp
    then have "of_nat j \<notin> {n, m}" using that(2,3) by (metis insertE singletonD)
    then show ?thesis using other that(1) by blast
  qed
  note c = second_entry_facts [OF g _ sec, of m]
  have nsm: "ns = [n, m] \<or> ns = [n]" using m by blast
  obtain t' where cm: "entry_at f' (unat m) = (second_entry f n ns m)\<lparr>e_size := z, e_time := t'\<rparr>"
    using s'f(10) g2(4) mm(1) by auto
  have sh: "entry_shape e" "entry_shape E" "length (e_ref e) = 120"
    using sec e entry_at_shape [of f] by (auto simp: entry_shape_def E_def grown_def)
  have old: "entry_used (entry_at f 0)" "k \<le> 120" "unat (e_size e) \<le> 512 * k" "\<not> entry_is e T_DIR"
      "unat n < entries_of f" "0 \<in> set (e_name e)"
    using g e by (auto simp: growing_file_def laid_out_def Let_def)
  have used0: "entry_used (entry_at f' 0)"
  proof -
    obtain t0 where t0: "entry_at f' 0 = (entry_at f2 0)\<lparr>e_time := t0\<rparr>" using s'f(10) old(5) by force
    have "unat m \<noteq> 0" using mm(3) by (simp add: unat_eq_0)
    then have "e_flags (entry_at f2 0) = e_flags (entry_at f 0)"
      using g2(3,7) old(5) e by (cases "unat n = 0") (auto simp: E_def grown_def)
    then show ?thesis using t0 old(1) by (simp add: entry_used_def)
  qed
  let ?e' = "E\<lparr>e_time := t\<rparr>"
  have g': "growing_file f' n k' [n, m]"
    unfolding k'_sz
    by (rule growing_after [OF g e sh(3) sz, where f' = f' and m = m and b = b and t = t])
      (use s'f(8,9) cm c [OF nsm] used0 in \<open>simp_all add: k'_sz [symmetric] E_def\<close>)
  have res: "resolve s' disk cs = Inr (n, ?e')"
  proof -
    have keep: "lookup_entry s' name parent disk = Inr (i, entry_at f' (unat i))"
      if "lookup_entry s name parent disk = Inr (i, x)" for name parent i x
    proof (rule grown_names [OF mt s'(2) _ g [unfolded f_def] _ _ _ _ _ _ _ _ that, where m = m, folded f_def f'_def])
    qed (use ents mm s'f(8) e cm other' in \<open>simp_all add: E_def grown_def\<close>)
    show ?thesis using resolve_kept [OF keep [unfolded f'_def] path(2)] s'(8) by simp
  qed
  have bl: "blocks_of ?e' k' = blocks_of e k @ new" using g2(10) by (simp add: blocks_of_def)
  have k': "k' \<le> 120" "unat ?sz \<le> 512 * k'" using sz(2,3) old(2) by (auto simp: k'_sz)
  have cont: "contents f' ?e' = take (unat offset) (contents f e) @ take (unat count) buff"
  proof (rule contents_appended [OF sec _ sh(1) _ old(2) k'(1) old(3) _ _ fit(1) _ bl])
    show "sectors_ok f'" "sectors_ok f2" using s'(2) g2(2) by (simp_all add: mounted_sectors f'_def) (metis mounted_sectors set_disk_simps(1))
    show "file_bytes f' (blocks_of ?e' k') = splice (unat offset) (take (unat count) buff) (file_bytes f2 (blocks_of ?e' k'))"
      using s'f(7) by (simp add: blocks_of_def)
    have "2 + entries_of f \<le> unat x" if "x \<in> set (blocks_of e k)" for x
      using g e that by (simp add: growing_file_def laid_out_def Let_def list_all_iff)
    then show "f2 x = f x" if "x \<in> set (blocks_of e k)" for x using g2(8) that by blast
  qed (use sh Esz usz fit(5) k'(2) in simp_all)
  have free: "free_blocks f' = free_blocks f - set new"
  proof (rule free_blocks_grown [OF g g' s'f(12) ents lim mm(4)])
  qed (use bl s'f(8) e other' in simp_all)
  have run: "fs_write_file buff path offset count flags s = Some (Inr (count, path), s')"
  proof -
    have "\<not> e_size E > ucast ?sz" by (simp add: E_def grown_def)
    then show ?thesis
      using denotes_get [OF path(1)] path(2) old(4) g2(1) s'(1)
      by (simp add: fs_write_file_def store_data_def bindE_def ret_def shrink_file_def del: UNKNOWN_VALUE_def T_DIR_def WF_TRUNCATE_def)
  qed
  have "growing_at s' path disk cs n ?e' k' [n, m]"
    using s'(2-5,8) path(1) res g' denotes_cong [of s' s] by (simp add: growing_at_def f'_def)
  moreover have "only_changes {n, m} (set (blocks_of ?e' k')) f f'"
    using ents s'f(12,13) other g2(8) by (simp add: only_changes_def blocks_of_def)
  moreover have "set new \<subseteq> free_blocks f" "length new = k' - k" using g2(9) by (auto simp: new_def k'_sz)
  ultimately show ?thesis
    using run cont Esz usz bl free s'(3-5) by (intro exI [of _ s'] exI [of _ ?e'] exI [of _ new]) (simp add: f'_def)
qed

end
