(* ===== verification/File_Saving.thy ===== *)
theory File_Saving
  imports Fs_Growth File_Samples
begin

section \<open>Saving a new file\<close>

text \<open>
  Creating a file and filling it: the file system creates the entry on the first write, and every later write of the
  kernel's loop appends to it. A program that saves its data under a new name with \<open>write_file\<close> finds it there.
\<close>

subsection \<open>Creating the entry\<close>

lemma denotes_parse:
  assumes "denotes s path disk cs" "walk_dirs s disk 0 (butlast cs) = Inr p"
  shows "\<exists>off. path_parse_disk_parent_name s path = Inr (off, p, disk) \<and> drop off path = last cs \<and>
    take off path @ last cs = path"
proof -
  have c: "cs \<noteq> []" "list_all component cs" "disk_names_ok s" "length path \<le> 63"
    using assms(1) by (simp_all add: denotes_def)
  have split: "\<exists>off. path_parse_disk_parent_name s path = Inr (off, p, disk) \<and> drop off path = last cs \<and>
    take off path @ last cs = path" if "path_parse_disk_parent_name s path = Inr (off, p, disk)" "drop off path = last cs" for off
    using that by (metis append_take_drop_id)
  from assms(1) consider "path = join cs" "\<not> string_is_disk s (hd cs)" "disk = ucast (system_disk s)"
    | d where "path = join (d # cs)" "string_is_disk s d" "disk = string_to_disk s d" "disk \<noteq> UNKNOWN_VALUE"
    by (auto simp: denotes_def)
  then show ?thesis
  proof cases
    case 1
    then show ?thesis using parse_relative [OF c(1,2)] c(4) assms(2) last_dropped [OF c(1), of "[]"] by (intro split) simp_all
  next
    case (2 d)
    then show ?thesis
      using parse_absolute [OF c(1-3), of d] c(4) assms(2) last_dropped [OF c(1), of "d @ [PATH_SEPARATOR]"]
      by (intro split [of "length (d @ [PATH_SEPARATOR]) + length (join cs) - length (last cs)"]) (simp_all add: join_Cons [OF c(1)])
  qed
qed

text \<open>
  A place for a new file: the directory \<open>p\<close> has room and nothing of the name, \<open>n\<close> is the first free entry and no entry in
  use names it as its parent, and there is another free entry.
\<close>

definition place_for :: "fs_state \<Rightarrow> u8 list \<Rightarrow> u16 \<Rightarrow> u8 list list \<Rightarrow> u16 \<Rightarrow> u16 \<Rightarrow> bool" where
  "place_for s path disk cs p n \<longleftrightarrow> mounted s disk \<and> denotes s path disk cs \<and> string_to_name (last cs) = last cs \<and>
     walk_dirs s disk 0 (butlast cs) = Inr p \<and> find_free_entry s disk = Inr n \<and>
     (let f = disk_of s disk
      in (\<forall>k < entries_of f. \<not> entry_matches (last cs) p (entry_at f k)) \<and>
         unat p < entries_of f \<and> open_dir (entry_at f (unat p)) \<and> entry_used (entry_at f 0) \<and>
         (\<forall>j < entries_of f. entry_used (entry_at f j) \<longrightarrow> e_parent (entry_at f j) \<noteq> ucast n) \<and>
         (\<exists>j < entries_of f. j \<noteq> unat n \<and> \<not> entry_used (entry_at f j)))"

lemma create_file_ok:
  assumes place: "place_for s path disk cs p n"
  defines "f \<equiv> disk_of s disk"
  defines "e \<equiv> new_entry T_FILE (last cs) p"
  defines "s1 \<equiv> set_disk s disk (put_entry (put_entry f (unat n) e) (unat p) (add_child (entry_at f (unat p)) n))"
  shows "create_file path s = Some (Inr (disk, n, e, path), s1)" "mounted s1 disk" "leads_to s path (last cs) p disk"
    "unat n < entries_of f" "unat n \<noteq> unat p" "\<not> entry_used (entry_at f (unat n))"
proof -
  have m: "mounted s disk" and den: "denotes s path disk cs" and name: "string_to_name (last cs) = last cs"
    and walk: "walk_dirs s disk 0 (butlast cs) = Inr p" and free: "find_free_entry s disk = Inr n"
    and dir: "unat p < entries_of f" "open_dir (entry_at f (unat p))"
    using place by (simp_all add: place_for_def Let_def f_def)
  obtain off where off: "path_parse_disk_parent_name s path = Inr (off, p, disk)" "drop off path = last cs"
      "take off path @ last cs = path"
    using denotes_parse [OF den walk] by blast
  have ok: "device_ok s disk" "sectors_ok f" and lim: "entries_of f \<le> table_limit"
    using m by (simp_all add: f_def mounted_device mounted_sectors mounted_def)
  show n: "unat n < entries_of f" "\<not> entry_used (entry_at f (unat n))"
    using find_free_entry_InrD [OF m free] by (simp_all add: f_def)
  then show unp: "unat n \<noteq> unat p" using dir(2) by (auto simp: open_dir_def dest: entry_is_used)
  have lt: "n < ERROR_ANY" "p < ERROR_ANY" "unat n < table_limit" "unat p < table_limit"
    using n dir lim by (simp_all add: word_less_nat_alt)
  have es: "entry_shape e" by (simp add: e_def)
  have cs: "entry_shape (add_child (entry_at f (unat p)) n)" using ok by (simp add: add_child_def entry_at_shape)
  have m1: "mounted (set_disk s disk (put_entry f (unat n) e)) disk"
    using mounted_put_entry [OF m es lt(3)] by (simp add: f_def)
  show "mounted s1 disk" using mounted_put_entry [OF m1 cs lt(4)] by (simp add: s1_def)
  have d: "entry_at (put_entry f (unat n) e) (unat p) = entry_at f (unat p)"
    using ok lt unp es by (simp add: entry_at_put)
  have add: "add_ref_in_entry disk p n (set_disk s disk (put_entry f (unat n) e)) = Some (Inr (), s1)"
    using add_ref_single [OF m1 lt(2), of "entry_at f (unat p)" n] d dir(2)
    by (simp add: open_dir_def add_child_def s1_def)
  have wr: "write_entry e disk n s = Some (Inr (), set_disk s disk (put_entry f (unat n) e))"
    using ok lt es by (simp add: write_entry_ok f_def)
  show "create_file path s = Some (Inr (disk, n, e, path), s1)"
    unfolding create_file_def Let_def bindE_def reads_def ret_def
    using off name free wr [unfolded e_def] add [unfolded e_def] by (simp add: e_def)
  have "disk \<noteq> UNKNOWN_VALUE" using den system_disk_known [of s] by (auto simp: denotes_def simp del: UNKNOWN_VALUE_def)
  then show "leads_to s path (last cs) p disk"
    using off name lt(2) by (auto simp: leads_to_def simp del: UNKNOWN_VALUE_def)
qed

lemma new_entry_facts [simp]:
  "e_size (new_entry fl name p) = 0" "e_next (new_entry fl name p) = 0" "e_flags (new_entry fl name p) = fl"
  "e_parent (new_entry fl name p) = ucast p" "e_ref (new_entry fl name p) = replicate 120 0"
  by (simp_all add: new_entry_def zero_entry_def)

lemma created_ok:
  assumes place: "place_for s path disk cs p n"
  defines "f \<equiv> disk_of s disk"
  defines "e \<equiv> new_entry T_FILE (last cs) p"
  defines "s1 \<equiv> set_disk s disk (put_entry (put_entry f (unat n) e) (unat p) (add_child (entry_at f (unat p)) n))"
  shows "growing_at s1 path disk cs n e 0 [n]"
    "flags AND WF_CREATE \<noteq> 0 \<Longrightarrow> fs_write_file buff path offset count flags s = fs_write_file buff path offset count flags s1"
    "\<And>j. j < entries_of f \<Longrightarrow> j \<noteq> unat n \<Longrightarrow> j \<noteq> unat p \<Longrightarrow> entry_at (disk_of s1 disk) j = entry_at f j"
    "entry_at (disk_of s1 disk) (unat p) = add_child (entry_at f (unat p)) n"
proof -
  note cf = create_file_ok [OF place, folded f_def e_def, folded s1_def]
  have m: "mounted s disk" and den: "denotes s path disk cs" and walk: "walk_dirs s disk 0 (butlast cs) = Inr p"
    and dir: "unat p < entries_of f" "open_dir (entry_at f (unat p))"
    and absent: "\<forall>k < entries_of f. \<not> entry_matches (last cs) p (entry_at f k)"
    and used0: "entry_used (entry_at f 0)"
    and childless: "\<And>j. j < entries_of f \<Longrightarrow> entry_used (entry_at f j) \<Longrightarrow> e_parent (entry_at f j) \<noteq> ucast n"
    using place by (simp_all add: place_for_def Let_def f_def)
  have lim: "entries_of f \<le> table_limit" using m by (simp add: mounted_def f_def)
  have es: "entry_shape e" "entry_matches (last cs) p e" "\<not> entry_is e T_DIR" "entry_is e T_FILE" "0 \<in> set (e_name e)"
    using name_ok [OF cf(3)] new_entry_matches [of T_FILE "last cs" p] new_entry_terminated
    by (simp_all add: e_def entry_is_def)
  have f1: "disk_of s1 disk = put_entry (put_entry f (unat n) e) (unat p) (add_child (entry_at f (unat p)) n)"
    by (simp add: s1_def)
  note found = linked_found [OF m cf(2), folded f_def, OF f1 absent cf(4,5) dir es(1,2)]
  show "\<And>j. j < entries_of f \<Longrightarrow> j \<noteq> unat n \<Longrightarrow> j \<noteq> unat p \<Longrightarrow> entry_at (disk_of s1 disk) j = entry_at f j"
    "entry_at (disk_of s1 disk) (unat p) = add_child (entry_at f (unat p)) n" using found(3,4) by simp_all
  have ents: "entries_of (disk_of s1 disk) = entries_of f" using f1 cf(4) dir(1) lim by simp
  have none: "lookup_entry s (last cs) p disk = Inl ERROR_NOT_FOUND"
    using lookup_entry_first [OF m, of "last cs" p 0 e ERROR_NOT_FOUND] absent by (simp add: f_def)
  have keep: "lookup_entry s1 name parent disk = Inr (i, entry_at (disk_of s1 disk) (unat i))"
    if l: "lookup_entry s name parent disk = Inr (i, x)" for name parent i x
  proof -
    have other: "name \<noteq> last cs \<or> parent \<noteq> p" using l none by auto
    have "entry_matches name parent (entry_at (disk_of s1 disk) j) = entry_matches name parent (entry_at f j)"
      if j: "j < entries_of f" for j
    proof -
      consider "j = unat n" | "j = unat p" | "j \<noteq> unat n" "j \<noteq> unat p" by blast
      then show ?thesis
      proof cases
        case 1
        have "parent = p" if "entry_matches name parent e"
          using that es(2) ucast_u16_u32_u16 by (metis entry_matches_def)
        then have "\<not> entry_matches name parent e" using other es(2) by (auto simp: entry_matches_def)
        then show ?thesis using 1 found(2) cf(6) by (simp add: entry_matches_def [of _ _ "entry_at f (unat n)"])
      next
        case 2
        then show ?thesis using found(3) dir(2)
          by (simp only:) (intro entry_matches_same_name; simp add: open_dir_def add_child_def)
      next
        case 3
        then show ?thesis using found(4) j by simp
      qed
    qed
    then have "lookup_entry s1 name parent disk = found_in (disk_of s1 disk) (lookup_entry s name parent disk)"
      using ents by (intro lookup_kept [OF m cf(2)]) (simp_all add: f_def)
    then show ?thesis using l by (simp add: found_in_def)
  qed
  have res: "resolve s1 disk cs = Inr (n, e)"
    using walk_kept [OF keep walk] found(1) by (simp add: resolve_def)
  have den1: "denotes s1 path disk cs" using den denotes_cong [of s1 s] by (simp add: s1_def)
  have g: "growing_file (disk_of s1 disk) n 0 [n]"
  proof -
    have n0: "unat n \<noteq> 0" using cf(6) used0 by metis
    have "e_flags (entry_at (disk_of s1 disk) 0) = e_flags (entry_at f 0)"
    proof (cases "unat p = 0")
      case True
      then show ?thesis using found(3) by (simp only:) (simp add: add_child_def)
    next
      case False
      then show ?thesis using found(4) [of 0] n0 cf(4) by (metis gr_zeroI less_nat_zero_code)
    qed
    then have u: "entry_used (entry_at (disk_of s1 disk) 0)" using used0 by (simp add: entry_used_def)
    have "e_parent (entry_at (disk_of s1 disk) j) \<noteq> ucast n" if "j < entries_of f" "entry_used (entry_at (disk_of s1 disk) j)" for j
    proof -
      have np: "(ucast p :: u32) \<noteq> ucast n" using cf(5) by (metis unat_ucast_u16_u32)
      consider "j = unat n" | "j = unat p" | "j \<noteq> unat n" "j \<noteq> unat p" by blast
      then show ?thesis
      proof cases
        case 1
        then show ?thesis using found(2) np by (simp add: e_def)
      next
        case 2
        then show ?thesis using found(3) childless [of "unat p"] dir entry_is_used
          by (simp add: add_child_def open_dir_def)
      next
        case 3
        then show ?thesis using found(4) childless that by simp
      qed
    qed
    then show ?thesis using found(2) es u ents cf(4) lim
      by (simp add: growing_file_def laid_out_def Let_def blocks_of_def word_less_nat_alt) (simp add: e_def)
  qed
  show "growing_at s1 path disk cs n e 0 [n]"
    using cf(2) den1 res found(2) g by (simp add: growing_at_def)
  show "fs_write_file buff path offset count flags s = fs_write_file buff path offset count flags s1"
    if "flags AND WF_CREATE \<noteq> 0"
    using that denotes_get [OF den] denotes_get [OF den1] res none walk cf(1) es(3)
    by (simp add: fs_write_file_def resolve_def bindE_def ret_def del: UNKNOWN_VALUE_def T_DIR_def WF_CREATE_def ERROR_NOT_FOUND_def)
qed

lemma created_free:
  assumes place: "place_for s path disk cs p n"
  defines "f \<equiv> disk_of s disk"
  defines "s1 \<equiv> set_disk s disk (put_entry (put_entry f (unat n) (new_entry T_FILE (last cs) p)) (unat p) (add_child (entry_at f (unat p)) n))"
  shows "free_blocks (disk_of s1 disk) = free_blocks f" "entries_of (disk_of s1 disk) = entries_of f"
    "2 + entries_of f \<le> unat x \<Longrightarrow> disk_of s1 disk x = f x"
    "\<exists>m. find_free_entry s1 disk = Inr m \<and> \<not> entry_used (entry_at f (unat m))"
proof -
  note cf = create_file_ok [OF place, folded f_def, folded s1_def]
  note cr = created_ok [OF place, folded f_def, folded s1_def]
  have m: "mounted s disk" and dir: "unat p < entries_of f" "open_dir (entry_at f (unat p))"
    and spare: "\<exists>j < entries_of f. j \<noteq> unat n \<and> \<not> entry_used (entry_at f j)"
    using place by (simp_all add: place_for_def Let_def f_def)
  have lim: "entries_of f \<le> table_limit" using m by (simp add: mounted_def f_def)
  have lt: "n < ERROR_ANY" "p < ERROR_ANY" using cf(4) dir(1) lim by (simp_all add: word_less_nat_alt)
  show ents: "entries_of (disk_of s1 disk) = entries_of f" using cf(4) dir(1) lim by (simp add: s1_def)
  have sb: "superblock_of (disk_of s1 disk) = superblock_of f" using cf(4) dir(1) lim by (simp add: s1_def)
  show "2 + entries_of f \<le> unat x \<Longrightarrow> disk_of s1 disk x = f x"
    using cf(4) dir(1) entry_place(2) [OF lt(1)] entry_place(2) [OF lt(2)] by (auto simp: s1_def put_entry_def simp del: of_nat_add)
  have en: "entry_at (disk_of s1 disk) (unat n) = new_entry T_FILE (last cs) p" "growing_file (disk_of s1 disk) n 0 [n]"
    using cr(1) by (simp_all add: growing_at_def)
  have "references_block b (entry_at (disk_of s1 disk) j) = references_block b (entry_at f j)" if j: "j < entries_of f" for b j
  proof -
    consider "j = unat n" | "j = unat p" | "j \<noteq> unat n" "j \<noteq> unat p" by blast
    then show ?thesis
    proof cases
      case 1
      then show ?thesis
        using references_growing [OF refl en(2), of b] references_unused [OF cf(6), of b] by (simp add: blocks_of_def)
    next
      case 2
      then show ?thesis using cr(4) dir(2) by (simp add: references_block_def open_dir_def add_child_def entry_is_def)
    next
      case 3
      then show ?thesis using cr(3) j by simp
    qed
  qed
  then show "free_blocks (disk_of s1 disk) = free_blocks f" by (simp add: free_blocks_def block_free_def sb ents)
  have pu: "entry_used (entry_at f (unat p))" using dir(2) by (auto simp: open_dir_def intro: entry_is_used)
  obtain j where j: "j < entries_of f" "j \<noteq> unat n" "\<not> entry_used (entry_at f j)" using spare by blast
  have free1: "\<not> entry_used (entry_at (disk_of s1 disk) j)" using j cr(3) pu by metis
  have "find_free_entry s1 disk \<noteq> Inl c" for c
    using find_free_entry_first [OF cf(2), of 0 c] free1 j(1) ents by auto
  then obtain m' where m': "find_free_entry s1 disk = Inr m'" by (cases "find_free_entry s1 disk") auto
  then have m1: "unat m' < entries_of f" "\<not> entry_used (entry_at (disk_of s1 disk) (unat m'))"
    using find_free_entry_InrD [OF cf(2) m'] ents by simp_all
  have "unat m' \<noteq> unat n" "unat m' \<noteq> unat p"
    using m1(2) en(1) cr(4) pu by (auto simp: entry_used_def add_child_def)
  then show "\<exists>m. find_free_entry s1 disk = Inr m \<and> \<not> entry_used (entry_at f (unat m))"
    using m' m1 cr(3) by metis
qed

subsection \<open>The loop over blocks\<close>

lemma growing_at_size:
  assumes "growing_at s path disk cs n e k ns"
  shows "k \<le> 120" "unat (e_size e) \<le> 512 * k" "length (contents (disk_of s disk) e) = unat (e_size e)" "k = (unat (e_size e) + 511) div 512"
    "file_at s path disk cs n e k ns"
proof -
  show f: "file_at s path disk cs n e k ns" using assms by (simp add: growing_at_def file_at_def growing_file_def Let_def)
  show "k \<le> 120" "unat (e_size e) \<le> 512 * k" "length (contents (disk_of s disk) e) = unat (e_size e)"
    using file_at_facts [OF f] by simp_all
  show "k = (unat (e_size e) + 511) div 512" using assms by (simp add: growing_at_def growing_file_def Let_def)
qed

lemma first_block:
  fixes count offset :: u16
  assumes "offset < count"
  shows "0 < unat (min16 BLOCK_SIZE (count - offset))" "unat (min16 BLOCK_SIZE (count - offset)) \<le> 512"
    "unat offset + unat (min16 BLOCK_SIZE (count - offset)) \<le> unat count"
proof -
  have "unat (count - offset) = unat count - unat offset"
    using assms by (simp add: unat_sub word_less_nat_alt word_le_nat_alt)
  then show "0 < unat (min16 BLOCK_SIZE (count - offset))" "unat (min16 BLOCK_SIZE (count - offset)) \<le> 512"
    "unat offset + unat (min16 BLOCK_SIZE (count - offset)) \<le> unat count"
    using assms by (auto simp: unat_min16 word_less_nat_alt)
qed

lemma write_blocks_append:
  fixes fi :: syscall_fsrwfile and m :: u16
  assumes total: "unat (rw_offset fi) + unat (rw_count fi) \<le> 61440"
  shows "growing_at (kfs s) path disk cs n e k ns \<Longrightarrow> unat (rw_offset fi) + unat offset = unat (e_size e) \<Longrightarrow>
    unat offset < unat (rw_count fi) \<Longrightarrow> ns = [n] \<and> find_free_entry (kfs s) disk = Inr m \<or> ns = [n, m] \<Longrightarrow>
    (unat (rw_offset fi) + unat (rw_count fi) + 511) div 512 \<le> k + card (free_blocks (disk_of (kfs s) disk)) \<Longrightarrow>
    \<exists>f' e' k'. write_blocks fi path offset s = Some (rw_count fi, s\<lparr>kfs := f'\<rparr>) \<and>
      growing_at f' path disk cs n e' k' [n, m] \<and>
      contents (disk_of f' disk) e' = contents (disk_of (kfs s) disk) e @
        fget (far s) (rw_buff fi + ucast offset) (unat (rw_count fi) - unat offset) \<and>
      set (blocks_of e k) \<subseteq> set (blocks_of e' k') \<and>
      set (blocks_of e' k') \<subseteq> set (blocks_of e k) \<union> free_blocks (disk_of (kfs s) disk) \<and>
      only_changes {n, m} (set (blocks_of e' k')) (disk_of (kfs s) disk) (disk_of f' disk)"
proof (induction "unat (rw_count fi) - unat offset" arbitrary: offset s e k ns rule: less_induct)
  case less
  let ?f = "disk_of (kfs s) disk"
  note gs = growing_at_size [OF less.prems(1)]
  have lt: "offset < rw_count fi" using less.prems(3) by (simp add: word_less_nat_alt)
  define c where "c = min16 BLOCK_SIZE (rw_count fi - offset)"
  define b where "b = fget (far s) (rw_buff fi + ucast offset) (unat c)"
  note c = first_block [OF lt, folded c_def]
  have oc: "unat (rw_offset fi + offset) = unat (e_size e)"
    using less.prems(2,3) total by (subst unat_plus_u16) simp_all
  have on: "unat (offset + c) = unat offset + unat c"
    using c(3) unat_u16_lt [of "rw_count fi"] by (intro unat_plus_u16) simp
  have upto: "unat (e_size e) + unat c \<le> unat (rw_offset fi) + unat (rw_count fi)" using less.prems(2) c(3) by linarith
  have room: "free_blocks ?f \<noteq> {}" if "512 * k < unat (rw_offset fi + offset) + unat c"
  proof -
    have "512 * k < unat (rw_offset fi) + unat (rw_count fi)" using that oc upto by linarith
    then have "Suc k \<le> (unat (rw_offset fi) + unat (rw_count fi) + 511) div 512" by (simp add: less_eq_div_iff_mult_less_eq)
    then show ?thesis using less.prems(5) by auto
  qed
  define k1 where "k1 = (if 512 * k < unat (rw_offset fi + offset) + unat c then Suc k else k)"
  obtain f1 e1 new where a: "fs_write_file b path (rw_offset fi + offset) c (rw_flags fi) (kfs s) = Some (Inr (c, path), f1)"
      "growing_at f1 path disk cs n e1 k1 [n, m]" "contents (disk_of f1 disk) e1 = take (unat (rw_offset fi + offset)) (contents ?f e) @ take (unat c) b"
      "unat (e_size e1) = unat (rw_offset fi + offset) + unat c" "blocks_of e1 k1 = blocks_of e k @ new" "length new = k1 - k"
      "set new \<subseteq> free_blocks ?f" "free_blocks (disk_of f1 disk) = free_blocks ?f - set new"
      "only_changes {n, m} (set (blocks_of e1 k1)) ?f (disk_of f1 disk)"
    using append_ok [OF less.prems(1), of "rw_offset fi + offset" c b m "rw_flags fi"] oc c gs(2) upto total less.prems(4) room
    by (auto simp: b_def k1_def)
  have cont1: "contents (disk_of f1 disk) e1 = contents ?f e @ b" using a(3) oc gs(3) by (simp add: b_def)
  have step: "write_blocks fi path offset s = write_blocks fi path (offset + c) (s\<lparr>kfs := f1\<rparr>)"
  proof -
    have "\<not> ERROR_ANY \<le> c" using c(2) by (simp add: word_le_nat_alt)
    then show ?thesis using lt a(1) c_def b_def by (subst write_blocks.simps) (simp add: run_fs_def nbind_def)
  qed
  show ?case
  proof (cases "unat offset + unat c = unat (rw_count fi)")
    case True
    then have "offset + c = rw_count fi" using on by (simp add: word_unat_eq_iff)
    then have "write_blocks fi path offset s = Some (rw_count fi, s\<lparr>kfs := f1\<rparr>)"
      using step by (subst (asm) (2) write_blocks.simps) (simp add: nret_def)
    moreover have "unat (rw_count fi) - unat offset = unat c" using True by simp
    ultimately show ?thesis using a cont1
      by (intro exI [of _ f1] exI [of _ e1] exI [of _ k1]) (auto simp: b_def)
  next
    case False
    have "card (free_blocks ?f) - card (set new) \<le> card (free_blocks (disk_of f1 disk))" unfolding a(8) by (rule diff_card_le_card_Diff) simp
    then have "k + card (free_blocks ?f) \<le> k1 + card (free_blocks (disk_of f1 disk))"
      using card_length [of new] a(6) by (simp add: k1_def split: if_splits)
    then have room1: "(unat (rw_offset fi) + unat (rw_count fi) + 511) div 512 \<le> k1 + card (free_blocks (disk_of (kfs (s\<lparr>kfs := f1\<rparr>)) disk))"
      using less.prems(5) by simp
    have left: "unat (rw_count fi) - unat (offset + c) < unat (rw_count fi) - unat offset" "unat (offset + c) < unat (rw_count fi)"
        "unat (rw_offset fi) + unat (offset + c) = unat (e_size e1)"
      using on c False a(4) oc less.prems(2) by simp_all
    obtain f2 e2 k2 where r: "write_blocks fi path (offset + c) (s\<lparr>kfs := f1\<rparr>) = Some (rw_count fi, s\<lparr>kfs := f2\<rparr>)"
        "growing_at f2 path disk cs n e2 k2 [n, m]" "contents (disk_of f2 disk) e2 = contents (disk_of f1 disk) e1 @
          fget (far s) (rw_buff fi + ucast (offset + c)) (unat (rw_count fi) - unat (offset + c))"
        "set (blocks_of e1 k1) \<subseteq> set (blocks_of e2 k2)" "set (blocks_of e2 k2) \<subseteq> set (blocks_of e1 k1) \<union> free_blocks (disk_of f1 disk)"
        "only_changes {n, m} (set (blocks_of e2 k2)) (disk_of f1 disk) (disk_of f2 disk)"
      using less.hyps [OF left(1), of "s\<lparr>kfs := f1\<rparr>" e1 k1 "[n, m]"] left(2,3) a(2) room1 by auto
    have addr: "rw_buff fi + ucast (offset + c) = rw_buff fi + ucast offset + of_nat (unat c)"
    proof -
      have "(ucast (offset + c) :: u32) = of_nat (unat offset + unat c)" by (simp only: on [symmetric] of_nat_unat)
      then show ?thesis by simp
    qed
    have "b @ fget (far s) (rw_buff fi + ucast (offset + c)) (unat (rw_count fi) - unat (offset + c)) =
        fget (far s) (rw_buff fi + ucast offset) (unat (rw_count fi) - unat offset)"
      using fget_append [of "far s" "rw_buff fi + ucast offset" "unat c" "unat (rw_count fi) - (unat offset + unat c)"] c(3) on
      by (simp add: b_def addr)
    then have "contents (disk_of f2 disk) e2 = contents ?f e @ fget (far s) (rw_buff fi + ucast offset) (unat (rw_count fi) - unat offset)"
      using r(3) cont1 by simp
    moreover have "only_changes {n, m} (set (blocks_of e2 k2)) ?f (disk_of f2 disk)"
      using only_changes_trans [OF a(9) r(6)] r(4) by simp
    moreover have "set (blocks_of e k) \<subseteq> set (blocks_of e2 k2)" "set (blocks_of e2 k2) \<subseteq> set (blocks_of e k) \<union> free_blocks ?f"
      using r(4,5) a(5,7,8) by auto
    ultimately show ?thesis using r(1,2) step by (intro exI [of _ f2] exI [of _ e2] exI [of _ k2]) simp
  qed
qed

text \<open>The whole call: the first block creates the file, and the rest is appended.\<close>

lemma write_blocks_new:
  fixes fi :: syscall_fsrwfile
  assumes place: "place_for (kfs s) path disk cs p n"
  defines "f \<equiv> disk_of (kfs s) disk"
  assumes fi: "rw_offset fi = 0" "0 < unat (rw_count fi)" "unat (rw_count fi) \<le> 61440" "rw_flags fi AND WF_CREATE \<noteq> 0"
    and room: "(unat (rw_count fi) + 511) div 512 \<le> card (free_blocks f)"
  shows "\<exists>f' e k ns. write_blocks fi path 0 s = Some (rw_count fi, s\<lparr>kfs := f'\<rparr>) \<and> file_at f' path disk cs n e k ns \<and>
    contents (disk_of f' disk) e = fget (far s) (rw_buff fi) (unat (rw_count fi)) \<and>
    (\<forall>j < entries_of f. entry_used (entry_at f j) \<and> j \<noteq> unat p \<longrightarrow> entry_at (disk_of f' disk) j = entry_at f j) \<and>
    (\<forall>x. 2 + entries_of f \<le> unat x \<and> x \<notin> free_blocks f \<longrightarrow> disk_of f' disk x = f x)"
proof -
  define s1 where "s1 = set_disk (kfs s) disk (put_entry (put_entry f (unat n) (new_entry T_FILE (last cs) p)) (unat p)
    (add_child (entry_at f (unat p)) n))"
  note cf = create_file_ok [OF place, folded f_def, folded s1_def]
  note cr = created_ok [OF place, folded f_def, folded s1_def]
  note fr = created_free [OF place, folded f_def, folded s1_def]
  obtain m where m: "find_free_entry s1 disk = Inr m" "\<not> entry_used (entry_at f (unat m))" using fr(4) by blast
  have lim: "entries_of f \<le> table_limit" using place by (simp add: place_for_def mounted_def f_def)
  have g0: "growing_at (kfs (s\<lparr>kfs := s1\<rparr>)) path disk cs n (new_entry T_FILE (last cs) p) 0 [n]" using cr(1) by simp
  obtain f' e k where w: "write_blocks fi path 0 (s\<lparr>kfs := s1\<rparr>) = Some (rw_count fi, s\<lparr>kfs := f'\<rparr>)"
      "growing_at f' path disk cs n e k [n, m]"
      "contents (disk_of f' disk) e = contents (disk_of s1 disk) (new_entry T_FILE (last cs) p) @ fget (far s) (rw_buff fi) (unat (rw_count fi))"
      "set (blocks_of e k) \<subseteq> free_blocks f" "only_changes {n, m} (set (blocks_of e k)) (disk_of s1 disk) (disk_of f' disk)"
    using write_blocks_append [OF _ g0, of fi 0 m] m(1) fi room fr(1) by (auto simp: blocks_of_def)
  have "write_blocks fi path 0 s = write_blocks fi path 0 (s\<lparr>kfs := s1\<rparr>)"
  proof -
    have "0 < rw_count fi" using fi(2) by (simp add: word_less_nat_alt)
    then show ?thesis using fi cr(2) by (subst (1 2) write_blocks.simps) (simp add: run_fs_def nbind_def)
  qed
  moreover have "contents (disk_of s1 disk) (new_entry T_FILE (last cs) p) = []" by (simp add: contents_def)
  moreover have "entry_at (disk_of f' disk) j = entry_at f j" if "j < entries_of f" "entry_used (entry_at f j)" "j \<noteq> unat p" for j
  proof -
    have "j \<noteq> unat n" "j \<noteq> unat m" using that(2) cf(6) m(2) by auto
    moreover have "unat (of_nat j :: u16) = j" using that(1) lim by (intro unat_of_nat_u16) simp
    ultimately have "(of_nat j :: u16) \<notin> {n, m}" by auto
    then have "entry_at (disk_of f' disk) j = entry_at (disk_of s1 disk) j"
      using w(5) that(1) fr(2) by (simp add: only_changes_def)
    then show ?thesis using cr(3) that(1,3) \<open>j \<noteq> unat n\<close> by simp
  qed
  moreover have "disk_of f' disk x = f x" if "2 + entries_of f \<le> unat x" "x \<notin> free_blocks f" for x
  proof -
    have "x \<notin> set (blocks_of e k)" using that(2) w(4) by blast
    then have "disk_of f' disk x = disk_of s1 disk x" using w(5) that(1) fr(2) by (simp add: only_changes_def)
    then show ?thesis using fr(3) that(1) by simp
  qed
  ultimately show ?thesis using w(1,3) growing_at_size(5) [OF w(2)]
    by (intro exI [of _ f'] exI [of _ e] exI [of _ k] exI [of _ "[n, m]"]) simp
qed

lemma write_file_new:
  fixes u :: program and count flags buff :: u16
  assumes place: "place_for (kfs s) (path_at (far s) (lp (seg u) path)) disk cs p n"
    and frame: "disjoint_ranges (param_at u) 14 (lp (seg u) path) MAX_PATH"
      "disjoint_ranges (param_at u) 14 (lp (seg u) buff) (unat count)"
  defines "f \<equiv> disk_of (kfs s) disk"
  assumes fit: "0 < unat count" "unat count \<le> 61440" "flags AND WF_CREATE \<noteq> 0"
    and room: "(unat count + 511) div 512 \<le> card (free_blocks f)"
  shows "\<exists>ps f' e k ns. length ps = 14 \<and> write_file u buff path 0 count flags s =
      Some (count, s\<lparr>far := fput (far s) (param_at u) ps, kfs := f'\<rparr>) \<and>
    file_at f' (path_at (far s) (lp (seg u) path)) disk cs n e k ns \<and>
    contents (disk_of f' disk) e = fget (far s) (lp (seg u) buff) (unat count) \<and>
    (\<forall>j < entries_of f. entry_used (entry_at f j) \<and> j \<noteq> unat p \<longrightarrow> entry_at (disk_of f' disk) j = entry_at f j) \<and>
    (\<forall>x. 2 + entries_of f \<le> unat x \<and> x \<notin> free_blocks f \<longrightarrow> disk_of f' disk x = f x)"
proof -
  let ?rw = "\<lparr>rw_buff = lp (seg u) buff, rw_path = lp (seg u) path, rw_offset = 0, rw_count = count, rw_flags = flags\<rparr>"
  let ?m = "fput (far s) (param_at u) (fsrwfile_bytes ?rw)"
  have path: "path_at ?m (lp (seg u) path) = path_at (far s) (lp (seg u) path)"
    using frame(1) by (simp add: path_at_def fget_beside)
  have data: "fget ?m (lp (seg u) buff) (unat count) = fget (far s) (lp (seg u) buff) (unat count)"
    using frame(2) by (intro fget_beside) simp
  have place': "place_for (kfs (s\<lparr>far := ?m\<rparr>)) (path_at (far s) (lp (seg u) path)) disk cs p n" using place by simp
  obtain f' e k ns where f': "write_blocks ?rw (path_at (far s) (lp (seg u) path)) 0 (s\<lparr>far := ?m\<rparr>) =
        Some (count, s\<lparr>far := ?m, kfs := f'\<rparr>)" "file_at f' (path_at (far s) (lp (seg u) path)) disk cs n e k ns"
      "contents (disk_of f' disk) e = fget (far s) (lp (seg u) buff) (unat count)"
      "\<forall>j < entries_of f. entry_used (entry_at f j) \<and> j \<noteq> unat p \<longrightarrow> entry_at (disk_of f' disk) j = entry_at f j"
      "\<forall>x. 2 + entries_of f \<le> unat x \<and> x \<notin> free_blocks f \<longrightarrow> disk_of f' disk x = f x"
    using write_blocks_new [OF place', of ?rw] fit room data by (auto simp: f_def)
  have "write_file u buff path 0 count flags s = Some (count, s\<lparr>far := ?m, kfs := f'\<rparr>)"
    using path f'(1) by (simp add: write_file_def syscall_with_def syscall_def put_far_def kernel_service.simps
        file_service_def service_fs_write_file_def)
  then show ?thesis using f'
    by (intro exI [of _ "fsrwfile_bytes ?rw"] exI [of _ f'] exI [of _ e] exI [of _ k] exI [of _ ns]) simp
qed

subsection \<open>Properties\<close>

text \<open>
  C1: A program that saves up to 61440 bytes with \<open>write_file\<close> under a name that is not in use, with the flag that creates
  files, gets a file that contains exactly these bytes: the call writes the whole count, in however many blocks the
  kernel makes of it, and a later \<open>read_file\<close> of any range returns that range of the data. The directory needs room for
  one reference, the table two free entries and the disk a free block for every 512 bytes. No entry in use but the one of the
  directory changes, and no block any file uses.
\<close>

theorem saved_file_reads_back:
  fixes u :: program
  assumes "place_for (kfs s) (path_at (far s) (lp (seg u) path)) disk cs p n"
    and "disjoint_ranges (param_at u) 14 (lp (seg u) path) MAX_PATH"
      "disjoint_ranges (param_at u) 14 (lp (seg u) buff) (unat count)"
  defines "f \<equiv> disk_of (kfs s) disk"
  assumes "0 < unat count" "unat count \<le> 61440" "flags AND WF_CREATE \<noteq> 0"
    and "(unat count + 511) div 512 \<le> card (free_blocks f)"
  shows "\<exists>s'. write_file u buff path 0 count flags s = Some (count, s') \<and>
    (\<forall>j < entries_of f. entry_used (entry_at f j) \<and> j \<noteq> unat p \<longrightarrow> entry_at (disk_of (kfs s') disk) j = entry_at f j) \<and>
    (\<forall>x. 2 + entries_of f \<le> unat x \<and> x \<notin> free_blocks f \<longrightarrow> disk_of (kfs s') disk x = f x) \<and>
    (\<forall>buff' o' c'. let D = take (unat c') (drop (unat o') (fget (far s) (lp (seg u) buff) (unat count)))
      in \<exists>s''. read_file u buff' path o' c' s' = Some (of_nat (length D), s'') \<and> fget (far s'') (lp (seg u) buff') (length D) = D)"
proof -
  obtain ps f' e k ns where w: "length ps = 14" "write_file u buff path 0 count flags s =
        Some (count, s\<lparr>far := fput (far s) (param_at u) ps, kfs := f'\<rparr>)"
      "file_at f' (path_at (far s) (lp (seg u) path)) disk cs n e k ns"
      "contents (disk_of f' disk) e = fget (far s) (lp (seg u) buff) (unat count)"
      "\<forall>j < entries_of f. entry_used (entry_at f j) \<and> j \<noteq> unat p \<longrightarrow> entry_at (disk_of f' disk) j = entry_at f j"
      "\<forall>x. 2 + entries_of f \<le> unat x \<and> x \<notin> free_blocks f \<longrightarrow> disk_of f' disk x = f x"
    using write_file_new [OF assms(1-3)] assms(4-) by blast
  let ?s = "s\<lparr>far := fput (far s) (param_at u) ps, kfs := f'\<rparr>"
  have path: "path_at (far ?s) (lp (seg u) path) = path_at (far s) (lp (seg u) path)"
    using assms(2) w(1) by (simp add: path_at_def fget_beside)
  have "\<exists>s''. read_file u buff' path o' c' ?s = Some (of_nat (length D), s'') \<and> fget (far s'') (lp (seg u) buff') (length D) = D"
    if "D = take (unat c') (drop (unat o') (fget (far s) (lp (seg u) buff) (unat count)))" for D buff' o' c'
  proof -
    have at: "file_at (kfs ?s) (path_at (far ?s) (lp (seg u) path)) disk cs n e k ns" using w(3) path by simp
    have D: "take (unat c') (drop (unat o') (contents (disk_of (kfs ?s) disk) e)) = D" using that w(4) by simp
    have "length D \<le> 65535" using that unat_u16_lt [of c'] by simp
    then have "fget (fput m a D) a (length D) = D" for m a by (simp add: fget_fput0)
    then show ?thesis using read_file_ok [OF at assms(2), of buff' o' c', unfolded D] by auto
  qed
  then show ?thesis using w(2,5,6) by (intro exI [of _ ?s]) (simp add: Let_def)
qed

definition saving_kernel :: kernel where
  "saving_kernel = sample_kernel\<lparr>far := (far sample_kernel)(0x18100 := 98)\<rparr>"

lemma saving_path: "path_at (far saving_kernel) 0x18100 = bytes ''b''"
  by (simp add: path_at_def cstring_def saving_kernel_def sample_kernel_def fget_def lmem_getbyte_def upt_conv_Cons phys_add phys_def)

lemma demo_place: "place_for demo_fs (bytes ''b'') 0 [bytes ''b''] 0 2"
proof -
  have "denotes demo_fs (bytes ''b'') 0 [bytes ''b'']"
    by (simp add: denotes_def component_def disk_names_ok_def demo_fs_def demo_string_is_disk) (simp add: demo_state_def)
  moreover have "string_to_name (bytes ''b'') = bytes ''b''"
    by (simp add: string_to_name_map fix_char_def) (simp add: valid_char_def)
  moreover have "\<forall>k < 4. \<not> entry_matches (bytes ''b'') 0 (entry_at (image_of demo_sb demo_entries) k)"
    using demo_names by (simp add: entry_matches_def) (simp add: entry_used_def zero_entry_def)
  moreover have "entry_used (demo_entries ! 0)" by (simp add: entry_used_def mk_entry_def)
  moreover have "\<forall>j < 4. entry_used (demo_entries ! j) \<longrightarrow> e_parent (demo_entries ! j) \<noteq> ucast (2 :: u16)"
    by (simp add: mk_entry_def zero_entry_def entry_used_def)
  moreover have "\<exists>j < 4. j \<noteq> unat (2 :: u16) \<and> \<not> entry_used (entry_at (image_of demo_sb demo_entries) j)"
    by (intro exI [of _ 3]) (simp add: zero_entry_def entry_used_def)
  ultimately show ?thesis
    using demo_free demo_root demo_mounted by (simp add: place_for_def Let_def del: bytes_simps demo_nth)
qed

lemma demo_free_blocks: "{9, 10} \<subseteq> free_blocks (image_of demo_sb demo_entries)"
proof -
  have first: "first_data_block demo_sb = 6" by (simp add: first_data_block_def)
  have b: "needed_blocks (ucast (600 :: u32)) = 2" by (simp add: needed_blocks_def)
  have "block_free (image_of demo_sb demo_entries) x" if "x \<in> {9, 10}" for x
    using that b by (auto simp: block_free_def references_block_def entry_is_def mk_entry_def zero_entry_def min16_def)
  then show ?thesis by (simp add: free_blocks_def first)
qed

theorem saved_file_reads_back_witness:
  "\<exists>s'. write_file sample_program 0x300 0x100 0 600 1 saving_kernel = Some (600, s') \<and>
    (\<exists>s''. read_file sample_program 0x800 0x100 0 600 s' = Some (600, s'') \<and> fget (far s'') 0x18800 600 = replicate 600 1)"
proof -
  have data: "fget (far saving_kernel) 0x18300 600 = replicate 600 1"
    by (rule sample_data) (simp add: saving_kernel_def)
  have fs: "kfs saving_kernel = demo_fs" by (simp add: saving_kernel_def sample_kernel_def)
  have "card {9, 10 :: u16} \<le> card (free_blocks (image_of demo_sb demo_entries))"
    by (rule card_mono [OF _ demo_free_blocks]) simp
  then have room: "(unat (600 :: u16) + 511) div 512 \<le> card (free_blocks (disk_of (kfs saving_kernel) 0))"
    by (simp add: fs)
  have pre: "place_for (kfs saving_kernel) (path_at (far saving_kernel) (lp (seg sample_program) 0x100)) 0 [bytes ''b''] 0 2"
      "disjoint_ranges (param_at sample_program) 14 (lp (seg sample_program) 0x100) MAX_PATH"
      "disjoint_ranges (param_at sample_program) 14 (lp (seg sample_program) 0x300) (unat (600 :: u16))"
      "0 < unat (600 :: u16)" "unat (600 :: u16) \<le> 61440" "(1 :: u16) AND WF_CREATE \<noteq> 0"
    using demo_place sample_disjoint by (simp_all add: sample_params saving_path fs del: bytes_simps)
  from saved_file_reads_back [OF pre room]
  obtain s' where w: "write_file sample_program 0x300 0x100 0 600 1 saving_kernel = Some (600, s')" and
    all: "\<forall>buff' o' c'. let D = take (unat c') (drop (unat o') (fget (far saving_kernel) (lp (seg sample_program) 0x300) (unat (600 :: u16))))
      in \<exists>s''. read_file sample_program buff' 0x100 o' c' s' = Some (of_nat (length D), s'') \<and>
        fget (far s'') (lp (seg sample_program) buff') (length D) = D"
    by blast
  from all [THEN spec [of _ "0x800"], THEN spec [of _ 0], THEN spec [of _ 600]]
  have "\<exists>s''. read_file sample_program 0x800 0x100 0 600 s' = Some (600, s'') \<and> fget (far s'') 0x18800 600 = replicate 600 1"
    using data by (simp add: sample_params Let_def)
  then show ?thesis using w by blast
qed

end
