(* ===== verification/Video.thy ===== *)
theory Video
  imports Kernel_Heap Far_Memory
begin

section \<open>The graphics screen (source/video.c)\<close>

text \<open>
  Pixels, characters and the emulated text cursor of the graphics mode. The memory of the display adapter is
  seen through a window of 64 KB that shows one bank at a time; \<open>current_bank\<close> remembers which one was selected
  last. The adapter and its BIOS are not code of the program: they are a parameter, a record of the calls the
  code makes (\<open>io_set_vesa_bank\<close>, a byte of the window read or written, the start line of the display, the
  font), on a state of their own. \<open>draw_cursor_buffer\<close> sets its pixels with the system call for a pixel, whose service
  is \<open>video_set_pixel\<close>. The functions of the screen are only reached in graphics mode, so \<open>io_scroll_screen\<close>
  is its graphics branch. Where \<open>malloc\<close> finds no memory the code goes on with the null pointer: the result
  is then \<open>None\<close>.
\<close>

definition DEF_BACKGROUND :: u16 where [simp]: "DEF_BACKGROUND = 0x00"
definition DEF_TEXT :: u16 where [simp]: "DEF_TEXT = 0x07"
definition FNT_W :: u16 where [simp]: "FNT_W = 8"
definition VESA_BANK_SIZE :: u32 where [simp]: "VESA_BANK_SIZE = 0x10000"
definition NO_BACKGROUND :: u16 where [simp]: "NO_BACKGROUND = 0xFFFF"

record 'd adapter =
  io_set_vesa_bank :: "u32 \<Rightarrow> 'd \<Rightarrow> 'd"
  window_byte :: "'d \<Rightarrow> u16 \<Rightarrow> u8"
  set_window_byte :: "u16 \<Rightarrow> u8 \<Rightarrow> 'd \<Rightarrow> 'd"
  set_display_start :: "u16 \<Rightarrow> 'd \<Rightarrow> 'd"
  bios_font :: "'d \<Rightarrow> u32 \<times> u16"

record 'd video =
  video_font_h :: u16
  video_window_y :: u16
  cursor_col :: u16
  cursor_row :: u16
  cursor_shown :: u16
  cursor_buff :: "u8 list"
  cursor_buff_x :: u16
  cursor_buff_y :: u16
  cursor_blink_state :: u16
  cursor_blink_timer :: u32
  BIOS_font :: u32
  BIOS_font_offset :: u16
  current_bank :: u32
  width_c :: u16
  height_c :: u16
  width_px :: u16
  height_px :: u16
  card :: 'd
  rom :: fmem
  vheap :: heap
  vheap_addr :: u16

subsection \<open>Pixels\<close>

definition pixel_addr :: "'d video \<Rightarrow> u16 \<Rightarrow> u16 \<Rightarrow> u32" where
  "pixel_addr v x y = ucast x + ucast (width_px v) * ucast (y + video_window_y v)"

definition behind_cursor :: "'d video \<Rightarrow> u16 \<Rightarrow> u16 \<Rightarrow> bool" where
  "behind_cursor v x y \<longleftrightarrow> cursor_shown v \<noteq> 0 \<and> x \<ge> cursor_buff_x v \<and> x < cursor_buff_x v + FNT_W - 2 \<and>
     y = cursor_buff_y v"

definition select_bank :: "'d adapter \<Rightarrow> u32 \<Rightarrow> 'd video \<Rightarrow> 'd video" where
  "select_bank A n v =
     (if n \<noteq> current_bank v then v\<lparr>card := io_set_vesa_bank A n (card v), current_bank := n\<rparr> else v)"

definition get_pixel :: "'d adapter \<Rightarrow> u16 \<Rightarrow> u16 \<Rightarrow> bool \<Rightarrow> 'd video \<Rightarrow> u16 \<times> 'd video" where
  "get_pixel A x y read_cursor_buffer v =
     (let addr = pixel_addr v x y; bank_number = addr div VESA_BANK_SIZE; bank_offset = addr mod VESA_BANK_SIZE
      in if read_cursor_buffer \<and> behind_cursor v x y then (ucast (cursor_buff v ! unat (x - cursor_buff_x v)), v)
         else let v = select_bank A bank_number v in (ucast (window_byte A (card v) (ucast bank_offset)), v))"

definition set_cursor_pixel :: "'d adapter \<Rightarrow> u16 \<Rightarrow> u16 \<Rightarrow> u16 \<Rightarrow> 'd video \<Rightarrow> 'd video" where
  "set_cursor_pixel A x y c v =
     (let addr = pixel_addr v x y; bank_number = addr div VESA_BANK_SIZE; bank_offset = addr mod VESA_BANK_SIZE;
          v = select_bank A bank_number v
      in v\<lparr>card := set_window_byte A (ucast bank_offset) (ucast c) (card v)\<rparr>)"

definition video_set_pixel :: "'d adapter \<Rightarrow> u16 \<Rightarrow> u16 \<Rightarrow> u16 \<Rightarrow> 'd video \<Rightarrow> 'd video" where
  "video_set_pixel A x y c v =
     (let addr = pixel_addr v x y; bank_number = addr div VESA_BANK_SIZE; bank_offset = addr mod VESA_BANK_SIZE;
          v = (if behind_cursor v x y
               then v\<lparr>cursor_buff := (cursor_buff v)[unat (x - cursor_buff_x v) := ucast c]\<rparr> else v);
          v = select_bank A bank_number v
      in v\<lparr>card := set_window_byte A (ucast bank_offset) (ucast c) (card v)\<rparr>)"

subsection \<open>The emulated cursor\<close>

definition update_cursor_buffer :: "'d adapter \<Rightarrow> 'd video \<Rightarrow> 'd video" where
  "update_cursor_buffer A v = fold (\<lambda>i v.
     let (p, v) = get_pixel A (cursor_buff_x v + of_nat i) (cursor_buff_y v) False v
     in v\<lparr>cursor_buff := (cursor_buff v)[i := ucast p]\<rparr>) [0 ..< unat (FNT_W - 2)] v"

definition draw_cursor_buffer :: "'d adapter \<Rightarrow> 'd video \<Rightarrow> 'd video" where
  "draw_cursor_buffer A v = fold (\<lambda>i v.
     video_set_pixel A (cursor_buff_x v + of_nat i) (cursor_buff_y v) (ucast (cursor_buff v ! i)) v)
     [0 ..< unat (FNT_W - 2)] v"

definition draw_cursor :: "'d adapter \<Rightarrow> u16 \<Rightarrow> u16 \<Rightarrow> u16 \<Rightarrow> 'd video \<Rightarrow> 'd video" where
  "draw_cursor A x y c v =
     fold (\<lambda>i. set_cursor_pixel A (of_nat i) y c) [unat x ..< unat (x + FNT_W - 2)] v"

definition video_show_cursor :: "'d adapter \<Rightarrow> 'd video \<Rightarrow> 'd video" where
  "video_show_cursor A v =
     (let v = (if cursor_shown v = 0 \<or> cursor_blink_state v = 0 then update_cursor_buffer A v else v)
      in v\<lparr>cursor_shown := 1\<rparr>)"

definition video_hide_cursor :: "'d adapter \<Rightarrow> 'd video \<Rightarrow> 'd video" where
  "video_hide_cursor A v =
     (let v = (if cursor_shown v \<noteq> 0 \<and> cursor_blink_state v \<noteq> 0 then draw_cursor_buffer A v else v)
      in v\<lparr>cursor_shown := 0\<rparr>)"

definition video_get_cursor_pos :: "'d video \<Rightarrow> u16 \<times> u16" where
  "video_get_cursor_pos v = (cursor_col v, cursor_row v)"

definition place_cursor :: "u16 \<Rightarrow> u16 \<Rightarrow> 'd video \<Rightarrow> 'd video" where
  "place_cursor col row v = v\<lparr>cursor_col := col, cursor_row := row, cursor_buff_x := col * FNT_W + 1,
     cursor_buff_y := (row + 1) * video_font_h v - 1\<rparr>"

definition video_set_cursor_pos :: "'d adapter \<Rightarrow> u16 \<Rightarrow> u16 \<Rightarrow> 'd video \<Rightarrow> 'd video" where
  "video_set_cursor_pos A col row v =
     (if col \<noteq> cursor_col v \<or> row \<noteq> cursor_row v
      then let v = (if cursor_shown v \<noteq> 0 then draw_cursor_buffer A v else v);
               v = place_cursor col row v
           in if cursor_shown v \<noteq> 0 then update_cursor_buffer A v else v
      else v)"

definition set_cursor_pos_fast :: "'d adapter \<Rightarrow> u16 \<Rightarrow> u16 \<Rightarrow> 'd video \<Rightarrow> 'd video" where
  "set_cursor_pos_fast A col row v =
     (if col \<noteq> cursor_col v \<or> row \<noteq> cursor_row v
      then let v = place_cursor col row v
           in if cursor_shown v \<noteq> 0 then update_cursor_buffer A v else v
      else v)"

definition video_blink_cursor :: "'d adapter \<Rightarrow> u32 \<Rightarrow> 'd video \<Rightarrow> 'd video" where
  "video_blink_cursor A system_timer_ms v =
     (let v = (if cursor_shown v = 1
               then let v = v\<lparr>cursor_blink_state := 1 - cursor_blink_state v\<rparr>
                    in if cursor_blink_state v = 0 then draw_cursor_buffer A v
                       else draw_cursor A (cursor_buff_x v) (cursor_buff_y v) DEF_TEXT v
               else v)
      in v\<lparr>cursor_blink_timer := system_timer_ms\<rparr>)"

subsection \<open>Mode and screen\<close>

definition video_enable :: "'d adapter \<Rightarrow> 'd video \<Rightarrow> 'd video" where
  "video_enable A v =
     (let v = update_cursor_buffer A (v\<lparr>video_window_y := 0, cursor_col := 0, cursor_row := 0, cursor_shown := 1,
                cursor_buff_x := 0, cursor_buff_y := 0, cursor_blink_state := 0\<rparr>)
      in if BIOS_font v = 0
         then (let (f, ofs) = bios_font A (card v) in v\<lparr>BIOS_font := f, BIOS_font_offset := ofs\<rparr>) else v)"

definition video_disable :: "'d video \<Rightarrow> 'd video" where
  "video_disable v = v\<lparr>BIOS_font := 0\<rparr>"

definition io_scroll_screen :: "'d adapter \<Rightarrow> 'd video \<Rightarrow> 'd video" where
  "io_scroll_screen A v =
     (let dx = video_window_y v + video_font_h v
      in v\<lparr>card := set_display_start A dx (card v), video_window_y := dx\<rparr>)"

definition video_clear_screen :: "'d adapter \<Rightarrow> 'd video \<Rightarrow> 'd video" where
  "video_clear_screen A v =
     (let tcursor_shown = cursor_shown v;
          v = (video_hide_cursor A v)\<lparr>video_window_y := 0\<rparr>;
          v = fold (\<lambda>j. fold (\<lambda>i. video_set_pixel A (of_nat i) (of_nat j) DEF_BACKGROUND)
                       [0 ..< unat (width_px v)]) [0 ..< unat (height_px v)] v;
          v = io_scroll_screen A (v\<lparr>video_window_y := - video_font_h v\<rparr>);
          v = video_set_cursor_pos A 0 0 v
      in if tcursor_shown \<noteq> 0 then video_show_cursor A v else v)"

subsection \<open>Characters\<close>

definition is_visible_char :: "u8 \<Rightarrow> bool" where
  "is_visible_char c \<longleftrightarrow> \<not> (c = 0x20 \<or> c = 0x0D \<or> c = 0x0A \<or> c = 0x09 \<or> c = 0)"

definition get_BIOS_glyph :: "'d video \<Rightarrow> u16 \<Rightarrow> u8 list" where
  "get_BIOS_glyph v character =
     (let char_addr = BIOS_font v + ucast (BIOS_font_offset v) * ucast character
      in map (\<lambda>i. lmem_getbyte (rom v) (char_addr + of_nat i)) [0 ..< unat (video_font_h v)])"

definition glyph_bit :: "u8 list \<Rightarrow> nat \<Rightarrow> nat \<Rightarrow> bool" where
  "glyph_bit buff j i \<longleftrightarrow> buff ! j AND drop_bit i 0x80 \<noteq> 0"

definition video_draw_char ::
    "'d adapter \<Rightarrow> u16 \<Rightarrow> u16 \<Rightarrow> u16 \<Rightarrow> u16 \<Rightarrow> u16 \<Rightarrow> 'd video \<Rightarrow> 'd video" where
  "video_draw_char A x y c text_cl back_cl v =
     (let cell = (\<lambda>p. fold (\<lambda>j. fold (\<lambda>i. p j i (x + of_nat i) (y + of_nat j)) [0 ..< unat FNT_W])
                         [0 ..< unat (video_font_h v)])
      in if is_visible_char (ucast c)
         then (let buff = get_BIOS_glyph v c
               in cell (\<lambda>j i px py.
                    if back_cl \<noteq> NO_BACKGROUND
                    then video_set_pixel A px py (ucast (ucast (if glyph_bit buff j i then text_cl else back_cl) :: u8))
                    else if glyph_bit buff j i then video_set_pixel A px py text_cl else id) v)
         else if back_cl \<noteq> NO_BACKGROUND then cell (\<lambda>j i px py. video_set_pixel A px py back_cl) v
         else v)"

text \<open>Scrolling: the copy to the start of the memory after two screens, and the new lines.\<close>

definition copy_line :: "'d adapter \<Rightarrow> u16 \<Rightarrow> nat \<Rightarrow> 'd video \<Rightarrow> 'd video" where
  "copy_line A v_w_y j v =
     (let (scline, v) = fold (\<lambda>i (l, v). let (p, v) = get_pixel A (of_nat i) (of_nat j + v_w_y) True v
                              in (l @ [ucast p], v)) [0 ..< unat (width_px v)] ([] :: u8 list, v)
      in fold (\<lambda>i. video_set_pixel A (of_nat i) (of_nat j) (ucast (scline ! i))) [0 ..< unat (width_px v)] v)"

definition reset_window :: "'d adapter \<Rightarrow> 'd video \<Rightarrow> 'd video option" where
  "reset_window A v =
     (let (scline, h) = heap_alloc (vheap_addr v) (vheap v) (width_px v)
      in if scline = 0 then None
         else (let v_w_y = video_window_y v;
                   v = v\<lparr>vheap := h, video_window_y := 0\<rparr>;
                   v = fold (copy_line A v_w_y) [unat (video_font_h v) ..< unat (height_px v)] v
               in Some (v\<lparr>vheap := heap_free (vheap v) scline\<rparr>)))"

definition clear_new_lines :: "'d adapter \<Rightarrow> 'd video \<Rightarrow> 'd video" where
  "clear_new_lines A v =
     fold (\<lambda>i. fold (\<lambda>j. video_set_pixel A (of_nat i) (of_nat j) DEF_BACKGROUND)
             [unat (height_px v) ..< unat (height_px v + video_font_h v)]) [0 ..< unat (width_px v)] v"

definition update_cursor_after_char :: "'d adapter \<Rightarrow> u8 \<Rightarrow> 'd video \<Rightarrow> 'd video option" where
  "update_cursor_after_char A c v =
     (let (tc_col, tc_row) = (if c = 0x0A then (cursor_col v, cursor_row v + 1)
                              else if c = 0x0D then (0, cursor_row v) else (cursor_col v + 1, cursor_row v));
          (tc_col, tc_row) = (if tc_col > width_c v then (0, tc_row + 1) else (tc_col, tc_row))
      in if tc_row > height_c v - 1
         then Option.bind (if video_window_y v > 2 * height_px v then reset_window A v else Some v) (\<lambda>v.
              Some (set_cursor_pos_fast A 0 (height_c v - 1) (io_scroll_screen A (clear_new_lines A v))))
         else Some (set_cursor_pos_fast A tc_col tc_row v))"

definition video_out_char :: "'d adapter \<Rightarrow> u8 \<Rightarrow> 'd video \<Rightarrow> 'd video option" where
  "video_out_char A c v =
     update_cursor_after_char A c
       (video_draw_char A (cursor_col v * FNT_W) (cursor_row v * video_font_h v) (ucast c) DEF_TEXT DEF_BACKGROUND v)"

definition video_out_char_attr :: "'d adapter \<Rightarrow> u16 \<Rightarrow> u16 \<Rightarrow> u8 \<Rightarrow> u8 \<Rightarrow> 'd video \<Rightarrow> 'd video option" where
  "video_out_char_attr A col row c attr v =
     (let v = video_set_cursor_pos A col row v
      in update_cursor_after_char A c
           (video_draw_char A (cursor_col v * FNT_W) (cursor_row v * video_font_h v) (ucast c)
              (ucast (attr AND 0xF)) (ucast (drop_bit 4 attr)) v))"

end
