(* ===== verification/Kernel_Devices.thy ===== *)
theory Kernel_Devices
  imports Video Cli File_Samples
begin

section \<open>Mouse, timer and start of the kernel (source/kernel.c)\<close>

text \<open>
  The interrupt handlers and the initialisation. \<open>mouse_handler\<close> runs once for each byte of a packet of three;
  its static variables are the record \<open>mouse\<close>. The compiler's \<open>char\<close> is signed. \<open>kernel_time_tick\<close> works on the table of
  disks and on the screen, and returns how often the motors of the floppy disks were turned off.
  \<open>kernel_init\<close> is \<open>kernel\<close> up to its endless loop; the geometry the BIOS reports for a disk is a parameter, and
  the programming of the timer and of the interrupt controller, which is assembly, is left out.
\<close>

subsection \<open>The mouse\<close>

record mouse =
  mouse_cycle :: u8
  mouse_byte :: "u8 list"

definition mouse_delta :: "u8 \<Rightarrow> u16" where
  "mouse_delta b = (if sint b \<ge> 0x80 then scast b - 0x100 else scast b)"

definition clamp_mouse :: "u16 \<Rightarrow> u16 \<Rightarrow> u16 \<Rightarrow> u16 \<Rightarrow> u16" where
  "clamp_mouse g px c pos =
     (if sint pos < 0 then 0
      else if g \<noteq> 0 \<and> pos > px then px
      else if g = 0 \<and> pos > c then c
      else pos)"

definition mouse_update :: "u8 list \<Rightarrow> kernel \<Rightarrow> kernel" where
  "mouse_update b s = s\<lparr>mouse_b := scast (b ! 0),
     mouse_x := clamp_mouse (graphics_mode s) (screen_width_px s) (screen_width_c s) (mouse_x s + mouse_delta (b ! 1)),
     mouse_y := clamp_mouse (graphics_mode s) (screen_height_px s) (screen_height_c s) (mouse_y s - mouse_delta (b ! 2))\<rparr>"

definition mouse_handler :: "mouse \<Rightarrow> mouse kernelm" where
  "mouse_handler m =
     (if mouse_cycle m = 0
      then nbind (run_net (inb 0x60)) (\<lambda>b. nret (m\<lparr>mouse_byte := (mouse_byte m)[0 := b], mouse_cycle := mouse_cycle m + 1\<rparr>))
      else if mouse_cycle m = 1
      then nbind (run_net (inb 0x60)) (\<lambda>b. nret (m\<lparr>mouse_byte := (mouse_byte m)[1 := b], mouse_cycle := mouse_cycle m + 1\<rparr>))
      else if mouse_cycle m = 2
      then nbind (run_net (inb 0x60)) (\<lambda>b. let m = m\<lparr>mouse_byte := (mouse_byte m)[2 := b], mouse_cycle := 0\<rparr>
             in nbind (nput (mouse_update (mouse_byte m))) (\<lambda>_. nret m))
      else nret (m\<lparr>mouse_cycle := 0\<rparr>))"

definition MS_WAIT_DATA :: u8 where [simp]: "MS_WAIT_DATA = 0"
definition MS_WAIT_SIGNAL :: u8 where [simp]: "MS_WAIT_SIGNAL = 1"

text \<open>The two loops of \<open>mouse_wait\<close>, with the turns that are left.\<close>

primrec mouse_poll :: "nat \<Rightarrow> (u8 \<Rightarrow> bool) \<Rightarrow> ('z io_scheme, unit) iom" where
  "mouse_poll 0 stop = nret ()"
| "mouse_poll (Suc time_out) stop = nbind (inb 0x64) (\<lambda>v. if stop v then nret () else mouse_poll time_out stop)"

definition mouse_wait :: "u8 \<Rightarrow> ('z io_scheme, unit) iom" where
  "mouse_wait type =
     mouse_poll 0xFF (if type = MS_WAIT_DATA then (\<lambda>v. v AND 1 = 1) else (\<lambda>v. v AND 2 = 0))"

definition mouse_write :: "u8 \<Rightarrow> ('z io_scheme, unit) iom" where
  "mouse_write a_write =
     nbind (mouse_wait MS_WAIT_SIGNAL) (\<lambda>_. nbind (outb 0xD4 0x64) (\<lambda>_.
     nbind (mouse_wait MS_WAIT_SIGNAL) (\<lambda>_. outb a_write 0x60)))"

definition mouse_read :: "('z io_scheme, u8) iom" where
  "mouse_read = nbind (mouse_wait MS_WAIT_DATA) (\<lambda>_. inb 0x60)"

definition mouse_init :: "('z io_scheme, unit) iom" where
  "mouse_init =
     nbind (mouse_wait MS_WAIT_SIGNAL) (\<lambda>_. nbind (outb 0xA8 0x64) (\<lambda>_.
     nbind (mouse_wait MS_WAIT_SIGNAL) (\<lambda>_. nbind (outb 0x20 0x64) (\<lambda>_.
     nbind (mouse_wait MS_WAIT_DATA) (\<lambda>_. nbind (inb 0x60) (\<lambda>v. let status = v OR 2 in
     nbind (mouse_wait MS_WAIT_SIGNAL) (\<lambda>_. nbind (outb 0x60 0x64) (\<lambda>_.
     nbind (mouse_wait MS_WAIT_SIGNAL) (\<lambda>_. nbind (outb status 0x60) (\<lambda>_.
     nbind (mouse_write 0xF6) (\<lambda>_. nbind mouse_read (\<lambda>_.
     nbind (mouse_write 0xF4) (\<lambda>_. nbind mouse_read (\<lambda>_. nret ()))))))))))))))"

subsection \<open>The timer\<close>

function tick_disks :: "u32 \<Rightarrow> nat \<Rightarrow> diskinfo list \<Rightarrow> nat \<times> diskinfo list" where
  "tick_disks ms i d =
     (if i < 2
      then if di_last_access (d ! i) \<noteq> 0 \<and> ms - di_last_access (d ! i) > 3000
           then let (n, d) = tick_disks ms (i + 2) (d[i := (d ! i)\<lparr>di_last_access := 0\<rparr>]) in (n + 1, d)
           else tick_disks ms (i + 1) d
      else (0, d))"
  by pat_completeness auto
termination
  by (relation "measure (\<lambda>(ms, i, d). 2 - i)") auto

declare tick_disks.simps [simp del]

definition kernel_time_tick ::
    "'d adapter \<Rightarrow> u32 \<Rightarrow> diskinfo list \<Rightarrow> 'd video \<Rightarrow> nat \<times> diskinfo list \<times> 'd video" where
  "kernel_time_tick A system_timer_ms d v =
     (let (n, d) = tick_disks system_timer_ms 0 d
      in (n, d, if system_timer_ms - cursor_blink_timer v > 500 then video_blink_cursor A system_timer_ms v else v))"

subsection \<open>The start of the kernel\<close>

definition disk_names :: "(u16 \<times> u8 list) list" where
  "disk_names = [(0x00, bytes ''fd0''), (0x01, bytes ''fd1''), (0x80, bytes ''hd0''), (0x81, bytes ''hd1'')]"

definition name_disks :: "diskinfo list \<Rightarrow> diskinfo list" where
  "name_disks d = map (\<lambda>i. (d ! i)\<lparr>di_id := fst (disk_names ! i), di_name := snd (disk_names ! i)\<rparr>) [0 ..< MAX_DISK]"

definition disk_hardware :: "(u16 \<Rightarrow> u16 \<times> u16 \<times> u16 \<times> u16) \<Rightarrow> u32 \<Rightarrow> diskinfo \<Rightarrow> diskinfo" where
  "disk_hardware get_disk_info ms di =
     (let (r, st, hd, cl) = get_disk_info (di_id di)
      in if r = 0
         then di\<lparr>di_sectors := st, di_sides := hd, di_cylinders := cl,
                di_size := (ucast st * ucast hd * ucast cl) div (1048576 div ucast SECTOR_SIZE), di_last_access := ms\<rparr>
         else di\<lparr>di_sectors := 0, di_sides := 0, di_cylinders := 0, di_size := 0, di_last_access := 0\<rparr>)"

definition kernel_memory :: "kernel \<Rightarrow> kernel" where
  "kernel_memory s = s\<lparr>kheap := heap_init (kheap s), klmem := lmem_init\<rparr>"

definition kernel_screen :: "unit kernelm" where
  "kernel_screen = nbind (nget graphics_mode) (\<lambda>g.
     nbind (if g \<noteq> 0 then io_set_graphics_mode else io_set_text_mode) (\<lambda>_.
     nbind (emit ShowCursor) (\<lambda>_. emit ClearScreen)))"

definition kernel_disks :: "(u16 \<Rightarrow> u16 \<times> u16 \<times> u16 \<times> u16) \<Rightarrow> u32 \<Rightarrow> kernel \<Rightarrow> kernel" where
  "kernel_disks get_disk_info ms s =
     s\<lparr>kfs := fs_init_info ((kfs s)\<lparr>disk_info := map (disk_hardware get_disk_info ms) (name_disks (disk_info (kfs s)))\<rparr>)\<rparr>"

definition kernel_hardware :: "(u16 \<Rightarrow> u16 \<times> u16 \<times> u16 \<times> u16) \<Rightarrow> u32 \<Rightarrow> unit kernelm" where
  "kernel_hardware get_disk_info ms =
     nbind (nput kernel_memory) (\<lambda>_.
     nbind kernel_screen (\<lambda>_.
     nbind (nput (kernel_disks get_disk_info ms)) (\<lambda>_.
     nbind (run_net mouse_init) (\<lambda>_.
     nbind (run_net pci_init) (\<lambda>_.
     run_net net_init)))))"

definition kernel_init :: "console \<Rightarrow> (u16 \<Rightarrow> u16 \<times> u16 \<times> u16 \<times> u16) \<Rightarrow> u32 \<Rightarrow> unit kernelm" where
  "kernel_init c get_disk_info ms =
     nbind (kernel_hardware get_disk_info ms) (\<lambda>_.
     nbind (\<lambda>s. cli_exec_file c config_name 0 s) (\<lambda>_.
     tell c ''Starting...''))"

definition kernel_main :: "console \<Rightarrow> (u16 \<Rightarrow> u16 \<times> u16 \<times> u16 \<times> u16) \<Rightarrow> u32 \<Rightarrow> nat \<Rightarrow> mem \<Rightarrow> mem kernelm" where
  "kernel_main c get_disk_info ms turns m = nbind (kernel_init c get_disk_info ms) (\<lambda>_. cli turns c m)"

subsection \<open>A packet moves the mouse inside the screen\<close>

definition clamp_int :: "nat \<Rightarrow> int \<Rightarrow> int" where
  "clamp_int w z = max 0 (min (int w) z)"

lemma sint_u8_bounds: "- 128 \<le> sint (b :: u8)" "sint (b :: u8) < 128"
  using sint_greater_eq [of b] sint_less [of b] by simp_all

lemma signed_15: "- 32768 \<le> k \<Longrightarrow> k < 32768 \<Longrightarrow> signed_take_bit 15 k = (k :: int)"
  by (simp add: signed_take_bit_int_eq_self)

lemma mouse_delta_sint: "sint (mouse_delta b) = sint b"
proof -
  have "mouse_delta b = scast b" using sint_u8_bounds(2) [of b] by (simp add: mouse_delta_def)
  then show ?thesis using sint_u8_bounds [of b] by (simp add: signed_scast_eq signed_15)
qed

lemma uint_range: "unat (x :: u16) \<le> n \<Longrightarrow> uint x \<le> int n"
  by (subst uint_nat) (simp only: of_nat_le_iff)

lemma sint_small:
  assumes "uint (x :: u16) < 32768"
  shows "sint x = uint x"
proof -
  have "0 \<le> uint x" by simp
  then have "signed_take_bit 15 (uint x) = uint x" by (intro signed_15) (use assms in linarith)+
  then show ?thesis by (simp add: sint_uint)
qed

lemma moved_sint:
  fixes x :: u16
  assumes "unat x \<le> 32000"
  shows "sint (x + mouse_delta b) = int (unat x) + sint b" "sint (x - mouse_delta b) = int (unat x) - sint b"
proof -
  have x: "0 \<le> uint x" "uint x \<le> 32000" using uint_range [OF assms] by simp_all
  have s: "sint x = uint x" by (rule sint_small) (use x in linarith)
  have "signed_take_bit 15 (uint x + sint b) = uint x + sint b" "signed_take_bit 15 (uint x - sint b) = uint x - sint b"
    by (rule signed_15; use x sint_u8_bounds [of b] in linarith)+
  then show "sint (x + mouse_delta b) = int (unat x) + sint b" "sint (x - mouse_delta b) = int (unat x) - sint b"
    by (simp_all add: sint_word_ariths s mouse_delta_sint)
qed

lemma sint_nonneg:
  assumes "0 \<le> sint (x :: u16)"
  shows "sint x = uint x"
proof (cases "uint x < 32768")
  case True
  then show ?thesis by (rule sint_small)
next
  case False
  have u: "uint x < 65536" using unsigned_less [of x] by simp
  have "sint x = (uint x + 32768) mod 65536 - 32768"
    by (simp add: sint_uint signed_take_bit_eq_take_bit_shift take_bit_eq_mod)
  also have "(uint x + 32768) mod 65536 = (uint x - 32768 + 65536) mod 65536" by (simp add: add.commute)
  also have "\<dots> = (uint x - 32768) mod 65536" by (rule mod_add_self2)
  also have "\<dots> = uint x - 32768" by (rule mod_pos_pos_trivial) (use False u in simp_all)
  finally show ?thesis using assms u by simp
qed

lemma clamp_mouse_sint:
  fixes g px c pos :: u16
  assumes w: "w = (if g \<noteq> 0 then px else c)"
  shows "int (unat (clamp_mouse g px c pos)) = clamp_int (unat w) (sint pos)"
proof (cases "sint pos < 0")
  case False
  then have "sint pos = uint pos" by (intro sint_nonneg) simp
  with False show ?thesis by (auto simp: clamp_mouse_def clamp_int_def w word_less_def)
qed (simp add: clamp_mouse_def clamp_int_def)

lemma ins3:
  assumes "ins 3 port s = Some ([b0, b1, b2], s')"
  shows "\<exists>s1 s2. inb port s = Some (b0, s1) \<and> inb port s1 = Some (b1, s2) \<and> inb port s2 = Some (b2, s')"
  using assms by (auto simp: numeral_3_eq_3 nbind_def inb_def Let_def bind_eq_Some_conv split: prod.splits)

text \<open>
  C39: three interrupts, from the start of a packet, move the mouse by the signed second byte to the right and by the
  signed third byte up, stopped at the borders of the screen; nothing but the mouse and the port is touched.
\<close>

theorem mouse_packet_moves:
  assumes "mouse_cycle m = 0" "length (mouse_byte m) = 3" "ins 3 0x60 (knet s) = Some ([b0, b1, b2], n')"
    and "unat (mouse_x s) \<le> 32000" "unat (mouse_y s) \<le> 32000"
    and "w = (if graphics_mode s \<noteq> 0 then screen_width_px s else screen_width_c s)"
    and "h = (if graphics_mode s \<noteq> 0 then screen_height_px s else screen_height_c s)"
  shows "\<exists>m' s'. nbind (mouse_handler m) (\<lambda>m. nbind (mouse_handler m) mouse_handler) s = Some (m', s') \<and>
    mouse_cycle m' = 0 \<and> mouse_byte m' = [b0, b1, b2] \<and>
    s' = s\<lparr>knet := n', mouse_b := scast b0, mouse_x := mouse_x s', mouse_y := mouse_y s'\<rparr> \<and>
    int (unat (mouse_x s')) = clamp_int (unat w) (int (unat (mouse_x s)) + sint b1) \<and>
    int (unat (mouse_y s')) = clamp_int (unat h) (int (unat (mouse_y s)) - sint b2)"
proof -
  obtain n1 n2 where i: "inb 0x60 (knet s) = Some (b0, n1)" "inb 0x60 n1 = Some (b1, n2)" "inb 0x60 n2 = Some (b2, n')"
    using ins3 [OF assms(3)] by blast
  obtain x0 x1 x2 where b: "mouse_byte m = [x0, x1, x2]"
    using assms(2) by (auto simp: numeral_3_eq_3 length_Suc_conv)
  define s' where "s' = mouse_update [b0, b1, b2] (s\<lparr>knet := n'\<rparr>)"
  have "nbind (mouse_handler m) (\<lambda>m. nbind (mouse_handler m) mouse_handler) s
      = Some (m\<lparr>mouse_byte := [b0, b1, b2], mouse_cycle := 0\<rparr>, s')"
    using assms(1) b i by (simp add: mouse_handler_def run_net_def nbind_def s'_def)
  moreover have "s' = s\<lparr>knet := n', mouse_b := scast b0, mouse_x := mouse_x s', mouse_y := mouse_y s'\<rparr>"
    by (simp add: s'_def mouse_update_def)
  moreover have "int (unat (mouse_x s')) = clamp_int (unat w) (int (unat (mouse_x s)) + sint b1)"
    using clamp_mouse_sint [OF assms(6), of "mouse_x s + mouse_delta b1"] moved_sint(1) [OF assms(4)]
    by (simp add: s'_def mouse_update_def)
  moreover have "int (unat (mouse_y s')) = clamp_int (unat h) (int (unat (mouse_y s)) - sint b2)"
    using clamp_mouse_sint [OF assms(7), of "mouse_y s - mouse_delta b2"] moved_sint(2) [OF assms(5)]
    by (simp add: s'_def mouse_update_def)
  ultimately show ?thesis by (intro exI [of _ "m\<lparr>mouse_byte := [b0, b1, b2], mouse_cycle := 0\<rparr>"] exI [of _ s']) simp
qed

text \<open>The witness: a mouse at (796, 3) that is moved by 12 to the right and by 10 up.\<close>

definition sample_mouse :: mouse where
  "sample_mouse = \<lparr>mouse_cycle = 0, mouse_byte = [0, 0, 0]\<rparr>"

definition mouse_port :: "port_event list \<Rightarrow> u16 \<Rightarrow> u8" where
  "mouse_port t p = (if length t = 0 then 0x08 else if length t = 1 then 12 else 10)"

definition mouse_kernel :: kernel where
  "mouse_kernel = sample_kernel\<lparr>graphics_mode := 1, screen_width_px := 800, screen_height_px := 600, mouse_x := 796,
     mouse_y := 3, knet := (knet sample_kernel)\<lparr>io_trace := [], dev8 := mouse_port\<rparr>\<rparr>"

theorem mouse_packet_moves_witness:
  "\<exists>m' s'. nbind (mouse_handler sample_mouse) (\<lambda>m. nbind (mouse_handler m) mouse_handler) mouse_kernel = Some (m', s') \<and>
    int (unat (mouse_x s')) = 800 \<and> int (unat (mouse_y s')) = 0"
proof -
  define n' where "n' = (knet mouse_kernel)\<lparr>io_trace := [In8 0x60 10, In8 0x60 12, In8 0x60 0x08]\<rparr>"
  have "ins 3 0x60 (knet mouse_kernel) = Some ([0x08, 12, 10], n')"
    by (simp add: numeral_3_eq_3 nbind_def inb_def n'_def mouse_kernel_def mouse_port_def Let_def)
  moreover have "mouse_cycle sample_mouse = 0" "length (mouse_byte sample_mouse) = 3"
    by (simp_all add: sample_mouse_def)
  moreover have k: "mouse_x mouse_kernel = 796" "mouse_y mouse_kernel = 3" "graphics_mode mouse_kernel = 1"
    "screen_width_px mouse_kernel = 800" "screen_height_px mouse_kernel = 600"
    by (simp_all add: mouse_kernel_def)
  ultimately show ?thesis
    using mouse_packet_moves [where m = sample_mouse and s = mouse_kernel and ?b1.0 = 12 and w = 800 and h = 600] by (auto simp: clamp_int_def)
qed

end
