(* ===== verification/Kernel_Start.thy ===== *)
theory Kernel_Start
  imports Kernel_Devices
begin

section \<open>The kernel comes up\<close>

text \<open>
  \<open>kernel_hardware\<close> always comes to its end when the network card, if there is one, leaves its reset, and establishes
  the invariants the allocators, the table of disks and the screen are used with. \<open>runs d m\<close> says that a driver
  comes to its end on every state with the devices \<open>d\<close> behind the ports and keeps them.
\<close>

definition runs :: "(port_event list \<Rightarrow> u16 \<Rightarrow> u8) \<Rightarrow> ('z io_scheme, 'a) iom \<Rightarrow> bool" where
  "runs d m \<longleftrightarrow> (\<forall>s. dev8 s = d \<longrightarrow> (\<exists>x s'. m s = Some (x, s') \<and> dev8 s' = d))"

named_theorems runs_intros

lemma runs_nbind [runs_intros]:
  assumes "runs d m" "\<And>x. runs d (k x)"
  shows "runs d (nbind m k)"
  using assms unfolding runs_def nbind_def by (metis (no_types, lifting) bind.bind_lunit case_prod_conv)

lemma runs_nret [runs_intros]: "runs d (nret x)"
  by (simp add: runs_def)

lemma runs_nget [runs_intros]: "runs d (nget f)"
  by (simp add: runs_def)

lemma runs_cond [runs_intros]: "runs d m \<Longrightarrow> runs d n \<Longrightarrow> runs d (if b then m else n)"
  by simp

lemma runs_nput: "(\<And>s. dev8 (f s) = dev8 s) \<Longrightarrow> runs d (nput f)"
  by (simp add: runs_def)

lemma runs_inb [runs_intros]: "runs d (inb p)"
  by (simp add: runs_def inb_def Let_def)

lemma runs_outb [runs_intros]: "runs d (outb v p)"
  by (simp add: runs_def outb_def)

lemma runs_inl [runs_intros]: "runs d (inl p)"
  by (simp add: runs_def inl_def Let_def)

lemma runs_outl [runs_intros]: "runs d (outl v p)"
  by (simp add: runs_def outl_def)

lemma runs_while_in:
  assumes "settles d P p"
  shows "runs d (\<lambda>s. while_in P p s)"
proof -
  have "\<exists>s'. while_in P p s = Some ((), s') \<and> only_reads s s'" if "dev8 s = d" for s :: "'a io_scheme"
    using while_in_settles [of s P p] that assms by simp
  then show ?thesis unfolding runs_def only_reads_def by fastforce
qed

lemma runs_mouse_poll [runs_intros]: "runs d (mouse_poll n stop)"
  by (induction n; simp only: mouse_poll.simps; (intro runs_intros runs_nput; (assumption | simp))?)

lemma runs_mouse_init [runs_intros]: "runs d mouse_init"
  unfolding mouse_init_def mouse_write_def mouse_read_def mouse_wait_def Let_def
  by (intro runs_intros)

lemma runs_pci_read_config [runs_intros]: "runs d (pci_read_config a ofs)"
  unfolding pci_read_config_def by (intro runs_intros)

lemma runs_pci_read_device [runs_intros]: "runs d (pci_read_device a is)"
  by (induction "is"; simp only: pci_read_device.simps; (intro runs_intros runs_nput; (assumption | simp))?)

lemma runs_pci_scan [runs_intros]: "runs d (pci_scan l)"
  by (induction l; simp only: pci_scan.simps; (intro runs_intros runs_nput; (assumption | simp))?)

lemma runs_pci_init [runs_intros]: "runs d pci_init"
  unfolding pci_init_def by (intro runs_intros runs_nput) simp

lemma runs_outb_all [runs_intros]: "runs d (outb_all l)"
  by (induction l; simp only: outb_all.simps; (intro runs_intros runs_nput; (assumption | simp))?)

lemma runs_read_mac [runs_intros]: "runs d (read_mac n p)"
  by (induction n; simp only: read_mac.simps; (intro runs_intros runs_nput; (assumption | simp))?)

lemma runs_page_select [runs_intros]: "runs d (ne2k_page_select n)"
  unfolding ne2k_page_select_def Let_def by (intro runs_intros)

lemma runs_option [runs_intros]: "runs d m \<Longrightarrow> (\<And>x. runs d (k x)) \<Longrightarrow> runs d (case q of None \<Rightarrow> m | Some x \<Rightarrow> k x)"
  by (cases q) simp_all

lemma runs_prod [runs_intros]: "(\<And>x y. runs d (k x y)) \<Longrightarrow> runs d (case p of (x, y) \<Rightarrow> k x y)"
  by (cases p) simp

lemma runs_net_init:
  assumes "\<And>p. settles d (\<lambda>v. v AND 0x80 = 0) p"
  shows "runs d net_init"
  unfolding net_init_def detect_card_def start_card_def
  by (intro runs_intros runs_nput runs_while_in [OF assms]) simp_all

subsection \<open>The state after the hardware is initialised\<close>

lemma kernel_heap_inv:
  assumes "length h = HEAP_MAX_BLOCK" "0 < unat base" "unat base + HEAP_MEM_SIZE \<le> 65536"
  shows "heap_inv base (heap_init h)"
  using assms by (simp add: heap_inv_def heap_init_def blk_ok_def)

lemma init_disk_info_ids:
  "map di_id (disk_info (init_disk_info s i)) = map di_id (disk_info s)"
  "map di_name (disk_info (init_disk_info s i)) = map di_name (disk_info s)"
  by (cases "i < length (disk_info s)";
      simp add: init_disk_info_def Let_def map_update split: option.splits;
      simp add: list_eq_iff_nth_eq nth_list_update)+

lemma fs_init_info_ids:
  "map di_id (disk_info (fs_init_info s)) = map di_id (disk_info s)"
  "map di_name (disk_info (fs_init_info s)) = map di_name (disk_info s)"
proof -
  have "map di_id (disk_info (foldl init_disk_info s is)) = map di_id (disk_info s) \<and>
      map di_name (disk_info (foldl init_disk_info s is)) = map di_name (disk_info s)" for "is"
    by (induction "is" arbitrary: s) (simp_all add: init_disk_info_ids)
  then show "map di_id (disk_info (fs_init_info s)) = map di_id (disk_info s)"
    "map di_name (disk_info (fs_init_info s)) = map di_name (disk_info s)"
    by (simp_all add: fs_init_info_def)
qed

lemma disk_hardware_id [simp]:
  "di_id (disk_hardware g ms d) = di_id d" "di_name (disk_hardware g ms d) = di_name d"
  by (simp_all add: disk_hardware_def split: prod.splits)

lemma named_disks:
  "map di_id (name_disks d) = [0x00, 0x01, 0x80, 0x81]"
  "map di_name (name_disks d) = [bytes ''fd0'', bytes ''fd1'', bytes ''hd0'', bytes ''hd1'']"
  by (simp_all add: name_disks_def disk_names_def upt_rec numeral_eq_Suc del: bytes_simps)

lemma run_net_runs:
  assumes "runs d m" "dev8 (knet s) = d"
  shows "\<exists>x n. run_net m s = Some (x, s\<lparr>knet := n\<rparr>) \<and> dev8 n = d"
  using assms unfolding runs_def run_net_def by fastforce

text \<open>
  C19: starting the hardware comes to its end if the flag of the network card that ends its reset comes up, whatever
  the disks and the mouse answer. Both allocators are empty and well formed, the four disks have their
  identifiers and names, and the screen is told, in this order, its mode, to show the cursor and to clear.
\<close>

theorem hardware_started:
  assumes "length (kheap s) = HEAP_MAX_BLOCK" "0 < unat (heap_addr s)" "unat (heap_addr s) + HEAP_MEM_SIZE \<le> 65536"
    and "\<And>p. settles (dev8 (knet s)) (\<lambda>v. v AND 0x80 = 0) p"
  shows "\<exists>s'. kernel_hardware geometry ms s = Some ((), s') \<and>
    heap_inv (heap_addr s') (kheap s') \<and> list_all (\<lambda>b. used b = 0) (kheap s') \<and>
    lmem_inv (klmem s') \<and> live (klmem s') = [] \<and>
    map di_id (disk_info (kfs s')) = [0x00, 0x01, 0x80, 0x81] \<and>
    map di_name (disk_info (kfs s')) = [bytes ''fd0'', bytes ''fd1'', bytes ''hd0'', bytes ''hd1''] \<and>
    events s' = ClearScreen # ShowCursor # (if graphics_mode s \<noteq> 0 then GraphicsMode else TextMode) # events s \<and>
    far s' = far s"
proof -
  define s1 where "s1 = kernel_memory s"
  obtain s2 where s2: "kernel_screen s1 = Some ((), s2)"
    "kheap s2 = kheap s1" "klmem s2 = klmem s1" "heap_addr s2 = heap_addr s1" "far s2 = far s1" "knet s2 = knet s1"
    "events s2 = ClearScreen # ShowCursor # (if graphics_mode s1 \<noteq> 0 then GraphicsMode else TextMode) # events s1"
    by (cases "graphics_mode s1 = 0")
      (simp_all add: kernel_screen_def io_set_graphics_mode_def io_set_text_mode_def emit_def nbind_def)
  define s3 where "s3 = kernel_disks geometry ms s2"
  define d where "d = dev8 (knet s3)"
  have d: "d = dev8 (knet s)" by (simp add: d_def s3_def kernel_disks_def s2 s1_def kernel_memory_def)
  obtain n4 where n4: "run_net mouse_init s3 = Some ((), s3\<lparr>knet := n4\<rparr>)" "dev8 n4 = d"
    using run_net_runs [OF runs_mouse_init d_def [symmetric]] by auto
  obtain n5 where n5: "run_net pci_init (s3\<lparr>knet := n4\<rparr>) = Some ((), s3\<lparr>knet := n5\<rparr>)" "dev8 n5 = d"
    using run_net_runs [OF runs_pci_init, of "s3\<lparr>knet := n4\<rparr>" d] n4 by auto
  obtain n6 where n6: "run_net net_init (s3\<lparr>knet := n5\<rparr>) = Some ((), s3\<lparr>knet := n6\<rparr>)"
    using run_net_runs [OF runs_net_init, of d "s3\<lparr>knet := n5\<rparr>"] n5 assms(4) d by auto
  have "kernel_hardware geometry ms s = Some ((), s3\<lparr>knet := n6\<rparr>)"
    using s2(1) n4(1) n5(1) n6 by (simp add: kernel_hardware_def nbind_def s1_def [symmetric] s3_def)
  moreover have "heap_inv (heap_addr s3) (kheap s3)" "klmem s3 = lmem_init"
    using kernel_heap_inv [OF assms(1-3)]
    by (simp_all add: s3_def kernel_disks_def s2 s1_def kernel_memory_def)
  moreover have "list_all (\<lambda>b. used b = 0) (kheap s3)"
    by (simp add: s3_def kernel_disks_def s2 s1_def kernel_memory_def heap_init_def list_all_iff)
  moreover have "map di_id (disk_info (kfs s3)) = [0x00, 0x01, 0x80, 0x81]"
    "map di_name (disk_info (kfs s3)) = [bytes ''fd0'', bytes ''fd1'', bytes ''hd0'', bytes ''hd1'']"
    using named_disks by (simp_all add: s3_def kernel_disks_def fs_init_info_ids comp_def del: bytes_simps)
  moreover have "events s3 = ClearScreen # ShowCursor # (if graphics_mode s \<noteq> 0 then GraphicsMode else TextMode) # events s"
    "far s3 = far s"
    by (simp_all add: s3_def kernel_disks_def s2 s1_def kernel_memory_def)
  ultimately show ?thesis using lmem_init_inv live_init by (intro exI [of _ "s3\<lparr>knet := n6\<rparr>"]) (simp del: bytes_simps)
qed

theorem hardware_started_witness:
  "\<exists>s'. kernel_hardware (\<lambda>d. (0, 18, 2, 80)) 10
      (sample_kernel\<lparr>knet := sample_net\<lparr>dev8 := \<lambda>t p. 0x80, network_enabled := 1\<rparr>\<rparr>) = Some ((), s') \<and>
    lmem_inv (klmem s') \<and> map di_id (disk_info (kfs s')) = [0x00, 0x01, 0x80, 0x81]"
proof -
  define s where "s = sample_kernel\<lparr>knet := sample_net\<lparr>dev8 := \<lambda>t p. 0x80, network_enabled := 1\<rparr>\<rparr>"
  have "length (kheap s) = HEAP_MAX_BLOCK" "0 < unat (heap_addr s)" "unat (heap_addr s) + HEAP_MEM_SIZE \<le> 65536"
    by (simp_all add: s_def sample_kernel_def heap_init_def)
  moreover have "settles (dev8 (knet s)) (\<lambda>v. v AND 0x80 = 0) p" for p by (simp add: s_def settles_def)
  ultimately have "\<exists>s'. kernel_hardware (\<lambda>d. (0, 18, 2, 80)) 10 s = Some ((), s') \<and>
      lmem_inv (klmem s') \<and> map di_id (disk_info (kfs s')) = [0x00, 0x01, 0x80, 0x81]"
    using hardware_started [of s "\<lambda>d. (0, 18, 2, 80)" 10] by metis
  then show ?thesis by (simp only: s_def)
qed

end
