(* ===== verification/Kernel_Calls.thy ===== *)
theory Kernel_Calls
  imports Kernel_Start Cli_Config
begin

section \<open>The kernel in use\<close>

text \<open>
  The kernel as a transition system: a step is a system call of some program, an interrupt of the mouse or of the timer, a
  command of the command line, or anything a program does to memory that is not the kernel's. Whatever the programs call,
  with whatever parameters, the state the kernel was started in keeps its shape.
\<close>

subsection \<open>Steps\<close>

text \<open>
  The machine protects nothing: a program can write into the segment of the kernel, \<open>0x8000\<close> to \<open>0x17FFF\<close>, or to the interrupt vectors
  and the data of the BIOS below, and can have a service write its result there, and then nothing holds. The variables of the
  kernel are fields of the state and not bytes of \<open>far\<close>, so the steps say it: what a program does, or a service for it,
  leaves this area as it is. The kernel itself calls its services with results in its own local variables.
\<close>

definition kernel_area :: "u20 set" where
  "kernel_area = {a. a < 0x18000}"

definition spares_kernel :: "fmem \<Rightarrow> fmem \<Rightarrow> bool" where
  "spares_kernel m m' \<longleftrightarrow> (\<forall>a \<in> kernel_area. m' a = m a)"


text \<open>
  \<open>G\<close> restricts the calls that are made. A command that starts a program is a step up to the call of the program; what the
  program does are steps of their own.
\<close>

inductive kernel_step :: "(kernel \<Rightarrow> u16 \<Rightarrow> u32 \<Rightarrow> bool) \<Rightarrow> kernel \<Rightarrow> kernel \<Rightarrow> bool" for G where
  system_call: "kernel_service cs service p s = Some (r, s') \<Longrightarrow> G s service p \<Longrightarrow>
    cs = KERN_MEMSEG \<or> spares_kernel (far s) (far s') \<Longrightarrow> kernel_step G s s'"
| mouse_interrupt: "mouse_handler m s = Some (m', s') \<Longrightarrow> kernel_step G s s'"
| timer_interrupt: "kernel_step G s (s\<lparr>kfs := (kfs s)\<lparr>disk_info := snd (tick_disks ms 0 (disk_info (kfs s)))\<rparr>\<rparr>)"
| command: "uprog_call c = (\<lambda>argc argv. nret r) \<Longrightarrow> execute c str s = Some ((), s') \<Longrightarrow> kernel_step G s s'"
| program_step: "spares_kernel (far s) m \<Longrightarrow> kernel_step G s (s\<lparr>far := m\<rparr>)"

inductive_cases kernel_stepE: "kernel_step G s s'"

subsection \<open>The shape of the state\<close>




text \<open>The part of the state \<open>kernel_ok\<close> is about, and code that keeps it.\<close>

definition shape :: "kernel \<Rightarrow> u16 \<times> heap \<times> lmem \<times> u16 \<times> (u16 \<times> u16 \<times> u16 \<times> u16) \<times> u16 \<times> u16" where
  "shape s = (heap_addr s, kheap s, klmem s, graphics_mode s,
     (screen_width_c s, screen_height_c s, screen_width_px s, screen_height_px s), mouse_x s, mouse_y s)"



definition keeps :: "'a kernelm \<Rightarrow> bool" where
  "keeps m \<longleftrightarrow> (\<forall>s r s'. m s = Some (r, s') \<longrightarrow> shape s' = shape s)"

named_theorems keeps_intros

lemma keepsD: "keeps m \<Longrightarrow> m s = Some (r, s') \<Longrightarrow> shape s' = shape s"
  unfolding keeps_def by blast

lemma keeps_nbind [keeps_intros]:
  assumes "keeps m" "\<And>x. keeps (k x)"
  shows "keeps (nbind m k)"
  unfolding keeps_def
proof (intro allI impI)
  fix s r s' assume "nbind m k s = Some (r, s')"
  then obtain x s1 where "m s = Some (x, s1)" "k x s1 = Some (r, s')"
    by (auto simp: nbind_def bind_eq_Some_conv)
  then show "shape s' = shape s" using keepsD [OF assms(1)] keepsD [OF assms(2)] by metis
qed

lemma keeps_basic [keeps_intros]: "keeps (nret x)" "keeps (nget f)" "keeps (put_far a bs)" "keeps (emit e)"
  by (simp_all add: keeps_def put_far_def emit_def shape_def)

lemma keeps_run [keeps_intros]: "keeps (run_fs f)" "keeps (run_net n)"
  by (auto simp: keeps_def run_fs_def run_net_def shape_def bind_eq_Some_conv)

lemma keeps_if [keeps_intros]: "keeps m \<Longrightarrow> keeps n \<Longrightarrow> keeps (if b then m else n)"
  by simp

lemma keeps_nput: "(\<And>s. shape (f s) = shape s) \<Longrightarrow> keeps (nput f)"
  by (simp add: keeps_def)

lemma keeps_option: "keeps n \<Longrightarrow> (\<And>x. keeps (m x)) \<Longrightarrow> keeps (case v of None \<Rightarrow> n | Some x \<Rightarrow> m x)"
  by (cases v) simp_all

lemma keeps_prod [keeps_intros]: "(\<And>x y. keeps (m x y)) \<Longrightarrow> keeps (case v of (x, y) \<Rightarrow> m x y)"
  by (cases v) simp

subsection \<open>Services\<close>

lemma keeps_each:
  assumes "\<And>s y. f s = Some y \<Longrightarrow> shape (snd y) = shape s"
  shows "keeps f"
  using assms by (force simp: keeps_def)

lemma keeps_state: "keeps m \<Longrightarrow> m s = Some y \<Longrightarrow> shape (snd y) = shape s"
  using keepsD [of m s "fst y" "snd y"] by simp

lemma keeps_then:
  assumes "keeps m" "\<And>x s1 y. k x s1 = Some y \<Longrightarrow> shape (snd y) = shape s1" "nbind m k s = Some y"
  shows "shape (snd y) = shape s"
proof -
  obtain x s1 where "m s = Some (x, s1)" "k x s1 = Some y" using assms(3) by (auto simp: nbind_def bind_eq_Some_conv)
  then show ?thesis using keepsD [OF assms(1)] assms(2) by metis
qed

lemma key_loop_keeps [keeps_intros]: "keeps (\<lambda>s. key_loop mode s)"
proof (rule keeps_each)
  fix s y assume "key_loop mode s = Some y"
  then show "shape (snd y) = shape s"
  proof (rule key_loop.raw_induct [rotated])
    fix rec :: "u16 \<Rightarrow> kernel \<Rightarrow> (u16 \<times> kernel) option" and mode :: u16 and s :: kernel and y
    assume ih: "\<And>mode s y. rec mode s = Some y \<Longrightarrow> shape (snd y) = shape s"
      and "nbind io_in_key (\<lambda>k s. if k = 0 \<and> mode = KM_WAIT_KEY \<or> k \<noteq> 0 \<and> mode = KM_CLEAR_BUFFER
        then rec mode s else nret k s) s = Some y"
    then show "shape (snd y) = shape s"
      by (auto simp: nbind_def io_in_key_def Let_def split: if_splits dest!: ih) (simp_all add: shape_def)
  qed
qed

lemma read_blocks_keeps [keeps_intros]: "keeps (\<lambda>s. read_blocks fi path offset s)"
proof (rule keeps_each)
  fix s y assume "read_blocks fi path offset s = Some y"
  then show "shape (snd y) = shape s"
  proof (rule read_blocks.raw_induct [rotated])
    fix rec :: "syscall_fsrwfile \<Rightarrow> u8 list \<Rightarrow> u16 \<Rightarrow> kernel \<Rightarrow> (u16 \<times> kernel) option"
      and fi :: syscall_fsrwfile and path :: "u8 list" and offset :: u16 and s :: kernel and y
    assume ih: "\<And>fi path offset s y. rec fi path offset s = Some y \<Longrightarrow> shape (snd y) = shape s"
      and "(if offset < rw_count fi
        then (case fs_read_file (kfs s) path (rw_offset fi + offset) (min16 BLOCK_SIZE (rw_count fi - offset)) of
                Inl c \<Rightarrow> nret c s
              | Inr (n, b) \<Rightarrow>
                  if n \<ge> ERROR_ANY then nret n s
                  else if n = 0 then nret offset s
                  else nbind (put_far (rw_buff fi + ucast offset) (local_buff s (unat n) b)) (\<lambda>_ s.
                       rec fi path (offset + n) s) s)
        else nret offset s) = Some y"
    then show "shape (snd y) = shape s"
      by (auto simp: nbind_def put_far_def split: if_splits sum.splits prod.splits dest!: ih) (simp_all add: shape_def)
  qed
qed

lemma write_blocks_keeps [keeps_intros]: "keeps (\<lambda>s. write_blocks fi path offset s)"
proof (rule keeps_each)
  fix s y assume "write_blocks fi path offset s = Some y"
  then show "shape (snd y) = shape s"
  proof (rule write_blocks.raw_induct [rotated])
    fix rec :: "syscall_fsrwfile \<Rightarrow> u8 list \<Rightarrow> u16 \<Rightarrow> kernel \<Rightarrow> (u16 \<times> kernel) option"
      and fi :: syscall_fsrwfile and path :: "u8 list" and offset :: u16 and s :: kernel and y
    assume ih: "\<And>fi path offset s y. rec fi path offset s = Some y \<Longrightarrow> shape (snd y) = shape s"
      and "(if offset < rw_count fi
        then (let count = min16 BLOCK_SIZE (rw_count fi - offset);
                  tbuff = fget (far s) (rw_buff fi + ucast offset) (unat count)
              in nbind (run_fs (fs_write_file tbuff path (rw_offset fi + offset) count (rw_flags fi))) (\<lambda>r s.
                 case r of
                   Inl c \<Rightarrow> nret c s
                 | Inr (w, path) \<Rightarrow> if w \<ge> ERROR_ANY then nret w s else rec fi path (offset + w) s) s)
        else nret offset s) = Some y"
    note body = this
    have rest: "shape (snd y) = shape s1"
      if "(case r of Inl c \<Rightarrow> nret c s1
          | Inr (w, path) \<Rightarrow> if w \<ge> ERROR_ANY then nret w s1 else rec fi path (offset + w) s1) = Some y"
      for r :: "u16 + u16 \<times> u8 list" and s1 y
      using that by (cases r) (auto split: if_split_asm prod.split_asm dest: ih)
    show "shape (snd y) = shape s"
    proof (cases "offset < rw_count fi")
      case True
      then show ?thesis using body(2) keeps_then [OF keeps_run(1) rest] by (simp add: Let_def)
    qed (use body(2) in auto)
  qed
qed

lemma screen_service_keeps:
  assumes "service \<noteq> SYSCALL_IO_SET_VIDEO_MODE"
  shows "keeps (screen_service service p)"
  using assms
  by (auto simp: screen_service_def service_get_screen_size_def service_set_pixel_def service_out_char_def
      service_out_char_attr_def service_set_cursor_pos_def service_get_cursor_pos_def service_set_show_cursor_def
      service_in_key_def service_get_mouse_state_def service_out_char_serial_def service_out_char_debug_def Let_def
      intro!: keeps_intros)

lemma file_service_keeps: "keeps (file_service service p)"
  unfolding file_service_def service_fs_get_info_def service_fs_get_entry_def service_fs_read_file_def
    service_fs_write_file_def service_fs_move_def service_fs_copy_def service_fs_delete_def
    service_fs_create_directory_def service_fs_list_def service_fs_format_def Let_def
  by (intro keeps_intros)

lemma clock_net_service_keeps: "keeps (clock_net_service service p)"
proof -
  have "keeps (service_clk_get_time p)" "keeps (service_clk_get_milisec p)"
    by (auto simp: keeps_def service_clk_get_time_def service_clk_get_milisec_def shape_def split: prod.splits)
  then show ?thesis
    unfolding clock_net_service_def service_net_recv_def service_net_send_def Let_def by (intro keeps_intros)
qed








text \<open>The service that draws a character calls itself, so no call of it comes back.\<close>

lemma draw_char_service_never_returns:
  assumes "kernel_service cs n p s = Some y"
  shows "n \<noteq> SYSCALL_IO_DRAW_CHAR"
  using assms
proof (rule kernel_service.raw_induct [rotated])
  fix rec :: "u16 \<Rightarrow> u16 \<Rightarrow> u32 \<Rightarrow> kernel \<Rightarrow> (u16 \<times> kernel) option" and cs n :: u16 and p :: u32 and s :: kernel and y
  assume ih: "\<And>cs n p s y. rec cs n p s = Some y \<Longrightarrow> n \<noteq> SYSCALL_IO_DRAW_CHAR"
    and "(if n = SYSCALL_IO_DRAW_CHAR
      then nbind (nget (\<lambda>s. (posattr_at (far s) p, kernel_frame s))) (\<lambda>(ca, frame) s.
           nbind (put_far frame (posattr_bytes ca)) (\<lambda>_ s.
           nbind (\<lambda>s. rec KERN_MEMSEG SYSCALL_IO_DRAW_CHAR frame s) (\<lambda>_ s. nret 0 s) s) s) s
      else if n < SYSCALL_MEM_ALLOCATE then screen_service n p s
      else if n < SYSCALL_FS_GET_INFO then memory_service cs n p s
      else if n < SYSCALL_CLK_GET_TIME then file_service n p s
      else clock_net_service n p s) = Some y"
  then show "n \<noteq> SYSCALL_IO_DRAW_CHAR" by (auto simp: nbind_def put_far_def bind_eq_Some_conv) (drule ih, simp)
qed

text \<open>The service that runs, as a function of its number.\<close>

lemma kernel_service_cases:
  assumes "kernel_service cs service p s = Some (r, s')"
  obtains "service = SYSCALL_IO_SET_VIDEO_MODE" "service_set_video_mode p s = Some (r, s')"
    | "service \<noteq> SYSCALL_IO_SET_VIDEO_MODE" "screen_service service p s = Some (r, s')"
    | "SYSCALL_MEM_ALLOCATE \<le> service" "service < SYSCALL_FS_GET_INFO" "memory_service cs service p s = Some (r, s')"
    | "file_service service p s = Some (r, s')"
    | "clock_net_service service p s = Some (r, s')"
proof -
  have "service \<noteq> SYSCALL_IO_DRAW_CHAR" using assms draw_char_service_never_returns by blast
  then show ?thesis
    using assms that by (subst (asm) kernel_service.simps) (auto simp: screen_service_def not_less split: if_split_asm)
qed


subsection \<open>Interrupts\<close>




subsection \<open>Commands\<close>

lemma syscall_keeps [keeps_intros]:
  assumes "service \<noteq> SYSCALL_IO_SET_VIDEO_MODE" "service < SYSCALL_MEM_ALLOCATE \<or> SYSCALL_FS_GET_INFO \<le> service"
  shows "keeps (syscall u service p)"
  unfolding keeps_def
proof (intro allI impI)
  fix s r s' assume "syscall u service p s = Some (r, s')"
  then have "kernel_service (seg u) service p s = Some (r, s')" by (simp add: syscall_def)
  then show "shape s' = shape s"
  proof (cases rule: kernel_service_cases)
    case 2
    then show ?thesis using keepsD [OF screen_service_keeps] by blast
  next
    case 4
    then show ?thesis using keepsD [OF file_service_keeps] by blast
  next
    case 5
    then show ?thesis using keepsD [OF clock_net_service_keeps] by blast
  qed (use assms in auto)
qed

lemma keeps_all [keeps_intros]: "(\<And>x. keeps (f x)) \<Longrightarrow> keeps (each f xs)"
  by (induction xs) (simp_all add: keeps_intros)

lemma keeps_sum [keeps_intros]:
  "(\<And>x. keeps (f x)) \<Longrightarrow> (\<And>y. keeps (g y)) \<Longrightarrow> keeps (case v of Inl x \<Rightarrow> f x | Inr y \<Rightarrow> g y)"
  by (cases v) simp_all

lemma keeps_none [keeps_intros]: "keeps (\<lambda>s. None)"
  by (simp add: keeps_def)

lemma output_keeps [keeps_intros]:
  "keeps (putchar u ch)" "keeps (say c fmt ws strs)" "keeps (tell c text)" "keeps (clear_screen u)" "keeps (getkey u mode)"
  "keeps (ulib_time u t)"
  unfolding tell_def say_def put_string_def putchar_def clear_screen_def getkey_def ulib_time_def ignore_def syscall_with_def
  by (intro keeps_intros; simp)+

lemma keeps_timer [keeps_intros]: "keeps read_timer"
  by (simp add: keeps_def read_timer_def shape_def)

lemma list_entries_keeps [keeps_intros]: "keeps (list_entries c path is)"
proof (induction "is")
  case (Cons i "is")
  show ?case unfolding list_entries.simps list_entry_def Let_def by (intro keeps_intros Cons.IH)
qed (simp only: list_entries.simps, intro keeps_intros)

lemma clone_entries_keeps [keeps_intros]: "keeps (clone_entries c target is r)"
proof (induction "is" arbitrary: r)
  case (Cons i "is")
  show ?case unfolding clone_entries.simps Let_def by (intro keeps_intros Cons.IH)
qed (simp only: clone_entries.simps, intro keeps_intros)

lemma keeps_fs_nput [keeps_intros]: "keeps (nput (\<lambda>s. s\<lparr>kfs := f s\<rparr>))" "keeps (nput (\<lambda>s. s\<lparr>far := m s\<rparr>))"
  by (simp_all add: keeps_nput shape_def)


lemma cli_read_loop_keeps [keeps_intros]: "keeps (\<lambda>s. cli_read_loop c hex path offset s)"
proof (rule keeps_each)
  fix s y assume "cli_read_loop c hex path offset s = Some y"
  then show "shape (snd y) = shape s"
  proof (rule cli_read_loop.raw_induct [rotated])
    fix rec :: "console \<Rightarrow> bool \<Rightarrow> u8 list \<Rightarrow> u16 \<Rightarrow> kernel \<Rightarrow> (unit \<times> kernel) option"
      and c :: console and hex :: bool and path :: "u8 list" and offset :: u16 and s :: kernel and y
    assume ih: "\<And>c hex path offset s y. rec c hex path offset s = Some y \<Longrightarrow> shape (snd y) = shape s"
      and body: "(case fs_read_file (kfs s) path offset 512 of
          Inl e \<Rightarrow> read_error c s
        | Inr (n, b) \<Rightarrow>
            if n = 0 then nret () s
            else if n \<ge> ERROR_ANY then read_error c s
            else nbind (each (show_byte c hex) (read_buff s n b)) (\<lambda>_ s. rec c hex path (offset + n) s) s) = Some y"
    have "keeps (show_byte c hex b)" for b unfolding show_byte_def by (intro keeps_intros)
    then have "keeps (each (show_byte c hex) bs)" for bs by (rule keeps_all)
    note next_block = keeps_then [OF this ih]
    have "keeps (read_error c)" unfolding read_error_def by (intro keeps_intros)
    note error = keeps_state [OF this]
    consider "y = ((), s)" | "read_error c s = Some y"
      | n bs where "nbind (each (show_byte c hex) bs) (\<lambda>_ s. rec c hex path (offset + n) s) s = Some y"
      using body by (auto split: sum.splits prod.splits if_split_asm)
    then show "shape (snd y) = shape s" using error next_block by cases auto
  qed
qed

lemma load_program_keeps [keeps_intros]: "keeps (\<lambda>s. load_program c name mem_size offset s)"
proof (rule keeps_each)
  fix s y assume "load_program c name mem_size offset s = Some y"
  then show "shape (snd y) = shape s"
  proof (rule load_program.raw_induct [rotated])
    fix rec :: "console \<Rightarrow> u8 list \<Rightarrow> u16 \<Rightarrow> u16 \<Rightarrow> kernel \<Rightarrow> (bool \<times> kernel) option"
      and c :: console and name :: "u8 list" and mem_size offset :: u16 and s :: kernel and y
    assume ih: "\<And>c name mem_size offset s y. rec c name mem_size offset s = Some y \<Longrightarrow> shape (snd y) = shape s"
      and body: "(if offset < mem_size
        then (case fs_read_file (kfs s) name offset (min16 (mem_size - offset) 512) of
                Inl e \<Rightarrow> nbind (tell c ''error loading file'') (\<lambda>_. nret False) s
              | Inr (r, b) \<Rightarrow>
                  if r < ERROR_ANY
                  then nbind (put_bytes_at (push_bit 4 UPROG_MEMSEG + UPROG_MEMLOC + ucast offset) (local_buff s (unat r) b)) (\<lambda>_ s.
                       rec c name mem_size (offset + r) s) s
                  else nbind (tell c ''error loading file'') (\<lambda>_. nret False) s)
        else nret True s) = Some y"
    have "keeps (put_bytes_at a bs)" for a bs unfolding put_bytes_at_def by (intro keeps_intros)
    note next_block = keeps_then [OF this ih]
    have "keeps (nbind (tell c ''error loading file'') (\<lambda>_. nret False))" by (intro keeps_intros)
    note error = keeps_state [OF this]
    consider "y = (True, s)" | "nbind (tell c ''error loading file'') (\<lambda>_. nret False) s = Some y"
      | a bs r where "nbind (put_bytes_at a bs) (\<lambda>_ s. rec c name mem_size (offset + r) s) s = Some y"
      using body by (auto split: sum.splits prod.splits if_split_asm simp del: bytes_simps)
    then show "shape (snd y) = shape s" using error next_block by cases auto
  qed
qed






text \<open>After a change to text mode the mouse can be outside the screen of 80 by 50 characters.\<close>

lemma stale_mouse_position:
  assumes "mouse_x s = 800"
  shows "\<exists>s'. config_set c (bytes ''graphics'') (bytes ''disabled'') s = Some ((), s') \<and> mouse_x s' = 800 \<and> screen_width_c s' = 80"
proof -
  have "strcmp (bytes ''graphics'') (bytes ''debug'') \<noteq> 0" "strcmp (bytes ''disabled'') (bytes ''enabled'') \<noteq> 0"
    "strcmp (bytes ''graphics'') (bytes ''graphics'') = 0" "strcmp (bytes ''disabled'') (bytes ''disabled'') = 0"
    by simp_all
  then show ?thesis using assms by (simp add: config_set_def nbind_def io_set_text_mode_def emit_def del: bytes_simps)
qed

subsection \<open>Reachable states\<close>








end
