(* ===== verification/Mkfs.thy ===== *)
theory Mkfs
  imports Fs_Types
begin

section \<open>Making a disk image (fstools/mkfs.c)\<close>

text \<open>
  The host program that builds a system disk. The output file is a function from block numbers to
  blocks, the table of entries is the array it allocates, \<open>mk_e\<close> and \<open>mk_b\<close> are the next free entry and the next free
  block. Its numbers stay far below the bounds of the host's integers and are natural numbers; the fields of an
  entry have 32 bits. A file is its path and its contents, or \<open>None\<close> where it cannot be opened. The result is \<open>None\<close>
  where the program exits with an error and where it would write behind its table or the references of the
  root directory, which it does not check. Writing the output file is assumed to succeed.
\<close>

record mkfs =
  mk_image :: "nat \<Rightarrow> u8 list"
  mk_table :: "sfs_entry list"
  mk_e :: nat
  mk_b :: nat
  mk_buf :: "u8 list"

definition wblock :: "nat \<Rightarrow> u8 list \<Rightarrow> mkfs \<Rightarrow> mkfs" where
  "wblock bindex buf st = st\<lparr>mk_image := (mk_image st)(bindex := buf)\<rparr>"

text \<open>\<open>strncpy\<close> of 14 bytes into a name that was cleared.\<close>

definition name_field :: "u8 list \<Rightarrow> u8 list" where
  "name_field name = take (SFS_NAMESIZE - 1) (name @ replicate (SFS_NAMESIZE - 1) 0) @ [0]"

definition base_name :: "u8 list \<Rightarrow> u8 list" where
  "base_name path = rev (takeWhile (\<lambda>c. c \<noteq> PATH_SEPARATOR) (rev path))"

definition fresh_entry :: "u8 \<Rightarrow> u8 list \<Rightarrow> u32 \<Rightarrow> u32 \<Rightarrow> sfs_entry \<Rightarrow> sfs_entry" where
  "fresh_entry flags name sz parent e =
     e\<lparr>e_name := name, e_flags := flags, e_time := 0, e_size := sz, e_parent := parent, e_next := 0\<rparr>"

text \<open>The blocks of a file: entry \<open>e\<close> is its first, reference \<open>i\<close> the next one to be set.\<close>

function copy_file :: "nat \<Rightarrow> nat \<Rightarrow> u8 list \<Rightarrow> mkfs \<Rightarrow> mkfs option" where
  "copy_file e i rest st =
     (if rest = [] then Some st
      else let cc = min (unat BLOCK_SIZE) (length rest);
               buf = take cc rest @ drop cc (mk_buf st);
               t = mk_table st;
               ec = e + unat (e_size (t ! e)) div (unat SFS_ENTRYREFS * unat BLOCK_SIZE)
           in if ec \<ge> length t then None
              else let chained = (e \<noteq> ec \<and> e_name (t ! ec) ! 0 = 0);
                       t = (if chained
                            then t[ec := fresh_entry T_FILE (e_name (t ! e)) 0 (of_nat (ec - 1)) (t ! ec),
                                   ec - 1 := (t ! (ec - 1))\<lparr>e_next := of_nat ec\<rparr>]
                            else t);
                       i = (if chained then 0 else i);
                       t = t[ec := (t ! ec)\<lparr>e_ref := (e_ref (t ! ec))[i := of_nat (mk_b st)]\<rparr>];
                       st = wblock (mk_b st) buf st;
                       t = fold (\<lambda>k t. t[k := (t ! k)\<lparr>e_size := e_size (t ! k) + of_nat cc\<rparr>]) (rev [e ..< ec + 1]) t
                   in copy_file e (i + 1) (drop cc rest) (st\<lparr>mk_buf := buf, mk_table := t, mk_b := mk_b st + 1\<rparr>))"
  by pat_completeness auto
termination
  by (relation "measure (\<lambda>(e, i, rest, st). length rest)") auto

declare copy_file.simps [simp del]

text \<open>File number \<open>f\<close> of the command line, with its directory entry and its blocks, and the next free entry.\<close>

definition add_file :: "nat \<Rightarrow> u8 list \<times> u8 list option \<Rightarrow> mkfs \<Rightarrow> mkfs option" where
  "add_file f file st =
     (case snd file of
        None \<Rightarrow> None
      | Some data \<Rightarrow>
          let e = mk_e st; t = mk_table st
          in if e \<ge> length t \<or> f \<ge> unat SFS_ENTRYREFS then None
             else let t = t[0 := (t ! 0)\<lparr>e_ref := (e_ref (t ! 0))[f := of_nat e]\<rparr>];
                      t = t[e := fresh_entry T_FILE (name_field (base_name (fst file))) 0 0 (t ! e)]
                  in Option.bind (copy_file e 0 data (st\<lparr>mk_table := t\<rparr>)) (\<lambda>st.
                     map_option (\<lambda>k. st\<lparr>mk_e := k\<rparr>)
                       (find (\<lambda>k. e_name (mk_table st ! k) ! 0 = 0) [e ..< length (mk_table st)])))"

primrec add_files :: "nat \<Rightarrow> (u8 list \<times> u8 list option) list \<Rightarrow> mkfs \<Rightarrow> mkfs option" where
  "add_files f [] st = Some st"
| "add_files f (file # files) st = Option.bind (add_file f file st) (add_files (f + 1) files)"

definition mk_numentries :: "nat \<Rightarrow> nat" where
  "mk_numentries fssize_blocks = min (fssize_blocks * unat BLOCK_SIZE div 10 div unat SIZEOF_ENTRY) 4096"

definition mk_superblock :: "nat \<Rightarrow> sfs_superblock" where
  "mk_superblock fssize_blocks = \<lparr>sb_type = SFS_TYPE_ID, sb_size = of_nat fssize_blocks,
     sb_nentries = of_nat (mk_numentries fssize_blocks), sb_bootstart = of_nat (2 + mk_numentries fssize_blocks)\<rparr>"

text \<open>The boot block, the empty image, the superblock and the root directory.\<close>

definition mk_empty :: "nat \<Rightarrow> u8 list \<Rightarrow> nat \<Rightarrow> mkfs" where
  "mk_empty fssize_blocks boot files =
     (let zeros = replicate (unat BLOCK_SIZE) 0;
          buf = take (unat BLOCK_SIZE) boot @ drop (length boot) zeros;
          st = \<lparr>mk_image = (\<lambda>k. []), mk_table = replicate (mk_numentries fssize_blocks) zero_entry, mk_e = 1,
                mk_b = 2 + mk_numentries fssize_blocks, mk_buf = []\<rparr>;
          st = wblock 0 buf st;
          st = fold (\<lambda>i. wblock i zeros) [1 ..< fssize_blocks] st;
          buf = encode_sb (mk_superblock fssize_blocks) @ drop (unat SIZEOF_SB) zeros;
          st = wblock 1 buf st;
          t = mk_table st
      in st\<lparr>mk_buf := buf, mk_table := t[0 := fresh_entry T_DIR (name_field ROOT_DIR_NAME) (of_nat files) 0 (t ! 0)]\<rparr>)"

definition write_table :: "mkfs \<Rightarrow> nat \<Rightarrow> u8 list" where
  "write_table st = (\<lambda>k. if 2 \<le> k \<and> k < 2 + length (mk_table st) then encode_entry (mk_table st ! (k - 2)) else mk_image st k)"

definition mkfs_main :: "nat \<Rightarrow> u8 list option \<Rightarrow> (u8 list \<times> u8 list option) list \<Rightarrow> (nat \<Rightarrow> u8 list) option" where
  "mkfs_main fssize_blocks boot files =
     (if files = [] then None
      else case boot of
        None \<Rightarrow> None
      | Some b \<Rightarrow> if mk_numentries fssize_blocks = 0 then None
                  else map_option write_table (add_files 0 files (mk_empty fssize_blocks b (length files))))"

end
