(* ===== verification/Mkfs_Image.thy ===== *)
theory Mkfs_Image
  imports Mkfs Fs_Contents
begin

section \<open>The kernel reads the images mkfs makes\<close>

text \<open>
  What the program of \<open>Mkfs\<close> puts into the table and the blocks, for files that fit in one entry, and the result: on a
  disk with the image, the file system of the kernel resolves every file under its name and reads its bytes.
\<close>

definition blocks_for :: "u8 list \<Rightarrow> nat" where
  "blocks_for data = (length data + 511) div 512"

definition refs_put :: "u32 list \<Rightarrow> nat \<Rightarrow> nat \<Rightarrow> nat \<Rightarrow> u32 list" where
  "refs_put r i b n = take i r @ map of_nat [b ..< b + n] @ drop (i + n) r"

text \<open>The blocks \<open>b\<close> on hold \<open>data\<close>.\<close>

definition holds :: "(nat \<Rightarrow> u8 list) \<Rightarrow> nat \<Rightarrow> u8 list \<Rightarrow> bool" where
  "holds img b data \<longleftrightarrow> take (length data) (concat (map img [b ..< b + blocks_for data])) = data \<and>
     (\<forall>k \<in> {b ..< b + blocks_for data}. length (img k) = 512)"

lemma holds_cong: "(\<And>k. b \<le> k \<Longrightarrow> k < b + blocks_for data \<Longrightarrow> img' k = img k) \<Longrightarrow> holds img' b data = holds img b data"
proof -
  assume a: "\<And>k. b \<le> k \<Longrightarrow> k < b + blocks_for data \<Longrightarrow> img' k = img k"
  then have m: "map img' [b ..< b + blocks_for data] = map img [b ..< b + blocks_for data]" by simp
  have "(\<forall>k \<in> {b ..< b + blocks_for data}. length (img' k) = 512) \<longleftrightarrow>
      (\<forall>k \<in> {b ..< b + blocks_for data}. length (img k) = 512)" using a by simp
  then show ?thesis by (simp only: holds_def m)
qed

lemma holds_Nil: "holds img b []"
  by (simp add: holds_def blocks_for_def)

lemma blocks_for_step:
  assumes "rest \<noteq> []"
  shows "blocks_for rest = Suc (blocks_for (drop (min 512 (length rest)) rest))"
proof (cases "length rest \<le> 512")
  case True
  then have "(length rest + 511) div 512 = 1" using assms by (cases rest) simp_all
  then show ?thesis using True by (simp add: blocks_for_def)
next
  case False
  then have "length rest + 511 = (length rest - 512 + 511) + 512" by simp
  then have "(length rest + 511) div 512 = Suc ((length rest - 512 + 511) div 512)" by (metis add.commute div_add_self1 plus_1_eq_Suc zero_neq_numeral)
  then show ?thesis using False by (simp add: blocks_for_def)
qed

lemma refs_put_step:
  assumes "i + Suc n \<le> length r"
  shows "refs_put (r[i := of_nat b]) (i + 1) (b + 1) n = refs_put r i b (Suc n)"
proof -
  have "take (i + 1) (r[i := of_nat b]) = take i r @ [of_nat b]"
    using assms by (simp add: take_Suc_conv_app_nth)
  moreover have "[b ..< b + Suc n] = b # [b + 1 ..< b + 1 + n]" by (simp add: upt_conv_Cons del: upt_Suc)
  ultimately show ?thesis using assms by (simp add: refs_put_def del: upt_Suc)
qed

lemma refs_put_0: "refs_put r i b 0 = r"
  by (simp add: refs_put_def)

lemma length_refs_put [simp]: "i + n \<le> length r \<Longrightarrow> length (refs_put r i b n) = length r"
  by (simp add: refs_put_def)

text \<open>A file of at most 120 blocks is copied into the references of its entry.\<close>

lemma copy_small:
  assumes "e < length (mk_table st)" "entry_shape (mk_table st ! e)" "512 * i + length rest \<le> 61440"
    "length (mk_buf st) = 512" "rest \<noteq> [] \<Longrightarrow> e_size (mk_table st ! e) = of_nat (512 * i)"
  shows "\<exists>st'. copy_file e i rest st = Some st' \<and>
    mk_table st' = (mk_table st)[e := (mk_table st ! e)\<lparr>
       e_ref := refs_put (e_ref (mk_table st ! e)) i (mk_b st) (blocks_for rest),
       e_size := e_size (mk_table st ! e) + of_nat (length rest)\<rparr>] \<and>
    mk_b st' = mk_b st + blocks_for rest \<and> mk_e st' = mk_e st \<and> length (mk_buf st') = 512 \<and>
    (\<forall>k. k < mk_b st \<or> mk_b st + blocks_for rest \<le> k \<longrightarrow> mk_image st' k = mk_image st k) \<and>
    holds (mk_image st') (mk_b st) rest"
  using assms
proof (induction "length rest" arbitrary: i rest st rule: less_induct)
  case less
  define t where "t = mk_table st"
  note p = less.prems [folded t_def]
  show ?case
  proof (cases "rest = []")
    case True
    then show ?thesis using less.prems
      by (simp add: copy_file.simps [of e i "[]" st] holds_Nil blocks_for_def refs_put_0)
  next
    case False
    define cc where "cc = min 512 (length rest)"
    define buf where "buf = take cc rest @ drop cc (mk_buf st)"
    define d where "d = (t ! e)\<lparr>e_ref := (e_ref (t ! e))[i := of_nat (mk_b st)], e_size := e_size (t ! e) + of_nat cc\<rparr>"
    define st1 where "st1 = (wblock (mk_b st) buf st)\<lparr>mk_buf := buf, mk_table := t[e := d], mk_b := mk_b st + 1\<rparr>"
    have t: "mk_table st = t" by (simp add: t_def)
    have sz: "e_size (t ! e) = of_nat (512 * i)" using p(5) False by simp
    have cc: "0 < cc" "cc \<le> 512" "cc \<le> length rest" using False by (simp_all add: cc_def)
    have i: "512 * i < 61440" using p(3) cc(1,3) by linarith
    have "unat (e_size (t ! e)) = 512 * i" unfolding sz using i by (intro unat_of_nat_u32) simp
    then have ec: "unat (e_size (t ! e)) div 61440 = 0" using i by simp
    have step: "copy_file e i rest st = copy_file e (i + 1) (drop cc rest) st1"
      using False p(1)
      by (subst copy_file.simps) (simp add: t ec Let_def cc_def [symmetric] buf_def [symmetric] st1_def d_def wblock_def)
    have lb: "length buf = 512" using cc p(4) by (simp add: buf_def)
    have len: "length (drop cc rest) < length rest" using cc by simp
    have t1: "mk_table st1 = t[e := d]" "mk_b st1 = mk_b st + 1" "mk_buf st1 = buf" "mk_e st1 = mk_e st"
      "mk_image st1 = (mk_image st)(mk_b st := buf)" by (simp_all add: st1_def wblock_def)
    have full: "drop cc rest \<noteq> [] \<Longrightarrow> cc = 512" by (simp add: cc_def min_def split: if_splits)
    have te: "t[e := d] ! e = d" "e < length (t[e := d])" using p(1) by simp_all
    have "entry_shape d" using p(2) by (simp add: d_def entry_shape_def)
    moreover have "512 * (i + 1) + length (drop cc rest) \<le> 61440"
      using p(3) full cc by (cases "drop cc rest = []") simp_all
    moreover have "e_size d = of_nat (512 * (i + 1))" if "drop cc rest \<noteq> []"
      using full [OF that] by (simp add: d_def sz)
    ultimately obtain st' where st': "copy_file e (i + 1) (drop cc rest) st1 = Some st'"
      "mk_table st' = t[e := d\<lparr>e_ref := refs_put (e_ref d) (i + 1) (mk_b st + 1) (blocks_for (drop cc rest)),
                               e_size := e_size d + of_nat (length (drop cc rest))\<rparr>]"
      "mk_b st' = mk_b st + 1 + blocks_for (drop cc rest)" "mk_e st' = mk_e st" "length (mk_buf st') = 512"
      "\<forall>k. k < mk_b st + 1 \<or> mk_b st + 1 + blocks_for (drop cc rest) \<le> k \<longrightarrow> mk_image st' k = mk_image st1 k"
      "holds (mk_image st') (mk_b st + 1) (drop cc rest)"
      using less.hyps [OF len, of st1 "i + 1"] te lb by (auto simp: t1)
    have b: "blocks_for rest = Suc (blocks_for (drop cc rest))" unfolding cc_def by (rule blocks_for_step [OF False])
    have r: "i + Suc (blocks_for (drop cc rest)) \<le> length (e_ref (t ! e))"
    proof -
      have "blocks_for rest \<le> (61440 - 512 * i + 511) div 512"
        using p(3) by (simp add: blocks_for_def div_le_mono)
      also have "\<dots> \<le> 120 - i" using i by simp
      finally show ?thesis using b i p(2) by (simp add: entry_shape_def)
    qed
    have "mk_image st' (mk_b st) = buf" using st'(6) by (simp add: t1)
    then have "holds (mk_image st') (mk_b st) rest"
    proof -
      assume im: "mk_image st' (mk_b st) = buf"
      have "[mk_b st ..< mk_b st + blocks_for rest] = mk_b st # [mk_b st + 1 ..< mk_b st + 1 + blocks_for (drop cc rest)]"
        by (simp add: b upt_conv_Cons del: upt_Suc)
      then have "take (length rest) (concat (map (mk_image st') [mk_b st ..< mk_b st + blocks_for rest])) =
          take (length rest) (buf @ concat (map (mk_image st') [mk_b st + 1 ..< mk_b st + 1 + blocks_for (drop cc rest)]))"
        by (simp add: im del: upt_Suc)
      also have "\<dots> = rest"
      proof (cases "drop cc rest = []")
        case True
        then show ?thesis using cc lb p(4) by (simp add: buf_def)
      next
        case False
        then have "buf = take cc rest" "cc = 512" using full p(4) by (simp_all add: buf_def)
        then show ?thesis using st'(7) cc by (simp add: holds_def take_append)
      qed
      finally show ?thesis using st'(7) im lb unfolding holds_def b by (auto simp: le_eq_less_or_eq)
    qed
    moreover have "length rest = cc + length (drop cc rest)" using cc by simp
    then have "(of_nat (length rest) :: u32) = of_nat cc + of_nat (length (drop cc rest))" by (metis of_nat_add)
    then have "e_size d + of_nat (length (drop cc rest)) = e_size (t ! e) + of_nat (length rest)"
      by (simp add: d_def add.assoc del: length_drop)
    then have "mk_table st' = t[e := (t ! e)\<lparr>e_ref := refs_put (e_ref (t ! e)) i (mk_b st) (blocks_for rest),
                               e_size := e_size (t ! e) + of_nat (length rest)\<rparr>]"
      using refs_put_step [OF r, of "mk_b st"] by (simp add: st'(2) b d_def add.assoc)
    moreover have "mk_image st' k = mk_image st k" if "k < mk_b st \<or> mk_b st + blocks_for rest \<le> k" for k
      using st'(6) that b by (auto simp: t1)
    moreover have "copy_file e i rest st = Some st'" "mk_b st' = mk_b st + blocks_for rest"
      using step st'(1,3) b by simp_all
    ultimately show ?thesis using st'(4,5) unfolding t_def [symmetric] by blast
  qed
qed

subsection \<open>All files\<close>

definition good_file :: "u8 list \<times> u8 list option \<Rightarrow> bool" where
  "good_file file \<longleftrightarrow> (\<exists>data. snd file = Some data \<and> length data \<le> 61440) \<and> base_name (fst file) \<noteq> [] \<and> 0 \<notin> set (fst file)"

definition file_data :: "u8 list \<times> u8 list option \<Rightarrow> u8 list" where
  "file_data file = the (snd file)"

definition head_entry :: "u8 list \<Rightarrow> u8 list \<Rightarrow> nat \<Rightarrow> sfs_entry" where
  "head_entry name data b = zero_entry\<lparr>e_flags := T_FILE, e_name := name_field name, e_size := of_nat (length data),
     e_ref := refs_put (replicate 120 0) 0 b (blocks_for data)\<rparr>"

lemma length_name_field [simp]: "length (name_field name) = 15"
  by (simp add: name_field_def)

lemma blocks_for_le: "length data \<le> 61440 \<Longrightarrow> blocks_for data \<le> 120"
  by (simp add: blocks_for_def)

lemma head_entry_shape [simp]: "length data \<le> 61440 \<Longrightarrow> entry_shape (head_entry name data b)"
  using blocks_for_le [of data] by (simp add: head_entry_def entry_shape_def zero_entry_def)

lemma set_base_name: "set (base_name path) \<subseteq> set path"
  by (auto simp: base_name_def dest: set_takeWhileD)

lemma name_field_hd: "base_name path \<noteq> [] \<Longrightarrow> 0 \<notin> set path \<Longrightarrow> name_field (base_name path) ! 0 \<noteq> 0"
proof -
  assume a: "base_name path \<noteq> []" "0 \<notin> set path"
  then obtain c r where "base_name path = c # r" "c \<in> set path"
    using set_base_name [of path] by (cases "base_name path") auto
  with a show ?thesis by (auto simp: name_field_def)
qed

lemma file_added:
  fixes st :: mkfs
  defines "t \<equiv> mk_table st" and "e \<equiv> mk_e st"
  assumes "good_file file" "1 \<le> e" "e + 1 < length t" "t ! e = zero_entry" "t ! (e + 1) = zero_entry" "f < 120"
    "length (mk_buf st) = 512"
  shows "\<exists>st'. add_file f file st = Some st' \<and>
    mk_table st' = t[0 := (t ! 0)\<lparr>e_ref := (e_ref (t ! 0))[f := of_nat e]\<rparr>,
                     e := head_entry (base_name (fst file)) (file_data file) (mk_b st)] \<and>
    mk_b st' = mk_b st + blocks_for (file_data file) \<and> mk_e st' = e + 1 \<and> length (mk_buf st') = 512 \<and>
    (\<forall>k. k < mk_b st \<or> mk_b st + blocks_for (file_data file) \<le> k \<longrightarrow> mk_image st' k = mk_image st k) \<and>
    holds (mk_image st') (mk_b st) (file_data file)"
proof -
  obtain data where data: "snd file = Some data" "file_data file = data" "length data \<le> 61440"
    using assms(3) by (auto simp: good_file_def file_data_def)
  define t1 where "t1 = t[0 := (t ! 0)\<lparr>e_ref := (e_ref (t ! 0))[f := of_nat e]\<rparr>,
      e := fresh_entry T_FILE (name_field (base_name (fst file))) 0 0 (t ! e)]"
  define st1 where "st1 = st\<lparr>mk_table := t1\<rparr>"
  have e: "e < length t" "e \<noteq> 0" using assms(4,5) by simp_all
  have te: "mk_table st1 ! e = fresh_entry T_FILE (name_field (base_name (fst file))) 0 0 zero_entry"
    using e assms(6) by (simp add: st1_def t1_def)
  have "e < length (mk_table st1)" "entry_shape (mk_table st1 ! e)" "length (mk_buf st1) = 512"
    "e_size (mk_table st1 ! e) = of_nat (512 * 0)"
    using e assms(9) te by (simp_all add: st1_def t1_def fresh_entry_def entry_shape_def zero_entry_def)
  then obtain st' where st': "copy_file e 0 data st1 = Some st'"
    "mk_table st' = (mk_table st1)[e := (mk_table st1 ! e)\<lparr>
       e_ref := refs_put (e_ref (mk_table st1 ! e)) 0 (mk_b st1) (blocks_for data),
       e_size := e_size (mk_table st1 ! e) + of_nat (length data)\<rparr>]"
    "mk_b st' = mk_b st1 + blocks_for data" "mk_e st' = mk_e st1" "length (mk_buf st') = 512"
    "\<forall>k. k < mk_b st1 \<or> mk_b st1 + blocks_for data \<le> k \<longrightarrow> mk_image st' k = mk_image st1 k"
    "holds (mk_image st') (mk_b st1) data"
    using copy_small [of e st1 0 data] data(3) by auto
  define t' where "t' = t[0 := (t ! 0)\<lparr>e_ref := (e_ref (t ! 0))[f := of_nat e]\<rparr>,
                     e := head_entry (base_name (fst file)) data (mk_b st)]"
  have "(mk_table st1 ! e)\<lparr>e_ref := refs_put (e_ref (mk_table st1 ! e)) 0 (mk_b st1) (blocks_for data),
       e_size := e_size (mk_table st1 ! e) + of_nat (length data)\<rparr> = head_entry (base_name (fst file)) data (mk_b st)"
    unfolding te by (simp add: head_entry_def fresh_entry_def zero_entry_def st1_def)
  then have t': "mk_table st' = t'" using st'(2) by (simp add: st1_def t1_def t'_def)
  have "find (\<lambda>k. e_name (t' ! k) ! 0 = 0) [e ..< length t'] = Some (e + 1)"
  proof -
    have "[e ..< length t'] = e # (e + 1) # [e + 2 ..< length t']" using assms(5) by (simp add: t'_def upt_conv_Cons)
    moreover have "e_name (t' ! e) ! 0 \<noteq> 0"
      using assms(3) e by (simp add: t'_def head_entry_def good_file_def name_field_hd)
    moreover have "e_name (t' ! (e + 1)) ! 0 = 0" using assms(7) e by (simp add: t'_def zero_entry_def)
    ultimately show ?thesis by simp
  qed
  then have "add_file f file st = Some (st'\<lparr>mk_e := e + 1\<rparr>)"
    using e st'(1) [unfolded st1_def t1_def] data(1) assms(8) t'
    by (simp add: add_file_def t_def [symmetric] e_def [symmetric] Let_def)
  then show ?thesis using st' t' by (intro exI [of _ "st'\<lparr>mk_e := e + 1\<rparr>"]) (simp add: data(2) t'_def st1_def)
qed

text \<open>The first block of file \<open>j\<close>.\<close>

definition file_start :: "nat \<Rightarrow> (u8 list \<times> u8 list option) list \<Rightarrow> nat \<Rightarrow> nat" where
  "file_start b files j = b + sum_list (map (\<lambda>f. blocks_for (file_data f)) (take j files))"

lemma files_added:
  assumes "list_all good_file files" "1 \<le> mk_e st" "mk_e st + length files < length (mk_table st)"
    "\<And>k. mk_e st \<le> k \<Longrightarrow> k < length (mk_table st) \<Longrightarrow> mk_table st ! k = zero_entry"
    "f + length files \<le> 120" "length (mk_buf st) = 512" "length (e_ref (mk_table st ! 0)) = 120"
  shows "\<exists>st'. add_files f files st = Some st' \<and> length (mk_table st') = length (mk_table st) \<and>
    (\<forall>k. 1 \<le> k \<and> k < mk_e st \<or> mk_e st + length files \<le> k \<and> k < length (mk_table st) \<longrightarrow>
       mk_table st' ! k = mk_table st ! k) \<and>
    (\<forall>j < length files. mk_table st' ! (mk_e st + j) =
       head_entry (base_name (fst (files ! j))) (file_data (files ! j)) (file_start (mk_b st) files j)) \<and>
    mk_table st' ! 0 = (mk_table st ! 0)\<lparr>e_ref := refs_put (e_ref (mk_table st ! 0)) f (mk_e st) (length files)\<rparr> \<and>
    (\<forall>k. k < mk_b st \<or> file_start (mk_b st) files (length files) \<le> k \<longrightarrow> mk_image st' k = mk_image st k) \<and>
    (\<forall>j < length files. holds (mk_image st') (file_start (mk_b st) files j) (file_data (files ! j)))"
  using assms
proof (induction files arbitrary: f st)
  case Nil
  then show ?case by (auto simp: refs_put_0 file_start_def)
next
  case (Cons "file" files)
  define t where "t = mk_table st"
  define e where "e = mk_e st"
  define b where "b = mk_b st"
  define d where "d = file_data file"
  have p: "good_file file" "1 \<le> e" "e + 1 < length t" "t ! e = zero_entry" "t ! (e + 1) = zero_entry" "f < 120"
    "length (mk_buf st) = 512" using Cons.prems by (simp_all add: e_def t_def)
  obtain st1 where st1: "add_file f file st = Some st1"
    "mk_table st1 = t[0 := (t ! 0)\<lparr>e_ref := (e_ref (t ! 0))[f := of_nat e]\<rparr>, e := head_entry (base_name (fst file)) d b]"
    "mk_b st1 = b + blocks_for d" "mk_e st1 = e + 1" "length (mk_buf st1) = 512"
    "\<forall>k. k < b \<or> b + blocks_for d \<le> k \<longrightarrow> mk_image st1 k = mk_image st k" "holds (mk_image st1) b d"
    using file_added [of "file" st f] p unfolding t_def e_def b_def d_def by blast
  have ne: "e \<noteq> 0" "e < length t" "t \<noteq> []" using p(2,3) by auto
  have t1: "length (mk_table st1) = length t" "mk_table st1 ! e = head_entry (base_name (fst file)) d b"
    "mk_table st1 ! 0 = (t ! 0)\<lparr>e_ref := (e_ref (t ! 0))[f := of_nat e]\<rparr>"
    "\<And>k. k \<noteq> 0 \<Longrightarrow> k \<noteq> e \<Longrightarrow> mk_table st1 ! k = t ! k"
    using ne by (simp_all add: st1(2) nth_list_update)
  have q: "list_all good_file files" "1 \<le> mk_e st1" "mk_e st1 + length files < length (mk_table st1)"
    "f + 1 + length files \<le> 120" "length (e_ref (mk_table st1 ! 0)) = 120"
    "\<And>k. mk_e st1 \<le> k \<Longrightarrow> k < length (mk_table st1) \<Longrightarrow> mk_table st1 ! k = zero_entry"
    using Cons.prems t1 by (simp_all add: st1(4) e_def t_def)
  obtain st' where st': "add_files (f + 1) files st1 = Some st'" "length (mk_table st') = length t"
    "\<And>k. 1 \<le> k \<and> k < e + 1 \<or> e + 1 + length files \<le> k \<and> k < length t \<Longrightarrow> mk_table st' ! k = mk_table st1 ! k"
    "\<And>j. j < length files \<Longrightarrow> mk_table st' ! (e + 1 + j) =
       head_entry (base_name (fst (files ! j))) (file_data (files ! j)) (file_start (b + blocks_for d) files j)"
    "mk_table st' ! 0 = (mk_table st1 ! 0)\<lparr>e_ref := refs_put (e_ref (mk_table st1 ! 0)) (f + 1) (e + 1) (length files)\<rparr>"
    "\<And>k. k < b + blocks_for d \<or> file_start (b + blocks_for d) files (length files) \<le> k \<Longrightarrow> mk_image st' k = mk_image st1 k"
    "\<And>j. j < length files \<Longrightarrow> holds (mk_image st') (file_start (b + blocks_for d) files j) (file_data (files ! j))"
    using Cons.IH [OF q(1-3,6,4) st1(5) q(5)] unfolding st1(3,4) t1(1) by blast
  have fs: "file_start b (file # files) (Suc j) = file_start (b + blocks_for d) files j" for j
    by (simp add: file_start_def d_def)
  have f0: "file_start b (file # files) 0 = b" by (simp add: file_start_def)
  have le: "b + blocks_for d \<le> file_start (b + blocks_for d) files j" for j by (simp add: file_start_def)
  have "add_files f (file # files) st = Some st'" using st1(1) st'(1) by simp
  moreover have "mk_table st' ! k = t ! k" if "1 \<le> k \<and> k < e \<or> e + length (file # files) \<le> k \<and> k < length t" for k
    using that st'(3) [of k] t1(4) [of k] ne by auto
  moreover have "mk_table st' ! (e + j) = head_entry (base_name (fst ((file # files) ! j))) (file_data ((file # files) ! j))
      (file_start b (file # files) j)" if "j < length (file # files)" for j
    using that st'(3) [of e] st'(4) [of "j - 1"] t1(2) p(2) f0 fs [of "j - 1"] by (cases j) (simp_all add: d_def)
  moreover have "mk_table st' ! 0 = (t ! 0)\<lparr>e_ref := refs_put (e_ref (t ! 0)) f e (length (file # files))\<rparr>"
    using refs_put_step [of f "length files" "e_ref (t ! 0)" e] Cons.prems(5,7) by (simp add: st'(5) t1(3) t_def)
  moreover have "mk_image st' k = mk_image st k"
    if "k < b \<or> file_start b (file # files) (length (file # files)) \<le> k" for k
    using that st'(6) [of k] st1(6) le [of "length files"] fs [of "length files"] by auto
  moreover have "holds (mk_image st') (file_start b (file # files) j) (file_data ((file # files) ! j))"
    if "j < length (file # files)" for j
  proof (cases j)
    case 0
    have "holds (mk_image st') b d = holds (mk_image st1) b d" by (rule holds_cong) (use st'(6) in auto)
    then show ?thesis using st1(7) 0 f0 by (simp add: d_def)
  next
    case (Suc i)
    then show ?thesis using st'(7) [of i] that by (simp add: fs)
  qed
  ultimately show ?case using st'(2) unfolding t_def [symmetric] e_def [symmetric] b_def [symmetric] by blast
qed

subsection \<open>The empty image\<close>

lemma blocks_written: "mk_image (fold (\<lambda>i. wblock i z) is st) k = (if k \<in> set is then z else mk_image st k)"
  by (induction "is" arbitrary: st) (auto simp: wblock_def)

lemma blocks_written_rest:
  "mk_table (fold (\<lambda>i. wblock i z) is st) = mk_table st" "mk_e (fold (\<lambda>i. wblock i z) is st) = mk_e st"
  "mk_b (fold (\<lambda>i. wblock i z) is st) = mk_b st"
  by (induction "is" arbitrary: st) (simp_all add: wblock_def)

lemma mk_empty_facts:
  fixes blocks :: nat and boot :: "u8 list" and m :: nat
  defines "st \<equiv> mk_empty blocks boot m" and "n \<equiv> mk_numentries blocks"
  assumes "0 < n"
  shows "length (mk_table st) = n" "mk_e st = 1" "mk_b st = 2 + n" "length (mk_buf st) = 512"
    "mk_table st ! 0 = zero_entry\<lparr>e_flags := T_DIR, e_name := name_field ROOT_DIR_NAME, e_size := of_nat m\<rparr>"
    "1 \<le> k \<Longrightarrow> k < n \<Longrightarrow> mk_table st ! k = zero_entry"
    "mk_image st 1 = encode_sb (mk_superblock blocks) @ replicate 496 0"
  using assms(3)
  by (simp_all add: st_def n_def mk_empty_def Let_def blocks_written_rest wblock_def fresh_entry_def zero_entry_def)

definition short_name :: "u8 list \<times> u8 list option \<Rightarrow> u8 list" where
  "short_name file = take 14 (base_name (fst file))"

lemma cstring_name_field: "0 \<notin> set name \<Longrightarrow> cstring (name_field name) = take 14 name"
proof -
  assume z: "0 \<notin> set name"
  show ?thesis
  proof (cases "length name \<le> 14")
    case True
    then have "name_field name = name @ 0 # replicate (14 - length name) 0"
      by (simp add: name_field_def replicate_append_same flip: replicate_Suc)
    then show ?thesis using z True by simp
  next
    case False
    then have "name_field name = take 14 name @ [0]" by (simp add: name_field_def)
    moreover have "0 \<notin> set (take 14 name)" using z by (meson in_set_takeD)
    ultimately show ?thesis by simp
  qed
qed

lemma zero_in_name_field: "0 \<in> set (name_field name)"
  by (simp add: name_field_def)

subsection \<open>The kernel on the image\<close>

lemma u32_to_u16: "k < 65536 \<Longrightarrow> (ucast (of_nat k :: u32) :: u16) = of_nat k"
proof -
  assume k: "k < 65536"
  have "unat (ucast (of_nat k :: u32) :: u16) = k"
    using k by (simp add: unsigned_ucast_eq take_bit_nat_eq_self unat_of_nat_u32)
  then show ?thesis using k by (simp add: word_unat_eq_iff unat_of_nat_u16)
qed

lemma sum_list_take_le: "j < length xs \<Longrightarrow> sum_list (map g (take j xs)) + g (xs ! j) \<le> sum_list (map g (take (length xs) xs))"
  for g :: "'a \<Rightarrow> nat"
proof -
  assume j: "j < length xs"
  have "xs = take j xs @ xs ! j # drop (Suc j) xs" using j by (simp add: id_take_nth_drop)
  then have "sum_list (map g xs) = sum_list (map g (take j xs)) + g (xs ! j) + sum_list (map g (drop (Suc j) xs))"
    by (metis (no_types, lifting) add.assoc list.simps(9) map_append sum_list.Cons sum_list.append)
  then show ?thesis by simp
qed

lemma head_contents:
  assumes "sectors_ok f" "length data \<le> 61440" "holds img b data" "b + blocks_for data \<le> 65536"
    "\<And>k. b \<le> k \<Longrightarrow> k < b + blocks_for data \<Longrightarrow> f (of_nat k) = img k"
  shows "contents f (head_entry name data b) = data" "unat (e_size (head_entry name data b)) = length data"
proof -
  let ?e = "head_entry name data b" and ?k = "blocks_for data"
  show sz: "unat (e_size ?e) = length data"
    using assms(2) by (simp add: head_entry_def unat_of_nat_u32)
  have k: "?k \<le> 120" by (rule blocks_for_le [OF assms(2)])
  have l: "length data \<le> 512 * ?k" by (simp add: blocks_for_def)
  have "blocks_of ?e ?k = map ucast (map (\<lambda>k. of_nat k :: u32) [b ..< b + ?k])"
    using k by (simp add: blocks_of_def head_entry_def refs_put_def)
  also have "\<dots> = map of_nat [b ..< b + ?k]" using assms(4) by (simp add: u32_to_u16)
  finally have bs: "blocks_of ?e ?k = map of_nat [b ..< b + ?k]" .
  have "map f (map of_nat [b ..< b + ?k]) = map img [b ..< b + ?k]" using assms(5) by simp
  then have "file_bytes f (blocks_of ?e ?k) = concat (map img [b ..< b + ?k])"
    unfolding bs file_bytes_def by (simp only:)
  then show "contents f ?e = data"
    using contents_blocks [OF assms(1) _ k head_entry_shape [OF assms(2)], of name b] l sz assms(3)
    by (simp add: holds_def)
qed

lemma head_matches:
  assumes "good_file file" "length data \<le> 61440"
  shows "entry_matches name 0 (head_entry (base_name (fst file)) data b) \<longleftrightarrow> short_name file = name"
proof -
  have "0 \<notin> set (base_name (fst file))" using assms(1) set_base_name by (auto simp: good_file_def)
  then have "entry_name (head_entry (base_name (fst file)) data b) = short_name file"
    using entry_name_terminated [of "head_entry (base_name (fst file)) data b"]
    by (simp add: head_entry_def zero_in_name_field cstring_name_field short_name_def)
  then show ?thesis by (simp add: entry_matches_def entry_used_def) (simp add: head_entry_def zero_entry_def)
qed

lemma file_start_Suc:
  "m < length files \<Longrightarrow> file_start b files (Suc m) = file_start b files m + blocks_for (file_data (files ! m))"
  by (simp add: file_start_def take_Suc_conv_app_nth)

lemma file_cover:
  assumes "m \<le> length files" "b \<le> k" "k < file_start b files m"
  shows "\<exists>j < m. file_start b files j \<le> k \<and> k < file_start b files j + blocks_for (file_data (files ! j))"
  using assms
proof (induction m)
  case 0
  then show ?case by (simp add: file_start_def)
next
  case (Suc m)
  show ?case
  proof (cases "k < file_start b files m")
    case True
    then show ?thesis using Suc by (meson Suc_leD less_SucI)
  next
    case False
    then show ?thesis using Suc.prems file_start_Suc [of m files b] by (intro exI [of _ m]) simp
  qed
qed

lemma mk_empty_lengths:
  assumes "k < blocks"
  shows "length (mk_image (mk_empty blocks boot m) k) = 512"
  using assms by (auto simp: mk_empty_def Let_def blocks_written wblock_def min_def)

text \<open>A disk with the image.\<close>

definition on_disk :: "fs_state \<Rightarrow> u16 \<Rightarrow> (nat \<Rightarrow> u8 list) \<Rightarrow> nat \<Rightarrow> bool" where
  "on_disk s disk img blocks \<longleftrightarrow> device_ok s disk \<and> (\<forall>k < blocks. disk_of s disk (of_nat k) = img k)"

text \<open>
  C3: for files with different short names that fit on the disk, each at most 60 KB, mkfs makes an image. A kernel
  that finds the image, which consists of whole blocks, on a disk sees its superblock, resolves every file under the first fourteen
  characters of its name, and reads its bytes, from any offset and as many as asked for.
\<close>

theorem image_files_readable:
  assumes "files \<noteq> []" "list_all good_file files" "distinct (map short_name files)"
    "\<forall>file \<in> set files. short_name file \<noteq> ROOT_DIR_NAME" "length files \<le> 120"
    "1 + length files < mk_numentries blocks" "blocks \<le> 65536"
    "file_start (2 + mk_numentries blocks) files (length files) \<le> blocks"
  shows "\<exists>img. mkfs_main blocks (Some boot) files = Some img \<and> (\<forall>k < blocks. length (img k) = 512) \<and> (\<forall>s disk. on_disk s disk img blocks \<longrightarrow>
    mounted s disk \<and> superblock_of (disk_of s disk) = mk_superblock blocks \<and>
    (\<forall>file \<in> set files. \<forall>path offset count. denotes s path disk [short_name file] \<longrightarrow>
       fs_read_file s path offset count =
         (let data = take (unat count) (drop (unat offset) (file_data file)) in Inr (of_nat (length data), data))))"
proof -
  define n where "n = mk_numentries blocks"
  define st where "st = mk_empty blocks boot (length files)"
  have n: "0 < n" "n \<le> 4096" "2 + n \<le> blocks"
    using assms(6,8) by (simp_all add: n_def mk_numentries_def file_start_def)
  note e = mk_empty_facts [where blocks = blocks and boot = boot and m = "length files", folded st_def n_def, OF n(1)]
  obtain st' where st': "add_files 0 files st = Some st'" "length (mk_table st') = n"
    "\<And>k. 1 + length files \<le> k \<Longrightarrow> k < n \<Longrightarrow> mk_table st' ! k = zero_entry"
    "\<And>j. j < length files \<Longrightarrow> mk_table st' ! Suc j =
       head_entry (base_name (fst (files ! j))) (file_data (files ! j)) (file_start (2 + n) files j)"
    "mk_table st' ! 0 = (mk_table st ! 0)\<lparr>e_ref := refs_put (e_ref (mk_table st ! 0)) 0 1 (length files)\<rparr>"
    "\<And>k. k < 2 + n \<Longrightarrow> mk_image st' k = mk_image st k"
    "\<And>j. j < length files \<Longrightarrow> holds (mk_image st') (file_start (2 + n) files j) (file_data (files ! j))"
    "\<And>k. file_start (2 + n) files (length files) \<le> k \<Longrightarrow> mk_image st' k = mk_image st k"
    using files_added [OF assms(2), of st 0] e assms(5,6) by (auto simp: n_def [symmetric] zero_entry_def)
  have len: "length (file_data (files ! j)) \<le> 61440" "good_file (files ! j)" if "j < length files" for j
    using assms(2) that by (auto simp: list_all_length good_file_def file_data_def)
  have shape: "entry_shape (mk_table st' ! k)" if "k < n" for k
  proof -
    consider "k = 0" | j where "k = 1 + j" "j < length files" | "1 + length files \<le> k"
      by (cases k) (simp_all, metis not_less)
    then show ?thesis
    proof cases
      case 1
      then show ?thesis using assms(5) st'(5) e(5) by (simp add: entry_shape_def zero_entry_def)
    next
      case 2
      then show ?thesis using st'(4) len by simp
    next
      case 3
      then show ?thesis using st'(3) that by simp
    qed
  qed
  define img where "img = write_table st'"
  have lens: "length (img k) = 512" if k: "k < blocks" for k
  proof (cases "2 \<le> k \<and> k < 2 + n")
    case True
    then have "entry_shape (mk_table st' ! (k - 2))" by (intro shape) auto
    then show ?thesis using True st'(2) length_encode_entry by (simp add: img_def write_table_def)
  next
    case False
    then have i: "img k = mk_image st' k" using st'(2) by (auto simp: img_def write_table_def)
    show ?thesis
    proof (cases "k < 2 + n \<or> file_start (2 + n) files (length files) \<le> k")
      case True
      then show ?thesis using st'(6,8) i mk_empty_lengths [OF k] by (auto simp: st_def)
    next
      case False
      then obtain j where "j < length files" "file_start (2 + n) files j \<le> k"
        "k < file_start (2 + n) files j + blocks_for (file_data (files ! j))"
        using file_cover [OF le_refl, of "2 + n" k files] by auto
      then show ?thesis using st'(7) i by (simp add: holds_def)
    qed
  qed
  have "mkfs_main blocks (Some boot) files = Some img"
    using assms(1) n(1) st'(1) by (simp add: mkfs_main_def n_def [symmetric] st_def [symmetric] img_def)
  moreover have "mounted s disk \<and> superblock_of (disk_of s disk) = mk_superblock blocks \<and>
    (\<forall>file \<in> set files. \<forall>path offset count. denotes s path disk [short_name file] \<longrightarrow>
       fs_read_file s path offset count =
         (let data = take (unat count) (drop (unat offset) (file_data file)) in Inr (of_nat (length data), data)))"
    if od: "on_disk s disk img blocks" for s disk
  proof -
    define f where "f = disk_of s disk"
    have f: "f (of_nat k) = img k" if "k < blocks" for k using od that by (simp add: on_disk_def f_def)
    have dev: "device_ok s disk" and sec: "sectors_ok f"
      using od device_ok_sectors by (simp_all add: on_disk_def f_def)
    have "img 1 = encode_sb (mk_superblock blocks) @ replicate 496 0"
      using e(7) st'(6) [of 1] by (simp add: img_def write_table_def)
    then have "f 1 = encode_sb (mk_superblock blocks) @ replicate 496 0" using f [of 1] n by simp
    then have sb: "superblock_of f = mk_superblock blocks"
      using decode_encode_sb [of "mk_superblock blocks" "[]"] by (simp add: superblock_of_def)
    then have en: "entries_of f = n" using n by (simp add: entries_of_def mk_superblock_def n_def [symmetric] unat_of_nat_u32)
    have mounted: "mounted s disk" using dev en n by (simp add: mounted_def f_def)
    have at: "entry_at f k = mk_table st' ! k" if "k < n" for k
    proof -
      have "f (of_nat (2 + k)) = encode_entry (mk_table st' ! k)"
        using f [of "2 + k"] that n st'(2) by (simp add: img_def write_table_def)
      then show ?thesis using decode_encode_entry [OF shape [OF that]] by (simp add: entry_at_def)
    qed
    have root: "entry_name (mk_table st' ! 0) = ROOT_DIR_NAME"
    proof -
      have "entry_name (mk_table st' ! 0) = cstring (e_name (mk_table st' ! 0))"
        by (rule entry_name_terminated) (simp add: st'(5) e(5) zero_in_name_field)
      also have "\<dots> = cstring (name_field ROOT_DIR_NAME)" by (simp add: st'(5) e(5))
      also have "\<dots> = ROOT_DIR_NAME" by (subst cstring_name_field) simp_all
      finally show ?thesis .
    qed
    have "fs_read_file s path offset count =
         (let data = take (unat count) (drop (unat offset) (file_data file)) in Inr (of_nat (length data), data))"
      if mem: "file \<in> set files" and den: "denotes s path disk [short_name file]" for "file" path offset count
    proof -
      obtain j where j: "j < length files" "file = files ! j" using mem by (auto simp: in_set_conv_nth)
      define b where "b = file_start (2 + n) files j"
      define d where "d = file_data (files ! j)"
      define h where "h = head_entry (base_name (fst (files ! j))) d b"
      have bj: "2 + n \<le> b" "b + blocks_for d \<le> blocks"
        using sum_list_take_le [OF j(1), of "\<lambda>f. blocks_for (file_data f)"] assms(8)
        by (simp_all add: b_def d_def file_start_def n_def)
      have "table.first (entry_matches (short_name file) 0) f n = Some (1 + j)"
        unfolding table.first_Some_iff
      proof (intro conjI allI impI)
        show "1 + j < n" using j(1) assms(6) by (simp add: n_def)
        then show "entry_matches (short_name file) 0 (entry_at f (1 + j))"
          using j len(1) [OF j(1)] by (simp add: at st'(4) head_matches [OF len(2) [OF j(1)]])
        fix m assume m: "m < 1 + j"
        then have mn: "m < n" using \<open>1 + j < n\<close> by simp
        show "\<not> entry_matches (short_name file) 0 (entry_at f m)"
        proof (cases m)
          case 0
          then show ?thesis using assms(4) mem root n(1) by (auto simp: entry_matches_def at)
        next
          case (Suc i)
          then have i: "i < j" "i < length files" using m j(1) by simp_all
          then have "short_name (files ! i) \<noteq> short_name (files ! j)"
            using assms(3) j(1) by (auto simp: distinct_conv_nth)
          then show ?thesis
            using Suc i mn at [of m] st'(4) [OF i(2)] head_matches [OF len(2,1) [OF i(2)]] j(2) by simp
        qed
      qed
      then have "resolve s disk [short_name file] = Inr (of_nat (1 + j), h)"
        using lookup_entry_ok [OF mounted] en at [of "1 + j"] st'(4) [OF j(1)] j(1) assms(6)
        by (simp add: resolve_def f_def [symmetric] h_def b_def d_def n_def)
      then have get: "fs_get_entry s path UNKNOWN_VALUE UNKNOWN_VALUE = Inr (of_nat (1 + j), h)"
        using denotes_get(1) [OF den] by simp
      have c: "contents (disk_of s disk) h = d" "unat (e_size h) = length d"
        using head_contents [OF sec, of d "mk_image st'" b] len(1) [OF j(1)] st'(7) [OF j(1)] bj assms(7) f st'(2)
        by (simp_all add: h_def d_def b_def img_def write_table_def f_def)
      have "entry_shape h" "entry_is h T_FILE" "unat (e_size h) \<le> 61440"
        using len(1) [OF j(1)] c(2) by (simp_all add: h_def d_def) (simp add: head_entry_def entry_is_def)
      then show ?thesis
        using read_contents [OF dev _ denotes_get(2) [OF den] get, of offset count] c(1) j(2)
        by (simp only: d_def)
    qed
    then show ?thesis using mounted sb by (simp add: f_def)
  qed
  ultimately show ?thesis using lens by blast
qed

subsection \<open>A small image\<close>

definition sample_inputs :: "(u8 list \<times> u8 list option) list" where
  "sample_inputs = [(bytes ''images/kernel.n16'', Some (replicate 600 7)), (bytes ''hello.bin'', Some [1, 2, 3])]"

text \<open>The state of \<open>Fs_Entries\<close> with an image of 60 blocks on its first disk.\<close>

definition image_disk :: "(nat \<Rightarrow> u8 list) \<Rightarrow> fs_state" where
  "image_disk img = demo_fs\<lparr>dsk := (dsk demo_fs)(0 := (\<lambda>x. if unat x < 60 then img (unat x) else replicate 512 0))\<rparr>"

lemma image_disk_ok:
  assumes "\<forall>k < 60. length (img k) = 512"
  shows "on_disk (image_disk img) 0 img 60" "denotes (image_disk img) (bytes ''hello.bin'') 0 [bytes ''hello.bin'']"
proof -
  let ?f = "\<lambda>x :: u16. if unat x < 60 then img (unat x) else replicate 512 0"
  have e: "image_disk img = set_disk demo_fs 0 ?f" by (simp add: image_disk_def set_disk_def)
  have "sectors_ok ?f" using assms by (simp add: sectors_ok_def)
  then have "device_ok (image_disk img) 0"
    using mounted_device [OF demo_mounted] unfolding e by simp
  then show "on_disk (image_disk img) 0 img 60" by (simp add: on_disk_def e unat_of_nat_u16)
  have "denotes demo_fs (bytes ''hello.bin'') 0 [bytes ''hello.bin'']"
    by (simp add: denotes_def component_def disk_names_ok_def demo_fs_def demo_string_is_disk) (simp add: demo_state_def)
  then show "denotes (image_disk img) (bytes ''hello.bin'') 0 [bytes ''hello.bin'']"
    by (subst denotes_cong [of _ demo_fs]) (simp_all add: image_disk_def)
qed

theorem image_files_readable_witness:
  "\<exists>img. mkfs_main 60 (Some []) sample_inputs = Some img \<and> mounted (image_disk img) 0 \<and>
    fs_read_file (image_disk img) (bytes ''hello.bin'') 1 100 = Inr (2, [2, 3])"
proof -
  have short: "map short_name sample_inputs = [bytes ''kernel.n16'', bytes ''hello.bin'']"
    by (simp add: sample_inputs_def short_name_def base_name_def)
  have good: "list_all good_file sample_inputs"
    by (simp add: sample_inputs_def good_file_def base_name_def)
  have n: "mk_numentries 60 = 6" by (simp add: mk_numentries_def)
  have l: "length sample_inputs = 2" by (simp add: sample_inputs_def)
  have b: "file_start (2 + mk_numentries 60) sample_inputs (length sample_inputs) \<le> 60"
    by (simp add: n file_start_def sample_inputs_def file_data_def blocks_for_def)
  have "distinct (map short_name sample_inputs)" "\<forall>file \<in> set sample_inputs. short_name file \<noteq> ROOT_DIR_NAME"
    "1 + length sample_inputs < mk_numentries 60" "length sample_inputs \<le> 120" "sample_inputs \<noteq> []"
    using l by (auto simp: short n) (auto simp: sample_inputs_def short_name_def base_name_def)
  then obtain img where img: "mkfs_main 60 (Some []) sample_inputs = Some img" "\<forall>k < 60. length (img k) = 512"
    "\<And>s disk. on_disk s disk img 60 \<Longrightarrow> mounted s disk \<and>
      (\<forall>file \<in> set sample_inputs. \<forall>path offset count. denotes s path disk [short_name file] \<longrightarrow>
       fs_read_file s path offset count =
         (let data = take (unat count) (drop (unat offset) (file_data file)) in Inr (of_nat (length data), data)))"
    using image_files_readable [of sample_inputs 60 "[]"] good b by auto
  note d = image_disk_ok [OF img(2)]
  have m: "(bytes ''hello.bin'', Some [1, 2, 3]) \<in> set sample_inputs" by (simp add: sample_inputs_def)
  have s: "short_name (bytes ''hello.bin'', Some [1, 2, 3]) = bytes ''hello.bin''"
    by (simp add: short_name_def base_name_def)
  have "fs_read_file (image_disk img) (bytes ''hello.bin'') 1 100 = Inr (2, [2, 3])"
    using conjunct2 [OF img(3) [OF d(1)]] m d(2) s by (auto simp: file_data_def simp del: bytes_simps)
  then show ?thesis using img(1) img(3) [OF d(1)] by blast
qed

end
