(* ===== verification/Nas_Encode.thy ===== *)
theory Nas_Encode
  imports Ulib_String Ulib_Memory
begin

section \<open>The assembler: instructions (source/programs/nas.c)\<close>

text \<open>
  The tables of registers and instructions and the encoding of an instruction and of data into the output
  buffer, which is memory: the 1024 bytes of \<open>obuff\<close> and what follows them, since nothing checks
  the size. Debug output is not modelled. \<open>decode\<close> at the end is the reference: what an 8086 makes of the
  bytes.
\<close>

datatype o_type = O_ANY | O_RB | O_RW | O_RD | O_RMW | O_MW | O_IW

definition R_ANY :: u16 where [simp]: "R_ANY = 0"
definition R_BX :: u16 where [simp]: "R_BX = 4"
definition R_COUNT :: nat where [simp]: "R_COUNT = 9"

record rdata =
  r_name :: "u8 list"
  r_type :: o_type
  r_encoding :: u8

definition r_data :: "rdata list" where
  "r_data = map (\<lambda>(n, t, e). \<lparr>r_name = bytes n, r_type = t, r_encoding = e\<rparr>)
     [(''NO'', O_ANY, 0), (''ax'', O_RW, 0), (''cx'', O_RW, 1), (''dx'', O_RW, 2), (''bx'', O_RW, 3),
      (''sp'', O_RW, 4), (''bp'', O_RW, 5), (''si'', O_RW, 6), (''di'', O_RW, 7)]"

text \<open>Instruction numbers, in the order of the table.\<close>

definition I_PUSH :: u8 where [simp]: "I_PUSH = 0"
definition I_POP :: u8 where [simp]: "I_POP = 1"
definition I_MOV_RIW :: u8 where [simp]: "I_MOV_RIW = 2"
definition I_MOV_RRW :: u8 where [simp]: "I_MOV_RRW = 3"
definition I_MOV_RMW :: u8 where [simp]: "I_MOV_RMW = 4"
definition I_MOV_MRW :: u8 where [simp]: "I_MOV_MRW = 5"
definition I_MOV_RRMW :: u8 where [simp]: "I_MOV_RRMW = 6"
definition I_MOV_RMRW :: u8 where [simp]: "I_MOV_RMRW = 7"
definition I_CMP_RIW :: u8 where [simp]: "I_CMP_RIW = 8"
definition I_CMP_RRW :: u8 where [simp]: "I_CMP_RRW = 9"
definition I_CMP_RMW :: u8 where [simp]: "I_CMP_RMW = 10"
definition I_CMP_MRW :: u8 where [simp]: "I_CMP_MRW = 11"
definition I_CMP_RRMW :: u8 where [simp]: "I_CMP_RRMW = 12"
definition I_CMP_RMRW :: u8 where [simp]: "I_CMP_RMRW = 13"
definition I_RET :: u8 where [simp]: "I_RET = 14"
definition I_RETF :: u8 where [simp]: "I_RETF = 15"
definition I_INT :: u8 where [simp]: "I_INT = 16"
definition I_CALL :: u8 where [simp]: "I_CALL = 17"
definition I_JMP :: u8 where [simp]: "I_JMP = 18"
definition I_JE :: u8 where [simp]: "I_JE = 19"
definition I_JNE :: u8 where [simp]: "I_JNE = 20"
definition I_JG :: u8 where [simp]: "I_JG = 21"
definition I_JGE :: u8 where [simp]: "I_JGE = 22"
definition I_JL :: u8 where [simp]: "I_JL = 23"
definition I_JLE :: u8 where [simp]: "I_JLE = 24"
definition I_JC :: u8 where [simp]: "I_JC = 25"
definition I_JNC :: u8 where [simp]: "I_JNC = 26"
definition I_ADD_RIW :: u8 where [simp]: "I_ADD_RIW = 27"
definition I_ADD_RRW :: u8 where [simp]: "I_ADD_RRW = 28"
definition I_ADD_RMW :: u8 where [simp]: "I_ADD_RMW = 29"
definition I_ADD_MRW :: u8 where [simp]: "I_ADD_MRW = 30"
definition I_ADD_RRMW :: u8 where [simp]: "I_ADD_RRMW = 31"
definition I_ADD_RMRW :: u8 where [simp]: "I_ADD_RMRW = 32"
definition I_SUB_RIW :: u8 where [simp]: "I_SUB_RIW = 33"
definition I_SUB_RRW :: u8 where [simp]: "I_SUB_RRW = 34"
definition I_SUB_RMW :: u8 where [simp]: "I_SUB_RMW = 35"
definition I_SUB_MRW :: u8 where [simp]: "I_SUB_MRW = 36"
definition I_SUB_RRMW :: u8 where [simp]: "I_SUB_RRMW = 37"
definition I_SUB_RMRW :: u8 where [simp]: "I_SUB_RMRW = 38"
definition I_MUL_RW :: u8 where [simp]: "I_MUL_RW = 39"
definition I_DIV_RW :: u8 where [simp]: "I_DIV_RW = 40"
definition I_NOT_RW :: u8 where [simp]: "I_NOT_RW = 41"
definition I_AND_RIW :: u8 where [simp]: "I_AND_RIW = 42"
definition I_AND_RRW :: u8 where [simp]: "I_AND_RRW = 43"
definition I_AND_RMW :: u8 where [simp]: "I_AND_RMW = 44"
definition I_AND_MRW :: u8 where [simp]: "I_AND_MRW = 45"
definition I_AND_RRMW :: u8 where [simp]: "I_AND_RRMW = 46"
definition I_AND_RMRW :: u8 where [simp]: "I_AND_RMRW = 47"
definition I_OR_RIW :: u8 where [simp]: "I_OR_RIW = 48"
definition I_OR_RRW :: u8 where [simp]: "I_OR_RRW = 49"
definition I_OR_RMW :: u8 where [simp]: "I_OR_RMW = 50"
definition I_OR_MRW :: u8 where [simp]: "I_OR_MRW = 51"
definition I_OR_RRMW :: u8 where [simp]: "I_OR_RRMW = 52"
definition I_OR_RMRW :: u8 where [simp]: "I_OR_RMRW = 53"
definition I_COUNT :: u8 where [simp]: "I_COUNT = 54"
definition I_MAX_OPS :: nat where [simp]: "I_MAX_OPS = 3"

record idata =
  mnemonic :: "u8 list"
  opcode :: u8
  nops :: u8
  op_type :: "o_type list"
  op_value :: "u16 list"

definition i_data :: "idata list" where
  "i_data = map (\<lambda>(m, c, n, t, v). \<lparr>mnemonic = bytes m, opcode = c, nops = n, op_type = t, op_value = v\<rparr>)
     [(''push'', 0x50, 1, [O_RW, O_ANY, O_ANY], [R_ANY, 0, 0]),
      (''pop'', 0x58, 1, [O_RW, O_ANY, O_ANY], [R_ANY, 0, 0]),
      (''mov'', 0xB8, 2, [O_RW, O_IW, O_ANY], [R_ANY, 0, 0]),
      (''mov'', 0x89, 2, [O_RW, O_RW, O_ANY], [R_ANY, R_ANY, 0]),
      (''mov'', 0x8B, 2, [O_RW, O_MW, O_ANY], [R_ANY, 0, 0]),
      (''mov'', 0x89, 2, [O_MW, O_RW, O_ANY], [0, R_ANY, 0]),
      (''mov'', 0x8B, 2, [O_RW, O_RMW, O_ANY], [R_ANY, R_BX, 0]),
      (''mov'', 0x89, 2, [O_RMW, O_RW, O_ANY], [R_BX, R_ANY, 0]),
      (''cmp'', 0x81, 2, [O_RW, O_IW, O_ANY], [R_ANY, 0, 0]),
      (''cmp'', 0x39, 2, [O_RW, O_RW, O_ANY], [R_ANY, R_ANY, 0]),
      (''cmp'', 0x3B, 2, [O_RW, O_MW, O_ANY], [R_ANY, 0, 0]),
      (''cmp'', 0x39, 2, [O_MW, O_RW, O_ANY], [0, R_ANY, 0]),
      (''cmp'', 0x3B, 2, [O_RW, O_RMW, O_ANY], [R_ANY, R_BX, 0]),
      (''cmp'', 0x39, 2, [O_RMW, O_RW, O_ANY], [R_BX, R_ANY, 0]),
      (''ret'', 0xC3, 0, [O_ANY, O_ANY, O_ANY], [0, 0, 0]),
      (''retf'', 0xCB, 0, [O_ANY, O_ANY, O_ANY], [0, 0, 0]),
      (''int'', 0xCD, 1, [O_IW, O_ANY, O_ANY], [0, 0, 0]),
      (''call'', 0xE8, 1, [O_IW, O_ANY, O_ANY], [0, 0, 0]),
      (''jmp'', 0xE9, 1, [O_IW, O_ANY, O_ANY], [0, 0, 0]),
      (''je'', 0x74, 1, [O_IW, O_ANY, O_ANY], [0, 0, 0]),
      (''jne'', 0x75, 1, [O_IW, O_ANY, O_ANY], [0, 0, 0]),
      (''jg'', 0x7F, 1, [O_IW, O_ANY, O_ANY], [0, 0, 0]),
      (''jge'', 0x7D, 1, [O_IW, O_ANY, O_ANY], [0, 0, 0]),
      (''jl'', 0x7C, 1, [O_IW, O_ANY, O_ANY], [0, 0, 0]),
      (''jle'', 0x7E, 1, [O_IW, O_ANY, O_ANY], [0, 0, 0]),
      (''jc'', 0x72, 1, [O_IW, O_ANY, O_ANY], [0, 0, 0]),
      (''jnc'', 0x73, 1, [O_IW, O_ANY, O_ANY], [0, 0, 0]),
      (''add'', 0x81, 2, [O_RW, O_IW, O_ANY], [R_ANY, 0, 0]),
      (''add'', 0x01, 2, [O_RW, O_RW, O_ANY], [R_ANY, R_ANY, 0]),
      (''add'', 0x03, 2, [O_RW, O_MW, O_ANY], [R_ANY, 0, 0]),
      (''add'', 0x01, 2, [O_MW, O_RW, O_ANY], [0, R_ANY, 0]),
      (''add'', 0x03, 2, [O_RW, O_RMW, O_ANY], [R_ANY, R_BX, 0]),
      (''add'', 0x01, 2, [O_RMW, O_RW, O_ANY], [R_BX, R_ANY, 0]),
      (''sub'', 0x81, 2, [O_RW, O_IW, O_ANY], [R_ANY, 0, 0]),
      (''sub'', 0x29, 2, [O_RW, O_RW, O_ANY], [R_ANY, R_ANY, 0]),
      (''sub'', 0x2B, 2, [O_RW, O_MW, O_ANY], [R_ANY, 0, 0]),
      (''sub'', 0x29, 2, [O_MW, O_RW, O_ANY], [0, R_ANY, 0]),
      (''sub'', 0x2B, 2, [O_RW, O_RMW, O_ANY], [R_ANY, R_BX, 0]),
      (''sub'', 0x29, 2, [O_RMW, O_RW, O_ANY], [R_BX, R_ANY, 0]),
      (''mul'', 0xF7, 2, [O_RW, O_ANY, O_ANY], [R_ANY, 0, 0]),
      (''div'', 0xF7, 2, [O_RW, O_ANY, O_ANY], [R_ANY, 0, 0]),
      (''not'', 0xF7, 2, [O_RW, O_ANY, O_ANY], [R_ANY, 0, 0]),
      (''and'', 0x81, 2, [O_RW, O_IW, O_ANY], [R_ANY, 0, 0]),
      (''and'', 0x21, 2, [O_RW, O_RW, O_ANY], [R_ANY, R_ANY, 0]),
      (''and'', 0x23, 2, [O_RW, O_MW, O_ANY], [R_ANY, 0, 0]),
      (''and'', 0x21, 2, [O_MW, O_RW, O_ANY], [0, R_ANY, 0]),
      (''and'', 0x23, 2, [O_RW, O_RMW, O_ANY], [R_ANY, R_BX, 0]),
      (''and'', 0x21, 2, [O_RMW, O_RW, O_ANY], [R_BX, R_ANY, 0]),
      (''or'', 0x81, 2, [O_RW, O_IW, O_ANY], [R_ANY, 0, 0]),
      (''or'', 0x09, 2, [O_RW, O_RW, O_ANY], [R_ANY, R_ANY, 0]),
      (''or'', 0x0B, 2, [O_RW, O_MW, O_ANY], [R_ANY, 0, 0]),
      (''or'', 0x09, 2, [O_MW, O_RW, O_ANY], [0, R_ANY, 0]),
      (''or'', 0x0B, 2, [O_RW, O_RMW, O_ANY], [R_ANY, R_BX, 0]),
      (''or'', 0x09, 2, [O_RMW, O_RW, O_ANY], [R_BX, R_ANY, 0])]"

subsection \<open>Encoding\<close>

text \<open>
  The bytes of instruction \<open>instr\<close> at \<open>offset\<close> with operands \<open>op\<close>, case by case. The code writes them one by
  one, and the right-hand sides that use \<open>offset\<close> see its value before the increment of that
  assignment; the second byte of a displacement is computed one byte further than the first.
\<close>

definition instruction_bytes :: "u16 \<Rightarrow> u16 \<Rightarrow> u8 \<Rightarrow> u16 list \<Rightarrow> u8 list option" where
  "instruction_bytes cg_origin offset instr op =
     (let opc = opcode (i_data ! unat instr);
          enc = \<lambda>k. r_encoding (r_data ! unat (op ! k));
          imm = \<lambda>k. [ucast (op ! k AND 0xFF), ucast (drop_bit 8 (op ! k))];
          group = \<lambda>r. Some (opc # (0xC0 OR push_bit 3 r OR enc 0) # imm 1)
      in if instr \<in> {I_RETF, I_RET} then Some [opc]
         else if instr \<in> {I_PUSH, I_POP} then Some [opc + enc 0]
         else if instr = I_INT then Some [opc, ucast (op ! 0)]
         else if instr \<in> {I_JNE, I_JG, I_JGE, I_JL, I_JLE, I_JC, I_JNC, I_JE}
         then Some [opc, ucast (op ! 0 - cg_origin - (offset + 1 + 1))]
         else if instr \<in> {I_CALL, I_JMP}
         then Some [opc, ucast ((op ! 0 - cg_origin - (offset + 1 + 2)) AND 0xFF),
                    ucast (drop_bit 8 (op ! 0 - cg_origin - (offset + 2 + 2)))]
         else if instr = I_OR_RIW then group 1
         else if instr = I_AND_RIW then group 4
         else if instr = I_NOT_RW then Some [opc, 0xC0 OR push_bit 3 2 OR enc 0]
         else if instr = I_MUL_RW then Some [opc, 0xC0 OR push_bit 3 4 OR enc 0]
         else if instr = I_DIV_RW then Some [opc, 0xC0 OR push_bit 3 6 OR enc 0]
         else if instr = I_SUB_RIW then group 5
         else if instr = I_ADD_RIW then Some (opc # (0xC0 OR enc 0) # imm 1)
         else if instr = I_CMP_RIW then group 7
         else if instr = I_MOV_RIW then Some ((opc + enc 0) # imm 1)
         else if instr \<in> {I_OR_RRW, I_AND_RRW, I_SUB_RRW, I_ADD_RRW, I_CMP_RRW, I_MOV_RRW}
         then Some [opc, 0xC0 OR push_bit 3 (enc 1) OR enc 0]
         else if instr \<in> {I_OR_RMW, I_AND_RMW, I_SUB_RMW, I_ADD_RMW, I_CMP_RMW, I_MOV_RMW}
         then Some (opc # (0x06 OR push_bit 3 (enc 0)) # imm 1)
         else if instr \<in> {I_OR_MRW, I_AND_MRW, I_SUB_MRW, I_ADD_MRW, I_CMP_MRW, I_MOV_MRW}
         then Some (opc # (0x06 OR push_bit 3 (enc 1)) # imm 0)
         else if instr \<in> {I_OR_RRMW, I_AND_RRMW, I_SUB_RRMW, I_ADD_RRMW, I_CMP_RRMW, I_MOV_RRMW}
         then Some [opc, 0x07 OR push_bit 3 (enc 0)]
         else if instr \<in> {I_OR_RMRW, I_AND_RMRW, I_SUB_RMRW, I_ADD_RMRW, I_CMP_RMRW, I_MOV_RMRW}
         then Some [opc, 0x07 OR push_bit 3 (enc 1)]
         else None)"

definition encode_instruction :: "u16 \<Rightarrow> mem \<Rightarrow> u16 \<Rightarrow> u8 \<Rightarrow> u16 list \<Rightarrow> u16 \<times> mem" where
  "encode_instruction cg_origin buffer offset instr op =
     (case instruction_bytes cg_origin offset instr op of
        None \<Rightarrow> (ERROR_NOT_FOUND, buffer)
      | Some bs \<Rightarrow> (offset + of_nat (length bs), put_mem buffer offset bs))"

datatype s_type = S_LABEL | S_DATAW | S_DATAB

definition encode_data :: "mem \<Rightarrow> u16 \<Rightarrow> s_type \<Rightarrow> u16 \<Rightarrow> u16 \<times> mem" where
  "encode_data buffer offset type v =
     (case type of
        S_DATAW \<Rightarrow> (offset + 2, put_mem buffer offset [ucast (v AND 0xFF), ucast (drop_bit 8 v)])
      | S_DATAB \<Rightarrow> (offset + 1, put_mem buffer offset [ucast (v AND 0xFF)])
      | S_LABEL \<Rightarrow> (offset, buffer))"

subsection \<open>The table\<close>

definition find_instruction :: "idata \<Rightarrow> u8" where
  "find_instruction ci =
     (case find (\<lambda>instr. let d = i_data ! instr
                  in strcmp (mnemonic ci) (mnemonic d) = 0 \<and> nops ci = nops d \<and>
                     list_all (\<lambda>i. op_type ci ! i = op_type d ! i \<and>
                                   (op_value d ! i = 0 \<or> op_value d ! i = op_value ci ! i))
                       [0 ..< unat (nops ci)])
        [0 ..< unat I_COUNT] of
        Some instr \<Rightarrow> of_nat instr | None \<Rightarrow> ucast ERROR_NOT_FOUND)"

subsection \<open>The processor\<close>

datatype operand = Reg u8 | Imm u16 | Abs u16 | AtBX | Target u16

text \<open>
  The 8086 instruction at address \<open>pc\<close>: its mnemonic, its operands and its length. Registers are
  numbered as in the encoding, \<open>Target\<close> is an address of code. The second byte of most instructions selects an operand:
  \<open>modrm\<close> gives it with the number of bytes of its displacement, for the modes the assembler knows, a register, an address
  and \<open>[bx]\<close>; an instruction with another mode is not decoded.
\<close>

definition rel8 :: "u16 \<Rightarrow> u8 \<Rightarrow> u16" where
  "rel8 pc d = pc + 2 + scast d"

definition modrm :: "u8 list \<Rightarrow> (operand \<times> nat) option" where
  "modrm b =
     (let mode = drop_bit 6 (b ! 0); rm = b ! 0 AND 7
      in if mode = 3 then Some (Reg rm, 0)
         else if mode = 0 \<and> rm = 6 then Some (Abs (ucast (b ! 1) OR push_bit 8 (ucast (b ! 2))), 2)
         else if mode = 0 \<and> rm = 7 then Some (AtBX, 0)
         else None)"

definition reg_field :: "u8 \<Rightarrow> u8" where
  "reg_field b = drop_bit 3 b AND 7"

definition word_at :: "u8 list \<Rightarrow> u16" where
  "word_at b = ucast (b ! 0) OR push_bit 8 (ucast (b ! 1))"

definition decode :: "u16 \<Rightarrow> u8 list \<Rightarrow> (string \<times> operand list \<times> nat) option" where
  "decode pc b =
     (let c = b ! 0; c3 = c AND 0xF8; r = c AND 7; field = reg_field (b ! 1);
          group = [(0x01, ''add''), (0x09, ''or''), (0x21, ''and''), (0x29, ''sub''), (0x39, ''cmp''), (0x89, ''mov'')];
          load = map (\<lambda>(k, n). (k + 2, n)) group;
          jumps = [(0x72, ''jc''), (0x73, ''jnc''), (0x74, ''je''), (0x75, ''jne''), (0x7C, ''jl''), (0x7D, ''jge''),
                   (0x7E, ''jle''), (0x7F, ''jg'')];
          immediate = [(0, ''add''), (1, ''or''), (4, ''and''), (5, ''sub''), (7, ''cmp'')];
          unary = [(2, ''not''), (4, ''mul''), (6, ''div'')]
      in if c3 = 0x50 then Some (''push'', [Reg r], 1)
         else if c3 = 0x58 then Some (''pop'', [Reg r], 1)
         else if c3 = 0xB8 then Some (''mov'', [Reg r, Imm (word_at (drop 1 b))], 3)
         else if c = 0xC3 then Some (''ret'', [], 1)
         else if c = 0xCB then Some (''retf'', [], 1)
         else if c = 0xCD then Some (''int'', [Imm (ucast (b ! 1))], 2)
         else if c = 0xE8 then Some (''call'', [Target (pc + 3 + word_at (drop 1 b))], 3)
         else if c = 0xE9 then Some (''jmp'', [Target (pc + 3 + word_at (drop 1 b))], 3)
         else case map_of jumps c of
           Some n \<Rightarrow> Some (n, [Target (rel8 pc (b ! 1))], 2)
         | None \<Rightarrow>
             (case modrm (drop 1 b) of
                None \<Rightarrow> None
              | Some (x, k) \<Rightarrow>
                  if c = 0x81
                  then map_option (\<lambda>n. (n, [x, Imm (word_at (drop (2 + k) b))], 4 + k)) (map_of immediate field)
                  else if c = 0xF7 then map_option (\<lambda>n. (n, [x], 2 + k)) (map_of unary field)
                  else case map_of group c of
                    Some n \<Rightarrow> Some (n, [x, Reg field], 2 + k)
                  | None \<Rightarrow> map_option (\<lambda>n. (n, [Reg field, x], 2 + k)) (map_of load c)))"

subsection \<open>Encoded instructions decode to what was written\<close>

lemma small_u8: "x < 8 \<longleftrightarrow> x \<in> {0, 1, 2, 3, 4, 5, 6, 7 :: u8}"
  by (simp add: word_less_nat_alt word_unat_eq_iff) linarith

lemma modrm_register:
  assumes "a < 8" "b < 8"
  shows "drop_bit 6 (0xC0 OR push_bit 3 b OR a) = (3 :: u8) \<and> (0xC0 OR push_bit 3 b OR a) AND 7 = a \<and>
    reg_field (0xC0 OR push_bit 3 b OR a) = b"
  using assms unfolding small_u8 reg_field_def by (elim insertE emptyE; simp)

lemma modrm_memory:
  assumes "b < 8"
  shows "drop_bit 6 (6 OR push_bit 3 b) = (0 :: u8)" "(6 OR push_bit 3 b) AND 7 = (6 :: u8)" "reg_field (6 OR push_bit 3 b) = b"
    "drop_bit 6 (7 OR push_bit 3 b) = (0 :: u8)" "(7 OR push_bit 3 b) AND 7 = (7 :: u8)" "reg_field (7 OR push_bit 3 b) = b"
  using assms by (auto simp: small_u8 reg_field_def)

lemma opcode_fields:
  assumes "a < 8"
  shows "(0x50 + a) AND 0xF8 = (0x50 :: u8)" "(0x50 + a) AND 7 = a"
    "(0x58 + a) AND 0xF8 = (0x58 :: u8)" "(0x58 + a) AND 7 = a"
    "(0xB8 + a) AND 0xF8 = (0xB8 :: u8)" "(0xB8 + a) AND 7 = a"
  using assms by (auto simp: small_u8)

lemma word_at_bytes [simp]: "word_at (ucast (x AND 0xFF) # ucast (drop_bit 8 x) # r) = x"
proof (rule bit_eqI)
  fix n assume "possible_bit TYPE(u16) n"
  then have n: "n < 16" by (simp add: possible_bit_word)
  have ff: "(0xff :: u16) = mask 8" by (simp add: mask_eq_exp_minus_1)
  consider "n < 8" | "8 \<le> n" by linarith
  then show "bit (word_at (ucast (x AND 0xFF) # ucast (drop_bit 8 x) # r)) n \<longleftrightarrow> bit x n"
    using n unfolding ff by cases (simp_all add: word_at_def bit_simps less_diff_conv2)
qed

definition is_register :: "u16 \<Rightarrow> bool" where
  "is_register r \<longleftrightarrow> 0 < r \<and> r < of_nat R_COUNT"

lemma register_encoding:
  assumes "is_register r"
  shows "r_encoding (r_data ! unat r) = ucast r - 1" "ucast r - 1 < (8 :: u8)"
proof -
  have "r \<in> {1, 2, 3, 4, 5, 6, 7, 8}" using assms
    by (simp add: is_register_def word_less_nat_alt word_unat_eq_iff) linarith
  then show "r_encoding (r_data ! unat r) = ucast r - 1" "ucast r - 1 < (8 :: u8)" by (auto simp: r_data_def)
qed

lemma register_code: "is_register r \<Longrightarrow> ucast r - 1 = r_encoding (r_data ! unat r)"
  by (simp add: register_encoding)

lemma register_code_lt: "is_register r \<Longrightarrow> r_encoding (r_data ! unat r) < 8"
  using register_encoding by simp

definition conditional_jumps :: "u8 set" where
  "conditional_jumps = {I_JNE, I_JG, I_JGE, I_JL, I_JLE, I_JC, I_JNC, I_JE}"

text \<open>What an instruction with these operands means: registers by their encoding, a jump by its target.\<close>

definition operand_of :: "o_type \<Rightarrow> u16 \<Rightarrow> operand" where
  "operand_of t v = (case t of O_RW \<Rightarrow> Reg (ucast v - 1) | O_MW \<Rightarrow> Abs v | O_RMW \<Rightarrow> AtBX | _ \<Rightarrow> Imm v)"

definition meaning :: "u8 \<Rightarrow> u16 list \<Rightarrow> operand list" where
  "meaning instr op =
     (let d = i_data ! unat instr
      in if instr \<in> conditional_jumps \<or> instr \<in> {I_CALL, I_JMP} then [Target (op ! 0)]
         else if instr \<in> {I_MUL_RW, I_DIV_RW, I_NOT_RW} then [Reg (ucast (op ! 0) - 1)]
         else map (\<lambda>i. operand_of (op_type d ! i) (op ! i)) [0 ..< unat (nops d)])"

definition good_operands :: "u8 \<Rightarrow> u16 list \<Rightarrow> bool" where
  "good_operands instr op \<longleftrightarrow>
     (\<forall>i < unat (nops (i_data ! unat instr)).
        (op_type (i_data ! unat instr) ! i = O_RW \<longrightarrow> is_register (op ! i)))"

lemma instr_cases: "instr < I_COUNT \<Longrightarrow> instr \<in> set (map of_nat [0 ..< 54])"
proof -
  assume "instr < I_COUNT"
  then have "unat instr < 54" by (simp add: word_less_nat_alt)
  moreover have "instr = of_nat (unat instr)" by simp
  ultimately show ?thesis by (metis atLeastLessThan_iff imageI le0 set_map set_upt)
qed

lemma i_data_rows:
  "i_data ! 0 = \<lparr>mnemonic = bytes ''push'', opcode = 0x50, nops = 1, op_type = [O_RW, O_ANY, O_ANY], op_value = [0, 0, 0]\<rparr>"
  "i_data ! 1 = \<lparr>mnemonic = bytes ''pop'', opcode = 0x58, nops = 1, op_type = [O_RW, O_ANY, O_ANY], op_value = [0, 0, 0]\<rparr>"
  "i_data ! 2 = \<lparr>mnemonic = bytes ''mov'', opcode = 0xB8, nops = 2, op_type = [O_RW, O_IW, O_ANY], op_value = [0, 0, 0]\<rparr>"
  "i_data ! 3 = \<lparr>mnemonic = bytes ''mov'', opcode = 0x89, nops = 2, op_type = [O_RW, O_RW, O_ANY], op_value = [0, 0, 0]\<rparr>"
  "i_data ! 4 = \<lparr>mnemonic = bytes ''mov'', opcode = 0x8B, nops = 2, op_type = [O_RW, O_MW, O_ANY], op_value = [0, 0, 0]\<rparr>"
  "i_data ! 5 = \<lparr>mnemonic = bytes ''mov'', opcode = 0x89, nops = 2, op_type = [O_MW, O_RW, O_ANY], op_value = [0, 0, 0]\<rparr>"
  "i_data ! 6 = \<lparr>mnemonic = bytes ''mov'', opcode = 0x8B, nops = 2, op_type = [O_RW, O_RMW, O_ANY], op_value = [0, 4, 0]\<rparr>"
  "i_data ! 7 = \<lparr>mnemonic = bytes ''mov'', opcode = 0x89, nops = 2, op_type = [O_RMW, O_RW, O_ANY], op_value = [4, 0, 0]\<rparr>"
  "i_data ! 8 = \<lparr>mnemonic = bytes ''cmp'', opcode = 0x81, nops = 2, op_type = [O_RW, O_IW, O_ANY], op_value = [0, 0, 0]\<rparr>"
  "i_data ! 9 = \<lparr>mnemonic = bytes ''cmp'', opcode = 0x39, nops = 2, op_type = [O_RW, O_RW, O_ANY], op_value = [0, 0, 0]\<rparr>"
  "i_data ! 10 = \<lparr>mnemonic = bytes ''cmp'', opcode = 0x3B, nops = 2, op_type = [O_RW, O_MW, O_ANY], op_value = [0, 0, 0]\<rparr>"
  "i_data ! 11 = \<lparr>mnemonic = bytes ''cmp'', opcode = 0x39, nops = 2, op_type = [O_MW, O_RW, O_ANY], op_value = [0, 0, 0]\<rparr>"
  "i_data ! 12 = \<lparr>mnemonic = bytes ''cmp'', opcode = 0x3B, nops = 2, op_type = [O_RW, O_RMW, O_ANY], op_value = [0, 4, 0]\<rparr>"
  "i_data ! 13 = \<lparr>mnemonic = bytes ''cmp'', opcode = 0x39, nops = 2, op_type = [O_RMW, O_RW, O_ANY], op_value = [4, 0, 0]\<rparr>"
  "i_data ! 14 = \<lparr>mnemonic = bytes ''ret'', opcode = 0xC3, nops = 0, op_type = [O_ANY, O_ANY, O_ANY], op_value = [0, 0, 0]\<rparr>"
  "i_data ! 15 = \<lparr>mnemonic = bytes ''retf'', opcode = 0xCB, nops = 0, op_type = [O_ANY, O_ANY, O_ANY], op_value = [0, 0, 0]\<rparr>"
  "i_data ! 16 = \<lparr>mnemonic = bytes ''int'', opcode = 0xCD, nops = 1, op_type = [O_IW, O_ANY, O_ANY], op_value = [0, 0, 0]\<rparr>"
  "i_data ! 17 = \<lparr>mnemonic = bytes ''call'', opcode = 0xE8, nops = 1, op_type = [O_IW, O_ANY, O_ANY], op_value = [0, 0, 0]\<rparr>"
  "i_data ! 18 = \<lparr>mnemonic = bytes ''jmp'', opcode = 0xE9, nops = 1, op_type = [O_IW, O_ANY, O_ANY], op_value = [0, 0, 0]\<rparr>"
  "i_data ! 19 = \<lparr>mnemonic = bytes ''je'', opcode = 0x74, nops = 1, op_type = [O_IW, O_ANY, O_ANY], op_value = [0, 0, 0]\<rparr>"
  "i_data ! 20 = \<lparr>mnemonic = bytes ''jne'', opcode = 0x75, nops = 1, op_type = [O_IW, O_ANY, O_ANY], op_value = [0, 0, 0]\<rparr>"
  "i_data ! 21 = \<lparr>mnemonic = bytes ''jg'', opcode = 0x7F, nops = 1, op_type = [O_IW, O_ANY, O_ANY], op_value = [0, 0, 0]\<rparr>"
  "i_data ! 22 = \<lparr>mnemonic = bytes ''jge'', opcode = 0x7D, nops = 1, op_type = [O_IW, O_ANY, O_ANY], op_value = [0, 0, 0]\<rparr>"
  "i_data ! 23 = \<lparr>mnemonic = bytes ''jl'', opcode = 0x7C, nops = 1, op_type = [O_IW, O_ANY, O_ANY], op_value = [0, 0, 0]\<rparr>"
  "i_data ! 24 = \<lparr>mnemonic = bytes ''jle'', opcode = 0x7E, nops = 1, op_type = [O_IW, O_ANY, O_ANY], op_value = [0, 0, 0]\<rparr>"
  "i_data ! 25 = \<lparr>mnemonic = bytes ''jc'', opcode = 0x72, nops = 1, op_type = [O_IW, O_ANY, O_ANY], op_value = [0, 0, 0]\<rparr>"
  "i_data ! 26 = \<lparr>mnemonic = bytes ''jnc'', opcode = 0x73, nops = 1, op_type = [O_IW, O_ANY, O_ANY], op_value = [0, 0, 0]\<rparr>"
  "i_data ! 27 = \<lparr>mnemonic = bytes ''add'', opcode = 0x81, nops = 2, op_type = [O_RW, O_IW, O_ANY], op_value = [0, 0, 0]\<rparr>"
  "i_data ! 28 = \<lparr>mnemonic = bytes ''add'', opcode = 0x01, nops = 2, op_type = [O_RW, O_RW, O_ANY], op_value = [0, 0, 0]\<rparr>"
  "i_data ! 29 = \<lparr>mnemonic = bytes ''add'', opcode = 0x03, nops = 2, op_type = [O_RW, O_MW, O_ANY], op_value = [0, 0, 0]\<rparr>"
  "i_data ! 30 = \<lparr>mnemonic = bytes ''add'', opcode = 0x01, nops = 2, op_type = [O_MW, O_RW, O_ANY], op_value = [0, 0, 0]\<rparr>"
  "i_data ! 31 = \<lparr>mnemonic = bytes ''add'', opcode = 0x03, nops = 2, op_type = [O_RW, O_RMW, O_ANY], op_value = [0, 4, 0]\<rparr>"
  "i_data ! 32 = \<lparr>mnemonic = bytes ''add'', opcode = 0x01, nops = 2, op_type = [O_RMW, O_RW, O_ANY], op_value = [4, 0, 0]\<rparr>"
  "i_data ! 33 = \<lparr>mnemonic = bytes ''sub'', opcode = 0x81, nops = 2, op_type = [O_RW, O_IW, O_ANY], op_value = [0, 0, 0]\<rparr>"
  "i_data ! 34 = \<lparr>mnemonic = bytes ''sub'', opcode = 0x29, nops = 2, op_type = [O_RW, O_RW, O_ANY], op_value = [0, 0, 0]\<rparr>"
  "i_data ! 35 = \<lparr>mnemonic = bytes ''sub'', opcode = 0x2B, nops = 2, op_type = [O_RW, O_MW, O_ANY], op_value = [0, 0, 0]\<rparr>"
  "i_data ! 36 = \<lparr>mnemonic = bytes ''sub'', opcode = 0x29, nops = 2, op_type = [O_MW, O_RW, O_ANY], op_value = [0, 0, 0]\<rparr>"
  "i_data ! 37 = \<lparr>mnemonic = bytes ''sub'', opcode = 0x2B, nops = 2, op_type = [O_RW, O_RMW, O_ANY], op_value = [0, 4, 0]\<rparr>"
  "i_data ! 38 = \<lparr>mnemonic = bytes ''sub'', opcode = 0x29, nops = 2, op_type = [O_RMW, O_RW, O_ANY], op_value = [4, 0, 0]\<rparr>"
  "i_data ! 39 = \<lparr>mnemonic = bytes ''mul'', opcode = 0xF7, nops = 2, op_type = [O_RW, O_ANY, O_ANY], op_value = [0, 0, 0]\<rparr>"
  "i_data ! 40 = \<lparr>mnemonic = bytes ''div'', opcode = 0xF7, nops = 2, op_type = [O_RW, O_ANY, O_ANY], op_value = [0, 0, 0]\<rparr>"
  "i_data ! 41 = \<lparr>mnemonic = bytes ''not'', opcode = 0xF7, nops = 2, op_type = [O_RW, O_ANY, O_ANY], op_value = [0, 0, 0]\<rparr>"
  "i_data ! 42 = \<lparr>mnemonic = bytes ''and'', opcode = 0x81, nops = 2, op_type = [O_RW, O_IW, O_ANY], op_value = [0, 0, 0]\<rparr>"
  "i_data ! 43 = \<lparr>mnemonic = bytes ''and'', opcode = 0x21, nops = 2, op_type = [O_RW, O_RW, O_ANY], op_value = [0, 0, 0]\<rparr>"
  "i_data ! 44 = \<lparr>mnemonic = bytes ''and'', opcode = 0x23, nops = 2, op_type = [O_RW, O_MW, O_ANY], op_value = [0, 0, 0]\<rparr>"
  "i_data ! 45 = \<lparr>mnemonic = bytes ''and'', opcode = 0x21, nops = 2, op_type = [O_MW, O_RW, O_ANY], op_value = [0, 0, 0]\<rparr>"
  "i_data ! 46 = \<lparr>mnemonic = bytes ''and'', opcode = 0x23, nops = 2, op_type = [O_RW, O_RMW, O_ANY], op_value = [0, 4, 0]\<rparr>"
  "i_data ! 47 = \<lparr>mnemonic = bytes ''and'', opcode = 0x21, nops = 2, op_type = [O_RMW, O_RW, O_ANY], op_value = [4, 0, 0]\<rparr>"
  "i_data ! 48 = \<lparr>mnemonic = bytes ''or'', opcode = 0x81, nops = 2, op_type = [O_RW, O_IW, O_ANY], op_value = [0, 0, 0]\<rparr>"
  "i_data ! 49 = \<lparr>mnemonic = bytes ''or'', opcode = 0x09, nops = 2, op_type = [O_RW, O_RW, O_ANY], op_value = [0, 0, 0]\<rparr>"
  "i_data ! 50 = \<lparr>mnemonic = bytes ''or'', opcode = 0x0B, nops = 2, op_type = [O_RW, O_MW, O_ANY], op_value = [0, 0, 0]\<rparr>"
  "i_data ! 51 = \<lparr>mnemonic = bytes ''or'', opcode = 0x09, nops = 2, op_type = [O_MW, O_RW, O_ANY], op_value = [0, 0, 0]\<rparr>"
  "i_data ! 52 = \<lparr>mnemonic = bytes ''or'', opcode = 0x0B, nops = 2, op_type = [O_RW, O_RMW, O_ANY], op_value = [0, 4, 0]\<rparr>"
  "i_data ! 53 = \<lparr>mnemonic = bytes ''or'', opcode = 0x09, nops = 2, op_type = [O_RMW, O_RW, O_ANY], op_value = [4, 0, 0]\<rparr>"
  by (simp_all add: i_data_def del: bytes_simps)

lemma unat_halves:
  "unat ((x :: u16) AND 0xFF) = unat x mod 256" "unat (drop_bit 8 (x :: u16)) = unat x div 256"
proof -
  have "(0xFF :: u16) = mask 8" by (simp add: mask_eq_exp_minus_1)
  then have "x AND 0xFF = take_bit 8 x" by (simp add: take_bit_eq_mask)
  then have "unat (x AND 0xFF) = take_bit 8 (unat x)" by (simp only: unsigned_take_bit_eq)
  then show "unat (x AND 0xFF) = unat x mod 256" by (simp add: take_bit_eq_mod)
  show "unat (drop_bit 8 x) = unat x div 256" by (simp only: unat_drop_bit_eq) (simp add: drop_bit_eq_div)
qed

lemma div_pred:
  fixes n :: nat
  shows "n mod 256 = 0 \<Longrightarrow> 0 < n \<Longrightarrow> (n - 256) mod 256 = 0 \<and> (n - 256) div 256 = (n - 1) div 256 \<and> 256 \<le> n"
    "n mod 256 \<noteq> 0 \<Longrightarrow> (n - 1) div 256 = n div 256"
proof -
  assume "n mod 256 = 0" "0 < n"
  then obtain q where q: "n = 256 * Suc q"
    by (metis dvd_def dvd_imp_mod_0 mod_0_imp_dvd mult_0_right not0_implies_Suc not_gr_zero)
  moreover have "(256 * q + 255) div 256 = q" by simp
  ultimately show "(n - 256) mod 256 = 0 \<and> (n - 256) div 256 = (n - 1) div 256 \<and> 256 \<le> n" by simp
next
  assume m: "n mod 256 \<noteq> 0"
  define q r where "q = n div 256" and "r = n mod 256"
  then have "n - 1 = 256 * q + (r - 1)" "r - 1 < 256" "n = 256 * q + r" using m by simp_all
  then show "(n - 1) div 256 = n div 256" unfolding q_def [symmetric] by simp
qed

lemma near_displacement:
  "word_at (ucast (x AND 0xFF) # ucast (drop_bit 8 (x - 1)) # r) = (if x AND 0xFF = 0 then x - 256 else x)"
proof (cases "x = 0")
  case True
  have e: "(0 :: u16) - 1 = 0xFFFF" "(0 :: u16) - 256 = 0xFF00" by simp_all
  show ?thesis unfolding True e by (simp add: word_at_def)
next
  case False
  then have x1: "unat (x - 1) = unat x - 1" "0 < unat x" by (simp_all add: unat_minus_one unat_gt_0)
  have low: "x AND 0xFF = 0 \<longleftrightarrow> unat x mod 256 = 0" using unat_halves(1) [of x] by (metis unat_eq_0)
  show ?thesis
  proof (cases "x AND 0xFF = 0")
    case True
    then have m: "unat x mod 256 = 0" using low by simp
    note d = div_pred(1) [OF m x1(2)]
    then have "unat (x - 256) = unat x - 256" by (simp add: unat_sub word_le_nat_alt)
    then have "(x - 256) AND 0xFF = x AND 0xFF" "drop_bit 8 (x - 256) = drop_bit 8 (x - 1)"
      using d x1(1) m by (simp_all only: word_unat_eq_iff unat_halves)
    then show ?thesis using True word_at_bytes [of "x - 256" r] by simp
  next
    case False
    then have "(unat x - 1) div 256 = unat x div 256" using low div_pred(2) by simp
    then have "drop_bit 8 (x - 1) = drop_bit 8 x" using x1(1) by (simp only: word_unat_eq_iff unat_halves)
    then show ?thesis using False by simp
  qed
qed

text \<open>What the processor makes of each form of instruction.\<close>

lemma decode_short:
  "a < 8 \<Longrightarrow> decode pc ((0x50 + a) # r) = Some (''push'', [Reg a], 1)"
  "a < 8 \<Longrightarrow> decode pc ((0x58 + a) # r) = Some (''pop'', [Reg a], 1)"
  "a < 8 \<Longrightarrow> decode pc ((0xB8 + a) # r) = Some (''mov'', [Reg a, Imm (word_at r)], 3)"
  "decode pc (0xC3 # r) = Some (''ret'', [], 1)"
  "decode pc (0xCB # r) = Some (''retf'', [], 1)"
  "decode pc (0xCD # b # r) = Some (''int'', [Imm (ucast b)], 2)"
  "decode pc (0xE8 # r) = Some (''call'', [Target (pc + 3 + word_at r)], 3)"
  "decode pc (0xE9 # r) = Some (''jmp'', [Target (pc + 3 + word_at r)], 3)"
  by (simp_all add: decode_def opcode_fields)

lemma decode_jump:
  "c \<in> {0x72, 0x73, 0x74, 0x75, 0x7C, 0x7D, 0x7E, 0x7F} \<Longrightarrow>
    decode pc (c # d # r) = Some (the (map_of [(0x72, ''jc''), (0x73, ''jnc''), (0x74, ''je''), (0x75, ''jne''),
      (0x7C, ''jl''), (0x7D, ''jge''), (0x7E, ''jle''), (0x7F, ''jg'')] c), [Target (rel8 pc d)], 2)"
  by (auto simp: decode_def)

text \<open>The second byte of the forms with a register, an address and \<open>[bx]\<close>.\<close>

lemma modrm_forms:
  assumes "b < 8"
  shows "a < 8 \<Longrightarrow> modrm ((0xC0 OR push_bit 3 b OR a) # r) = Some (Reg a, 0)"
    "modrm ((6 OR push_bit 3 b) # r) = Some (Abs (word_at r), 2)" "modrm ((7 OR push_bit 3 b) # r) = Some (AtBX, 0)"
  using modrm_register [of a b] modrm_memory [of b] assms by (simp_all add: modrm_def word_at_def)

lemma decode_immediate:
  "a < 8 \<Longrightarrow> g < 8 \<Longrightarrow> decode pc (0x81 # (0xC0 OR push_bit 3 g OR a) # r) =
    map_option (\<lambda>n. (n, [Reg a, Imm (word_at r)], 4))
      (map_of [(0, ''add''), (1, ''or''), (4, ''and''), (5, ''sub''), (7, ''cmp'')] g)"
  using modrm_register [of a g] by (simp add: decode_def modrm_forms)

lemma decode_unary:
  "a < 8 \<Longrightarrow> g < 8 \<Longrightarrow> decode pc (0xF7 # (0xC0 OR push_bit 3 g OR a) # r) =
    map_option (\<lambda>n. (n, [Reg a], 2)) (map_of [(2, ''not''), (4, ''mul''), (6, ''div'')] g)"
  using modrm_register [of a g] by (simp add: decode_def modrm_forms)

definition store_ops :: "(u8 \<times> string) list" where
  "store_ops = [(0x01, ''add''), (0x09, ''or''), (0x21, ''and''), (0x29, ''sub''), (0x39, ''cmp''), (0x89, ''mov'')]"

lemma decode_store:
  assumes "c \<in> {0x01, 0x09, 0x21, 0x29, 0x39, 0x89}" "b < 8"
  shows "a < 8 \<Longrightarrow> decode pc (c # (0xC0 OR push_bit 3 b OR a) # r) = Some (the (map_of store_ops c), [Reg a, Reg b], 2)"
    "decode pc (c # (6 OR push_bit 3 b) # r) = Some (the (map_of store_ops c), [Abs (word_at r), Reg b], 4)"
    "decode pc (c # (7 OR push_bit 3 b) # r) = Some (the (map_of store_ops c), [AtBX, Reg b], 2)"
  using modrm_register [of a b] modrm_memory [OF assms(2)] assms
  by (auto simp: decode_def modrm_forms store_ops_def)

lemma decode_load:
  assumes "c \<in> {0x03, 0x0B, 0x23, 0x2B, 0x3B, 0x8B}" "b < 8"
  shows "decode pc (c # (6 OR push_bit 3 b) # r) = Some (the (map_of store_ops (c - 2)), [Reg b, Abs (word_at r)], 4)"
    "decode pc (c # (7 OR push_bit 3 b) # r) = Some (the (map_of store_ops (c - 2)), [Reg b, AtBX], 2)"
  using modrm_memory [OF assms(2)] assms
  by (auto simp: decode_def modrm_forms store_ops_def)

lemma ucast_small:
  assumes "x < 256"
  shows "ucast (ucast (x :: u16) :: u8) = x"
proof -
  have "ucast (ucast x :: u8) = x AND mask 8" by (rule bit_eqI) (auto simp: bit_simps)
  also have "x AND mask 8 = x AND 0xFF" by (simp add: mask_eq_exp_minus_1)
  also have "\<dots> = x" using assms by (simp only: word_unat_eq_iff unat_halves word_less_nat_alt) simp
  finally show ?thesis .
qed

text \<open>A target that an 8-bit displacement of an instruction at \<open>pc\<close> reaches.\<close>

definition short_range :: "u16 \<Rightarrow> u16 \<Rightarrow> bool" where
  "short_range pc target \<longleftrightarrow> scast (ucast (target - (pc + 2)) :: u8) = target - (pc + 2)"

lemma short_target: "short_range (cg + f) t \<Longrightarrow> rel8 (cg + f) (ucast (t - cg - (2 + f))) = t"
proof -
  assume "short_range (cg + f) t"
  moreover have "t - cg - (2 + f) = t - (cg + f + 2)" by simp
  ultimately show ?thesis by (simp only: short_range_def rel8_def) simp
qed

lemma near_target:
  "word_at (ucast ((t - cg - (3 + f)) AND 0xFF) # ucast (drop_bit 8 (t - cg - (4 + f))) # r) =
    t - (cg + f + 3) - (if (t - (cg + f + 3)) AND 0xFF = 0 then 256 else 0)"
proof -
  have "t - cg - (3 + f) = t - (cg + f + 3)" "t - cg - (4 + f) = (t - (cg + f + 3)) - 1" by simp_all
  then show ?thesis by (simp only: near_displacement) simp
qed

lemmas decode_immediate_rows =
  decode_immediate [of _ 0, simplified] decode_immediate [of _ 1, simplified] decode_immediate [of _ 4, simplified]
  decode_immediate [of _ 5, simplified] decode_immediate [of _ 7, simplified]

lemmas decode_unary_rows =
  decode_unary [of _ 2, simplified] decode_unary [of _ 4, simplified] decode_unary [of _ 6, simplified]

lemmas decode_rows = decode_short decode_jump decode_immediate_rows decode_unary_rows decode_store decode_load

text \<open>
  C14: The bytes written for an instruction are, to the processor, that instruction: same mnemonic, the
  registers, immediates and addresses of its operands, as many bytes as were written, and for a jump within reach the target
  that was asked for, whatever bytes follow. The exception are \<open>call\<close> and \<open>jmp\<close> whose displacement is a multiple of 256: the
  high byte is computed from the wrong position, and they go to the address 256 below the target.
\<close>

theorem instruction_decodes:
  assumes "instr < I_COUNT" "good_operands instr op" "instr = I_INT \<longrightarrow> op ! 0 < 256"
    "instr \<in> conditional_jumps \<longrightarrow> short_range (cg_origin + offset) (op ! 0)"
  shows "\<exists>bs. instruction_bytes cg_origin offset instr op = Some bs \<and>
    map_option (map_prod bytes (\<lambda>x. x)) (decode (cg_origin + offset) (bs @ rest)) =
      Some (mnemonic (i_data ! unat instr),
        if instr \<in> {I_CALL, I_JMP} \<and> (op ! 0 - (cg_origin + offset + 3)) AND 0xFF = 0
        then [Target (op ! 0 - 256)] else meaning instr op, length bs)"
proof -
  have "instr \<in> set (map of_nat [0 ..< 54])" by (rule instr_cases [OF assms(1)])
  then show ?thesis
    using assms(2-4)
    by (simp add: upt_conv_Cons, elim disjE)
      (simp_all add: instruction_bytes_def i_data_rows i_data_rows(2) [unfolded One_nat_def] good_operands_def conditional_jumps_def
      decode_rows store_ops_def meaning_def operand_of_def register_code register_code_lt near_target short_target ucast_small upt_conv_Cons del: bytes_simps)
qed

theorem instruction_decodes_witness:
  "map_option (map_prod bytes (\<lambda>x. x)) (decode 0x105 [0xB8, 0x34, 0x12]) = Some (bytes ''mov'', [Reg 0, Imm 0x1234], 3) \<and>
   instruction_bytes 0x100 0 I_JMP [0x103, 0, 0] = Some [0xE9, 0, 0xFF] \<and>
   map_option (map_prod bytes (\<lambda>x. x)) (decode 0x100 [0xE9, 0, 0xFF]) = Some (bytes ''jmp'', [Target 3], 3)"
proof -
  have m: "instruction_bytes 0x100 5 2 [1, 0x1234, 0] = Some [0xB8, 0x34, 0x12]"
    by (simp add: instruction_bytes_def i_data_rows r_data_def)
  have j: "instruction_bytes 0x100 0 18 [0x103, 0, 0] = Some [0xE9, 0, 0xFF]"
    by (simp add: instruction_bytes_def i_data_rows) (simp add: mask_eq_exp_minus_1)
  have g: "good_operands 2 [1, 0x1234, 0]" "good_operands 18 [0x103, 0, 0]"
    by (simp_all add: good_operands_def i_data_rows is_register_def)
  show ?thesis
    using instruction_decodes [of 2 "[1, 0x1234, 0]" "0x100" 5 "[]"] m g(1)
      instruction_decodes [of 18 "[0x103, 0, 0]" "0x100" 0 "[]"] j g(2)
    by (simp add: conditional_jumps_def meaning_def i_data_rows operand_of_def upt_conv_Cons numeral_3_eq_3 del: bytes_simps)
qed

text \<open>
  Without the mode of a register in its second byte, an instruction with an immediate would change memory: the decoder
  tells the two apart.
\<close>

lemma decode_memory_form:
  "decode pc [0x81, 0xC7, 1, 0] = Some (''add'', [Reg 7, Imm 1], 4)" "decode pc [0x81, 0x07, 1, 0] = Some (''add'', [AtBX, Imm 1], 4)"
  "decode pc [0x81, 0x00, 1, 0] = None"
  by (simp_all add: decode_def modrm_def reg_field_def word_at_def)

text \<open>
  \<open>mul\<close>, \<open>div\<close> and \<open>not\<close> cannot be assembled: their rows ask for two operands, the second of no type, and
  every operand of a parsed line has a type.
\<close>

lemma unary_never_found:
  assumes "\<forall>i < unat (nops ci). op_type ci ! i \<noteq> O_ANY"
  shows "find_instruction ci \<notin> {I_MUL_RW, I_DIV_RW, I_NOT_RW}"
proof
  assume "find_instruction ci \<in> {I_MUL_RW, I_DIV_RW, I_NOT_RW}"
  then have f: "find_instruction ci \<in> {39, 40, 41}" by simp
  let ?P = "\<lambda>k. strcmp (mnemonic ci) (mnemonic (i_data ! k)) = 0 \<and> nops ci = nops (i_data ! k) \<and>
    list_all (\<lambda>i. op_type ci ! i = op_type (i_data ! k) ! i \<and>
        (op_value (i_data ! k) ! i = 0 \<or> op_value (i_data ! k) ! i = op_value ci ! i)) [0 ..< unat (nops ci)]"
  have eq: "find_instruction ci = (case find ?P [0 ..< 54] of Some k \<Rightarrow> of_nat k | None \<Rightarrow> ucast ERROR_NOT_FOUND)"
    by (simp only: find_instruction_def Let_def I_COUNT_def) simp
  then obtain k where k: "find ?P [0 ..< 54] = Some k" "of_nat k \<in> {39, 40, 41 :: u8}"
    using f by (cases "find ?P [0 ..< 54]") auto
  then have p: "k < 54" "?P k" by (auto simp: find_upt_Some_iff)
  then have "unat (of_nat k :: u8) = k" by (simp add: unat_of_nat)
  then have "k \<in> {39, 40, 41}" using k(2) by auto
  then have "nops ci = 2" "op_type ci ! 1 = O_ANY" using p(2) by (auto simp: i_data_rows upt_conv_Cons)
  then show False using assms by simp
qed

end
