(* ===== verification/Nas.thy ===== *)
theory Nas
  imports Nas_Encode Ulib_Format Fs_Ops
begin

section \<open>The assembler: lines, symbols and references (source/programs/nas.c)\<close>

text \<open>
  The two passes of \<open>main\<close>: the first reads the source line by line, enters labels and data in the table
  of symbols, encodes instructions and notes which of their operands are symbols; the second encodes
  those again with the values of the symbols. Files are read and written through the model of the
  file system. The screen is the list of the characters written to it. Not modelled: the debug output and
  what happens to memory when a line has more than three operands (no instruction has more than
  two) or when a 33rd symbol is given a value.
\<close>

definition EOF :: u16 where [simp]: "EOF = 0xFFE0"
definition S_MAX :: nat where [simp]: "S_MAX = 32"
definition S_MAX_REF :: nat where [simp]: "S_MAX_REF = 32"

record symbol =
  sym_name :: "u8 list"
  sym_type :: s_type
  sym_value :: u16

record s_ref =
  ref_offset :: u16
  ref_symbol :: u8
  ref_operand :: u8
  ref_instr :: u8
  ref_instruction :: idata

definition zero_symbol :: symbol where
  "zero_symbol = \<lparr>sym_name = replicate 8 0, sym_type = S_LABEL, sym_value = 0\<rparr>"

definition zero_idata :: idata where
  "zero_idata = \<lparr>mnemonic = replicate 6 0, opcode = 0, nops = 0, op_type = replicate 3 O_ANY, op_value = replicate 3 0\<rparr>"

definition zero_ref :: s_ref where
  "zero_ref = \<lparr>ref_offset = 0, ref_symbol = 0, ref_operand = 0, ref_instr = 0, ref_instruction = zero_idata\<rparr>"

subsection \<open>Lines and tokens\<close>

text \<open>The loop of \<open>read_line\<close> over the bytes read: the number of bytes of the line, if it ends in the buffer.\<close>

function clamp_line :: "nat \<Rightarrow> nat \<Rightarrow> nat \<Rightarrow> u8 list \<Rightarrow> nat option \<times> u8 list" where
  "clamp_line buff_size readed i buff =
     (if i < readed
      then let buff = (if buff ! i = 13 then buff[i := of_char (CHR '' '')] else buff)
        in if buff ! i = 10 then (Some (i + 1), buff[i := 0])
           else if i = readed - 1 \<and> readed \<noteq> buff_size then (Some (i + 1), buff[i + 1 := 0])
           else clamp_line buff_size readed (i + 1) buff
      else (None, buff))"
  by pat_completeness auto
termination by (relation "measure (\<lambda>(sz, readed, i, buff). readed - i)") auto

declare clamp_line.simps [simp del]

definition read_line :: "fs_state \<Rightarrow> u16 \<Rightarrow> u8 list \<Rightarrow> u16 \<Rightarrow> u16 \<times> u8 list" where
  "read_line s buff_size file offset =
     (let buff = replicate (unat buff_size) 0
      in case fs_read_file s file offset buff_size of
           Inl c \<Rightarrow> (c, buff)
         | Inr (readed, b) \<Rightarrow>
             if readed \<ge> ERROR_ANY then (readed, buff)
             else if readed = 0 then (EOF, buff)
             else case clamp_line (unat buff_size) (unat readed) 0 (b @ drop (length b) buff) of
                    (Some n, buff) \<Rightarrow> (offset + of_nat n, buff)
                  | (None, buff) \<Rightarrow> (ERROR_ANY, buff))"

definition separator :: "u8 \<Rightarrow> bool" where
  "separator c \<longleftrightarrow> c = of_char (CHR '' '') \<or> c = 9 \<or> c = of_char (CHR '','')"

text \<open>
  The loop of \<open>tokenize_line\<close>: \<open>p\<close> is the position in the buffer, \<open>tokv\<close> the positions of the tokens; separators
  in front of a token are overwritten by zeros, which end the token before.
\<close>

function tokenize_from :: "nat \<Rightarrow> u8 list \<Rightarrow> nat \<Rightarrow> nat list \<Rightarrow> u8 list \<times> nat list" where
  "tokenize_from max_tok buff p tokv =
     (if p < length buff \<and> buff ! p \<noteq> 0 \<and> length tokv < max_tok
      then let k = length (takeWhile separator (drop p buff));
               buff = take p buff @ replicate k 0 @ drop (p + k) buff;
               a = p + k;
               e = a + length (takeWhile (\<lambda>c. c \<noteq> 0 \<and> \<not> separator c \<and> c \<noteq> of_char (CHR '';'')) (drop a buff))
        in if a < length buff \<and> buff ! a = of_char (CHR '';'') then (buff[a := 0], tokv)
           else tokenize_from max_tok buff e (if a < length buff \<and> buff ! a \<noteq> 0 then tokv @ [a] else tokv)
      else (buff, tokv))"
  by pat_completeness auto
termination
proof (relation "measure (\<lambda>(m, buff, p, tokv). length buff - p)")
  fix max_tok p k a e :: nat and buff buff' tokv
  assume *: "p < length buff \<and> buff ! p \<noteq> 0 \<and> length tokv < max_tok"
    and k: "k = length (takeWhile separator (drop p buff))"
    and b: "buff' = take p buff @ replicate k 0 @ drop (p + k) buff" and a: "a = p + k"
    and e: "e = a + length (takeWhile (\<lambda>c. c \<noteq> 0 \<and> \<not> separator c \<and> c \<noteq> of_char (CHR '';'')) (drop a buff'))"
    and n: "\<not> (a < length buff' \<and> buff' ! a = of_char (CHR '';''))"
  have "k \<le> length (drop p buff)" unfolding k by (rule length_takeWhile_le)
  then have len: "length buff' = length buff" using * b by auto
  have "p < e"
  proof (cases "k = 0")
    case True
    then have "takeWhile separator (drop p buff) = []" using k by simp
    then have "\<not> separator (buff ! p)" using * by (simp add: Cons_nth_drop_Suc [symmetric] split: if_splits)
    moreover have "buff' = buff" using True b by simp
    ultimately have "takeWhile (\<lambda>c. c \<noteq> 0 \<and> \<not> separator c \<and> c \<noteq> of_char (CHR '';'')) (drop a buff') \<noteq> []"
      using True * n a by (simp add: Cons_nth_drop_Suc [symmetric])
    then show ?thesis using a e True by simp
  next
    case False
    then show ?thesis using a e by simp
  qed
  then show "((max_tok, buff', e, t), max_tok, buff, p, tokv) \<in> measure (\<lambda>(m, buff, p, tokv). length buff - p)" for t
    using len * by auto
qed simp

declare tokenize_from.simps [simp del]

definition tokenize_line :: "u8 list \<Rightarrow> nat \<Rightarrow> nat \<Rightarrow> u8 list list" where
  "tokenize_line buff sz max_tok =
     (let (buff, tokv) = tokenize_from max_tok (buff[sz - 1 := 0]) 0 []
      in map (\<lambda>a. cstring (drop a buff)) tokv)"

subsection \<open>Symbols\<close>

definition find_or_add_symbol :: "u8 list \<Rightarrow> symbol list \<Rightarrow> u16 \<times> symbol list" where
  "find_or_add_symbol name s_table =
     (case find (\<lambda>s. sym_name (s_table ! s) ! 0 = 0 \<or> strcmp (sym_name (s_table ! s)) name = 0) [0 ..< S_MAX] of
        None \<Rightarrow> (ERROR_NOT_FOUND, s_table)
      | Some s \<Rightarrow>
          if sym_name (s_table ! s) ! 0 = 0
          then (of_nat s, s_table[s := (s_table ! s)\<lparr>sym_name := snd (strcpy_s (sym_name (s_table ! s)) name 8)\<rparr>])
          else (of_nat s, s_table))"

definition find_symbol :: "u8 list \<Rightarrow> symbol list \<Rightarrow> u16" where
  "find_symbol name s_table =
     (case find (\<lambda>s. sym_name (s_table ! s) ! 0 = 0 \<or> strcmp (sym_name (s_table ! s)) name = 0) [0 ..< S_MAX] of
        None \<Rightarrow> ERROR_NOT_FOUND
      | Some s \<Rightarrow> if sym_name (s_table ! s) ! 0 = 0 then ERROR_NOT_FOUND else of_nat s)"

definition append_symbol_ref :: "u8 \<Rightarrow> u8 \<Rightarrow> u16 \<Rightarrow> u8 \<Rightarrow> idata \<Rightarrow> s_ref list \<Rightarrow> s_ref list" where
  "append_symbol_ref symbol operand offset instr_id instruction refs =
     (case find (\<lambda>r. ref_offset (refs ! r) = 0) [0 ..< S_MAX_REF] of
        None \<Rightarrow> refs
      | Some r \<Rightarrow> refs[r := \<lparr>ref_offset = offset, ref_symbol = symbol, ref_operand = operand,
                             ref_instr = instr_id, ref_instruction = instruction\<rparr>])"


subsection \<open>The first pass\<close>

record nas =
  cg_origin :: u16
  s_table :: "symbol list"
  s_refs :: "s_ref list"
  obuff :: mem
  ooffset :: u16
  fline :: u16
  screen :: "u8 list"

definition putstr :: "u8 list \<Rightarrow> u8 list \<Rightarrow> (nat \<Rightarrow> u16) \<Rightarrow> u8 list" where
  "putstr arg fmt args = format_str_outchar (\<lambda>p. arg) fmt args 0"

text \<open>An operand: its type and value, and the symbol it refers to, if it is neither a register nor a number.\<close>

definition operand_text :: "u8 list \<Rightarrow> bool \<times> u8 list" where
  "operand_text tok =
     (if hd tok = of_char (CHR ''['') \<and> last tok = of_char (CHR '']'') then (True, butlast (tl tok)) else (False, tok))"

definition parse_operand :: "u8 list \<Rightarrow> symbol list \<Rightarrow> (o_type \<times> u16) \<times> u16 option \<times> symbol list" where
  "parse_operand tok st =
     (let (is_pointer, tok) = operand_text tok;
          reg = find (\<lambda>j. strcmp tok (r_name (r_data ! j)) = 0) [0 ..< R_COUNT];
          (t, v) = (case reg of Some j \<Rightarrow> (if is_pointer then O_RMW else r_type (r_data ! j), of_nat j)
                              | None \<Rightarrow> (O_ANY, 0));
          imm = (if is_pointer then O_MW else O_IW)
      in if t \<noteq> O_ANY then ((t, v), None, st)
         else if sisu tok \<noteq> 0 then ((imm, stou tok), None, st)
         else let (s, st) = find_or_add_symbol tok st in ((imm, stou tok), Some s, st))"

text \<open>The operands of a line in order; \<open>s\<close> and \<open>nas\<close> are the symbol and the operand of the last reference.\<close>

primrec parse_operands ::
    "u8 list list \<Rightarrow> nat \<Rightarrow> idata \<Rightarrow> u16 \<Rightarrow> u16 \<Rightarrow> symbol list \<Rightarrow> idata \<times> u16 \<times> u16 \<times> symbol list" where
  "parse_operands [] i ci s nas st = (ci, s, nas, st)"
| "parse_operands (tok # toks) i ci s nas st =
     (let ((t, v), ref, st) = parse_operand tok st;
          ci = ci\<lparr>op_type := (op_type ci)[i := t], op_value := (op_value ci)[i := v]\<rparr>
      in case ref of
           None \<Rightarrow> parse_operands toks (i + 1) ci s nas st
         | Some s \<Rightarrow> parse_operands toks (i + 1) ci s (of_nat i) st)"

definition encode_values :: "nas \<Rightarrow> u16 \<Rightarrow> u8 list list \<Rightarrow> nas" where
  "encode_values n j toks =
     foldl (\<lambda>n tok. let (off, b) = encode_data (obuff n) (ooffset n) (sym_type (s_table n ! unat j)) (stou tok)
                    in n\<lparr>ooffset := off, obuff := b\<rparr>) n toks"

definition set_symbol :: "u16 \<Rightarrow> s_type \<Rightarrow> nas \<Rightarrow> nas" where
  "set_symbol j t n =
     n\<lparr>s_table := (s_table n)[unat j := (s_table n ! unat j)\<lparr>sym_value := ooffset n, sym_type := t\<rparr>]\<rparr>"

definition line_error :: "string \<Rightarrow> nas \<Rightarrow> nas" where
  "line_error msg n =
     n\<lparr>screen := screen n @ putstr [] (bytes ''error: line %u. '' @ bytes msg @ [10, 13]) (\<lambda>_. fline n), ooffset := 0\<rparr>"

text \<open>
  An instruction; the flag says that the assembly ends here. \<open>find_instruction\<close> returns a byte, so its failure
  never compares equal to the 16-bit error code; the number 255 then makes the encoding fail. (The byte
  behind the table that is read as its opcode is never used.)
\<close>

definition instruction_line :: "u8 list list \<Rightarrow> nas \<Rightarrow> bool \<times> nas" where
  "instruction_line tokv n =
     (let ci = zero_idata\<lparr>mnemonic := snd (strcpy_s (replicate 6 0) (tokv ! 0) 6), nops := of_nat (length tokv - 1)\<rparr>;
          (ci, s, nas, st) = parse_operands (tl tokv) 0 ci 0xFFFF 0xFFFF (s_table n);
          n = n\<lparr>s_table := st\<rparr>;
          instr_id = find_instruction ci
      in if ucast instr_id = ERROR_NOT_FOUND then (True, line_error ''Instruction not found'' n)
         else let ci = (if instr_id < I_COUNT then ci\<lparr>opcode := opcode (i_data ! unat instr_id)\<rparr> else ci);
                  n = (if s \<noteq> 0xFFFF
                       then n\<lparr>s_refs := append_symbol_ref (ucast s) (ucast nas) (ooffset n) instr_id ci (s_refs n)\<rparr> else n);
                  (off, b) = encode_instruction (cg_origin n) (obuff n) (ooffset n) instr_id (op_value ci);
                  n = n\<lparr>ooffset := off, obuff := b\<rparr>
              in if off = ERROR_NOT_FOUND then (True, line_error ''Can't encode instruction'' n) else (False, n))"

definition process_line :: "u8 list list \<Rightarrow> nas \<Rightarrow> bool \<times> nas" where
  "process_line tokv n =
     (let tokc = length tokv; next = (\<lambda>n. (False, n\<lparr>fline := fline n + 1\<rparr>));
          values = (\<lambda>t. let (j, st) = find_or_add_symbol (tokv ! 0) (s_table n)
                        in next (encode_values (set_symbol j t (n\<lparr>s_table := st\<rparr>)) j (drop 2 tokv)))
      in if tokc = 2 \<and> strcmp (tokv ! 0) (bytes ''ORG'') = 0 then next (n\<lparr>cg_origin := stou (tokv ! 1)\<rparr>)
         else if tokc = 1 \<and> last (tokv ! 0) = of_char (CHR '':'')
         then let (j, st) = find_or_add_symbol (butlast (tokv ! 0)) (s_table n)
              in next (set_symbol j S_LABEL (n\<lparr>s_table := st\<rparr>))
         else if tokc \<ge> 3 \<and> strcmp (tokv ! 1) (bytes ''dw'') = 0 then values S_DATAW
         else if tokc \<ge> 3 \<and> strcmp (tokv ! 1) (bytes ''db'') = 0 then values S_DATAB
         else if tokc \<noteq> 0
         then let (stop, n) = instruction_line tokv n in if stop then (True, n) else next n
         else next n)"

text \<open>The loop over the lines of the source.\<close>

partial_function (option) process_file :: "fs_state \<Rightarrow> u8 list \<Rightarrow> u16 \<Rightarrow> nas \<Rightarrow> nas option" where
  "process_file s file foffset n =
     (let (foffset, fbuff) = read_line s 2048 file foffset
      in if foffset = EOF then Some n
         else if foffset \<ge> ERROR_ANY
         then Some (n\<lparr>screen := screen n @ putstr [] (bytes ''Error reading input file'' @ [10, 13]) (\<lambda>_. 0), ooffset := 0\<rparr>)
         else let (stop, n) = process_line (tokenize_line fbuff 2048 32) n
              in if stop then Some n else process_file s file foffset n)"

subsection \<open>The second pass\<close>

primrec resolve_refs :: "u16 \<Rightarrow> symbol list \<Rightarrow> s_ref list \<Rightarrow> mem \<Rightarrow> mem" where
  "resolve_refs origin st [] b = b"
| "resolve_refs origin st (r # refs) b =
     (if ref_offset r = 0 then b
      else let v = sym_value (st ! unat (ref_symbol r)) + origin;
               op = (op_value (ref_instruction r))[unat (ref_operand r) := v]
           in resolve_refs origin st refs (snd (encode_instruction origin b (ref_offset r) (ref_instr r) op)))"

definition output_name :: "u8 list \<Rightarrow> u8 list" where
  "output_name file =
     (let ofile = snd (strcpy_s (replicate 14 0) file 14); i = strchr ofile (of_char (CHR ''.''));
          ofile = (if i \<noteq> 0 then ofile[unat (i - 1) := 0] else ofile);
          ofile = ofile[14 - 4 - 2 := 0]
      in snd (strcat_s ofile (bytes ''.bin'') 14))"

definition nas_main :: "u8 list list \<Rightarrow> nas \<Rightarrow> fs_state \<Rightarrow> (nas \<times> fs_state) option" where
  "nas_main argv n s =
     (if length argv \<noteq> 2
      then Some (n\<lparr>screen := screen n @ putstr (argv ! 0) (bytes ''usage: %s <inputfile>'' @ [10, 13]) (\<lambda>_. 0)\<rparr>, s)
      else let n = n\<lparr>obuff := snd (memset (obuff n) 0 0 1024), ooffset := 0, fline := 1,
                     s_table := replicate S_MAX zero_symbol, s_refs := replicate S_MAX_REF zero_ref\<rparr>
        in Option.bind (process_file s (argv ! 1) 0 n) (\<lambda>n.
           if ooffset n = 0 then Some (n, s)
           else let b = resolve_refs (cg_origin n) (s_table n) (s_refs n) (obuff n); n = n\<lparr>obuff := b\<rparr>
                in map_option (\<lambda>(_, s). (n, s))
                     (fs_write_file (get_mem b 0 (unat (ooffset n))) (cstring (output_name (argv ! 1))) 0 (ooffset n)
                        (WF_CREATE OR WF_TRUNCATE) s)))"

end
