(* ===== verification/Nas_Program.thy ===== *)
theory Nas_Program
  imports Nas
begin

section \<open>The assembler: what the passes establish (source/programs/nas.c)\<close>

text \<open>
  The invariant of the first pass on the table of references, the correctness of the second, and the table
  of symbols. Nothing here is a definition of the program; \<open>first_pass\<close> is the loop of \<open>main\<close> over lines that
  were read and split already.
\<close>

subsection \<open>References\<close>

text \<open>The length of an instruction does not depend on its operands.\<close>

definition instr_len :: "u8 \<Rightarrow> nat" where
  "instr_len instr = (case instruction_bytes 0 0 instr [0, 0, 0] of Some bs \<Rightarrow> length bs | None \<Rightarrow> 0)"

lemma instruction_length_same:
  "map_option length (instruction_bytes origin offset instr op) = map_option length (instruction_bytes 0 0 instr [0, 0, 0])"
  by (simp only: instruction_bytes_def Let_def if_distrib [of "map_option length"] option.map list.size)

lemma length_instruction:
  "instruction_bytes origin offset instr op = Some bs \<Longrightarrow> length bs = instr_len instr"
  using instruction_length_same [of origin offset instr op] by (auto simp: instr_len_def split: option.split)

lemma instruction_some: "0 < instr_len instr \<Longrightarrow> \<exists>bs. instruction_bytes origin offset instr op = Some bs"
  using instruction_length_same [of origin offset instr op] by (auto simp: instr_len_def split: option.splits)

lemma instruction_none: "instruction_bytes origin offset instr op = None \<Longrightarrow> instr_len instr = 0"
  using instruction_length_same [of origin offset instr op] by (auto simp: instr_len_def split: option.splits)

lemma instr_len_bounds:
  "instr_len instr \<le> 4" "instruction_bytes origin offset instr op = Some bs \<Longrightarrow> 0 < instr_len instr"
proof -
  have "case map_option length (instruction_bytes 0 0 instr [0, 0, 0]) of None \<Rightarrow> True | Some k \<Rightarrow> 0 < k \<and> k \<le> 4"
    unfolding instruction_bytes_def Let_def by simp
  then show "instr_len instr \<le> 4" "instruction_bytes origin offset instr op = Some bs \<Longrightarrow> 0 < instr_len instr"
    using instruction_length_same [of origin offset instr op] by (auto simp: instr_len_def split: option.splits)
qed

text \<open>
  The references in use, and what the first pass keeps of them: the instructions they belong to lie one behind
  the other in the output.
\<close>

definition active :: "s_ref list \<Rightarrow> s_ref list" where
  "active refs = takeWhile (\<lambda>r. ref_offset r \<noteq> 0) refs"

fun refs_ordered :: "nat \<Rightarrow> s_ref list \<Rightarrow> nat \<Rightarrow> bool" where
  "refs_ordered lo [] hi \<longleftrightarrow> lo \<le> hi"
| "refs_ordered lo (r # rs) hi \<longleftrightarrow> lo \<le> unat (ref_offset r) \<and> 0 < instr_len (ref_instr r) \<and>
     refs_ordered (unat (ref_offset r) + instr_len (ref_instr r)) rs hi"

definition in_reference :: "s_ref \<Rightarrow> u16 \<Rightarrow> bool" where
  "in_reference r x \<longleftrightarrow> unat (ref_offset r) \<le> unat x \<and> unat x < unat (ref_offset r) + instr_len (ref_instr r)"

text \<open>The bytes of an instruction whose operand is the value of its symbol.\<close>

definition resolved :: "u16 \<Rightarrow> symbol list \<Rightarrow> s_ref \<Rightarrow> u8 list" where
  "resolved origin st r = the (instruction_bytes origin (ref_offset r) (ref_instr r)
     ((op_value (ref_instruction r))[unat (ref_operand r) := sym_value (st ! unat (ref_symbol r)) + origin]))"

lemma refs_ordered_le: "refs_ordered lo rs hi \<Longrightarrow> lo \<le> hi"
  by (induction lo rs hi rule: refs_ordered.induct) auto

lemma refs_ordered_above: "refs_ordered lo rs hi \<Longrightarrow> r \<in> set rs \<Longrightarrow>
    lo \<le> unat (ref_offset r) \<and> unat (ref_offset r) + instr_len (ref_instr r) \<le> hi \<and> 0 < instr_len (ref_instr r)"
  by (induction lo rs hi rule: refs_ordered.induct) (auto dest: refs_ordered_le)

lemma refs_ordered_snoc:
  "refs_ordered lo rs hi \<Longrightarrow> hi \<le> unat (ref_offset r) \<Longrightarrow> 0 < instr_len (ref_instr r) \<Longrightarrow>
    refs_ordered lo (rs @ [r]) (unat (ref_offset r) + instr_len (ref_instr r))"
  by (induction lo rs hi rule: refs_ordered.induct) auto

lemma refs_ordered_mono: "refs_ordered lo rs hi \<Longrightarrow> hi \<le> hi' \<Longrightarrow> refs_ordered lo rs hi'"
  by (induction lo rs hi rule: refs_ordered.induct) auto

lemma resolve_active: "resolve_refs origin st refs b = resolve_refs origin st (active refs) b"
  by (induction refs arbitrary: b) (auto simp: active_def Let_def)

lemma resolve_step:
  assumes "0 < instr_len (ref_instr r)"
  shows "snd (encode_instruction origin b (ref_offset r) (ref_instr r)
      ((op_value (ref_instruction r))[unat (ref_operand r) := sym_value (st ! unat (ref_symbol r)) + origin])) =
    put_mem b (ref_offset r) (resolved origin st r)"
    "length (resolved origin st r) = instr_len (ref_instr r)"
  using instruction_some [OF assms] length_instruction
  by (auto simp: encode_instruction_def resolved_def split: option.split) (metis option.sel option.distinct(1))+

lemma resolve_frame:
  assumes "refs_ordered lo rs hi" "hi \<le> 65536" "\<forall>r \<in> set rs. ref_offset r \<noteq> 0" "\<forall>r \<in> set rs. \<not> in_reference r x"
  shows "resolve_refs origin st rs b x = b x"
  using assms
proof (induction lo rs hi arbitrary: b rule: refs_ordered.induct)
  case (2 lo r rs hi)
  have "unat (ref_offset r) + instr_len (ref_instr r) \<le> 65536"
    using 2(2,3) refs_ordered_above [OF 2(2), of r] by simp
  then have "put_mem b (ref_offset r) (resolved origin st r) x = b x"
    using 2(2,5) resolve_step(2) [of r origin st] by (auto simp: put_mem_nat in_reference_def)
  then show ?case using 2 resolve_step(1) [of r origin b st] by (simp add: Let_def)
qed simp

lemma resolve_all:
  assumes "refs_ordered lo rs hi" "hi \<le> 65536" "\<forall>r \<in> set rs. ref_offset r \<noteq> 0" "r \<in> set rs"
  shows "get_mem (resolve_refs origin st rs b) (ref_offset r) (instr_len (ref_instr r)) = resolved origin st r"
  using assms
proof (induction lo rs hi arbitrary: b rule: refs_ordered.induct)
  case (2 lo q rs hi)
  let ?b = "put_mem b (ref_offset q) (resolved origin st q)"
  have step: "resolve_refs origin st (q # rs) b = resolve_refs origin st rs ?b"
    using 2(2,4) resolve_step(1) [of q origin b st] by (simp add: Let_def)
  have q: "0 < instr_len (ref_instr q)" "unat (ref_offset q) + instr_len (ref_instr q) \<le> 65536"
    using 2(2,3) refs_ordered_above [OF 2(2), of q] by auto
  have ord: "refs_ordered (unat (ref_offset q) + instr_len (ref_instr q)) rs hi" using 2(2) by simp
  show ?case
  proof (cases "r \<in> set rs")
    case True
    then show ?thesis using 2(1) [OF ord 2(3)] 2(4) step by simp
  next
    case False
    then have rq: "r = q" using 2(5) by simp
    have "resolve_refs origin st rs ?b x = ?b x" if "in_reference q x" for x
    proof (rule resolve_frame [OF ord 2(3)])
      show "\<forall>r \<in> set rs. ref_offset r \<noteq> 0" using 2(4) by simp
      show "\<forall>r \<in> set rs. \<not> in_reference r x"
        using refs_ordered_above [OF ord] that by (fastforce simp: in_reference_def)
    qed
    moreover have "in_reference q (ref_offset q + of_nat i)" if "i < instr_len (ref_instr q)" for i
      using that q(2) instr_len_bounds(1) [of "ref_instr q"] by (simp add: in_reference_def unat_plus_u16 unat_of_nat_u16)
    ultimately have "get_mem (resolve_refs origin st rs ?b) (ref_offset q) (instr_len (ref_instr q)) =
        get_mem ?b (ref_offset q) (instr_len (ref_instr q))"
      by (intro nth_equalityI) (simp_all add: nth_get_mem)
    then show ?thesis using resolve_step(2) [OF q(1), of origin st] q(2) step rq
      by (simp add: get_put_mem0)
  qed
qed simp


subsection \<open>The first pass keeps the references in order\<close>

definition pass_ok :: "nas \<Rightarrow> bool" where
  "pass_ok n \<longleftrightarrow> length (s_refs n) = 32 \<and>
     (\<forall>k < 32. length (active (s_refs n)) \<le> k \<longrightarrow> ref_offset (s_refs n ! k) = 0) \<and>
     refs_ordered 0 (active (s_refs n)) (unat (ooffset n))"

lemma active_nth: "k < length (active refs) \<Longrightarrow> ref_offset (refs ! k) \<noteq> 0"
  using nth_mem [of k "active refs"] unfolding active_def by (auto simp: takeWhile_nth dest: set_takeWhileD)

lemma active_update:
  assumes "length refs = 32" "\<forall>k < 32. length (active refs) \<le> k \<longrightarrow> ref_offset (refs ! k) = 0"
    "length (active refs) < 32"
  shows "active (refs[length (active refs) := r]) = (if ref_offset r = 0 then active refs else active refs @ [r])"
proof -
  let ?k = "length (active refs)"
  have t: "take ?k refs = active refs" unfolding active_def by (rule takeWhile_eq_take [symmetric])
  have d: "drop (Suc ?k) refs = [] \<or> ref_offset (hd (drop (Suc ?k) refs)) = 0"
    using assms(1,2) by (cases "Suc ?k < 32") (simp_all add: hd_drop_conv_nth)
  have all: "\<forall>q \<in> set (active refs). ref_offset q \<noteq> 0" unfolding active_def by (auto dest: set_takeWhileD)
  have "refs[?k := r] = active refs @ r # drop (Suc ?k) refs"
    using assms(1,3) t by (simp add: upd_conv_take_nth_drop)
  moreover have "takeWhile (\<lambda>r. ref_offset r \<noteq> 0) (drop (Suc ?k) refs) = []"
    using d by (cases "drop (Suc ?k) refs") auto
  ultimately show ?thesis using all by (simp add: active_def takeWhile_append2)
qed

lemma active_le: "length (active refs) \<le> length refs"
  unfolding active_def by (rule length_takeWhile_le)

lemma append_ref:
  fixes sy opnd :: u8 and ci :: idata
  assumes "length refs = 32" "\<forall>k < 32. length (active refs) \<le> k \<longrightarrow> ref_offset (refs ! k) = 0"
    "refs_ordered 0 (active refs) (unat offset)" "0 < instr_len instr"
  defines "refs' \<equiv> append_symbol_ref sy opnd offset instr ci refs"
  shows "length refs' = 32" "\<forall>k < 32. length (active refs') \<le> k \<longrightarrow> ref_offset (refs' ! k) = 0"
    "refs_ordered 0 (active refs') (unat offset + instr_len instr)"
proof -
  let ?k = "length (active refs)"
  let ?r = "\<lparr>ref_offset = offset, ref_symbol = sy, ref_operand = opnd, ref_instr = instr, ref_instruction = ci\<rparr>"
  have m: "refs_ordered 0 (active refs) (unat offset + instr_len instr)"
    using assms(3) by (rule refs_ordered_mono) simp
  have all: "length refs' = 32 \<and> (\<forall>k < 32. length (active refs') \<le> k \<longrightarrow> ref_offset (refs' ! k) = 0) \<and>
    refs_ordered 0 (active refs') (unat offset + instr_len instr)"
  proof (cases "?k < 32")
    case True
    then have "find (\<lambda>r. ref_offset (refs ! r) = 0) [0 ..< 32] = Some ?k"
      using assms(2) active_nth [of _ refs] by (auto simp: find_upt_Some_iff)
    then have e: "refs' = refs[?k := ?r]" by (simp add: refs'_def append_symbol_ref_def)
    note act = active_update [OF assms(1,2) True, of ?r]
    show ?thesis
    proof (cases "offset = 0")
      case True
      then show ?thesis using e act assms(1,2) m by (auto simp: nth_list_update)
    next
      case False
      then have "active refs' = active refs @ [?r]" using e act by simp
      moreover have "refs_ordered 0 (active refs @ [?r]) (unat offset + instr_len instr)"
        using refs_ordered_snoc [OF assms(3), of ?r] assms(4) by simp
      ultimately show ?thesis using e assms(1,2) by (auto simp: nth_list_update)
    qed
  next
    case False
    then have "find (\<lambda>r. ref_offset (refs ! r) = 0) [0 ..< 32] = None"
      using active_nth [of _ refs] by (auto simp: find_upt_None_iff)
    then have "refs' = refs" by (simp add: refs'_def append_symbol_ref_def)
    then show ?thesis using assms(1,2) m by simp
  qed
  then show "length refs' = 32" "\<forall>k < 32. length (active refs') \<le> k \<longrightarrow> ref_offset (refs' ! k) = 0"
    "refs_ordered 0 (active refs') (unat offset + instr_len instr)" by simp_all
qed

lemma encode_values_ok:
  assumes "unat (ooffset n) + 2 * length toks < 65536" "pass_ok n"
  shows "pass_ok (encode_values n j toks) \<and> unat (ooffset (encode_values n j toks)) \<le> unat (ooffset n) + 2 * length toks"
  using assms
proof (induction toks arbitrary: n)
  case (Cons t toks)
  obtain off b where e: "encode_data (obuff n) (ooffset n) (sym_type (s_table n ! unat j)) (stou t) = (off, b)"
    by fastforce
  let ?n = "n\<lparr>ooffset := off, obuff := b\<rparr>"
  have "off = ooffset n \<or> off = ooffset n + 1 \<or> off = ooffset n + 2"
    using e by (auto simp: encode_data_def split: s_type.splits)
  then have off: "unat off \<le> unat (ooffset n) + 2" "unat (ooffset n) \<le> unat off"
    using Cons.prems(1) by (auto simp: unat_plus_u16)
  have ok: "pass_ok ?n" using Cons.prems(2) off(2) refs_ordered_mono by (auto simp: pass_ok_def)
  have "encode_values n j (t # toks) = encode_values ?n j toks" using e by (simp add: encode_values_def)
  then show ?case using Cons.IH [of ?n] ok off Cons.prems(1) by simp
qed (simp add: encode_values_def)


lemma pass_ok_cong:
  "s_refs n' = s_refs n \<Longrightarrow> ooffset n' = ooffset n \<Longrightarrow> pass_ok n' = pass_ok n"
  by (simp add: pass_ok_def)

lemma instruction_line_ok:
  assumes "instruction_line tokv n = (False, n')" "pass_ok n" "unat (ooffset n) + 4 < 65536"
  shows "pass_ok n' \<and> unat (ooffset n') \<le> unat (ooffset n) + 4"
proof -
  obtain ci s q st where p: "parse_operands (tl tokv) 0
      (zero_idata\<lparr>mnemonic := snd (strcpy_s (replicate 6 0) (tokv ! 0) 6), nops := of_nat (length tokv - 1)\<rparr>)
      0xFFFF 0xFFFF (s_table n) = (ci, s, q, st)"
    by (metis prod_cases4)
  define id where "id = find_instruction ci"
  define c where "c = (if id < I_COUNT then ci\<lparr>opcode := opcode (i_data ! unat id)\<rparr> else ci)"
  define m where "m = (if s \<noteq> 0xFFFF then n\<lparr>s_table := st, s_refs := append_symbol_ref (ucast s) (ucast q) (ooffset n) id c (s_refs n)\<rparr>
      else n\<lparr>s_table := st\<rparr>)"
  have o: "ooffset m = ooffset n" "obuff m = obuff n" "cg_origin m = cg_origin n" by (simp_all add: m_def)
  obtain off b where e: "encode_instruction (cg_origin n) (obuff n) (ooffset n) id (op_value ci) = (off, b)" by fastforce
  have n': "off \<noteq> ERROR_NOT_FOUND" "n' = m\<lparr>ooffset := off, obuff := b\<rparr>"
    using assms(1) p e
    by (auto simp: instruction_line_def id_def c_def m_def Let_def split: if_splits)
  then obtain bs where bs: "instruction_bytes (cg_origin n) (ooffset n) id (op_value ci) = Some bs"
      "off = ooffset n + of_nat (length bs)"
    using e by (auto simp: encode_instruction_def split: option.splits)
  note len = length_instruction [OF bs(1)] instr_len_bounds(1) [of id] instr_len_bounds(2) [OF bs(1)]
  have off: "unat off = unat (ooffset n) + instr_len id"
    using bs(2) len assms(3) by (simp add: unat_plus_u16 unat_of_nat_u16)
  have r: "length (s_refs n) = 32" "\<forall>k < 32. length (active (s_refs n)) \<le> k \<longrightarrow> ref_offset (s_refs n ! k) = 0"
      "refs_ordered 0 (active (s_refs n)) (unat (ooffset n))"
    using assms(2) by (simp_all add: pass_ok_def)
  have "pass_ok n'"
  proof (cases "s = 0xFFFF")
    case True
    then show ?thesis using n'(2) r off refs_ordered_mono [OF r(3)] by (simp add: pass_ok_def m_def)
  next
    case False
    then show ?thesis using n'(2) off append_ref [OF r len(3)] by (simp add: pass_ok_def m_def)
  qed
  then show ?thesis using n'(2) off len(2) by simp
qed


lemma process_line_ok:
  assumes "process_line tokv n = (False, n')" "pass_ok n" "length tokv \<le> 32" "unat (ooffset n) + 64 < 65536"
  shows "pass_ok n' \<and> unat (ooffset n') \<le> unat (ooffset n) + 64"
proof -
  have vals: "pass_ok (encode_values m j (drop 2 tokv)) \<and> unat (ooffset (encode_values m j (drop 2 tokv))) \<le> unat (ooffset n) + 64"
    if "s_refs m = s_refs n" "ooffset m = ooffset n" for m j
  proof -
    have "pass_ok m" using assms(2) that by (simp add: pass_ok_def)
    moreover have l: "2 * length (drop 2 tokv) \<le> 64" using assms(3) by simp
    ultimately have "pass_ok (encode_values m j (drop 2 tokv)) \<and>
        unat (ooffset (encode_values m j (drop 2 tokv))) \<le> unat (ooffset n) + 2 * length (drop 2 tokv)"
      using encode_values_ok [of m "drop 2 tokv" j] that assms(4) by simp
    then show ?thesis using l by linarith
  qed
  have table: "s_refs (set_symbol j t (n\<lparr>s_table := st\<rparr>)) = s_refs n" "ooffset (set_symbol j t (n\<lparr>s_table := st\<rparr>)) = ooffset n"
    for j t st by (simp_all add: set_symbol_def)
  have count: "pass_ok (m\<lparr>fline := x\<rparr>) = pass_ok m" for m x by (simp add: pass_ok_def)
  consider (org) "n' = n\<lparr>cg_origin := stou (tokv ! 1), fline := fline n + 1\<rparr>"
    | (label) j st where "n' = (set_symbol j S_LABEL (n\<lparr>s_table := st\<rparr>))\<lparr>fline := fline n + 1\<rparr>"
    | (data) j t st where "n' = (let m = encode_values (set_symbol j t (n\<lparr>s_table := st\<rparr>)) j (drop 2 tokv) in m\<lparr>fline := fline m + 1\<rparr>)"
    | (code) m where "instruction_line tokv n = (False, m)" "n' = m\<lparr>fline := fline m + 1\<rparr>"
    | (blank) "n' = n\<lparr>fline := fline n + 1\<rparr>"
    using assms(1) by (fastforce simp: process_line_def Let_def set_symbol_def split: if_splits prod.splits)
  then show ?thesis
  proof cases
    case label
    then show ?thesis using assms(2) table by (simp add: count pass_ok_def)
  next
    case data
    then show ?thesis using vals [OF table] by (simp add: Let_def count)
  next
    case code
    then show ?thesis using instruction_line_ok [OF code(1) assms(2)] assms(4) by (simp add: count)
  qed (use assms(2) in \<open>simp_all add: pass_ok_def\<close>)
qed

text \<open>The first pass over the tokens of the lines of a program; no result if a line ends the assembly.\<close>

fun first_pass :: "u8 list list list \<Rightarrow> nas \<Rightarrow> nas option" where
  "first_pass [] n = Some n"
| "first_pass (l # ls) n = (let (stop, n) = process_line l n in if stop then None else first_pass ls n)"

lemma first_pass_ok:
  assumes "first_pass ls n = Some n'" "pass_ok n" "\<forall>l \<in> set ls. length l \<le> 32"
    "unat (ooffset n) + 64 * length ls < 65536"
  shows "pass_ok n' \<and> unat (ooffset n') \<le> unat (ooffset n) + 64 * length ls"
  using assms
proof (induction ls arbitrary: n)
  case (Cons l ls)
  obtain m where m: "process_line l n = (False, m)" "first_pass ls m = Some n'"
    using Cons.prems(1) by (auto simp: Let_def split: prod.splits if_splits)
  have "pass_ok m \<and> unat (ooffset m) \<le> unat (ooffset n) + 64"
    using process_line_ok [OF m(1) Cons.prems(2)] Cons.prems(3,4) by simp
  then show ?case using Cons.IH [OF m(2)] Cons.prems(3,4) by fastforce
qed simp

text \<open>The table of symbols: names are kept with their terminating zero in eight bytes.\<close>

definition symbols_ok :: "symbol list \<Rightarrow> bool" where
  "symbols_ok st \<longleftrightarrow> length st = 32 \<and> (\<forall>s \<in> set st. length (sym_name s) = 8 \<and> sym_name s ! 7 = 0)"

lemma cstring_bounded: "k < length b \<Longrightarrow> b ! k = 0 \<Longrightarrow> length (cstring b) \<le> k"
  by (rule ccontr) (use nth_mem [of k "cstring b"] cstring_nonzero [of b] in \<open>auto simp: cstring_def takeWhile_nth\<close>)

lemma entered_name:
  assumes "length buf = 8" "buf ! 7 = 0" "0 \<notin> set name" "name \<noteq> []"
  defines "b \<equiv> snd (strcpy_s buf name 8)"
  shows "length b = 8" "b ! 7 = 0" "cstring b = take 7 name" "b ! 0 \<noteq> 0"
proof -
  have b: "b = take 7 name @ 0 # drop (length (take 7 name) + 1) buf"
    using strcpy_s_ok [of 8 buf name] assms(1,3) by (simp add: b_def cstring_id)
  then show "length b = 8" using assms(1) by simp
  show "b ! 7 = 0" using assms(1,2) by (simp add: b nth_append nth_Cons' min_def)
  have "0 \<notin> set (take 7 name)" using assms(3) by (meson in_set_takeD)
  then show "cstring b = take 7 name" by (simp add: b)
  show "b ! 0 \<noteq> 0" using assms(3,4) by (cases name) (auto simp: b)
qed

definition name_or_free :: "u8 list \<Rightarrow> symbol list \<Rightarrow> nat \<Rightarrow> bool" where
  "name_or_free name st s \<longleftrightarrow> sym_name (st ! s) ! 0 = 0 \<or> strcmp (sym_name (st ! s)) name = 0"

lemma find_symbol_simps:
  "find_or_add_symbol name st = (case find (name_or_free name st) [0 ..< 32] of
     None \<Rightarrow> (ERROR_NOT_FOUND, st)
   | Some s \<Rightarrow> (of_nat s, if sym_name (st ! s) ! 0 = 0
       then st[s := (st ! s)\<lparr>sym_name := snd (strcpy_s (sym_name (st ! s)) name 8)\<rparr>] else st))"
  "find_symbol name st = (case find (name_or_free name st) [0 ..< 32] of
     None \<Rightarrow> ERROR_NOT_FOUND | Some s \<Rightarrow> if sym_name (st ! s) ! 0 = 0 then ERROR_NOT_FOUND else of_nat s)"
  by (auto simp: find_or_add_symbol_def find_symbol_def name_or_free_def [abs_def] split: option.split)

lemma stored_name_short:
  assumes "symbols_ok st" "s < 32" "0 \<notin> set name" "strcmp (sym_name (st ! s)) name = 0"
  shows "length name \<le> 7"
proof -
  have "st ! s \<in> set st" using assms(1,2) by (simp add: symbols_ok_def)
  then have "length (cstring (sym_name (st ! s))) \<le> 7" using assms(1) by (intro cstring_bounded) (auto simp: symbols_ok_def)
  then show ?thesis using assms(3,4) by (simp add: strcmp_zero_iff cstring_id)
qed

subsection \<open>Properties\<close>

text \<open>
  C13: The second pass: for every program whose lines the first pass accepts, each recorded reference ends up
  as its instruction encoded with the value of its symbol, definitions that come later in the source included,
  and no byte outside these instructions changes. Lines have at most 32 bytes, and the output is meant to fit the 1024 bytes of
  \<open>obuff\<close>, which nothing checks: the memory behind it is the model's own, where the program has its other variables.
\<close>

theorem references_resolved:
  assumes "first_pass ls n = Some n'" "s_refs n = replicate 32 zero_ref" "ooffset n = 0"
    "\<forall>l \<in> set ls. length l \<le> 32" "length ls < 1024"
  defines "b \<equiv> resolve_refs (cg_origin n') (s_table n') (s_refs n') (obuff n')"
  shows "(\<forall>r \<in> set (active (s_refs n')).
      get_mem b (ref_offset r) (instr_len (ref_instr r)) = resolved (cg_origin n') (s_table n') r) \<and>
    (\<forall>x. (\<forall>r \<in> set (active (s_refs n')). \<not> in_reference r x) \<longrightarrow> b x = obuff n' x)"
proof -
  have "active (replicate 32 zero_ref) = []" by (simp add: active_def zero_ref_def)
  then have "pass_ok n" using assms(2,3) by (simp add: pass_ok_def nth_Cons' zero_ref_def)
  then have ok: "pass_ok n'" using first_pass_ok [OF assms(1)] assms(3-5) by simp
  then have ord: "refs_ordered 0 (active (s_refs n')) (unat (ooffset n'))" by (simp add: pass_ok_def)
  have all: "\<forall>r \<in> set (active (s_refs n')). ref_offset r \<noteq> 0" unfolding active_def by (auto dest: set_takeWhileD)
  have le: "unat (ooffset n') \<le> 65536" using unat_u16_lt [of "ooffset n'"] by simp
  show ?thesis
    using resolve_all [OF ord le all] resolve_frame [OF ord le all]
    by (simp add: b_def resolve_active [of _ _ "s_refs n'"])
qed


text \<open>
  A symbol that was entered is found again under its name if the name has at most seven characters; a longer
  name is cut when it is entered, is never found, and every use of it makes a new entry.
\<close>

lemma symbol_names:
  assumes "symbols_ok st" "name \<noteq> []" "0 \<notin> set name" "find_or_add_symbol name st = (j, st')" "j \<noteq> ERROR_NOT_FOUND"
  shows "symbols_ok st' \<and> find_symbol name st' = (if length name \<le> 7 then j else ERROR_NOT_FOUND) \<and>
    (length name \<le> 7 \<longrightarrow> find_or_add_symbol name st' = (j, st')) \<and>
    (7 < length name \<longrightarrow> fst (find_or_add_symbol name st') \<noteq> j)"
proof -
  obtain k where k: "find (name_or_free name st) [0 ..< 32] = Some k"
    using assms(4,5) by (cases "find (name_or_free name st) [0 ..< 32]") (auto simp: find_symbol_simps)
  then have k32: "k < 32" and P: "name_or_free name st k" and before: "\<And>m. m < k \<Longrightarrow> \<not> name_or_free name st m"
    by (auto simp: find_upt_Some_iff)
  have uk: "unat (of_nat k :: u16) = k" using k32 by (intro unat_of_nat_u16) simp
  have kin: "st ! k \<in> set st" "length st = 32" using assms(1) k32 by (simp_all add: symbols_ok_def)
  show ?thesis
  proof (cases "sym_name (st ! k) ! 0 = 0")
    case False
    then show ?thesis
      using assms(1,4) k stored_name_short [OF assms(1) k32 assms(3)] P by (auto simp: find_symbol_simps name_or_free_def)
  next
    case True
    let ?b = "snd (strcpy_s (sym_name (st ! k)) name 8)"
    have st': "st' = st[k := (st ! k)\<lparr>sym_name := ?b\<rparr>]" "j = of_nat k"
      using assms(4) k True by (simp_all add: find_symbol_simps)
    have b: "length ?b = 8" "?b ! 7 = 0" "cstring ?b = take 7 name" "?b ! 0 \<noteq> 0"
      using entered_name [of "sym_name (st ! k)" name] assms(1-3) kin by (simp_all add: symbols_ok_def)
    have ok: "symbols_ok st'"
      using assms(1) b set_update_subset_insert [of st k] unfolding st' symbols_ok_def by fastforce
    have other: "name_or_free name st' m = name_or_free name st m" if "m \<noteq> k" for m
      using that by (simp add: name_or_free_def st')
    have atk: "name_or_free name st' k \<longleftrightarrow> length name \<le> 7"
      using b assms(3) kin k32 by (auto simp: name_or_free_def st' strcmp_zero_iff cstring_id)
    show ?thesis
    proof (cases "length name \<le> 7")
      case short: True
      then have "find (name_or_free name st') [0 ..< 32] = Some k"
        using k32 atk other before by (auto simp: find_upt_Some_iff)
      then show ?thesis using short ok b(4) kin k32 st' by (simp add: find_symbol_simps)
    next
      case long: False
      have free: "sym_name (st' ! m) ! 0 = 0" "m \<noteq> k" if "find (name_or_free name st') [0 ..< 32] = Some m" for m
        using that atk long stored_name_short [OF ok _ assms(3)]
        by (auto simp: find_upt_Some_iff name_or_free_def)
      have "of_nat m \<noteq> (of_nat k :: u16)" if "m < 32" "m \<noteq> k" for m
        using that uk unat_of_nat_u16 [of m] by fastforce
      moreover have "m < 32" if "find (name_or_free name st') [0 ..< 32] = Some m" for m
        using that by (simp add: find_upt_Some_iff)
      ultimately show ?thesis using long ok free assms(5) st'(2)
        by (cases "find (name_or_free name st') [0 ..< 32]") (auto simp: find_symbol_simps)
    qed
  qed
qed

text \<open>
  The offset 0 marks a free reference, so the reference of an instruction at the very start of the output
  is lost: after the first instruction of a program there is nothing to resolve, whatever its operands.
\<close>

lemma first_reference_lost:
  assumes "instruction_line tokv n = (False, n')" "pass_ok n" "ooffset n = 0"
  shows "resolve_refs (cg_origin n') (s_table n') (s_refs n') b = b"
proof -
  have r: "length (s_refs n) = 32" "\<forall>k < 32. length (active (s_refs n)) \<le> k \<longrightarrow> ref_offset (s_refs n ! k) = 0"
      "refs_ordered 0 (active (s_refs n)) 0"
    using assms(2,3) by (simp_all add: pass_ok_def)
  have "r \<notin> set (active (s_refs n))" for r using refs_ordered_above [OF r(3), of r] by auto
  then have none: "active (s_refs n) = []" by (metis list.set_intros(1) neq_Nil_conv)
  have same: "active (append_symbol_ref sy opnd 0 instr ci (s_refs n)) = []" for sy opnd instr ci
  proof -
    have "find (\<lambda>r. ref_offset (s_refs n ! r) = 0) [0 ..< 32] = Some 0"
      using r(2) none by (auto simp: find_upt_Some_iff)
    then show ?thesis using active_update [OF r(1,2)] none by (simp add: append_symbol_ref_def)
  qed
  have "active (s_refs n') = []"
    using assms(1,3) none same by (auto simp: instruction_line_def Let_def split: prod.splits if_splits)
  then show ?thesis by (simp add: resolve_active [of _ _ "s_refs n'"])
qed

subsection \<open>Samples\<close>

definition no_symbols :: nas where
  "no_symbols = \<lparr>cg_origin = 0x100, s_table = replicate 32 zero_symbol, s_refs = replicate 32 zero_ref, obuff = \<lambda>_. 0,
     ooffset = 0, fline = 1, screen = []\<rparr>"

definition sample_lines :: "u8 list list list" where
  "sample_lines = [[bytes ''ret''], [bytes ''jmp'', bytes ''end''], [bytes ''end:'']]"

lemma sample_pass:
  "map_option (\<lambda>n. map (\<lambda>r. (ref_offset r, instr_len (ref_instr r), resolved (cg_origin n) (s_table n) r)) (active (s_refs n)))
    (first_pass sample_lines no_symbols) = Some [(1, 3, [0xE9, 0, 0xFF])]"
  by code_simp

lemma ret_line: "fst (instruction_line [bytes ''ret''] no_symbols) = False"
  by code_simp

lemma no_symbols_ok: "pass_ok no_symbols" "s_refs no_symbols = replicate 32 zero_ref" "ooffset no_symbols = 0"
  by (simp_all add: pass_ok_def no_symbols_def active_def zero_ref_def nth_Cons')

theorem references_resolved_witness:
  "\<exists>n. first_pass sample_lines no_symbols = Some n \<and>
     get_mem (resolve_refs (cg_origin n) (s_table n) (s_refs n) (obuff n)) 1 3 = [0xE9, 0, 0xFF]"
proof -
  obtain n where n: "first_pass sample_lines no_symbols = Some n"
      "map (\<lambda>r. (ref_offset r, instr_len (ref_instr r), resolved (cg_origin n) (s_table n) r)) (active (s_refs n)) =
        [(1, 3, [0xE9, 0, 0xFF])]"
    by (rule map_option_eq_Some [THEN iffD1, OF sample_pass, THEN exE]) simp
  then obtain r where r: "active (s_refs n) = [r]" "ref_offset r = 1" "instr_len (ref_instr r) = 3"
      "resolved (cg_origin n) (s_table n) r = [0xE9, 0, 0xFF]" by auto
  have "\<forall>l \<in> set sample_lines. length l \<le> 32" "length sample_lines < 1024" by (simp_all add: sample_lines_def)
  then show ?thesis
    using references_resolved [OF n(1) no_symbols_ok(2,3)] n(1) r by simp
qed

end
