(* ===== verification/Net_Arp.thy ===== *)
theory Net_Arp
  imports Net_Frames
begin

section \<open>Hardware addresses\<close>

text \<open>
  The address resolution protocol: the frames of \<open>arp_request\<close> and \<open>arp_reply\<close>, what a node that receives
  one does, the table of the addresses learnt, and the requests that \<open>provide_mac_address\<close> makes.
\<close>

definition arp_header :: "net \<Rightarrow> u16 \<Rightarrow> u8 list \<Rightarrow> u8 list \<Rightarrow> arp_hdr" where
  "arp_header s op mac ip =
     \<lparr>hrd = BSWAP_16 1, pro = BSWAP_16 0x0800, hln = 6, pln = 4, arp_op = BSWAP_16 op,
      sha = local_mac s, spa = local_ip s, dha = mac, dpa = ip\<rparr>"

definition arp_frame :: "net \<Rightarrow> u16 \<Rightarrow> u8 list \<Rightarrow> u8 list \<Rightarrow> u8 list" where
  "arp_frame s op mac ip = ether_frame mac (local_mac s) 0x0806 (arp_bytes (arp_header s op mac ip))"

definition arp_wf :: "arp_hdr \<Rightarrow> bool" where
  "arp_wf h \<longleftrightarrow> length (sha h) = 6 \<and> length (spa h) = 4 \<and> length (dha h) = 6 \<and> length (dpa h) = 4"

lemma length_arp_bytes [simp]: "arp_wf h \<Longrightarrow> length (arp_bytes h) = 28"
  by (simp add: arp_bytes_def arp_wf_def)

lemma find_mac_trace [simp]: "find_mac_in_table (s\<lparr>io_trace := t\<rparr>) ip = find_mac_in_table s ip"
  by (simp add: find_mac_in_table_def)

lemma arp_send_run:
  assumes "nic_ready s" "length (local_mac s) = 6" "length (local_ip s) = 4" "length mac = 6" "length ip = 4"
  shows "\<exists>t v m. arp_send op mac ip s = Some (0, s\<lparr>snd_buff := m, io_trace := t\<rparr>) \<and>
    writes t = writes (io_trace s) @ send_writes (base_port s) v (arp_frame s op mac ip)"
proof -
  let ?h = "arp_header s op mac ip"
  let ?m1 = "put_mem (snd_buff s) 0 (arp_bytes ?h)"
  let ?f = "arp_frame s op mac ip"
  let ?s = "s\<lparr>snd_buff := put_mem ?m1 0 ?f\<rparr>"
  have wf: "arp_wf ?h" using assms by (simp add: arp_wf_def arp_header_def)
  have "get_mem ?m1 0 (unat (28 :: u16)) = arp_bytes ?h" using wf by (subst get_put_mem0) simp_all
  then have 1: "eth_frame (local_mac s) mac 0x0806 0 28 ?m1 = put_mem ?m1 0 ?f"
    using eth_frame_put [of "local_mac s" mac 0 28 "0x0806" ?m1] assms by (simp add: arp_frame_def)
  have lf: "length ?f = 46" using wf assms by (simp add: arp_frame_def)
  then have g: "get_mem (put_mem ?m1 0 ?f) 0 46 = ?f" by (subst get_put_mem0) simp_all
  obtain s' where s': "ne2k_send 0 46 ?s = Some (0, s')" "transmitted ?s s' ?f"
    using ne2k_send_ok [of ?s 0 46] assms(1) g by auto
  then have "arp_send op mac ip s = Some (0, s')"
    using 1 by (simp add: arp_send_def eth_send_def arp_header_def)
  then show ?thesis using s'(2) by (auto simp: transmitted_def)
qed

text \<open>A frame with an ARP packet in the buffer of received frames.\<close>

lemma arp_at_bytes:
  assumes "arp_wf h" "length mac = 6" "length src = 6"
  shows "arp_at (put_mem m 0 (ether_frame mac src type (arp_bytes h))) 14 = h"
proof -
  note len = assms(2,3) assms(1) [unfolded arp_wf_def]
  let ?F = "ether_frame mac src type (arp_bytes h)"
  let ?t = "put_mem m 0 ?F"
  let ?e = "mac @ src @ le16 (BSWAP_16 type)"
  obtain crc where F: "?F = ?e @ le16 (hrd h) @ le16 (pro h) @ [hln h] @ [pln h] @ le16 (arp_op h) @
      sha h @ spa h @ dha h @ dpa h @ crc" and crc: "length crc = 4"
    by (simp add: ether_frame_def arp_bytes_def Let_def)
  have l: "length ?F = 46" using assms by simp
  have f: "get_mem ?t (of_nat k) n = take n (drop k ?F)" if "k + n \<le> 46" for k n
    using that l by (intro get_put_mem) simp_all
  have "get_mem ?t 14 2 = le16 (hrd h)" using f [of 14 2] by (simp add: F len)
  moreover have "get_mem ?t 16 2 = le16 (pro h)" using f [of 16 2] by (simp add: F len)
  moreover have "get_mem ?t 18 1 = [hln h]" using f [of 18 1] by (simp add: F len)
  moreover have "get_mem ?t 19 1 = [pln h]" using f [of 19 1] by (simp add: F len)
  moreover have "get_mem ?t 20 2 = le16 (arp_op h)" using f [of 20 2] by (simp add: F len)
  moreover have "get_mem ?t 22 6 = sha h" using f [of 22 6] by (simp add: F len)
  moreover have "get_mem ?t 28 4 = spa h" using f [of 28 4] by (simp add: F len)
  moreover have "get_mem ?t 32 6 = dha h" using f [of 32 6] by (simp add: F len)
  moreover have "get_mem ?t 38 4 = dpa h" using f [of 38 4] by (simp add: F len)
  ultimately show ?thesis by (simp add: arp_at_def get_mem_def)
qed

lemma process_arp:
  assumes "arp_wf h" "length mac = 6" "length src = 6"
    "length (local_mac r) = 6" "length (arp_mac (arp_table r ! 0)) = 6"
    "local_mac r = mac \<or> arp_mac (arp_table r ! 0) = mac"
    "tmp_buff r = put_mem m 0 (ether_frame mac src 0x0806 (arp_bytes h))"
  shows "process_frame r = arp_recv_process ETH_HDR_LEN r"
proof -
  let ?F = "ether_frame mac src 0x0806 (arp_bytes h)"
  have F: "?F = mac @ src @ le16 (BSWAP_16 0x0806) @ arp_bytes h @
      le32 (crc32_byte (mac @ src @ le16 (BSWAP_16 0x0806) @ arp_bytes h))"
    by (simp add: ether_frame_def Let_def)
  have l: "length ?F = 46" using assms(1-3) by simp
  have d: "get_mem (tmp_buff r) 0 6 = mac"
    unfolding assms(7) using get_put_mem0 [of 6 ?F m 0] l assms(2) F by simp
  have t: "get_mem (tmp_buff r) 12 2 = le16 (BSWAP_16 0x0806)"
    unfolding assms(7) using get_put_mem [of 12 2 ?F 12 0 m] l assms(2,3) F by simp
  have "memcmp mac (local_mac r) 6 = 0 \<or> memcmp mac (arp_mac (arp_table r ! 0)) 6 = 0"
    using assms(2,4-6) by (auto simp: memcmp_zero_iff)
  then show ?thesis by (simp add: process_frame_def Let_def d t)
qed


subsection \<open>The table\<close>

definition table_wf :: "net \<Rightarrow> bool" where
  "table_wf s \<longleftrightarrow> length (arp_table s) = 8 \<and> length (local_ip s) = 4 \<and> length (local_mac s) = 6 \<and>
     (\<forall>e \<in> set (arp_table s). length (arp_ip e) = 4 \<and> length (arp_mac e) = 6)"

lemma table_wf_nth: "table_wf s \<Longrightarrow> i < 8 \<Longrightarrow> length (arp_ip (arp_table s ! i)) = 4 \<and> length (arp_mac (arp_table s ! i)) = 6"
  by (simp add: table_wf_def)

lemma find_mac_eq:
  assumes "table_wf s" "length ip = 4"
  shows "find_mac_in_table s ip = (if ip = local_ip s then Some LocalMac
    else map_option TableMac (find (\<lambda>i. arp_ip (arp_table s ! i) = ip) [0 ..< 8]))"
proof -
  have "find (\<lambda>i. memcmp (arp_ip (arp_table s ! i)) ip 4 = 0) [0 ..< 8] =
      find (\<lambda>i. arp_ip (arp_table s ! i) = ip) [0 ..< 8]"
    using table_wf_nth [OF assms(1)] assms(2) by (intro find_cong) (auto simp: memcmp_zero_iff)
  then show ?thesis using assms by (simp add: find_mac_in_table_def memcmp_zero_iff table_wf_def)
qed

lemma mac_at_set_mac:
  assumes "table_wf s" "p = LocalMac \<or> (\<exists>i < 8. p = TableMac i)"
  shows "mac_at (set_mac p m s) p = m"
  using assms by (auto simp: mac_at_def set_mac_def table_wf_def)

lemma table_wf_update:
  assumes "table_wf s" "length (arp_ip e) = 4" "length (arp_mac e) = 6"
  shows "table_wf (s\<lparr>arp_table := (arp_table s)[i := e]\<rparr>)"
  using assms set_update_subset_insert [of "arp_table s" i e] by (auto simp: table_wf_def)

lemma set_mac_wf:
  assumes "table_wf s" "length m = 6"
  shows "table_wf (set_mac p m s)"
proof (cases p)
  case LocalMac
  then show ?thesis using assms by (simp add: set_mac_def table_wf_def)
next
  case (TableMac i)
  show ?thesis
  proof (cases "i < 8")
    case True
    then show ?thesis using assms TableMac table_wf_nth [OF assms(1), of i]
      by (simp add: set_mac_def table_wf_update)
  next
    case False
    then have "(arp_table s)[i := e] = arp_table s" for e
      using assms(1) by (intro list_update_beyond) (simp add: table_wf_def)
    then show ?thesis using assms(1) TableMac by (simp add: set_mac_def)
  qed
qed

lemma find_mac_pointer:
  assumes "table_wf s" "length ip = 4" "find_mac_in_table s ip = Some p"
  obtains "p = LocalMac" "ip = local_ip s"
  | i where "p = TableMac i" "i < 8" "arp_ip (arp_table s ! i) = ip" "ip \<noteq> local_ip s"
  using assms find_mac_eq [OF assms(1,2)] by (auto simp: find_upt_Some_iff split: if_splits)

lemma find_mac_set_mac:
  assumes "table_wf s" "length ip = 4" "length m = 6" "p = LocalMac \<or> (\<exists>i < 8. p = TableMac i)"
  shows "find_mac_in_table (set_mac p m s) ip = find_mac_in_table s ip"
proof -
  have "find (\<lambda>i. arp_ip (arp_table (set_mac p m s) ! i) = ip) [0 ..< 8] =
      find (\<lambda>i. arp_ip (arp_table s ! i) = ip) [0 ..< 8]"
    using assms(1,4) by (intro find_cong) (auto simp: set_mac_def nth_list_update table_wf_def)
  moreover have "local_ip (set_mac p m s) = local_ip s" by (simp add: set_mac_def split: mac_ptr.split)
  ultimately show ?thesis using assms by (simp add: find_mac_eq set_mac_wf)
qed

text \<open>The entry a new address goes to: the first free one, the last one if there is none.\<close>

lemma arp_slot:
  obtains i where "find (\<lambda>i. P i \<or> i = ARP_TABLE_LEN - 1) [0 ..< ARP_TABLE_LEN] = Some i" "i < 8"
    "(\<exists>j < 8. P j) \<longrightarrow> P i"
proof (cases "find (\<lambda>i. P i \<or> i = ARP_TABLE_LEN - 1) [0 ..< ARP_TABLE_LEN]")
  case None
  then have "\<forall>i < 8. \<not> (P i \<or> i = (7 :: nat))" by (simp add: find_upt_None_iff)
  then have False by (auto dest: spec [of _ 7])
  then show ?thesis ..
next
  case (Some i)
  then have i: "i < 8" "P i \<or> i = 7" "\<forall>j < i. \<not> P j" by (auto simp: find_upt_Some_iff)
  have "P i" if "j < 8" "P j" for j
  proof (cases "j = i")
    case False
    then have "i < j" using i(3) that by (metis linorder_neqE_nat)
    then show ?thesis using i(2) that(1) by auto
  qed (use that in simp)
  with Some i(1) show ?thesis by (intro that) auto
qed


lemma learn_known:
  assumes "table_wf s" "arp_wf ah" "find_mac_in_table s (spa ah) = Some p"
  shows "table_wf (arp_learn ah s)" "find_mac_in_table (arp_learn ah s) (spa ah) = Some p"
    "mac_at (arp_learn ah s) p = sha ah"
    "length ip = 4 \<Longrightarrow> ip \<noteq> spa ah \<Longrightarrow> find_mac_in_table s ip = Some q \<Longrightarrow>
      find_mac_in_table (arp_learn ah s) ip = Some q \<and> mac_at (arp_learn ah s) q = mac_at s q"
proof -
  have len: "length (spa ah) = 4" "length (sha ah) = 6" using assms(2) by (simp_all add: arp_wf_def)
  have l: "arp_learn ah s = set_mac p (sha ah) s" using assms(3) by (simp add: arp_learn_def)
  have p: "p = LocalMac \<or> (\<exists>i < 8. p = TableMac i)" using find_mac_pointer [OF assms(1) len(1) assms(3)] by blast
  have "mac_at (set_mac p (sha ah) s) q = mac_at s q"
    if "length ip = 4" "ip \<noteq> spa ah" "find_mac_in_table s ip = Some q" for ip q
  proof -
    have "p \<noteq> q" using find_mac_pointer [OF assms(1) len(1) assms(3)] find_mac_pointer [OF assms(1) that(1,3)] that(2)
      by (metis mac_ptr.distinct(1) mac_ptr.inject)
    then show ?thesis by (cases p; cases q) (simp_all add: mac_at_def set_mac_def)
  qed
  then show "find_mac_in_table (arp_learn ah s) ip = Some q \<and> mac_at (arp_learn ah s) q = mac_at s q"
    if "length ip = 4" "ip \<noteq> spa ah" "find_mac_in_table s ip = Some q"
    unfolding l using that p len assms(1) by (simp add: find_mac_set_mac)
  show "table_wf (arp_learn ah s)" "find_mac_in_table (arp_learn ah s) (spa ah) = Some p"
    "mac_at (arp_learn ah s) p = sha ah"
    unfolding l using assms p len by (simp_all add: find_mac_set_mac mac_at_set_mac set_mac_wf)
qed

lemma learn_new:
  assumes "table_wf s" "arp_wf ah" "find_mac_in_table s (spa ah) = None"
  shows "table_wf (arp_learn ah s)"
    "\<exists>p. find_mac_in_table (arp_learn ah s) (spa ah) = Some p \<and> mac_at (arp_learn ah s) p = sha ah"
    "length ip = 4 \<Longrightarrow> ip \<noteq> spa ah \<Longrightarrow> ip ! 0 \<noteq> 0 \<Longrightarrow> find_mac_in_table s ip = Some q \<Longrightarrow>
      \<exists>i < 8. arp_ip (arp_table s ! i) ! 0 = 0 \<Longrightarrow>
      find_mac_in_table (arp_learn ah s) ip = Some q \<and> mac_at (arp_learn ah s) q = mac_at s q"
proof -
  have len: "length (spa ah) = 4" "length (sha ah) = 6" using assms(2) by (simp_all add: arp_wf_def)
  obtain i where i: "find (\<lambda>i. arp_ip (arp_table s ! i) ! 0 = 0 \<or> i = ARP_TABLE_LEN - 1) [0 ..< ARP_TABLE_LEN] = Some i"
      "i < 8" "(\<exists>j < 8. arp_ip (arp_table s ! j) ! 0 = 0) \<longrightarrow> arp_ip (arp_table s ! i) ! 0 = 0"
    by (rule arp_slot [of "\<lambda>i. arp_ip (arp_table s ! i) ! 0 = 0"])
  let ?s = "s\<lparr>arp_table := (arp_table s)[i := \<lparr>arp_ip = spa ah, arp_mac = sha ah\<rparr>]\<rparr>"
  have l: "arp_learn ah s = ?s" using assms(3) i(1) by (simp add: arp_learn_def)
  have wf: "table_wf ?s" using assms(1) len by (simp add: table_wf_update)
  have new: "spa ah \<noteq> local_ip s" "\<And>j. j < 8 \<Longrightarrow> arp_ip (arp_table s ! j) \<noteq> spa ah"
    using assms(3) by (auto simp: find_mac_eq [OF assms(1) len(1)] find_upt_None_iff split: if_splits)
  have nth: "arp_table ?s ! j = (if j = i then \<lparr>arp_ip = spa ah, arp_mac = sha ah\<rparr> else arp_table s ! j)"
    if "j < 8" for j using that assms(1) i(2) by (simp add: table_wf_def nth_list_update)
  have "find (\<lambda>j. arp_ip (arp_table ?s ! j) = spa ah) [0 ..< 8] = Some i"
    using i(2) new(2) nth by (auto simp: find_upt_Some_iff)
  then show "\<exists>p. find_mac_in_table (arp_learn ah s) (spa ah) = Some p \<and> mac_at (arp_learn ah s) p = sha ah"
    unfolding l using wf len new(1) nth [OF i(2)] by (auto simp: find_mac_eq mac_at_def)
  show "find_mac_in_table (arp_learn ah s) ip = Some q \<and> mac_at (arp_learn ah s) q = mac_at s q"
    if "length ip = 4" "ip \<noteq> spa ah" "ip ! 0 \<noteq> 0" "find_mac_in_table s ip = Some q"
      "\<exists>j < 8. arp_ip (arp_table s ! j) ! 0 = 0"
  proof -
    have "arp_ip (arp_table s ! i) \<noteq> ip" using i(3) that(3,5) by auto
    then have "find (\<lambda>j. arp_ip (arp_table ?s ! j) = ip) [0 ..< 8] = find (\<lambda>j. arp_ip (arp_table s ! j) = ip) [0 ..< 8]"
      using that(2) nth by (intro find_cong) auto
    then have "find_mac_in_table ?s ip = find_mac_in_table s ip" using that(1) wf assms(1) by (simp add: find_mac_eq)
    moreover have "q \<noteq> TableMac i"
      using find_mac_pointer [OF assms(1) that(1,4)] \<open>arp_ip (arp_table s ! i) \<noteq> ip\<close> by (metis mac_ptr.distinct(1) mac_ptr.inject)
    ultimately show ?thesis using that(4) unfolding l by (cases q) (simp_all add: mac_at_def)
  qed
  show "table_wf (arp_learn ah s)" unfolding l by (rule wf)
qed

text \<open>
  Learning an address: after a reply the table has the sender's hardware address under the sender's
  address, every lookup still gives an address of the right length, and the other addresses keep their hardware
  addresses as long as the sender was known or an entry was free. (A full table loses its last entry.)
\<close>

lemma arp_reply_learnt:
  assumes "table_wf s" "arp_wf ah"
  shows "table_wf (arp_learn ah s) \<and>
    (\<exists>p. find_mac_in_table (arp_learn ah s) (spa ah) = Some p \<and> mac_at (arp_learn ah s) p = sha ah) \<and>
    (\<forall>ip p. length ip = 4 \<and> ip \<noteq> spa ah \<and> ip ! 0 \<noteq> 0 \<and> find_mac_in_table s ip = Some p \<and>
        (find_mac_in_table s (spa ah) \<noteq> None \<or> (\<exists>i < 8. arp_ip (arp_table s ! i) ! 0 = 0)) \<longrightarrow>
      find_mac_in_table (arp_learn ah s) ip = Some p \<and> mac_at (arp_learn ah s) p = mac_at s p)"
proof (cases "find_mac_in_table s (spa ah)")
  case None
  then show ?thesis using learn_new [OF assms] by simp blast
next
  case (Some p)
  then show ?thesis using learn_known [OF assms] by blast
qed


subsection \<open>Asking for an address\<close>

text \<open>The answer of a node to the frame of a request for its address, and what the answer does at its receiver.\<close>

definition peer :: "net \<Rightarrow> bool" where
  "peer s \<longleftrightarrow> nic_ready s \<and> table_wf s \<and> arp_mac (arp_table s ! 0) = replicate 6 0xFF"

lemma arp_header_wf:
  "length (local_mac s) = 6 \<Longrightarrow> length (local_ip s) = 4 \<Longrightarrow> length mac = 6 \<Longrightarrow> length ip = 4 \<Longrightarrow>
    arp_wf (arp_header s op mac ip)"
  by (simp add: arp_wf_def arp_header_def)

lemma receive_arp_frame:
  assumes "peer r" "arp_wf h" "length mac = 6" "length src = 6" "mac = local_mac r \<or> mac = replicate 6 0xFF"
  defines "r' \<equiv> r\<lparr>tmp_buff := store_received (ether_frame mac src 0x0806 (arp_bytes h)) (tmp_buff r)\<rparr>"
  shows "process_frame r' = arp_recv_process 14 r'" "arp_at (tmp_buff r') 14 = h"
proof -
  have l: "length (local_mac r) = 6" "length (arp_mac (arp_table r ! 0)) = 6" "arp_mac (arp_table r ! 0) = replicate 6 0xFF"
    using assms(1) by (simp_all add: peer_def table_wf_def)
  have "length (ether_frame mac src 0x0806 (arp_bytes h)) = 46" using assms(2-4) by simp
  then have t: "tmp_buff r' = put_mem (tmp_buff r) 0 (ether_frame mac src 0x0806 (arp_bytes h))"
    by (simp add: r'_def store_received_put)
  show "process_frame r' = arp_recv_process 14 r'"
    using process_arp [OF assms(2-4) _ _ _ t] l assms(5) by (auto simp: r'_def)
  show "arp_at (tmp_buff r') 14 = h" unfolding t by (rule arp_at_bytes [OF assms(2-4)])
qed

text \<open>
  C12: The address resolution of two nodes: a node that asks for the address of another sends one frame,
  the other answers it with one frame, and when the first has processed the answer it knows the hardware
  address of the other.
\<close>

theorem arp_exchange:
  assumes "peer a" "peer b"
  shows "\<exists>a' v f b' w g a'' p.
    arp_request (local_ip b) a = Some (0, a') \<and>
    writes (io_trace a') = writes (io_trace a) @ send_writes (base_port a) v f \<and>
    process_frame (b\<lparr>tmp_buff := store_received f (tmp_buff b)\<rparr>) = Some ((), b') \<and>
    writes (io_trace b') = writes (io_trace b) @ send_writes (base_port b) w g \<and>
    process_frame (a'\<lparr>tmp_buff := store_received g (tmp_buff a')\<rparr>) = Some ((), a'') \<and>
    find_mac_in_table a'' (local_ip b) = Some p \<and> mac_at a'' p = local_mac b"
proof -
  let ?all = "replicate 6 (0xFF :: u8)"
  have la: "length (local_mac a) = 6" "length (local_ip a) = 4" "nic_ready a" "table_wf a"
    and lb: "length (local_mac b) = 6" "length (local_ip b) = 4" "nic_ready b" "table_wf b"
    using assms by (simp_all add: peer_def table_wf_def)
  let ?hf = "arp_header a 1 ?all (local_ip b)" and ?f = "arp_frame a 1 ?all (local_ip b)"
  let ?hg = "arp_header b 2 (local_mac a) (local_ip a)" and ?g = "arp_frame b 2 (local_mac a) (local_ip a)"
  let ?b = "b\<lparr>tmp_buff := store_received ?f (tmp_buff b)\<rparr>"
  have wf: "arp_wf ?hf" "arp_wf ?hg" using la lb by (simp_all add: arp_header_wf)
  obtain t v m where 1: "arp_request (local_ip b) a = Some (0, a\<lparr>snd_buff := m, io_trace := t\<rparr>)"
      "writes t = writes (io_trace a) @ send_writes (base_port a) v ?f"
    using arp_send_run [of a ?all "local_ip b" 1] la lb by (auto simp: arp_request_def)
  obtain u w n where 2: "arp_reply (local_mac a) (local_ip a) ?b = Some (0, ?b\<lparr>snd_buff := n, io_trace := u\<rparr>)"
      "writes u = writes (io_trace b) @ send_writes (base_port b) w ?g"
    using arp_send_run [of ?b "local_mac a" "local_ip a" 2] la lb
    by (auto simp: arp_reply_def arp_frame_def arp_header_def nic_ready_def)
  let ?a = "a\<lparr>snd_buff := m, io_trace := t, tmp_buff := store_received ?g (tmp_buff a)\<rparr>"
  have pb: "process_frame ?b = Some ((), ?b\<lparr>snd_buff := n, io_trace := u\<rparr>)"
    using receive_arp_frame [OF assms(2) wf(1), of ?all "local_mac a"] la lb 2(1)
    by (simp add: arp_frame_def arp_recv_process_def arp_header_def memcmp_zero_iff BSWAP_16_def)
  have pa: "process_frame ?a = Some ((), arp_learn ?hg ?a)"
    using receive_arp_frame [of "a\<lparr>snd_buff := m, io_trace := t\<rparr>" ?hg "local_mac a" "local_mac b"] wf(2) assms(1) la lb
    by (simp add: peer_def nic_ready_def table_wf_def arp_frame_def arp_recv_process_def arp_header_def
      memcmp_zero_iff)
  have "table_wf ?a" using la(4) by (simp add: table_wf_def)
  then obtain p where "find_mac_in_table (arp_learn ?hg ?a) (local_ip b) = Some p" "mac_at (arp_learn ?hg ?a) p = local_mac b"
    using learn_known [of ?a ?hg] learn_new [of ?a ?hg] wf(2) by (cases "find_mac_in_table ?a (spa ?hg)")
      (auto simp: arp_header_def)
  then show ?thesis using 1 2(2) pb pa by fastforce
qed


lemma peer_node:
  "length mac = 6 \<Longrightarrow> length ip = 4 \<Longrightarrow> tab = [] \<Longrightarrow> peer (node 0x40 mac ip tab)"
  using nic_ready_node [of "0x40" mac ip "[]"]
  by (simp add: peer_def table_wf_def) (simp add: node_def)

theorem arp_exchange_witness:
  defines "a \<equiv> node 0x40 [2, 0, 0, 0, 0, 1] [192, 168, 0, 1] []"
    and "b \<equiv> node 0x40 [2, 0, 0, 0, 0, 2] [192, 168, 0, 2] []"
  shows "\<exists>a' v f b' w g a'' p.
    arp_request [192, 168, 0, 2] a = Some (0, a') \<and>
    writes (io_trace a') = writes (io_trace a) @ send_writes (base_port a) v f \<and>
    process_frame (b\<lparr>tmp_buff := store_received f (tmp_buff b)\<rparr>) = Some ((), b') \<and>
    writes (io_trace b') = writes (io_trace b) @ send_writes (base_port b) w g \<and>
    process_frame (a'\<lparr>tmp_buff := store_received g (tmp_buff a')\<rparr>) = Some ((), a'') \<and>
    find_mac_in_table a'' [192, 168, 0, 2] = Some p \<and> mac_at a'' p = [2, 0, 0, 0, 0, 2]"
proof -
  have "peer a" "peer b" unfolding a_def b_def by (intro peer_node; simp)+
  moreover have "local_ip b = [192, 168, 0, 2]" "local_mac b = [2, 0, 0, 0, 0, 2]" by (simp_all add: b_def node_def)
  ultimately show ?thesis using arp_exchange [of a b] by simp
qed

text \<open>
  C36: Nobody answers: when no interrupt arrives while it waits, \<open>provide_mac_address\<close> ends after exactly
  sixteen requests, reports the failure and has changed neither the table nor its own addresses.
\<close>

theorem provide_mac_address_gives_up:
  assumes "nic_ready s" "table_wf s" "length (get_effective_ip s ip) = 4" "\<And>t. irqs s t = 0"
    "find_mac_in_table s (get_effective_ip s ip) = None"
  shows "\<exists>t m vs. provide_mac_address ip s = Some (1, s\<lparr>snd_buff := m, io_trace := t\<rparr>) \<and> length vs = 16 \<and>
    writes t = writes (io_trace s) @ concat (map (\<lambda>v. send_writes (base_port s) v
      (arp_frame s ARP_OP_REQUEST (replicate MAC_LEN 0xFF) (get_effective_ip s ip))) vs)"
proof -
  let ?ip = "get_effective_ip s ip" and ?all = "replicate 6 (0xFF :: u8)"
  let ?f = "arp_frame s 1 ?all ?ip"
  have run: "\<exists>t m vs. request_loop n ?ip (s\<lparr>snd_buff := m0, io_trace := t0\<rparr>) =
      Some (1, s\<lparr>snd_buff := m, io_trace := t\<rparr>) \<and> length vs = n \<and>
      writes t = writes t0 @ concat (map (\<lambda>v. send_writes (base_port s) v ?f) vs)" for n m0 t0
  proof (induction n arbitrary: m0 t0)
    case 0
    then show ?case using assms(5)
      by (intro exI [of _ t0] exI [of _ m0] exI [of _ "[]"]) simp
  next
    case (Suc n)
    let ?s = "s\<lparr>snd_buff := m0, io_trace := t0\<rparr>"
    have none: "find_mac_in_table ?s ?ip = None" using assms(5) by simp
    obtain t1 v m1 where 1: "arp_request ?ip ?s = Some (0, s\<lparr>snd_buff := m1, io_trace := t1\<rparr>)"
        "writes t1 = writes t0 @ send_writes (base_port s) v ?f"
      using arp_send_run [of ?s ?all ?ip 1] assms(1-3)
      by (auto simp: arp_request_def table_wf_def nic_ready_def arp_frame_def arp_header_def)
    obtain t m vs where "request_loop n ?ip (s\<lparr>snd_buff := m1, io_trace := t1\<rparr>) =
        Some (1, s\<lparr>snd_buff := m, io_trace := t\<rparr>)" "length vs = n"
        "writes t = writes t1 @ concat (map (\<lambda>v. send_writes (base_port s) v ?f) vs)"
      using Suc by blast
    then show ?case using none 1 assms(4)
      by (intro exI [of _ t] exI [of _ m] exI [of _ "v # vs"]) (simp add: net_wait_def nbind_def)
  qed
  show ?thesis using run [of 16 "io_trace s" "snd_buff s"] by (simp add: provide_mac_address_def)
qed

theorem provide_mac_address_gives_up_witness:
  defines "a \<equiv> node 0x40 [2, 0, 0, 0, 0, 1] [192, 168, 0, 7] []"
  shows "\<exists>t m. provide_mac_address [10, 0, 0, 1] a = Some (1, a\<lparr>snd_buff := m, io_trace := t\<rparr>)"
proof -
  have "nic_ready a" "table_wf a" "irqs a t = 0" for t
    using peer_node [of "[2, 0, 0, 0, 0, 1]" "[192, 168, 0, 7]" "[]"] by (simp_all add: a_def peer_def) (simp add: node_def)
  moreover have "get_effective_ip a [10, 0, 0, 1] = [192, 168, 0, 1]"
    by (simp add: a_def node_def get_effective_ip_def upt_conv_Cons)
  moreover have "find_mac_in_table a [192, 168, 0, 1] = None"
    by (simp add: a_def node_def find_mac_in_table_def memcmp_def upt_conv_Cons)
  ultimately show ?thesis using provide_mac_address_gives_up [of a "[10, 0, 0, 1]"] by auto
qed

text \<open>
  A reply is believed without a request: whoever sends a node a reply that carries the node's own
  address as that of the sender replaces the hardware address of the node itself, the one it puts into
  every frame and accepts frames for.
\<close>

lemma arp_reply_replaces_own_address:
  assumes "peer r" "arp_wf h" "length src = 6" "hrd h = BSWAP_16 1" "pro h = BSWAP_16 0x0800"
    "arp_op h = BSWAP_16 2" "dpa h = local_ip r" "spa h = local_ip r"
  defines "r' \<equiv> r\<lparr>tmp_buff := store_received (ether_frame (replicate 6 0xFF) src 0x0806 (arp_bytes h)) (tmp_buff r)\<rparr>"
  shows "process_frame r' = Some ((), r'\<lparr>local_mac := sha h\<rparr>)"
proof -
  have l: "length (local_ip r) = 4" using assms(1) by (simp add: peer_def table_wf_def)
  have "arp_learn h r' = r'\<lparr>local_mac := sha h\<rparr>"
    using l assms(8) by (simp add: arp_learn_def find_mac_in_table_def memcmp_zero_iff set_mac_def r'_def)
  then show ?thesis
    using receive_arp_frame [OF assms(1,2), of "replicate 6 0xFF" src] assms(3-7) l
    by (simp add: arp_recv_process_def memcmp_zero_iff r'_def)
qed

text \<open>
  The next hop of a datagram is its destination when the two agree with the own address under the mask of
  the network, bit by bit, and the gateway otherwise.
\<close>

lemma next_hop:
  "get_effective_ip s ip =
    (if \<forall>i < 4. \<forall>b < 8. bit (local_net s ! i) b \<longrightarrow> bit (ip ! i) b = bit (local_ip s ! i) b
     then ip else local_gate s)"
proof -
  have "ip ! i AND local_net s ! i = local_ip s ! i AND local_net s ! i \<longleftrightarrow>
      (\<forall>b < 8. bit (local_net s ! i) b \<longrightarrow> bit (ip ! i) b = bit (local_ip s ! i) b)" for i
    by (auto simp: bit_eq_iff bit_simps)
  then show ?thesis by (simp add: get_effective_ip_def list_all_iff atLeast0LessThan Ball_def del: all_below)
qed

lemma next_hop_witness:
  "get_effective_ip (node 0 [2, 0, 0, 0, 0, 2] [192, 168, 0, 2] []) [192, 168, 0, 9] = [192, 168, 0, 9] \<and>
   get_effective_ip (node 0 [2, 0, 0, 0, 0, 2] [192, 168, 0, 2] []) [192, 168, 1, 9] = [192, 168, 0, 1]"
proof -
  have "\<exists>b < 8. bit (255 :: u8) b \<and> bit (1 :: u8) b" by (intro exI [of _ 0]) simp
  then show ?thesis unfolding next_hop by (simp add: node_def)
qed

end
