(* ===== verification/Unet.thy ===== *)
theory Unet
  imports Edit
begin

section \<open>The network program (source/programs/unet.c)\<close>

text \<open>
  The program \<open>unet\<close>: it receives or sends one datagram, or chats. Its buffers and addresses are variables on its
  stack, at the near addresses in \<open>unet_env\<close>; the addresses of the two hosts lie at \<open>dst_var\<close> and \<open>src_var\<close>. The loop of the
  chat ends when the escape key is pressed, so it is a partial function.
\<close>

record unet_env =
  un_prog :: program
  un_argv :: "u16 list"
  dst_var :: u16
  src_var :: u16
  buff_var :: u16
  send_var :: u16

definition un_ptr :: "unet_env \<Rightarrow> u16 \<Rightarrow> u32" where "un_ptr v p = lp (seg (un_prog v)) p"

definition un_string :: "unet_env \<Rightarrow> fmem \<Rightarrow> u16 \<Rightarrow> u8 list" where
  "un_string v m p = near_string (un_prog v) m p"

definition un_arg :: "unet_env \<Rightarrow> fmem \<Rightarrow> nat \<Rightarrow> u8 list" where
  "un_arg v m i = un_string v m (un_argv v ! i)"

definition un_print :: "unet_env \<Rightarrow> u8 list \<Rightarrow> u16 list \<Rightarrow> unit kernelm" where
  "un_print v fmt ws = nbind (nget far) (\<lambda>m.
     put_string (un_prog v) (un_string v m) fmt (\<lambda>i. if i < length ws then ws ! i else 0))"

definition un_tell :: "unet_env \<Rightarrow> string \<Rightarrow> u16 list \<Rightarrow> unit kernelm" where
  "un_tell v text ws = un_print v (bytes text @ [10, 13]) ws"

text \<open>The four bytes of an address as arguments of a format.\<close>

definition ip_words :: "unet_env \<Rightarrow> fmem \<Rightarrow> u16 \<Rightarrow> u16 list" where
  "ip_words v m p = map ucast (fget m (un_ptr v p) 4)"

definition parse_ip :: "unet_env \<Rightarrow> unit kernelm" where
  "parse_ip v = nbind (nget far) (\<lambda>m.
     put_far (un_ptr v (dst_var v)) (str_to_ip (fget m (un_ptr v (dst_var v)) 4) (un_arg v m 2)))"

subsection \<open>Receiving and sending\<close>

definition unet_recv :: "unet_env \<Rightarrow> u16 kernelm" where
  "unet_recv v =
     nbind (recv (un_prog v) (src_var v) (buff_var v) 64) (\<lambda>res.
     nbind (if res = 0 then un_tell v ''Buffer is empty'' []
            else nbind (put_far (un_ptr v (buff_var v + res)) [0]) (\<lambda>_.
                 nbind (nget far) (\<lambda>m.
                 un_tell v ''Received %s from %u.%u.%u.%u'' (buff_var v # ip_words v m (src_var v))))) (\<lambda>_.
     nret res))"

definition unet_send :: "unet_env \<Rightarrow> u16 kernelm" where
  "unet_send v =
     nbind (parse_ip v) (\<lambda>_.
     nbind (nget (\<lambda>s. strlen (un_arg v (far s) 3))) (\<lambda>n.
     nbind (send (un_prog v) (dst_var v) (un_argv v ! 3) n) (\<lambda>res.
     nbind (nget far) (\<lambda>m.
     nbind (if res = 0 then un_tell v ''Sent %s to %u.%u.%u.%u'' (un_argv v ! 3 # ip_words v m (dst_var v))
            else un_tell v ''Failed to send'' []) (\<lambda>_.
     nret res)))))"

subsection \<open>Chat\<close>

definition clear_send :: "unet_env \<Rightarrow> unit kernelm" where
  "clear_send v = put_far (un_ptr v (send_var v)) (replicate 256 0)"

definition send_length :: "unet_env \<Rightarrow> fmem \<Rightarrow> u16" where
  "send_length v m = strlen (un_string v m (send_var v))"

text \<open>A datagram that has arrived from the other side is shown.\<close>

definition chat_receive :: "unet_env \<Rightarrow> u16 kernelm" where
  "chat_receive v =
     nbind (recv (un_prog v) (src_var v) (buff_var v) 256) (\<lambda>res.
     nbind (nget far) (\<lambda>m.
     nbind (if res \<noteq> 0 \<and> fget m (un_ptr v (src_var v)) 4 = fget m (un_ptr v (dst_var v)) 4
            then un_print v ([13] @ bytes ''%d.%d.%d.%d: %s'' @ [10, 13]) (ip_words v m (dst_var v) @ [buff_var v])
            else nret ()) (\<lambda>_.
     nret res)))"

definition chat_send :: "unet_env \<Rightarrow> u16 kernelm" where
  "chat_send v =
     nbind (nget (\<lambda>s. send_length v (far s))) (\<lambda>n.
     nbind (send (un_prog v) (dst_var v) (send_var v) n) (\<lambda>res.
     nbind (if res = 0 then un_print v ([13] @ bytes ''local: %s'' @ [10, 13]) [send_var v]
            else un_print v ([13] @ bytes ''Failed to send'' @ [10, 13]) []) (\<lambda>_.
     nbind (clear_send v) (\<lambda>_. nret res))))"

definition chat_set :: "unet_env \<Rightarrow> u16 \<Rightarrow> u8 \<Rightarrow> unit kernelm" where
  "chat_set v i c = put_far (un_ptr v (send_var v + i)) [c]"

definition chat_backspace :: "unet_env \<Rightarrow> unit kernelm" where
  "chat_backspace v = nbind (nget (\<lambda>s. send_length v (far s))) (\<lambda>n.
     nbind (chat_set v (n - 1) 0) (\<lambda>_. un_print v ([13] @ bytes '' '' @ [13] @ bytes ''%s'') [send_var v]))"

definition chat_append :: "unet_env \<Rightarrow> u16 \<Rightarrow> unit kernelm" where
  "chat_append v k = nbind (nget (\<lambda>s. send_length v (far s))) (\<lambda>n.
     nbind (chat_set v (if 256 < n then 256 else n) (getLO k)) (\<lambda>_. un_print v ([13] @ bytes ''%s'') [send_var v]))"

text \<open>A key other than escape; \<open>res\<close> is the last result of the network.\<close>

definition chat_key :: "unet_env \<Rightarrow> u16 \<Rightarrow> u16 \<Rightarrow> u16 kernelm" where
  "chat_key v k res = nbind (nget (\<lambda>s. send_length v (far s))) (\<lambda>n.
     if k = KEY_RETURN then chat_send v
     else if (k = KEY_BACKSPACE \<or> k = KEY_DEL) \<and> n > 0 then nbind (chat_backspace v) (\<lambda>_. nret res)
     else if k \<ge> 0x20 \<and> k \<le> 0x7D then nbind (chat_append v k) (\<lambda>_. nret res)
     else nret res)"

partial_function (option) chat_loop :: "unet_env \<Rightarrow> kernel \<Rightarrow> (u16 \<times> kernel) option" where
  "chat_loop v s =
     nbind (chat_receive v) (\<lambda>res.
     nbind (getkey (un_prog v) KM_NO_WAIT) (\<lambda>k s.
       if k = KEY_ESC then nret res s
       else nbind (chat_key v k res) (\<lambda>_ s. chat_loop v s) s)) s"

definition unet_chat :: "unet_env \<Rightarrow> u16 kernelm" where
  "unet_chat v =
     nbind (clear_send v) (\<lambda>_.
     nbind (parse_ip v) (\<lambda>_.
     nbind (nget far) (\<lambda>m.
     nbind (un_tell v ''Chat with %u.%u.%u.%u. Press ESC to exit'' (ip_words v m (dst_var v))) (\<lambda>_.
     nbind (\<lambda>s. chat_loop v s) (\<lambda>res.
     nbind (un_tell v ''-ESC-'' []) (\<lambda>_. nret res))))))"

definition unet_main :: "unet_env \<Rightarrow> u16 kernelm" where
  "unet_main v = nbind (nget far) (\<lambda>m.
     let argc = length (un_argv v); cmd = un_arg v m 1
     in if argc = 2 \<and> strcmp cmd (bytes ''recv'') = 0 then unet_recv v
        else if argc = 4 \<and> strcmp cmd (bytes ''send'') = 0 then unet_send v
        else if argc = 3 \<and> strcmp cmd (bytes ''chat'') = 0 then unet_chat v
        else nbind (un_tell v ''usage: %s <send <dst_ip> <word> | recv | chat <dst_ip>>'' [un_argv v ! 0]) (\<lambda>_. nret 0))"

subsection \<open>The buffer of the chat\<close>

text \<open>
  When the buffer of 256 bytes is full of characters, the next one is stored behind it.
\<close>

lemma chat_append_behind:
  assumes "256 \<le> send_length v (far s)"
  shows "chat_append v k s = nbind (chat_set v 256 (getLO k)) (\<lambda>_. un_print v ([13] @ bytes ''%s'') [send_var v]) s"
proof -
  have "(if 256 < send_length v (far s) then 256 else send_length v (far s)) = 256" using assms by auto
  then show ?thesis by (simp add: chat_append_def nbind_def)
qed

end
