(* ===== verification/Video_Picture.thy ===== *)
theory Video_Picture
  imports Video Byte_Order
begin

section \<open>What the graphics screen shows\<close>

text \<open>
  The memory of the adapter as one array (\<open>fb\<close>), the picture the user sees without the cursor, and the effect of
  the operations of \<open>Video\<close> on them. \<open>vesa_adapter\<close> is the documented behaviour of a banked adapter with two
  megabytes. Every loop over pixels is an instance of \<open>paint\<close>, where the colour is a function of the place.
\<close>

definition vesa_adapter :: "'d adapter \<Rightarrow> ('d \<Rightarrow> u32) \<Rightarrow> ('d \<Rightarrow> u32 \<Rightarrow> u8) \<Rightarrow> bool" where
  "vesa_adapter A bank mem \<longleftrightarrow>
     (\<forall>d n. n < 0x20 \<longrightarrow> bank (io_set_vesa_bank A n d) = n \<and> mem (io_set_vesa_bank A n d) = mem d) \<and>
     (\<forall>d a. bank d < 0x20 \<longrightarrow> window_byte A d a = mem d (bank d * VESA_BANK_SIZE + ucast a)) \<and>
     (\<forall>d a b. bank d < 0x20 \<longrightarrow> bank (set_window_byte A a b d) = bank d \<and>
        mem (set_window_byte A a b d) = (mem d)(bank d * VESA_BANK_SIZE + ucast a := b)) \<and>
     (\<forall>d y. bank (set_display_start A y d) = bank d \<and> mem (set_display_start A y d) = mem d)"

lemma vesa_adapterD:
  assumes "vesa_adapter A bank mem"
  shows "n < 0x20 \<Longrightarrow> bank (io_set_vesa_bank A n d) = n" "n < 0x20 \<Longrightarrow> mem (io_set_vesa_bank A n d) = mem d"
    "bank d < 0x20 \<Longrightarrow> window_byte A d a = mem d (bank d * VESA_BANK_SIZE + ucast a)"
    "bank d < 0x20 \<Longrightarrow> bank (set_window_byte A a b d) = bank d"
    "bank d < 0x20 \<Longrightarrow> mem (set_window_byte A a b d) = (mem d)(bank d * VESA_BANK_SIZE + ucast a := b)"
    "bank (set_display_start A y d) = bank d" "mem (set_display_start A y d) = mem d"
  using assms by (simp_all add: vesa_adapter_def)

text \<open>The screen in the mode the code sets, with the adapter showing the bank the code remembers.\<close>

definition screen_ok :: "'d adapter \<Rightarrow> ('d \<Rightarrow> u32) \<Rightarrow> ('d \<Rightarrow> u32 \<Rightarrow> u8) \<Rightarrow> 'd video \<Rightarrow> bool" where
  "screen_ok A bank mem v \<longleftrightarrow> vesa_adapter A bank mem \<and> bank (card v) = current_bank v \<and> current_bank v < 0x20 \<and>
     width_px v = 800 \<and> height_px v = 600 \<and> width_c v = 100 \<and> height_c v = 75 \<and> video_font_h v = 8 \<and>
     video_window_y v \<le> 1208 \<and> length (cursor_buff v) = 6"

definition place :: "nat \<Rightarrow> nat \<Rightarrow> u32" where
  "place x r = of_nat (x + 800 * r)"

definition fb :: "('d \<Rightarrow> u32 \<Rightarrow> u8) \<Rightarrow> 'd video \<Rightarrow> nat \<Rightarrow> nat \<Rightarrow> u8" where
  "fb mem v x r = mem (card v) (place x r)"

definition window :: "'d video \<Rightarrow> nat" where
  "window v = unat (video_window_y v)"

text \<open>All of the state that drawing leaves alone.\<close>

definition frozen :: "'d video \<Rightarrow> 'd video" where
  "frozen v = v\<lparr>card := undefined, current_bank := 0, cursor_buff := []\<rparr>"

lemma frozenD:
  assumes "frozen v' = frozen v"
  shows "video_font_h v' = video_font_h v" "video_window_y v' = video_window_y v" "cursor_col v' = cursor_col v"
    "cursor_row v' = cursor_row v" "cursor_shown v' = cursor_shown v" "cursor_buff_x v' = cursor_buff_x v"
    "cursor_buff_y v' = cursor_buff_y v" "cursor_blink_state v' = cursor_blink_state v"
    "cursor_blink_timer v' = cursor_blink_timer v" "BIOS_font v' = BIOS_font v"
    "BIOS_font_offset v' = BIOS_font_offset v" "width_c v' = width_c v" "height_c v' = height_c v"
    "width_px v' = width_px v" "height_px v' = height_px v" "rom v' = rom v" "vheap v' = vheap v"
    "vheap_addr v' = vheap_addr v" "window v' = window v" "behind_cursor v' = behind_cursor v"
proof -
  show g1: "video_font_h v' = video_font_h v" "video_window_y v' = video_window_y v" "cursor_col v' = cursor_col v"
    "cursor_row v' = cursor_row v" "cursor_shown v' = cursor_shown v" "cursor_buff_x v' = cursor_buff_x v"
    "cursor_buff_y v' = cursor_buff_y v" "cursor_blink_state v' = cursor_blink_state v"
    "cursor_blink_timer v' = cursor_blink_timer v" "BIOS_font v' = BIOS_font v"
    "BIOS_font_offset v' = BIOS_font_offset v" "width_c v' = width_c v" "height_c v' = height_c v"
    "width_px v' = width_px v" "height_px v' = height_px v" "rom v' = rom v" "vheap v' = vheap v"
    "vheap_addr v' = vheap_addr v"
    using assms by (cases v; cases v'; simp add: frozen_def)+
  show "window v' = window v" by (simp add: window_def g1)
  show "behind_cursor v' = behind_cursor v" by (simp add: behind_cursor_def g1 fun_eq_iff)
qed

lemma screen_ok_frozen:
  assumes "screen_ok A bank mem v" "frozen v' = frozen v" "bank (card v') = current_bank v'" "current_bank v' < 0x20"
    "length (cursor_buff v') = 6"
  shows "screen_ok A bank mem v'"
  using assms(1,3-5) unfolding screen_ok_def by (simp add: frozenD [OF assms(2)])

subsection \<open>One pixel\<close>

lemma pixel_place:
  fixes x y w :: u16
  assumes "unat y + unat w \<le> 2000"
  shows "unat (ucast x + ucast (800 :: u16) * ucast (y + w) :: u32) = unat x + 800 * (unat y + unat w)"
proof -
  have yw: "unat (y + w) = unat y + unat w" using assms by (intro unat_plus_u16) simp
  have m: "unat ((800 :: u32) * ucast (y + w)) = 800 * (unat y + unat w)"
    using assms by (simp add: unat_word_ariths yw)
  show ?thesis using assms unat_u16_lt [of x] m by (simp add: unat_word_ariths)
qed

lemma bank_split:
  fixes a :: u32
  shows "a div 0x10000 * 0x10000 + ucast (ucast (a mod 0x10000) :: u16) = a"
proof -
  have "unat (ucast (a mod 0x10000) :: u16) = unat a mod 65536"
    by (simp add: unsigned_ucast_eq unat_word_ariths take_bit_eq_mod unat_mod_distrib)
  then have "unat (a div 0x10000 * 0x10000 + ucast (ucast (a mod 0x10000) :: u16)) = unat a"
    using unat_u32_lt [of a] by (simp add: unat_word_ariths unat_div_distrib)
  then show ?thesis by (simp only: word_unat_eq_iff)
qed

lemma bank_small: "unat (a :: u32) < 2097152 \<Longrightarrow> a div 0x10000 < 0x20"
  by (simp add: word_less_nat_alt unat_div_distrib)

lemma select_bank:
  assumes "screen_ok A bank mem v" "n < 0x20"
  defines "v' \<equiv> select_bank A n v"
  shows "mem (card v') = mem (card v)" "bank (card v') = n" "current_bank v' = n" "frozen v' = frozen v"
    "cursor_buff v' = cursor_buff v" "screen_ok A bank mem v'"
proof -
  have vesa: "vesa_adapter A bank mem" and b: "bank (card v) = current_bank v" "length (cursor_buff v) = 6"
    using assms(1) by (simp_all add: screen_ok_def)
  note [simp] = vesa_adapterD [OF vesa]
  show m: "mem (card v') = mem (card v)" "bank (card v') = n" "current_bank v' = n" and f: "frozen v' = frozen v"
    and c: "cursor_buff v' = cursor_buff v"
    using assms(2) b by (simp_all add: v'_def select_bank_def frozen_def)
  show "screen_ok A bank mem v'" by (rule screen_ok_frozen [OF assms(1) f]) (simp_all add: m c assms(2) b)
qed

lemma pixel_addr_bank:
  assumes "screen_ok A bank mem v" "unat y + window v \<le> 2000"
  shows "pixel_addr v x y div VESA_BANK_SIZE < 0x20"
    "pixel_addr v x y = place (unat x) (unat y + window v)"
proof -
  have u: "unat (pixel_addr v x y) = unat x + 800 * (unat y + window v)"
    using assms pixel_place [of y "video_window_y v" x] by (simp add: pixel_addr_def screen_ok_def window_def)
  show "pixel_addr v x y div VESA_BANK_SIZE < 0x20"
    using assms(2) unat_u16_lt [of x] by (simp add: bank_small u)
  show "pixel_addr v x y = place (unat x) (unat y + window v)"
    unfolding u [symmetric] place_def by simp
qed

lemma set_cursor_pixel_mem:
  fixes v :: "'d video" and x y c :: u16
  assumes "screen_ok A bank mem v" "unat y + window v \<le> 2000"
  defines "v' \<equiv> set_cursor_pixel A x y c v"
  shows "mem (card v') = (mem (card v))(place (unat x) (unat y + window v) := ucast c)"
    "frozen v' = frozen v" "cursor_buff v' = cursor_buff v" "screen_ok A bank mem v'"
proof -
  have vesa: "vesa_adapter A bank mem" using assms(1) by (simp add: screen_ok_def)
  define n where "n = pixel_addr v x y div VESA_BANK_SIZE"
  have n: "n < 0x20" using pixel_addr_bank [OF assms(1,2)] by (simp add: n_def)
  note s = select_bank [OF assms(1) n]
  have e: "n * VESA_BANK_SIZE + ucast (ucast (pixel_addr v x y mod VESA_BANK_SIZE) :: u16)
      = place (unat x) (unat y + window v)"
    using pixel_addr_bank(2) [OF assms(1,2)] by (simp add: n_def bank_split)
  have v': "v' = (select_bank A n v)\<lparr>card := set_window_byte A (ucast (pixel_addr v x y mod VESA_BANK_SIZE)) (ucast c)
      (card (select_bank A n v))\<rparr>"
    by (simp add: v'_def set_cursor_pixel_def Let_def n_def)
  show m: "mem (card v') = (mem (card v))(place (unat x) (unat y + window v) := ucast c)"
    using n by (simp add: v' vesa_adapterD [OF vesa] s e [simplified])
  have [simp]: "bank (card v') = n" "current_bank v' = n" using s n by (simp_all add: v' vesa_adapterD [OF vesa])
  show f: "frozen v' = frozen v" using s(4) by (simp add: v' frozen_def)
  show c: "cursor_buff v' = cursor_buff v" using s by (simp add: v')
  show "screen_ok A bank mem v'"
    by (rule screen_ok_frozen [OF assms(1) f]) (use assms(1) n in \<open>simp_all add: c, simp add: screen_ok_def\<close>)
qed

lemma place_inj:
  assumes "x < 800" "x' < 800" "r \<le> 2000" "r' \<le> 2000"
  shows "place x r = place x' r' \<longleftrightarrow> x = x' \<and> r = r'"
proof
  assume a: "place x r = place x' r'"
  have "x + 800 * r < 4294967296" "x' + 800 * r' < 4294967296" using assms by simp_all
  then have e: "x + 800 * r = x' + 800 * r'"
    using arg_cong [OF a, of unat] unfolding place_def by (simp only: unat_of_nat_u32)
  show "x = x' \<and> r = r'"
    using arg_cong [OF e, of "\<lambda>n. n mod 800"] arg_cong [OF e, of "\<lambda>n. n div 800"] assms(1,2) by simp
qed simp

lemma set_cursor_pixel_fb:
  assumes "screen_ok A bank mem v" "unat y + window v \<le> 2000" "unat x < 800" "x' < 800" "r' \<le> 2000"
  shows "fb mem (set_cursor_pixel A x y c v) x' r' =
    (if x' = unat x \<and> r' = unat y + window v then ucast c else fb mem v x' r')"
  using place_inj [OF assms(4,3,5,2)]
  by (simp add: fb_def set_cursor_pixel_mem [OF assms(1,2)])

subsection \<open>Pixels behind the cursor\<close>

definition cx :: "'d video \<Rightarrow> nat" where "cx v = unat (cursor_buff_x v)"
definition cy :: "'d video \<Rightarrow> nat" where "cy v = unat (cursor_buff_y v)"

lemma frozen_place:
  assumes "frozen v' = frozen v"
  shows "cx v' = cx v" "cy v' = cy v"
  by (simp_all add: cx_def cy_def frozenD [OF assms])

lemma behind_iff:
  assumes "cx v \<le> 60000"
  shows "behind_cursor v x y \<longleftrightarrow> cursor_shown v \<noteq> 0 \<and> cx v \<le> unat x \<and> unat x < cx v + 6 \<and> unat y = cy v"
proof -
  have "unat (6 + cursor_buff_x v) = cx v + 6" using assms by (simp add: cx_def unat_word_ariths)
  then show ?thesis
    by (simp add: behind_cursor_def cx_def cy_def word_le_nat_alt word_less_nat_alt word_unat_eq_iff)
qed

lemma behind_offset:
  assumes "cx v \<le> unat x"
  shows "unat (x - cursor_buff_x v) = unat x - cx v"
  using assms by (simp add: cx_def unat_sub word_le_nat_alt)

lemma video_set_pixel_parts:
  fixes v :: "'d video" and x y c :: u16
  assumes "screen_ok A bank mem v"
  defines "u \<equiv> (if behind_cursor v x y
      then v\<lparr>cursor_buff := (cursor_buff v)[unat (x - cursor_buff_x v) := ucast c]\<rparr> else v)"
  shows "video_set_pixel A x y c v = set_cursor_pixel A x y c u" "screen_ok A bank mem u"
    "frozen u = frozen v" "card u = card v" "window u = window v"
proof -
  show "video_set_pixel A x y c v = set_cursor_pixel A x y c u"
    by (simp add: u_def video_set_pixel_def set_cursor_pixel_def Let_def pixel_addr_def)
  show f: "frozen u = frozen v" and "card u = card v" "window u = window v"
    by (simp_all add: u_def frozen_def window_def)
  show "screen_ok A bank mem u"
    by (rule screen_ok_frozen [OF assms(1) f]) (use assms(1) in \<open>simp_all add: u_def screen_ok_def\<close>)
qed

lemma video_set_pixel:
  fixes v :: "'d video" and x y c :: u16
  assumes "screen_ok A bank mem v" "unat y + window v \<le> 2000"
  defines "v' \<equiv> video_set_pixel A x y c v"
  shows "frozen v' = frozen v" "screen_ok A bank mem v'"
    "\<lbrakk> unat x < 800; x' < 800; r' \<le> 2000 \<rbrakk> \<Longrightarrow> fb mem v' x' r' =
      (if x' = unat x \<and> r' = unat y + window v then ucast c else fb mem v x' r')"
    "\<lbrakk> cx v \<le> 60000; k < 6 \<rbrakk> \<Longrightarrow> cursor_buff v' ! k =
      (if cursor_shown v \<noteq> 0 \<and> unat x = cx v + k \<and> unat y = cy v then ucast c else cursor_buff v ! k)"
proof -
  define u where "u = (if behind_cursor v x y
      then v\<lparr>cursor_buff := (cursor_buff v)[unat (x - cursor_buff_x v) := ucast c]\<rparr> else v)"
  note p = video_set_pixel_parts [OF assms(1), of x y c, folded u_def]
  have w: "unat y + window u \<le> 2000" using assms(2) p by simp
  note s = set_cursor_pixel_mem [OF p(2) w, of x c]
  show "frozen v' = frozen v" "screen_ok A bank mem v'" using s p by (simp_all add: v'_def)
  show "fb mem v' x' r' = (if x' = unat x \<and> r' = unat y + window v then ucast c else fb mem v x' r')"
    if "unat x < 800" "x' < 800" "r' \<le> 2000"
    using set_cursor_pixel_fb [OF p(2) w that, of c] by (simp add: v'_def p) (simp add: fb_def p)
  show "cursor_buff v' ! k =
      (if cursor_shown v \<noteq> 0 \<and> unat x = cx v + k \<and> unat y = cy v then ucast c else cursor_buff v ! k)"
    if k: "cx v \<le> 60000" "k < 6"
  proof -
    have l: "length (cursor_buff v) = 6" using assms(1) by (simp add: screen_ok_def)
    have "cursor_buff v' = cursor_buff u" by (simp add: v'_def p s)
    then show ?thesis using k l by (auto simp: u_def behind_iff behind_offset nth_list_update)
  qed
qed

lemma get_pixel:
  fixes v :: "'d video" and x y :: u16
  assumes "screen_ok A bank mem v" "unat y + window v \<le> 2000" "b \<Longrightarrow> \<not> behind_cursor v x y"
  obtains v' where "get_pixel A x y b v = (ucast (fb mem v (unat x) (unat y + window v)), v')"
    "frozen v' = frozen v" "screen_ok A bank mem v'" "cursor_buff v' = cursor_buff v" "fb mem v' = fb mem v"
proof -
  have vesa: "vesa_adapter A bank mem" using assms(1) by (simp add: screen_ok_def)
  define n where "n = pixel_addr v x y div VESA_BANK_SIZE"
  have n: "n < 0x20" using pixel_addr_bank [OF assms(1,2)] by (simp add: n_def)
  note s = select_bank [OF assms(1) n]
  have e: "n * VESA_BANK_SIZE + ucast (ucast (pixel_addr v x y mod VESA_BANK_SIZE) :: u16)
      = place (unat x) (unat y + window v)"
    using pixel_addr_bank(2) [OF assms(1,2)] by (simp add: n_def bank_split)
  have "get_pixel A x y b v = (ucast (fb mem v (unat x) (unat y + window v)), select_bank A n v)"
    using n assms(3) by (auto simp: get_pixel_def Let_def n_def [symmetric, unfolded VESA_BANK_SIZE_def] vesa_adapterD [OF vesa] s e [simplified] fb_def)
  moreover have "fb mem (select_bank A n v) = fb mem v" by (simp add: fun_eq_iff fb_def s)
  ultimately show ?thesis using s that by blast
qed

subsection \<open>Painting\<close>

text \<open>
  Pixels set one after the other, in colours that depend on the place only, show on the painted places and
  nowhere else, in the memory and in the pixels kept for the cursor.
\<close>

definition painted :: "(nat \<Rightarrow> nat \<Rightarrow> bool) \<Rightarrow> (nat \<Rightarrow> nat \<Rightarrow> u8) \<Rightarrow> ('d \<Rightarrow> u32 \<Rightarrow> u8) \<Rightarrow> 'd video \<Rightarrow> 'd video \<Rightarrow> bool" where
  "painted P K mem v v' \<longleftrightarrow> frozen v' = frozen v \<and>
     (\<forall>x < 800. \<forall>r \<le> 2000. fb mem v' x r =
        (if r \<ge> window v \<and> P x (r - window v) then K x (r - window v) else fb mem v x r)) \<and>
     (\<forall>k < 6. cursor_buff v' ! k =
        (if cursor_shown v \<noteq> 0 \<and> P (cx v + k) (cy v) then K (cx v + k) (cy v) else cursor_buff v ! k))"

lemma painted_refl [simp]: "painted (\<lambda>x y. False) K mem v v"
  by (simp add: painted_def)

lemma paintedD:
  assumes "painted P K mem v v'"
  shows "frozen v' = frozen v"
    "x < 800 \<Longrightarrow> r \<le> 2000 \<Longrightarrow> fb mem v' x r =
        (if r \<ge> window v \<and> P x (r - window v) then K x (r - window v) else fb mem v x r)"
    "k < 6 \<Longrightarrow> cursor_buff v' ! k =
        (if cursor_shown v \<noteq> 0 \<and> P (cx v + k) (cy v) then K (cx v + k) (cy v) else cursor_buff v ! k)"
  using assms by (simp_all add: painted_def)

lemma painted_trans:
  assumes "painted P K mem v u" "painted Q K mem u v'"
  shows "painted (\<lambda>x y. P x y \<or> Q x y) K mem v v'"
  using assms(2) paintedD [OF assms(1)] frozenD [OF paintedD(1) [OF assms(1)]]
    frozen_place [OF paintedD(1) [OF assms(1)]] unfolding painted_def by auto

lemma painted_cong:
  assumes "painted P K mem v v'" "\<And>x y. P x y \<longleftrightarrow> Q x y" "\<And>x y. P x y \<Longrightarrow> K x y = L x y"
  shows "painted Q L mem v v'"
  using assms(1,3) unfolding painted_def assms(2) [symmetric] by auto

lemma painted_pixel:
  assumes "screen_ok A bank mem v" "unat y + window v \<le> 2000" "unat x < 800" "cx v \<le> 60000"
    "K (unat x) (unat y) = ucast c"
  shows "painted (\<lambda>x' y'. x' = unat x \<and> y' = unat y) K mem v (video_set_pixel A x y c v)"
  using assms(5) by (auto simp: painted_def video_set_pixel [OF assms(1,2)] assms(3,4))

lemma paint_fold:
  assumes "screen_ok A bank mem v"
    and step: "\<And>i v. \<lbrakk> i \<in> set is; screen_ok A bank mem v; frozen v = frozen v0 \<rbrakk> \<Longrightarrow>
      screen_ok A bank mem (f i v) \<and> painted (P i) K mem v (f i v)"
    and "frozen v = frozen v0"
  shows "screen_ok A bank mem (fold f is v) \<and> painted (\<lambda>x y. \<exists>i \<in> set is. P i x y) K mem v (fold f is v)"
  using assms
proof (induction "is" arbitrary: v)
  case (Cons i "is")
  have s: "screen_ok A bank mem (f i v)" "painted (P i) K mem v (f i v)" using Cons.prems by simp_all
  have "frozen (f i v) = frozen v0" using paintedD(1) [OF s(2)] Cons.prems(3) by simp
  then have "screen_ok A bank mem (fold f is (f i v))"
    "painted (\<lambda>x y. \<exists>i \<in> set is. P i x y) K mem (f i v) (fold f is (f i v))"
    using Cons.IH [OF s(1)] Cons.prems(2) by simp_all
  then show ?case using painted_trans [OF s(2)] by simp
qed simp

subsection \<open>The buffer behind the cursor\<close>

lemma ucast_u8_u16_u8 [simp]: "(ucast (ucast (x :: u8) :: u16) :: u8) = x"
  by (intro bit_word_eqI) (auto simp: bit_simps)

lemma cursor_pixel:
  assumes "cx v + k \<le> 60000"
  shows "unat (cursor_buff_x v + of_nat k) = cx v + k"
  using assms by (simp add: cx_def unat_plus_u16 unat_of_nat_u16)

lemma screen_ok_length: "screen_ok A bank mem v \<Longrightarrow> length (cursor_buff v) = 6"
  by (simp add: screen_ok_def)

lemma update_cursor_buffer:
  fixes v :: "'d video"
  assumes "screen_ok A bank mem v" "cx v \<le> 50000" "cy v + window v \<le> 2000"
  defines "v' \<equiv> update_cursor_buffer A v"
  shows "frozen v' = frozen v" "screen_ok A bank mem v'" "fb mem v' = fb mem v"
    "k < 6 \<Longrightarrow> cursor_buff v' ! k = fb mem v (cx v + k) (cy v + window v)"
proof -
  define step where "step = (\<lambda>i (v :: 'd video). let (p, v) = get_pixel A (cursor_buff_x v + of_nat i) (cursor_buff_y v) False v
     in v\<lparr>cursor_buff := (cursor_buff v)[i := ucast p]\<rparr>)"
  have "frozen (fold step [0 ..< n] v) = frozen v \<and> screen_ok A bank mem (fold step [0 ..< n] v) \<and>
     fb mem (fold step [0 ..< n] v) = fb mem v \<and>
     (\<forall>k < n. cursor_buff (fold step [0 ..< n] v) ! k = fb mem v (cx v + k) (cy v + window v))" if "n \<le> 6" for n
    using that
  proof (induction n)
    case (Suc n)
    define u where "u = fold step [0 ..< n] v"
    have u: "frozen u = frozen v" "screen_ok A bank mem u" "fb mem u = fb mem v"
      "\<forall>k < n. cursor_buff u ! k = fb mem v (cx v + k) (cy v + window v)"
      using Suc by (simp_all add: u_def)
    note f = frozenD [OF u(1)] frozen_place [OF u(1)]
    have y: "unat (cursor_buff_y u) + window u \<le> 2000" using assms(3) by (simp add: f cy_def)
    have x: "unat (cursor_buff_x u + of_nat n) = cx v + n"
      using cursor_pixel [of v n] assms(2) Suc.prems by (simp add: f)
    obtain w where w: "get_pixel A (cursor_buff_x u + of_nat n) (cursor_buff_y u) False u
        = (ucast (fb mem v (cx v + n) (cy v + window v)), w)"
      "frozen w = frozen u" "screen_ok A bank mem w" "cursor_buff w = cursor_buff u" "fb mem w = fb mem u"
      using get_pixel [OF u(2) y, of False "cursor_buff_x u + of_nat n"] x by (auto simp: f u(3) cy_def)
    have l: "length (cursor_buff u) = 6" by (rule screen_ok_length [OF u(2)])
    define z where "z = w\<lparr>cursor_buff := (cursor_buff w)[n := fb mem v (cx v + n) (cy v + window v)]\<rparr>"
    have "fold step [0 ..< Suc n] v = step n u" by (simp add: u_def)
    also have "\<dots> = z" by (simp add: step_def w(1) z_def)
    finally have z: "fold step [0 ..< Suc n] v = z" .
    have "frozen z = frozen w" "fb mem z = fb mem w" by (simp_all add: z_def frozen_def fb_def fun_eq_iff)
    moreover have "screen_ok A bank mem z" using w(3) by (simp add: z_def screen_ok_def)
    moreover have "\<forall>k < Suc n. cursor_buff z ! k = fb mem v (cx v + k) (cy v + window v)"
      using u(4) l Suc.prems by (simp add: z_def w(4) nth_list_update less_Suc_eq)
    ultimately show ?case unfolding z by (simp add: w u)
  qed (simp add: assms(1))
  moreover have v': "v' = fold step [0 ..< 6] v" unfolding v'_def update_cursor_buffer_def step_def by simp
  ultimately show "frozen v' = frozen v" "screen_ok A bank mem v'" "fb mem v' = fb mem v"
    "k < 6 \<Longrightarrow> cursor_buff v' ! k = fb mem v (cx v + k) (cy v + window v)"
    unfolding v' by auto
qed

lemma draw_cursor_buffer:
  fixes v :: "'d video"
  assumes "screen_ok A bank mem v" "cx v + 6 \<le> 800" "cy v + window v \<le> 2000"
  defines "v' \<equiv> draw_cursor_buffer A v"
  shows "screen_ok A bank mem v'" "painted (\<lambda>x y. cx v \<le> x \<and> x < cx v + 6 \<and> y = cy v)
      (\<lambda>x y. cursor_buff v ! (x - cx v)) mem v v'"
proof -
  define step where "step = (\<lambda>i (v :: 'd video). video_set_pixel A (cursor_buff_x v + of_nat i) (cursor_buff_y v)
     (ucast (cursor_buff v ! i)) v)"
  define K where "K = (\<lambda>x (y :: nat). cursor_buff v ! (x - cx v))"
  have "screen_ok A bank mem (fold step [0 ..< n] v) \<and>
     painted (\<lambda>x y. cx v \<le> x \<and> x < cx v + n \<and> y = cy v) K mem v (fold step [0 ..< n] v)" if "n \<le> 6" for n
    using that
  proof (induction n)
    case 0
    have "painted (\<lambda>x y. cx v \<le> x \<and> x < cx v + 0 \<and> y = cy v) K mem v v"
      by (rule painted_cong [OF painted_refl]) auto
    then show ?case using assms(1) by simp
  next
    case (Suc n)
    define u where "u = fold step [0 ..< n] v"
    have u: "screen_ok A bank mem u" "painted (\<lambda>x y. cx v \<le> x \<and> x < cx v + n \<and> y = cy v) K mem v u"
      using Suc by (simp_all add: u_def)
    note f = frozenD [OF paintedD(1) [OF u(2)]] frozen_place [OF paintedD(1) [OF u(2)]]
    have b: "cursor_buff u ! n = cursor_buff v ! n" using Suc.prems paintedD(3) [OF u(2)] by (simp add: K_def)
    have y: "unat (cursor_buff_y u) + window u \<le> 2000" using assms(3) by (simp add: f cy_def)
    have x: "unat (cursor_buff_x u + of_nat n) = cx v + n"
      using cursor_pixel [of v n] assms(2) Suc.prems by (simp add: f)
    have z: "fold step [0 ..< Suc n] v = step n u" by (simp add: u_def)
    have "screen_ok A bank mem (step n u)" by (simp add: step_def video_set_pixel(2) [OF u(1) y])
    moreover have "painted (\<lambda>x' y'. x' = cx v + n \<and> y' = cy v) K mem u (step n u)"
      using painted_pixel [OF u(1) y, of "cursor_buff_x u + of_nat n" K "ucast (cursor_buff u ! n)"] assms(2) Suc.prems x
      by (simp add: step_def f b K_def cy_def [symmetric])
    then have "painted (\<lambda>x y. cx v \<le> x \<and> x < cx v + Suc n \<and> y = cy v) K mem v (step n u)"
      by (intro painted_cong [OF painted_trans [OF u(2)]]) auto
    ultimately show ?case unfolding z by simp
  qed
  moreover have v': "v' = fold step [0 ..< 6] v" unfolding v'_def draw_cursor_buffer_def step_def by simp
  ultimately show "screen_ok A bank mem v'" "painted (\<lambda>x y. cx v \<le> x \<and> x < cx v + 6 \<and> y = cy v)
      (\<lambda>x y. cursor_buff v ! (x - cx v)) mem v v'"
    unfolding v' K_def by auto
qed

lemma draw_cursor:
  fixes v :: "'d video" and c :: u16
  assumes "screen_ok A bank mem v" "cx v + 6 \<le> 800" "cy v + window v \<le> 2000"
  defines "v' \<equiv> draw_cursor A (cursor_buff_x v) (cursor_buff_y v) c v"
  shows "screen_ok A bank mem v'" "frozen v' = frozen v" "cursor_buff v' = cursor_buff v"
    "\<lbrakk> x < 800; r \<le> 2000; \<not> (cx v \<le> x \<and> x < cx v + 6 \<and> r = cy v + window v) \<rbrakk> \<Longrightarrow> fb mem v' x r = fb mem v x r"
proof -
  define y where "y = cursor_buff_y v"
  have "screen_ok A bank mem (fold (\<lambda>i. set_cursor_pixel A (of_nat i) y c) is u) \<and>
      frozen (fold (\<lambda>i. set_cursor_pixel A (of_nat i) y c) is u) = frozen u \<and>
      cursor_buff (fold (\<lambda>i. set_cursor_pixel A (of_nat i) y c) is u) = cursor_buff u \<and>
      (\<forall>x < 800. \<forall>r \<le> 2000. \<not> (x \<in> set is \<and> r = cy v + window v) \<longrightarrow>
         fb mem (fold (\<lambda>i. set_cursor_pixel A (of_nat i) y c) is u) x r = fb mem u x r)"
    if "set is \<subseteq> {..< 800}" "screen_ok A bank mem u" "frozen u = frozen v" for "is" u
    using that
  proof (induction "is" arbitrary: u)
    case (Cons i "is")
    have y: "unat y + window u = cy v + window v" by (simp add: y_def cy_def frozenD [OF Cons.prems(3)])
    note s = set_cursor_pixel_mem [OF Cons.prems(2), of y "of_nat i" c]
    have i: "unat (of_nat i :: u16) = i" using Cons.prems(1) by (simp add: unat_of_nat_u16)
    have le: "unat y + window u \<le> 2000" using assms(3) y by simp
    have "frozen (set_cursor_pixel A (of_nat i) y c u) = frozen v" using s(2) [OF le] Cons.prems(3) by simp
    from Cons.IH [OF _ s(4) [OF le] this] show ?case
      using Cons.prems(1) le by (simp add: s set_cursor_pixel_fb [OF Cons.prems(2)] i y)
  qed simp
  moreover have "unat (cursor_buff_x v + FNT_W - 2) = cx v + 6"
    using cursor_pixel [of v 6] assms(2) by (simp add: algebra_simps)
  ultimately show "screen_ok A bank mem v'" "frozen v' = frozen v" "cursor_buff v' = cursor_buff v"
    "\<lbrakk> x < 800; r \<le> 2000; \<not> (cx v \<le> x \<and> x < cx v + 6 \<and> r = cy v + window v) \<rbrakk> \<Longrightarrow> fb mem v' x r = fb mem v x r"
    using assms(1,2) unfolding v'_def draw_cursor_def y_def [symmetric]
    by (simp_all add: cx_def [symmetric] subset_iff)
qed

subsection \<open>The picture and the cursor\<close>

definition picture :: "('d \<Rightarrow> u32 \<Rightarrow> u8) \<Rightarrow> 'd video \<Rightarrow> nat \<Rightarrow> nat \<Rightarrow> u8" where
  "picture mem v x y =
     (if cursor_shown v \<noteq> 0 \<and> cx v \<le> x \<and> x < cx v + 6 \<and> y = cy v then cursor_buff v ! (x - cx v)
      else fb mem v x (y + window v))"

definition synced :: "('d \<Rightarrow> u32 \<Rightarrow> u8) \<Rightarrow> 'd video \<Rightarrow> bool" where
  "synced mem v \<longleftrightarrow> (\<forall>k < 6. cursor_buff v ! k = fb mem v (cx v + k) (cy v + window v))"

text \<open>The bar of the cursor is the last line of its cell, or the top left corner when the mode was just set.\<close>

definition bar_placed :: "'d video \<Rightarrow> bool" where
  "bar_placed v \<longleftrightarrow> cx v = 8 * unat (cursor_col v) + 1 \<and> cy v = 8 * unat (cursor_row v) + 7 \<or>
     cursor_col v = 0 \<and> cursor_row v = 0 \<and> cx v = 0 \<and> cy v = 0"

definition view_ok :: "'d adapter \<Rightarrow> ('d \<Rightarrow> u32) \<Rightarrow> ('d \<Rightarrow> u32 \<Rightarrow> u8) \<Rightarrow> 'd video \<Rightarrow> bool" where
  "view_ok A bank mem v \<longleftrightarrow> screen_ok A bank mem v \<and> cursor_col v \<le> 100 \<and> cursor_row v < 75 \<and> bar_placed v \<and>
     cursor_shown v \<in> {0, 1} \<and> cursor_blink_state v \<in> {0, 1} \<and>
     (cursor_shown v \<noteq> 0 \<and> cursor_blink_state v = 0 \<longrightarrow> synced mem v)"

lemma view_okD:
  assumes "view_ok A bank mem v"
  shows "screen_ok A bank mem v" "unat (cursor_col v) \<le> 100" "unat (cursor_row v) < 75" "bar_placed v"
    "cursor_shown v = 0 \<or> cursor_shown v = 1" "cursor_blink_state v = 0 \<or> cursor_blink_state v = 1"
    "cursor_shown v \<noteq> 0 \<Longrightarrow> cursor_blink_state v = 0 \<Longrightarrow> synced mem v"
    "cx v \<le> 801" "cy v < 600" "window v \<le> 1208"
    "cursor_col v < 100 \<Longrightarrow> cx v + 6 \<le> 800"
proof -
  show b: "screen_ok A bank mem v" "bar_placed v" and c: "unat (cursor_col v) \<le> 100" "unat (cursor_row v) < 75"
    and "cursor_shown v = 0 \<or> cursor_shown v = 1" "cursor_blink_state v = 0 \<or> cursor_blink_state v = 1"
    using assms by (simp_all add: view_ok_def word_le_nat_alt word_less_nat_alt)
  show "window v \<le> 1208" using b by (simp add: screen_ok_def window_def word_le_nat_alt)
  show "synced mem v" if "cursor_shown v \<noteq> 0" "cursor_blink_state v = 0" using assms that by (simp add: view_ok_def)
  show "cx v \<le> 801" "cy v < 600" using b c by (auto simp: bar_placed_def)
  show "cx v + 6 \<le> 800" if "cursor_col v < 100" using b c that by (auto simp: bar_placed_def word_less_nat_alt)
qed

lemma picture_synced: "synced mem v \<Longrightarrow> picture mem v x y = fb mem v x (y + window v)"
  by (auto simp: picture_def synced_def)

lemma picture_hidden: "cursor_shown v = 0 \<Longrightarrow> picture mem v x y = fb mem v x (y + window v)"
  by (simp add: picture_def)

text \<open>Drawing the kept pixels puts the picture into the memory.\<close>

lemma cursor_drawn_back:
  fixes v :: "'d video"
  assumes "view_ok A bank mem v" "cursor_col v < 100" "cursor_shown v \<noteq> 0"
  defines "v' \<equiv> draw_cursor_buffer A v"
  shows "screen_ok A bank mem v'" "frozen v' = frozen v" "synced mem v'"
    "\<lbrakk> x < 800; y < 600 \<rbrakk> \<Longrightarrow> fb mem v' x (y + window v) = picture mem v x y"
proof -
  note d = view_okD [OF assms(1)]
  have p: "screen_ok A bank mem v'" "painted (\<lambda>x y. cx v \<le> x \<and> x < cx v + 6 \<and> y = cy v)
      (\<lambda>x y. cursor_buff v ! (x - cx v)) mem v v'"
    using draw_cursor_buffer [OF d(1) d(11) [OF assms(2)]] d(9,10) by (simp_all add: v'_def)
  note q = paintedD [OF p(2)]
  show "screen_ok A bank mem v'" "frozen v' = frozen v" by (rule p(1)) (rule q(1))
  note f = frozenD [OF q(1)] frozen_place [OF q(1)]
  show "fb mem v' x (y + window v) = picture mem v x y" if "x < 800" "y < 600"
    using that d(10) assms(3) by (simp add: q(2) picture_def)
  show "synced mem v'"
    using d(8-10) d(11) [OF assms(2)] by (simp add: synced_def q(2,3) f)
qed

datatype cursor_op = Cursor_Show | Cursor_Hide | Cursor_Move u16 u16 | Cursor_Blink u32

primrec do_cursor_op :: "'d adapter \<Rightarrow> cursor_op \<Rightarrow> 'd video \<Rightarrow> 'd video" where
  "do_cursor_op A Cursor_Show v = video_show_cursor A v"
| "do_cursor_op A Cursor_Hide v = video_hide_cursor A v"
| "do_cursor_op A (Cursor_Move col row) v = video_set_cursor_pos A col row v"
| "do_cursor_op A (Cursor_Blink t) v = video_blink_cursor A t v"

primrec on_screen :: "cursor_op \<Rightarrow> bool" where
  "on_screen Cursor_Show = True"
| "on_screen Cursor_Hide = True"
| "on_screen (Cursor_Move col row) = (col < 100 \<and> row < 75)"
| "on_screen (Cursor_Blink t) = True"

text \<open>Two views show the same picture.\<close>

definition same_picture :: "('d \<Rightarrow> u32 \<Rightarrow> u8) \<Rightarrow> 'd video \<Rightarrow> 'd video \<Rightarrow> bool" where
  "same_picture mem v v' \<longleftrightarrow> (\<forall>x < 800. \<forall>y < 600. picture mem v' x y = picture mem v x y)"

lemma buffer_updated:
  fixes v :: "'d video"
  assumes "screen_ok A bank mem v" "cx v \<le> 801" "cy v < 600"
  defines "v' \<equiv> update_cursor_buffer A v"
  shows "frozen v' = frozen v" "screen_ok A bank mem v'" "fb mem v' = fb mem v" "synced mem v'"
proof -
  have "window v \<le> 1208" using assms(1) by (simp add: screen_ok_def window_def word_le_nat_alt)
  then have w: "cx v \<le> 50000" "cy v + window v \<le> 2000" using assms(2,3) by simp_all
  note u = update_cursor_buffer [OF assms(1) w, folded v'_def]
  show f: "frozen v' = frozen v" and "screen_ok A bank mem v'" and fb: "fb mem v' = fb mem v" by (rule u)+
  show "synced mem v'" by (simp add: synced_def u(4) fb frozenD [OF f] frozen_place [OF f])
qed

text \<open>The fields of a view that placing the cursor and the flags depend on.\<close>

lemma screen_ok_update [simp]:
  "screen_ok A bank mem (v\<lparr>cursor_shown := s\<rparr>) = screen_ok A bank mem v"
  "screen_ok A bank mem (v\<lparr>cursor_blink_state := s\<rparr>) = screen_ok A bank mem v"
  "screen_ok A bank mem (v\<lparr>cursor_blink_timer := t\<rparr>) = screen_ok A bank mem v"
  "screen_ok A bank mem (place_cursor c r v) = screen_ok A bank mem v"
  by (simp_all add: screen_ok_def place_cursor_def)

lemma fb_update [simp]:
  "fb mem (v\<lparr>cursor_shown := s\<rparr>) = fb mem v" "fb mem (v\<lparr>cursor_blink_state := s\<rparr>) = fb mem v"
  "fb mem (v\<lparr>cursor_blink_timer := t\<rparr>) = fb mem v" "fb mem (place_cursor c r v) = fb mem v"
  by (simp_all add: fb_def place_cursor_def fun_eq_iff)

lemma place_update [simp]:
  "cx (v\<lparr>cursor_shown := s\<rparr>) = cx v" "cx (v\<lparr>cursor_blink_state := s\<rparr>) = cx v"
  "cx (v\<lparr>cursor_blink_timer := t\<rparr>) = cx v"
  "cy (v\<lparr>cursor_shown := s\<rparr>) = cy v" "cy (v\<lparr>cursor_blink_state := s\<rparr>) = cy v"
  "cy (v\<lparr>cursor_blink_timer := t\<rparr>) = cy v"
  "window (v\<lparr>cursor_shown := s\<rparr>) = window v" "window (v\<lparr>cursor_blink_state := s\<rparr>) = window v"
  "window (v\<lparr>cursor_blink_timer := t\<rparr>) = window v" "window (place_cursor c r v) = window v"
  by (simp_all add: cx_def cy_def window_def place_cursor_def)

lemma synced_update [simp]:
  "synced mem (v\<lparr>cursor_shown := s\<rparr>) = synced mem v" "synced mem (v\<lparr>cursor_blink_state := s\<rparr>) = synced mem v"
  "synced mem (v\<lparr>cursor_blink_timer := t\<rparr>) = synced mem v"
  by (simp_all add: synced_def)

lemma bar_update [simp]:
  "bar_placed (v\<lparr>cursor_shown := s\<rparr>) = bar_placed v" "bar_placed (v\<lparr>cursor_blink_state := s\<rparr>) = bar_placed v"
  "bar_placed (v\<lparr>cursor_blink_timer := t\<rparr>) = bar_placed v"
  by (simp_all add: bar_placed_def)

lemma bar_frozen:
  assumes "frozen v' = frozen v"
  shows "bar_placed v' = bar_placed v"
  by (simp add: bar_placed_def frozenD [OF assms] frozen_place [OF assms])

lemma placed_cursor:
  assumes "screen_ok A bank mem v" "unat c \<le> 100" "unat r < 75"
  shows "cx (place_cursor c r v) = 8 * unat c + 1" "cy (place_cursor c r v) = 8 * unat r + 7"
    "bar_placed (place_cursor c r v)"
proof -
  have h: "video_font_h v = 8" using assms(1) by (simp add: screen_ok_def)
  have r: "unat (r + 1) = unat r + 1" using assms(3) by (intro unat_plus1_u16) simp
  have m: "unat ((r + 1) * 8) = 8 * unat r + 8" using assms(3) by (simp add: unat_word_ariths r)
  have "unat ((r + 1) * 8 - 1) = 8 * unat r + 7"
    using m by (subst unat_sub) (simp_all add: word_le_nat_alt)
  then show y: "cy (place_cursor c r v) = 8 * unat r + 7" by (simp add: cy_def place_cursor_def h)
  show x: "cx (place_cursor c r v) = 8 * unat c + 1"
    using assms(2) by (simp add: cx_def place_cursor_def unat_word_ariths)
  have "cursor_col (place_cursor c r v) = c" "cursor_row (place_cursor c r v) = r" by (simp_all add: place_cursor_def)
  with x y show "bar_placed (place_cursor c r v)" by (simp add: bar_placed_def)
qed

lemma view_okI:
  assumes "screen_ok A bank mem v" "unat (cursor_col v) \<le> 100" "unat (cursor_row v) < 75" "bar_placed v"
    "cursor_shown v = 0 \<or> cursor_shown v = 1" "cursor_blink_state v = 0 \<or> cursor_blink_state v = 1"
    "cursor_shown v \<noteq> 0 \<Longrightarrow> cursor_blink_state v = 0 \<Longrightarrow> synced mem v"
  shows "view_ok A bank mem v"
  using assms by (auto simp: view_ok_def word_le_nat_alt word_less_nat_alt)

lemma shown_keeps_picture:
  fixes v :: "'d video"
  assumes "view_ok A bank mem v"
  defines "v' \<equiv> video_show_cursor A v"
  shows "view_ok A bank mem v'" "cursor_col v' = cursor_col v" "same_picture mem v v'"
proof -
  note d = view_okD [OF assms(1)]
  define u where "u = update_cursor_buffer A v"
  note b = buffer_updated [OF d(1,8,9), folded u_def]
  note f = frozenD [OF b(1)] frozen_place [OF b(1)] bar_frozen [OF b(1)]
  have "view_ok A bank mem v' \<and> cursor_col v' = cursor_col v \<and> same_picture mem v v'"
  proof (cases "cursor_shown v = 0 \<or> cursor_blink_state v = 0")
    case True
    then have v': "v' = u\<lparr>cursor_shown := 1\<rparr>" by (simp add: v'_def video_show_cursor_def u_def)
    have s: "synced mem v'" by (simp add: v' b)
    have old: "picture mem v x y = fb mem v x (y + window v)" for x y
      using True picture_hidden picture_synced d(7) by blast
    have "view_ok A bank mem v'" using d(1-6) by (intro view_okI) (simp_all add: v' f b)
    moreover have "same_picture mem v v'" by (simp add: same_picture_def picture_synced [OF s] old) (simp add: v' f b)
    ultimately show ?thesis by (simp add: v' f)
  next
    case False
    then have "v' = v" using d(5) by (auto simp: v'_def video_show_cursor_def)
    then show ?thesis using assms by (simp add: same_picture_def)
  qed
  then show "view_ok A bank mem v'" "cursor_col v' = cursor_col v" "same_picture mem v v'" by simp_all
qed

lemma hidden_keeps_picture:
  fixes v :: "'d video"
  assumes "view_ok A bank mem v" "cursor_col v < 100"
  defines "v' \<equiv> video_hide_cursor A v"
  shows "view_ok A bank mem v'" "cursor_col v' = cursor_col v" "same_picture mem v v'" "cursor_shown v' = 0"
proof -
  note d = view_okD [OF assms(1)]
  define u where "u = (if cursor_shown v \<noteq> 0 \<and> cursor_blink_state v \<noteq> 0 then draw_cursor_buffer A v else v)"
  have v': "v' = u\<lparr>cursor_shown := 0\<rparr>" by (simp add: v'_def video_hide_cursor_def u_def)
  have u: "screen_ok A bank mem u \<and> frozen u = frozen v \<and>
      (\<forall>x < 800. \<forall>y < 600. fb mem u x (y + window v) = picture mem v x y)"
  proof (cases "cursor_shown v \<noteq> 0 \<and> cursor_blink_state v \<noteq> 0")
    case True
    then show ?thesis using cursor_drawn_back [OF assms(1,2)] by (simp add: u_def)
  next
    case False
    then have "picture mem v x y = fb mem v x (y + window v)" for x y
      using picture_hidden picture_synced d(7) by blast
    then show ?thesis using False d(1) by (auto simp: u_def)
  qed
  then have f: "frozen u = frozen v" by simp
  note f = frozenD [OF f] frozen_place [OF f] bar_frozen [OF f]
  show "view_ok A bank mem v'" using d(1-6) u by (intro view_okI) (simp_all add: v' f)
  show "same_picture mem v v'" using u by (simp add: same_picture_def picture_hidden v' f)
  show "cursor_col v' = cursor_col v" "cursor_shown v' = 0" by (simp_all add: v' f)
qed

lemma move_keeps_picture:
  fixes v :: "'d video" and col row :: u16
  assumes "view_ok A bank mem v" "cursor_col v < 100" "unat col \<le> 100" "unat row < 75"
  defines "v' \<equiv> video_set_cursor_pos A col row v"
  shows "view_ok A bank mem v'" "cursor_col v' = col" "cursor_row v' = row" "same_picture mem v v'"
    "cursor_shown v' = cursor_shown v"
proof -
  note d = view_okD [OF assms(1)]
  define u where "u = (if cursor_shown v \<noteq> 0 then draw_cursor_buffer A v else v)"
  define w where "w = place_cursor col row u"
  have u: "screen_ok A bank mem u \<and> frozen u = frozen v \<and>
      (\<forall>x < 800. \<forall>y < 600. fb mem u x (y + window v) = picture mem v x y)"
    using cursor_drawn_back [OF assms(1,2)] d(1) by (auto simp: u_def picture_hidden)
  then have fu: "frozen u = frozen v" and su: "screen_ok A bank mem u" by simp_all
  note f = frozenD [OF fu]
  note p = placed_cursor [OF su assms(3,4), folded w_def]
  have w: "screen_ok A bank mem w" "cursor_col w = col" "cursor_row w = row" "cursor_shown w = cursor_shown v"
    "cursor_blink_state w = cursor_blink_state v" "window w = window v" "fb mem w = fb mem u"
    "cx w \<le> 801" "cy w < 600"
    using su assms(3,4) p by (simp_all add: w_def f) (simp_all add: place_cursor_def f)
  define z where "z = (if cursor_shown w \<noteq> 0 then update_cursor_buffer A w else w)"
  note b = buffer_updated [OF w(1,8,9)]
  have fz: "frozen z = frozen w" and z: "screen_ok A bank mem z" "fb mem z = fb mem w"
    "cursor_shown z \<noteq> 0 \<Longrightarrow> synced mem z"
    using b w(1) by (auto simp: z_def)
  note fz = frozenD [OF fz] bar_frozen [OF fz]
  have "view_ok A bank mem z" using d(5,6) assms(3,4) z by (intro view_okI) (simp_all add: fz w p)
  moreover have "picture mem z x y = fb mem z x (y + window z)" for x y
    using picture_hidden picture_synced z(3) by blast
  then have "same_picture mem v z" using u z by (simp add: same_picture_def w fz)
  moreover have "cursor_col z = col" "cursor_row z = row" "cursor_shown z = cursor_shown v" by (simp_all add: fz w)
  moreover have "v' = (if col \<noteq> cursor_col v \<or> row \<noteq> cursor_row v then z else v)"
    by (simp add: v'_def video_set_cursor_pos_def u_def z_def w_def Let_def place_cursor_def)
  ultimately show "view_ok A bank mem v'" "cursor_col v' = col" "cursor_row v' = row" "same_picture mem v v'"
    "cursor_shown v' = cursor_shown v"
    using assms(1) by (simp_all add: same_picture_def)
qed

lemma blink_keeps_picture:
  fixes v :: "'d video" and t :: u32
  assumes "view_ok A bank mem v" "cursor_col v < 100"
  defines "v' \<equiv> video_blink_cursor A t v"
  shows "view_ok A bank mem v'" "cursor_col v' = cursor_col v" "same_picture mem v v'"
proof -
  note d = view_okD [OF assms(1)]
  define s where "s = 1 - cursor_blink_state v"
  define v1 where "v1 = v\<lparr>cursor_blink_state := s\<rparr>"
  have s01: "s = 0 \<or> s = 1" using d(6) by (auto simp: s_def)
  have pic: "picture mem v1 = picture mem v" by (simp add: v1_def picture_def fun_eq_iff)
  have v1: "screen_ok A bank mem v1" "cx v1 + 6 \<le> 800" "cy v1 + window v1 \<le> 2000"
    using d(1,9,10) d(11) [OF assms(2)] by (simp_all add: v1_def)
  have w1: "window v1 \<le> 1208" using d(10) by (simp add: v1_def)
  note c = draw_cursor_buffer [OF v1]
  define z where "z = (if cursor_shown v = 1 then
      (if s = 0 then draw_cursor_buffer A v1 else draw_cursor A (cursor_buff_x v1) (cursor_buff_y v1) DEF_TEXT v1) else v)"
  have v': "v' = z\<lparr>cursor_blink_timer := t\<rparr>"
    by (simp add: v'_def video_blink_cursor_def z_def v1_def s_def Let_def)
  consider (hid) "cursor_shown v = 0" | (off) "cursor_shown v = 1" "s = 0" | (on) "cursor_shown v = 1" "s = 1"
    using d(5) s01 by blast
  then have "view_ok A bank mem z \<and> cursor_col z = cursor_col v \<and> same_picture mem v z"
  proof cases
    case hid
    then show ?thesis using assms(1) by (simp add: z_def same_picture_def)
  next
    case off
    have z: "z = draw_cursor_buffer A v1" using off by (simp add: z_def)
    have ok1: "view_ok A bank mem (v1\<lparr>cursor_blink_state := 1\<rparr>)"
      using d(1-6) by (intro view_okI) (simp_all add: v1_def)
    note c' = paintedD [OF c(2), folded z]
    note fz = c'(1)
    note f = frozenD [OF fz] frozen_place [OF fz] bar_frozen [OF fz]
    have sy: "synced mem z"
      using v1(2,3) by (simp add: synced_def f c'(2,3))
    have "view_ok A bank mem z"
      using d(1-6) c(1) [folded z] sy off by (intro view_okI) (simp_all add: f, simp_all add: v1_def)
    moreover have "same_picture mem v z"
      unfolding same_picture_def pic [symmetric] picture_synced [OF sy] using w1 off
      by (auto simp: f c'(2) picture_def) (auto simp: v1_def)
    ultimately show ?thesis by (simp add: f, simp add: v1_def)
  next
    case on
    have z: "z = draw_cursor A (cursor_buff_x v1) (cursor_buff_y v1) DEF_TEXT v1" using on by (simp add: z_def)
    note w = draw_cursor [OF v1, where c = DEF_TEXT, folded z]
    note f = frozenD [OF w(2)] frozen_place [OF w(2)] bar_frozen [OF w(2)]
    have "view_ok A bank mem z"
      using d(1-6) w(1) on by (intro view_okI) (simp_all add: f, simp_all add: v1_def)
    moreover have "same_picture mem v z"
      unfolding same_picture_def pic [symmetric] using w1 on d(5)
      by (auto simp: picture_def w(3,4) f) (auto simp: v1_def)
    ultimately show ?thesis by (simp add: f) (simp add: v1_def)
  qed
  moreover have "picture mem v' = picture mem z" by (simp add: v' picture_def fun_eq_iff)
  moreover have "view_ok A bank mem v' = view_ok A bank mem z" by (simp add: v' view_ok_def)
  ultimately show "view_ok A bank mem v'" "cursor_col v' = cursor_col v" "same_picture mem v v'"
    by (simp_all add: v' same_picture_def)
qed

lemma same_picture_trans: "same_picture mem v u \<Longrightarrow> same_picture mem u w \<Longrightarrow> same_picture mem v w"
  by (simp add: same_picture_def)

lemma cursor_op_keeps_picture:
  assumes "view_ok A bank mem v" "cursor_col v < 100" "on_screen p"
  shows "view_ok A bank mem (do_cursor_op A p v) \<and> cursor_col (do_cursor_op A p v) < 100 \<and>
    same_picture mem v (do_cursor_op A p v)"
proof (cases p)
  case (Cursor_Move col row)
  then have c: "unat col \<le> 100" "unat row < 75" "col < 100" using assms(3) by (simp_all add: word_less_nat_alt)
  show ?thesis using move_keeps_picture [OF assms(1,2) c(1,2)] c(3) by (simp add: Cursor_Move)
qed (simp_all add: assms shown_keeps_picture [OF assms(1)] hidden_keeps_picture [OF assms(1,2)]
      blink_keeps_picture [OF assms(1,2)])

text \<open>
  C18: as long as the cursor is on the screen, showing, hiding, moving and blinking it, in any order, leave the
  picture of the screen as it is.
\<close>

theorem cursor_is_overlay:
  assumes "view_ok A bank mem v" "cursor_col v < 100" "\<forall>p \<in> set ops. on_screen p"
  shows "view_ok A bank mem (fold (do_cursor_op A) ops v) \<and> cursor_col (fold (do_cursor_op A) ops v) < 100 \<and>
    same_picture mem v (fold (do_cursor_op A) ops v)"
  using assms
proof (induction ops arbitrary: v)
  case (Cons p ops)
  then have s: "view_ok A bank mem (do_cursor_op A p v)" "cursor_col (do_cursor_op A p v) < 100"
    "same_picture mem v (do_cursor_op A p v)"
    using cursor_op_keeps_picture [OF Cons.prems(1,2), of p] Cons.prems(3) by simp_all
  show ?case using Cons.IH [OF s(1,2)] Cons.prems(3) same_picture_trans [OF s(3)] by simp
qed (simp add: same_picture_def)

subsection \<open>A sample adapter\<close>

text \<open>An adapter with a bank register and two megabytes, and a screen on it with the cursor shown in column 5, row 74.\<close>

definition sample_adapter :: "(u32 \<times> (u32 \<Rightarrow> u8)) adapter" where
  "sample_adapter = \<lparr>io_set_vesa_bank = (\<lambda>n d. (n, snd d)),
     window_byte = (\<lambda>d a. snd d (fst d * VESA_BANK_SIZE + ucast a)),
     set_window_byte = (\<lambda>a b d. (fst d, (snd d)(fst d * VESA_BANK_SIZE + ucast a := b))),
     set_display_start = (\<lambda>y d. d), bios_font = (\<lambda>d. (0xC0000, 8))\<rparr>"

definition sample_screen :: "u16 \<Rightarrow> (u32 \<times> (u32 \<Rightarrow> u8)) video" where
  "sample_screen w = \<lparr>video_font_h = 8, video_window_y = w, cursor_col = 5, cursor_row = 74, cursor_shown = 1,
     cursor_buff = [0, 0, 0, 0, 0, 0], cursor_buff_x = 41, cursor_buff_y = 599, cursor_blink_state = 0,
     cursor_blink_timer = 0, BIOS_font = 0xC0000, BIOS_font_offset = 8, current_bank = 0, width_c = 100, height_c = 75,
     width_px = 800, height_px = 600, card = (0, \<lambda>a. 0), rom = (\<lambda>a. 0x55), vheap = replicate 128 \<lparr>used = 0, ptr = 0\<rparr>,
     vheap_addr = 0x4000\<rparr>"

lemma sample_adapter_vesa: "vesa_adapter sample_adapter fst snd"
  by (simp add: vesa_adapter_def sample_adapter_def)

lemma sample_screen_ok: "w \<le> 1208 \<Longrightarrow> view_ok sample_adapter fst snd (sample_screen w)"
proof -
  have "[0, 0, 0, 0, 0, 0 :: u8] ! k = 0" if "k < 6" for k
    using that nth_mem [of k "[0, 0, 0, 0, 0, 0 :: u8]"] by simp
  then show "w \<le> 1208 \<Longrightarrow> view_ok sample_adapter fst snd (sample_screen w)"
    by (simp add: view_ok_def screen_ok_def sample_adapter_vesa sample_screen_def bar_placed_def cx_def cy_def synced_def fb_def)
qed

theorem cursor_is_overlay_witness:
  "view_ok sample_adapter fst snd
     (fold (do_cursor_op sample_adapter) [Cursor_Blink 500, Cursor_Move 99 0, Cursor_Hide, Cursor_Blink 1000, Cursor_Show]
        (sample_screen 16)) \<and>
   same_picture snd (sample_screen 16)
     (fold (do_cursor_op sample_adapter) [Cursor_Blink 500, Cursor_Move 99 0, Cursor_Hide, Cursor_Blink 1000, Cursor_Show]
        (sample_screen 16))"
proof -
  have "view_ok sample_adapter fst snd (sample_screen 16)" by (rule sample_screen_ok) simp
  moreover have "cursor_col (sample_screen 16) < 100" by (simp add: sample_screen_def)
  moreover have "\<forall>p \<in> set [Cursor_Blink 500, Cursor_Move 99 0, Cursor_Hide, Cursor_Blink 1000, Cursor_Show]. on_screen p"
    by simp
  ultimately show ?thesis using cursor_is_overlay by blast
qed

end
