(* ===== verification/Video_Chars.thy ===== *)
theory Video_Chars
  imports Video_Picture
begin

section \<open>Characters on the graphics screen\<close>

text \<open>
  What \<open>video_out_char\<close> does to the picture: a cell gets the glyph, and a line feed on the last row scrolls the
  picture by one text row, by the start line of the display or, after two screens, by copying.
\<close>

lemma frozen_window:
  assumes "frozen v = frozen w"
  shows "window v = window w" "cx v = cx w" "cy v = cy w"
  using frozenD [OF assms] frozen_place [OF assms] by simp_all

text \<open>Loops that paint a row, and a rectangle, for colours given by the place.\<close>

lemma paint_rectangle:
  assumes "screen_ok A bank mem v" "cx v \<le> 60000"
    and "\<And>i j u. \<lbrakk> j \<in> set js; i \<in> set is; frozen u = frozen v; screen_ok A bank mem u \<rbrakk> \<Longrightarrow>
      p j i u = video_set_pixel A (X j i) (Y j i) (C j i) u"
    and "\<And>i j. \<lbrakk> j \<in> set js; i \<in> set is \<rbrakk> \<Longrightarrow>
      unat (X j i) < 800 \<and> unat (Y j i) + window v \<le> 2000 \<and> ucast (C j i) = K (unat (X j i)) (unat (Y j i))"
  defines "v' \<equiv> fold (\<lambda>j. fold (\<lambda>i. p j i) is) js v"
  shows "screen_ok A bank mem v'" "painted (\<lambda>x y. \<exists>j \<in> set js. \<exists>i \<in> set is. x = unat (X j i) \<and> y = unat (Y j i)) K mem v v'"
proof -
  have "screen_ok A bank mem v' \<and>
      painted (\<lambda>x y. \<exists>j \<in> set js. \<exists>i \<in> set is. x = unat (X j i) \<and> y = unat (Y j i)) K mem v v'"
    unfolding v'_def
  proof (rule paint_fold [where ?v0.0 = v, OF assms(1) _ refl])
    fix j u assume j: "j \<in> set js" and u: "screen_ok A bank mem u" "frozen u = frozen v"
    show "screen_ok A bank mem (fold (\<lambda>i. p j i) is u) \<and>
        painted (\<lambda>x y. \<exists>i \<in> set is. x = unat (X j i) \<and> y = unat (Y j i)) K mem u (fold (\<lambda>i. p j i) is u)"
    proof (rule paint_fold [where ?v0.0 = v, OF u(1) _ u(2)])
      fix i w assume i: "i \<in> set is" and w: "screen_ok A bank mem w" "frozen w = frozen v"
      note q = assms(4) [OF j i]
      have le: "unat (Y j i) + window w \<le> 2000" using q frozen_window [OF w(2)] by simp
      show "screen_ok A bank mem (p j i w) \<and> painted (\<lambda>x y. x = unat (X j i) \<and> y = unat (Y j i)) K mem w (p j i w)"
        using q assms(2) frozen_window [OF w(2)] unfolding assms(3) [OF j i w(2,1)]
        by (simp add: video_set_pixel(2) [OF w(1) le] painted_pixel [OF w(1) le])
    qed
  qed
  then show "screen_ok A bank mem v'"
    "painted (\<lambda>x y. \<exists>j \<in> set js. \<exists>i \<in> set is. x = unat (X j i) \<and> y = unat (Y j i)) K mem v v'" by simp_all
qed

subsection \<open>A cell\<close>

definition in_cell :: "nat \<Rightarrow> nat \<Rightarrow> nat \<Rightarrow> nat \<Rightarrow> bool" where
  "in_cell col row x y \<longleftrightarrow> x div 8 = col \<and> y div 8 = row"

definition glyph_colour :: "'d video \<Rightarrow> u8 \<Rightarrow> u8 \<Rightarrow> u8 \<Rightarrow> nat \<Rightarrow> nat \<Rightarrow> u8" where
  "glyph_colour v c text_cl back_cl x y =
     (if is_visible_char c \<and> glyph_bit (get_BIOS_glyph v (ucast c)) (y mod 8) (x mod 8) then text_cl else back_cl)"

lemma cell_pixels:
  fixes col row :: u16
  assumes "unat col < 100" "unat row < 75" "i < 8" "j < 8"
  shows "unat (col * FNT_W + of_nat i) = 8 * unat col + i" "unat (row * 8 + of_nat j) = 8 * unat row + j"
  using assms by (simp_all add: unat_word_ariths unat_of_nat_u16)

lemma cell_places:
  fixes col row :: u16
  assumes "unat col < 100" "unat row < 75"
  shows "(\<exists>j \<in> set [0 ..< 8]. \<exists>i \<in> set [0 ..< 8]. x = unat (col * FNT_W + of_nat i) \<and> y = unat (row * 8 + of_nat j)) \<longleftrightarrow>
    in_cell (unat col) (unat row) x y"
proof
  assume "\<exists>j \<in> set [0 ..< 8]. \<exists>i \<in> set [0 ..< 8]. x = unat (col * FNT_W + of_nat i) \<and> y = unat (row * 8 + of_nat j)"
  then obtain i j where "i < 8" "j < 8" "x = unat (col * FNT_W + of_nat i)" "y = unat (row * 8 + of_nat j)" by auto
  then show "in_cell (unat col) (unat row) x y"
    unfolding cell_pixels [OF assms \<open>i < 8\<close> \<open>j < 8\<close>] by (simp add: in_cell_def)
next
  assume a: "in_cell (unat col) (unat row) x y"
  have "x mod 8 < 8" "y mod 8 < 8" by simp_all
  note c = cell_pixels [OF assms this]
  have "x = 8 * (x div 8) + x mod 8" "y = 8 * (y div 8) + y mod 8" by simp_all
  with a c have "x = unat (col * FNT_W + of_nat (x mod 8))" "y = unat (row * 8 + of_nat (y mod 8))"
    by (simp_all add: in_cell_def)
  then show "\<exists>j \<in> set [0 ..< 8]. \<exists>i \<in> set [0 ..< 8]. x = unat (col * FNT_W + of_nat i) \<and> y = unat (row * 8 + of_nat j)"
    by (intro bexI [of _ "y mod 8"] bexI [of _ "x mod 8"] conjI) simp_all
qed

lemma screen_okD:
  assumes "screen_ok A bank mem v"
  shows "video_font_h v = 8" "width_px v = 800" "height_px v = 600" "width_c v = 100" "height_c v = 75"
    "window v \<le> 1208" "bank (card v) = current_bank v" "current_bank v < 0x20" "vesa_adapter A bank mem"
  using assms by (simp_all add: screen_ok_def window_def word_le_nat_alt)

text \<open>A character with a background paints its cell.\<close>

lemma video_draw_char:
  fixes v :: "'d video" and c text_cl back_cl :: u8 and col row :: u16
  assumes "screen_ok A bank mem v" "cx v \<le> 801" "unat col < 100" "unat row < 75"
  defines "v' \<equiv> video_draw_char A (col * FNT_W) (row * video_font_h v) (ucast c) (ucast text_cl) (ucast back_cl) v"
  shows "screen_ok A bank mem v'"
    "painted (in_cell (unat col) (unat row)) (glyph_colour v c text_cl back_cl) mem v v'"
proof -
  note s = screen_okD [OF assms(1)]
  define buff where "buff = get_BIOS_glyph v (ucast c)"
  define C where "C = (\<lambda>j i. if is_visible_char c \<and> glyph_bit buff j i then text_cl else back_cl)"
  have nb: "(ucast back_cl :: u16) \<noteq> NO_BACKGROUND"
    using unat_u8_lt [of back_cl] by (auto simp: word_unat_eq_iff)
  define X :: "nat \<Rightarrow> u16" where "X = (\<lambda>i. col * FNT_W + of_nat i)"
  define Y :: "nat \<Rightarrow> u16" where "Y = (\<lambda>j. row * 8 + of_nat j)"
  have "v' = fold (\<lambda>j. fold (\<lambda>i. video_set_pixel A (X i) (Y j) (ucast (C j i))) [0 ..< 8]) [0 ..< 8] v"
    using nb by (simp add: v'_def video_draw_char_def s C_def buff_def X_def Y_def Let_def if_distrib [of ucast]
      cong: if_cong)
  moreover have "unat (X i) < 800 \<and> unat (Y j) + window v \<le> 2000 \<and>
      ucast (ucast (C j i) :: u16) = glyph_colour v c text_cl back_cl (unat (X i)) (unat (Y j))"
    if "j \<in> set [0 ..< 8]" "i \<in> set [0 ..< 8]" for i j
  proof -
    have ij: "i < 8" "j < 8" using that by simp_all
    note p = cell_pixels [OF assms(3,4) ij]
    show ?thesis unfolding X_def Y_def p using s(6) assms(3,4) ij by (simp add: C_def glyph_colour_def buff_def)
  qed
  ultimately have "screen_ok A bank mem v'"
    "painted (\<lambda>x y. \<exists>j \<in> set [0 ..< 8]. \<exists>i \<in> set [0 ..< 8]. x = unat (X i) \<and> y = unat (Y j))
       (glyph_colour v c text_cl back_cl) mem v v'"
    using paint_rectangle [OF assms(1), of "[0 ..< 8]" "[0 ..< 8]"
        "\<lambda>j i. video_set_pixel A (X i) (Y j) (ucast (C j i))" "\<lambda>j i. X i" "\<lambda>j i. Y j" "\<lambda>j i. ucast (C j i)" "glyph_colour v c text_cl back_cl"]
      assms(2) by simp_all
  then show "screen_ok A bank mem v'"
    "painted (in_cell (unat col) (unat row)) (glyph_colour v c text_cl back_cl) mem v v'"
    unfolding X_def Y_def cell_places [OF assms(3,4)] by simp_all
qed

text \<open>A view whose memory holds the picture, as after drawing the cell of the cursor.\<close>

definition drawn :: "'d adapter \<Rightarrow> ('d \<Rightarrow> u32) \<Rightarrow> ('d \<Rightarrow> u32 \<Rightarrow> u8) \<Rightarrow> 'd video \<Rightarrow> bool" where
  "drawn A bank mem v \<longleftrightarrow> view_ok A bank mem v \<and> (cursor_shown v \<noteq> 0 \<longrightarrow> synced mem v)"

lemma drawn_picture: "drawn A bank mem v \<Longrightarrow> picture mem v x y = fb mem v x (y + window v)"
  unfolding drawn_def using picture_hidden picture_synced by blast

lemma bar_in_cell:
  assumes "bar_placed v" "k < 6"
  shows "in_cell (unat (cursor_col v)) (unat (cursor_row v)) (cx v + k) (cy v)"
proof -
  have k: "(8 * n + 1 + k) div 8 = n" for n using assms(2) by presburger
  show ?thesis using assms(1) unfolding bar_placed_def
  proof
    assume "cx v = 8 * unat (cursor_col v) + 1 \<and> cy v = 8 * unat (cursor_row v) + 7"
    then show ?thesis using k [of "unat (cursor_col v)"] by (simp add: in_cell_def)
  qed (use assms(2) in \<open>simp add: in_cell_def\<close>)
qed

lemma cell_drawn:
  fixes v :: "'d video" and c text_cl back_cl :: u8
  assumes "view_ok A bank mem v" "cursor_col v < 100"
  defines "v' \<equiv> video_draw_char A (cursor_col v * FNT_W) (cursor_row v * video_font_h v) (ucast c) (ucast text_cl)
      (ucast back_cl) v"
  shows "drawn A bank mem v'" "frozen v' = frozen v"
    "\<lbrakk> x < 800; y < 600 \<rbrakk> \<Longrightarrow> fb mem v' x (y + window v) =
       (if in_cell (unat (cursor_col v)) (unat (cursor_row v)) x y then glyph_colour v c text_cl back_cl x y
        else picture mem v x y)"
proof -
  note d = view_okD [OF assms(1)]
  have col: "unat (cursor_col v) < 100" using assms(2) by (simp add: word_less_nat_alt)
  note p = video_draw_char [OF d(1,8) col d(3), of c text_cl back_cl, folded v'_def]
  note q = paintedD [OF p(2)]
  note f = frozenD [OF q(1)] frozen_place [OF q(1)] bar_frozen [OF q(1)]
  have "synced mem v'" if "cursor_shown v \<noteq> 0"
    using that d(9,10) d(11) [OF assms(2)] bar_in_cell [OF d(4)] by (simp add: synced_def f q(2,3))
  then show "drawn A bank mem v'"
    using d(1-6) p(1) unfolding drawn_def by (auto intro!: view_okI simp: f)
  show "frozen v' = frozen v" by (rule q(1))
  show "fb mem v' x (y + window v) =
       (if in_cell (unat (cursor_col v)) (unat (cursor_row v)) x y then glyph_colour v c text_cl back_cl x y
        else picture mem v x y)" if "x < 800" "y < 600"
  proof (cases "in_cell (unat (cursor_col v)) (unat (cursor_row v)) x y")
    case False
    have "\<not> (cx v \<le> x \<and> x < cx v + 6 \<and> y = cy v)"
    proof
      assume a: "cx v \<le> x \<and> x < cx v + 6 \<and> y = cy v"
      then have "x - cx v < 6" "x = cx v + (x - cx v)" by auto
      with bar_in_cell [OF d(4)] a False show False by metis
    qed
    then show ?thesis using that False d(10) by (auto simp: q(2) picture_def)
  qed (use that d(10) in \<open>simp add: q(2)\<close>)
qed

lemma moved_fast:
  fixes v :: "'d video" and col row :: u16
  assumes "drawn A bank mem v" "unat col \<le> 100" "unat row < 75"
  defines "v' \<equiv> set_cursor_pos_fast A col row v"
  shows "drawn A bank mem v'" "cursor_col v' = col" "cursor_row v' = row" "window v' = window v" "fb mem v' = fb mem v"
proof -
  have "view_ok A bank mem v" using assms(1) by (simp add: drawn_def)
  note d = view_okD [OF this]
  define w where "w = place_cursor col row v"
  note p = placed_cursor [OF d(1) assms(2,3), folded w_def]
  have w: "screen_ok A bank mem w" "cursor_col w = col" "cursor_row w = row" "cursor_shown w = cursor_shown v"
    "cursor_blink_state w = cursor_blink_state v" "window w = window v" "fb mem w = fb mem v"
    "cx w \<le> 801" "cy w < 600"
    using d(1) assms(2,3) p by (simp_all add: w_def) (simp_all add: place_cursor_def)
  define z where "z = (if cursor_shown w \<noteq> 0 then update_cursor_buffer A w else w)"
  note b = buffer_updated [OF w(1,8,9)]
  have fz: "frozen z = frozen w" and z: "screen_ok A bank mem z" "fb mem z = fb mem w"
    "cursor_shown z \<noteq> 0 \<Longrightarrow> synced mem z"
    using b w(1) by (auto simp: z_def)
  note fz = frozenD [OF fz] bar_frozen [OF fz]
  have "drawn A bank mem z" unfolding drawn_def
    using d(5,6) assms(2,3) z by (auto intro!: view_okI simp: fz w p)
  moreover have "cursor_col z = col" "cursor_row z = row" "window z = window v" "fb mem z = fb mem v"
    by (simp_all add: fz w z)
  moreover have "v' = (if col \<noteq> cursor_col v \<or> row \<noteq> cursor_row v then z else v)"
    by (simp add: v'_def set_cursor_pos_fast_def z_def w_def Let_def place_cursor_def)
  ultimately show "drawn A bank mem v'" "cursor_col v' = col" "cursor_row v' = row" "window v' = window v"
    "fb mem v' = fb mem v"
    using assms(1) by simp_all
qed

text \<open>Where a character puts the cursor.\<close>

definition cursor_after :: "u8 \<Rightarrow> u16 \<times> u16 \<Rightarrow> u16 \<times> u16" where
  "cursor_after c p = (if c = 0x0A then (fst p, snd p + 1) else if c = 0x0D then (0, snd p) else (fst p + 1, snd p))"

text \<open>
  C16: a character sent to the screen in a cell, other than a line feed on the last row, leaves its glyph in the
  cell and the rest of the picture as it was, and the cursor moves on.
\<close>

theorem char_drawn:
  assumes "view_ok A bank mem v" "cursor_col v < 100" "\<not> (c = 0x0A \<and> cursor_row v = 74)"
  shows "\<exists>v'. video_out_char A c v = Some v' \<and> view_ok A bank mem v' \<and>
    (cursor_col v', cursor_row v') = cursor_after c (cursor_col v, cursor_row v) \<and>
    (\<forall>x < 800. \<forall>y < 600. picture mem v' x y =
       (if in_cell (unat (cursor_col v)) (unat (cursor_row v)) x y then glyph_colour v c 7 0 x y
        else picture mem v x y))"
proof -
  note d = view_okD [OF assms(1)]
  define u where "u = video_draw_char A (cursor_col v * FNT_W) (cursor_row v * video_font_h v) (ucast c) (ucast (7 :: u8))
      (ucast (0 :: u8)) v"
  note u = cell_drawn [OF assms(1,2), where c = c and text_cl = 7 and back_cl = 0, folded u_def]
  note f = frozenD [OF u(2)]
  define p where "p = cursor_after c (cursor_col v, cursor_row v)"
  have col: "unat (cursor_col v) < 100" using assms(2) by (simp add: word_less_nat_alt)
  have row: "cursor_row v \<noteq> 74 \<Longrightarrow> unat (cursor_row v) < 74"
    using d(3) by (simp add: word_unat_eq_iff)
  have "unat (fst p) \<le> 100" "unat (snd p) < 75"
    using col d(3) row assms(3) by (auto simp: p_def cursor_after_def unat_plus1_u16)
  note m = moved_fast [OF u(1) this]
  define v' where "v' = set_cursor_pos_fast A (fst p) (snd p) u"
  have "u = video_draw_char A (cursor_col v * FNT_W) (cursor_row v * video_font_h v) (ucast c) DEF_TEXT DEF_BACKGROUND v"
    by (simp add: u_def)
  moreover have "update_cursor_after_char A c u = Some v'"
    using \<open>unat (fst p) \<le> 100\<close> \<open>unat (snd p) < 75\<close> screen_okD [OF d(1)]
    by (auto simp: update_cursor_after_char_def v'_def p_def cursor_after_def f word_less_nat_alt word_le_nat_alt
        split: if_splits)
  ultimately have "video_out_char A c v = Some v'" by (simp add: video_out_char_def)
  moreover have "picture mem v' x y = fb mem u x (y + window v)" for x y
    using drawn_picture [OF m(1)] m(4,5) by (simp add: v'_def f)
  moreover have "view_ok A bank mem v'" using m(1) by (simp add: drawn_def v'_def)
  moreover have "(cursor_col v', cursor_row v') = p" using m(2,3) by (simp add: v'_def)
  ultimately show ?thesis using u(3) by (simp add: p_def)
qed

subsection \<open>Scrolling\<close>

lemma screen_ok_window:
  "screen_ok A bank mem v \<Longrightarrow> w \<le> 1208 \<Longrightarrow> screen_ok A bank mem (v\<lparr>vheap := h, video_window_y := w\<rparr>)"
  by (simp add: screen_ok_def)

lemma range_places:
  assumes "b \<le> 65536" "d \<le> 65536"
  shows "(\<exists>i \<in> set [a ..< b]. \<exists>j \<in> set [c ..< d]. x = unat (of_nat i :: u16) \<and> y = unat (of_nat j :: u16)) \<longleftrightarrow>
    a \<le> x \<and> x < b \<and> c \<le> y \<and> y < d"
proof
  assume "a \<le> x \<and> x < b \<and> c \<le> y \<and> y < d"
  then show "\<exists>i \<in> set [a ..< b]. \<exists>j \<in> set [c ..< d]. x = unat (of_nat i :: u16) \<and> y = unat (of_nat j :: u16)"
    using assms by (intro bexI [of _ x] bexI [of _ y]) (simp_all add: unat_of_nat_u16)
qed (use assms in \<open>auto simp: unat_of_nat_u16\<close>)

lemma clear_new_lines:
  assumes "screen_ok A bank mem v" "cx v \<le> 60000"
  shows "screen_ok A bank mem (clear_new_lines A v)"
    "painted (\<lambda>x y. x < 800 \<and> 600 \<le> y \<and> y < 608) (\<lambda>x y. 0) mem v (clear_new_lines A v)"
proof -
  note s = screen_okD [OF assms(1)]
  have e: "clear_new_lines A v = fold (\<lambda>i. fold (\<lambda>j. video_set_pixel A (of_nat i) (of_nat j) DEF_BACKGROUND)
      [600 ..< 608]) [0 ..< 800] v"
    by (simp add: clear_new_lines_def s)
  have r: "unat (of_nat i :: u16) < 800 \<and> unat (of_nat j :: u16) + window v \<le> 2000 \<and> ucast DEF_BACKGROUND = (0 :: u8)"
    if "i \<in> set [0 ..< 800]" "j \<in> set [600 ..< 608]" for i j
  proof -
    have "i < 800" "j < 608" using that by auto
    then show ?thesis using s(6) by (simp add: unat_of_nat_u16)
  qed
  have c: "(\<exists>i \<in> set [0 ..< 800]. \<exists>j \<in> set [600 ..< 608]. x = unat (of_nat i :: u16) \<and> y = unat (of_nat j :: u16)) \<longleftrightarrow>
      x < 800 \<and> 600 \<le> y \<and> y < 608" for x y
    by (subst range_places) simp_all
  note p = paint_rectangle [OF assms, of "[0 ..< 800]" "[600 ..< 608]"
      "\<lambda>i j. video_set_pixel A (of_nat i) (of_nat j) DEF_BACKGROUND" "\<lambda>i j. of_nat i" "\<lambda>i j. of_nat j"
      "\<lambda>i j. DEF_BACKGROUND" "\<lambda>x y. 0", OF refl r]
  show "screen_ok A bank mem (clear_new_lines A v)"
    "painted (\<lambda>x y. x < 800 \<and> 600 \<le> y \<and> y < 608) (\<lambda>x y. 0) mem v (clear_new_lines A v)"
    using p unfolding e c by auto
qed

lemma line_read:
  fixes u :: "'d video" and w :: u16
  assumes "screen_ok A bank mem u" "window u = 0" "cx u \<le> 801" "cy u < 600" "8 \<le> j" "j < 600" "1200 \<le> unat w"
    "unat w \<le> 1208" "n \<le> 800"
  shows "\<exists>u'. fold (\<lambda>i (l, v). let (p, v) = get_pixel A (of_nat i) (of_nat j + w) True v in (l @ [ucast p], v))
      [0 ..< n] ([], u) = (map (\<lambda>i. fb mem u i (j + unat w)) [0 ..< n], u') \<and>
    frozen u' = frozen u \<and> screen_ok A bank mem u' \<and> cursor_buff u' = cursor_buff u \<and> fb mem u' = fb mem u"
  using assms(9)
proof (induction n)
  case 0
  show ?case using assms(1) by simp
next
  case (Suc n)
  then obtain u' where u': "fold (\<lambda>i (l, v). let (p, v) = get_pixel A (of_nat i) (of_nat j + w) True v in (l @ [ucast p], v))
      [0 ..< n] ([], u) = (map (\<lambda>i. fb mem u i (j + unat w)) [0 ..< n], u')"
    "frozen u' = frozen u" "screen_ok A bank mem u'" "cursor_buff u' = cursor_buff u" "fb mem u' = fb mem u"
    by auto
  note f = frozen_window [OF u'(2)]
  have y: "unat (of_nat j + w) = j + unat w"
    using assms(6,8) by (subst unat_plus_u16) (simp_all add: unat_of_nat_u16)
  have x: "unat (of_nat n :: u16) = n" using Suc.prems by (simp add: unat_of_nat_u16)
  have le: "unat (of_nat j + w) + window u' \<le> 2000" using assms(2,6,8) y f by simp
  have nb: "\<not> behind_cursor u' (of_nat n) (of_nat j + w)"
    using assms(3,4,5,7) by (simp add: behind_iff f y)
  obtain u'' where "get_pixel A (of_nat n) (of_nat j + w) True u' = (ucast (fb mem u n (j + unat w)), u'')"
    "frozen u'' = frozen u'" "screen_ok A bank mem u''" "cursor_buff u'' = cursor_buff u'" "fb mem u'' = fb mem u'"
    using get_pixel [OF u'(3) le, of True "of_nat n"] nb by (auto simp: y x u'(5) f assms(2))
  then show ?case using u' by (intro exI [of _ u'']) simp
qed

lemma copy_line:
  fixes u :: "'d video" and w :: u16
  assumes "screen_ok A bank mem u" "window u = 0" "cx u \<le> 801" "cy u < 600" "8 \<le> j" "j < 600" "1200 \<le> unat w"
    "unat w \<le> 1208"
  shows "screen_ok A bank mem (copy_line A w j u)"
    "painted (\<lambda>x y. x < 800 \<and> y = j) (\<lambda>x y. fb mem u x (y + unat w)) mem u (copy_line A w j u)"
proof -
  note s = screen_okD [OF assms(1)]
  obtain u' where u': "fold (\<lambda>i (l, v). let (p, v) = get_pixel A (of_nat i) (of_nat j + w) True v in (l @ [ucast p], v))
      [0 ..< 800] ([], u) = (map (\<lambda>i. fb mem u i (j + unat w)) [0 ..< 800], u')"
    "frozen u' = frozen u" "screen_ok A bank mem u'" "cursor_buff u' = cursor_buff u" "fb mem u' = fb mem u"
    using line_read [OF assms, of 800] by auto
  define l where "l = map (\<lambda>i. fb mem u i (j + unat w)) [0 ..< 800]"
  have c: "copy_line A w j u = fold (\<lambda>i. video_set_pixel A (of_nat i) (of_nat j) (ucast (l ! i))) [0 ..< 800] u'"
    using u'(1) by (simp add: copy_line_def s l_def frozenD [OF u'(2)])
  have "screen_ok A bank mem (copy_line A w j u) \<and>
    painted (\<lambda>x y. \<exists>i \<in> set [0 ..< 800]. x = i \<and> y = j) (\<lambda>x y. fb mem u x (y + unat w)) mem u' (copy_line A w j u)"
    unfolding c
  proof (rule paint_fold [where ?v0.0 = u, OF u'(3) _ u'(2)])
    fix i and v :: "'d video"
    assume i: "i \<in> set [0 ..< 800]" and v: "screen_ok A bank mem v" "frozen v = frozen u"
    have x: "unat (of_nat i :: u16) = i" "unat (of_nat j :: u16) = j" "i < 800"
      using i assms(6) by (simp_all add: unat_of_nat_u16)
    have le: "unat (of_nat j :: u16) + window v \<le> 2000" using assms(2,6) x frozen_window [OF v(2)] by simp
    show "screen_ok A bank mem (video_set_pixel A (of_nat i) (of_nat j) (ucast (l ! i)) v) \<and>
        painted (\<lambda>x y. x = i \<and> y = j) (\<lambda>x y. fb mem u x (y + unat w)) mem v
          (video_set_pixel A (of_nat i) (of_nat j) (ucast (l ! i)) v)"
      using painted_pixel [OF v(1) le, of "of_nat i" "\<lambda>x y. fb mem u x (y + unat w)" "ucast (l ! i)"] assms(3)
        frozen_window [OF v(2)] x by (simp add: video_set_pixel(2) [OF v(1) le] l_def)
  qed
  then show "screen_ok A bank mem (copy_line A w j u)"
    "painted (\<lambda>x y. x < 800 \<and> y = j) (\<lambda>x y. fb mem u x (y + unat w)) mem u (copy_line A w j u)"
    using u'(2,4,5) by (simp_all add: painted_def frozen_window [OF u'(2)] frozenD [OF u'(2)])
qed

lemma lines_copied:
  fixes v :: "'d video" and w :: u16
  assumes "screen_ok A bank mem v" "window v = 0" "cx v \<le> 801" "cy v < 600" "1200 \<le> unat w" "unat w \<le> 1208"
    "n \<le> 592"
  shows "screen_ok A bank mem (fold (copy_line A w) [8 ..< 8 + n] v) \<and>
    painted (\<lambda>x y. x < 800 \<and> 8 \<le> y \<and> y < 8 + n) (\<lambda>x y. fb mem v x (y + unat w)) mem v
      (fold (copy_line A w) [8 ..< 8 + n] v)"
  using assms(7)
proof (induction n)
  case 0
  have "painted (\<lambda>x y. x < 800 \<and> 8 \<le> y \<and> y < 8 + 0) (\<lambda>x y. fb mem v x (y + unat w)) mem v v"
    by (rule painted_cong [OF painted_refl]) auto
  then show ?case using assms(1) by simp
next
  case (Suc n)
  define u where "u = fold (copy_line A w) [8 ..< 8 + n] v"
  have u: "screen_ok A bank mem u"
    "painted (\<lambda>x y. x < 800 \<and> 8 \<le> y \<and> y < 8 + n) (\<lambda>x y. fb mem v x (y + unat w)) mem v u"
    using Suc by (simp_all add: u_def)
  note q = paintedD [OF u(2)]
  note f = frozen_window [OF q(1)]
  have fu: "window u = 0" "cx u \<le> 801" "cy u < 600" using assms(2-4) by (simp_all add: f)
  have n: "8 \<le> 8 + n" "8 + n < 600" using Suc.prems by simp_all
  note c = copy_line [OF u(1) fu n assms(5,6)]
  have "fb mem u x (8 + n + unat w) = fb mem v x (8 + n + unat w)" if "x < 800" for x
    using that n assms(2,5,6) by (simp add: q(2))
  then have "painted (\<lambda>x y. x < 800 \<and> y = 8 + n) (\<lambda>x y. fb mem v x (y + unat w)) mem u (copy_line A w (8 + n) u)"
    by (intro painted_cong [OF c(2)]) auto
  from painted_trans [OF u(2) this]
  have "painted (\<lambda>x y. x < 800 \<and> 8 \<le> y \<and> y < 8 + Suc n) (\<lambda>x y. fb mem v x (y + unat w)) mem v (copy_line A w (8 + n) u)"
    by (rule painted_cong) auto
  moreover have "[8 ..< 8 + Suc n] = [8 ..< 8 + n] @ [8 + n]" by (subst add_Suc_right, rule upt_Suc_append) simp
  then have "fold (copy_line A w) [8 ..< 8 + Suc n] v = copy_line A w (8 + n) u"
    by (simp only: fold_append fold.simps comp_apply id_apply u_def)
  ultimately show ?case using c(1) by simp
qed

text \<open>The window before new lines are shown: the last 592 lines of the picture are in place.\<close>

definition ready :: "('d \<Rightarrow> u32 \<Rightarrow> u8) \<Rightarrow> 'd video \<Rightarrow> 'd video \<Rightarrow> bool" where
  "ready mem u v \<longleftrightarrow> cursor_col v = cursor_col u \<and> cursor_row v = cursor_row u \<and> cursor_shown v = cursor_shown u \<and>
     cursor_blink_state v = cursor_blink_state u \<and> cx v = cx u \<and> cy v = cy u \<and> window v \<le> 1200 \<and>
     (\<forall>x < 800. \<forall>y < 600. 8 \<le> y \<longrightarrow> fb mem v x (y + window v) = fb mem u x (y + window u)) \<and>
     (cursor_shown u \<noteq> 0 \<longrightarrow> (\<forall>k < 6. cursor_buff v ! k = fb mem u (cx u + k) (cy u + window u)))"

lemma reset_window:
  fixes u :: "'d video"
  assumes "screen_ok A bank mem u" "cx u \<le> 794" "8 \<le> cy u" "cy u < 600" "1200 < window u"
    "fst (heap_alloc (vheap_addr u) (vheap u) 800) \<noteq> 0"
  shows "\<exists>v. reset_window A u = Some v \<and> screen_ok A bank mem v \<and> ready mem u v"
proof -
  note s = screen_okD [OF assms(1)]
  obtain sc h where sc: "heap_alloc (vheap_addr u) (vheap u) 800 = (sc, h)" "sc \<noteq> 0"
    using assms(6) by (cases "heap_alloc (vheap_addr u) (vheap u) 800") auto
  define v0 where "v0 = u\<lparr>vheap := h, video_window_y := 0\<rparr>"
  have v0: "screen_ok A bank mem v0" unfolding v0_def by (rule screen_ok_window [OF assms(1)]) simp
  have g: "window v0 = 0" "cx v0 = cx u" "cy v0 = cy u" "fb mem v0 = fb mem u" "cursor_shown v0 = cursor_shown u"
    "cursor_buff v0 = cursor_buff u"
    by (simp_all add: v0_def window_def cx_def cy_def fb_def fun_eq_iff)
  define n :: nat where "n = 592"
  have n: "unat (video_font_h u) = 8" "unat (height_px u) = 8 + n" by (simp_all add: s n_def)
  have n600: "n = 592" by (simp add: n_def)
  define v1 where "v1 = fold (copy_line A (video_window_y u)) [8 ..< 8 + n] v0"
  define z where "z = v1\<lparr>vheap := heap_free (vheap v1) sc\<rparr>"
  have c: "screen_ok A bank mem v1"
    "painted (\<lambda>x y. x < 800 \<and> 8 \<le> y \<and> y < 8 + n) (\<lambda>x y. fb mem u x (y + window u)) mem v0 v1"
    using lines_copied [OF v0, of "video_window_y u" n] assms(2,4,5) s(6) eq_imp_le [OF n600]
    by (simp_all add: v1_def g g(1) [unfolded window_def] window_def)
  note q = paintedD [OF c(2)]
  note f = frozenD [OF q(1)] frozen_place [OF q(1)]
  have "reset_window A u = Some z"
    using sc by (simp add: reset_window_def s(2) n z_def v1_def v0_def Let_def)
  moreover have "screen_ok A bank mem z" using c(1) by (simp add: z_def screen_ok_def)
  moreover have zf: "window z = window v1" "cx z = cx v1" "cy z = cy v1" "fb mem z = fb mem v1"
    "cursor_shown z = cursor_shown v1" "cursor_buff z = cursor_buff v1" "cursor_col z = cursor_col v1"
    "cursor_row z = cursor_row v1" "cursor_blink_state z = cursor_blink_state v1"
    by (simp_all add: z_def window_def cx_def cy_def fb_def fun_eq_iff)
  have "ready mem u z"
    using assms(2-5) n600 unfolding ready_def zf by (simp add: f g q(2,3)) (simp add: v0_def)
  ultimately show ?thesis by blast
qed

lemma scroll_screen:
  assumes "screen_ok A bank mem v" "window v \<le> 1200"
  defines "v' \<equiv> io_scroll_screen A v"
  shows "screen_ok A bank mem v'" "window v' = window v + 8" "fb mem v' = fb mem v" "cx v' = cx v" "cy v' = cy v"
    "cursor_buff v' = cursor_buff v" "cursor_col v' = cursor_col v" "cursor_row v' = cursor_row v"
    "cursor_shown v' = cursor_shown v" "cursor_blink_state v' = cursor_blink_state v"
proof -
  note s = screen_okD [OF assms(1)]
  have w: "unat (video_window_y v + 8) = window v + 8"
    using assms(2) by (simp add: window_def unat_plus_u16)
  show "screen_ok A bank mem v'" using assms(1) w assms(2) s vesa_adapterD(6) [OF s(9)]
    by (simp add: v'_def io_scroll_screen_def screen_ok_def word_le_nat_alt Let_def)
  show "window v' = window v + 8" using w by (simp add: v'_def io_scroll_screen_def window_def s Let_def)
  show "fb mem v' = fb mem v"
    using vesa_adapterD(7) [OF s(9)] by (simp add: v'_def io_scroll_screen_def fb_def fun_eq_iff Let_def)
qed (simp_all add: v'_def io_scroll_screen_def cx_def cy_def Let_def)

text \<open>New lines and scrolling, from a window that is ready.\<close>

lemma scrolled:
  fixes v :: "'d video"
  assumes u: "drawn A bank mem u" "cursor_row u = 74" "cursor_col u < 100"
    "\<And>k. k < 6 \<Longrightarrow> fb mem u (cx u + k) (cy u + window u) = 0"
    and v: "screen_ok A bank mem v" "ready mem u v"
  defines "w \<equiv> io_scroll_screen A (clear_new_lines A v)"
  shows "drawn A bank mem w"
    "\<lbrakk> x < 800; y < 600 \<rbrakk> \<Longrightarrow> fb mem w x (y + window w) = (if y < 592 then fb mem u x (y + 8 + window u) else 0)"
proof -
  have vu: "view_ok A bank mem u" using u(1) by (simp add: drawn_def)
  note d = view_okD [OF vu]
  have cu: "cx u + 6 \<le> 800" "cy u = 599" using d(4) d(11) [OF u(3)] u(2) by (auto simp: bar_placed_def)
  have r: "cursor_col v = cursor_col u" "cursor_row v = cursor_row u" "cursor_shown v = cursor_shown u"
    "cursor_blink_state v = cursor_blink_state u" "cx v = cx u" "cy v = cy u" "window v \<le> 1200"
    "\<And>x y. x < 800 \<Longrightarrow> y < 600 \<Longrightarrow> 8 \<le> y \<Longrightarrow> fb mem v x (y + window v) = fb mem u x (y + window u)"
    "\<And>k. cursor_shown u \<noteq> 0 \<Longrightarrow> k < 6 \<Longrightarrow> cursor_buff v ! k = 0"
    using v(2) u(4) by (simp_all add: ready_def)
  define c where "c = clear_new_lines A v"
  have cc: "screen_ok A bank mem c" "painted (\<lambda>x y. x < 800 \<and> 600 \<le> y \<and> y < 608) (\<lambda>x y. 0) mem v c"
    using clear_new_lines [OF v(1)] cu r(5) by (simp_all add: c_def)
  note q = paintedD [OF cc(2)]
  note f = frozenD [OF q(1)] frozen_place [OF q(1)]
  have "window c \<le> 1200" using r(7) by (simp add: f)
  note s = scroll_screen [OF cc(1) this, folded c_def]
  have w: "w = io_scroll_screen A c" by (simp add: w_def c_def)
  show fw: "fb mem w x (y + window w) = (if y < 592 then fb mem u x (y + 8 + window u) else 0)"
    if "x < 800" "y < 600" for x y
  proof -
    have "fb mem c x (y + 8 + window v) = (if y < 592 then fb mem v x (y + 8 + window v) else 0)"
      using that r(7) by (auto simp: q(2))
    moreover have "fb mem v x (y + 8 + window v) = fb mem u x (y + 8 + window u)" if "y < 592"
      using r(8) [of x "y + 8"] \<open>x < 800\<close> that by simp
    moreover have "fb mem w x (y + window w) = fb mem c x (y + 8 + window v)"
      by (simp add: w s f add.commute add.left_commute)
    ultimately show ?thesis by simp
  qed
  have sy: "synced mem w" if "cursor_shown u \<noteq> 0"
  proof -
    have "cursor_buff w ! k = 0" if "k < 6" for k
      using that \<open>cursor_shown u \<noteq> 0\<close> cu r by (simp add: w s q(3))
    moreover have "fb mem w (cx w + k) (cy w + window w) = 0" if "k < 6" for k
      using fw [of "cx w + k" "cy w"] that cu by (simp add: w s f r)
    ultimately show ?thesis by (simp add: synced_def)
  qed
  have "bar_placed w" using d(4) by (simp add: bar_placed_def w s f r)
  then have "view_ok A bank mem w" using d(2,3,5,6) s(1) sy
    by (intro view_okI) (simp_all add: w s f r)
  then show "drawn A bank mem w" using sy by (simp add: drawn_def w s f r)
qed

text \<open>
  C17: a line feed on the last row blanks the cell of the cursor, moves the picture up by one row of text, clears
  the last row and leaves the cursor at its start, whether the display window moves on or is copied back.
\<close>

theorem newline_scrolls:
  assumes "view_ok A bank mem v" "cursor_col v < 100" "cursor_row v = 74"
    "fst (heap_alloc (vheap_addr v) (vheap v) 800) \<noteq> 0"
  shows "\<exists>v'. video_out_char A 0x0A v = Some v' \<and> view_ok A bank mem v' \<and> cursor_col v' = 0 \<and> cursor_row v' = 74 \<and>
    (\<forall>x < 800. \<forall>y < 600. picture mem v' x y =
       (if y < 592 \<and> \<not> in_cell (unat (cursor_col v)) 74 x (y + 8) then picture mem v x (y + 8) else 0))"
proof -
  define u where "u = video_draw_char A (cursor_col v * FNT_W) (cursor_row v * video_font_h v) (ucast (0x0A :: u8))
      (ucast (7 :: u8)) (ucast (0 :: u8)) v"
  note u = cell_drawn [OF assms(1,2), where c = "0x0A" and text_cl = 7 and back_cl = 0, folded u_def]
  note f = frozenD [OF u(2)] frozen_place [OF u(2)]
  have vu: "view_ok A bank mem u" using u(1) by (simp add: drawn_def)
  note d = view_okD [OF vu]
  note s = screen_okD [OF d(1)]
  have row: "cursor_row u = 74" "unat (cursor_row v) = 74" and col: "cursor_col u < 100" using assms(2,3) by (simp_all add: f)
  have cu: "cx u + 6 \<le> 800" "cy u = 599" using d(4) d(11) [OF col] row by (auto simp: bar_placed_def)
  have blank: "glyph_colour v 0x0A 7 0 x y = 0" for x y by (simp add: glyph_colour_def is_visible_char_def)
  have fu: "fb mem u x (y + window u) =
      (if in_cell (unat (cursor_col v)) 74 x y then 0 else picture mem v x y)" if "x < 800" "y < 600" for x y
    using u(3) [OF that] by (simp add: blank row f)
  have bar: "fb mem u (cx u + k) (cy u + window u) = 0" if "k < 6" for k
    using fu [of "cx u + k" "cy u"] bar_in_cell [OF d(4) that] cu that row by (simp add: f)
  have "\<exists>z. (if video_window_y u > 2 * height_px u then reset_window A u else Some u) = Some z \<and>
      screen_ok A bank mem z \<and> ready mem u z"
  proof (cases "1200 < window u")
    case True
    then show ?thesis using reset_window [OF d(1), of] cu assms(4) True
      by (simp add: s f window_def word_less_nat_alt)
  next
    case False
    have "ready mem u u" using False u(1) by (simp add: ready_def drawn_def synced_def)
    then show ?thesis using False d(1) by (auto simp: s window_def word_less_nat_alt)
  qed
  then obtain z where z: "(if video_window_y u > 2 * height_px u then reset_window A u else Some u) = Some z"
    "screen_ok A bank mem z" "ready mem u z" by blast
  define w where "w = io_scroll_screen A (clear_new_lines A z)"
  have w: "drawn A bank mem w" "fb mem w x (y + window w) = (if y < 592 then fb mem u x (y + 8 + window u) else 0)"
    if "x < 800" "y < 600" for x y
    using scrolled [OF u(1) row(1) col _ z(2,3), folded w_def] bar that by blast+
  define v' where "v' = set_cursor_pos_fast A 0 74 w"
  have z74: "unat (0 :: u16) \<le> 100" "unat (74 :: u16) < 75" by simp_all
  note m = moved_fast [OF w(1) [of 0 0, simplified] z74, folded v'_def]
  have "u = video_draw_char A (cursor_col v * FNT_W) (cursor_row v * video_font_h v) (ucast (0x0A :: u8)) DEF_TEXT
      DEF_BACKGROUND v" by (simp add: u_def)
  moreover have "update_cursor_after_char A 0x0A u = Some v'"
    using z(1) s(4,5) row col screen_okD(5) [OF z(2)] by (auto simp: update_cursor_after_char_def v'_def w_def word_less_nat_alt)
  ultimately have "video_out_char A 0x0A v = Some v'" by (simp add: video_out_char_def)
  moreover have "view_ok A bank mem v'" using m(1) by (simp add: drawn_def)
  moreover have "picture mem v' x y = (if y < 592 \<and> \<not> in_cell (unat (cursor_col v)) 74 x (y + 8)
      then picture mem v x (y + 8) else 0)" if "x < 800" "y < 600" for x y
    using w(2) [OF that] fu [OF that(1), of "y + 8"] drawn_picture [OF m(1), of x y] m(4,5) by simp
  ultimately show ?thesis using m(2,3) by blast
qed

subsection \<open>Clearing the screen\<close>

text \<open>
  Clearing blanks the whole picture, moves the window to the start of the memory and the cursor to the top left
  corner, and the cursor is shown afterwards if it was before.
\<close>

lemma screen_cleared:
  assumes "view_ok A bank mem v" "cursor_col v < 100"
  shows "view_ok A bank mem (video_clear_screen A v) \<and> cursor_col (video_clear_screen A v) = 0 \<and>
    cursor_row (video_clear_screen A v) = 0 \<and> video_window_y (video_clear_screen A v) = 0 \<and>
    (cursor_shown (video_clear_screen A v) \<noteq> 0 \<longleftrightarrow> cursor_shown v \<noteq> 0) \<and>
    (\<forall>x < 800. \<forall>y < 600. picture mem (video_clear_screen A v) x y = 0)"
proof -
  define h where "h = (video_hide_cursor A v)\<lparr>video_window_y := 0\<rparr>"
  note hid = hidden_keeps_picture [OF assms]
  note dh = view_okD [OF hid(1)]
  have h: "screen_ok A bank mem h" "window h = 0" "cx h \<le> 60000" "cursor_shown h = 0" "bar_placed h"
    "unat (cursor_col h) \<le> 100" "unat (cursor_row h) < 75" "cursor_blink_state h = 0 \<or> cursor_blink_state h = 1"
    "cursor_col h < 100"
    using dh(1-6,8) hid(2,4) assms(2) by (simp_all add: h_def screen_ok_def window_def cx_def cy_def bar_placed_def)
  note s = screen_okD [OF h(1)]
  define c where "c = fold (\<lambda>j. fold (\<lambda>i. video_set_pixel A (of_nat i) (of_nat j) DEF_BACKGROUND)
      [0 ..< unat (width_px h)]) [0 ..< unat (height_px h)] h"
  have wh: "unat (width_px h) = 800" "unat (height_px h) = 600" by (simp_all add: s)
  have c: "screen_ok A bank mem c" "painted (\<lambda>x y. x < 800 \<and> y < 600) (\<lambda>x y. 0) mem h c"
  proof -
    define X :: "nat \<Rightarrow> nat \<Rightarrow> u16" where "X = (\<lambda>j i. of_nat i)"
    define Y :: "nat \<Rightarrow> nat \<Rightarrow> u16" where "Y = (\<lambda>j i. of_nat j)"
    have r: "unat (X j i) < 800 \<and> unat (Y j i) + window h \<le> 2000 \<and> ucast DEF_BACKGROUND = (0 :: u8)"
      if "j \<in> set [0 ..< unat (height_px h)]" "i \<in> set [0 ..< unat (width_px h)]" for i j
      using that unfolding wh by (simp add: unat_of_nat_u16 X_def Y_def h(2))
    note p = paint_rectangle [OF h(1,3), of "[0 ..< unat (height_px h)]" "[0 ..< unat (width_px h)]"
        "\<lambda>j i. video_set_pixel A (X j i) (Y j i) DEF_BACKGROUND" X Y "\<lambda>j i. DEF_BACKGROUND" "\<lambda>x y. 0", OF refl r]
    have e: "(\<exists>j \<in> set [0 ..< unat (height_px h)]. \<exists>i \<in> set [0 ..< unat (width_px h)].
        x = unat (X j i) \<and> y = unat (Y j i)) \<longleftrightarrow> x < 800 \<and> y < 600" for x y
      using range_places [of "unat (height_px h)" "unat (width_px h)" 0 0 y x] unfolding wh X_def Y_def by auto
    show "screen_ok A bank mem c" "painted (\<lambda>x y. x < 800 \<and> y < 600) (\<lambda>x y. 0) mem h c"
      using p unfolding e by (simp_all add: c_def X_def Y_def)
  qed
  note q = paintedD [OF c(2)]
  note f = frozenD [OF q(1)] frozen_place [OF q(1)] bar_frozen [OF q(1)]
  define d where "d = io_scroll_screen A (c\<lparr>video_window_y := - video_font_h c\<rparr>)"
  have d: "screen_ok A bank mem d" "window d = 0" "fb mem d = fb mem c" "cursor_shown d = 0" "bar_placed d"
    "cursor_col d = cursor_col h" "cursor_row d = cursor_row h" "cursor_blink_state d = cursor_blink_state h"
    using c(1) vesa_adapterD(6,7) [OF s(9)] h(4,5) s
    by (simp_all add: d_def io_scroll_screen_def Let_def window_def f screen_ok_def fb_def fun_eq_iff)
      (simp_all add: bar_placed_def cx_def cy_def f)
  have dv: "view_ok A bank mem d" using h(6-8) by (intro view_okI) (simp_all add: d)
  have dp: "picture mem d x y = 0" if "x < 800" "y < 600" for x y
    using that h(2) by (simp add: picture_hidden d q(2))
  have "cursor_col d < 100" using h(9) by (simp add: d)
  have z: "unat (0 :: u16) \<le> 100" "unat (0 :: u16) < 75" by simp_all
  define e where "e = video_set_cursor_pos A 0 0 d"
  note m = move_keeps_picture [OF dv \<open>cursor_col d < 100\<close> z, folded e_def]
  have we: "video_window_y e = 0"
  proof -
    have "video_window_y d = 0" using d(2) by (simp add: window_def unsigned_eq_0_iff)
    moreover have "video_window_y e = video_window_y d"
    proof (cases "0 \<noteq> cursor_col d \<or> 0 \<noteq> cursor_row d")
      case True
      then show ?thesis using d(4) by (simp add: e_def video_set_cursor_pos_def place_cursor_def)
    qed (simp add: e_def video_set_cursor_pos_def)
    ultimately show ?thesis by simp
  qed
  have ev: "video_clear_screen A v = (if cursor_shown v \<noteq> 0 then video_show_cursor A e else e)"
    by (simp add: video_clear_screen_def Let_def h_def c_def d_def e_def)
  have pe: "picture mem e x y = 0" if "x < 800" "y < 600" for x y
    using that m(4) dp by (simp add: same_picture_def)
  show ?thesis
  proof (cases "cursor_shown v = 0")
    case True
    then show ?thesis using m we pe d(4) by (simp add: ev)
  next
    case False
    note w = shown_keeps_picture [OF m(1)]
    have es: "cursor_shown e = 0" using m(5) d(4) by simp
    note b = buffer_updated [OF view_okD(1,8,9) [OF m(1)]]
    have "cursor_row (video_show_cursor A e) = 0" "video_window_y (video_show_cursor A e) = 0"
      "cursor_shown (video_show_cursor A e) = 1"
      using es m(3) we by (simp_all add: video_show_cursor_def Let_def frozenD [OF b(1)])
    then show ?thesis using False w m(2) pe by (simp add: ev same_picture_def)
  qed
qed

subsection \<open>The sample screen\<close>

theorem char_drawn_witness:
  "\<exists>v'. video_out_char sample_adapter 0x41 (sample_screen 16) = Some v' \<and> view_ok sample_adapter fst snd v' \<and>
    (cursor_col v', cursor_row v') = cursor_after 0x41 (5, 74) \<and>
    (\<forall>x < 800. \<forall>y < 600. picture snd v' x y =
       (if in_cell 5 74 x y then glyph_colour (sample_screen 16) 0x41 7 0 x y else picture snd (sample_screen 16) x y))"
proof -
  have "view_ok sample_adapter fst snd (sample_screen 16)" by (rule sample_screen_ok) simp
  moreover have c: "cursor_col (sample_screen 16) = 5" "cursor_row (sample_screen 16) = 74"
    by (simp_all add: sample_screen_def)
  ultimately show ?thesis using char_drawn [where A = sample_adapter and bank = fst and mem = snd and v = "sample_screen 16" and c = "0x41"] by simp
qed

theorem newline_scrolls_witness:
  "\<exists>v'. video_out_char sample_adapter 0x0A (sample_screen 1208) = Some v' \<and> view_ok sample_adapter fst snd v' \<and>
    cursor_col v' = 0 \<and> cursor_row v' = 74 \<and>
    (\<forall>x < 800. \<forall>y < 600. picture snd v' x y =
       (if y < 592 \<and> \<not> in_cell 5 74 x (y + 8) then picture snd (sample_screen 1208) x (y + 8) else 0))"
proof -
  have "view_ok sample_adapter fst snd (sample_screen 1208)" by (rule sample_screen_ok) simp
  moreover have "cursor_col (sample_screen 1208) = 5" "cursor_row (sample_screen 1208) = 74"
    by (simp_all add: sample_screen_def)
  moreover have "fst (heap_alloc 0x4000 (replicate 128 \<lparr>used = 0, ptr = 0\<rparr>) 800) \<noteq> 0" by code_simp
  then have "fst (heap_alloc (vheap_addr (sample_screen 1208)) (vheap (sample_screen 1208)) 800) \<noteq> 0"
    unfolding sample_screen_def by (simp only: video.select_convs simp_thms)
  ultimately show ?thesis using newline_scrolls [of sample_adapter fst snd "sample_screen 1208"] by simp
qed

end
