(* ===== verification/Spec2Isabelle.thy ===== *)
theory Spec2Isabelle
  imports Cli_Start Edit_Session File_Saving Kernel_Calls Mkfs_Image Nas_Program Net_Arp Unet Video_Chars
begin

text \<open>
  NANO S16 is an operating system for the 8086 in real mode: a kernel (memory, disks and a file system, screen, network,
  system calls, a command line), a library for user programs, three programs, and a host program that builds disk images.
  This development models its C code, about nine thousand lines, and proves what makes its parts correct, each and
  together.

  \<^bold>\<open>How the parts interact.\<close> A user program calls a function of the library, which packs its parameters into a
  structure and makes a system call with the far address of it. The kernel reads the parameters from the far memory
  of the caller, runs the service (allocators, file system, screen, keyboard, clock, network) and writes results back
  through far pointers. The file system reaches disks in bytes through \<open>read_disk\<close> and \<open>write_disk\<close>, which move
  whole sectors through the BIOS; the network drives its card through ports. The command line runs in the kernel, calls
  the file system directly and the library for the screen, and starts programs. Interrupts of the timer, the mouse and the
  network card change the state between steps.

  \<^bold>\<open>Theories and sources.\<close> Paths are below \<^verbatim>\<open>src/\<close>. Constants, records and functions keep the names of the code; a name
  that is taken has a suffix.

  \<^item> \<open>Prelude\<close>: machine types of \<^verbatim>\<open>source/types.h\<close>, arithmetic of words, searches. \<open>Layout\<close>, \<open>Byte_Order\<close>: structures and
    words as bytes. \<open>Allocator\<close>, \<open>Entry_Store\<close>: the interfaces of an allocator and of a table of entries.
  \<^item> \<open>Ulib_Memory\<close>, \<open>Ulib_String\<close>, \<open>Ulib_Format\<close>: the memory, string and output functions of \<^verbatim>\<open>source/ulib/ulib.c\<close>.
    \<open>Far_Memory\<close>: far pointers and \<open>lmemcpy\<close>. \<open>Ulib_Calls\<close>: the functions that make a system call.
  \<^item> \<open>Kernel_Heap\<close>, \<open>Kernel_Lmem\<close>: the two allocators of \<^verbatim>\<open>source/kernel.c\<close>. \<open>Syscall_Types\<close>, \<open>Kernel_Services\<close>: codes and
    parameters of \<^verbatim>\<open>source/syscall.h\<close> and \<open>kernel_service\<close>. \<open>Kernel_Devices\<close>: mouse, timer tick and the start of the kernel;
    \<open>Kernel_Start\<close>, \<open>Kernel_Calls\<close>: what holds after the start and stays true while the kernel runs.
  \<^item> \<open>Fs_Types\<close>, \<open>Fs_Disk\<close>, \<open>Fs_Entries\<close>, \<open>Fs_Path\<close>, \<open>Fs_Time\<close>, \<open>Fs_Chain\<close>, \<open>Fs_Ops\<close>: \<^verbatim>\<open>source/fs.c\<close> from the
    transfer of sectors up to the operations of \<^verbatim>\<open>source/fs.h\<close>. \<open>Fs_Directory\<close>, \<open>Fs_Safety\<close>, \<open>Fs_Contents\<close>, \<open>Fs_Growth\<close>: what
    these operations do to directories and files. \<open>File_Calls\<close>, \<open>File_Saving\<close>: files as a user program sees them;
    \<open>File_Samples\<close>: a sample machine.
  \<^item> \<open>Port_Io\<close>, \<open>Pci\<close>: ports and \<^verbatim>\<open>source/pci.c\<close>. \<open>Net_Checksum\<close>, \<open>Net\<close>, \<open>Net_Frames\<close>, \<open>Net_Arp\<close>: \<^verbatim>\<open>source/net.c\<close>.
  \<^item> \<open>Video\<close>, \<open>Video_Picture\<close>, \<open>Video_Chars\<close>: \<^verbatim>\<open>source/video.c\<close>.
  \<^item> \<open>Line_Editor\<close>, \<open>Line_Typing\<close>: \<open>getstr\<close>, the line editor of the library. \<open>Cli_Commands\<close>, \<open>Cli\<close>, \<open>Cli_Config\<close>, \<open>Cli_Start\<close>:
    \<^verbatim>\<open>source/cli.c\<close>.
  \<^item> \<open>Nas_Encode\<close>, \<open>Nas\<close>, \<open>Nas_Program\<close>: the assembler \<^verbatim>\<open>source/programs/nas.c\<close>. \<open>Edit\<close>, \<open>Edit_Text\<close>, \<open>Edit_Screen\<close>,
    \<open>Edit_Session\<close>: the text editor \<^verbatim>\<open>source/programs/edit.c\<close>. \<open>Unet\<close>: the network program \<^verbatim>\<open>source/programs/unet.c\<close>.
  \<^item> \<open>Mkfs\<close>, \<open>Mkfs_Image\<close>: the image builder \<^verbatim>\<open>fstools/mkfs.c\<close>.

  \<^bold>\<open>State and operations.\<close> A struct is a record, integers are words of their width and wrap. A component's static variables are a
  record (\<open>fs_state\<close>, \<open>net\<close>, \<open>video\<close>, \<open>editor\<close>), and \<open>kernel\<close> holds those the services share. Operations pass the state:
  \<open>fsm\<close> for the file system (an error code or a result), \<open>kernelm\<close> for services, library and command line, \<open>iom\<close> for code that
  drives a device. \<open>None\<close> is a run that never comes back. Near memory is a function from 16-bit addresses, far memory
  from 20-bit addresses, a disk from block numbers to sectors.

  \<^bold>\<open>Interfaces.\<close> \<open>allocator\<close> is what heap and far memory promise their clients (live blocks are disjoint and stay what they
  are), \<open>entry_store\<close> what the searches of the file system need of a table, \<open>layout\<close> what both sides of a structure in memory
  rely on (words, entries and the superblock), and \<open>parameter_block\<close>, which extends it, what library and kernel rely on for
  the parameters of a system call. Each is interpreted on the code's own definitions, in the theory that has them.

  \<^bold>\<open>What is proved.\<close>

  \<^item> Storage: transfers of any alignment are reads and updates of the flat image of a disk. Paths resolve component by
    component. Creating and deleting directories do what they should, or fail and change nothing, and never touch
    boot block, superblock or another disk. Writing inside a file and reading it back agree; a file grows block by block; a
    program that saves data under a new name reads it back, through library, system call and file system. The
    images \<open>mkfs\<close> builds are readable by the kernel.
  \<^item> Memory: the allocators are first fit, give disjoint blocks and keep them under any sequence of operations, for far memory
    any whose requests do not overflow 32 bits.
  \<^item> Kernel: starting the hardware ends, and establishes an invariant that every system call, interrupt and command and every change
    of memory outside the kernel's keeps, whatever the parameters.
  \<^item> Screen: characters, scrolling and the cursor are stated on the picture a user sees, for an adapter with banks. The
    drawing functions keep the picture under the cursor.
  \<^item> Network: a datagram sent is the datagram received, for the formats of Ethernet, IP and UDP; the address of a
    reachable node is learnt; the search for an address gives up. The table-driven CRC is the CRC.
  \<^item> Programs: \<open>getstr\<close> is an editor on strings; a session of the text editor is a session of an editor on a text, shown on
    the screen; the bytes the assembler makes of an instruction decode to it, and references to symbols are resolved; a
    command starts the program it names; a saved configuration restores what was saved.

  Where the code does not do what it means to, the theorem states what it does, or excludes the case by a hypothesis; the lemmas
  about such cases (\<open>alloc_blocks_repeats\<close>, \<open>set_entry_refcount_chains\<close>, \<open>get_nref_follows_one_link\<close>,
  \<open>lmem_alloc_exceeds_limit\<close>, \<open>huge_request_granted\<close>, \<open>draw_char_service_never_returns\<close>, \<open>wrapped_line_off_by_one\<close>,
  \<open>chat_append_behind\<close>, \<open>ident_mixes_two_values\<close>, \<open>stale_mouse_position\<close>) stand beside the definitions they are about.

  \<^bold>\<open>Bounds and termination.\<close> Nothing runs on fuel. Loops over indices are structural or have a measure; loops that follow data
  from a disk (chains of entries), poll a device or wait for a key are partial functions, whose result \<open>None\<close> means that they
  do not end, and the theorems prove that they do: the chain of a file is a list given in the hypothesis, a port settles,
  the keys are a script with a last key. File theorems are about files in one entry, at most 120 blocks or 61440 bytes:
  the code confuses the entries of longer chains. Paths have at most 63 bytes, the size of the buffer they are copied to.

  \<^bold>\<open>Parameters.\<close> What is not C code under \<^verbatim>\<open>src/\<close> is an argument or a field of the state: the devices behind the
  ports as functions of everything that happened on them, the BIOS calls for sectors (their result codes and what a failed
  one leaves behind), the geometry of the disks, the clock and the timer, the display adapter and its font, the keyboard, the number
  of card interrupts served while the code waits, the call of a loaded program, the contents of memory the code
  reads without having set it, and the addresses of variables whose address is taken. Theorems that need documented
  behaviour of such a parameter name it as a hypothesis (\<open>device_ok\<close>, \<open>nic_ready\<close>, \<open>settles\<close>, \<open>vesa_adapter\<close>), and their
  witnesses instantiate it. The order in which the compiler evaluates the operands of one expression matters twice, where the
  assembler encodes a value while it advances its output and where \<open>ip_send\<close> hands \<open>++id\<close> to a macro that evaluates it twice;
  left to right is assumed. Interrupts come where the code waits or
  between operations, not within one: the handlers of mouse and timer are steps of \<open>kernel_step\<close>, that of the card
  runs while \<open>wait\<close> does and where \<open>net_recv\<close> calls it.

  \<^bold>\<open>Not modelled.\<close> The boot sector, the loader and the assembly support (\<^verbatim>\<open>source/boot/boot.s\<close>, \<^verbatim>\<open>source/load.s\<close>,
  \<^verbatim>\<open>source/hw86.s\<close>, \<^verbatim>\<open>source/ulib/x86.s\<close>) and the sample program, which is assembly as well: what the C code calls
  of them is a parameter, and the entry points of interrupts and system calls are the places where the model starts. Debug output on
  the serial port. What a write behind an array does to the variables after it: where it can happen the model drops the
  write or keeps the memory after the array, as the theory says. Local variables of the kernel do not lie in far memory. The
  endless loop of the command line is \<open>cli n\<close>, any number of its turns. Declarations in headers have no behaviour of their own.
\<close>

end
